(* ===== verification/Prelude.thy ===== *)
theory Prelude
  imports Main "HOL-Library.AList" "HOL-Library.List_Lexorder" "HOL-Library.Char_ord"
    "HOL-Library.Sublist"
begin

text \<open>
  What every component shares: the exceptions of the program as one datatype with
  the subclass tests its \<open>except\<close> clauses make, Python texts as UTF-8 byte strings,
  Python dictionaries as association lists in insertion order, and the generic
  lemmas on lists and maps the component proofs use.

  Conventions.  A Python \<open>str\<close> is represented by its UTF-8 bytes, as a \<open>string\<close>
  (HOL's \<open>char\<close> is a byte), so \<open>encode("utf-8")\<close> is the identity, and comparing or
  sorting texts by code point is comparing their byte strings lexicographically.
  Python \<open>bytes\<close> are a \<open>string\<close> too.  A function that may raise returns
  \<open>exn + 'a\<close>; the message of an exception is not modelled, its class and the
  fields the program reads are.
\<close>

section \<open>Exceptions\<close>

datatype exn =
    ValueError | TypeError | KeyError | AttributeError | UnicodeError
  | OSError | FileNotFoundError | FileExistsError | NotADirectoryError
  | SqliteIntegrityError
  | UnsafeFileError
  | RecordFormatError
  | ArchiveError | IntegrityError | MissingObjectError | InvalidDigestError
  | DuplicateRunError | RecordNotFoundError | InvalidStateTransitionError
  | MissingArtifactError | ArtifactDriftError | ProvenanceError
  | LedgerSchemaError | LedgerMigrationError | SandboxFailedError
  | PayloadConflictError
  | PartialWriteError int
  | DispatchRefusedError | UnregisteredTargetError | ChunkValidationError
  | InputStagingError | UnsafeArtifactError | OutputLimitError
  | UnsupportedBackendError | SandboxUnavailableError
  | OtherError string
  | KeyboardInterrupt | SystemExit

text \<open>\<open>except ArchiveError\<close>, \<open>except ValueError\<close>, \<open>except OSError\<close> and
  \<open>except Exception\<close>: the class or one of its subclasses.\<close>

fun is_archive_error :: "exn \<Rightarrow> bool" where
  "is_archive_error ArchiveError = True"
| "is_archive_error IntegrityError = True"
| "is_archive_error MissingObjectError = True"
| "is_archive_error InvalidDigestError = True"
| "is_archive_error _ = False"

fun is_value_error :: "exn \<Rightarrow> bool" where
  "is_value_error ValueError = True"
| "is_value_error UnicodeError = True"
| "is_value_error UnsafeFileError = True"
| "is_value_error RecordFormatError = True"
| "is_value_error InvalidDigestError = True"
| "is_value_error ProvenanceError = True"
| "is_value_error PayloadConflictError = True"
| "is_value_error InputStagingError = True"
| "is_value_error UnsafeArtifactError = True"
| "is_value_error OutputLimitError = True"
| "is_value_error _ = False"

fun is_os_error :: "exn \<Rightarrow> bool" where
  "is_os_error OSError = True"
| "is_os_error FileNotFoundError = True"
| "is_os_error FileExistsError = True"
| "is_os_error NotADirectoryError = True"
| "is_os_error _ = False"

text \<open>\<open>KeyboardInterrupt\<close> and \<open>SystemExit\<close> are \<open>BaseException\<close>s only.\<close>

fun is_exception :: "exn \<Rightarrow> bool" where
  "is_exception KeyboardInterrupt = False"
| "is_exception SystemExit = False"
| "is_exception _ = True"

section \<open>Results and collections\<close>

type_synonym 'a result = "exn + 'a"

named_theorems dict_simps \<open>association lists as Python dictionaries\<close>
named_theorems frame_simps \<open>what an operation leaves unchanged\<close>

lemma sum_case_Inr_iff:
  "(case r of Inl e \<Rightarrow> Inl e | Inr x \<Rightarrow> f x) = Inr y \<longleftrightarrow> (\<exists>x. r = Inr x \<and> f x = Inr y)"
  by (cases r) auto

lemma map_sum_Inr_iff: "map_sum f g r = Inr y \<longleftrightarrow> (\<exists>x. r = Inr x \<and> y = g x)"
  by (cases r) auto

section \<open>Dictionaries\<close>

text \<open>
  A Python dictionary is an association list with distinct keys in insertion
  order; \<open>d[k] = v\<close> is \<^const>\<open>AList.update\<close>, which replaces in place or appends.
\<close>

type_synonym ('k, 'v) dict = "('k \<times> 'v) list"

definition dict_keys :: "('k, 'v) dict \<Rightarrow> 'k list" where
  "dict_keys d = map fst d"

definition dict_values :: "('k, 'v) dict \<Rightarrow> 'v list" where
  "dict_values d = map snd d"

text \<open>\<open>dict(pairs)\<close>, later pairs winning.\<close>

definition dict_of :: "('k \<times> 'v) list \<Rightarrow> ('k, 'v) dict" where
  "dict_of kvs = fold (\<lambda>(k, v) d. AList.update k v d) kvs []"

text \<open>\<open>d == e\<close> on dictionaries: the same keys with the same values.\<close>

definition dict_eq :: "('k, 'v) dict \<Rightarrow> ('k, 'v) dict \<Rightarrow> bool" where
  "dict_eq d e \<longleftrightarrow> (\<forall>k \<in> set (map fst d @ map fst e). map_of d k = map_of e k)"

lemma dict_eq_iff: "dict_eq d e \<longleftrightarrow> map_of d = map_of e"
proof
  assume h: "dict_eq d e"
  show "map_of d = map_of e"
  proof
    fix k
    show "map_of d k = map_of e k"
    proof (cases "k \<in> set (map fst d @ map fst e)")
      case True
      then show ?thesis using h by (auto simp: dict_eq_def)
    next
      case False
      then have "map_of d k = None" "map_of e k = None"
        by (auto simp: map_of_eq_None_iff)
      then show ?thesis by simp
    qed
  qed
qed (simp add: dict_eq_def)

lemma map_of_update [dict_simps, simp]: "map_of (AList.update k v d) = (map_of d)(k \<mapsto> v)"
  by (simp add: update_conv')

lemma distinct_update [dict_simps]:
  "distinct (map fst d) \<Longrightarrow> distinct (map fst (AList.update k v d))"
  by (rule AList.distinct_update)

lemma update_fresh [dict_simps]: "k \<notin> fst ` set d \<Longrightarrow> AList.update k v d = d @ [(k, v)]"
  by (induction d) auto

lemma dict_of_snoc: "dict_of (kvs @ [(k, v)]) = AList.update k v (dict_of kvs)"
  by (simp add: dict_of_def)

lemma fold_update_distinct:
  "distinct (map fst (d @ kvs)) \<Longrightarrow> fold (\<lambda>(k, v) d. AList.update k v d) kvs d = d @ kvs"
proof (induction kvs arbitrary: d)
  case Nil
  then show ?case by simp
next
  case (Cons p kvs)
  obtain k v where p: "p = (k, v)" by (cases p)
  from Cons.prems have "k \<notin> fst ` set d" by (auto simp: p)
  then have "AList.update k v d = d @ [(k, v)]" by (rule update_fresh)
  with Cons.IH [of "d @ [(k, v)]"] Cons.prems show ?case by (simp add: p)
qed

lemma dict_of_distinct: "distinct (map fst kvs) \<Longrightarrow> dict_of kvs = kvs"
  unfolding dict_of_def using fold_update_distinct [of "[]" kvs] by simp

lemma distinct_dict_of: "distinct (map fst (dict_of kvs))"
proof (induction kvs rule: rev_induct)
  case Nil
  then show ?case by (simp add: dict_of_def)
next
  case (snoc p kvs)
  then show ?case by (cases p) (simp add: dict_of_snoc distinct_update)
qed

section \<open>Sorting texts\<close>

text \<open>\<open>sorted(set(a) | set(b))\<close> on texts.\<close>

definition sorted_union :: "string list \<Rightarrow> string list \<Rightarrow> string list" where
  "sorted_union a b = sort (remdups (a @ b))"

lemma set_sorted_union [simp]: "set (sorted_union a b) = set a \<union> set b"
  by (simp add: sorted_union_def)

lemma map_of_sort_fst:
  fixes d :: "('k::linorder \<times> 'v) list"
  assumes "distinct (map fst d)"
  shows "map_of (sort_key fst d) = map_of d"
proof (rule map_of_inject_set [THEN iffD2])
  show "distinct (map fst (sort_key fst d))"
    using assms by (metis distinct_map distinct_sort set_sort)
qed (use assms in simp_all)

lemma sorted_distinct_keys_eq:
  fixes d e :: "('k::linorder \<times> 'v) list"
  assumes "sorted (map fst d)" "distinct (map fst d)" "sorted (map fst e)" "distinct (map fst e)"
    and "map_of d = map_of e"
  shows "d = e"
proof -
  have "set d = set e"
    using map_of_inject_set [OF assms(2,4)] assms(5) by simp
  then have keys: "map fst d = map fst e"
    using assms(1-4) by (metis image_set sorted_distinct_set_unique)
  show ?thesis
  proof (rule nth_equalityI)
    show len: "length d = length e" using keys by (metis length_map)
    fix i assume i: "i < length d"
    then have f: "fst (d ! i) = fst (e ! i)" using keys len by (metis nth_map)
    have "map_of d (fst (d ! i)) = Some (snd (d ! i))"
      using i assms(2) by (metis map_of_is_SomeI nth_mem prod.collapse)
    moreover have "map_of e (fst (e ! i)) = Some (snd (e ! i))"
      using i len assms(4) by (metis map_of_is_SomeI nth_mem prod.collapse)
    ultimately show "d ! i = e ! i" using f assms(5) by (metis option.inject prod.collapse)
  qed
qed

section \<open>Texts\<close>

abbreviation code :: "char \<Rightarrow> nat" where
  "code c \<equiv> of_char c"

definition starts_with :: "string \<Rightarrow> string \<Rightarrow> bool" where
  "starts_with p s = prefix p s"

definition ends_with :: "string \<Rightarrow> string \<Rightarrow> bool" where
  "ends_with p s = suffix p s"

fun joins :: "string \<Rightarrow> string list \<Rightarrow> string" where
  "joins sep [] = []"
| "joins sep [x] = x"
| "joins sep (x # y # xs) = x @ sep @ joins sep (y # xs)"

text \<open>\<open>s.split(c)\<close>: the fields between the separators, always at least one.\<close>

fun split_on :: "char \<Rightarrow> string \<Rightarrow> string list" where
  "split_on c [] = [[]]"
| "split_on c (x # xs) =
     (if x = c then [] # split_on c xs
      else case split_on c xs of [] \<Rightarrow> [[x]] | w # ws \<Rightarrow> (x # w) # ws)"

lemma split_on_nonempty [simp]: "split_on c s \<noteq> []"
  by (induction s) (auto split: list.splits)

lemma joins_split_on: "joins [c] (split_on c s) = s"
proof (induction s)
  case Nil
  then show ?case by simp
next
  case (Cons x xs)
  obtain w ws where s: "split_on c xs = w # ws"
    using split_on_nonempty [of c xs] by (cases "split_on c xs") auto
  show ?case
  proof (cases "x = c")
    case True
    then show ?thesis using Cons.IH by (simp add: s)
  next
    case False
    have "joins [c] ((x # w) # ws) = x # joins [c] (w # ws)" by (cases ws) auto
    with False Cons.IH show ?thesis by (simp add: s)
  qed
qed

lemma split_on_no_sep: "w \<in> set (split_on c s) \<Longrightarrow> c \<notin> set w"
  by (induction s arbitrary: w) (auto split: if_splits list.splits)

lemma split_on_append:
  "c \<notin> set a \<Longrightarrow> split_on c (a @ c # b) = a # split_on c b"
  by (induction a) auto

lemma split_on_single: "c \<notin> set a \<Longrightarrow> split_on c a = [a]"
  by (induction a) auto

lemma split_on_joins:
  "ws \<noteq> [] \<Longrightarrow> \<forall>w \<in> set ws. c \<notin> set w \<Longrightarrow> split_on c (joins [c] ws) = ws"
  by (induction "[c]" ws rule: joins.induct) (auto simp: split_on_append split_on_single)

end
