(* ===== verification/PyFloat.thy ===== *)
theory PyFloat
  imports Complex_Main Prelude
begin

text \<open>
  Python's \<open>float\<close> (IEEE 754 binary64) as the json module reads and writes it: a
  finite value is the rational number it denotes; \<open>round64\<close> is the correctly
  rounded (ties to even) conversion from an exact rational, and \<open>float_repr\<close> the
  shortest decimal text that converts back, in Python's layout.
\<close>

datatype pyfloat = PNum rat | PNegZero | PInf bool | PNaN

fun bit_len :: "nat \<Rightarrow> nat" where
  "bit_len n = (if n = 0 then 0 else Suc (bit_len (n div 2)))"

declare bit_len.simps [simp del]

definition pow_z :: "rat \<Rightarrow> int \<Rightarrow> rat" where
  "pow_z b k = (if 0 \<le> k then b ^ nat k else 1 / b ^ nat (- k))"

definition round_even :: "rat \<Rightarrow> int" where
  "round_even r =
     (let f = \<lfloor>r\<rfloor>; d = r - of_int f
      in if d < 1 / 2 then f else if 1 / 2 < d then f + 1 else if even f then f else f + 1)"

text \<open>\<open>round64 v\<close>: the nearest binary64 value; 53 significant bits, exponents from -1074.\<close>

definition round64 :: "rat \<Rightarrow> pyfloat" where
  "round64 v =
     (if v = 0 then PNum 0
      else let a = \<bar>v\<bar>; (n, d) = quotient_of a;
               e0 = int (bit_len (nat n)) - int (bit_len (nat d));
               e = (if a < pow_z 2 e0 then e0 - 1 else e0);
               k = max (e - 52) (- 1074);
               q = of_int (round_even (a / pow_z 2 k)) * pow_z 2 k
           in if 2 ^ 1024 \<le> q then PInf (v < 0)
              else if q = 0 then (if v < 0 then PNegZero else PNum 0)
              else PNum (if v < 0 then - q else q))"

section \<open>Decimal texts of integers\<close>

definition dec_digit :: "nat \<Rightarrow> char" where
  "dec_digit n = char_of (48 + n)"

fun show_nat :: "nat \<Rightarrow> string" where
  "show_nat n = (if n < 10 then [dec_digit n] else show_nat (n div 10) @ [dec_digit (n mod 10)])"

declare show_nat.simps [simp del]

definition show_int :: "int \<Rightarrow> string" where
  "show_int i = (if i < 0 then ''-'' @ show_nat (nat (- i)) else show_nat (nat i))"

definition is_dec :: "char \<Rightarrow> bool" where
  "is_dec c \<longleftrightarrow> 48 \<le> code c \<and> code c \<le> 57"

definition read_nat :: "string \<Rightarrow> nat" where
  "read_nat ds = foldl (\<lambda>a c. a * 10 + (code c - 48)) 0 ds"

lemma read_nat_snoc: "read_nat (ds @ [c]) = read_nat ds * 10 + (code c - 48)"
  by (simp add: read_nat_def)

lemma code_dec_digit: "n < 10 \<Longrightarrow> code (dec_digit n) = 48 + n"
  by (simp add: dec_digit_def)

lemma is_dec_digit: "n < 10 \<Longrightarrow> is_dec (dec_digit n)"
  by (simp add: is_dec_def code_dec_digit)

lemma read_show_nat: "read_nat (show_nat n) = n"
proof (induction n rule: show_nat.induct)
  case (1 n)
  show ?case
  proof (cases "n < 10")
    case True
    then show ?thesis
      by (subst show_nat.simps) (simp add: read_nat_def code_dec_digit)
  next
    case False
    then show ?thesis
      by (subst show_nat.simps) (simp add: read_nat_snoc code_dec_digit 1)
  qed
qed

lemma show_nat_dec: "c \<in> set (show_nat n) \<Longrightarrow> is_dec c"
proof (induction n rule: show_nat.induct)
  case (1 n)
  then show ?case
    by (subst (asm) (2) show_nat.simps) (auto split: if_splits intro: is_dec_digit)
qed

lemma show_nat_nonempty: "show_nat n \<noteq> []"
  by (subst show_nat.simps) simp

lemma hd_show_nat: "0 < n \<Longrightarrow> hd (show_nat n) \<noteq> CHR ''0''"
proof (induction n rule: show_nat.induct)
  case (1 n)
  show ?case
  proof (cases "n < 10")
    case True
    have "code (dec_digit n) = 48 + n" using True by (rule code_dec_digit)
    then have "dec_digit n \<noteq> CHR ''0''" using 1(2) by auto
    then show ?thesis using True by (subst show_nat.simps) simp
  next
    case False
    then show ?thesis
      using 1 by (subst show_nat.simps) (simp add: hd_append show_nat_nonempty)
  qed
qed

lemma show_nat_inj: "show_nat m = show_nat n \<Longrightarrow> m = n"
  by (metis read_show_nat)

section \<open>The shortest decimal text of a float\<close>

text \<open>
  \<open>dec_round v n\<close> is \<open>v > 0\<close> rounded to \<open>n\<close> significant decimal digits, as the
  digits and the position of the point: \<open>0.D * 10 ^ point\<close>.
\<close>

definition dec_exponent :: "rat \<Rightarrow> int" where
  "dec_exponent v =
     (let (n, d) = quotient_of v;
          p0 = int (length (show_nat (nat n))) - int (length (show_nat (nat d)))
      in if v < pow_z 10 p0 then p0 else p0 + 1)"

definition dec_round :: "rat \<Rightarrow> nat \<Rightarrow> string \<times> int" where
  "dec_round v n =
     (let p = dec_exponent v;
          q = round_even (v * pow_z 10 (int n - p))
      in if q = 10 ^ n then (''1'', p + 1) else (show_nat (nat q), p))"

definition dec_value :: "string \<times> int \<Rightarrow> rat" where
  "dec_value dp = (case dp of (ds, p) \<Rightarrow> of_nat (read_nat ds) * pow_z 10 (p - int (length ds)))"

fun shortest :: "rat \<Rightarrow> nat list \<Rightarrow> string \<times> int" where
  "shortest v [] = dec_round v 17"
| "shortest v (n # ns) =
     (if round64 (dec_value (dec_round v n)) = PNum v then dec_round v n else shortest v ns)"

definition layout :: "string \<times> int \<Rightarrow> string" where
  "layout dp =
     (case dp of (ds, p) \<Rightarrow>
       if p < - 3 \<or> 16 < p
       then take 1 ds @ (if length ds = 1 then [] else CHR ''.'' # drop 1 ds) @ ''e''
            @ (if p - 1 < 0 then ''-'' else ''+'')
            @ (if \<bar>p - 1\<bar> < 10 then ''0'' else []) @ show_nat (nat \<bar>p - 1\<bar>)
       else if p \<le> 0 then ''0.'' @ replicate (nat (- p)) (CHR ''0'') @ ds
       else if int (length ds) \<le> p
       then ds @ replicate (nat p - length ds) (CHR ''0'') @ ''.0''
       else take (nat p) ds @ ''.'' @ drop (nat p) ds)"

fun float_repr :: "pyfloat \<Rightarrow> string" where
  "float_repr PNegZero = ''-0.0''"
| "float_repr (PInf neg) = (if neg then ''-inf'' else ''inf'')"
| "float_repr PNaN = ''nan''"
| "float_repr (PNum r) =
     (if r = 0 then ''0.0''
      else (if r < 0 then ''-'' else []) @ layout (shortest \<bar>r\<bar> [1..<18]))"

end
