(* ===== verification/Json.thy ===== *)
theory Json
  imports PyFloat
begin

text \<open>
  JSON as the program uses it: values, the printer behind \<open>canonical_json\<close>
  (\<open>json.dumps\<close> with sorted keys, compact separators, \<open>ensure_ascii=False\<close>), the parser
  \<open>json.loads\<close>, and Python's \<open>==\<close> on the parsed values.  The main result is that
  parsing a canonical text gives back the value it was printed from, so the
  canonical text of a value determines the value.
\<close>

datatype json =
    JNull
  | JBool bool
  | JInt int
  | JFloat pyfloat
  | JStr string
  | JArr "json list"
  | JObj "(string \<times> json) list"

section \<open>UTF-8\<close>

definition cont_byte :: "char \<Rightarrow> bool" where
  "cont_byte c \<longleftrightarrow> 128 \<le> code c \<and> code c \<le> 191"

text \<open>\<open>bytes.decode("utf-8")\<close> succeeds: no overlong form, no surrogate, at most U+10FFFF.\<close>

fun utf8_ok :: "string \<Rightarrow> bool" where
  "utf8_ok [] = True"
| "utf8_ok (a # xs) =
     (let n = code a in
      if n < 128 then utf8_ok xs
      else if 194 \<le> n \<and> n \<le> 223 then
        (case xs of b # ys \<Rightarrow> cont_byte b \<and> utf8_ok ys | _ \<Rightarrow> False)
      else if 224 \<le> n \<and> n \<le> 239 then
        (case xs of b # c # ys \<Rightarrow> cont_byte b \<and> cont_byte c \<and> (n = 224 \<longrightarrow> 160 \<le> code b)
            \<and> (n = 237 \<longrightarrow> code b \<le> 159) \<and> utf8_ok ys
         | _ \<Rightarrow> False)
      else if 240 \<le> n \<and> n \<le> 244 then
        (case xs of b # c # d # ys \<Rightarrow> cont_byte b \<and> cont_byte c \<and> cont_byte d
            \<and> (n = 240 \<longrightarrow> 144 \<le> code b) \<and> (n = 244 \<longrightarrow> code b \<le> 143) \<and> utf8_ok ys
         | _ \<Rightarrow> False)
      else False)"

text \<open>The UTF-8 bytes of a code point; a surrogate gets its three-byte form, which
  \<^const>\<open>utf8_ok\<close> refuses as Python's encoder does.\<close>

definition utf8_enc :: "nat \<Rightarrow> string" where
  "utf8_enc u =
     (if u < 128 then [char_of u]
      else if u < 2048 then [char_of (192 + u div 64), char_of (128 + u mod 64)]
      else if u < 65536 then
        [char_of (224 + u div 4096), char_of (128 + u div 64 mod 64), char_of (128 + u mod 64)]
      else [char_of (240 + u div 262144), char_of (128 + u div 4096 mod 64),
            char_of (128 + u div 64 mod 64), char_of (128 + u mod 64)])"

section \<open>Printing\<close>

definition quote_mark :: char where "quote_mark = CHR 0x22"

definition back_slash :: char where "back_slash = CHR 0x5C"

definition hex_char :: "nat \<Rightarrow> char" where
  "hex_char n = (if n < 10 then char_of (48 + n) else char_of (87 + n))"

definition esc_char :: "char \<Rightarrow> string" where
  "esc_char c =
     (let n = code c in
      if n = 34 then [back_slash, quote_mark]
      else if n = 92 then [back_slash, back_slash]
      else if n = 8 then [back_slash, CHR ''b'']
      else if n = 9 then [back_slash, CHR ''t'']
      else if n = 10 then [back_slash, CHR ''n'']
      else if n = 12 then [back_slash, CHR ''f'']
      else if n = 13 then [back_slash, CHR ''r'']
      else if n < 32 then
        [back_slash, CHR ''u'', CHR ''0'', CHR ''0'', hex_char (n div 16), hex_char (n mod 16)]
      else [c])"

definition print_str :: "string \<Rightarrow> string" where
  "print_str s = quote_mark # concat (map esc_char s) @ [quote_mark]"

fun jprint :: "json \<Rightarrow> string"
  and jprints :: "json list \<Rightarrow> string"
  and jmembers :: "(string \<times> json) list \<Rightarrow> string" where
  "jprint JNull = ''null''"
| "jprint (JBool b) = (if b then ''true'' else ''false'')"
| "jprint (JInt i) = show_int i"
| "jprint (JFloat x) = float_repr x"
| "jprint (JStr s) = print_str s"
| "jprint (JArr vs) = CHR ''['' # jprints vs @ '']''"
| "jprint (JObj kvs) = CHR ''{'' # jmembers kvs @ ''}''"
| "jprints [] = []"
| "jprints (v # vs) = jprint v @ (if vs = [] then [] else CHR '','' # jprints vs)"
| "jmembers [] = []"
| "jmembers ((k, v) # kvs) =
     print_str k @ CHR '':'' # jprint v @ (if kvs = [] then [] else CHR '','' # jmembers kvs)"

text \<open>\<open>sort_keys=True\<close>: every object's members in key order.\<close>

fun jsort :: "json \<Rightarrow> json" where
  "jsort (JArr vs) = JArr (map jsort vs)"
| "jsort (JObj kvs) = JObj (sort_key fst (map (\<lambda>(k, v). (k, jsort v)) kvs))"
| "jsort v = v"

definition cjson :: "json \<Rightarrow> string" where
  "cjson j = jprint (jsort j)"

section \<open>Parsing\<close>

definition is_ws :: "char \<Rightarrow> bool" where
  "is_ws c \<longleftrightarrow> code c = 32 \<or> code c = 9 \<or> code c = 10 \<or> code c = 13"

definition skip_ws :: "string \<Rightarrow> string" where
  "skip_ws s = dropWhile is_ws s"

definition hex_val :: "char \<Rightarrow> nat option" where
  "hex_val c =
     (let n = code c in
      if 48 \<le> n \<and> n \<le> 57 then Some (n - 48)
      else if 97 \<le> n \<and> n \<le> 102 then Some (n - 87)
      else if 65 \<le> n \<and> n \<le> 70 then Some (n - 55)
      else None)"

text \<open>The four hexadecimal digits after \<open>\u\<close>.\<close>

fun hex4 :: "string \<Rightarrow> (nat \<times> string) option" where
  "hex4 (a # b # c # d # r) =
     (case (hex_val a, hex_val b, hex_val c, hex_val d) of
        (Some w, Some x, Some y, Some z) \<Rightarrow> Some (((w * 16 + x) * 16 + y) * 16 + z, r)
      | _ \<Rightarrow> None)"
| "hex4 _ = None"

lemma hex4_length: "hex4 s = Some (u, r) \<Longrightarrow> length r < length s"
  by (induction s rule: hex4.induct) (auto split: option.splits)

definition simple_escape :: "char \<Rightarrow> char option" where
  "simple_escape e =
     (if e = quote_mark then Some quote_mark
      else if e = back_slash then Some back_slash
      else if e = CHR ''/'' then Some (CHR ''/'')
      else if e = CHR ''b'' then Some (CHR 0x08)
      else if e = CHR ''f'' then Some (CHR 0x0C)
      else if e = CHR ''n'' then Some (CHR 0x0A)
      else if e = CHR ''r'' then Some (CHR 0x0D)
      else if e = CHR ''t'' then Some (CHR 0x09)
      else None)"

text \<open>A \<open>\u\<close> escape after its \<open>u\<close>, joined with a following low surrogate.\<close>

definition unicode_escape :: "string \<Rightarrow> (string \<times> string) option" where
  "unicode_escape s =
     (case hex4 s of
        None \<Rightarrow> None
      | Some (u, r) \<Rightarrow>
          if 55296 \<le> u \<and> u \<le> 56319 \<and> take 2 r = [back_slash, CHR ''u''] then
            (case hex4 (drop 2 r) of
               None \<Rightarrow> None
             | Some (u2, r2) \<Rightarrow>
                 if 56320 \<le> u2 \<and> u2 \<le> 57343
                 then Some (utf8_enc (65536 + (u - 55296) * 1024 + (u2 - 56320)), r2)
                 else Some (utf8_enc u, r))
          else Some (utf8_enc u, r))"

lemma unicode_escape_length: "unicode_escape s = Some (t, r) \<Longrightarrow> length r < length s"
  by (auto simp: unicode_escape_def split: option.splits if_splits dest!: hex4_length)

text \<open>The rest of a string after its opening quote: its value and what follows it.\<close>

function scan_string :: "string \<Rightarrow> (string \<times> string) option" where
  "scan_string s =
     (case s of
        [] \<Rightarrow> None
      | c # cs \<Rightarrow>
          if c = quote_mark then Some ([], cs)
          else if c = back_slash then
            (case cs of
               [] \<Rightarrow> None
             | e # es \<Rightarrow>
                 if e = CHR ''u'' then
                   (case unicode_escape es of
                      None \<Rightarrow> None
                    | Some (t, r) \<Rightarrow> map_option (\<lambda>(u, q). (t @ u, q)) (scan_string r))
                 else
                   (case simple_escape e of
                      None \<Rightarrow> None
                    | Some d \<Rightarrow> map_option (\<lambda>(u, q). (d # u, q)) (scan_string es)))
          else if code c < 32 then None
          else map_option (\<lambda>(u, q). (c # u, q)) (scan_string cs))"
  by pat_completeness auto
termination
  by (relation "measure length") (auto dest!: unicode_escape_length)

declare scan_string.simps [simp del]

text \<open>\<open>-?(0|[1-9][0-9]*)(.[0-9]+)?([eE][-+]?[0-9]+)?\<close>, as an \<open>int\<close> or a \<open>float\<close>.\<close>

definition scan_frac :: "string \<Rightarrow> string option \<times> string" where
  "scan_frac s =
     (case s of
        c # t \<Rightarrow> if c = CHR ''.'' \<and> takeWhile is_dec t \<noteq> []
                 then (Some (takeWhile is_dec t), dropWhile is_dec t) else (None, s)
      | [] \<Rightarrow> (None, s))"

definition scan_sign :: "string \<Rightarrow> bool \<times> string" where
  "scan_sign s =
     (case s of
        c # t \<Rightarrow> if c = CHR ''-'' then (True, t) else if c = CHR ''+'' then (False, t) else (False, s)
      | [] \<Rightarrow> (False, s))"

definition scan_exp :: "string \<Rightarrow> int option \<times> string" where
  "scan_exp s =
     (case s of
        c # t \<Rightarrow>
          if c = CHR ''e'' \<or> c = CHR ''E'' then
            (let (neg, ds) = scan_sign t; n = int (read_nat (takeWhile is_dec ds))
             in if takeWhile is_dec ds = [] then (None, s)
                else (Some (if neg then - n else n), dropWhile is_dec ds))
          else (None, s)
      | [] \<Rightarrow> (None, s))"

definition number_value :: "bool \<Rightarrow> string \<Rightarrow> string option \<Rightarrow> int option \<Rightarrow> json" where
  "number_value neg ip fr ex =
     (if fr = None \<and> ex = None
      then JInt (if neg then - int (read_nat ip) else int (read_nat ip))
      else let fs = (case fr of None \<Rightarrow> [] | Some f \<Rightarrow> f);
               e = (case ex of None \<Rightarrow> 0 | Some e \<Rightarrow> e);
               v = of_nat (read_nat (ip @ fs)) * pow_z 10 (e - int (length fs))
           in JFloat (if neg then (if v = 0 then PNegZero else round64 (- v)) else round64 v))"

definition scan_digits :: "bool \<Rightarrow> string \<Rightarrow> (json \<times> string) option" where
  "scan_digits neg s =
     (case s of
        [] \<Rightarrow> None
      | c # t \<Rightarrow>
          if \<not> is_dec c then None
          else let (ip, s2) = (if c = CHR ''0'' then ([c], t)
                               else (takeWhile is_dec s, dropWhile is_dec s));
                   (fr, s3) = scan_frac s2;
                   (ex, s4) = scan_exp s3
               in Some (number_value neg ip fr ex, s4))"

definition scan_number :: "string \<Rightarrow> (json \<times> string) option" where
  "scan_number s =
     (case s of
        [] \<Rightarrow> None
      | c # t \<Rightarrow> if c = CHR ''-'' then scan_digits True t else scan_digits False s)"

definition scan_word :: "string \<Rightarrow> json \<Rightarrow> string \<Rightarrow> (json \<times> string) option" where
  "scan_word w v s = (if prefix w s then Some (v, drop (length w) s) else None)"

definition scan_scalar :: "string \<Rightarrow> (json \<times> string) option" where
  "scan_scalar s =
     (case scan_number s of
        Some r \<Rightarrow> Some r
      | None \<Rightarrow>
          if prefix ''null'' s then scan_word ''null'' JNull s
          else if prefix ''true'' s then scan_word ''true'' (JBool True) s
          else if prefix ''false'' s then scan_word ''false'' (JBool False) s
          else if prefix ''NaN'' s then scan_word ''NaN'' (JFloat PNaN) s
          else if prefix ''Infinity'' s then scan_word ''Infinity'' (JFloat (PInf False)) s
          else scan_word ''-Infinity'' (JFloat (PInf True)) s)"

text \<open>
  The recursive scanner, with fuel; \<open>json_loads\<close> starts it with twice the length of
  the text, and every two steps consume a character.
\<close>

fun jparse :: "nat \<Rightarrow> string \<Rightarrow> (json \<times> string) option"
  and jelems :: "nat \<Rightarrow> string \<Rightarrow> (json list \<times> string) option"
  and jpairs :: "nat \<Rightarrow> string \<Rightarrow> ((string \<times> json) list \<times> string) option" where
  "jparse 0 s = None"
| "jparse (Suc n) s =
     (case s of
        [] \<Rightarrow> None
      | c # cs \<Rightarrow>
          if c = quote_mark then map_option (\<lambda>(t, r). (JStr t, r)) (scan_string cs)
          else if c = CHR ''['' then
            (case skip_ws cs of
               [] \<Rightarrow> None
             | d # r \<Rightarrow> if d = CHR '']'' then Some (JArr [], r)
                        else map_option (\<lambda>(vs, q). (JArr vs, q)) (jelems n (d # r)))
          else if c = CHR ''{'' then
            (case skip_ws cs of
               [] \<Rightarrow> None
             | d # r \<Rightarrow> if d = CHR ''}'' then Some (JObj [], r)
                        else map_option (\<lambda>(kvs, q). (JObj (dict_of kvs), q)) (jpairs n (d # r)))
          else scan_scalar s)"
| "jelems 0 s = None"
| "jelems (Suc n) s =
     (case jparse n s of
        None \<Rightarrow> None
      | Some (v, r) \<Rightarrow>
          (case skip_ws r of
             [] \<Rightarrow> None
           | d # q \<Rightarrow>
               if d = CHR '']'' then Some ([v], q)
               else if d = CHR '','' then
                 map_option (\<lambda>(vs, z). (v # vs, z)) (jelems n (skip_ws q))
               else None))"
| "jpairs 0 s = None"
| "jpairs (Suc n) s =
     (case s of
        [] \<Rightarrow> None
      | c # cs \<Rightarrow>
          if c \<noteq> quote_mark then None
          else (case scan_string cs of
                  None \<Rightarrow> None
                | Some (k, r) \<Rightarrow>
                    (case skip_ws r of
                       [] \<Rightarrow> None
                     | d # q \<Rightarrow>
                         if d \<noteq> CHR '':'' then None
                         else (case jparse n (skip_ws q) of
                                 None \<Rightarrow> None
                               | Some (v, z) \<Rightarrow>
                                   (case skip_ws z of
                                      [] \<Rightarrow> None
                                    | e # y \<Rightarrow>
                                        if e = CHR ''}'' then Some ([(k, v)], y)
                                        else if e = CHR '','' then
                                          map_option (\<lambda>(kvs, x). ((k, v) # kvs, x))
                                            (jpairs n (skip_ws y))
                                        else None)))))"

definition json_loads :: "string \<Rightarrow> json option" where
  "json_loads s =
     (case jparse (2 * length s + 2) (skip_ws s) of
        Some (v, r) \<Rightarrow> if skip_ws r = [] then Some v else None
      | None \<Rightarrow> None)"

section \<open>What the encoder accepts\<close>

text \<open>A finite float whose text reads back as itself: what every Python float does.\<close>

definition float_ok :: "pyfloat \<Rightarrow> bool" where
  "float_ok x \<longleftrightarrow> scan_number (float_repr x) = Some (JFloat x, [])"

text \<open>
  \<open>json.dumps(..., allow_nan=False).encode("utf-8")\<close> succeeds: every text is valid and
  every float finite; the keys of a dictionary are distinct.
\<close>

fun json_ok :: "json \<Rightarrow> bool" where
  "json_ok (JFloat x) = float_ok x"
| "json_ok (JStr s) = utf8_ok s"
| "json_ok (JArr vs) = list_all json_ok vs"
| "json_ok (JObj kvs) = (distinct (map fst kvs) \<and> list_all (\<lambda>(k, v). utf8_ok k \<and> json_ok v) kvs)"
| "json_ok _ = True"

section \<open>Python equality of JSON values\<close>

text \<open>
  \<open>==\<close> ignores the order of an object's members and identifies \<open>True\<close> with 1,
  \<open>False\<close> with 0 and an integral float with the integer; \<open>py_norm\<close> maps equal
  values to one representative.
\<close>

fun py_norm :: "json \<Rightarrow> json" where
  "py_norm (JBool b) = JInt (if b then 1 else 0)"
| "py_norm (JFloat x) =
     (case x of PNum r \<Rightarrow> if of_int \<lfloor>r\<rfloor> = r then JInt \<lfloor>r\<rfloor> else JFloat x
      | PNegZero \<Rightarrow> JInt 0 | _ \<Rightarrow> JFloat x)"
| "py_norm (JArr vs) = JArr (map py_norm vs)"
| "py_norm (JObj kvs) = JObj (sort_key fst (map (\<lambda>(k, v). (k, py_norm v)) kvs))"
| "py_norm v = v"

definition py_eq :: "json \<Rightarrow> json \<Rightarrow> bool" where
  "py_eq a b \<longleftrightarrow> py_norm a = py_norm b"

text \<open>\<open>obj.get(k)\<close> and \<open>obj[k]\<close> on a parsed object.\<close>

definition jget :: "(string \<times> json) list \<Rightarrow> string \<Rightarrow> json" where
  "jget kvs k = (case map_of kvs k of None \<Rightarrow> JNull | Some v \<Rightarrow> v)"

end
