(* ===== verification/JsonLemmas.thy ===== *)
theory JsonLemmas
  imports Json
begin

text \<open>
  The JSON round trips the components rest on: the printer of \<^theory_text>\<open>Json\<close> and its scanner are
  inverse on representable values, and the canonical form is determined by the value.
\<close>

section \<open>Strings\<close>

lemma quote_neq [simp]: "quote_mark \<noteq> back_slash" "back_slash \<noteq> quote_mark"
  by (simp_all add: quote_mark_def back_slash_def)

lemma code_quote [simp]: "code quote_mark = 34" "code back_slash = 92"
  by (simp_all add: quote_mark_def back_slash_def)

lemma quote_neq_char [simp]:
  "quote_mark \<noteq> CHR ''u''" "back_slash \<noteq> CHR ''u''"
  by (simp_all add: quote_mark_def back_slash_def)

lemma scan_string_quote: "scan_string (quote_mark # cs) = Some ([], cs)"
  by (subst scan_string.simps) simp

lemma scan_string_plain:
  "c \<noteq> quote_mark \<Longrightarrow> c \<noteq> back_slash \<Longrightarrow> \<not> code c < 32 \<Longrightarrow>
   scan_string (c # cs) = map_option (\<lambda>(u, q). (c # u, q)) (scan_string cs)"
  by (subst scan_string.simps) simp

lemma scan_string_simple:
  "simple_escape e = Some d \<Longrightarrow> e \<noteq> CHR ''u'' \<Longrightarrow>
   scan_string (back_slash # e # es) = map_option (\<lambda>(u, q). (d # u, q)) (scan_string es)"
  by (subst scan_string.simps) simp

lemma scan_string_unicode:
  "unicode_escape es = Some (t, r) \<Longrightarrow>
   scan_string (back_slash # CHR ''u'' # es) = map_option (\<lambda>(u, q). (t @ u, q)) (scan_string r)"
  by (subst scan_string.simps) simp

lemma hex_val_hex_char: "n < 16 \<Longrightarrow> hex_val (hex_char n) = Some n"
  by (auto simp: hex_val_def hex_char_def Let_def)

lemma unicode_escape_control:
  assumes "n < 32"
  shows "unicode_escape (CHR ''0'' # CHR ''0'' # hex_char (n div 16) # hex_char (n mod 16) # r)
           = Some ([char_of n], r)"
proof -
  have z: "hex_val (CHR ''0'') = Some 0" by (simp add: hex_val_def)
  have "hex4 (CHR ''0'' # CHR ''0'' # hex_char (n div 16) # hex_char (n mod 16) # r) = Some (n, r)"
    using assms by (simp add: z hex_val_hex_char)
  then show ?thesis using assms by (simp add: unicode_escape_def utf8_enc_def)
qed

lemma scan_esc_char:
  "scan_string (esc_char c @ rest) = map_option (\<lambda>(u, q). (c # u, q)) (scan_string rest)"
proof -
  let ?n = "code c :: nat"
  have c: "(c = d) = (?n = code d)" for d by simp
  consider "?n = 34 \<or> ?n = 92 \<or> ?n = 8 \<or> ?n = 9 \<or> ?n = 10 \<or> ?n = 12 \<or> ?n = 13"
    | "?n < 32" "?n \<noteq> 8" "?n \<noteq> 9" "?n \<noteq> 10" "?n \<noteq> 12" "?n \<noteq> 13"
    | "\<not> ?n < 32" "?n \<noteq> 34" "?n \<noteq> 92" by fastforce
  then show ?thesis
  proof cases
    case 1
    then have "c \<in> {quote_mark, back_slash, CHR 0x08, CHR 0x09, CHR 0x0A, CHR 0x0C, CHR 0x0D}"
      unfolding insert_iff c by simp
    then have "\<exists>e. esc_char c = [back_slash, e] \<and> e \<noteq> CHR ''u'' \<and> simple_escape e = Some c"
      by (elim insertE) (simp_all add: esc_char_def simple_escape_def quote_mark_def back_slash_def)
    then show ?thesis by (auto simp: scan_string_simple)
  next
    case 2
    then have "esc_char c = [back_slash, CHR ''u'', CHR ''0'', CHR ''0'', hex_char (?n div 16), hex_char (?n mod 16)]"
      by (simp add: esc_char_def Let_def)
    then show ?thesis
      using 2 unicode_escape_control [of ?n rest] by (simp add: scan_string_unicode)
  next
    case 3
    then have "c \<noteq> quote_mark" "c \<noteq> back_slash" by (auto simp: c)
    then show ?thesis
      using 3 by (simp add: esc_char_def scan_string_plain)
  qed
qed

lemma scan_escaped: "scan_string (concat (map esc_char s) @ quote_mark # rest) = Some (s, rest)"
  by (induction s) (simp_all add: scan_string_quote scan_esc_char)

lemma scan_print_str: "scan_string (tl (print_str s @ rest)) = Some (s, rest)"
  by (simp add: print_str_def scan_escaped)

lemma print_str_Cons: "print_str s @ rest = quote_mark # tl (print_str s @ rest)"
  by (simp add: print_str_def)

section \<open>Numbers\<close>

text \<open>What may follow a number: the end of the text or a separator.\<close>

definition num_end :: "string \<Rightarrow> bool" where
  "num_end r \<longleftrightarrow> r = [] \<or> hd r = CHR '','' \<or> hd r = CHR '']'' \<or> hd r = CHR ''}''"

lemma num_end_simps [simp]:
  "num_end []" "num_end (CHR '','' # r)" "num_end (CHR '']'' # r)" "num_end (CHR ''}'' # r)"
  by (simp_all add: num_end_def)

lemma num_end_not_dec: "num_end r \<Longrightarrow> r \<noteq> [] \<Longrightarrow> \<not> is_dec (hd r)"
  by (auto simp: num_end_def is_dec_def)

lemma takeWhile_num_end: "num_end r \<Longrightarrow> takeWhile is_dec (s @ r) = takeWhile is_dec s"
proof (induction s)
  case Nil
  then show ?case by (cases r) (auto dest: num_end_not_dec)
qed simp

lemma dropWhile_num_end: "num_end r \<Longrightarrow> dropWhile is_dec (s @ r) = dropWhile is_dec s @ r"
proof (induction s)
  case Nil
  then show ?case by (cases r) (auto dest: num_end_not_dec)
qed simp

lemma scan_frac_append: "num_end r \<Longrightarrow> scan_frac (s @ r) = (fst (scan_frac s), snd (scan_frac s) @ r)"
proof (cases s)
  case Nil
  assume "num_end r"
  with Nil show ?thesis by (cases r) (auto simp: scan_frac_def num_end_def)
next
  case (Cons c t)
  assume "num_end r"
  with Cons show ?thesis by (simp add: scan_frac_def takeWhile_num_end dropWhile_num_end)
qed

lemma scan_sign_append: "num_end r \<Longrightarrow> scan_sign (s @ r) = (fst (scan_sign s), snd (scan_sign s) @ r)"
  by (cases s; cases r) (auto simp: scan_sign_def num_end_def)

lemma scan_exp_append: "num_end r \<Longrightarrow> scan_exp (s @ r) = (fst (scan_exp s), snd (scan_exp s) @ r)"
proof (cases s)
  case Nil
  assume "num_end r"
  with Nil show ?thesis by (cases r) (auto simp: scan_exp_def num_end_def)
next
  case (Cons c t)
  assume "num_end r"
  with Cons show ?thesis
    by (simp add: scan_exp_def scan_sign_append takeWhile_num_end dropWhile_num_end
        Let_def case_prod_beta)
qed

lemma scan_digits_append:
  "scan_digits neg s = Some (v, q) \<Longrightarrow> num_end r \<Longrightarrow> scan_digits neg (s @ r) = Some (v, q @ r)"
  using takeWhile_num_end [of r s] dropWhile_num_end [of r s]
  by (auto simp: scan_digits_def scan_frac_append scan_exp_append Let_def case_prod_beta
      split: list.splits if_splits)

lemma scan_number_append:
  "scan_number s = Some (v, q) \<Longrightarrow> num_end r \<Longrightarrow> scan_number (s @ r) = Some (v, q @ r)"
  using scan_digits_append [of True "tl s" v q r] scan_digits_append [of False s v q r]
  by (auto simp: scan_number_def split: list.splits if_splits)

lemma takeWhile_all: "\<forall>c \<in> set s. P c \<Longrightarrow> takeWhile P s = s \<and> dropWhile P s = []"
  by (induction s) auto

lemma scan_number_nat:
  "scan_number (show_nat n) = Some (JInt (int n), [])"
proof -
  obtain c u where s: "show_nat n = c # u" using show_nat_nonempty [of n] by (cases "show_nat n") auto
  have dec: "\<forall>d \<in> set (c # u). is_dec d" using show_nat_dec [of _ n] s by metis
  then have nm: "c \<noteq> CHR ''-''" by (auto simp: is_dec_def)
  have rd: "read_nat (c # u) = n" using read_show_nat [of n] s by simp
  have zero: "char_of (48::nat) = CHR ''0''" by (rule of_char_eq_iff [where 'a = nat, THEN iffD1]) simp
  have z: "u = []" if "c = CHR ''0''"
  proof (rule ccontr)
    assume "u \<noteq> []"
    have "n = 0" using hd_show_nat [of n] s that by auto
    then have "show_nat n = ''0''" by (subst show_nat.simps) (simp add: dec_digit_def zero)
    with s \<open>u \<noteq> []\<close> show False by simp
  qed
  have tw: "takeWhile is_dec (c # u) = c # u" "dropWhile is_dec (c # u) = []"
    using takeWhile_all [OF dec] by simp_all
  show ?thesis
  proof (cases "c = CHR ''0''")
    case True
    then show ?thesis
      unfolding s using rd z dec
      by (simp add: scan_number_def scan_digits_def scan_frac_def scan_exp_def number_value_def)
  next
    case False
    then show ?thesis
      unfolding s using nm rd dec
      by (simp add: scan_number_def scan_digits_def scan_frac_def scan_exp_def number_value_def tw
          del: takeWhile.simps dropWhile.simps)
  qed
qed

lemma scan_number_neg:
  assumes "scan_number (c # s) = Some (JInt i, q)" "c \<noteq> CHR ''-''"
  shows "scan_number (CHR ''-'' # c # s) = Some (JInt (- i), q)"
  using assms
  by (auto simp: scan_number_def scan_digits_def Let_def number_value_def case_prod_beta
      split: if_splits)

lemma scan_number_int: "scan_number (show_int i) = Some (JInt i, [])"
proof (cases "i < 0")
  case True
  obtain c u where s: "show_nat (nat (- i)) = c # u"
    using show_nat_nonempty by (cases "show_nat (nat (- i))") auto
  have "is_dec c" using show_nat_dec [of c "nat (- i)"] s by simp
  then have "c \<noteq> CHR ''-''" by (auto simp: is_dec_def)
  with scan_number_nat [of "nat (- i)"] s True show ?thesis
    using scan_number_neg [of c u "int (nat (- i))" "[]"] by (simp add: show_int_def)
next
  case False
  then show ?thesis using scan_number_nat [of "nat i"] by (simp add: show_int_def)
qed


lemma scan_number_start: "scan_number s = Some r \<Longrightarrow> s \<noteq> [] \<and> (hd s = CHR ''-'' \<or> is_dec (hd s))"
  by (auto simp: scan_number_def scan_digits_def split: list.splits if_splits)

lemma scan_scalar_number:
  "scan_number s = Some (v, []) \<Longrightarrow> num_end r \<Longrightarrow> scan_scalar (s @ r) = Some (v, r)"
  using scan_number_append [of s v "[]" r] by (simp add: scan_scalar_def)

lemma jparse_scalar:
  assumes "scan_number s = Some (v, [])" "num_end r" "0 < n"
  shows "jparse n (s @ r) = Some (v, r)"
proof -
  obtain c t where s: "s = c # t" and c: "c = CHR ''-'' \<or> is_dec c"
    using scan_number_start [OF assms(1)] by (cases s) auto
  have ne: "c \<noteq> quote_mark" "c \<noteq> CHR ''[''" "c \<noteq> CHR ''{''"
    using c by (auto simp: is_dec_def quote_mark_def)
  obtain m where n: "n = Suc m" using assms(3) by (cases n) auto
  have "scan_scalar (c # t @ r) = Some (v, r)"
    using scan_scalar_number [OF assms(1,2)] s by simp
  with ne show ?thesis by (simp add: s n)
qed

lemma jparse_word:
  assumes "scan_number (w @ r) = None" "w \<noteq> []" "hd w \<notin> {quote_mark, CHR ''['', CHR ''{''}" "0 < n"
    and "scan_scalar (w @ r) = Some (v, r)"
  shows "jparse n (w @ r) = Some (v, r)"
  using assms by (cases n; cases w) auto

lemma skip_ws_id: "s \<noteq> [] \<Longrightarrow> \<not> is_ws (hd s) \<Longrightarrow> skip_ws s = s"
  by (cases s) (auto simp: skip_ws_def)

lemma not_ws [simp]: "\<not> is_ws (CHR ''['')" "\<not> is_ws (CHR '']'')" "\<not> is_ws (CHR ''{'')"
  "\<not> is_ws (CHR ''}'')" "\<not> is_ws (CHR '','')" "\<not> is_ws (CHR '':'')" "\<not> is_ws quote_mark"
  "\<not> is_ws (CHR ''-'')" "\<not> is_ws (CHR ''n'')" "\<not> is_ws (CHR ''t'')" "\<not> is_ws (CHR ''f'')"
  by (simp_all add: is_ws_def quote_mark_def)

lemma skip_ws_sep [simp]:
  "skip_ws (CHR '']'' # s) = CHR '']'' # s" "skip_ws (CHR ''}'' # s) = CHR ''}'' # s"
  "skip_ws (CHR '','' # s) = CHR '','' # s" "skip_ws (CHR '':'' # s) = CHR '':'' # s"
  "skip_ws (quote_mark # s) = quote_mark # s"
  by (simp_all add: skip_ws_def)

lemma float_ok_start: "float_ok x \<Longrightarrow> float_repr x \<noteq> [] \<and> (hd (float_repr x) = CHR ''-'' \<or> is_dec (hd (float_repr x)))"
  unfolding float_ok_def by (rule scan_number_start)

lemma is_dec_not_ws: "is_dec c \<Longrightarrow> \<not> is_ws c \<and> c \<noteq> CHR '']'' \<and> c \<noteq> CHR ''}''"
  by (auto simp: is_dec_def is_ws_def)

text \<open>A printed value starts with a character that is neither white space nor a closing bracket.\<close>

lemma jprint_start:
  assumes "json_ok j"
  shows "jprint j \<noteq> [] \<and> \<not> is_ws (hd (jprint j)) \<and> hd (jprint j) \<noteq> CHR '']'' \<and> hd (jprint j) \<noteq> CHR ''}''"
proof (cases j)
  case (JInt i)
  have "show_int i \<noteq> [] \<and> (hd (show_int i) = CHR ''-'' \<or> is_dec (hd (show_int i)))"
    using scan_number_start [OF scan_number_int [of i]] .
  then show ?thesis using JInt is_dec_not_ws by auto
next
  case (JFloat x)
  then show ?thesis using float_ok_start [of x] is_dec_not_ws assms by auto
qed (auto simp: print_str_def quote_mark_def is_ws_def)

lemma length_jprint: "json_ok j \<Longrightarrow> 0 < length (jprint j)"
  using jprint_start by auto

lemma skip_ws_jprint: "json_ok j \<Longrightarrow> skip_ws (jprint j @ r) = jprint j @ r"
  using jprint_start [of j] by (intro skip_ws_id) auto

lemma skip_ws_jprints:
  "json_ok v \<Longrightarrow> skip_ws (jprints (v # vs) @ r) = jprints (v # vs) @ r"
  using jprint_start [of v] by (intro skip_ws_id) auto

lemma skip_ws_jmembers: "skip_ws (jmembers (kv # kvs) @ r) = jmembers (kv # kvs) @ r"
  by (cases kv) (simp add: print_str_def)

lemma parse_print:
  "json_ok j \<Longrightarrow> num_end r \<Longrightarrow> 2 * length (jprint j) \<le> n \<Longrightarrow> jparse n (jprint j @ r) = Some (j, r)"
  "list_all json_ok vs \<Longrightarrow> vs \<noteq> [] \<Longrightarrow> 2 * length (jprints vs) + 1 \<le> n \<Longrightarrow>
     jelems n (jprints vs @ CHR '']'' # r) = Some (vs, r)"
  "list_all (\<lambda>(k, v). utf8_ok k \<and> json_ok v) kvs \<Longrightarrow> kvs \<noteq> [] \<Longrightarrow> 2 * length (jmembers kvs) + 1 \<le> n \<Longrightarrow>
     jpairs n (jmembers kvs @ CHR ''}'' # r) = Some (kvs, r)"
proof (induction j and vs and kvs arbitrary: r n and r n and r n rule: jprint_jprints_jmembers.induct)
  case 1
  then show ?case
    by (cases n) (auto simp: scan_scalar_def scan_word_def scan_number_def scan_digits_def is_dec_def quote_mark_def)
next
  case (2 b)
  then show ?case
    by (cases n; cases b) (auto simp: scan_scalar_def scan_word_def scan_number_def scan_digits_def is_dec_def quote_mark_def)
next
  case (3 i)
  have "0 < length (show_int i)" using length_jprint [of "JInt i"] by simp
  then have "0 < n" using 3 by (simp del: length_greater_0_conv)
  then show ?case using 3 jparse_scalar [OF scan_number_int] by simp
next
  case (4 x)
  have "0 < length (float_repr x)" using 4 length_jprint [of "JFloat x"] by simp
  then have "0 < n" using 4 by (simp del: length_greater_0_conv)
  then show ?case using 4 jparse_scalar [of "float_repr x" "JFloat x" r n] by (simp add: float_ok_def)
next
  case (5 s)
  then obtain m where "n = Suc m" by (cases n) (auto simp: print_str_def)
  then show ?case by (simp add: print_str_def scan_escaped)
next
  case (6 vs)
  then obtain m where n: "n = Suc m" by (cases n) auto
  show ?case
  proof (cases vs)
    case Nil
    then show ?thesis by (simp add: n quote_mark_def)
  next
    case (Cons v ws)
    have st: "jprint v \<noteq> []" "hd (jprint v) \<noteq> CHR '']''" using jprint_start [of v] 6 Cons by auto
    have "jelems m (jprints vs @ CHR '']'' # r) = Some (vs, r)" using 6 n Cons by simp
    moreover have "skip_ws (jprints vs @ CHR '']'' # r) = jprints vs @ CHR '']'' # r"
      using skip_ws_jprints [of v ws] 6 Cons by simp
    moreover obtain d q where "jprints vs @ CHR '']'' # r = d # q" "d \<noteq> CHR '']''"
      using st Cons by (cases "jprint v") auto
    ultimately show ?thesis by (simp add: n quote_mark_def)
  qed
next
  case (7 kvs)
  then obtain m where n: "n = Suc m" by (cases n) auto
  show ?case
  proof (cases kvs)
    case Nil
    then show ?thesis by (simp add: n quote_mark_def)
  next
    case (Cons kv kws)
    have "jpairs m (jmembers kvs @ CHR ''}'' # r) = Some (kvs, r)" using 7 n Cons by simp
    moreover have "skip_ws (jmembers kvs @ CHR ''}'' # r) = jmembers kvs @ CHR ''}'' # r"
      using skip_ws_jmembers [of kv kws] Cons by simp
    moreover obtain q where "jmembers kvs @ CHR ''}'' # r = quote_mark # q"
      using Cons by (cases kv) (simp add: print_str_def)
    moreover have "dict_of kvs = kvs" using 7 by (simp add: dict_of_distinct)
    ultimately show ?thesis by (simp add: n) (simp add: quote_mark_def)
  qed
next
  case 8
  then show ?case by simp
next
  case (9 v vs)
  then obtain m where n: "n = Suc m" by (cases n) auto
  have lv: "0 < length (jprint v)" using 9 by (intro length_jprint) simp
  show ?case
  proof (cases vs)
    case Nil
    have "jparse m (jprint v @ CHR '']'' # r) = Some (v, CHR '']'' # r)"
      using 9 n Nil by simp
    then show ?thesis by (simp add: n Nil)
  next
    case (Cons w ws)
    have "jparse m (jprint v @ CHR '','' # (jprints vs @ CHR '']'' # r)) = Some (v, CHR '','' # (jprints vs @ CHR '']'' # r))"
      using 9 n Cons by simp
    moreover have "jelems m (jprints vs @ CHR '']'' # r) = Some (vs, r)"
      using 9 n Cons lv by simp
    moreover have "skip_ws (jprints vs @ CHR '']'' # r) = jprints vs @ CHR '']'' # r"
      using skip_ws_jprints [of w ws] 9 Cons by simp
    ultimately show ?thesis by (simp add: n Cons)
  qed
next
  case 10
  then show ?case by simp
next
  case (11 k v kvs)
  then obtain m where n: "n = Suc m" by (cases n) auto
  have lk: "2 \<le> length (print_str k)" by (simp add: print_str_def)
  have sk: "jprint v @ x = skip_ws (jprint v @ x)" for x using 11 by (simp add: skip_ws_jprint)
  show ?case
  proof (cases kvs)
    case Nil
    have "jparse m (jprint v @ CHR ''}'' # r) = Some (v, CHR ''}'' # r)" using 11 n Nil by simp
    then show ?thesis
      using sk [of "CHR ''}'' # r"] by (simp add: n Nil print_str_def scan_escaped)
  next
    case (Cons kv kws)
    let ?q = "CHR '','' # (jmembers kvs @ CHR ''}'' # r)"
    have "jparse m (jprint v @ ?q) = Some (v, ?q)" using 11 n Cons by simp
    moreover have "jpairs m (jmembers kvs @ CHR ''}'' # r) = Some (kvs, r)"
      using 11 n Cons by simp
    moreover have "skip_ws (jmembers kvs @ CHR ''}'' # r) = jmembers kvs @ CHR ''}'' # r"
      using skip_ws_jmembers [of kv kws] Cons by simp
    ultimately show ?thesis
      using sk [of ?q] by (simp add: n Cons print_str_def scan_escaped)
  qed
qed

section \<open>Canonical texts\<close>

lemma json_loads_jprint: "json_ok j \<Longrightarrow> json_loads (jprint j) = Some j"
  using parse_print(1) [of j "[]" "2 * length (jprint j) + 2"] skip_ws_jprint [of j "[]"]
  by (simp add: json_loads_def skip_ws_def)

lemma map_fst_map_values [simp]: "map fst (map (\<lambda>(k, v). (k, f v)) xs) = map fst xs"
  by (induction xs) auto

lemma distinct_sort_fst:
  fixes xs :: "('k::linorder \<times> 'v) list"
  shows "distinct (map fst xs) \<Longrightarrow> distinct (map fst (sort_key fst xs))"
  by (metis distinct_map distinct_sort set_sort)

lemma json_ok_jsort: "json_ok j \<Longrightarrow> json_ok (jsort j)"
proof (induction j rule: jsort.induct)
  case (1 vs)
  then show ?case by (simp add: list_all_iff)
next
  case (2 kvs)
  have "distinct (map fst (sort_key fst (map (\<lambda>(k, v). (k, jsort v)) kvs)))"
    using 2 by (intro distinct_sort_fst) (simp del: map_map)
  with 2 show ?case by (auto simp: list_all_iff simp del: map_map)
qed simp_all

theorem cjson_roundtrip: "json_ok j \<Longrightarrow> json_loads (cjson j) = Some (jsort j)"
  by (simp add: cjson_def json_loads_jprint json_ok_jsort)

lemma cjson_eqD: "cjson a = cjson b \<Longrightarrow> json_ok a \<Longrightarrow> json_ok b \<Longrightarrow> jsort a = jsort b"
  by (metis cjson_roundtrip option.inject)

lemma map_of_map_values: "map_of (map (\<lambda>(k, v). (k, f v)) xs) = map_option f \<circ> map_of xs"
  by (induction xs) auto

lemma sort_map_values:
  fixes kvs :: "('k::linorder \<times> 'a) list"
  assumes "distinct (map fst kvs)"
  shows "sort_key fst (map (\<lambda>(k, v). (k, f v)) (sort_key fst kvs)) = sort_key fst (map (\<lambda>(k, v). (k, f v)) kvs)"
proof (rule sorted_distinct_keys_eq)
  have d: "distinct (map fst (sort_key fst kvs))"
    using assms by (rule distinct_sort_fst)
  have "map_of (sort_key fst (map (\<lambda>(k, v). (k, f v)) (sort_key fst kvs))) = map_option f \<circ> map_of (sort_key fst kvs)"
    using d map_of_sort_fst [of "map (\<lambda>(k, v). (k, f v)) (sort_key fst kvs)"] map_of_map_values [of f "sort_key fst kvs"] by (simp del: map_map)
  also have "\<dots> = map_option f \<circ> map_of kvs" using assms by (simp add: map_of_sort_fst)
  also have "\<dots> = map_of (sort_key fst (map (\<lambda>(k, v). (k, f v)) kvs))"
    using assms map_of_sort_fst [of "map (\<lambda>(k, v). (k, f v)) kvs"] map_of_map_values [of f kvs] by (simp del: map_map)
  finally show "map_of (sort_key fst (map (\<lambda>(k, v). (k, f v)) (sort_key fst kvs)))
      = map_of (sort_key fst (map (\<lambda>(k, v). (k, f v)) kvs))" .
  show "distinct (map fst (sort_key fst (map (\<lambda>(k, v). (k, f v)) (sort_key fst kvs))))"
    "distinct (map fst (sort_key fst (map (\<lambda>(k, v). (k, f v)) kvs)))"
    using assms d by (simp_all add: distinct_sort_fst del: map_map)
qed simp_all

lemma jsort_idem: "json_ok j \<Longrightarrow> jsort (jsort j) = jsort j"
proof (induction j rule: jsort.induct)
  case (2 kvs)
  let ?g = "\<lambda>(k :: string, v). (k, jsort v)"
  have "map ?g (map ?g kvs) = map ?g kvs" using 2 by (auto simp: list_all_iff)
  then show ?case
    using sort_map_values [of "map ?g kvs" jsort] 2 by (simp del: map_map)
qed (simp_all add: list_all_iff)

section \<open>Canonical texts are UTF-8\<close>

lemma utf8_ok_append: "utf8_ok a \<Longrightarrow> utf8_ok b \<Longrightarrow> utf8_ok (a @ b)"
  by (induction a rule: utf8_ok.induct) (auto simp: Let_def split: if_splits list.splits)

lemma utf8_ok_ascii: "list_all (\<lambda>c. code c < (128 :: nat)) s \<Longrightarrow> utf8_ok s"
  by (induction s) (simp_all add: Let_def)

lemma hex_char_ascii: "n < 16 \<Longrightarrow> code (hex_char n) < (128 :: nat)"
  by (simp add: hex_char_def)

lemma esc_char_ascii: "code c < (128 :: nat) \<Longrightarrow> utf8_ok (esc_char c)"
proof (rule utf8_ok_ascii)
  assume a: "code c < (128 :: nat)"
  obtain n :: nat where n: "code c = n" by blast
  show "list_all (\<lambda>c. code c < (128 :: nat)) (esc_char c)"
    unfolding esc_char_def Let_def n using a
    by (simp add: n hex_char_ascii quote_mark_def back_slash_def)
qed

lemma esc_char_high: "128 \<le> (code c :: nat) \<Longrightarrow> esc_char c = [c]"
proof -
  assume a: "128 \<le> (code c :: nat)"
  obtain n :: nat where n: "code c = n" by blast
  show ?thesis unfolding esc_char_def Let_def n using a by (simp add: n)
qed

lemma utf8_ok_2:
  "194 \<le> (code a :: nat) \<Longrightarrow> code a \<le> (223 :: nat) \<Longrightarrow> utf8_ok (a # b # ys) = (cont_byte b \<and> utf8_ok ys)"
  by (simp add: Let_def)

lemma utf8_ok_3:
  "224 \<le> (code a :: nat) \<Longrightarrow> code a \<le> (239 :: nat) \<Longrightarrow> utf8_ok (a # b # c # ys) =
     (cont_byte b \<and> cont_byte c \<and> (code a = (224 :: nat) \<longrightarrow> 160 \<le> (code b :: nat))
        \<and> (code a = (237 :: nat) \<longrightarrow> code b \<le> (159 :: nat)) \<and> utf8_ok ys)"
  by (simp add: Let_def)

lemma utf8_ok_4:
  "240 \<le> (code a :: nat) \<Longrightarrow> code a \<le> (244 :: nat) \<Longrightarrow> utf8_ok (a # b # c # d # ys) =
     (cont_byte b \<and> cont_byte c \<and> cont_byte d \<and> (code a = (240 :: nat) \<longrightarrow> 144 \<le> (code b :: nat))
        \<and> (code a = (244 :: nat) \<longrightarrow> code b \<le> (143 :: nat)) \<and> utf8_ok ys)"
  by (simp add: Let_def)

text \<open>The first character of a UTF-8 text, with the rest.\<close>

lemma utf8_ok_cases:
  assumes "utf8_ok (a # xs)"
  obtains "code a < (128 :: nat)" "utf8_ok xs"
  | b ys where "xs = b # ys" "194 \<le> (code a :: nat)" "code a \<le> (223 :: nat)" "utf8_ok ys"
  | b c ys where "xs = b # c # ys" "224 \<le> (code a :: nat)" "code a \<le> (239 :: nat)" "utf8_ok ys"
  | b c d ys where "xs = b # c # d # ys" "240 \<le> (code a :: nat)" "code a \<le> (244 :: nat)" "utf8_ok ys"
proof -
  obtain n :: nat where n: "code a = n" by blast
  note u = assms [unfolded utf8_ok.simps Let_def n]
  consider "n < 128" | "194 \<le> n" "n \<le> 223" | "224 \<le> n" "n \<le> 239" | "240 \<le> n" "n \<le> 244"
    using u by (auto split: if_splits)
  then show ?thesis
  proof cases
    case 1
    with u that(1) show ?thesis by (simp add: n)
  next
    case 2
    with u obtain b ys where "xs = b # ys" "utf8_ok ys" by (auto split: list.splits)
    with 2 that(2) show ?thesis by (simp add: n)
  next
    case 3
    with u obtain b c ys where "xs = b # c # ys" "utf8_ok ys" by (auto split: list.splits)
    with 3 that(3) show ?thesis by (simp add: n)
  next
    case 4
    with u obtain b c d ys where "xs = b # c # d # ys" "utf8_ok ys" by (auto split: list.splits)
    with 4 that(4) show ?thesis by (simp add: n)
  qed
qed

lemma utf8_ok_escaped: "utf8_ok s \<Longrightarrow> utf8_ok (concat (map esc_char s))"
proof (induction "length s" arbitrary: s rule: less_induct)
  case less
  have hi: "esc_char c = [c]" if "cont_byte c" for c
    using that by (simp add: cont_byte_def esc_char_high)
  show ?case
  proof (cases s)
    case Nil
    then show ?thesis by simp
  next
    case (Cons a xs)
    with less.prems have u: "utf8_ok (a # xs)" by simp
    then show ?thesis
    proof (cases rule: utf8_ok_cases)
      case 1
      then show ?thesis
        using less.hyps [of xs] Cons by (simp add: utf8_ok_append esc_char_ascii)
    next
      case (2 b ys)
      then show ?thesis
        using less.hyps [of ys] Cons u by (simp add: utf8_ok_2 hi esc_char_high del: utf8_ok.simps)
    next
      case (3 b c ys)
      then show ?thesis
        using less.hyps [of ys] Cons u by (simp add: utf8_ok_3 hi esc_char_high del: utf8_ok.simps)
    next
      case (4 b c d ys)
      then show ?thesis
        using less.hyps [of ys] Cons u by (simp add: utf8_ok_4 hi esc_char_high del: utf8_ok.simps)
    qed
  qed
qed

lemma show_nat_ascii: "list_all (\<lambda>c. code c < (128 :: nat)) (show_nat n)"
  by (auto simp: list_all_iff is_dec_def dest: show_nat_dec)

lemma shortest_ascii: "list_all (\<lambda>c. code c < (128 :: nat)) (fst (shortest v ns))"
  by (induction ns) (auto simp: dec_round_def Let_def show_nat_ascii)

lemma list_all_take_drop: "list_all P xs \<Longrightarrow> list_all P (take n xs) \<and> list_all P (drop n xs)"
  by (auto simp: list_all_iff dest: in_set_takeD in_set_dropD)

lemma layout_ascii:
  assumes "list_all (\<lambda>c. code c < (128 :: nat)) (fst dp)"
  shows "list_all (\<lambda>c. code c < (128 :: nat)) (layout dp)"
proof -
  obtain ds p where dp: "dp = (ds, p)" by (cases dp)
  have ds: "list_all (\<lambda>c. code c < (128 :: nat)) ds" using assms dp by simp
  have zeros: "list_all (\<lambda>c. code c < (128 :: nat)) (replicate n (CHR ''0''))" for n
    by (simp add: list_all_iff)
  show ?thesis
    unfolding layout_def dp by (simp add: ds zeros list_all_take_drop [OF ds] show_nat_ascii)
qed

lemma float_repr_ascii: "list_all (\<lambda>c. code c < (128 :: nat)) (float_repr x)"
  by (cases x) (auto simp: layout_ascii shortest_ascii)

lemma show_int_ascii: "list_all (\<lambda>c. code c < (128 :: nat)) (show_int i)"
  by (simp add: show_int_def show_nat_ascii)

lemma utf8_print_str: "utf8_ok s \<Longrightarrow> utf8_ok (print_str s)"
  using utf8_ok_append [OF utf8_ok_append [of "[quote_mark]" "concat (map esc_char s)"], of "[quote_mark]"]
    utf8_ok_escaped [of s]
  by (simp add: print_str_def quote_mark_def)

lemma utf8_jprint:
  "json_ok j \<Longrightarrow> utf8_ok (jprint j)"
  "list_all json_ok vs \<Longrightarrow> utf8_ok (jprints vs)"
  "list_all (\<lambda>(k, v). utf8_ok k \<and> json_ok v) kvs \<Longrightarrow> utf8_ok (jmembers kvs)"
proof (induction j and vs and kvs rule: jprint_jprints_jmembers.induct)
  case (3 i)
  then show ?case by (simp add: utf8_ok_ascii show_int_ascii)
next
  case (4 x)
  then show ?case by (simp add: utf8_ok_ascii float_repr_ascii)
next
  case (6 vs)
  then show ?case using utf8_ok_append [of "jprints vs" "'']''"] by simp
next
  case (7 kvs)
  then show ?case using utf8_ok_append [of "jmembers kvs" "''}''"] by simp
next
  case (9 v vs)
  then show ?case by (auto simp: utf8_ok_append)
next
  case (11 k v kvs)
  then show ?case by (auto simp: utf8_ok_append utf8_print_str)
qed (auto simp: utf8_print_str)

lemma utf8_cjson: "json_ok j \<Longrightarrow> utf8_ok (cjson j)"
  by (simp add: cjson_def utf8_jprint json_ok_jsort)

section \<open>Parsed objects have distinct keys\<close>

lemma scan_scalar_not_obj: "scan_scalar s \<noteq> Some (JObj kvs, r)"
  by (auto simp: scan_scalar_def scan_word_def scan_number_def scan_digits_def number_value_def Let_def
      case_prod_beta split: option.splits if_splits list.splits)

lemma jparse_obj_distinct: "jparse n s = Some (JObj kvs, r) \<Longrightarrow> distinct (map fst kvs)"
  by (cases n) (auto simp: distinct_dict_of scan_scalar_not_obj split: list.splits if_splits)

lemma json_loads_obj_distinct: "json_loads s = Some (JObj kvs) \<Longrightarrow> distinct (map fst kvs)"
  by (auto simp: json_loads_def simp del: jparse.simps split: option.splits if_splits
      dest: jparse_obj_distinct)

section \<open>The float 1.0\<close>

lemma show_nat_small: "n < 10 \<Longrightarrow> show_nat n = [dec_digit n]" by (subst show_nat.simps) simp

lemma bit_len_1: "bit_len (Suc 0) = Suc 0" "bit_len 0 = 0" by (simp_all add: bit_len.simps)

lemma round_even_of_int: "round_even (of_int n) = n" by (simp add: round_even_def)

lemma pow_z_0: "pow_z b 0 = 1" by (simp add: pow_z_def)

lemma dec_digit_1: "dec_digit (Suc 0) = CHR ''1''"
proof -
  have "of_char (CHR ''1'') = (49::nat)" by simp
  then have "char_of (49::nat) = CHR ''1''" by (metis char_of_char)
  then show ?thesis by (simp add: dec_digit_def)
qed

lemma round64_1: "round64 1 = PNum 1"
proof -
  have p: "pow_z 2 (- 52) = 1 / 2 ^ 52" by (simp add: pow_z_def)
  have "(1 :: rat) / (1 / 2 ^ 52) = of_int (2 ^ 52)" by simp
  then have q: "of_int (round_even (1 / pow_z 2 (- 52))) * pow_z 2 (- 52) = 1"
    unfolding p by (simp only: round_even_of_int) simp
  have big: "\<not> (2 :: rat) ^ 1024 \<le> 1" by (simp add: not_le one_less_power)
  show ?thesis
    unfolding round64_def quotient_of_number Let_def
    using q big by (simp add: quotient_of_number bit_len_1 pow_z_0)
qed

lemma dec_round_1: "dec_round 1 (Suc 0) = (''1'', 1)"
proof -
  have "dec_exponent 1 = 1" 
   by (simp add: dec_exponent_def show_nat_small pow_z_0 quotient_of_number)
  then show ?thesis by (simp add: dec_round_def Let_def round_even_def pow_z_0 show_nat_small dec_digit_1)
qed

lemma float_repr_1: "float_repr (PNum 1) = ''1.0''"
 using dec_round_1 round64_1 by (simp add: upt_rec layout_def dec_value_def read_nat_def pow_z_0)

lemma float_ok_1: "float_ok (PNum 1)" unfolding float_ok_def float_repr_1
 by (simp add: scan_number_def scan_digits_def is_dec_def scan_frac_def scan_exp_def number_value_def Let_def read_nat_def pow_z_def round64_1)

lemma jget_simps [simp]:
  "jget [] k = JNull"
  "jget ((k', v) # kvs) k = (if k' = k then v else jget kvs k)"
  by (simp_all add: jget_def)

end
