(* ===== verification/Records.thy ===== *)
theory Records
  imports JsonLemmas Sha256
begin

text \<open>
  Snapshot and Source records and their canonical serialization
  (\<open>stele/archive/records.py\<close>): one record, one byte string, one digest.  The parser is
  strict, and the main results are the two round trips and the exact set of byte
  strings each parser accepts.
\<close>

section \<open>Digests and canonical JSON\<close>

text \<open>\<open>is_digest\<close>: 64 lowercase hexadecimal characters.\<close>

definition is_digest :: "string \<Rightarrow> bool" where
  "is_digest s \<longleftrightarrow> length s = 64 \<and> list_all is_hex s"

definition is_digest_json :: "json \<Rightarrow> bool" where
  "is_digest_json v = (case v of JStr s \<Rightarrow> is_digest s | _ \<Rightarrow> False)"

text \<open>\<open>allow_nan=False\<close>: no NaN and no infinity anywhere.\<close>

fun finite_json :: "json \<Rightarrow> bool" where
  "finite_json (JFloat x) = (case x of PInf _ \<Rightarrow> False | PNaN \<Rightarrow> False | _ \<Rightarrow> True)"
| "finite_json (JArr vs) = list_all finite_json vs"
| "finite_json (JObj kvs) = list_all (\<lambda>(k, v). finite_json v) kvs"
| "finite_json _ = True"

text \<open>\<open>encode("utf-8")\<close> succeeds: no text holds a lone surrogate.\<close>

fun utf8_json :: "json \<Rightarrow> bool" where
  "utf8_json (JStr s) = utf8_ok s"
| "utf8_json (JArr vs) = list_all utf8_json vs"
| "utf8_json (JObj kvs) = list_all (\<lambda>(k, v). utf8_ok k \<and> utf8_json v) kvs"
| "utf8_json _ = True"

definition canonical_json :: "json \<Rightarrow> string result" where
  "canonical_json obj =
     (if \<not> finite_json obj then Inl ValueError
      else if \<not> utf8_json obj then Inl UnicodeError
      else Inr (cjson obj))"

definition RECORDS_SCHEMA_VERSION :: int where
  "RECORDS_SCHEMA_VERSION = 1"

text \<open>
  \<open>_parse\<close>.  The fields are compared as sets.  \<open>obj.get("schema_version") != 1\<close> is
  Python's comparison, so \<open>true\<close> and \<open>1.0\<close> pass it.
\<close>

definition parse_record :: "string \<Rightarrow> string \<Rightarrow> string list \<Rightarrow> (string \<times> json) list result" where
  "parse_record data schema fields =
     (if \<not> utf8_ok data then Inl RecordFormatError
      else case json_loads data of
        None \<Rightarrow> Inl RecordFormatError
      | Some (JObj obj) \<Rightarrow>
          if \<not> py_eq (jget obj ''schema'') (JStr schema) then Inl RecordFormatError
          else if \<not> py_eq (jget obj ''schema_version'') (JInt RECORDS_SCHEMA_VERSION)
          then Inl RecordFormatError
          else if set (map fst obj) \<noteq> set (fields @ [''schema'', ''schema_version''])
          then Inl RecordFormatError
          else (case canonical_json (JObj obj) of
                  Inl e \<Rightarrow> Inl e
                | Inr c \<Rightarrow> if c \<noteq> data then Inl RecordFormatError else Inr obj)
      | Some _ \<Rightarrow> Inl RecordFormatError)"

section \<open>Snapshots\<close>

datatype snapshot_kind = FILE | TREE

fun kind_value :: "snapshot_kind \<Rightarrow> string" where
  "kind_value FILE = ''file''"
| "kind_value TREE = ''tree''"

text \<open>\<open>SnapshotKind(value)\<close>.\<close>

definition kind_of_value :: "string \<Rightarrow> snapshot_kind result" where
  "kind_of_value v =
     (if v = ''file'' then Inr FILE else if v = ''tree'' then Inr TREE else Inl ValueError)"

record snapshot =
  snap_kind :: snapshot_kind
  snap_digest :: string
  snap_size :: int
  snap_file_count :: int

text \<open>\<open>Snapshot.__post_init__\<close> on arbitrary JSON arguments.\<close>

definition make_snapshot :: "json \<Rightarrow> json \<Rightarrow> json \<Rightarrow> json \<Rightarrow> snapshot result" where
  "make_snapshot kind digest sz file_count =
     (case kind of
        JStr k \<Rightarrow>
          (case kind_of_value k of
             Inl e \<Rightarrow> Inl e
           | Inr kd \<Rightarrow>
               (case digest of
                  JStr d \<Rightarrow>
                    if \<not> is_digest d then Inl ValueError
                    else (case (sz, file_count) of
                            (JInt s, JInt n) \<Rightarrow>
                              if s < 0 \<or> n < 0 then Inl ValueError
                              else if kd = FILE \<and> n \<noteq> 1 then Inl ValueError
                              else Inr \<lparr>snap_kind = kd, snap_digest = d, snap_size = s,
                                        snap_file_count = n\<rparr>
                          | _ \<Rightarrow> Inl ValueError)
                | _ \<Rightarrow> Inl ValueError))
      | _ \<Rightarrow> Inl ValueError)"

definition snapshot_ok :: "snapshot \<Rightarrow> bool" where
  "snapshot_ok s \<longleftrightarrow>
     is_digest (snap_digest s) \<and> 0 \<le> snap_size s \<and> 0 \<le> snap_file_count s \<and>
     (snap_kind s = FILE \<longrightarrow> snap_file_count s = 1)"

definition snapshot_obj :: "snapshot \<Rightarrow> (string \<times> json) list" where
  "snapshot_obj s =
     [(''schema'', JStr ''stele.snapshot''),
      (''schema_version'', JInt RECORDS_SCHEMA_VERSION),
      (''kind'', JStr (kind_value (snap_kind s))),
      (''digest'', JStr (snap_digest s)),
      (''size'', JInt (snap_size s)),
      (''file_count'', JInt (snap_file_count s))]"

definition snapshot_to_canonical :: "snapshot \<Rightarrow> string result" where
  "snapshot_to_canonical s = canonical_json (JObj (snapshot_obj s))"

definition snapshot_from_canonical :: "string \<Rightarrow> snapshot result" where
  "snapshot_from_canonical data =
     (case parse_record data ''stele.snapshot'' [''kind'', ''digest'', ''size'', ''file_count''] of
        Inl e \<Rightarrow> Inl e
      | Inr obj \<Rightarrow>
          (case make_snapshot (jget obj ''kind'') (jget obj ''digest'') (jget obj ''size'')
                  (jget obj ''file_count'') of
             Inl e \<Rightarrow> if is_value_error e then Inl RecordFormatError else Inl e
           | Inr s \<Rightarrow> Inr s))"

section \<open>Sources\<close>

record source =
  src_locator :: string

definition make_source :: "json \<Rightarrow> source result" where
  "make_source locator =
     (case locator of
        JStr l \<Rightarrow> if l = [] then Inl ValueError else Inr \<lparr>src_locator = l\<rparr>
      | _ \<Rightarrow> Inl ValueError)"

definition source_obj :: "source \<Rightarrow> (string \<times> json) list" where
  "source_obj s =
     [(''schema'', JStr ''stele.source''),
      (''schema_version'', JInt RECORDS_SCHEMA_VERSION),
      (''locator'', JStr (src_locator s))]"

definition source_to_canonical :: "source \<Rightarrow> string result" where
  "source_to_canonical s = canonical_json (JObj (source_obj s))"

definition source_id :: "source \<Rightarrow> string result" where
  "source_id s = (case source_to_canonical s of Inl e \<Rightarrow> Inl e | Inr b \<Rightarrow> Inr (sha256 b))"

definition source_from_canonical :: "string \<Rightarrow> source result" where
  "source_from_canonical data =
     (case parse_record data ''stele.source'' [''locator''] of
        Inl e \<Rightarrow> Inl e
      | Inr obj \<Rightarrow>
          (case make_source (jget obj ''locator'') of
             Inl e \<Rightarrow> if is_value_error e then Inl RecordFormatError else Inl e
           | Inr s \<Rightarrow> Inr s))"

section \<open>Lemmas\<close>

lemma is_digest_utf8: "is_digest s \<Longrightarrow> utf8_ok s"
  by (rule utf8_ok_ascii) (auto simp: is_digest_def is_hex_def list_all_iff)

lemma is_digest_sha256 [simp]: "is_digest (sha256 m)"
  by (auto simp: is_digest_def list_all_iff is_hex_sha256)

lemma is_digest_nonempty: "is_digest s \<Longrightarrow> s \<noteq> []"
  by (auto simp: is_digest_def)

text \<open>Every Python float is some decimal's nearest value, so its text reads back.\<close>

fun json_rep :: "json \<Rightarrow> bool" where
  "json_rep (JFloat x) = (case x of PInf _ \<Rightarrow> True | PNaN \<Rightarrow> True | _ \<Rightarrow> float_ok x)"
| "json_rep (JArr vs) = list_all json_rep vs"
| "json_rep (JObj kvs) = (distinct (map fst kvs) \<and> list_all (\<lambda>(k, v). json_rep v) kvs)"
| "json_rep _ = True"

lemma json_ok_iff: "json_rep j \<Longrightarrow> finite_json j \<Longrightarrow> utf8_json j \<Longrightarrow> json_ok j"
proof (induction j rule: json_ok.induct)
  case (4 kvs)
  have "json_ok v" if "(k, v) \<in> set kvs" for k v
    using 4(1) [OF that refl] 4(2-) bspec [OF _ that] by (auto simp: list_all_iff)
  with 4 show ?case by (auto simp: list_all_iff)
qed (auto simp: list_all_iff split: pyfloat.splits)

lemma json_ok_utf8: "json_ok j \<Longrightarrow> utf8_json j"
  by (induction j rule: json_ok.induct) (auto simp: list_all_iff)


lemma parse_recordD:
  assumes "parse_record data schema flds = Inr obj"
  shows "json_loads data = Some (JObj obj)" "canonical_json (JObj obj) = Inr data"
    "py_eq (jget obj ''schema'') (JStr schema)" "py_eq (jget obj ''schema_version'') (JInt 1)"
    "set (map fst obj) = set (flds @ [''schema'', ''schema_version''])" "utf8_ok data"
  using assms
  by (auto simp: parse_record_def RECORDS_SCHEMA_VERSION_def split: if_splits option.splits json.splits sum.splits)

lemma jget_sorted:
  assumes "distinct (map fst kvs)"
  shows "jget (sort_key fst (map (\<lambda>(k, v). (k, jsort v)) kvs)) k = jsort (jget kvs k)"
proof -
  have "map_of (sort_key fst (map (\<lambda>(k, v). (k, jsort v)) kvs)) = map_option jsort \<circ> map_of kvs"
    using assms map_of_sort_fst [of "map (\<lambda>(k, v). (k, jsort v)) kvs"] map_of_map_values [of jsort kvs]
    by (simp del: map_map)
  then show ?thesis by (simp add: jget_def split: option.splits)
qed

lemma float_ok_finite: "float_ok x \<Longrightarrow> (\<exists>r. x = PNum r) \<or> x = PNegZero"
  by (cases x) (auto simp: float_ok_def scan_number_def scan_digits_def is_dec_def split: if_splits)

lemma json_ok_finite: "json_ok j \<Longrightarrow> finite_json j"
  by (induction j rule: json_ok.induct)
    (auto simp: list_all_iff dest: float_ok_finite)

lemma canonical_json_ok: "json_ok j \<Longrightarrow> canonical_json j = Inr (cjson j)"
  by (simp add: canonical_json_def json_ok_utf8 json_ok_finite)

lemma parse_record_cjson:
  assumes ok: "json_ok (JObj kvs)"
    and "jget kvs ''schema'' = JStr schema" "py_eq (jsort (jget kvs ''schema_version'')) (JInt 1)"
    and "set (map fst kvs) = set (flds @ [''schema'', ''schema_version''])"
  shows "parse_record (cjson (JObj kvs)) schema flds
    = Inr (sort_key fst (map (\<lambda>(k, v). (k, jsort v)) kvs))"
proof -
  define obj where "obj = sort_key fst (map (\<lambda>(k, v). (k, jsort v)) kvs)"
  have d: "distinct (map fst kvs)" using ok by simp
  have sorted: "JObj obj = jsort (JObj kvs)" by (simp add: obj_def)
  have "cjson (JObj obj) = cjson (JObj kvs)"
    unfolding sorted cjson_def using ok by (simp only: jsort_idem)
  then have c: "canonical_json (JObj obj) = Inr (cjson (JObj kvs))"
    using canonical_json_ok [OF json_ok_jsort [OF ok]] sorted by simp
  have keys: "set (map fst obj) = set (map fst kvs)" by (auto simp: obj_def image_image split_beta)
  have loads: "json_loads (cjson (JObj kvs)) = Some (JObj obj)"
    using cjson_roundtrip [OF ok] sorted by simp
  have u: "utf8_ok (cjson (JObj kvs))" using ok by (rule utf8_cjson)
  have "jget obj ''schema'' = JStr schema" "py_eq (jget obj ''schema_version'') (JInt 1)"
    using assms(2,3) by (simp_all add: obj_def jget_sorted [OF d])
  then have "parse_record (cjson (JObj kvs)) schema flds = Inr obj"
    using keys assms(4) c loads u
    by (simp add: parse_record_def py_eq_def [of "JStr schema"] RECORDS_SCHEMA_VERSION_def del: set_map)
  then show ?thesis by (simp add: obj_def)
qed

section \<open>Snapshots and their bytes\<close>

text \<open>A snapshot record's object with another value for the version field.\<close>

definition snapshot_obj_v :: "json \<Rightarrow> snapshot \<Rightarrow> (string \<times> json) list" where
  "snapshot_obj_v v s = AList.update ''schema_version'' v (snapshot_obj s)"

lemma snapshot_obj_v_1: "snapshot_obj_v (JInt 1) s = snapshot_obj s"
  by (simp add: snapshot_obj_v_def snapshot_obj_def RECORDS_SCHEMA_VERSION_def)

lemma utf8_kind_value [simp]: "utf8_ok (kind_value k)"
  by (cases k) (simp_all add: utf8_ok_ascii)

lemma kind_of_kind_value [simp]: "kind_of_value (kind_value k) = Inr k"
  by (cases k) (simp_all add: kind_of_value_def)

lemma kind_of_value_eq: "kind_of_value v = Inr k \<Longrightarrow> v = kind_value k"
  by (auto simp: kind_of_value_def split: if_splits)

lemma json_ok_snapshot_obj:
  "snapshot_ok s \<Longrightarrow> json_ok v \<Longrightarrow> json_ok (JObj (snapshot_obj_v v s))"
  by (simp add: snapshot_obj_v_def snapshot_obj_def snapshot_ok_def is_digest_utf8 utf8_ok_ascii)

lemma make_snapshot_ok:
  "snapshot_ok s \<Longrightarrow>
   make_snapshot (JStr (kind_value (snap_kind s))) (JStr (snap_digest s)) (JInt (snap_size s))
     (JInt (snap_file_count s)) = Inr s"
  by (auto simp: make_snapshot_def snapshot_ok_def)

lemma make_snapshotD:
  assumes "make_snapshot k d sz n = Inr s"
  shows "snapshot_ok s \<and> k = JStr (kind_value (snap_kind s)) \<and> d = JStr (snap_digest s) \<and>
    sz = JInt (snap_size s) \<and> n = JInt (snap_file_count s)"
  using assms
  by (auto simp: make_snapshot_def snapshot_ok_def dest!: kind_of_value_eq
      split: json.splits sum.splits if_splits)

lemma make_snapshot_error: "make_snapshot k d sz n = Inl e \<Longrightarrow> e = ValueError"
  by (auto simp: make_snapshot_def kind_of_value_def split: json.splits sum.splits if_splits)

lemma snapshot_from_obj_v:
  assumes "snapshot_ok s" "json_ok v" "py_eq (jsort v) (JInt 1)"
  shows "snapshot_from_canonical (cjson (JObj (snapshot_obj_v v s))) = Inr s"
proof -
  let ?kvs = "snapshot_obj_v v s"
  have ok: "json_ok (JObj ?kvs)" using assms(1,2) by (rule json_ok_snapshot_obj)
  then have d: "distinct (map fst ?kvs)" by simp
  have "parse_record (cjson (JObj ?kvs)) ''stele.snapshot'' [''kind'', ''digest'', ''size'', ''file_count'']
      = Inr (sort_key fst (map (\<lambda>(k, v). (k, jsort v)) ?kvs))"
    by (rule parse_record_cjson [OF ok]) (auto simp: snapshot_obj_v_def snapshot_obj_def assms(3))
  moreover have "jget ?kvs ''kind'' = JStr (kind_value (snap_kind s))"
    "jget ?kvs ''digest'' = JStr (snap_digest s)" "jget ?kvs ''size'' = JInt (snap_size s)"
    "jget ?kvs ''file_count'' = JInt (snap_file_count s)"
    by (simp_all add: snapshot_obj_v_def snapshot_obj_def)
  ultimately show ?thesis
    by (simp add: snapshot_from_canonical_def jget_sorted [OF d] make_snapshot_ok [OF assms(1)]
        del: sort_key_simps)
qed

lemma snapshot_to_canonical_ok:
  "snapshot_ok s \<Longrightarrow> snapshot_to_canonical s = Inr (cjson (JObj (snapshot_obj s)))"
  unfolding snapshot_to_canonical_def snapshot_obj_v_1 [symmetric]
  by (intro canonical_json_ok json_ok_snapshot_obj) simp_all

lemma snapshot_roundtrip_lemma:
  "snapshot_ok s \<Longrightarrow> snapshot_from_canonical (cjson (JObj (snapshot_obj s))) = Inr s"
  using snapshot_from_obj_v [of s "JInt 1"] by (simp add: snapshot_obj_v_1 py_eq_def)

lemma jget_map_of: "k \<in> set (map fst kvs) \<Longrightarrow> map_of kvs k = Some (jget kvs k)"
  using map_of_eq_None_iff [of kvs k] by (cases "map_of kvs k") (simp_all add: jget_def)

lemma map_of_eq_jget:
  assumes "set (map fst a) = set (map fst b)" "\<And>k. k \<in> set (map fst b) \<Longrightarrow> jget a k = jget b k"
  shows "map_of a = map_of b"
proof
  fix k
  show "map_of a k = map_of b k"
  proof (cases "k \<in> set (map fst b)")
    case True
    then show ?thesis using assms(1) assms(2) [OF True] jget_map_of [of k a] jget_map_of [of k b] by simp
  next
    case False
    then have "map_of a k = None" "map_of b k = None"
      using assms(1) by (simp_all only: map_of_eq_None_iff set_map simp_thms)
    then show ?thesis by simp
  qed
qed

lemma cjson_cong:
  assumes "distinct (map fst a)" "distinct (map fst b)" "map_of a = map_of b"
  shows "cjson (JObj a) = cjson (JObj b)"
proof -
  have "sort_key fst (map (\<lambda>(k, v). (k, jsort v)) a) = sort_key fst (map (\<lambda>(k, v). (k, jsort v)) b)"
  proof (rule sorted_distinct_keys_eq)
    show "map_of (sort_key fst (map (\<lambda>(k, v). (k, jsort v)) a)) = map_of (sort_key fst (map (\<lambda>(k, v). (k, jsort v)) b))"
      using assms map_of_map_values [of jsort a] map_of_map_values [of jsort b]
      by (simp add: map_of_sort_fst del: map_map)
  qed (use assms in \<open>simp_all add: distinct_sort_fst del: map_map\<close>)
  then show ?thesis by (simp add: cjson_def)
qed


lemma snapshot_from_canonicalD:
  assumes "snapshot_from_canonical data = Inr s"
  shows "snapshot_ok s \<and> (\<exists>v. py_eq v (JInt 1) \<and> data = cjson (JObj (snapshot_obj_v v s)))"
proof -
  from assms obtain obj where p: "parse_record data ''stele.snapshot'' [''kind'', ''digest'', ''size'', ''file_count''] = Inr obj"
    and m: "make_snapshot (jget obj ''kind'') (jget obj ''digest'') (jget obj ''size'') (jget obj ''file_count'') = Inr s"
    by (auto simp: snapshot_from_canonical_def split: sum.splits if_splits)
  note pd = parse_recordD [OF p]
  let ?v = "jget obj ''schema_version''"
  let ?kvs = "snapshot_obj_v ?v s"
  have sch: "jget obj ''schema'' = JStr ''stele.snapshot''"
    using pd(3) by (cases "jget obj ''schema''") (auto simp: py_eq_def split: pyfloat.splits if_splits)
  have "map_of obj = map_of ?kvs"
  proof (rule map_of_eq_jget)
    show "set (map fst obj) = set (map fst ?kvs)"
      using pd(5) by (auto simp: snapshot_obj_v_def snapshot_obj_def)
    show "jget obj k = jget ?kvs k" if "k \<in> set (map fst ?kvs)" for k
      using that make_snapshotD [OF m] sch by (auto simp: snapshot_obj_v_def snapshot_obj_def)
  qed
  moreover have "distinct (map fst ?kvs)" by (simp add: snapshot_obj_v_def snapshot_obj_def)
  ultimately have "cjson (JObj obj) = cjson (JObj ?kvs)"
    using cjson_cong [OF json_loads_obj_distinct [OF pd(1)]] by blast
  moreover have "data = cjson (JObj obj)"
    using pd(2) by (simp add: canonical_json_def split: if_splits)
  ultimately show ?thesis using make_snapshotD [OF m] pd(4) by auto
qed


lemma py_eq_1: "py_eq v (JInt 1) \<longleftrightarrow> v = JInt 1 \<or> v = JBool True \<or> v = JFloat (PNum 1)"
proof
  assume "py_eq v (JInt 1)"
  then show "v = JInt 1 \<or> v = JBool True \<or> v = JFloat (PNum 1)"
    by (cases v) (auto simp: py_eq_def split: pyfloat.splits if_splits)
qed (auto simp: py_eq_def)

text \<open>
  A snapshot record parses from exactly three byte strings: its canonical bytes,
  and the two in which \<open>schema_version\<close> is \<open>true\<close> or \<open>1.0\<close> instead of \<open>1\<close>, which
  Python's \<open>!=\<close> does not tell from 1.  So a record that parses determines the snapshot
  and is canonical, but it has three byte representations instead of one.
\<close>

theorem snapshot_parse_exact:
  "snapshot_from_canonical data = Inr s \<longleftrightarrow>
   snapshot_ok s \<and>
   data \<in> (\<lambda>v. cjson (JObj (snapshot_obj_v v s))) ` {JInt 1, JBool True, JFloat (PNum 1)}"
proof
  assume "snapshot_from_canonical data = Inr s"
  then show "snapshot_ok s \<and>
      data \<in> (\<lambda>v. cjson (JObj (snapshot_obj_v v s))) ` {JInt 1, JBool True, JFloat (PNum 1)}"
    using snapshot_from_canonicalD [of data s] by (auto simp: py_eq_1)
next
  assume a: "snapshot_ok s \<and>
      data \<in> (\<lambda>v. cjson (JObj (snapshot_obj_v v s))) ` {JInt 1, JBool True, JFloat (PNum 1)}"
  then obtain v where v: "v \<in> {JInt 1, JBool True, JFloat (PNum 1)}"
    "data = cjson (JObj (snapshot_obj_v v s))" by blast
  then have "json_ok v" "py_eq (jsort v) (JInt 1)" by (auto simp: float_ok_1 py_eq_def)
  with a v show "snapshot_from_canonical data = Inr s" by (simp add: snapshot_from_obj_v)
qed

text \<open>
  A well-formed snapshot serializes, and its bytes parse back to it.
\<close>

theorem snapshot_roundtrip:
  assumes "snapshot_ok s"
  shows "\<exists>b. snapshot_to_canonical s = Inr b \<and> snapshot_from_canonical b = Inr s"
  using snapshot_to_canonical_ok [OF assms] snapshot_roundtrip_lemma [OF assms] by blast

theorem snapshot_roundtrip_witness:
  "\<exists>b. snapshot_to_canonical \<lparr>snap_kind = FILE, snap_digest = sha256 ''x'', snap_size = 1, snap_file_count = 1\<rparr> = Inr b \<and>
     snapshot_from_canonical b = Inr \<lparr>snap_kind = FILE, snap_digest = sha256 ''x'', snap_size = 1, snap_file_count = 1\<rparr>"
  by (rule snapshot_roundtrip) (simp add: snapshot_ok_def)

section \<open>Sources and their bytes\<close>

definition source_ok :: "source \<Rightarrow> bool" where
  "source_ok s \<longleftrightarrow> src_locator s \<noteq> [] \<and> utf8_ok (src_locator s)"

lemma json_ok_source_obj: "source_ok s \<Longrightarrow> json_ok (JObj (source_obj s))"
  by (simp add: source_obj_def source_ok_def utf8_ok_ascii)

lemma source_to_canonical_ok:
  "source_ok s \<Longrightarrow> source_to_canonical s = Inr (cjson (JObj (source_obj s)))"
  unfolding source_to_canonical_def by (intro canonical_json_ok json_ok_source_obj)

lemma source_roundtrip_lemma:
  assumes "source_ok s"
  shows "source_from_canonical (cjson (JObj (source_obj s))) = Inr s"
proof -
  let ?kvs = "source_obj s"
  have ok: "json_ok (JObj ?kvs)" using assms by (rule json_ok_source_obj)
  then have d: "distinct (map fst ?kvs)" by simp
  have "parse_record (cjson (JObj ?kvs)) ''stele.source'' [''locator'']
      = Inr (sort_key fst (map (\<lambda>(k, v). (k, jsort v)) ?kvs))"
    by (rule parse_record_cjson [OF ok]) (auto simp: source_obj_def py_eq_def RECORDS_SCHEMA_VERSION_def)
  moreover have "jget ?kvs ''locator'' = JStr (src_locator s)" by (simp add: source_obj_def)
  ultimately show ?thesis
    using assms
    by (simp add: source_from_canonical_def jget_sorted [OF d] make_source_def source_ok_def
        del: sort_key_simps)
qed

lemma source_id_ok: "source_ok s \<Longrightarrow> source_id s = Inr (sha256 (cjson (JObj (source_obj s))))"
  by (simp add: source_id_def source_to_canonical_ok)

text \<open>Two sources share a \<open>source_id\<close> only if they are equal or SHA-256 collides.\<close>

lemma source_id_inj:
  assumes "source_ok a" "source_ok b" "source_id a = source_id b"
  shows "a = b \<or> collision (cjson (JObj (source_obj a))) (cjson (JObj (source_obj b)))"
proof -
  have "sha256 (cjson (JObj (source_obj a))) = sha256 (cjson (JObj (source_obj b)))"
    using assms by (simp add: source_id_ok)
  then have "cjson (JObj (source_obj a)) = cjson (JObj (source_obj b)) \<or>
      collision (cjson (JObj (source_obj a))) (cjson (JObj (source_obj b)))"
    by (rule sha256_eqD)
  moreover have "a = b" if "cjson (JObj (source_obj a)) = cjson (JObj (source_obj b))"
    using source_roundtrip_lemma [OF assms(1)] source_roundtrip_lemma [OF assms(2)]
    unfolding that by (rule trans [OF sym, THEN Inr_inject])
  ultimately show ?thesis by blast
qed

end
