(* ===== verification/Models.thy ===== *)
theory Models
  imports Records
begin

text \<open>
  The ledger's data (\<open>stele/ledger/models.py\<close>): record states, parser identities, run
  conditions and artifact records, each with the validation its constructor makes.
  Timestamps are kept as the ISO-8601 texts the database stores.  The Python values a
  caller hands in where JSON is expected are a datatype of their own, with the parts
  JSON cannot represent.
\<close>

section \<open>Python values where JSON is expected\<close>

text \<open>
  Besides the JSON values: tuples, dictionaries with a key that is not a \<open>str\<close>, and
  objects the encoder refuses with \<open>TypeError\<close>.
\<close>

datatype pyval =
    VNull
  | VBool bool
  | VInt int
  | VFloat pyfloat
  | VStr string
  | VList "pyval list"
  | VTuple "pyval list"
  | VDict "(string \<times> pyval) list"
  | VOtherKeys
  | VOther

text \<open>
  What \<open>json.dumps\<close> writes: tuples become lists.  A dictionary with other keys is
  refused or has them written as strings, an object that is not equal to it; both count
  as not encodable here, which is how every caller treats them.
\<close>

fun encode_value :: "pyval \<Rightarrow> json option"
  and encode_values :: "pyval list \<Rightarrow> json list option"
  and encode_members :: "(string \<times> pyval) list \<Rightarrow> (string \<times> json) list option" where
  "encode_value VNull = Some JNull"
| "encode_value (VBool b) = Some (JBool b)"
| "encode_value (VInt i) = Some (JInt i)"
| "encode_value (VFloat x) = Some (JFloat x)"
| "encode_value (VStr s) = Some (JStr s)"
| "encode_value (VList vs) = map_option JArr (encode_values vs)"
| "encode_value (VTuple vs) = map_option JArr (encode_values vs)"
| "encode_value (VDict kvs) = map_option JObj (encode_members kvs)"
| "encode_value VOtherKeys = None"
| "encode_value VOther = None"
| "encode_values [] = Some []"
| "encode_values (v # vs) =
     (case (encode_value v, encode_values vs) of (Some j, Some js) \<Rightarrow> Some (j # js) | _ \<Rightarrow> None)"
| "encode_members [] = Some []"
| "encode_members ((k, v) # kvs) =
     (case (encode_value v, encode_members kvs) of
        (Some j, Some js) \<Rightarrow> Some ((k, j) # js) | _ \<Rightarrow> None)"

text \<open>A tuple anywhere: never equal to the list it is decoded as.\<close>

fun has_tuple :: "pyval \<Rightarrow> bool" where
  "has_tuple (VTuple vs) = True"
| "has_tuple (VList vs) = list_ex has_tuple vs"
| "has_tuple (VDict kvs) = list_ex (\<lambda>(k, v). has_tuple v) kvs"
| "has_tuple _ = False"

section \<open>Record states and parser identities\<close>

datatype artifact_state = PENDING | SEALED | FAILED | INVALIDATED

fun state_value :: "artifact_state \<Rightarrow> string" where
  "state_value PENDING = ''pending''"
| "state_value SEALED = ''sealed''"
| "state_value FAILED = ''failed''"
| "state_value INVALIDATED = ''invalidated''"

text \<open>\<open>ArtifactState(value)\<close>.\<close>

definition state_of_value :: "string \<Rightarrow> artifact_state result" where
  "state_of_value v =
     (if v = ''pending'' then Inr PENDING else if v = ''sealed'' then Inr SEALED
      else if v = ''failed'' then Inr FAILED else if v = ''invalidated'' then Inr INVALIDATED
      else Inl ValueError)"

lemma state_of_state_value [simp]: "state_of_value (state_value s) = Inr s"
  by (cases s) (simp_all add: state_of_value_def)

lemma state_value_inject [simp]: "state_value a = state_value b \<longleftrightarrow> a = b"
  by (cases a; cases b) simp_all

record parser_identity =
  pi_name :: string
  pi_version :: string
  pi_image_digest :: "string option"
  pi_module_sha256 :: "string option"

text \<open>\<open>ParserIdentity.__post_init__\<close>.\<close>

definition check_identity :: "parser_identity \<Rightarrow> parser_identity result" where
  "check_identity p =
     (if pi_name p = [] \<or> pi_version p = [] then Inl ValueError
      else if pi_image_digest p = Some [] then Inl ValueError
      else case pi_module_sha256 p of
        None \<Rightarrow> Inr p
      | Some m \<Rightarrow> if is_digest m then Inr p else Inl ValueError)"

section \<open>Run conditions\<close>

text \<open>The code points of a UTF-8 text.\<close>

fun code_points :: "string \<Rightarrow> nat list" where
  "code_points [] = []"
| "code_points (a # xs) =
     (let n = code a in
      if n < 128 then n # code_points xs
      else if n < 224 then
        (case xs of b # ys \<Rightarrow> ((n - 192) * 64 + (code b - 128)) # code_points ys | _ \<Rightarrow> [])
      else if n < 240 then
        (case xs of b # c # ys \<Rightarrow>
            (((n - 224) * 64 + (code b - 128)) * 64 + (code c - 128)) # code_points ys
         | _ \<Rightarrow> [])
      else
        (case xs of b # c # d # ys \<Rightarrow>
            ((((n - 240) * 64 + (code b - 128)) * 64 + (code c - 128)) * 64 + (code d - 128))
              # code_points ys
         | _ \<Rightarrow> []))"

text \<open>The zeros of the Unicode decimal digits (general category Nd, Unicode 14): what \<open>\d\<close> matches.\<close>

definition digit_zeros :: "nat list" where
  "digit_zeros =
     [48, 1632, 1776, 1984, 2406, 2534, 2662, 2790, 2918, 3046, 3174, 3302, 3430, 3558, 3664, 3792,
      3872, 4160, 4240, 6112, 6160, 6470, 6608, 6784, 6800, 6992, 7088, 7232, 7248, 42528, 43216,
      43264, 43472, 43504, 43600, 44016, 65296, 66720, 68912, 69734, 69872, 69942, 70096, 70384,
      70736, 70864, 71248, 71360, 71472, 71904, 72016, 72784, 73040, 73120, 92768, 92864, 93008,
      120782, 120792, 120802, 120812, 120822, 123200, 123632, 125264, 130032]"

definition digit_of :: "nat \<Rightarrow> nat option" where
  "digit_of c = map_option (\<lambda>z. c - z) (find (\<lambda>z. z \<le> c \<and> c < z + 10) digit_zeros)"

definition is_digit_cp :: "nat \<Rightarrow> bool" where
  "is_digit_cp c \<longleftrightarrow> digit_of c \<noteq> None"

definition digits_value :: "nat list \<Rightarrow> nat" where
  "digits_value cs = foldl (\<lambda>a c. a * 10 + the (digit_of c)) 0 cs"

text \<open>An optional character of the pattern: \<open>x?\<close>.\<close>

definition skip_one :: "nat set \<Rightarrow> nat list \<Rightarrow> nat list" where
  "skip_one cs s = (case s of c # t \<Rightarrow> if c \<in> cs then t else s | [] \<Rightarrow> [])"

text \<open>
  \<open>^(\d+(?:\.\d+)?) ?[kmgtp]?i?b?$\<close> with \<open>IGNORECASE\<close>, which also matches the Kelvin
  sign for k and the dotted capital and dotless small i; \<open>$\<close> also matches before a final
  line feed.  The result is the number: integer and fraction digits.
\<close>

definition match_memory :: "nat list \<Rightarrow> (nat list \<times> nat list) option" where
  "match_memory s =
     (let ip = takeWhile is_digit_cp s;
          s1 = dropWhile is_digit_cp s;
          fr = (case s1 of c # t \<Rightarrow> if c = 46 then takeWhile is_digit_cp t else [] | [] \<Rightarrow> []);
          s2 = (if fr = [] then s1 else dropWhile is_digit_cp (tl s1));
          s3 = skip_one {32} s2;
          s4 = skip_one {75, 107, 8490, 77, 109, 71, 103, 84, 116, 80, 112} s3;
          s5 = skip_one {73, 105, 304, 305} s4;
          s6 = skip_one {66, 98} s5
      in if ip \<noteq> [] \<and> (s6 = [] \<or> s6 = [10]) then Some (ip, fr) else None)"

definition is_memory_limit :: "string \<Rightarrow> bool" where
  "is_memory_limit value =
     (case match_memory (code_points value) of
        None \<Rightarrow> False
      | Some (ip, fr) \<Rightarrow>
          (case round64 (of_nat (digits_value (ip @ fr)) * pow_z 10 (- int (length fr))) of
             PNum r \<Rightarrow> 0 < r | PInf neg \<Rightarrow> \<not> neg | _ \<Rightarrow> False))"

record run_conditions =
  rc_device :: string
  rc_memory :: "string option"
  rc_cpus :: "pyfloat option"
  rc_pids_limit :: "int option"
  rc_timeout_seconds :: "int option"

text \<open>\<open>cpus <= 0\<close>: false for NaN.\<close>

definition not_positive :: "pyfloat \<Rightarrow> bool" where
  "not_positive x = (case x of PNum r \<Rightarrow> r \<le> 0 | PNegZero \<Rightarrow> True | PInf neg \<Rightarrow> neg | PNaN \<Rightarrow> False)"

definition check_cpus :: "json \<Rightarrow> pyfloat option result" where
  "check_cpus v =
     (case v of
        JNull \<Rightarrow> Inr None
      | JInt i \<Rightarrow>
          if i \<le> 0 then Inl ValueError
          else (case round64 (of_int i) of PInf _ \<Rightarrow> Inl (OtherError ''OverflowError'') | x \<Rightarrow> Inr (Some x))
      | JFloat x \<Rightarrow> if not_positive x then Inl ValueError else Inr (Some x)
      | _ \<Rightarrow> Inl ValueError)"

definition check_positive_int :: "json \<Rightarrow> int option result" where
  "check_positive_int v =
     (case v of
        JNull \<Rightarrow> Inr None
      | JInt i \<Rightarrow> if i \<le> 0 then Inl ValueError else Inr (Some i)
      | _ \<Rightarrow> Inl ValueError)"

definition check_memory :: "json \<Rightarrow> string option result" where
  "check_memory v =
     (case v of
        JNull \<Rightarrow> Inr None
      | JStr m \<Rightarrow> if is_memory_limit m then Inr (Some m) else Inl ValueError
      | _ \<Rightarrow> Inl ValueError)"

text \<open>\<open>RunConditions.__post_init__\<close> on arbitrary JSON arguments.\<close>

definition make_run_conditions ::
  "json \<Rightarrow> json \<Rightarrow> json \<Rightarrow> json \<Rightarrow> json \<Rightarrow> run_conditions result" where
  "make_run_conditions device memory cpus pids_limit timeout_seconds =
     (if device \<noteq> JStr ''cpu'' \<and> device \<noteq> JStr ''gpu'' then Inl ValueError
      else case check_memory memory of Inl e \<Rightarrow> Inl e | Inr m \<Rightarrow>
      (case check_cpus cpus of Inl e \<Rightarrow> Inl e | Inr c \<Rightarrow>
      (case check_positive_int pids_limit of Inl e \<Rightarrow> Inl e | Inr p \<Rightarrow>
      (case check_positive_int timeout_seconds of Inl e \<Rightarrow> Inl e | Inr t \<Rightarrow>
         Inr \<lparr>rc_device = (case device of JStr d \<Rightarrow> d | _ \<Rightarrow> []), rc_memory = m, rc_cpus = c,
              rc_pids_limit = p, rc_timeout_seconds = t\<rparr>))))"

definition opt_str :: "string option \<Rightarrow> json" where
  "opt_str x = (case x of None \<Rightarrow> JNull | Some s \<Rightarrow> JStr s)"

definition opt_int :: "int option \<Rightarrow> json" where
  "opt_int x = (case x of None \<Rightarrow> JNull | Some i \<Rightarrow> JInt i)"

definition run_conditions_to_dict :: "run_conditions \<Rightarrow> json" where
  "run_conditions_to_dict rc =
     JObj [(''device'', JStr (rc_device rc)), (''memory'', opt_str (rc_memory rc)),
           (''cpus'', case rc_cpus rc of None \<Rightarrow> JNull | Some x \<Rightarrow> JFloat x),
           (''pids_limit'', opt_int (rc_pids_limit rc)),
           (''timeout_seconds'', opt_int (rc_timeout_seconds rc))]"

definition condition_fields :: "string list" where
  "condition_fields = [''device'', ''memory'', ''cpus'', ''pids_limit'', ''timeout_seconds'']"

text \<open>\<open>RunConditions.from_dict\<close>; a missing field takes its
  default.  For JSON other than an object, which only an edited column holds, the
  \<open>TypeError\<close> stands for a \<open>TypeError\<close> or a \<open>ValueError\<close>.\<close>

definition run_conditions_from_dict :: "json \<Rightarrow> run_conditions result" where
  "run_conditions_from_dict data =
     (case data of
        JObj kvs \<Rightarrow>
          if \<exists>k \<in> set (map fst kvs). k \<notin> set condition_fields then Inl ValueError
          else make_run_conditions
            (case map_of kvs ''device'' of None \<Rightarrow> JStr ''cpu'' | Some d \<Rightarrow> d)
            (jget kvs ''memory'') (jget kvs ''cpus'') (jget kvs ''pids_limit'')
            (jget kvs ''timeout_seconds'')
      | _ \<Rightarrow> Inl TypeError)"

section \<open>Artifact records\<close>

record artifact_record =
  ar_record_id :: string
  ar_run_id :: string
  ar_source_path :: "string option"
  ar_source_hash :: "string option"
  ar_source_kind :: "snapshot_kind option"
  ar_source_id :: "string option"
  ar_parser :: "parser_identity option"
  ar_parser_config :: "json option"
  ar_backend :: "string option"
  ar_artifact_dir :: string
  ar_artifact_manifest :: "(string \<times> string) list"
  ar_artifact_hash :: string
  ar_state :: artifact_state
  ar_created_at :: string
  ar_finalized_at :: "string option"
  ar_error :: "string option"
  ar_legacy_source_hash :: "string option"
  ar_run_conditions :: "run_conditions option"

section \<open>Lemmas\<close>

text \<open>A trailing line feed is accepted, which no container engine takes.\<close>

lemma memory_limit_newline: "is_memory_limit [CHR ''1'', CHR ''g'', CHR 0x0A]"
proof -
  have d: "digit_of 49 = Some 1" "digit_of 103 = None" by (simp_all add: digit_of_def digit_zeros_def)
  have "match_memory (code_points [CHR ''1'', CHR ''g'', CHR 0x0A]) = Some ([49], [])"
    by (simp add: match_memory_def Let_def is_digit_cp_def d skip_one_def)
  then show ?thesis
    by (simp add: is_memory_limit_def digits_value_def d pow_z_0 round64_1)
qed

lemma check_identity_Inr: "check_identity p = Inr q \<Longrightarrow> q = p"
  by (auto simp: check_identity_def split: if_splits option.splits)

lemma opt_str_inject [simp]: "opt_str a = opt_str b \<longleftrightarrow> a = b"
  by (auto simp: opt_str_def split: option.splits)

lemma opt_str_None [simp]: "opt_str None = JNull" "opt_str (Some s) = JStr s"
  by (simp_all add: opt_str_def)

lemma opt_int_None [simp]: "opt_int None = JNull" "opt_int (Some i) = JInt i"
  by (simp_all add: opt_int_def)

lemma jsort_opt_str [simp]: "jsort (opt_str x) = opt_str x"
  by (cases x) simp_all

lemma jsort_opt_int [simp]: "jsort (opt_int x) = opt_int x"
  by (cases x) simp_all

end
