(* ===== verification/Hashing.thy ===== *)
theory Hashing
  imports Records
begin

text \<open>
  Deterministic, no-follow hashing (\<open>stele/ledger/hashing.py\<close>) and the tree objects
  whose bytes are an encoded manifest (\<open>decode_tree\<close> and its helpers in
  \<open>stele/archive/store.py\<close>).  A directory on disk is a tree of nodes; opening a file
  beneath it never passes a symbolic link.  The main results: the two opening
  routines agree, and encoding and decoding a manifest are inverse bijections.
\<close>

section \<open>Paths\<close>

text \<open>\<open>PurePosixPath\<close>: its root (empty, one or two slashes) and its plain parts.\<close>

record path =
  path_root :: string
  path_parts :: "string list"

definition path_of :: "string \<Rightarrow> path" where
  "path_of s =
     \<lparr>path_root =
        (if starts_with ''//'' s \<and> \<not> starts_with ''///'' s then ''//''
         else if starts_with ''/'' s then ''/'' else []),
      path_parts = filter (\<lambda>p. p \<noteq> [] \<and> p \<noteq> ''.'') (split_on (CHR ''/'') s)\<rparr>"

definition as_posix :: "path \<Rightarrow> string" where
  "as_posix p =
     (if path_root p = [] \<and> path_parts p = [] then ''.''
      else path_root p @ joins ''/'' (path_parts p))"

text \<open>\<open>path / other\<close> for a relative \<open>other\<close>.\<close>

definition path_join :: "path \<Rightarrow> string list \<Rightarrow> path" where
  "path_join p parts = p\<lparr>path_parts := path_parts p @ parts\<rparr>"

text \<open>\<open>path.relative_to(base)\<close>.\<close>

definition relative_to :: "path \<Rightarrow> path \<Rightarrow> string list result" where
  "relative_to p base =
     (if path_root p = path_root base \<and> prefix (path_parts base) (path_parts p)
      then Inr (drop (length (path_parts base)) (path_parts p))
      else Inl ValueError)"

definition unsafe_parts :: "string list \<Rightarrow> bool" where
  "unsafe_parts parts \<longleftrightarrow> (\<exists>p \<in> set parts. p = [] \<or> p = ''.'' \<or> p = ''..'')"

section \<open>The file system\<close>

text \<open>
  A node of a file system as \<open>lstat\<close> shows it: a regular file with its bytes, a
  symbolic link with its target, a directory, or anything else (FIFO, socket,
  device).  Directory entries have distinct names.
\<close>

datatype node =
    Reg string
  | Link string
  | Special
  | Folder "(string \<times> node) list"

definition nul :: char where "nul = CHR 0x00"

text \<open>\<open>openat\<close> or \<open>lstat\<close> of one name in an open directory; a name with a NUL never
  reaches the system call.\<close>

definition lookup_entry :: "(string \<times> node) list \<Rightarrow> string \<Rightarrow> node result" where
  "lookup_entry es name =
     (if nul \<in> set name then Inl ValueError
      else case map_of es name of None \<Rightarrow> Inl FileNotFoundError | Some n \<Rightarrow> Inr n)"

text \<open>The final component, opened with \<open>O_NOFOLLOW\<close> and checked with \<open>fstat\<close>.\<close>

definition open_final :: "node \<Rightarrow> string result" where
  "open_final n = (case n of Reg b \<Rightarrow> Inr b | _ \<Rightarrow> Inl UnsafeFileError)"

text \<open>\<open>open_regular_file\<close> on what \<open>lstat\<close> finds at the path.\<close>

definition open_regular_file :: "node option \<Rightarrow> string result" where
  "open_regular_file n = (case n of None \<Rightarrow> Inl FileNotFoundError | Some m \<Rightarrow> open_final m)"

definition sha256_file :: "node option \<Rightarrow> string result" where
  "sha256_file n = map_sum id sha256 (open_regular_file n)"

text \<open>Every directory component is opened with \<open>O_DIRECTORY | O_NOFOLLOW\<close>.\<close>

fun walk_beneath :: "node \<Rightarrow> string list \<Rightarrow> string result" where
  "walk_beneath (Folder es) [name] =
     (case lookup_entry es name of Inl e \<Rightarrow> Inl e | Inr n \<Rightarrow> open_final n)"
| "walk_beneath (Folder es) (name # q # rest) =
     (case lookup_entry es name of Inl e \<Rightarrow> Inl e | Inr n \<Rightarrow> walk_beneath n (q # rest))"
| "walk_beneath _ _ = Inl UnsafeFileError"

definition check_relative :: "string \<Rightarrow> string list \<Rightarrow> unit result" where
  "check_relative rt parts =
     (if rt \<noteq> [] \<or> parts = [] then Inl UnsafeFileError
      else if unsafe_parts parts then Inl UnsafeFileError
      else Inr ())"

text \<open>
  \<open>open_regular_file_beneath\<close> with \<open>RACE_FREE_NOFOLLOW\<close>: \<open>dir\<close> is what the root path
  names, and the result the bytes read from the descriptor.
\<close>

definition open_regular_file_beneath :: "node option \<Rightarrow> path \<Rightarrow> string result" where
  "open_regular_file_beneath dir rel =
     (case check_relative (path_root rel) (path_parts rel) of
        Inl e \<Rightarrow> Inl e
      | Inr _ \<Rightarrow>
          (case dir of
             None \<Rightarrow> Inl FileNotFoundError
           | Some n \<Rightarrow> walk_beneath n (path_parts rel)))"

text \<open>
  \<open>_open_beneath_by_lstat\<close>, the fallback where \<open>O_NOFOLLOW\<close> is missing: the loop
  checks every directory on the way with \<open>lstat\<close>, each time from the root, and then
  the whole path is opened by \<open>open_regular_file\<close>.
\<close>

fun resolve :: "node \<Rightarrow> string list \<Rightarrow> node result" where
  "resolve n [] = Inr n"
| "resolve (Folder es) (name # rest) =
     (case lookup_entry es name of Inl e \<Rightarrow> Inl e | Inr n \<Rightarrow> resolve n rest)"
| "resolve _ (name # rest) = Inl NotADirectoryError"

fun lstat_check :: "node \<Rightarrow> string list \<Rightarrow> nat \<Rightarrow> nat \<Rightarrow> unit result" where
  "lstat_check base parts i 0 = Inr ()"
| "lstat_check base parts i (Suc k) =
     (case resolve base (take i parts) of
        Inl e \<Rightarrow> Inl e
      | Inr (Folder _) \<Rightarrow> lstat_check base parts (Suc i) k
      | Inr _ \<Rightarrow> Inl UnsafeFileError)"

definition open_beneath_by_lstat :: "node option \<Rightarrow> path \<Rightarrow> string result" where
  "open_beneath_by_lstat dir rel =
     (case check_relative (path_root rel) (path_parts rel) of
        Inl e \<Rightarrow> Inl e
      | Inr _ \<Rightarrow>
          (case dir of
             None \<Rightarrow> Inl FileNotFoundError
           | Some n \<Rightarrow>
               (case lstat_check n (path_parts rel) 0 (length (path_parts rel)) of
                  Inl e \<Rightarrow> Inl e
                | Inr _ \<Rightarrow>
                    (case resolve n (path_parts rel) of
                       Inl e \<Rightarrow> Inl e
                     | Inr m \<Rightarrow> open_final m))))"

definition sha256_file_beneath :: "node option \<Rightarrow> path \<Rightarrow> string result" where
  "sha256_file_beneath dir rel = map_sum id sha256 (open_regular_file_beneath dir rel)"

section \<open>Manifests\<close>

type_synonym manifest = "(string, string) dict"

definition encode_entry :: "string \<times> string \<Rightarrow> string" where
  "encode_entry pd = (case pd of (p, d) \<Rightarrow> p @ nul # d @ [nul])"

text \<open>\<open>encode_manifest\<close>; \<open>str.encode()\<close> refuses a text with a lone surrogate.\<close>

definition encode_manifest :: "manifest \<Rightarrow> string result" where
  "encode_manifest m =
     (if list_all (\<lambda>(p, d). utf8_ok p \<and> utf8_ok d) m
      then Inr (concat (map encode_entry (sort_key fst m)))
      else Inl UnicodeError)"

definition sha256_manifest :: "manifest \<Rightarrow> string result" where
  "sha256_manifest m = map_sum id sha256 (encode_manifest m)"

definition artifact_relative_path :: "path \<Rightarrow> path \<Rightarrow> path result" where
  "artifact_relative_path artifact_dir p =
     (case relative_to p artifact_dir of
        Inl e \<Rightarrow> Inl ValueError
      | Inr parts \<Rightarrow>
          if parts = [] \<or> unsafe_parts parts then Inl ValueError
          else Inr \<lparr>path_root = [], path_parts = parts\<rparr>)"

text \<open>The loop of \<open>build_manifest\<close>; \<open>dir\<close> is what \<open>artifact_dir\<close> names on disk.\<close>

fun build_manifest_from :: "node option \<Rightarrow> path \<Rightarrow> path list \<Rightarrow> manifest \<Rightarrow> manifest result" where
  "build_manifest_from dir artifact_dir [] m = Inr m"
| "build_manifest_from dir artifact_dir (p # ps) m =
     (case artifact_relative_path artifact_dir p of
        Inl e \<Rightarrow> Inl e
      | Inr rel \<Rightarrow>
          (case sha256_file_beneath dir rel of
             Inl e \<Rightarrow> Inl e
           | Inr d \<Rightarrow> build_manifest_from dir artifact_dir ps (AList.update (as_posix rel) d m)))"

definition build_manifest :: "node option \<Rightarrow> path \<Rightarrow> path list \<Rightarrow> manifest result" where
  "build_manifest dir artifact_dir ps = build_manifest_from dir artifact_dir ps []"

section \<open>Tree objects\<close>

definition validate_tree_path :: "string \<Rightarrow> unit result" where
  "validate_tree_path p =
     (if p = [] \<or> nul \<in> set p \<or> starts_with ''/'' p then Inl ValueError
      else if unsafe_parts (split_on (CHR ''/'') p) then Inl ValueError
      else Inr ())"

text \<open>\<open>bytes.decode("ascii")\<close>.\<close>

definition ascii_ok :: "string \<Rightarrow> bool" where
  "ascii_ok s \<longleftrightarrow> list_all (\<lambda>c. code c < (128 :: nat)) s"

text \<open>The loop of \<open>decode_tree\<close>, which turns every error into \<open>RecordFormatError\<close>.\<close>

fun decode_fields :: "string list \<Rightarrow> manifest \<Rightarrow> manifest result" where
  "decode_fields [] m = Inr m"
| "decode_fields [f] m = Inl RecordFormatError"
| "decode_fields (p # d # fs) m =
     (if \<not> utf8_ok p \<or> \<not> ascii_ok d \<or> validate_tree_path p \<noteq> Inr () \<or> \<not> is_digest d
         \<or> p \<in> set (map fst m)
      then Inl RecordFormatError
      else decode_fields fs (AList.update p d m))"

definition directories_of :: "string \<Rightarrow> string list" where
  "directories_of p =
     (let parts = split_on (CHR ''/'') p
      in map (\<lambda>i. joins ''/'' (take i parts)) [1..<length parts])"

definition check_no_file_dir_clash :: "manifest \<Rightarrow> unit result" where
  "check_no_file_dir_clash m =
     (if \<exists>d \<in> set (concat (map directories_of (map fst m))). d \<in> set (map fst m)
      then Inl RecordFormatError else Inr ())"

definition decode_tree :: "string \<Rightarrow> manifest result" where
  "decode_tree data =
     (if data = [] then Inr []
      else if last data \<noteq> nul then Inl RecordFormatError
      else let fields = split_on nul (butlast data)
           in if odd (length fields) then Inl RecordFormatError
              else case decode_fields fields [] of
                Inl e \<Rightarrow> Inl e
              | Inr m \<Rightarrow>
                  (case encode_manifest m of
                     Inl e \<Rightarrow> Inl e
                   | Inr c \<Rightarrow>
                       if c \<noteq> data then Inl RecordFormatError
                       else (case check_no_file_dir_clash m of
                               Inl e \<Rightarrow> Inl e
                             | Inr _ \<Rightarrow> Inr m)))"

section \<open>Opening beneath a directory\<close>

lemma lstat_check_Folder:
  "lstat_check (Folder es) (name # rest) (Suc i) k =
     (if k = 0 then Inr ()
      else case lookup_entry es name of Inl e \<Rightarrow> Inl e | Inr n \<Rightarrow> lstat_check n rest i k)"
proof (induction k arbitrary: i)
  case 0
  then show ?case by simp
next
  case (Suc k)
  then show ?case
    by (cases "lookup_entry es name") (auto split: sum.splits node.splits)
qed

lemma walk_by_lstat:
  "parts \<noteq> [] \<Longrightarrow>
   (case lstat_check n parts 0 (length parts) of
      Inl e \<Rightarrow> Inl e
    | Inr _ \<Rightarrow> (case resolve n parts of Inl e \<Rightarrow> Inl e | Inr m \<Rightarrow> open_final m)) = walk_beneath n parts"
proof (induction n parts rule: walk_beneath.induct)
  case (1 es name)
  then show ?case by (auto split: sum.splits)
next
  case (2 es name q rest)
  have step: "lstat_check (Folder es) (name # q # rest) 0 (length (name # q # rest))
      = (case lookup_entry es name of Inl e \<Rightarrow> Inl e
         | Inr n \<Rightarrow> lstat_check n (q # rest) 0 (length (q # rest)))"
    using lstat_check_Folder [of es name "q # rest" 0 "length (q # rest)"] by (simp del: lstat_check.simps(2), simp)
  show ?case
  proof (cases "lookup_entry es name")
    case (Inl e)
    then show ?thesis unfolding step by simp
  next
    case (Inr n)
    then show ?thesis using 2(1) [OF Inr] unfolding step
      by (simp del: lstat_check.simps split: sum.splits)
  qed
qed (auto simp: neq_Nil_conv)

text \<open>
  The \<open>lstat\<close> fallback and the race-free opening give the same bytes or the same
  exception on every file tree that does not change meanwhile.
\<close>

theorem open_beneath_agree:
  "open_beneath_by_lstat dir rel = open_regular_file_beneath dir rel"
proof (cases "check_relative (path_root rel) (path_parts rel)")
  case (Inl e)
  then show ?thesis by (simp add: open_beneath_by_lstat_def open_regular_file_beneath_def)
next
  case (Inr u)
  then have "path_parts rel \<noteq> []" by (auto simp: check_relative_def split: if_splits)
  then have "(case lstat_check n (path_parts rel) 0 (length (path_parts rel)) of
      Inl e \<Rightarrow> Inl e
    | Inr _ \<Rightarrow> (case resolve n (path_parts rel) of Inl e \<Rightarrow> Inl e | Inr m \<Rightarrow> open_final m))
    = walk_beneath n (path_parts rel)" for n
    by (rule walk_by_lstat)
  with Inr show ?thesis
    by (simp add: open_beneath_by_lstat_def open_regular_file_beneath_def split: option.splits)
qed

text \<open>What is opened is a regular file reached through directories only.\<close>

fun node_at :: "node \<Rightarrow> string list \<Rightarrow> node option" where
  "node_at n [] = Some n"
| "node_at (Folder es) (name # rest) =
     (case map_of es name of None \<Rightarrow> None | Some n \<Rightarrow> node_at n rest)"
| "node_at _ (name # rest) = None"

lemma walk_beneath_iff:
  "parts \<noteq> [] \<Longrightarrow>
   walk_beneath n parts = Inr b \<longleftrightarrow>
     node_at n parts = Some (Reg b) \<and> (\<forall>p \<in> set parts. nul \<notin> set p)"
proof (induction n parts rule: walk_beneath.induct)
  case (1 es name)
  then show ?case
    by (auto simp: lookup_entry_def open_final_def split: sum.splits option.splits node.splits if_splits)
next
  case (2 es name q rest)
  then show ?case
    by (auto simp: lookup_entry_def split: sum.splits option.splits if_splits)
qed (auto simp: neq_Nil_conv)

text \<open>
  Opening beneath a directory succeeds exactly on a relative path without
  \<open>.\<close>, \<open>..\<close> or empty components that leads through real directories to a regular
  file; symbolic links are never followed, at any component.
\<close>

theorem open_beneath_exact:
  "open_regular_file_beneath dir rel = Inr b \<longleftrightarrow>
   path_root rel = [] \<and> path_parts rel \<noteq> [] \<and> \<not> unsafe_parts (path_parts rel) \<and>
   (\<exists>p \<in> set (path_parts rel). nul \<in> set p) = False \<and>
   (\<exists>n. dir = Some n \<and> node_at n (path_parts rel) = Some (Reg b))"
  by (cases dir) (auto simp: open_regular_file_beneath_def check_relative_def walk_beneath_iff)

section \<open>Manifests and tree objects\<close>

lemma encode_manifest_Inr:
  "encode_manifest m = Inr c \<longleftrightarrow>
   list_all (\<lambda>(p, d). utf8_ok p \<and> utf8_ok d) m \<and> c = concat (map encode_entry (sort_key fst m))"
  by (auto simp: encode_manifest_def)

text \<open>A manifest that a tree object can hold.\<close>

definition tree_ok :: "manifest \<Rightarrow> bool" where
  "tree_ok m \<longleftrightarrow>
     distinct (map fst m) \<and>
     list_all (\<lambda>(p, d). utf8_ok p \<and> validate_tree_path p = Inr () \<and> is_digest d) m \<and>
     check_no_file_dir_clash m = Inr ()"

lemma code_nul: "code nul = (0 :: nat)"
  by (simp add: nul_def)

lemma is_digest_no_nul: "is_digest d \<Longrightarrow> nul \<notin> set d"
proof
  assume "is_digest d" "nul \<in> set d"
  then have "is_hex nul" by (auto simp: is_digest_def list_all_iff)
  then show False by (simp add: is_hex_def code_nul)
qed

lemma is_digest_ascii: "is_digest d \<Longrightarrow> ascii_ok d"
  by (auto simp: is_digest_def ascii_ok_def is_hex_def list_all_iff)

lemma validate_no_nul: "validate_tree_path p = Inr () \<Longrightarrow> nul \<notin> set p"
  by (auto simp: validate_tree_path_def split: if_splits)

text \<open>The fields of an encoded manifest.\<close>

definition fields_of :: "manifest \<Rightarrow> string list" where
  "fields_of m = concat (map (\<lambda>(p, d). [p, d]) m)"

lemma fields_of_simps [simp]:
  "fields_of [] = []" "fields_of ((p, d) # m) = p # d # fields_of m"
  by (simp_all add: fields_of_def)

lemma fields_of_append: "fields_of (a @ b) = fields_of a @ fields_of b"
  by (simp add: fields_of_def)

lemma joins_cons: "ws \<noteq> [] \<Longrightarrow> joins sep (w # ws) = w @ sep @ joins sep ws"
  by (cases ws) auto

lemma encoded_fields:
  "m \<noteq> [] \<Longrightarrow> concat (map encode_entry m) = joins [nul] (fields_of m) @ [nul]"
proof (induction m)
  case (Cons pd m)
  obtain p d where pd: "pd = (p, d)" by (cases pd)
  show ?case
  proof (cases "m = []")
    case True
    then show ?thesis by (simp add: pd encode_entry_def)
  next
    case False
    then have "fields_of m \<noteq> []" by (cases m) auto
    with Cons False show ?thesis by (simp add: pd encode_entry_def joins_cons)
  qed
qed simp

lemma odd_fields_of: "even (length (fields_of m))"
  by (induction m) auto

lemma decode_fields_ok:
  "list_all (\<lambda>(p, d). utf8_ok p \<and> validate_tree_path p = Inr () \<and> is_digest d) m \<Longrightarrow>
   distinct (map fst (a @ m)) \<Longrightarrow> decode_fields (fields_of m) a = Inr (a @ m)"
proof (induction m arbitrary: a)
  case (Cons pd m)
  obtain p d where pd: "pd = (p, d)" by (cases pd)
  have f: "p \<notin> fst ` set a" using Cons.prems pd by auto
  have "decode_fields (fields_of m) (a @ [(p, d)]) = Inr (a @ (p, d) # m)"
    using Cons.IH [of "a @ [(p, d)]"] Cons.prems pd by simp
  then show ?case using Cons.prems pd f
    by (simp add: is_digest_ascii update_fresh)
qed simp

lemma tree_ok_sort:
  assumes "tree_ok m"
  shows "tree_ok (sort_key fst m)"
proof -
  have d: "distinct (map fst (sort_key fst m))" using assms by (simp add: tree_ok_def distinct_sort_fst)
  have "set (map fst (sort_key fst m)) = set (map fst m)" by simp
  then have "check_no_file_dir_clash (sort_key fst m) = check_no_file_dir_clash m"
    unfolding check_no_file_dir_clash_def set_concat set_map by (simp add: image_image)
  with assms d show ?thesis by (simp add: tree_ok_def list_all_iff)
qed

lemma decode_encode:
  assumes "tree_ok m"
  shows "\<exists>c. encode_manifest m = Inr c \<and> decode_tree c = Inr (sort_key fst m)"
proof -
  let ?s = "sort_key fst m"
  have ok: "tree_ok ?s" using assms by (rule tree_ok_sort)
  have u: "list_all (\<lambda>(p, d). utf8_ok p \<and> utf8_ok d) x" if "tree_ok x" for x
    using that by (auto simp: tree_ok_def list_all_iff is_digest_utf8)
  have ss: "sort_key fst ?s = ?s" by (simp add: sort_key_id_if_sorted)
  let ?c = "concat (map encode_entry ?s)"
  have enc: "encode_manifest m = Inr ?c" "encode_manifest ?s = Inr ?c"
    using u [OF assms] u [OF ok] ss by (simp_all add: encode_manifest_def)
  have "decode_tree ?c = Inr ?s"
  proof (cases "?s = []")
    case True
    then show ?thesis by (simp add: decode_tree_def)
  next
    case False
    have c: "?c = joins [nul] (fields_of ?s) @ [nul]" using False by (rule encoded_fields)
    have "fields_of ?s \<noteq> []" using False by (cases ?s) auto
    moreover have "\<forall>w \<in> set (fields_of ?s). nul \<notin> set w"
      using ok by (auto simp: fields_of_def tree_ok_def list_all_iff dest: validate_no_nul is_digest_no_nul)
    ultimately have "split_on nul (butlast ?c) = fields_of ?s"
      unfolding c by (simp add: split_on_joins)
    moreover have "decode_fields (fields_of ?s) [] = Inr ?s"
      using decode_fields_ok [of ?s "[]"] ok by (simp add: tree_ok_def)
    moreover have "?c \<noteq> []" "last ?c = nul" unfolding c by simp_all
    moreover have "check_no_file_dir_clash ?s = Inr ()" using ok by (simp add: tree_ok_def)
    ultimately show ?thesis
      using enc(2) odd_fields_of [of ?s] by (simp add: decode_tree_def Let_def del: concat_eq_Nil_conv)
  qed
  with enc(1) show ?thesis by blast
qed

lemma decode_fieldsD:
  "decode_fields fs a = Inr m \<Longrightarrow>
   distinct (map fst a) \<Longrightarrow> list_all (\<lambda>(p, d). utf8_ok p \<and> validate_tree_path p = Inr () \<and> is_digest d) a \<Longrightarrow>
   distinct (map fst m) \<and> list_all (\<lambda>(p, d). utf8_ok p \<and> validate_tree_path p = Inr () \<and> is_digest d) m"
proof (induction fs a rule: decode_fields.induct)
  case (3 p d fs a)
  have f: "p \<notin> fst ` set a" using 3(2) by (auto split: if_splits)
  then show ?case using 3 by (auto simp: update_fresh split: if_splits)
qed auto

text \<open>
  C29.  Tree objects and manifests: a byte string decodes to \<open>m\<close> exactly when it is the
  canonical encoding of \<open>m\<close>, \<open>m\<close> is listed in path order, and \<open>m\<close> is a tree (distinct
  safe relative paths, digests, no path both file and directory).
\<close>

theorem decode_tree_exact:
  "decode_tree data = Inr m \<longleftrightarrow>
   tree_ok m \<and> sorted (map fst m) \<and> encode_manifest m = Inr data"
proof
  assume a: "decode_tree data = Inr m"
  show "tree_ok m \<and> sorted (map fst m) \<and> encode_manifest m = Inr data"
  proof (cases "data = []")
    case True
    with a show ?thesis
      by (auto simp: decode_tree_def tree_ok_def encode_manifest_def check_no_file_dir_clash_def)
  next
    case False
    from a False have "decode_fields (split_on nul (butlast data)) [] = Inr m"
      and enc: "encode_manifest m = Inr data" and cl: "check_no_file_dir_clash m = Inr ()"
      by (auto simp: decode_tree_def Let_def split: sum.splits if_splits)
    then have ok: "tree_ok m" using decode_fieldsD [of _ "[]" m] by (simp add: tree_ok_def)
    then obtain c where "encode_manifest m = Inr c" "decode_tree c = Inr (sort_key fst m)"
      using decode_encode by blast
    with enc a have "sort_key fst m = m" by simp
    then have "sorted (map fst m)" by (metis sorted_sort_key)
    with ok enc show ?thesis by simp
  qed
next
  assume a: "tree_ok m \<and> sorted (map fst m) \<and> encode_manifest m = Inr data"
  then have "sort_key fst m = m" by (simp add: sort_key_id_if_sorted)
  with decode_encode [of m] a show "decode_tree data = Inr m" by auto
qed

text \<open>Two manifests with one hash are the same dictionary, or their canonical forms are a collision.\<close>

definition manifest_collision :: "manifest \<Rightarrow> manifest \<Rightarrow> bool" where
  "manifest_collision m n \<longleftrightarrow> (\<exists>a b. encode_manifest m = Inr a \<and> encode_manifest n = Inr b \<and> collision a b)"

lemma sha256_manifest_inj:
  assumes "tree_ok m" "tree_ok n" "sha256_manifest m = sha256_manifest n"
  shows "dict_eq m n \<or> manifest_collision m n"
proof -
  obtain a b where ab: "encode_manifest m = Inr a" "decode_tree a = Inr (sort_key fst m)"
    "encode_manifest n = Inr b" "decode_tree b = Inr (sort_key fst n)"
    using decode_encode assms(1,2) by metis
  then have "sha256 a = sha256 b" using assms(3) by (simp add: sha256_manifest_def)
  then consider "a = b" | "collision a b" using sha256_eqD by blast
  then show ?thesis
  proof cases
    case 1
    then have "sort_key fst m = sort_key fst n" using ab by simp
    then have "map_of (sort_key fst m) = map_of (sort_key fst n)" by simp
    then have "map_of m = map_of n"
      using assms(1,2) by (simp add: map_of_sort_fst tree_ok_def)
    then show ?thesis by (simp add: dict_eq_iff)
  qed (use ab in \<open>auto simp: manifest_collision_def\<close>)
qed

end
