(* ===== verification/Archive.thy ===== *)
theory Archive
  imports Hashing
begin

text \<open>
  The evidence store (\<open>stele/archive/store.py\<close>).  Its state is the map from the path of
  an object under the store root to what is stored there; in-flight temporary files are
  never read as evidence and are not part of it.  Publishing is one step, the hard link
  that fails when the name exists.  The main results: a read returns only bytes that
  hash to the digest, nothing stored is ever changed or removed, and the store is a
  content store in the sense of the locale below, which is interpreted on it.
\<close>

section \<open>State and paths\<close>

text \<open>
  What a path of the store holds: a regular file, or something that is not a regular
  file (a symbolic link, directory, ...), for which \<open>exists()\<close> and \<open>is_file()\<close>, which
  follow links, and \<open>lstat().st_size\<close> may answer anything.
\<close>

datatype stored =
    Stored string
  | Irregular bool bool nat

type_synonym archive = "string \<Rightarrow> stored option"

fun path_exists :: "stored option \<Rightarrow> bool" where
  "path_exists None = False"
| "path_exists (Some (Stored _)) = True"
| "path_exists (Some (Irregular ex _ _)) = ex"

fun is_file :: "stored option \<Rightarrow> bool" where
  "is_file None = False"
| "is_file (Some (Stored _)) = True"
| "is_file (Some (Irregular _ f _)) = f"

fun st_size :: "stored \<Rightarrow> nat" where
  "st_size (Stored b) = length b"
| "st_size (Irregular _ _ n) = n"

definition check_digest :: "string \<Rightarrow> string result" where
  "check_digest d = (if is_digest d then Inr d else Inl InvalidDigestError)"

definition sharded :: "string \<Rightarrow> string \<Rightarrow> string" where
  "sharded base digest = base @ ''/'' @ take 2 digest @ ''/'' @ drop 2 digest"

definition blob_path :: "string \<Rightarrow> string result" where
  "blob_path digest = map_sum id (sharded ''blobs'') (check_digest digest)"

definition snapshot_path :: "snapshot_kind \<Rightarrow> string \<Rightarrow> string" where
  "snapshot_path kind = sharded (''meta/snapshots/'' @ kind_value kind)"

definition source_path :: "string \<Rightarrow> string" where
  "source_path = sharded ''meta/sources''"

definition archive_marker :: string where
  "archive_marker = ''stele-archive.json''"

section \<open>Reading\<close>

text \<open>\<open>_open\<close> and \<open>_read_file\<close>.\<close>

definition read_file :: "archive \<Rightarrow> string \<Rightarrow> string result" where
  "read_file s path =
     (case s path of
        None \<Rightarrow> Inl MissingObjectError
      | Some (Irregular _ _ _) \<Rightarrow> Inl IntegrityError
      | Some (Stored b) \<Rightarrow> Inr b)"

text \<open>\<open>_verify\<close> of an object already stored under the digest's path.\<close>

definition verify_blob :: "string \<Rightarrow> string \<Rightarrow> archive \<Rightarrow> unit result" where
  "verify_blob digest path s =
     (case read_file s path of
        Inl e \<Rightarrow> Inl e
      | Inr b \<Rightarrow> if sha256 b \<noteq> digest then Inl IntegrityError else Inr ())"

definition has :: "archive \<Rightarrow> string \<Rightarrow> bool result" where
  "has s digest = (case blob_path digest of Inl e \<Rightarrow> Inl e | Inr p \<Rightarrow> Inr (is_file (s p)))"

definition blob_size :: "archive \<Rightarrow> string \<Rightarrow> nat result" where
  "blob_size s digest =
     (case blob_path digest of
        Inl e \<Rightarrow> Inl e
      | Inr p \<Rightarrow> (case s p of None \<Rightarrow> Inl MissingObjectError | Some n \<Rightarrow> Inr (st_size n)))"

text \<open>\<open>read\<close>; \<open>iter_verified\<close> consumed to its end yields the same bytes or the same error.\<close>

definition read_blob :: "archive \<Rightarrow> string \<Rightarrow> string result" where
  "read_blob s digest =
     (case blob_path digest of
        Inl e \<Rightarrow> Inl e
      | Inr p \<Rightarrow>
          (case read_file s p of
             Inl e \<Rightarrow> Inl e
           | Inr b \<Rightarrow> if sha256 b \<noteq> digest then Inl IntegrityError else Inr b))"

text \<open>\<open>iter_verified\<close>: the chunks it yields before it ends or raises.\<close>

function chunks_of :: "nat \<Rightarrow> string \<Rightarrow> string list" where
  "chunks_of n b = (if b = [] \<or> n = 0 then [] else take n b # chunks_of n (drop n b))"
  by pat_completeness auto
termination
  by (relation "measure (\<lambda>(n, b). length b)") auto

declare chunks_of.simps [simp del]

definition CHUNK :: nat where "CHUNK = 65536"

definition iter_verified :: "archive \<Rightarrow> string \<Rightarrow> string list \<times> unit result" where
  "iter_verified s digest =
     (case blob_path digest of
        Inl e \<Rightarrow> ([], Inl e)
      | Inr p \<Rightarrow>
          (case read_file s p of
             Inl e \<Rightarrow> ([], Inl e)
           | Inr b \<Rightarrow>
               (chunks_of CHUNK b,
                if sha256 (concat (chunks_of CHUNK b)) \<noteq> digest then Inl IntegrityError else Inr ())))"

definition verified_size :: "archive \<Rightarrow> string \<Rightarrow> nat result" where
  "verified_size s digest =
     (case iter_verified s digest of
        (cs, Inl e) \<Rightarrow> Inl e
      | (cs, Inr _) \<Rightarrow> Inr (sum_list (map length cs)))"

section \<open>Publishing\<close>

text \<open>
  \<open>os.link(tmp, final)\<close>: publishes the bytes, or fails because the name exists and
  falls back to checking what is there.
\<close>

definition link_new ::
  "string \<Rightarrow> string \<Rightarrow> (archive \<Rightarrow> unit result) \<Rightarrow> archive \<Rightarrow> unit result \<times> archive" where
  "link_new final data on_exists s =
     (case s final of
        Some _ \<Rightarrow> (on_exists s, s)
      | None \<Rightarrow> (Inr (), s(final \<mapsto> Stored data)))"

text \<open>\<open>_install\<close>.\<close>

definition install ::
  "string \<Rightarrow> string \<Rightarrow> (archive \<Rightarrow> unit result) \<Rightarrow> archive \<Rightarrow> unit result \<times> archive" where
  "install final data on_exists s =
     (if path_exists (s final) then (on_exists s, s) else link_new final data on_exists s)"

definition same_record :: "string \<Rightarrow> string \<Rightarrow> archive \<Rightarrow> unit result" where
  "same_record final data s =
     (case read_file s final of
        Inl e \<Rightarrow> Inl e
      | Inr found \<Rightarrow> if found \<noteq> data then Inl IntegrityError else Inr ())"

definition install_record :: "string \<Rightarrow> string \<Rightarrow> archive \<Rightarrow> unit result \<times> archive" where
  "install_record final data s = install final data (same_record final data) s"

text \<open>\<open>put_chunks\<close>; the bytes are hashed as they are written.\<close>

definition put_chunks :: "string list \<Rightarrow> string option \<Rightarrow> archive \<Rightarrow> string result \<times> archive" where
  "put_chunks chunks expected s =
     (case (case expected of None \<Rightarrow> Inr [] | Some e \<Rightarrow> check_digest e) of
        Inl e \<Rightarrow> (Inl e, s)
      | Inr _ \<Rightarrow>
          let digest = sha256 (concat chunks) in
          if expected \<noteq> None \<and> expected \<noteq> Some digest then (Inl IntegrityError, s)
          else case blob_path digest of
            Inl e \<Rightarrow> (Inl e, s)
          | Inr path \<Rightarrow>
              (case install path (concat chunks) (verify_blob digest path) s of
                 (Inl e, s') \<Rightarrow> (Inl e, s')
               | (Inr _, s') \<Rightarrow> (Inr digest, s')))"

definition put_bytes :: "string \<Rightarrow> string option \<Rightarrow> archive \<Rightarrow> string result \<times> archive" where
  "put_bytes data expected s = put_chunks [data] expected s"

text \<open>\<open>put_fd\<close> and \<open>put_stream\<close>: the bytes are read from the descriptor in chunks.\<close>

definition put_fd :: "string \<Rightarrow> string option \<Rightarrow> archive \<Rightarrow> string result \<times> archive" where
  "put_fd content expected s = put_chunks (chunks_of CHUNK content) expected s"

definition put_file :: "node option \<Rightarrow> string option \<Rightarrow> archive \<Rightarrow> string result \<times> archive" where
  "put_file file expected s =
     (case open_regular_file file of
        Inl e \<Rightarrow> (Inl e, s)
      | Inr content \<Rightarrow> put_fd content expected s)"

section \<open>Opening a store\<close>

definition marker_bytes :: string where
  "marker_bytes = cjson (JObj [(''format'', JStr ''stele.archive''), (''layout_version'', JInt 1)])"

definition layout_names :: "string list" where
  "layout_names = [archive_marker, ''blobs'', ''meta'', ''tmp'']"

text \<open>\<open>_open_or_initialize\<close>; \<open>entries\<close> are the names in the root directory.\<close>

definition open_or_initialize :: "string list \<Rightarrow> archive \<Rightarrow> unit result \<times> archive" where
  "open_or_initialize entries s =
     (let (r, s1) =
        (if path_exists (s archive_marker) then (Inr (), s)
         else if \<exists>n \<in> set entries. n \<notin> set layout_names then (Inl ArchiveError, s)
         else install_record archive_marker marker_bytes s)
      in case r of
           Inl e \<Rightarrow> (Inl e, s1)
         | Inr _ \<Rightarrow>
             (case s1 archive_marker of
                None \<Rightarrow> (Inl FileNotFoundError, s1)
              | Some (Irregular _ _ _) \<Rightarrow> (Inl UnsafeFileError, s1)
              | Some (Stored found) \<Rightarrow>
                  (if found \<noteq> marker_bytes then Inl ArchiveError else Inr (), s1)))"

section \<open>Trees\<close>

fun put_tree_check :: "archive \<Rightarrow> manifest \<Rightarrow> unit result" where
  "put_tree_check s [] = Inr ()"
| "put_tree_check s ((path, digest) # m) =
     (case validate_tree_path path of
        Inl e \<Rightarrow> Inl e
      | Inr _ \<Rightarrow>
          (case check_digest digest of
             Inl e \<Rightarrow> Inl e
           | Inr d \<Rightarrow>
               (case has s d of
                  Inl e \<Rightarrow> Inl e
                | Inr present \<Rightarrow>
                    if \<not> present then Inl MissingObjectError else put_tree_check s m)))"

definition put_tree :: "manifest \<Rightarrow> archive \<Rightarrow> string result \<times> archive" where
  "put_tree m s =
     (case put_tree_check s m of
        Inl e \<Rightarrow> (Inl e, s)
      | Inr _ \<Rightarrow>
          (case check_no_file_dir_clash m of
             Inl e \<Rightarrow> (Inl e, s)
           | Inr _ \<Rightarrow>
               (case encode_manifest m of
                  Inl e \<Rightarrow> (Inl e, s)
                | Inr data \<Rightarrow> put_bytes data None s)))"

definition read_tree :: "archive \<Rightarrow> string \<Rightarrow> manifest result" where
  "read_tree s digest = (case read_blob s digest of Inl e \<Rightarrow> Inl e | Inr b \<Rightarrow> decode_tree b)"

section \<open>Metadata records\<close>

fun verified_total :: "archive \<Rightarrow> string list \<Rightarrow> nat result" where
  "verified_total s [] = Inr 0"
| "verified_total s (d # ds) =
     (case verified_size s d of
        Inl e \<Rightarrow> Inl e
      | Inr n \<Rightarrow> (case verified_total s ds of Inl e \<Rightarrow> Inl e | Inr t \<Rightarrow> Inr (n + t)))"

definition check_snapshot_content :: "archive \<Rightarrow> snapshot \<Rightarrow> unit result" where
  "check_snapshot_content s snap =
     (if snap_kind snap = FILE then
        (case verified_size s (snap_digest snap) of
           Inl e \<Rightarrow> Inl e
         | Inr n \<Rightarrow> if int n \<noteq> snap_size snap then Inl IntegrityError else Inr ())
      else
        (case read_tree s (snap_digest snap) of
           Inl e \<Rightarrow> Inl e
         | Inr tree \<Rightarrow>
             (case verified_total s (dict_values tree) of
                Inl e \<Rightarrow> Inl e
              | Inr tot \<Rightarrow>
                  if (int tot, int (length tree)) \<noteq> (snap_size snap, snap_file_count snap)
                  then Inl IntegrityError else Inr ())))"

definition record_snapshot :: "snapshot \<Rightarrow> archive \<Rightarrow> snapshot result \<times> archive" where
  "record_snapshot snap s =
     (case snapshot_to_canonical snap of
        Inl e \<Rightarrow> (Inl e, s)
      | Inr data \<Rightarrow>
          (case install_record (snapshot_path (snap_kind snap) (snap_digest snap)) data s of
             (Inl e, s') \<Rightarrow> (Inl e, s')
           | (Inr _, s') \<Rightarrow> (Inr snap, s')))"

definition put_snapshot :: "snapshot \<Rightarrow> archive \<Rightarrow> snapshot result \<times> archive" where
  "put_snapshot snap s =
     (case check_snapshot_content s snap of
        Inl e \<Rightarrow> (Inl e, s)
      | Inr _ \<Rightarrow> record_snapshot snap s)"

definition get_snapshot :: "archive \<Rightarrow> string \<Rightarrow> snapshot_kind \<Rightarrow> snapshot result" where
  "get_snapshot s digest kind =
     (case check_digest digest of
        Inl e \<Rightarrow> Inl e
      | Inr d \<Rightarrow>
          (case read_file s (snapshot_path kind d) of
             Inl e \<Rightarrow> Inl e
           | Inr data \<Rightarrow>
               (case snapshot_from_canonical data of
                  Inl RecordFormatError \<Rightarrow> Inl IntegrityError
                | Inl e \<Rightarrow> Inl e
                | Inr snap \<Rightarrow>
                    if (snap_kind snap, snap_digest snap) \<noteq> (kind, digest)
                    then Inl IntegrityError else Inr snap)))"

definition has_snapshot :: "archive \<Rightarrow> string \<Rightarrow> snapshot_kind \<Rightarrow> bool result" where
  "has_snapshot s digest kind =
     (case check_digest digest of
        Inl e \<Rightarrow> Inl e
      | Inr d \<Rightarrow> Inr (is_file (s (snapshot_path kind d))))"

definition put_source :: "source \<Rightarrow> archive \<Rightarrow> string result \<times> archive" where
  "put_source src s =
     (case source_id src of
        Inl e \<Rightarrow> (Inl e, s)
      | Inr sid \<Rightarrow>
          (case source_to_canonical src of
             Inl e \<Rightarrow> (Inl e, s)
           | Inr data \<Rightarrow>
               (case install_record (source_path sid) data s of
                  (Inl e, s') \<Rightarrow> (Inl e, s')
                | (Inr _, s') \<Rightarrow> (Inr sid, s'))))"

definition get_source :: "archive \<Rightarrow> string \<Rightarrow> source result" where
  "get_source s sid =
     (case check_digest sid of
        Inl e \<Rightarrow> Inl e
      | Inr d \<Rightarrow>
          (case read_file s (source_path d) of
             Inl e \<Rightarrow> Inl e
           | Inr data \<Rightarrow>
               if sha256 data \<noteq> sid then Inl IntegrityError
               else (case source_from_canonical data of
                       Inl RecordFormatError \<Rightarrow> Inl IntegrityError
                     | Inl e \<Rightarrow> Inl e
                     | Inr src \<Rightarrow> Inr src)))"

section \<open>Reading\<close>

lemma concat_chunks_of: "0 < n \<Longrightarrow> concat (chunks_of n b) = b"
proof (induction n b rule: chunks_of.induct)
  case (1 n b)
  then show ?case by (subst chunks_of.simps) auto
qed

lemma concat_CHUNK [simp]: "concat (chunks_of CHUNK b) = b"
  by (simp add: concat_chunks_of CHUNK_def)

text \<open>Consuming \<open>iter_verified\<close> to its end is \<open>read\<close>.\<close>

lemma iter_verified_read:
  "read_blob s d = (case iter_verified s d of (cs, Inl e) \<Rightarrow> Inl e | (cs, Inr _) \<Rightarrow> Inr (concat cs))"
  by (simp add: read_blob_def iter_verified_def split: sum.splits)

lemma verified_size_read: "verified_size s d = map_sum id length (read_blob s d)"
proof -
  have "sum_list (map length cs) = length (concat cs)" for cs :: "string list"
    by (simp add: length_concat)
  then show ?thesis
    unfolding verified_size_def iter_verified_read by (auto split: prod.splits sum.splits)
qed

lemma read_blob_iff:
  "read_blob s d = Inr b \<longleftrightarrow> is_digest d \<and> s (sharded ''blobs'' d) = Some (Stored b) \<and> sha256 b = d"
  by (auto simp: read_blob_def blob_path_def check_digest_def read_file_def
      split: sum.splits option.splits stored.splits if_splits)

lemma read_blob_digest: "read_blob s d = Inr b \<Longrightarrow> sha256 b = d"
  by (simp add: read_blob_iff)

section \<open>Publishing only adds\<close>

text \<open>Everything stored in \<open>s\<close> is stored, unchanged, in \<open>s'\<close>.\<close>

definition extends :: "archive \<Rightarrow> archive \<Rightarrow> bool" where
  "extends s s' \<longleftrightarrow> (\<forall>p n. s p = Some n \<longrightarrow> s' p = Some n)"

lemma extends_refl [simp]: "extends s s"
  by (simp add: extends_def)

lemma extends_trans [trans]: "extends s t \<Longrightarrow> extends t u \<Longrightarrow> extends s u"
  by (simp add: extends_def)

lemma extends_read_blob: "extends s s' \<Longrightarrow> read_blob s d = Inr b \<Longrightarrow> read_blob s' d = Inr b"
  by (simp add: read_blob_iff extends_def)

lemma extends_read_file: "extends s s' \<Longrightarrow> read_file s p = Inr b \<Longrightarrow> read_file s' p = Inr b"
  by (auto simp: read_file_def extends_def split: option.splits stored.splits)

lemma extends_read_tree: "extends s s' \<Longrightarrow> read_tree s d = Inr m \<Longrightarrow> read_tree s' d = Inr m"
  by (auto simp: read_tree_def split: sum.splits dest: extends_read_blob)

lemma extends_get_snapshot:
  "extends s s' \<Longrightarrow> get_snapshot s d k = Inr x \<Longrightarrow> get_snapshot s' d k = Inr x"
  by (auto simp: get_snapshot_def split: sum.splits dest: extends_read_file)

lemma extends_get_source:
  "extends s s' \<Longrightarrow> get_source s d = Inr x \<Longrightarrow> get_source s' d = Inr x"
  by (auto simp: get_source_def split: sum.splits dest: extends_read_file)

lemma install_extends: "install f b ox s = (r, s') \<Longrightarrow> extends s s'"
  by (auto simp: install_def link_new_def extends_def split: if_splits option.splits)

text \<open>What a successful \<open>_install\<close> did: it published the bytes, or found them acceptable.\<close>

lemma install_InrD:
  "install f b ox s = (Inr u, s') \<Longrightarrow>
   (s f = None \<and> s' = s(f \<mapsto> Stored b)) \<or> (s f \<noteq> None \<and> ox s = Inr () \<and> s' = s)"
  by (auto simp: install_def link_new_def split: if_splits option.splits)

lemma install_InlD: "install f b ox s = (Inl e, s') \<Longrightarrow> s' = s"
  by (auto simp: install_def link_new_def split: if_splits option.splits)

lemma install_record_extends: "install_record f b s = (r, s') \<Longrightarrow> extends s s'"
  unfolding install_record_def by (rule install_extends)

lemma install_record_read: "install_record f b s = (Inr u, s') \<Longrightarrow> read_file s' f = Inr b"
  by (auto simp: install_record_def same_record_def read_file_def dest!: install_InrD
      split: sum.splits if_splits)

lemma put_chunks_extends: "put_chunks cs e s = (r, s') \<Longrightarrow> extends s s'"
  by (auto simp: put_chunks_def Let_def split: sum.splits prod.splits if_splits dest!: install_extends)

lemma put_bytes_extends: "put_bytes b e s = (r, s') \<Longrightarrow> extends s s'"
  by (simp add: put_bytes_def put_chunks_extends)

lemma put_fd_bytes: "put_fd b e s = put_bytes b e s"
  unfolding put_fd_def put_bytes_def put_chunks_def concat_CHUNK concat.simps append_Nil2 by (rule refl)

lemma put_chunks_InlD: "put_chunks cs e s = (Inl x, s') \<Longrightarrow> s' = s"
  by (auto simp: put_chunks_def Let_def split: sum.splits prod.splits if_splits dest!: install_InlD)

lemma put_bytes_InrD:
  assumes "put_bytes b e s = (Inr d, s')"
  shows "d = sha256 b" "e = None \<or> e = Some d" "\<exists>b'. read_blob s' d = Inr b'"
  using assms
  by (auto simp: put_bytes_def put_chunks_def Let_def blob_path_def check_digest_def verify_blob_def
      read_blob_iff read_file_def split: sum.splits prod.splits if_splits option.splits stored.splits
      dest!: install_InrD)

section \<open>The interface of a content store\<close>

text \<open>
  What the components above rely on: a content is put under its digest and can be read
  from then on, a read is sound, and nothing that could be read is lost.
\<close>

fun put_all :: "('b \<Rightarrow> 's \<Rightarrow> 'd result \<times> 's) \<Rightarrow> 'b list \<Rightarrow> 's \<Rightarrow> 'd list result \<times> 's" where
  "put_all put [] s = (Inr [], s)"
| "put_all put (b # bs) s =
     (case put b s of
        (Inl e, s') \<Rightarrow> (Inl e, s')
      | (Inr d, s') \<Rightarrow>
          (case put_all put bs s' of
             (Inl e, s'') \<Rightarrow> (Inl e, s'')
           | (Inr ds, s'') \<Rightarrow> (Inr (d # ds), s'')))"

locale content_store =
  fixes put :: "'b \<Rightarrow> 's \<Rightarrow> 'd result \<times> 's"
    and get :: "'s \<Rightarrow> 'd \<Rightarrow> 'b result"
    and address :: "'b \<Rightarrow> 'd"
  assumes get_sound: "get s d = Inr b \<Longrightarrow> address b = d"
    and put_address: "put b s = (Inr d, s') \<Longrightarrow> d = address b"
    and put_stored: "put b s = (Inr d, s') \<Longrightarrow> \<exists>c. get s' d = Inr c"
    and put_keeps: "put b s = (r, s') \<Longrightarrow> get s x = Inr c \<Longrightarrow> get s' x = Inr c"
begin

lemma put_then_get:
  assumes "put b s = (Inr d, s')"
  shows "get s' d = Inr b \<or> (\<exists>c. c \<noteq> b \<and> address c = address b)"
proof -
  obtain c where c: "get s' d = Inr c" using put_stored [OF assms] by blast
  then have "address c = address b" using get_sound [OF c] put_address [OF assms] by simp
  with c show ?thesis by (cases "c = b") auto
qed

lemma put_all_keeps: "put_all put bs s = (r, s') \<Longrightarrow> get s x = Inr c \<Longrightarrow> get s' x = Inr c"
proof (induction bs arbitrary: s r s')
  case (Cons b bs)
  obtain q t where q: "put b s = (q, t)" by (cases "put b s")
  then have t: "get t x = Inr c" using Cons.prems(2) by (rule put_keeps)
  show ?case
  proof (cases q)
    case (Inl e)
    then show ?thesis using Cons.prems(1) q t by simp
  next
    case (Inr d)
    obtain q' t' where q': "put_all put bs t = (q', t')" by (cases "put_all put bs t")
    then have "get t' x = Inr c" using t by (rule Cons.IH)
    moreover have "t' = s'" using Cons.prems(1) q q' Inr by (cases q') auto
    ultimately show ?thesis by simp
  qed
qed simp

lemma put_all_stored:
  "put_all put bs s = (Inr ds, s') \<Longrightarrow> ds = map address bs \<and> (\<forall>d \<in> set ds. \<exists>c. get s' d = Inr c)"
proof (induction bs arbitrary: s ds)
  case (Cons b bs)
  then obtain d t ds' where p: "put b s = (Inr d, t)" "put_all put bs t = (Inr ds', s')" "ds = d # ds'"
    by (auto split: sum.splits prod.splits)
  obtain c where "get t d = Inr c" using put_stored [OF p(1)] by blast
  then have "get s' d = Inr c" by (rule put_all_keeps [OF p(2)])
  with Cons.IH [OF p(2)] p put_address [OF p(1)] show ?case by auto
qed simp

end

interpretation blobs: content_store "\<lambda>b. put_bytes b None" read_blob sha256
proof
  show "sha256 b = d" if "read_blob s d = Inr b" for s d b
    using that by (rule read_blob_digest)
  show "d = sha256 b" if "put_bytes b None s = (Inr d, s')" for b s d s'
    using that by (rule put_bytes_InrD)
  show "\<exists>c. read_blob s' d = Inr c" if "put_bytes b None s = (Inr d, s')" for b s d s'
    using that by (rule put_bytes_InrD)
  show "read_blob s' x = Inr c" if "put_bytes b None s = (r, s')" "read_blob s x = Inr c" for b s r s' x c
    using put_bytes_extends [OF that(1)] that(2) by (rule extends_read_blob)
qed

section \<open>Every operation only adds\<close>

lemma put_tree_extends: "put_tree m s = (r, s') \<Longrightarrow> extends s s'"
  by (auto simp: put_tree_def split: sum.splits dest: put_bytes_extends)

lemma put_file_extends: "put_file f e s = (r, s') \<Longrightarrow> extends s s'"
  by (auto simp: put_file_def put_fd_bytes split: sum.splits dest: put_bytes_extends)

lemma record_snapshot_extends: "record_snapshot x s = (r, s') \<Longrightarrow> extends s s'"
  by (auto simp: record_snapshot_def split: sum.splits prod.splits dest!: install_record_extends)

lemma put_snapshot_extends: "put_snapshot x s = (r, s') \<Longrightarrow> extends s s'"
  by (auto simp: put_snapshot_def split: sum.splits dest: record_snapshot_extends)

lemma put_source_extends: "put_source x s = (r, s') \<Longrightarrow> extends s s'"
  by (auto simp: put_source_def split: sum.splits prod.splits dest!: install_record_extends)

lemma open_or_initialize_extends: "open_or_initialize es s = (r, s') \<Longrightarrow> extends s s'"
  by (auto simp: open_or_initialize_def Let_def split: sum.splits prod.splits if_splits option.splits stored.splits
      dest!: install_record_extends)

lemma link_new_extends: "link_new f b ox s = (r, s') \<Longrightarrow> extends s s'"
  by (auto simp: link_new_def extends_def split: option.splits)

lemmas archive_extends =
  put_bytes_extends put_chunks_extends put_file_extends put_tree_extends record_snapshot_extends
  put_snapshot_extends put_source_extends open_or_initialize_extends link_new_extends

text \<open>
  One step of any process using the store: a whole operation, or only the link that ends
  one (whose existence check another process's step separated from it).
\<close>

inductive archive_step :: "archive \<Rightarrow> archive \<Rightarrow> bool" where
  step_open: "open_or_initialize es s = (r, s') \<Longrightarrow> archive_step s s'"
| step_chunks: "put_chunks cs e s = (r, s') \<Longrightarrow> archive_step s s'"
| step_file: "put_file f e s = (r, s') \<Longrightarrow> archive_step s s'"
| step_tree: "put_tree m s = (r, s') \<Longrightarrow> archive_step s s'"
| step_snapshot: "put_snapshot x s = (r, s') \<Longrightarrow> archive_step s s'"
| step_record_snapshot: "record_snapshot x s = (r, s') \<Longrightarrow> archive_step s s'"
| step_source: "put_source y s = (r, s') \<Longrightarrow> archive_step s s'"
| step_link: "link_new p b ox s = (r, s') \<Longrightarrow> archive_step s s'"

inductive_cases archive_stepE: "archive_step s s'"

lemma archive_step_extends: "archive_step s s' \<Longrightarrow> extends s s'"
  by (induction rule: archive_step.induct) (auto dest: archive_extends)

text \<open>
  C25.  Evidence is permanent: no sequence of store operations, of any number of
  processes, changes or removes an object, so what a read, a tree read, a snapshot read
  or a source read returned is returned ever after.
\<close>

theorem evidence_is_permanent:
  assumes "archive_step\<^sup>*\<^sup>* s s'"
  shows "extends s s' \<and>
    (\<forall>d b. read_blob s d = Inr b \<longrightarrow> read_blob s' d = Inr b) \<and>
    (\<forall>d m. read_tree s d = Inr m \<longrightarrow> read_tree s' d = Inr m) \<and>
    (\<forall>d k x. get_snapshot s d k = Inr x \<longrightarrow> get_snapshot s' d k = Inr x) \<and>
    (\<forall>i y. get_source s i = Inr y \<longrightarrow> get_source s' i = Inr y)"
proof -
  have "extends s s'"
    using assms by (induction rule: rtranclp_induct) (auto intro: extends_trans archive_step_extends)
  then show ?thesis
    by (auto intro: extends_read_blob extends_read_tree extends_get_snapshot extends_get_source)
qed

theorem evidence_is_permanent_witness:
  "extends (\<lambda>p. None) (snd (put_chunks [''a''] None (\<lambda>p. None)))"
proof -
  have "archive_step\<^sup>*\<^sup>* (\<lambda>p. None) (snd (put_chunks [''a''] None (\<lambda>p. None)))"
    by (rule r_into_rtranclp, rule step_chunks, rule prod.collapse [symmetric])
  then show ?thesis by (rule evidence_is_permanent [THEN conjunct1])
qed

section \<open>What a put guarantees\<close>

text \<open>
  Storing bytes: the returned digest is the SHA-256 of the bytes and agrees with the
  expected one, the bytes can be read back under it (unless the store already held
  different bytes with that very SHA-256), and a refused put changes nothing.
\<close>

theorem put_bytes_spec:
  "case put_bytes b e s of
     (Inr d, s') \<Rightarrow>
       d = sha256 b \<and> e \<in> {None, Some d} \<and> extends s s' \<and>
       (read_blob s' d = Inr b \<or> (\<exists>c. collision b c \<and> read_blob s d = Inr c))
   | (Inl x, s') \<Rightarrow> s' = s"
proof (cases "put_bytes b e s")
  case (Pair r s')
  show ?thesis
  proof (cases r)
    case (Inl x)
    then show ?thesis using Pair put_chunks_InlD [of "[b]" e s x s'] by (simp add: put_bytes_def)
  next
    case (Inr d)
    note p = Pair [unfolded Inr]
    obtain c where c: "read_blob s' d = Inr c" using put_bytes_InrD(3) [OF p] by blast
    have d: "d = sha256 b" by (rule put_bytes_InrD(1) [OF p])
    have "c = b \<or> (collision b c \<and> read_blob s d = Inr c)"
    proof (cases "s' = s")
      case True
      then show ?thesis using c read_blob_digest [OF c] d by (auto simp: collision_def)
    next
      case False
      then have "s' (sharded ''blobs'' d) = Some (Stored b)"
        using p d
        by (auto simp: put_bytes_def put_chunks_def Let_def blob_path_def check_digest_def
            split: sum.splits prod.splits if_splits dest!: install_InrD)
      then show ?thesis using c by (simp add: read_blob_iff)
    qed
    then show ?thesis
      using Pair Inr c d put_bytes_InrD(2) [OF p] put_bytes_extends [OF p] by auto
  qed
qed

lemma put_bytes_readable:
  "put_bytes b e s = (Inr d, s') \<Longrightarrow> \<exists>c. read_blob s' d = Inr c \<and> sha256 c = sha256 b"
  using put_bytes_InrD [of b e s d s'] read_blob_digest by blast

text \<open>A snapshot's content is in the store: every blob it covers, with the sizes it states.\<close>

definition snapshot_content :: "archive \<Rightarrow> snapshot \<Rightarrow> bool" where
  "snapshot_content s x \<longleftrightarrow>
     (if snap_kind x = FILE
      then \<exists>b. read_blob s (snap_digest x) = Inr b \<and> int (length b) = snap_size x
      else \<exists>m bs. read_tree s (snap_digest x) = Inr m \<and> map (read_blob s) (map snd m) = map Inr bs \<and>
             int (length (concat bs)) = snap_size x \<and> int (length m) = snap_file_count x)"

lemma verified_total_Inr:
  "verified_total s ds = Inr n \<Longrightarrow> \<exists>bs. map (read_blob s) ds = map Inr bs \<and> n = length (concat bs)"
proof (induction ds arbitrary: n)
  case (Cons d ds)
  then obtain a t where at: "verified_size s d = Inr a" "verified_total s ds = Inr t" "n = a + t"
    by (auto split: sum.splits)
  obtain bs where bs: "map (read_blob s) ds = map Inr bs" "t = length (concat bs)"
    using Cons.IH [OF at(2)] by blast
  obtain b where "read_blob s d = Inr b" "a = length b"
    using at(1) by (cases "read_blob s d") (auto simp: verified_size_read)
  with bs at show ?case by (intro exI [of _ "b # bs"]) simp
qed simp

lemma check_snapshot_content_iff:
  "check_snapshot_content s x = Inr () \<Longrightarrow> snapshot_content s x"
  by (auto simp: check_snapshot_content_def snapshot_content_def verified_size_read dict_values_def map_sum_Inr_iff
      split: if_splits sum.splits dest!: verified_total_Inr)

lemma get_recorded_snapshot:
  assumes "snapshot_ok x" "record_snapshot x s = (Inr y, s')"
  shows "get_snapshot s' (snap_digest x) (snap_kind x) = Inr x"
proof -
  obtain u where "install_record (snapshot_path (snap_kind x) (snap_digest x)) (cjson (JObj (snapshot_obj x))) s = (Inr u, s')"
    using assms by (auto simp: record_snapshot_def snapshot_to_canonical_ok split: prod.splits sum.splits)
  then have "read_file s' (snapshot_path (snap_kind x) (snap_digest x)) = Inr (cjson (JObj (snapshot_obj x)))"
    by (rule install_record_read)
  then show ?thesis
    using assms(1) by (simp add: get_snapshot_def check_digest_def snapshot_roundtrip_lemma snapshot_ok_def)
qed

lemma snapshot_content_extends:
  assumes "extends s s'" "snapshot_content s x"
  shows "snapshot_content s' x"
proof -
  have "map (read_blob s' \<circ> snd) m = map Inr bs" if "map (read_blob s \<circ> snd) m = map Inr bs"
    for m :: manifest and bs
    using that assms(1)
    by (auto simp: list_eq_iff_nth_eq intro: extends_read_blob)
  with assms show ?thesis
    unfolding snapshot_content_def
    by (cases "snap_kind x = FILE") (simp_all, blast intro: extends_read_blob extends_read_tree,
        blast intro: extends_read_tree)
qed

text \<open>
  A snapshot that \<open>put_snapshot\<close> records is complete: its record reads back as the
  snapshot and every byte it covers is in the store, verified.
\<close>

theorem put_snapshot_complete:
  assumes "snapshot_ok x" "put_snapshot x s = (Inr y, s')"
  shows "y = x \<and> get_snapshot s' (snap_digest x) (snap_kind x) = Inr x \<and> snapshot_content s' x"
proof -
  from assms(2) have c: "check_snapshot_content s x = Inr ()" and r: "record_snapshot x s = (Inr y, s')"
    by (auto simp: put_snapshot_def split: sum.splits)
  have "snapshot_content s' x"
    using check_snapshot_content_iff [OF c] record_snapshot_extends [OF r] snapshot_content_extends by blast
  moreover have "y = x" using r by (auto simp: record_snapshot_def split: sum.splits prod.splits)
  ultimately show ?thesis using get_recorded_snapshot [OF assms(1) r] by simp
qed

lemma blob_snapshot_paths_differ [simp]:
  "snapshot_path k d \<noteq> sharded ''blobs'' d'" "sharded ''blobs'' d' \<noteq> snapshot_path k d"
  "source_path d \<noteq> sharded ''blobs'' d'" "sharded ''blobs'' d' \<noteq> source_path d"
  by (simp_all add: snapshot_path_def source_path_def sharded_def)

theorem put_snapshot_complete_witness:
  "snapshot_content
     (snd (put_snapshot \<lparr>snap_kind = FILE, snap_digest = sha256 ''x'', snap_size = 1, snap_file_count = 1\<rparr>
        [sharded ''blobs'' (sha256 ''x'') \<mapsto> Stored ''x'']))
     \<lparr>snap_kind = FILE, snap_digest = sha256 ''x'', snap_size = 1, snap_file_count = 1\<rparr>"
proof -
  let ?x = "\<lparr>snap_kind = FILE, snap_digest = sha256 ''x'', snap_size = 1, snap_file_count = 1\<rparr>"
  let ?s = "[sharded ''blobs'' (sha256 ''x'') \<mapsto> Stored ''x'']"
  have ok: "snapshot_ok ?x" by (simp add: snapshot_ok_def)
  have "read_blob ?s (sha256 ''x'') = Inr ''x''" by (simp add: read_blob_iff)
  then have "check_snapshot_content ?s ?x = Inr ()"
    by (simp add: check_snapshot_content_def verified_size_read)
  moreover obtain s' where "record_snapshot ?x ?s = (Inr ?x, s')"
    by (simp add: record_snapshot_def snapshot_to_canonical_ok [OF ok] install_record_def install_def
        link_new_def)
  ultimately have "put_snapshot ?x ?s = (Inr ?x, s')" by (simp add: put_snapshot_def)
  then show ?thesis using put_snapshot_complete [OF ok, of ?s ?x s'] by simp
qed

lemma get_put_source:
  assumes "source_ok y" "put_source y s = (Inr i, s')"
  shows "get_source s' i = Inr y"
proof -
  let ?b = "cjson (JObj (source_obj y))"
  have i: "i = sha256 ?b" and "\<exists>u. install_record (source_path (sha256 ?b)) ?b s = (Inr u, s')"
    using assms by (auto simp: put_source_def source_id_ok source_to_canonical_ok split: sum.splits prod.splits)
  then have "read_file s' (source_path (sha256 ?b)) = Inr ?b" using install_record_read by blast
  then show ?thesis
    using assms(1) by (simp add: i get_source_def check_digest_def source_roundtrip_lemma)
qed

end
