(* ===== verification/Ingest.thy ===== *)
theory Ingest
  imports Archive "HOL-Library.Multiset"
begin

text \<open>
  Moving run inputs and outputs into the evidence store and back out
  (\<open>stele/archive/ingest.py\<close>, with \<open>BlobStore.export\<close> of \<open>stele/archive/store.py\<close>): a staged
  input becomes a snapshot, collected artifacts become blobs, and a snapshot is
  written back to disk from verified bytes.
\<close>

section \<open>Inputs\<close>

record staged_input =
  staged_sha256 :: string
  staged_manifest :: manifest

text \<open>The loop over \<open>staged.manifest.items()\<close>; \<open>dir\<close> is what \<open>staged_path\<close> names.\<close>

fun put_staged_files :: "node option \<Rightarrow> manifest \<Rightarrow> archive \<Rightarrow> unit result \<times> archive" where
  "put_staged_files dir [] s = (Inr (), s)"
| "put_staged_files dir ((relative, expected) # m) s =
     (case open_regular_file_beneath dir (path_of relative) of
        Inl e \<Rightarrow> (Inl e, s)
      | Inr content \<Rightarrow>
          (case put_fd content (Some expected) s of
             (Inl e, s') \<Rightarrow> (Inl e, s')
           | (Inr _, s') \<Rightarrow> put_staged_files dir m s'))"

fun sum_sizes :: "archive \<Rightarrow> string list \<Rightarrow> nat result" where
  "sum_sizes s [] = Inr 0"
| "sum_sizes s (d # ds) =
     (case blob_size s d of
        Inl e \<Rightarrow> Inl e
      | Inr n \<Rightarrow> (case sum_sizes s ds of Inl e \<Rightarrow> Inl e | Inr t \<Rightarrow> Inr (n + t)))"

definition stage_tree :: "node option \<Rightarrow> staged_input \<Rightarrow> archive \<Rightarrow> snapshot result \<times> archive" where
  "stage_tree dir staged s =
     (case put_staged_files dir (staged_manifest staged) s of
        (Inl e, s1) \<Rightarrow> (Inl e, s1)
      | (Inr _, s1) \<Rightarrow>
          (case put_tree (staged_manifest staged) s1 of
             (Inl e, s2) \<Rightarrow> (Inl e, s2)
           | (Inr digest, s2) \<Rightarrow>
               (case sum_sizes s2 (dict_values (staged_manifest staged)) of
                  Inl e \<Rightarrow> (Inl e, s2)
                | Inr sz \<Rightarrow>
                    (make_snapshot (JStr (kind_value TREE)) (JStr digest) (JInt (int sz))
                       (JInt (int (length (staged_manifest staged)))), s2))))"

definition stage_file :: "node option \<Rightarrow> staged_input \<Rightarrow> archive \<Rightarrow> snapshot result \<times> archive" where
  "stage_file file staged s =
     (case put_file file (Some (staged_sha256 staged)) s of
        (Inl e, s1) \<Rightarrow> (Inl e, s1)
      | (Inr digest, s1) \<Rightarrow>
          (case blob_size s1 digest of
             Inl e \<Rightarrow> (Inl e, s1)
           | Inr sz \<Rightarrow>
               (make_snapshot (JStr (kind_value FILE)) (JStr digest) (JInt (int sz)) (JInt 1), s1)))"

definition snapshot_staged_input ::
  "node option \<Rightarrow> staged_input \<Rightarrow> archive \<Rightarrow> snapshot result \<times> archive" where
  "snapshot_staged_input found staged s =
     (if found = None then (Inl FileNotFoundError, s)
      else case (case found of Some (Folder _) \<Rightarrow> stage_tree found staged s
                 | _ \<Rightarrow> stage_file found staged s) of
        (Inl e, s1) \<Rightarrow> (Inl e, s1)
      | (Inr snap, s1) \<Rightarrow>
          if snap_digest snap \<noteq> staged_sha256 staged then (Inl IntegrityError, s1)
          else record_snapshot snap s1)"

section \<open>Outputs\<close>

fun ingest_from ::
  "node option \<Rightarrow> path \<Rightarrow> path list \<Rightarrow> manifest \<Rightarrow> archive \<Rightarrow> manifest result \<times> archive" where
  "ingest_from dir artifact_dir [] m s = (Inr m, s)"
| "ingest_from dir artifact_dir (p # ps) m s =
     (case artifact_relative_path artifact_dir p of
        Inl e \<Rightarrow> (Inl e, s)
      | Inr rel \<Rightarrow>
          (case open_regular_file_beneath dir rel of
             Inl e \<Rightarrow> (Inl e, s)
           | Inr content \<Rightarrow>
               (case put_fd content None s of
                  (Inl e, s') \<Rightarrow> (Inl e, s')
                | (Inr d, s') \<Rightarrow> ingest_from dir artifact_dir ps (AList.update (as_posix rel) d m) s')))"

definition ingest_artifacts ::
  "node option \<Rightarrow> path \<Rightarrow> path list \<Rightarrow> archive \<Rightarrow> manifest result \<times> archive" where
  "ingest_artifacts dir artifact_dir ps s = ingest_from dir artifact_dir ps [] s"

section \<open>Writing a snapshot back out\<close>

text \<open>\<open>path.mkdir(parents=True, exist_ok=True)\<close> beneath a directory.\<close>

fun mkdirs :: "node \<Rightarrow> string list \<Rightarrow> unit result \<times> node" where
  "mkdirs (Folder es) [] = (Inr (), Folder es)"
| "mkdirs (Folder es) (name # rest) =
     (let child = (case map_of es name of None \<Rightarrow> Folder [] | Some n \<Rightarrow> n);
          (r, child') = mkdirs child rest
      in (r, Folder (AList.update name child' es)))"
| "mkdirs n [] = (Inl FileExistsError, n)"
| "mkdirs n (name # rest) = (Inl NotADirectoryError, n)"

text \<open>
  \<open>export\<close> to a path whose directory exists: nothing is written unless the whole blob
  was verified, and an existing destination is refused.
\<close>

definition export_blob :: "archive \<Rightarrow> string \<Rightarrow> node option \<Rightarrow> unit result \<times> node option" where
  "export_blob s digest destination =
     (if destination \<noteq> None then (Inl FileExistsError, destination)
      else case iter_verified s digest of
        (cs, Inl e) \<Rightarrow> (Inl e, None)
      | (cs, Inr _) \<Rightarrow> (Inr (), Some (Reg (concat cs))))"

text \<open>Replacing what a path beneath a directory holds.\<close>

fun set_at :: "node \<Rightarrow> string list \<Rightarrow> node \<Rightarrow> node" where
  "set_at n [] m = m"
| "set_at (Folder es) (name # rest) m =
     Folder (AList.update name
       (set_at (case map_of es name of None \<Rightarrow> Folder [] | Some c \<Rightarrow> c) rest m) es)"
| "set_at n (name # rest) m = n"

definition export_at :: "archive \<Rightarrow> string \<Rightarrow> node \<Rightarrow> string list \<Rightarrow> unit result \<times> node" where
  "export_at s digest n parts =
     (case export_blob s digest (node_at n parts) of
        (Inr _, Some m) \<Rightarrow> (Inr (), set_at n parts m)
      | (r, _) \<Rightarrow> (r, n))"

fun materialize_entries :: "archive \<Rightarrow> manifest \<Rightarrow> node \<Rightarrow> unit result \<times> node" where
  "materialize_entries s [] n = (Inr (), n)"
| "materialize_entries s ((relative, digest) # m) n =
     (case validate_tree_path relative of
        Inl e \<Rightarrow> (Inl e, n)
      | Inr _ \<Rightarrow>
          (case mkdirs n (butlast (split_on (CHR ''/'') relative)) of
             (Inl e, n1) \<Rightarrow> (Inl e, n1)
           | (Inr _, n1) \<Rightarrow>
               (case export_at s digest n1 (split_on (CHR ''/'') relative) of
                  (Inl e, n2) \<Rightarrow> (Inl e, n2)
                | (Inr _, n2) \<Rightarrow> materialize_entries s m n2)))"

definition materialize_snapshot ::
  "archive \<Rightarrow> snapshot \<Rightarrow> node option \<Rightarrow> unit result \<times> node option" where
  "materialize_snapshot s snap destination =
     (if snap_kind snap = FILE then export_blob s (snap_digest snap) destination
      else case read_tree s (snap_digest snap) of
        Inl e \<Rightarrow> (Inl e, destination)
      | Inr tree \<Rightarrow>
          if destination \<noteq> None then (Inl FileExistsError, destination)
          else (case materialize_entries s tree (Folder []) of (r, n) \<Rightarrow> (r, Some n)))"

section \<open>Lemmas\<close>

lemma put_fd_extends: "put_fd b e s = (r, s') \<Longrightarrow> extends s s'"
  unfolding put_fd_bytes by (rule put_bytes_extends)

lemma put_staged_files_extends: "put_staged_files dir m s = (r, s') \<Longrightarrow> extends s s'"
proof (induction m arbitrary: s)
  case (Cons pd m)
  obtain p d where pd: "pd = (p, d)" by (cases pd)
  show ?case
  proof (cases "open_regular_file_beneath dir (path_of p)")
    case (Inl e)
    with Cons.prems show ?thesis by (simp add: pd)
  next
    case (Inr b)
    obtain q t where q: "put_fd b (Some d) s = (q, t)" by (cases "put_fd b (Some d) s")
    then have "extends s t" by (rule put_fd_extends)
    then show ?thesis
      using Cons.prems Cons.IH [of t] Inr q by (cases q) (auto simp: pd intro: extends_trans)
  qed
qed simp

lemma put_staged_files_ok:
  "put_staged_files dir m s = (Inr u, s') \<Longrightarrow>
   \<forall>(p, d) \<in> set m. \<exists>b c. open_regular_file_beneath dir (path_of p) = Inr b \<and> sha256 b = d \<and>
     read_blob s' d = Inr c"
proof (induction m arbitrary: s)
  case (Cons pd m)
  obtain p d where pd: "pd = (p, d)" by (cases pd)
  from Cons.prems obtain b t d' where b: "open_regular_file_beneath dir (path_of p) = Inr b"
    and q: "put_fd b (Some d) s = (Inr d', t)" and r: "put_staged_files dir m t = (Inr u, s')"
    by (auto simp: pd split: sum.splits prod.splits)
  have d: "sha256 b = d" and "\<exists>c. read_blob t d = Inr c"
    using put_bytes_InrD [OF q [unfolded put_fd_bytes]] by auto
  then have "\<exists>c. read_blob s' d = Inr c"
    using put_staged_files_extends [OF r] extends_read_blob by blast
  with Cons.IH [OF r] b d show ?case by (auto simp: pd)
qed simp

lemma blob_size_read: "read_blob s d = Inr b \<Longrightarrow> blob_size s d = Inr (length b)"
  by (simp add: read_blob_iff blob_size_def blob_path_def check_digest_def)

lemma sum_sizes_read:
  "map (read_blob s) ds = map Inr bs \<Longrightarrow> sum_sizes s ds = Inr (length (concat bs))"
proof (induction ds arbitrary: bs)
  case (Cons d ds)
  then obtain b cs where "bs = b # cs" "read_blob s d = Inr b" "map (read_blob s) ds = map Inr cs"
    by (cases bs) auto
  with Cons.IH show ?case by (simp add: blob_size_read)
qed simp

lemma all_readable:
  "\<forall>d \<in> set ds. \<exists>b. read_blob s d = Inr b \<Longrightarrow> \<exists>bs. map (read_blob s) ds = map Inr bs"
proof (induction ds)
  case (Cons d ds)
  then obtain b bs where "read_blob s d = Inr b" "map (read_blob s) ds = map Inr bs" by auto
  then show ?case by (intro exI [of _ "b # bs"]) simp
qed simp

lemma put_tree_checked:
  "put_tree_check s m = Inr () \<Longrightarrow>
   list_all (\<lambda>(p, d). validate_tree_path p = Inr () \<and> is_digest d) m"
  by (induction s m rule: put_tree_check.induct)
    (auto simp: check_digest_def split: sum.splits if_splits)

lemma put_tree_InrD:
  assumes "put_tree m s = (Inr d, s')" "distinct (map fst m)"
  shows "tree_ok m" "sha256_manifest m = Inr d" "\<exists>c. read_blob s' d = Inr c"
proof -
  from assms(1) obtain data where chk: "put_tree_check s m = Inr ()" "check_no_file_dir_clash m = Inr ()"
    and enc: "encode_manifest m = Inr data" and put: "put_bytes data None s = (Inr d, s')"
    by (auto simp: put_tree_def split: sum.splits)
  show "tree_ok m"
    using put_tree_checked [OF chk(1)] chk(2) enc assms(2)
    by (auto simp: tree_ok_def encode_manifest_Inr list_all_iff)
  show "sha256_manifest m = Inr d" "\<exists>c. read_blob s' d = Inr c"
    using put_bytes_InrD [OF put] enc by (simp_all add: sha256_manifest_def)
qed

lemma length_concat_perm:
  assumes "map f ds = map Inr bs" "map f es = map Inr cs" "mset ds = mset es"
  shows "length (concat bs) = length (concat cs)"
proof -
  have "map (projr \<circ> f) ds = bs" "map (projr \<circ> f) es = cs"
    using assms(1,2) by (metis comp_def list.map_comp list.map_id0 sum.sel(2) eq_id_iff)+
  moreover have "sum_list (map (length \<circ> (projr \<circ> f)) ds) = sum_list (map (length \<circ> (projr \<circ> f)) es)"
    using assms(3) by (metis mset_map sum_mset_sum_list)
  ultimately show ?thesis by (metis length_concat map_map)
qed

text \<open>
  What is stored under a digest is not the canonical form of the manifest it is the digest of, but
  another text with the same SHA-256.
\<close>

definition tree_collision :: "archive \<Rightarrow> string \<Rightarrow> manifest \<Rightarrow> bool" where
  "tree_collision s d m \<longleftrightarrow>
     (\<exists>e c. encode_manifest m = Inr e \<and> sha256 e = d \<and> read_blob s d = Inr c \<and> collision e c)"

lemma tree_collision_extends: "extends s s' \<Longrightarrow> tree_collision s d m \<Longrightarrow> tree_collision s' d m"
  unfolding tree_collision_def using extends_read_blob by blast

lemma read_stored_tree:
  assumes "tree_ok m" "sha256_manifest m = Inr d" "read_blob s d = Inr c"
  shows "read_tree s d = Inr (sort_key fst m) \<or> tree_collision s d m"
proof -
  obtain e where e: "encode_manifest m = Inr e" "decode_tree e = Inr (sort_key fst m)"
    using decode_encode [OF assms(1)] by blast
  then have "sha256 e = sha256 c"
    using assms(2) read_blob_digest [OF assms(3)] by (simp add: sha256_manifest_def)
  then have "e = c \<or> collision e c" by (rule sha256_eqD)
  moreover have "sha256 e = d" using e assms(2) by (simp add: sha256_manifest_def)
  ultimately show ?thesis using e assms(3) by (auto simp: read_tree_def tree_collision_def)
qed

lemma mset_sorted_values: "mset (map snd (sort_key fst m)) = mset (map snd m)"
  by (metis mset_map mset_sort)

lemma stage_tree_sound:
  assumes "stage_tree dir st s = (Inr x, s')" "distinct (map fst (staged_manifest st))"
  shows "snap_kind x = TREE \<and> snapshot_ok x \<and> extends s s' \<and>
    tree_ok (staged_manifest st) \<and> sha256_manifest (staged_manifest st) = Inr (snap_digest x) \<and>
    (\<forall>(p, d) \<in> set (staged_manifest st). \<exists>b. open_regular_file_beneath dir (path_of p) = Inr b \<and> sha256 b = d) \<and>
    (snapshot_content s' x \<or> tree_collision s' (snap_digest x) (staged_manifest st))"
proof -
  let ?m = "staged_manifest st"
  from assms(1) obtain s1 d sz where f: "put_staged_files dir ?m s = (Inr (), s1)"
    and t: "put_tree ?m s1 = (Inr d, s')" and z: "sum_sizes s' (dict_values ?m) = Inr sz"
    and mk: "make_snapshot (JStr (kind_value TREE)) (JStr d) (JInt (int sz)) (JInt (int (length ?m))) = Inr x"
    by (auto simp: stage_tree_def split: prod.splits sum.splits)
  note x = make_snapshotD [OF mk]
  have kind: "snap_kind x = TREE" using x by (cases "snap_kind x") auto
  note tree = put_tree_InrD [OF t assms(2)]
  have files: "\<forall>(p, d) \<in> set ?m. \<exists>b c. open_regular_file_beneath dir (path_of p) = Inr b \<and> sha256 b = d \<and>
     read_blob s1 d = Inr c" by (rule put_staged_files_ok [OF f])
  then have "\<forall>d \<in> set (map snd ?m). \<exists>c. read_blob s' d = Inr c"
    using put_tree_extends [OF t] extends_read_blob by fastforce
  then obtain bs where bs: "map (read_blob s') (map snd ?m) = map Inr bs" using all_readable by blast
  then have sz: "sz = length (concat bs)" using z sum_sizes_read [OF bs] by (simp add: dict_values_def)
  have "\<forall>d \<in> set (map snd (sort_key fst ?m)). \<exists>c. read_blob s' d = Inr c"
    using \<open>\<forall>d \<in> set (map snd ?m). \<exists>c. read_blob s' d = Inr c\<close> by simp
  then obtain cs where cs: "map (read_blob s') (map snd (sort_key fst ?m)) = map Inr cs"
    using all_readable by blast
  have "length (concat cs) = length (concat bs)"
    by (rule length_concat_perm [OF cs bs mset_sorted_values])
  then have "snapshot_content s' x" if "read_tree s' d = Inr (sort_key fst ?m)"
    using that cs x sz kind by (auto simp: snapshot_content_def)
  moreover have "read_tree s' d = Inr (sort_key fst ?m) \<or> tree_collision s' d ?m"
    using tree read_stored_tree by blast
  moreover have "extends s s'"
    using put_staged_files_extends [OF f] put_tree_extends [OF t] by (rule extends_trans)
  ultimately show ?thesis using files x kind tree(1,2) by fastforce
qed

lemma stage_file_sound:
  assumes "stage_file file st s = (Inr x, s')"
  shows "snap_kind x = FILE \<and> snapshot_ok x \<and> extends s s' \<and> snapshot_content s' x \<and>
    (\<exists>b. file = Some (Reg b) \<and> sha256 b = snap_digest x)"
proof -
  from assms obtain d sz where p: "put_file file (Some (staged_sha256 st)) s = (Inr d, s')"
    and z: "blob_size s' d = Inr sz"
    and mk: "make_snapshot (JStr (kind_value FILE)) (JStr d) (JInt (int sz)) (JInt 1) = Inr x"
    by (auto simp: stage_file_def split: prod.splits sum.splits)
  note x = make_snapshotD [OF mk]
  have kind: "snap_kind x = FILE" using x by (cases "snap_kind x") auto
  from p obtain b where b: "file = Some (Reg b)" "put_bytes b (Some (staged_sha256 st)) s = (Inr d, s')"
    by (auto simp: put_file_def put_fd_bytes open_regular_file_def open_final_def
        split: option.splits node.splits)
  obtain c where "read_blob s' d = Inr c" using put_bytes_InrD(3) [OF b(2)] by blast
  then show ?thesis
    using x kind b z put_bytes_InrD(1) [OF b(2)] put_bytes_extends [OF b(2)]
    by (auto simp: snapshot_content_def blob_size_read)
qed

lemma snapshot_staged_facts:
  assumes "snapshot_staged_input found st s = (Inr x, s')" "distinct (map fst (staged_manifest st))"
  shows "snap_digest x = staged_sha256 st \<and>
    get_snapshot s' (snap_digest x) (snap_kind x) = Inr x \<and> extends s s' \<and>
    (snapshot_content s' x \<or> tree_collision s' (snap_digest x) (staged_manifest st)) \<and>
    (case snap_kind x of
       FILE \<Rightarrow> \<exists>b. found = Some (Reg b) \<and> sha256 b = snap_digest x
     | TREE \<Rightarrow> (\<exists>es. found = Some (Folder es)) \<and> tree_ok (staged_manifest st) \<and>
         sha256_manifest (staged_manifest st) = Inr (snap_digest x) \<and>
         (\<forall>(p, d) \<in> set (staged_manifest st).
            \<exists>b. open_regular_file_beneath found (path_of p) = Inr b \<and> sha256 b = d))"
proof -
  from assms(1) obtain y s1 where st:
      "(case found of Some (Folder _) \<Rightarrow> stage_tree found st s | _ \<Rightarrow> stage_file found st s) = (Inr y, s1)"
    and dg: "snap_digest y = staged_sha256 st" and rec: "record_snapshot y s1 = (Inr x, s')"
    by (auto simp: snapshot_staged_input_def split: if_splits prod.splits sum.splits)
  have yx: "y = x" using rec by (auto simp: record_snapshot_def split: sum.splits prod.splits)
  have ext: "extends s1 s'" by (rule record_snapshot_extends [OF rec])
  have ok: "snapshot_ok x \<and> extends s s1 \<and> (snapshot_content s1 x \<or> tree_collision s1 (snap_digest x) (staged_manifest st)) \<and>
      (case snap_kind x of
         FILE \<Rightarrow> \<exists>b. found = Some (Reg b) \<and> sha256 b = snap_digest x
       | TREE \<Rightarrow> (\<exists>es. found = Some (Folder es)) \<and> tree_ok (staged_manifest st) \<and>
           sha256_manifest (staged_manifest st) = Inr (snap_digest x) \<and>
           (\<forall>(p, d) \<in> set (staged_manifest st).
              \<exists>b. open_regular_file_beneath found (path_of p) = Inr b \<and> sha256 b = d))"
  proof (cases "\<exists>es. found = Some (Folder es)")
    case True
    then have "stage_tree found st s = (Inr x, s1)" using st yx by auto
    from stage_tree_sound [OF this assms(2)] True show ?thesis by auto
  next
    case False
    then have "stage_file found st s = (Inr x, s1)"
      using st yx by (auto split: option.splits node.splits)
    from stage_file_sound [OF this] show ?thesis by auto
  qed
  then have "snapshot_content s' x \<or> tree_collision s' (snap_digest x) (staged_manifest st)"
    using snapshot_content_extends [OF ext] tree_collision_extends [OF ext] by blast
  with ok dg yx ext get_recorded_snapshot [of x s1 x s'] rec show ?thesis
    by (auto intro: extends_trans)
qed

text \<open>
  A staged input that is recorded as a snapshot is exactly what was staged: the
  snapshot's digest is the staged hash, its kind is what is on disk, every file on disk
  hashes to what the snapshot covers, its record reads back, and all of its content is
  in the store (or its manifest and what is stored under its digest collide).
\<close>

theorem snapshot_staged_input_sound:
  assumes "snapshot_staged_input found st s = (Inr x, s')" "distinct (map fst (staged_manifest st))"
  shows "snap_digest x = staged_sha256 st \<and>
    get_snapshot s' (snap_digest x) (snap_kind x) = Inr x \<and> extends s s' \<and>
    (snapshot_content s' x \<or> tree_collision s' (snap_digest x) (staged_manifest st)) \<and>
    (case snap_kind x of
       FILE \<Rightarrow> \<exists>b. found = Some (Reg b) \<and> sha256 b = snap_digest x
     | TREE \<Rightarrow> sha256_manifest (staged_manifest st) = Inr (snap_digest x) \<and>
         (\<forall>(p, d) \<in> set (staged_manifest st).
            \<exists>b. open_regular_file_beneath found (path_of p) = Inr b \<and> sha256 b = d))"
  using snapshot_staged_facts [OF assms] by (auto split: snapshot_kind.splits)

text \<open>A put without an expected digest fails only when the store holds something else there.\<close>

lemma put_bytes_error: "put_bytes b None s = (Inl e, s') \<Longrightarrow> e = IntegrityError"
  by (auto simp: put_bytes_def put_chunks_def Let_def blob_path_def check_digest_def install_def
      link_new_def verify_blob_def read_file_def
      split: if_splits option.splits sum.splits prod.splits stored.splits)

definition manifest_readable :: "archive \<Rightarrow> manifest \<Rightarrow> bool" where
  "manifest_readable s m \<longleftrightarrow> (\<forall>d \<in> set (map snd m). \<exists>c. read_blob s d = Inr c)"

lemma manifest_readable_extends: "extends s s' \<Longrightarrow> manifest_readable s m \<Longrightarrow> manifest_readable s' m"
  unfolding manifest_readable_def using extends_read_blob by blast

lemma values_update: "set (map snd (AList.update k v m)) \<subseteq> insert v (set (map snd m))"
  by (induction m) auto

lemma manifest_readable_update:
  "manifest_readable s m \<Longrightarrow> read_blob s d = Inr c \<Longrightarrow> manifest_readable s (AList.update p d m)"
  unfolding manifest_readable_def using values_update [of p d m] by blast

lemma ingest_from_spec:
  "manifest_readable s m \<Longrightarrow> distinct (map fst m) \<Longrightarrow>
   (case ingest_from dir ad ps m s of
      (Inr m', s') \<Rightarrow> build_manifest_from dir ad ps m = Inr m' \<and> extends s s' \<and>
        manifest_readable s' m' \<and> distinct (map fst m')
    | (Inl e, s') \<Rightarrow> extends s s' \<and> (e = IntegrityError \<or> build_manifest_from dir ad ps m = Inl e))"
proof (induction ps arbitrary: m s)
  case Nil
  then show ?case by simp
next
  case (Cons p ps)
  show ?case
  proof (cases "artifact_relative_path ad p")
    case (Inl e)
    then show ?thesis by simp
  next
    case rel: (Inr rel)
    show ?thesis
    proof (cases "open_regular_file_beneath dir rel")
      case (Inl e)
      then show ?thesis using rel by (simp add: sha256_file_beneath_def)
    next
      case b: (Inr b)
      obtain r t where put: "put_fd b None s = (r, t)" by (cases "put_fd b None s")
      show ?thesis
      proof (cases r)
        case (Inl e)
        then show ?thesis
          using rel b put put_bytes_error [of b s e t] put_fd_extends [OF put] by (simp add: put_fd_bytes)
      next
        case (Inr d)
        note pd = put [unfolded put_fd_bytes Inr]
        obtain c where "read_blob t d = Inr c" using put_bytes_InrD(3) [OF pd] by blast
        then have "manifest_readable t (AList.update (as_posix rel) d m)"
          using manifest_readable_extends [OF put_bytes_extends [OF pd] Cons.prems(1)]
          by (rule manifest_readable_update [rotated])
        moreover have "distinct (map fst (AList.update (as_posix rel) d m))"
          using Cons.prems(2) by (rule distinct_update)
        ultimately have "case ingest_from dir ad ps (AList.update (as_posix rel) d m) t of
            (Inr m', s') \<Rightarrow> build_manifest_from dir ad ps (AList.update (as_posix rel) d m) = Inr m' \<and>
              extends t s' \<and> manifest_readable s' m' \<and> distinct (map fst m')
          | (Inl e, s') \<Rightarrow> extends t s' \<and>
              (e = IntegrityError \<or> build_manifest_from dir ad ps (AList.update (as_posix rel) d m) = Inl e)"
          by (rule Cons.IH)
        moreover have "d = sha256 b" by (rule put_bytes_InrD(1) [OF pd])
        ultimately show ?thesis
          using rel b put Inr put_fd_extends [OF put]
          by (auto simp: sha256_file_beneath_def intro: extends_trans split: sum.splits prod.splits)
      qed
    qed
  qed
qed

text \<open>
  Ingesting artifacts computes exactly the manifest \<open>build_manifest\<close> computes, with
  every file's bytes in the store under its digest; when it raises, \<open>build_manifest\<close>
  raises the same, unless the store found something else under a digest.
\<close>

theorem ingest_artifacts_spec:
  "case ingest_artifacts dir ad ps s of
     (Inr m, s') \<Rightarrow> build_manifest dir ad ps = Inr m \<and> extends s s' \<and>
       manifest_readable s' m \<and> distinct (map fst m)
   | (Inl e, s') \<Rightarrow> extends s s' \<and> (e = IntegrityError \<or> build_manifest dir ad ps = Inl e)"
  unfolding ingest_artifacts_def build_manifest_def
  by (rule ingest_from_spec) (simp_all add: manifest_readable_def)

lemma ingest_artifacts_InrD:
  assumes "ingest_artifacts dir ad ps s = (Inr m, s')"
  shows "build_manifest dir ad ps = Inr m" "extends s s'" "manifest_readable s' m" "distinct (map fst m)"
  using ingest_from_spec [of s "[]" dir ad ps] assms
  by (simp_all add: ingest_artifacts_def build_manifest_def manifest_readable_def)

lemma ingest_artifacts_extends:
  assumes "ingest_artifacts dir ad ps s = (r, s')"
  shows "extends s s'"
  using ingest_from_spec [of s "[]" dir ad ps] assms
  by (cases r) (simp_all add: ingest_artifacts_def manifest_readable_def)

section \<open>Materializing\<close>

lemma node_at_Folder_Nil [simp]: "node_at (Folder []) q = Some (Reg b) \<longleftrightarrow> False"
  by (cases q) auto

lemma node_at_Cons:
  "node_at (Folder es) (name # q) = (case map_of es name of None \<Rightarrow> None | Some n \<Rightarrow> node_at n q)"
  by simp

lemma mkdirs_leaves:
  "mkdirs n ps = (r, n') \<Longrightarrow> node_at n' q = Some (Reg b) \<longleftrightarrow> node_at n q = Some (Reg b)"
proof (induction n ps arbitrary: r n' q rule: mkdirs.induct)
  case (2 es name rest)
  define child where "child = (case map_of es name of None \<Rightarrow> Folder [] | Some n \<Rightarrow> n)"
  obtain r' child' where m: "mkdirs child rest = (r', child')" by (cases "mkdirs child rest")
  then have n': "n' = Folder (AList.update name child' es)"
    using 2(2) by (simp add: child_def [symmetric] Let_def)
  have ih: "node_at child' q = Some (Reg b) \<longleftrightarrow> node_at child q = Some (Reg b)" for q
    using 2(1) [OF child_def [symmetric, THEN sym] m [symmetric, THEN sym]] by blast
  show ?case
  proof (cases q)
    case Nil
    then show ?thesis by (simp add: n')
  next
    case (Cons x q')
    then show ?thesis
      using ih [of q'] by (cases "map_of es name") (auto simp: n' child_def)
  qed
qed auto

lemma mkdirs_folder:
  "mkdirs n ps = (Inr u, n') \<Longrightarrow> \<exists>es. node_at n' ps = Some (Folder es)"
proof (induction n ps arbitrary: n' rule: mkdirs.induct)
  case (2 es name rest)
  define child where "child = (case map_of es name of None \<Rightarrow> Folder [] | Some n \<Rightarrow> n)"
  obtain r' child' where m: "mkdirs child rest = (r', child')" by (cases "mkdirs child rest")
  then have n': "n' = Folder (AList.update name child' es)" and r: "r' = Inr u"
    using 2(2) by (simp_all add: child_def [symmetric] Let_def)
  have "\<exists>es. node_at child' rest = Some (Folder es)"
    using 2(1) [OF child_def] m r by (simp add: child_def)
  then show ?case by (simp add: n')
qed auto

lemma set_at_leaves:
  "parts \<noteq> [] \<Longrightarrow> node_at n (butlast parts) = Some (Folder es) \<Longrightarrow> node_at n parts = None \<Longrightarrow>
   node_at (set_at n parts (Reg c)) q = Some (Reg b) \<longleftrightarrow>
     (q = parts \<and> b = c) \<or> node_at n q = Some (Reg b)"
proof (induction parts arbitrary: n q)
  case (Cons name rest)
  obtain fs where n: "n = Folder fs" using Cons.prems by (cases n; cases rest) auto
  show ?case
  proof (cases "rest = []")
    case True
    then have none: "map_of fs name = None" using Cons.prems(3) n by (auto split: option.splits)
    show ?thesis
    proof (cases q)
      case Nil
      then show ?thesis by (simp add: n)
    next
      case (Cons x q')
      then show ?thesis using True none by (cases q') (auto simp: n)
    qed
  next
    case False
    then obtain ch where ch: "map_of fs name = Some ch" "node_at ch (butlast rest) = Some (Folder es)"
      "node_at ch rest = None"
      using Cons.prems n by (auto split: option.splits)
    have ih: "node_at (set_at ch rest (Reg c)) q = Some (Reg b) \<longleftrightarrow>
        (q = rest \<and> b = c) \<or> node_at ch q = Some (Reg b)" for q
      using Cons.IH [OF False ch(2,3)] .
    show ?thesis
    proof (cases q)
      case Nil
      then show ?thesis by (simp add: n)
    next
      case (Cons x q')
      then show ?thesis using ih [of q'] ch(1) by (auto simp: n)
    qed
  qed
qed simp

lemma export_blob_None:
  "export_blob s d None = (case read_blob s d of Inl e \<Rightarrow> (Inl e, None) | Inr b \<Rightarrow> (Inr (), Some (Reg b)))"
  unfolding export_blob_def iter_verified_read by (auto split: prod.splits sum.splits)

lemma export_at_leaves:
  assumes "export_at s d n parts = (r, n')" "parts \<noteq> []" "node_at n (butlast parts) = Some (Folder es)"
  shows "(\<exists>c. r = Inr () \<and> read_blob s d = Inr c \<and>
      (\<forall>q b. node_at n' q = Some (Reg b) \<longleftrightarrow> (q = parts \<and> b = c) \<or> node_at n q = Some (Reg b))) \<or>
    (n' = n \<and> (\<exists>e. r = Inl e))"
proof (cases "node_at n parts")
  case None
  then show ?thesis
    using assms set_at_leaves [OF assms(2,3) None]
    by (auto simp: export_at_def export_blob_None split: sum.splits)
next
  case (Some m)
  then show ?thesis using assms(1) by (auto simp: export_at_def export_blob_def)
qed

lemma materialize_entries_leaves:
  "materialize_entries s m n = (r, n') \<Longrightarrow>
   (\<forall>q b. node_at n' q = Some (Reg b) \<longrightarrow> node_at n q = Some (Reg b) \<or>
      (\<exists>(p, d) \<in> set m. q = split_on (CHR ''/'') p \<and> read_blob s d = Inr b)) \<and>
   (\<forall>q b. node_at n q = Some (Reg b) \<longrightarrow> node_at n' q = Some (Reg b)) \<and>
   (r = Inr () \<longrightarrow> (\<forall>(p, d) \<in> set m. \<exists>b. node_at n' (split_on (CHR ''/'') p) = Some (Reg b) \<and> read_blob s d = Inr b))"
proof (induction m arbitrary: n)
  case (Cons pd m)
  obtain p d where pd: "pd = (p, d)" by (cases pd)
  let ?q = "split_on (CHR ''/'') p"
  obtain r1 n1 where mk: "mkdirs n (butlast ?q) = (r1, n1)" by (cases "mkdirs n (butlast ?q)")
  obtain r2 n2 where ex: "export_at s d n1 ?q = (r2, n2)" by (cases "export_at s d n1 ?q")
  note l1 = mkdirs_leaves [OF mk]
  consider (val) e where "validate_tree_path p = Inl e"
    | (mk) e where "validate_tree_path p = Inr ()" "r1 = Inl e"
    | (ok) "validate_tree_path p = Inr ()" "r1 = Inr ()"
    by (cases "validate_tree_path p"; cases r1) auto
  then show ?case
  proof cases
    case val
    then have "r = Inl e" "n' = n" using Cons.prems by (simp_all add: pd)
    then show ?thesis by simp
  next
    case mk': (mk e)
    then have "r = Inl e" "n' = n1" using Cons.prems mk by (simp_all add: pd)
    then show ?thesis using l1 by simp
  next
    case ok
    obtain es where "node_at n1 (butlast ?q) = Some (Folder es)"
      using mkdirs_folder mk ok(2) by blast
    from export_at_leaves [OF ex split_on_nonempty this]
    consider (w) c where "r2 = Inr ()" "read_blob s d = Inr c"
        "\<And>q b. node_at n2 q = Some (Reg b) \<longleftrightarrow> (q = ?q \<and> b = c) \<or> node_at n1 q = Some (Reg b)"
      | (f) e where "n2 = n1" "r2 = Inl e" by blast
    then show ?thesis
    proof cases
      case w
      have "materialize_entries s m n2 = (r, n')" using Cons.prems ok mk ex w(1) by (simp add: pd)
      from Cons.IH [OF this] show ?thesis
        using w(2) l1 unfolding w(3) pd by auto
    next
      case (f e)
      then have "r = Inl e" "n' = n1" using Cons.prems ok mk ex by (simp_all add: pd)
      then show ?thesis using l1 by simp
    qed
  qed
qed simp

lemma materialize_facts:
  "case materialize_snapshot s x None of (r, dest) \<Rightarrow>
     (\<forall>n q b. dest = Some n \<and> node_at n q = Some (Reg b) \<longrightarrow> (\<exists>d. read_blob s d = Inr b)) \<and>
     (r = Inr () \<longrightarrow>
       (case snap_kind x of
          FILE \<Rightarrow> \<exists>b. dest = Some (Reg b) \<and> read_blob s (snap_digest x) = Inr b
        | TREE \<Rightarrow> \<exists>m n. read_tree s (snap_digest x) = Inr m \<and> dest = Some n \<and>
            (\<forall>(p, d) \<in> set m. \<exists>b. node_at n (split_on (CHR ''/'') p) = Some (Reg b) \<and> read_blob s d = Inr b) \<and>
            (\<forall>q b. node_at n q = Some (Reg b) \<longrightarrow> (\<exists>(p, d) \<in> set m. q = split_on (CHR ''/'') p \<and> read_blob s d = Inr b))))"
proof (cases "snap_kind x")
  case FILE
  have leaf: "node_at (Reg c) q = Some (Reg b) \<longleftrightarrow> q = [] \<and> b = c" for c q b by (cases q) auto
  show ?thesis using FILE
    by (auto simp: materialize_snapshot_def export_blob_None leaf split: sum.splits)
next
  case TREE
  show ?thesis
  proof (cases "read_tree s (snap_digest x)")
    case (Inl e)
    then show ?thesis using TREE by (simp add: materialize_snapshot_def)
  next
    case (Inr m)
    obtain r n where mat: "materialize_entries s m (Folder []) = (r, n)"
      by (cases "materialize_entries s m (Folder [])")
    note l = materialize_entries_leaves [OF mat]
    have "materialize_snapshot s x None = (r, Some n)"
      using TREE Inr mat by (simp add: materialize_snapshot_def)
    moreover have "\<exists>d. read_blob s d = Inr b" if "node_at n q = Some (Reg b)" for q b
      using l that by fastforce
    moreover have "\<exists>(p, d) \<in> set m. q = split_on (CHR ''/'') p \<and> read_blob s d = Inr b"
      if "node_at n q = Some (Reg b)" for q b
      using l that by fastforce
    ultimately show ?thesis using TREE Inr l by auto
  qed
qed

text \<open>
  Writing a snapshot out to a new destination: whatever the outcome, every file
  left there holds the verified bytes of a blob; and on success the destination is the
  snapshot: the file with the digest's bytes, or a directory whose files are exactly
  the tree's entries, each with the bytes of its digest.
\<close>

theorem materialize_snapshot_spec:
  "case materialize_snapshot s x None of (r, dest) \<Rightarrow>
     (\<forall>n q b. dest = Some n \<and> node_at n q = Some (Reg b) \<longrightarrow> (\<exists>d. read_blob s d = Inr b)) \<and>
     (r = Inr () \<longrightarrow>
       (case snap_kind x of
          FILE \<Rightarrow> \<exists>b. dest = Some (Reg b) \<and> read_blob s (snap_digest x) = Inr b
        | TREE \<Rightarrow> \<exists>m n. read_tree s (snap_digest x) = Inr m \<and> dest = Some n \<and>
            (\<forall>(p, d) \<in> set m. \<exists>b. node_at n (split_on (CHR ''/'') p) = Some (Reg b) \<and> read_blob s d = Inr b) \<and>
            (\<forall>q b. node_at n q = Some (Reg b) \<longrightarrow> (\<exists>(p, d) \<in> set m. q = split_on (CHR ''/'') p \<and> read_blob s d = Inr b))))"
  by (rule materialize_facts)

theorem materialize_snapshot_spec_witness:
  "materialize_snapshot [sharded ''blobs'' (sha256 ''x'') \<mapsto> Stored ''x'']
     \<lparr>snap_kind = FILE, snap_digest = sha256 ''x'', snap_size = 1, snap_file_count = 1\<rparr> None
   = (Inr (), Some (Reg ''x''))"
proof -
  let ?x = "\<lparr>snap_kind = FILE, snap_digest = sha256 ''x'', snap_size = 1, snap_file_count = 1\<rparr>"
  let ?s = "[sharded ''blobs'' (sha256 ''x'') \<mapsto> Stored ''x'']"
  have rd: "read_blob ?s (sha256 ''x'') = Inr ''x''" by (simp add: read_blob_iff)
  then obtain dest where m: "materialize_snapshot ?s ?x None = (Inr (), dest)"
    by (simp add: materialize_snapshot_def export_blob_None)
  have "\<exists>b. dest = Some (Reg b) \<and> read_blob ?s (sha256 ''x'') = Inr b"
    using materialize_snapshot_spec [of ?s ?x] m by simp
  then show ?thesis using m rd by simp
qed

lemma demo_staged:
  "\<exists>s'. snapshot_staged_input (Some (Reg ''x'')) \<lparr>staged_sha256 = sha256 ''x'', staged_manifest = []\<rparr> (\<lambda>p. None) =
     (Inr \<lparr>snap_kind = FILE, snap_digest = sha256 ''x'', snap_size = 1, snap_file_count = 1\<rparr>, s') \<and>
     read_blob s' (sha256 ''x'') = Inr ''x''"
proof -
  let ?st = "\<lparr>staged_sha256 = sha256 ''x'', staged_manifest = []\<rparr>"
  let ?x = "\<lparr>snap_kind = FILE, snap_digest = sha256 ''x'', snap_size = 1, snap_file_count = 1\<rparr>"
  let ?s1 = "[sharded ''blobs'' (sha256 ''x'') \<mapsto> Stored ''x'']"
  have put: "put_bytes ''x'' (Some (sha256 ''x'')) (\<lambda>p. None) = (Inr (sha256 ''x''), ?s1)"
    by (simp add: put_bytes_def put_chunks_def check_digest_def blob_path_def install_def link_new_def Let_def)
  have rd: "read_blob ?s1 (sha256 ''x'') = Inr ''x''" by (simp add: read_blob_iff)
  then have st: "stage_file (Some (Reg ''x'')) ?st (\<lambda>p. None) = (Inr ?x, ?s1)"
    using put
    by (simp add: stage_file_def put_file_def open_regular_file_def open_final_def put_fd_bytes
        blob_size_read make_snapshot_def kind_of_value_def)
  have ok: "snapshot_ok ?x" by (simp add: snapshot_ok_def)
  obtain s' where s': "record_snapshot ?x ?s1 = (Inr ?x, s')"
    by (simp add: record_snapshot_def snapshot_to_canonical_ok [OF ok] install_record_def install_def
        link_new_def)
  then have "snapshot_staged_input (Some (Reg ''x'')) ?st (\<lambda>p. None) = (Inr ?x, s')"
    using st by (simp add: snapshot_staged_input_def)
  then show ?thesis using extends_read_blob [OF record_snapshot_extends [OF s'] rd] by blast
qed

theorem snapshot_staged_input_sound_witness:
  "\<exists>x s'. snapshot_staged_input (Some (Reg ''x'')) \<lparr>staged_sha256 = sha256 ''x'', staged_manifest = []\<rparr>
     (\<lambda>p. None) = (Inr x, s') \<and> get_snapshot s' (sha256 ''x'') FILE = Inr x"
proof -
  let ?x = "\<lparr>snap_kind = FILE, snap_digest = sha256 ''x'', snap_size = 1, snap_file_count = 1\<rparr>"
  obtain s' where r: "snapshot_staged_input (Some (Reg ''x'')) \<lparr>staged_sha256 = sha256 ''x'', staged_manifest = []\<rparr>
      (\<lambda>p. None) = (Inr ?x, s')"
    using demo_staged by blast
  then have "get_snapshot s' (sha256 ''x'') FILE = Inr ?x"
    using snapshot_staged_input_sound [OF r] by simp
  with r show ?thesis by blast
qed

end
