(* ===== verification/Containment.thy ===== *)
theory Containment
  imports Models Ingest
begin

text \<open>
  Sandbox backends (\<open>stele/containment/backend.py\<close>, \<open>telemetry.py\<close>, \<open>sandbox.py\<close>,
  \<open>result.py\<close>): what a parser requires, which backend is chosen for it, and how an
  execution is reported.  A backend is a record of its operations; what it executes is
  a parameter.  Clocks and resource usage are values the operating system supplies.
\<close>

section \<open>Capabilities\<close>

datatype capability =
    FILESYSTEM_ISOLATION | NETWORK_ISOLATION | SYSCALL_FILTER | RESOURCE_LIMITS | DETERMINISTIC
  | HOST_PROCESS | WASM_MODULE | GPU | NATIVE_LIBS

definition BASELINE_CAPABILITIES :: "capability set" where
  "BASELINE_CAPABILITIES = {FILESYSTEM_ISOLATION, NETWORK_ISOLATION}"

record parser_requirements =
  rq_gpu :: bool
  rq_native_libs :: bool
  rq_deterministic :: bool
  rq_wasm_module :: bool
  rq_resource_limits :: bool

definition required_capabilities :: "parser_requirements \<Rightarrow> capability set" where
  "required_capabilities q =
     BASELINE_CAPABILITIES \<union> {if rq_wasm_module q then WASM_MODULE else HOST_PROCESS}
     \<union> (if rq_gpu q then {GPU} else {})
     \<union> (if rq_native_libs q then {NATIVE_LIBS} else {})
     \<union> (if rq_deterministic q then {DETERMINISTIC} else {})
     \<union> (if rq_resource_limits q then {RESOURCE_LIMITS} else {})"

text \<open>The defaults of \<open>ParserRequirements\<close>.\<close>

definition no_requirements :: parser_requirements where
  "no_requirements = \<lparr>rq_gpu = False, rq_native_libs = False, rq_deterministic = False,
     rq_wasm_module = False, rq_resource_limits = False\<rparr>"

section \<open>Failures and telemetry\<close>

datatype failure_reason =
    TIMEOUT | OUT_OF_MEMORY | CPU_LIMIT | SYSCALL_BLOCKED | WASM_TRAP | CRASHED | EXIT_STATUS
  | ENGINE_ERROR | UNSAFE_ARTIFACT | OUTPUT_LIMIT

text \<open>The values of \<open>FailureReason\<close>.\<close>

definition failure_value :: "failure_reason \<Rightarrow> string" where
  "failure_value r =
     (case r of
        TIMEOUT \<Rightarrow> ''timeout'' | OUT_OF_MEMORY \<Rightarrow> ''out_of_memory'' | CPU_LIMIT \<Rightarrow> ''cpu_limit''
      | SYSCALL_BLOCKED \<Rightarrow> ''syscall_blocked'' | WASM_TRAP \<Rightarrow> ''wasm_trap'' | CRASHED \<Rightarrow> ''crashed''
      | EXIT_STATUS \<Rightarrow> ''exit_status'' | ENGINE_ERROR \<Rightarrow> ''engine_error''
      | UNSAFE_ARTIFACT \<Rightarrow> ''unsafe_artifact'' | OUTPUT_LIMIT \<Rightarrow> ''output_limit'')"

record run_failure =
  rf_reason :: failure_reason
  rf_detail :: string
  rf_exit_code :: "int option"
  rf_signal :: "int option"

text \<open>\<open>signal.Signals\<close> on Linux; the first name of a number is the member's.\<close>

definition signal_table :: "(int \<times> string) list" where
  "signal_table =
     [(1, ''SIGHUP''), (2, ''SIGINT''), (3, ''SIGQUIT''), (4, ''SIGILL''), (5, ''SIGTRAP''), (6, ''SIGABRT''),
      (7, ''SIGBUS''), (8, ''SIGFPE''), (9, ''SIGKILL''), (10, ''SIGUSR1''), (11, ''SIGSEGV''),
      (12, ''SIGUSR2''), (13, ''SIGPIPE''), (14, ''SIGALRM''), (15, ''SIGTERM''), (16, ''SIGSTKFLT''),
      (17, ''SIGCHLD''), (18, ''SIGCONT''), (19, ''SIGSTOP''), (20, ''SIGTSTP''), (21, ''SIGTTIN''),
      (22, ''SIGTTOU''), (23, ''SIGURG''), (24, ''SIGXCPU''), (25, ''SIGXFSZ''), (26, ''SIGVTALRM''),
      (27, ''SIGPROF''), (28, ''SIGWINCH''), (29, ''SIGIO''), (30, ''SIGPWR''), (31, ''SIGSYS''),
      (34, ''SIGRTMIN''), (64, ''SIGRTMAX'')]"

definition signal_text :: "int \<Rightarrow> string" where
  "signal_text n = (case map_of signal_table n of Some s \<Rightarrow> s | None \<Rightarrow> ''signal '' @ show_int n)"

definition signal_name :: "run_failure \<Rightarrow> string option" where
  "signal_name f = map_option signal_text (rf_signal f)"

definition signal_failure :: "int \<Rightarrow> int \<Rightarrow> string \<Rightarrow> run_failure" where
  "signal_failure n status ctxt =
     \<lparr>rf_reason = CRASHED, rf_detail = ''the parser was killed by '' @ signal_text n @ ctxt,
      rf_exit_code = Some status, rf_signal = Some n\<rparr>"

definition exit_status_failure :: "int \<Rightarrow> run_failure" where
  "exit_status_failure status =
     \<lparr>rf_reason = EXIT_STATUS, rf_detail = ''the parser exited with status '' @ show_int status,
      rf_exit_code = Some status, rf_signal = None\<rparr>"

definition timeout_failure :: "int \<Rightarrow> int \<Rightarrow> string \<Rightarrow> run_failure" where
  "timeout_failure seconds status how =
     \<lparr>rf_reason = TIMEOUT,
      rf_detail = ''wall-clock limit of '' @ show_int seconds @ ''s exceeded; '' @ how,
      rf_exit_code = Some status, rf_signal = None\<rparr>"

record telemetry =
  tm_backend :: string
  tm_runtime :: "string option"
  tm_wall_time :: pyfloat
  tm_exit_code :: int
  tm_cpu_time :: "pyfloat option"
  tm_peak_memory :: "int option"
  tm_limits :: "(string, pyval) dict"
  tm_counters :: "(string, pyval) dict"

definition opt_val :: "('a \<Rightarrow> pyval) \<Rightarrow> 'a option \<Rightarrow> pyval" where
  "opt_val f x = (case x of None \<Rightarrow> VNull | Some y \<Rightarrow> f y)"

definition telemetry_to_dict :: "telemetry \<Rightarrow> (string, pyval) dict" where
  "telemetry_to_dict t =
     [(''backend'', VStr (tm_backend t)), (''runtime'', opt_val VStr (tm_runtime t)),
      (''wall_time_seconds'', VFloat (tm_wall_time t)), (''exit_code'', VInt (tm_exit_code t)),
      (''cpu_time_seconds'', opt_val VFloat (tm_cpu_time t)),
      (''peak_memory_bytes'', opt_val VInt (tm_peak_memory t)),
      (''limits'', VDict (tm_limits t)), (''counters'', VDict (tm_counters t))]"

section \<open>Configurations, outcomes and results\<close>

record sandbox_config =
  cf_command :: "string list"
  cf_artifact_dir :: path
  cf_input_path :: "path option"
  cf_script_path :: "path option"
  cf_ro_binds :: "(string \<times> string) list"
  cf_env :: "(string, string) dict"
  cf_timeout :: int
  cf_exec_allowlist :: "string list"
  cf_writable_scratch :: bool
  cf_max_output_bytes :: int
  cf_max_output_files :: int

record execution_outcome =
  xo_exit_code :: int
  xo_stdout :: string
  xo_stderr :: string
  xo_wall_time :: pyfloat
  xo_timed_out :: bool
  xo_image_digest :: "string option"
  xo_module_sha256 :: "string option"
  xo_hardening :: "string list"
  xo_violation :: "string option"
  xo_cpu_time :: "pyfloat option"
  xo_peak_memory :: "int option"
  xo_runtime :: "string option"
  xo_limits :: "(string, pyval) dict"
  xo_counters :: "(string, pyval) dict"
  xo_failure :: "run_failure option"

record sandbox_result =
  sr_run_id :: string
  sr_exit_code :: int
  sr_stdout :: string
  sr_stderr :: string
  sr_artifact_paths :: "path list"
  sr_artifact_dir :: path
  sr_wall_time :: pyfloat
  sr_timed_out :: bool
  sr_input_sha256 :: "string option"
  sr_backend :: "string option"
  sr_image_digest :: "string option"
  sr_module_sha256 :: "string option"
  sr_hardening :: "string list"
  sr_violation :: "string option"
  sr_input_snapshot :: "snapshot option"
  sr_artifact_digests :: manifest
  sr_bundle_digest :: "string option"
  sr_telemetry :: "telemetry option"
  sr_failure :: "run_failure option"

definition succeeded :: "sandbox_result \<Rightarrow> bool" where
  "succeeded r \<longleftrightarrow> sr_failure r = None \<and> sr_exit_code r = 0 \<and> \<not> sr_timed_out r"

definition produced_artifacts :: "sandbox_result \<Rightarrow> bool" where
  "produced_artifacts r \<longleftrightarrow> sr_artifact_paths r \<noteq> []"

section \<open>Backends\<close>

text \<open>
  \<open>SandboxBackend\<close>.  \<open>execute\<close> gets the configuration and what is on disk at its input
  path (the staged copy) and at its output directory, and leaves the output directory
  changed; it may raise.
\<close>

record backend =
  bk_name :: string
  bk_capabilities :: "capability set"
  bk_available :: bool
  bk_reason :: string
  bk_execute :: "sandbox_config \<Rightarrow> node option \<Rightarrow> node option \<Rightarrow> execution_outcome result \<times> node option"

text \<open>\<open>except UnsupportedBackendError\<close>: the class and its subclass.\<close>

definition is_unsupported :: "exn \<Rightarrow> bool" where
  "is_unsupported x \<longleftrightarrow> x = UnsupportedBackendError \<or> x = SandboxUnavailableError"

text \<open>The loop of \<open>select_backend\<close>; \<open>skipped\<close> is whether a capable backend was unavailable.\<close>

fun select_from :: "capability set \<Rightarrow> backend list \<Rightarrow> bool \<Rightarrow> backend result" where
  "select_from needed [] skipped = Inl (if skipped then SandboxUnavailableError else UnsupportedBackendError)"
| "select_from needed (b # bs) skipped =
     (if needed - bk_capabilities b \<noteq> {} then select_from needed bs skipped
      else if \<not> bk_available b then select_from needed bs True
      else Inr b)"

definition select_backend :: "parser_requirements \<Rightarrow> backend list \<Rightarrow> backend result" where
  "select_backend q bs = select_from (required_capabilities q) bs False"

section \<open>The bubblewrap backend's report\<close>

record process_result =
  pr_returncode :: int
  pr_stdout :: string
  pr_stderr :: string
  pr_timed_out :: bool
  pr_cpu_time :: "pyfloat option"
  pr_peak_memory :: "int option"

definition bubblewrap_capabilities :: "string option \<Rightarrow> capability set" where
  "bubblewrap_capabilities program =
     {FILESYSTEM_ISOLATION, NETWORK_ISOLATION, HOST_PROCESS, NATIVE_LIBS}
     \<union> (if program \<noteq> None then {SYSCALL_FILTER} else {})"

definition SIGSYS :: int where "SIGSYS = 31"

definition SECCOMP_VIOLATION :: string where
  "SECCOMP_VIOLATION = ''seccomp: the parser made a blocked system call and was killed (SIGSYS)''"

text \<open>How \<open>_run\<close> reads the exit status.\<close>

definition bubblewrap_failure :: "sandbox_config \<Rightarrow> bool \<Rightarrow> process_result \<Rightarrow> run_failure option" where
  "bubblewrap_failure cf filtered p =
     (if pr_timed_out p
      then Some (timeout_failure (cf_timeout cf) (-1) ''the sandbox and every process in it were killed'')
      else let status = pr_returncode p in
        if filtered \<and> status = 128 + SIGSYS
        then Some \<lparr>rf_reason = SYSCALL_BLOCKED, rf_detail = SECCOMP_VIOLATION, rf_exit_code = Some status,
                   rf_signal = Some SIGSYS\<rparr>
        else if 128 < status \<and> status \<le> 128 + 64 then Some (signal_failure (status - 128) status [])
        else if status < 0 then Some (signal_failure (- status) status '' (the sandbox itself)'')
        else if status \<noteq> 0 then Some (exit_status_failure status)
        else None)"

definition hardening_of :: "string option \<Rightarrow> bool \<Rightarrow> string list" where
  "hardening_of program landlocked =
     (if program \<noteq> None \<and> program \<noteq> Some [] then [''seccomp''] else [])
     @ (if landlocked then [''landlock''] else [])"

definition bubblewrap_outcome ::
  "sandbox_config \<Rightarrow> string option \<Rightarrow> bool \<Rightarrow> int \<Rightarrow> pyfloat \<Rightarrow> process_result \<Rightarrow> execution_outcome" where
  "bubblewrap_outcome cf program landlocked limit wall p =
     (let filtered = (program \<noteq> None); status = (if pr_timed_out p then -1 else pr_returncode p) in
      \<lparr>xo_exit_code = status, xo_stdout = pr_stdout p, xo_stderr = pr_stderr p, xo_wall_time = wall,
       xo_timed_out = pr_timed_out p, xo_image_digest = None, xo_module_sha256 = None,
       xo_hardening = hardening_of program landlocked,
       xo_violation = (if \<not> pr_timed_out p \<and> filtered \<and> status = 128 + SIGSYS then Some SECCOMP_VIOLATION else None),
       xo_cpu_time = pr_cpu_time p, xo_peak_memory = pr_peak_memory p, xo_runtime = Some ''bwrap'',
       xo_limits = [(''timeout_seconds'', VInt (cf_timeout cf)), (''output_bytes'', VInt limit)],
       xo_counters = [], xo_failure = bubblewrap_failure cf filtered p\<rparr>)"

section \<open>Lemmas\<close>

definition capable :: "parser_requirements \<Rightarrow> backend \<Rightarrow> bool" where
  "capable q b \<longleftrightarrow> required_capabilities q \<subseteq> bk_capabilities b"

lemma select_from_find:
  "select_from (required_capabilities q) bs skipped =
     (case find (\<lambda>b. capable q b \<and> bk_available b) bs of
        Some b \<Rightarrow> Inr b
      | None \<Rightarrow> Inl (if skipped \<or> list_ex (capable q) bs then SandboxUnavailableError else UnsupportedBackendError))"
proof (induction bs arbitrary: skipped)
  case (Cons b bs)
  have c: "required_capabilities q - bk_capabilities b \<noteq> {} \<longleftrightarrow> \<not> capable q b" by (auto simp: capable_def)
  show ?case
    unfolding select_from.simps c Cons.IH by (cases "capable q b"; cases "bk_available b") simp_all
qed simp

text \<open>
  Backend selection never degrades requirements: the chosen backend is the first of the
  list that is available and has every required capability; when there is none, the error
  says whether some backend would have been capable on another host.
\<close>

theorem select_backend_exact:
  "select_backend q bs =
     (case find (\<lambda>b. required_capabilities q \<subseteq> bk_capabilities b \<and> bk_available b) bs of
        Some b \<Rightarrow> Inr b
      | None \<Rightarrow> Inl (if list_ex (\<lambda>b. required_capabilities q \<subseteq> bk_capabilities b) bs
                     then SandboxUnavailableError else UnsupportedBackendError))"
  unfolding select_backend_def select_from_find capable_def by simp

lemma select_backend_Inr:
  "select_backend q bs = Inr b \<Longrightarrow> b \<in> set bs \<and> required_capabilities q \<subseteq> bk_capabilities b \<and> bk_available b"
  unfolding select_backend_def select_from_find
  by (auto simp: capable_def find_Some_iff split: option.splits)

lemma required_mono:
  "WASM_MODULE \<in> required_capabilities q \<longleftrightarrow> rq_wasm_module q"
  "HOST_PROCESS \<in> required_capabilities q \<longleftrightarrow> \<not> rq_wasm_module q"
  "GPU \<in> required_capabilities q \<longleftrightarrow> rq_gpu q"
  "DETERMINISTIC \<in> required_capabilities q \<longleftrightarrow> rq_deterministic q"
  "RESOURCE_LIMITS \<in> required_capabilities q \<longleftrightarrow> rq_resource_limits q"
  "FILESYSTEM_ISOLATION \<in> required_capabilities q" "NETWORK_ISOLATION \<in> required_capabilities q"
  by (auto simp: required_capabilities_def BASELINE_CAPABILITIES_def)

text \<open>A run failed exactly when a failure is reported, and a violation only with its reason.\<close>

lemma bubblewrap_outcome_complete:
  "xo_failure (bubblewrap_outcome cf program ll limit wall p) = None \<longleftrightarrow>
     xo_exit_code (bubblewrap_outcome cf program ll limit wall p) = 0 \<and>
     \<not> xo_timed_out (bubblewrap_outcome cf program ll limit wall p)"
  by (auto simp: bubblewrap_outcome_def bubblewrap_failure_def Let_def SIGSYS_def)

end
