(* ===== verification/Seccomp.thy ===== *)
theory Seccomp
  imports Containment
begin

text \<open>
  The seccomp filter of the bubblewrap backend (\<open>stele/containment/seccomp.py\<close>): the policy's
  tables, the program generated from them and its bytes.  The kernel that runs the program is
  not part of the source; it is the parameter \<open>run\<close> of the locale \<open>classic_bpf\<close>, whose laws
  say what the five instructions used do.  Under them the compiled bytes decide every system
  call of every process as the policy states it.
\<close>

unbundle bit_operations_syntax

section \<open>The policy's tables\<close>

definition RET_KILL_PROCESS :: int where "RET_KILL_PROCESS = 0x80000000"
definition RET_ERRNO :: int where "RET_ERRNO = 0x00050000"
definition RET_ALLOW :: int where "RET_ALLOW = 0x7FFF0000"

definition LD_W_ABS :: int where "LD_W_ABS = 0x20"
definition JEQ_K :: int where "JEQ_K = 0x15"
definition JGE_K :: int where "JGE_K = 0x35"
definition JSET_K :: int where "JSET_K = 0x45"
definition RET_K :: int where "RET_K = 0x06"

definition OFF_NR :: int where "OFF_NR = 0"
definition OFF_ARCH :: int where "OFF_ARCH = 4"

definition arg_low :: "int \<Rightarrow> int" where
  "arg_low i = 16 + 8 * i"

definition EPERM :: int where "EPERM = 1"
definition ENOSYS :: int where "ENOSYS = 38"

definition CLONE_NEW_MASK :: int where "CLONE_NEW_MASK = 0x7E020000"
definition X32_SYSCALL_BIT :: int where "X32_SYSCALL_BIT = 0x40000000"
definition TIOCSTI :: int where "TIOCSTI = 0x5412"
definition TIOCLINUX :: int where "TIOCLINUX = 0x541C"

definition KILLED_SYSCALLS :: "string list" where
  "KILLED_SYSCALLS = [
    ''ptrace'', ''process_vm_readv'', ''process_vm_writev'', ''kcmp'', ''pidfd_getfd'',
    ''process_madvise'', ''keyctl'', ''add_key'', ''request_key'', ''bpf'', ''perf_event_open'',
    ''userfaultfd'', ''kexec_load'', ''kexec_file_load'', ''init_module'', ''finit_module'',
    ''delete_module'', ''mount'', ''umount2'', ''pivot_root'', ''chroot'', ''unshare'', ''setns'',
    ''open_tree'', ''move_mount'', ''fsopen'', ''fsconfig'', ''fsmount'', ''fspick'',
    ''mount_setattr'', ''open_by_handle_at'', ''name_to_handle_at'', ''acct'', ''swapon'',
    ''swapoff'', ''reboot'', ''syslog'', ''quotactl'', ''quotactl_fd'', ''lookup_dcookie'', ''iopl'',
    ''ioperm'', ''uselib'', ''_sysctl'']"

definition ENOSYS_SYSCALLS :: "string list" where
  "ENOSYS_SYSCALLS = [
    ''clone3'', ''io_uring_setup'', ''io_uring_enter'', ''io_uring_register'']"

type_synonym syscall_table = "(string, int) dict"

definition COMMON_NEW :: syscall_table where
  "COMMON_NEW = [
    (''open_tree'', 428), (''move_mount'', 429), (''fsopen'', 430), (''fsconfig'', 431),
    (''fsmount'', 432), (''fspick'', 433), (''clone3'', 435), (''pidfd_getfd'', 438),
    (''process_madvise'', 440), (''mount_setattr'', 442), (''quotactl_fd'', 443),
    (''io_uring_setup'', 425), (''io_uring_enter'', 426), (''io_uring_register'', 427)]"

definition X86_64 :: syscall_table where
  "X86_64 = [
    (''ptrace'', 101), (''process_vm_readv'', 310), (''process_vm_writev'', 311), (''kcmp'', 312),
    (''keyctl'', 250), (''add_key'', 248), (''request_key'', 249), (''bpf'', 321),
    (''perf_event_open'', 298), (''userfaultfd'', 323), (''kexec_load'', 246),
    (''kexec_file_load'', 320), (''init_module'', 175), (''finit_module'', 313),
    (''delete_module'', 176), (''mount'', 165), (''umount2'', 166), (''pivot_root'', 155),
    (''chroot'', 161), (''unshare'', 272), (''setns'', 308), (''open_by_handle_at'', 304),
    (''name_to_handle_at'', 303), (''acct'', 163), (''swapon'', 167), (''swapoff'', 168),
    (''reboot'', 169), (''syslog'', 103), (''quotactl'', 179), (''lookup_dcookie'', 212),
    (''iopl'', 172), (''ioperm'', 173), (''uselib'', 134), (''_sysctl'', 156), (''clone'', 56),
    (''ioctl'', 16)] @ COMMON_NEW"

definition AARCH64 :: syscall_table where
  "AARCH64 = [
    (''ptrace'', 117), (''process_vm_readv'', 270), (''process_vm_writev'', 271), (''kcmp'', 272),
    (''keyctl'', 219), (''add_key'', 217), (''request_key'', 218), (''bpf'', 280),
    (''perf_event_open'', 241), (''userfaultfd'', 282), (''kexec_load'', 104),
    (''kexec_file_load'', 294), (''init_module'', 105), (''finit_module'', 273),
    (''delete_module'', 106), (''mount'', 40), (''umount2'', 39), (''pivot_root'', 41),
    (''chroot'', 51), (''unshare'', 97), (''setns'', 268), (''open_by_handle_at'', 265),
    (''name_to_handle_at'', 264), (''acct'', 89), (''swapon'', 224), (''swapoff'', 225),
    (''reboot'', 142), (''syslog'', 116), (''quotactl'', 60), (''lookup_dcookie'', 18),
    (''clone'', 220), (''ioctl'', 29)] @ COMMON_NEW"

text \<open>The \<open>AUDIT_ARCH\<close> number, the table, and whether x32 numbers are rejected.\<close>

definition ARCHES :: "(string, int \<times> syscall_table \<times> bool) dict" where
  "ARCHES = [(''x86_64'', (0xC000003E, X86_64, True)), (''aarch64'', (0xC00000B7, AARCH64, False))]"

definition MACHINE_ALIASES :: "(string, string) dict" where
  "MACHINE_ALIASES = [(''amd64'', ''x86_64''), (''arm64'', ''aarch64'')]"

text \<open>
  \<open>str.lower\<close> on ASCII letters.  Of all other characters only the Kelvin sign becomes an ASCII
  one alone, a k, which no supported name has.
\<close>

definition lower_char :: "char \<Rightarrow> char" where
  "lower_char c = (if CHR ''A'' \<le> c \<and> c \<le> CHR ''Z'' then char_of (of_char c + 32 :: nat) else c)"

definition lower :: "string \<Rightarrow> string" where
  "lower = map lower_char"

definition normalize_machine :: "string \<Rightarrow> string option" where
  "normalize_machine machine =
     (let m = lower machine; m' = (case map_of MACHINE_ALIASES m of None \<Rightarrow> m | Some a \<Rightarrow> a) in
      if m' \<in> set (dict_keys ARCHES) then Some m' else None)"

section \<open>The program\<close>

text \<open>A \<open>struct sock_filter\<close>: code, jump if true, jump if false, operand.\<close>

type_synonym instruction = "int \<times> int \<times> int \<times> int"

definition stmt :: "int \<Rightarrow> int \<Rightarrow> instruction" where
  "stmt op k = (op, 0, 0, k)"

definition jump :: "int \<Rightarrow> int \<Rightarrow> int \<Rightarrow> int \<Rightarrow> instruction" where
  "jump op k jt jf = (op, jt, jf, k)"

text \<open>\<open>table[name]\<close>.\<close>

definition number :: "syscall_table \<Rightarrow> string \<Rightarrow> int result" where
  "number table name = (case map_of table name of None \<Rightarrow> Inl KeyError | Some n \<Rightarrow> Inr n)"

definition filter_rules :: "syscall_table \<Rightarrow> (string \<times> int) list" where
  "filter_rules table =
     map (\<lambda>n. (n, RET_KILL_PROCESS)) (filter (\<lambda>n. n \<in> set (dict_keys table)) KILLED_SYSCALLS)
     @ map (\<lambda>n. (n, RET_ERRNO OR ENOSYS)) ENOSYS_SYSCALLS"

fun rule_code :: "syscall_table \<Rightarrow> (string \<times> int) list \<Rightarrow> instruction list result" where
  "rule_code table [] = Inr []"
| "rule_code table ((name, verdict) # rs) =
     (case number table name of
        Inl e \<Rightarrow> Inl e
      | Inr n \<Rightarrow>
          map_sum id (\<lambda>p. jump JEQ_K n 0 1 # stmt RET_K verdict # p) (rule_code table rs))"

definition preamble :: "int \<Rightarrow> bool \<Rightarrow> instruction list" where
  "preamble audit_arch reject_x32 =
     [stmt LD_W_ABS OFF_ARCH, jump JEQ_K audit_arch 1 0, stmt RET_K RET_KILL_PROCESS, stmt LD_W_ABS OFF_NR]
     @ (if reject_x32 then [jump JGE_K X32_SYSCALL_BIT 0 1, stmt RET_K RET_KILL_PROCESS] else [])"

definition clone_code :: "int \<Rightarrow> instruction list" where
  "clone_code n =
     [jump JEQ_K n 0 4, stmt LD_W_ABS (arg_low 0), jump JSET_K CLONE_NEW_MASK 0 1,
      stmt RET_K RET_KILL_PROCESS, stmt RET_K RET_ALLOW]"

definition injection :: "int list" where
  "injection = [TIOCSTI, TIOCLINUX]"

definition ioctl_code :: "int \<Rightarrow> instruction list" where
  "ioctl_code n =
     [jump JEQ_K n 0 (2 * int (length injection) + 2), stmt LD_W_ABS (arg_low 1)]
     @ concat (map (\<lambda>cmd. [jump JEQ_K cmd 0 1, stmt RET_K (RET_ERRNO OR EPERM)]) injection)
     @ [stmt RET_K RET_ALLOW]"

definition filter_program :: "int \<Rightarrow> syscall_table \<Rightarrow> bool \<Rightarrow> instruction list result" where
  "filter_program audit_arch table reject_x32 =
     (case rule_code table (filter_rules table) of
        Inl e \<Rightarrow> Inl e
      | Inr rs \<Rightarrow>
          (case number table ''clone'' of
             Inl e \<Rightarrow> Inl e
           | Inr c \<Rightarrow>
               (case number table ''ioctl'' of
                  Inl e \<Rightarrow> Inl e
                | Inr i \<Rightarrow> Inr (preamble audit_arch reject_x32 @ rs @ clone_code c @ ioctl_code i @ [stmt RET_K RET_ALLOW]))))"

text \<open>\<open>struct.pack('<HBBI', ...)\<close>: little-endian, and an error for a value that does not fit.\<close>

fun le_bytes :: "nat \<Rightarrow> int \<Rightarrow> string" where
  "le_bytes 0 n = []"
| "le_bytes (Suc w) n = char_of (n mod 256) # le_bytes w (n div 256)"

definition fits :: "nat \<Rightarrow> int \<Rightarrow> bool" where
  "fits w n \<longleftrightarrow> 0 \<le> n \<and> n < 256 ^ w"

definition pack_instruction :: "instruction \<Rightarrow> string result" where
  "pack_instruction = (\<lambda>(op, jt, jf, k).
     if fits 2 op \<and> fits 1 jt \<and> fits 1 jf \<and> fits 4 k
     then Inr (le_bytes 2 op @ le_bytes 1 jt @ le_bytes 1 jf @ le_bytes 4 k)
     else Inl (OtherError ''struct.error''))"

fun pack_program :: "instruction list \<Rightarrow> string result" where
  "pack_program [] = Inr []"
| "pack_program (i # p) =
     (case pack_instruction i of Inl e \<Rightarrow> Inl e | Inr b \<Rightarrow> map_sum id (\<lambda>bs. b @ bs) (pack_program p))"

definition build_filter :: "string \<Rightarrow> string result" where
  "build_filter machine =
     (case normalize_machine machine of
        None \<Rightarrow> Inl ValueError
      | Some arch \<Rightarrow>
          (case the (map_of ARCHES arch) of
             (audit_arch, table, reject_x32) \<Rightarrow>
               (case filter_program audit_arch table reject_x32 of
                  Inl e \<Rightarrow> Inl e
                | Inr prog \<Rightarrow> pack_program prog)))"

section \<open>The host\<close>

text \<open>
  \<open>platform.machine()\<close>, \<open>sys.platform\<close> and the text of \<open>/proc/self/status\<close> (an \<open>OSError\<close> is
  \<open>None\<close>) are arguments.
\<close>

definition host_machine :: "string \<Rightarrow> string option" where
  "host_machine machine = normalize_machine machine"

definition kernel_supports_filters :: "string \<Rightarrow> string option \<Rightarrow> bool" where
  "kernel_supports_filters sys_platform status =
     (if sys_platform \<noteq> ''linux'' then False
      else case status of
        None \<Rightarrow> False
      | Some text \<Rightarrow> sublist (CHR 0x0A # ''Seccomp_filters:'') text)"

definition filter_for_host :: "string \<Rightarrow> string \<Rightarrow> string option \<Rightarrow> string option result" where
  "filter_for_host machine sys_platform status =
     (case host_machine machine of
        None \<Rightarrow> Inr None
      | Some m \<Rightarrow>
          if kernel_supports_filters sys_platform status then map_sum id Some (build_filter m) else Inr None)"

section \<open>The kernel\<close>

text \<open>
  What the filter sees of a call: its number, the ABI it was made through, the instruction
  pointer and six arguments.
\<close>

record seccomp_data =
  sd_nr :: "32 word"
  sd_arch :: "32 word"
  sd_ip :: "64 word"
  sd_args :: "nat \<Rightarrow> 64 word"

text \<open>
  The 64 bytes of \<open>struct seccomp_data\<close> as sixteen 32-bit words: the number, the ABI, the
  instruction pointer and the six arguments, each 64-bit field with its low half first, as on
  both little-endian machines.  The kernel admits an absolute load only at a multiple of four
  within the structure.
\<close>

definition word_halves :: "64 word \<Rightarrow> 32 word list" where
  "word_halves w = [ucast w, ucast (drop_bit 32 w)]"

definition data_words :: "seccomp_data \<Rightarrow> 32 word list" where
  "data_words d = [sd_nr d, sd_arch d] @ word_halves (sd_ip d) @ concat (map (\<lambda>i. word_halves (sd_args d i)) [0..<6])"

definition data_word :: "seccomp_data \<Rightarrow> int \<Rightarrow> 32 word option" where
  "data_word d off = (if 0 \<le> off \<and> off < 64 \<and> off mod 4 = 0 then Some (data_words d ! nat (off div 4)) else None)"

text \<open>
  \<open>run p a d\<close> is the verdict of the rest \<open>p\<close> of a program with accumulator \<open>a\<close>, \<open>None\<close> where the
  kernel refuses the program; jumps are relative to the next instruction.
\<close>

locale classic_bpf =
  fixes run :: "instruction list \<Rightarrow> 32 word \<Rightarrow> seccomp_data \<Rightarrow> 32 word option"
  assumes run_ld: "run (stmt LD_W_ABS k # p) a d = (case data_word d k of None \<Rightarrow> None | Some w \<Rightarrow> run p w d)"
    and run_jeq: "run (jump JEQ_K k jt jf # p) a d = run (drop (nat (if a = of_int k then jt else jf)) p) a d"
    and run_jge: "run (jump JGE_K k jt jf # p) a d = run (drop (nat (if of_int k \<le> a then jt else jf)) p) a d"
    and run_jset: "run (jump JSET_K k jt jf # p) a d = run (drop (nat (if a AND of_int k \<noteq> 0 then jt else jf)) p) a d"
    and run_ret: "run (stmt RET_K k # p) a d = Some (of_int k)"

section \<open>The policy\<close>

definition named :: "syscall_table \<Rightarrow> string list \<Rightarrow> 32 word \<Rightarrow> bool" where
  "named table names nr \<longleftrightarrow> list_ex (\<lambda>name. case map_of table name of None \<Rightarrow> False | Some n \<Rightarrow> nr = of_int n) names"

definition policy_verdict :: "int \<Rightarrow> syscall_table \<Rightarrow> bool \<Rightarrow> seccomp_data \<Rightarrow> int" where
  "policy_verdict audit_arch table reject_x32 d =
     (if sd_arch d \<noteq> of_int audit_arch then RET_KILL_PROCESS
      else if reject_x32 \<and> of_int X32_SYSCALL_BIT \<le> sd_nr d then RET_KILL_PROCESS
      else if named table KILLED_SYSCALLS (sd_nr d) then RET_KILL_PROCESS
      else if named table ENOSYS_SYSCALLS (sd_nr d) then RET_ERRNO OR ENOSYS
      else if named table [''clone''] (sd_nr d)
      then (if sd_args d 0 AND of_int CLONE_NEW_MASK \<noteq> 0 then RET_KILL_PROCESS else RET_ALLOW)
      else if named table [''ioctl''] (sd_nr d)
      then (if (ucast (sd_args d 1) :: 32 word) \<in> {of_int TIOCSTI, of_int TIOCLINUX} then RET_ERRNO OR EPERM else RET_ALLOW)
      else RET_ALLOW)"

lemma named_simps [simp]:
  "named table [] a = False"
  "named table (n # ns) a = ((case map_of table n of None \<Rightarrow> False | Some k \<Rightarrow> a = of_int k) \<or> named table ns a)"
  by (simp_all add: named_def)

text \<open>The verdict of the first rule for the call numbered \<open>a\<close>.\<close>

fun first_verdict :: "syscall_table \<Rightarrow> 32 word \<Rightarrow> (string \<times> int) list \<Rightarrow> int option" where
  "first_verdict table a [] = None"
| "first_verdict table a ((name, v) # rs) = (if named table [name] a then Some v else first_verdict table a rs)"

lemma first_verdict_map:
  "first_verdict table a (map (\<lambda>n. (n, v)) ns @ rs) = (if named table ns a then Some v else first_verdict table a rs)"
  by (induction ns) auto

lemma named_known: "named table (filter (\<lambda>n. n \<in> set (dict_keys table)) ns) a = named table ns a"
proof -
  have "n \<in> set (dict_keys table) \<longleftrightarrow> map_of table n \<noteq> None" for n
    by (simp add: dict_keys_def map_of_eq_None_iff)
  then show ?thesis by (induction ns) (auto split: option.split)
qed

lemma first_verdict_rules:
  "first_verdict table a (filter_rules table) =
     (if named table KILLED_SYSCALLS a then Some RET_KILL_PROCESS
      else if named table ENOSYS_SYSCALLS a then Some (RET_ERRNO OR ENOSYS) else None)"
  using first_verdict_map [of table a "RET_ERRNO OR ENOSYS" ENOSYS_SYSCALLS "[]"]
  by (simp add: filter_rules_def first_verdict_map named_known del: named_simps)

lemma clone_flags: "(ucast (x :: 64 word) AND of_int CLONE_NEW_MASK \<noteq> (0 :: 32 word)) \<longleftrightarrow> x AND of_int CLONE_NEW_MASK \<noteq> 0"
proof -
  have "take_bit 32 CLONE_NEW_MASK = CLONE_NEW_MASK" by (simp add: CLONE_NEW_MASK_def)
  then have high: "n < 32" if "bit CLONE_NEW_MASK n" for n using that by (metis bit_take_bit_iff)
  have "n < 64" if "bit CLONE_NEW_MASK n" for n using high [OF that] by simp
  then show ?thesis using high by (auto simp: bit_eq_iff bit_and_iff bit_ucast_iff bit_word_of_int_iff)
qed

lemma data_words_loaded:
  "data_word d OFF_NR = Some (sd_nr d)"
  "data_word d OFF_ARCH = Some (sd_arch d)"
  "data_word d (arg_low 0) = Some (ucast (sd_args d 0))"
  "data_word d (arg_low 1) = Some (ucast (sd_args d 1))"
  by (simp_all add: data_word_def data_words_def word_halves_def OFF_NR_def OFF_ARCH_def arg_low_def upt_rec)

context classic_bpf
begin

lemma run_rules:
  assumes "rule_code table rs = Inr p"
  shows "run (p @ q) a d = (case first_verdict table a rs of None \<Rightarrow> run q a d | Some v \<Rightarrow> Some (of_int v))"
  using assms
proof (induction rs arbitrary: p)
  case (Cons r rs)
  obtain name v where r: "r = (name, v)" by (cases r)
  then obtain n p' where p': "map_of table name = Some n" "rule_code table rs = Inr p'"
    "p = jump JEQ_K n 0 1 # stmt RET_K v # p'"
    using Cons.prems by (auto simp: number_def map_sum_Inr_iff split: sum.splits option.splits)
  then show ?case using Cons.IH r by (simp add: run_jeq run_ret)
qed simp

lemma run_clone:
  "run (clone_code n @ q) a d =
     (if a = of_int n
      then Some (of_int (if ucast (sd_args d 0) AND (of_int CLONE_NEW_MASK :: 32 word) \<noteq> 0 then RET_KILL_PROCESS else RET_ALLOW))
      else run q a d)"
  by (simp add: clone_code_def run_jeq run_ld run_jset run_ret data_words_loaded)

lemma run_ioctl:
  "run (ioctl_code n @ q) a d =
     (if a = of_int n
      then Some (of_int (if ucast (sd_args d 1) \<in> {of_int TIOCSTI :: 32 word, of_int TIOCLINUX} then RET_ERRNO OR EPERM else RET_ALLOW))
      else run q a d)"
  by (simp add: ioctl_code_def injection_def run_jeq run_ld run_ret data_words_loaded)

lemma run_preamble:
  "run (preamble audit_arch x32 @ q) a d =
     (if sd_arch d \<noteq> of_int audit_arch \<or> x32 \<and> of_int X32_SYSCALL_BIT \<le> sd_nr d then Some (of_int RET_KILL_PROCESS)
      else run q (sd_nr d) d)"
  by (simp add: preamble_def run_ld run_jeq run_jge run_ret data_words_loaded)

lemma run_program:
  assumes "filter_program audit_arch table x32 = Inr prog"
  shows "run prog a d = Some (of_int (policy_verdict audit_arch table x32 d))"
proof -
  from assms obtain rs c i where rs: "rule_code table (filter_rules table) = Inr rs"
    and c: "map_of table ''clone'' = Some c" and i: "map_of table ''ioctl'' = Some i"
    and prog: "prog = preamble audit_arch x32 @ rs @ clone_code c @ ioctl_code i @ [stmt RET_K RET_ALLOW]"
    by (auto simp: filter_program_def number_def split: sum.splits option.splits)
  let ?bad = "sd_arch d \<noteq> of_int audit_arch \<or> x32 \<and> of_int X32_SYSCALL_BIT \<le> sd_nr d"
  have names: "named table [''clone''] (sd_nr d) \<longleftrightarrow> sd_nr d = of_int c" "named table [''ioctl''] (sd_nr d) \<longleftrightarrow> sd_nr d = of_int i"
    by (simp_all add: c i)
  note step = prog run_preamble run_rules [OF rs] first_verdict_rules policy_verdict_def
  consider (bad) ?bad
    | (killed) "\<not> ?bad" "named table KILLED_SYSCALLS (sd_nr d)"
    | (enosys) "\<not> ?bad" "\<not> named table KILLED_SYSCALLS (sd_nr d)" "named table ENOSYS_SYSCALLS (sd_nr d)"
    | (other) "\<not> ?bad" "\<not> named table KILLED_SYSCALLS (sd_nr d)" "\<not> named table ENOSYS_SYSCALLS (sd_nr d)"
    by blast
  then show ?thesis
  proof cases
    case other
    then have "run prog a d = run (clone_code c @ ioctl_code i @ [stmt RET_K RET_ALLOW]) (sd_nr d) d" by (auto simp: step)
    then have r: "run prog a d =
        (if sd_nr d = of_int c then Some (of_int (if sd_args d 0 AND of_int CLONE_NEW_MASK \<noteq> 0 then RET_KILL_PROCESS else RET_ALLOW))
         else if sd_nr d = of_int i
         then Some (of_int (if ucast (sd_args d 1) \<in> {of_int TIOCSTI :: 32 word, of_int TIOCLINUX} then RET_ERRNO OR EPERM else RET_ALLOW))
         else Some (of_int RET_ALLOW))"
      by (simp only: run_clone run_ioctl clone_flags append_Cons append_Nil run_ret)
    have "policy_verdict audit_arch table x32 d =
        (if sd_nr d = of_int c then (if sd_args d 0 AND of_int CLONE_NEW_MASK \<noteq> 0 then RET_KILL_PROCESS else RET_ALLOW)
         else if sd_nr d = of_int i
         then (if ucast (sd_args d 1) \<in> {of_int TIOCSTI :: 32 word, of_int TIOCLINUX} then RET_ERRNO OR EPERM else RET_ALLOW)
         else RET_ALLOW)"
      unfolding policy_verdict_def names using other by argo
    then show ?thesis unfolding r by presburger
  qed (auto simp: step)
qed

end

section \<open>The bytes\<close>

fun le_value :: "string \<Rightarrow> int" where
  "le_value [] = 0"
| "le_value (c # cs) = of_char c + 256 * le_value cs"

lemma le_value_bytes: "le_value (le_bytes w n) = n mod 256 ^ w"
proof (induction w arbitrary: n)
  case (Suc w)
  have "n mod (256 * 256 ^ w) = n mod 256 + 256 * (n div 256 mod 256 ^ w)"
    by (simp add: zmod_zmult2_eq)
  then show ?case by (simp add: Suc)
qed simp

text \<open>How a reader of \<open>struct sock_filter\<close>s takes the bytes apart.\<close>

fun unpack_program :: "string \<Rightarrow> instruction list option" where
  "unpack_program [] = Some []"
| "unpack_program (a # b # c # d # e # f # g # h # rest) =
     map_option (\<lambda>p. (le_value [a, b], le_value [c], le_value [d], le_value [e, f, g, h]) # p) (unpack_program rest)"
| "unpack_program _ = None"

definition fits_filter :: "instruction \<Rightarrow> bool" where
  "fits_filter = (\<lambda>(op, jt, jf, k). fits 2 op \<and> fits 1 jt \<and> fits 1 jf \<and> fits 4 k)"

lemma le_value_fits: "fits w n \<Longrightarrow> le_value (le_bytes w n) = n"
  by (simp add: le_value_bytes fits_def)

lemma pack_unpack:
  "list_all fits_filter p \<Longrightarrow> \<exists>b. pack_program p = Inr b \<and> unpack_program b = Some p"
proof (induction p)
  case (Cons i p)
  obtain op jt jf k where i: "i = (op, jt, jf, k)" by (cases i)
  then have f: "fits 2 op" "fits 1 jt" "fits 1 jf" "fits 4 k" using Cons.prems by (simp_all add: fits_filter_def)
  have le: "le_bytes 2 n = [char_of (n mod 256), char_of (n div 256 mod 256)]" "le_bytes 1 n = [char_of (n mod 256)]"
    "le_bytes 4 n = [char_of (n mod 256), char_of (n div 256 mod 256), char_of (n div 256 div 256 mod 256),
       char_of (n div 256 div 256 div 256 mod 256)]" for n
    by (simp_all add: numeral_eq_Suc)
  obtain b where "pack_program p = Inr b" "unpack_program b = Some p" using Cons by auto
  moreover have "unpack_program (le_bytes 2 op @ le_bytes 1 jt @ le_bytes 1 jf @ le_bytes 4 k @ b) =
      map_option (\<lambda>p. (le_value (le_bytes 2 op), le_value (le_bytes 1 jt), le_value (le_bytes 1 jf), le_value (le_bytes 4 k)) # p)
        (unpack_program b)"
    unfolding le append_Cons append_Nil unpack_program.simps ..
  ultimately show ?case
    using f by (simp add: i pack_instruction_def le_value_fits del: One_nat_def)
qed simp

lemma normalize_idem: "normalize_machine machine = Some m \<Longrightarrow> normalize_machine m = Some m"
  by (auto simp: normalize_machine_def Let_def MACHINE_ALIASES_def ARCHES_def dict_keys_def lower_def lower_char_def
      split: if_splits)

text \<open>Both programs are generated without error, fit their fields and the kernel's limit of 4096 instructions.\<close>

lemma fits_verdict: "fits 4 RET_KILL_PROCESS" "fits 4 RET_ALLOW" "fits 4 (RET_ERRNO OR ENOSYS)" "fits 4 (RET_ERRNO OR EPERM)"
  by (simp_all add: fits_def RET_KILL_PROCESS_def RET_ALLOW_def RET_ERRNO_def ENOSYS_def EPERM_def)

lemma rule_code_ok:
  "list_all (\<lambda>(n, v). (case map_of table n of None \<Rightarrow> False | Some k \<Rightarrow> fits 4 k) \<and> fits 4 v) rs \<Longrightarrow>
   \<exists>p. rule_code table rs = Inr p \<and> list_all fits_filter p \<and> length p = 2 * length rs"
proof (induction rs)
  case (Cons r rs)
  then show ?case
    by (auto simp: number_def fits_filter_def jump_def stmt_def JEQ_K_def RET_K_def fits_def split: option.splits)
qed simp

lemma program_ok:
  assumes "fits 4 audit_arch" "list_all (fits 4) (map snd table)"
    "list_all (\<lambda>n. n \<in> fst ` set table) (''clone'' # ''ioctl'' # ENOSYS_SYSCALLS)"
  shows "\<exists>p. filter_program audit_arch table x32 = Inr p \<and> p \<noteq> [] \<and> list_all fits_filter p \<and> length p \<le> 4096"
proof -
  have num: "case map_of table n of None \<Rightarrow> False | Some k \<Rightarrow> fits 4 k" if "n \<in> fst ` set table" for n
    using that assms(2) map_of_SomeD [of table n] by (force simp: list_all_iff map_of_eq_None_iff split: option.split)
  have "list_all (\<lambda>(n, v). (case map_of table n of None \<Rightarrow> False | Some k \<Rightarrow> fits 4 k) \<and> fits 4 v) (filter_rules table)"
    using num assms(3) fits_verdict by (auto simp: filter_rules_def list_all_iff dict_keys_def)
  from rule_code_ok [OF this] obtain rs where rs: "rule_code table (filter_rules table) = Inr rs"
    "list_all fits_filter rs" "length rs = 2 * length (filter_rules table)" by blast
  have "length (filter_rules table) \<le> length KILLED_SYSCALLS + length ENOSYS_SYSCALLS"
    by (simp add: filter_rules_def)
  then have short: "length rs \<le> 4000" using rs(3) by (simp add: KILLED_SYSCALLS_def ENOSYS_SYSCALLS_def)
  obtain c i where ci: "map_of table ''clone'' = Some c" "fits 4 c" "map_of table ''ioctl'' = Some i" "fits 4 i"
    using num [of "''clone''"] num [of "''ioctl''"] assms(3) by (auto split: option.splits)
  show ?thesis
    using rs ci short assms(1) fits_verdict
    by (auto simp: filter_program_def number_def preamble_def clone_code_def ioctl_code_def injection_def fits_filter_def
        stmt_def jump_def arg_low_def JEQ_K_def RET_K_def LD_W_ABS_def JGE_K_def JSET_K_def OFF_NR_def OFF_ARCH_def
        CLONE_NEW_MASK_def X32_SYSCALL_BIT_def TIOCSTI_def TIOCLINUX_def fits_def)
qed

lemma tables_ok:
  "list_all (fits 4) (map snd X86_64)" "list_all (fits 4) (map snd AARCH64)"
  "list_all (\<lambda>n. n \<in> fst ` set X86_64) (''clone'' # ''ioctl'' # ENOSYS_SYSCALLS)"
  "list_all (\<lambda>n. n \<in> fst ` set AARCH64) (''clone'' # ''ioctl'' # ENOSYS_SYSCALLS)"
  by (simp_all add: X86_64_def AARCH64_def COMMON_NEW_def ENOSYS_SYSCALLS_def fits_def)

lemma programs:
  "list_all (\<lambda>(m, a, t, x). \<exists>p. filter_program a t x = Inr p \<and> p \<noteq> [] \<and> list_all fits_filter p \<and> length p \<le> 4096) ARCHES"
  using program_ok tables_ok by (simp add: ARCHES_def fits_def)

lemma build_supported:
  assumes "normalize_machine machine = Some arch"
  shows "\<exists>au t x p b. map_of ARCHES arch = Some (au, t, x) \<and> filter_program au t x = Inr p \<and> length p \<le> 4096 \<and>
    build_filter machine = Inr b \<and> unpack_program b = Some p \<and> b \<noteq> []"
proof -
  have "arch \<in> set (dict_keys ARCHES)" using assms by (auto simp: normalize_machine_def Let_def split: if_splits)
  then obtain e where e: "map_of ARCHES arch = Some e" by (cases "map_of ARCHES arch") (auto simp: dict_keys_def map_of_eq_None_iff)
  obtain au t x where etx: "e = (au, t, x)" by (cases e)
  obtain p where p: "filter_program au t x = Inr p" "p \<noteq> []" "list_all fits_filter p" "length p \<le> 4096"
    using programs map_of_SomeD [OF e] unfolding list_all_iff etx by blast
  obtain b where "pack_program p = Inr b" "unpack_program b = Some p" using pack_unpack [OF p(3)] by blast
  then show ?thesis using assms e etx p by (intro exI conjI) (auto simp: build_filter_def)
qed

text \<open>
  C13.  The compiled seccomp filter decides every system call as the policy states.  On a
  supported machine building it never fails, its bytes are those of a program no longer than
  the kernel admits, every operand and jump in range, and on any kernel that runs
  classic BPF over the words of \<open>struct seccomp_data\<close> and for any call, it ends with the policy's verdict: a foreign ABI, an x32 number,
  a killed call or a clone with a namespace flag kills the process, the io_uring calls
  and clone3 give ENOSYS, the two terminal injections EPERM, and everything else is allowed.
  On any other machine building raises ValueError.
\<close>

theorem compiled_filter_decides:
  assumes "classic_bpf run"
  shows "case build_filter machine of
      Inl e \<Rightarrow> e = ValueError \<and> normalize_machine machine = None
    | Inr b \<Rightarrow>
        (case normalize_machine machine of
           None \<Rightarrow> False
         | Some arch \<Rightarrow>
             (case the (map_of ARCHES arch) of
                (audit_arch, table, reject_x32) \<Rightarrow>
                  (case unpack_program b of
                     None \<Rightarrow> False
                   | Some prog \<Rightarrow> length prog \<le> 4096 \<and>
                       run prog a d = Some (of_int (policy_verdict audit_arch table reject_x32 d)))))"
proof (cases "normalize_machine machine")
  case (Some arch)
  from build_supported [OF this] obtain au t x p b where b: "map_of ARCHES arch = Some (au, t, x)"
    "filter_program au t x = Inr p" "length p \<le> 4096" "build_filter machine = Inr b" "unpack_program b = Some p"
    by blast
  then show ?thesis using Some classic_bpf.run_program [OF assms b(2)] by simp
qed (simp add: build_filter_def)

text \<open>A kernel with these laws.\<close>

definition bpf_step :: "instruction \<Rightarrow> 32 word \<Rightarrow> seccomp_data \<Rightarrow> (int \<times> 32 word) option" where
  "bpf_step = (\<lambda>(op, jt, jf, k) a d.
     if op = LD_W_ABS then map_option (Pair 0) (data_word d k)
     else if op = JEQ_K then Some (if a = of_int k then jt else jf, a)
     else if op = JGE_K then Some (if of_int k \<le> a then jt else jf, a)
     else if op = JSET_K then Some (if a AND of_int k \<noteq> 0 then jt else jf, a)
     else None)"

fun bpf_run :: "instruction list \<Rightarrow> 32 word \<Rightarrow> seccomp_data \<Rightarrow> 32 word option" where
  "bpf_run [] a d = None"
| "bpf_run (i # p) a d =
     (if fst i = RET_K then Some (of_int (snd (snd (snd i))))
      else case bpf_step i a d of None \<Rightarrow> None | Some (n, a') \<Rightarrow> bpf_run (drop (nat n) p) a' d)"

interpretation bpf_machine: classic_bpf bpf_run
  by unfold_locales (auto simp: bpf_step_def stmt_def jump_def LD_W_ABS_def JEQ_K_def JGE_K_def JSET_K_def RET_K_def split: option.split)

text \<open>A process that calls \<open>ptrace\<close> on an x86-64 machine is killed.\<close>

definition demo_call :: seccomp_data where
  "demo_call = \<lparr>sd_nr = 101, sd_arch = 0xC000003E, sd_ip = 0, sd_args = (\<lambda>i. 0)\<rparr>"

theorem compiled_filter_decides_witness:
  "case build_filter ''AMD64'' of
     Inl e \<Rightarrow> False
   | Inr b \<Rightarrow> (case unpack_program b of None \<Rightarrow> False | Some prog \<Rightarrow> bpf_run prog 0 demo_call = Some (of_int RET_KILL_PROCESS))"
proof -
  have m: "normalize_machine ''AMD64'' = Some ''x86_64''" by code_simp
  have v: "policy_verdict 0xC000003E X86_64 True demo_call = RET_KILL_PROCESS"
  proof -
    have "''ptrace'' \<in> set KILLED_SYSCALLS" "map_of X86_64 ''ptrace'' = Some 101"
      by (simp_all add: KILLED_SYSCALLS_def X86_64_def)
    then have "named X86_64 KILLED_SYSCALLS 101" unfolding named_def list_ex_iff by (intro bexI [of _ "''ptrace''"]) simp_all
    then show ?thesis by (simp add: policy_verdict_def demo_call_def)
  qed
  show ?thesis
    using compiled_filter_decides [OF bpf_machine.classic_bpf_axioms, of "''AMD64''" 0 demo_call] v
    by (simp add: m ARCHES_def split: sum.splits option.splits)
qed

section \<open>What the backend claims\<close>

lemma filter_for_host_nonempty:
  assumes "filter_for_host machine sys_platform status = Inr program"
  shows "program \<noteq> Some []"
proof (cases "normalize_machine machine")
  case (Some m)
  from build_supported [OF normalize_idem [OF this]] obtain b where "build_filter m = Inr b" "b \<noteq> []" by blast
  then show ?thesis using assms Some by (auto simp: filter_for_host_def host_machine_def split: if_splits)
qed (use assms in \<open>simp add: filter_for_host_def host_machine_def\<close>)

text \<open>
  The bubblewrap backend claims SYSCALL_FILTER exactly where it has a filter to install:
  asking for the host's filter never raises, and the capability is there exactly on a Linux
  kernel that reports filter mode on a supported machine.
\<close>

theorem syscall_filter_claim_exact:
  "case filter_for_host machine sys_platform status of
     Inl e \<Rightarrow> False
   | Inr program \<Rightarrow>
       (SYSCALL_FILTER \<in> bubblewrap_capabilities program \<longleftrightarrow>
          kernel_supports_filters sys_platform status \<and> lower machine \<in> {''x86_64'', ''amd64'', ''aarch64'', ''arm64''}) \<and>
       (''seccomp'' \<in> set (hardening_of program landlocked) \<longleftrightarrow> SYSCALL_FILTER \<in> bubblewrap_capabilities program)"
proof -
  have known: "normalize_machine machine \<noteq> None \<longleftrightarrow> lower machine \<in> {''x86_64'', ''amd64'', ''aarch64'', ''arm64''}"
    by (auto simp: normalize_machine_def Let_def MACHINE_ALIASES_def ARCHES_def dict_keys_def)
  show ?thesis
  proof (cases "normalize_machine machine")
    case None
    then show ?thesis using known
      by (auto simp: filter_for_host_def host_machine_def bubblewrap_capabilities_def hardening_of_def)
  next
    case (Some m)
    then have "normalize_machine m = Some m" by (rule normalize_idem)
    from build_supported [OF this] obtain b where b: "build_filter m = Inr b" "b \<noteq> []" by blast
    then show ?thesis using known Some
      by (auto simp: b filter_for_host_def host_machine_def bubblewrap_capabilities_def hardening_of_def)
  qed
qed
end
