(* ===== verification/Landlock.thy ===== *)
theory Landlock
  imports Seccomp
begin

text \<open>
  The Landlock launcher (\<open>stele/containment/landlock.py\<close>): its command line, the search for the
  programs it lets the parser execute, and the system calls by which it confines itself
  before it becomes the parser.  The kernel's answers are a parameter, as are the files it
  sees.  The launcher fails closed: it becomes the parser only after every step was granted.
\<close>

section \<open>Reading command lines\<close>

text \<open>
  A program that reads options, each with a fixed number of values, up to where they end:
  bubblewrap's command line, a container engine's and the launcher's own are all read this
  way.  \<open>ends\<close> tells whether options end here, and what is left then.
\<close>

locale option_reader =
  fixes arity :: "string \<Rightarrow> nat option"
    and ends :: "string list \<Rightarrow> string list option"
    and apply_option :: "string \<Rightarrow> string list \<Rightarrow> 's \<Rightarrow> 's"
    and read :: "string list \<Rightarrow> 's \<Rightarrow> ('s \<times> string list) option"
  assumes read_end: "ends args = Some cmd \<Longrightarrow> read args s = Some (s, cmd)"
    and read_option: "arity x = Some (length vs) \<Longrightarrow> read (x # vs @ rest) s = read rest (apply_option x vs s)"
begin

lemma read_rendered:
  "list_all (\<lambda>(x, vs). arity x = Some (length vs)) os \<Longrightarrow> ends args = Some cmd \<Longrightarrow>
   read (concat (map (\<lambda>(x, vs). x # vs) os) @ args) s = Some (fold (\<lambda>(x, vs). apply_option x vs) os s, cmd)"
  by (induction os arbitrary: s) (auto simp: read_end read_option)

end

text \<open>Options that end at a double dash, which is dropped.\<close>

definition dash_ends :: "string list \<Rightarrow> string list option" where
  "dash_ends args = (case args of [] \<Rightarrow> None | x # cmd \<Rightarrow> if x = ''--'' then Some cmd else None)"

section \<open>Rights\<close>

definition EXECUTE :: int where "EXECUTE = push_bit 0 1"
definition WRITE_FILE :: int where "WRITE_FILE = push_bit 1 1"
definition REMOVE_DIR :: int where "REMOVE_DIR = push_bit 4 1"
definition REMOVE_FILE :: int where "REMOVE_FILE = push_bit 5 1"
definition MAKE_CHAR :: int where "MAKE_CHAR = push_bit 6 1"
definition MAKE_DIR :: int where "MAKE_DIR = push_bit 7 1"
definition MAKE_REG :: int where "MAKE_REG = push_bit 8 1"
definition MAKE_SOCK :: int where "MAKE_SOCK = push_bit 9 1"
definition MAKE_FIFO :: int where "MAKE_FIFO = push_bit 10 1"
definition MAKE_BLOCK :: int where "MAKE_BLOCK = push_bit 11 1"
definition MAKE_SYM :: int where "MAKE_SYM = push_bit 12 1"
definition REFER :: int where "REFER = push_bit 13 1"
definition TRUNCATE :: int where "TRUNCATE = push_bit 14 1"

definition write_access :: "int \<Rightarrow> int" where
  "write_access abi =
     (let rights = WRITE_FILE OR REMOVE_DIR OR REMOVE_FILE OR MAKE_CHAR OR MAKE_DIR OR MAKE_REG OR MAKE_SOCK
                   OR MAKE_FIFO OR MAKE_BLOCK OR MAKE_SYM;
          rights = (if abi \<ge> 2 then rights OR REFER else rights)
      in if abi \<ge> 3 then rights OR TRUNCATE else rights)"

section \<open>The host as the launcher sees it\<close>

text \<open>
  The calls of \<open>restrict\<close> and the final \<open>execv\<close>; adding a rule includes opening its path.
  \<open>hs_grants before call\<close>: the kernel grants \<open>call\<close> after it granted the calls \<open>before\<close>.
  \<open>hs_version\<close> is what asking for the ABI version gives, \<open>None\<close> where it cannot be asked.
  Reading a file may fail.
\<close>

datatype landlock_call =
    CreateRuleset int
  | AddRule string int
  | NoNewPrivs
  | RestrictSelf
  | Exec string "string list"

record launch_host =
  hs_version :: "int option"
  hs_path :: string
  hs_is_file :: "string \<Rightarrow> bool"
  hs_executable :: "string \<Rightarrow> bool"
  hs_exists :: "string \<Rightarrow> bool"
  hs_content :: "string \<Rightarrow> string result"
  hs_grants :: "landlock_call list \<Rightarrow> landlock_call \<Rightarrow> bool"

definition abi_version :: "launch_host \<Rightarrow> int" where
  "abi_version h = (case hs_version h of None \<Rightarrow> 0 | Some v \<Rightarrow> max v 0)"

section \<open>Finding programs\<close>

definition os_path_join :: "string \<Rightarrow> string \<Rightarrow> string" where
  "os_path_join d name = (if d \<noteq> [] \<and> last d = CHR ''/'' then d @ name else d @ ''/'' @ name)"

text \<open>\<open>_which\<close>.\<close>

definition which_program :: "launch_host \<Rightarrow> string \<Rightarrow> string option" where
  "which_program h name =
     (if CHR ''/'' \<in> set name then Some name
      else find (\<lambda>c. hs_is_file h c \<and> hs_executable h c)
             (map (\<lambda>d. os_path_join (if d = [] then ''.'' else d) name) (split_on (CHR '':'') (hs_path h))))"

definition byte_space :: "char \<Rightarrow> bool" where
  "byte_space c \<longleftrightarrow> c \<in> {CHR '' '', CHR 0x09, CHR 0x0A, CHR 0x0B, CHR 0x0C, CHR 0x0D}"

text \<open>\<open>_shebang\<close>: the first word after the two marks, on the first line.\<close>

definition shebang :: "string \<Rightarrow> string option" where
  "shebang head =
     (if \<not> starts_with ''#!'' head then None
      else let word = takeWhile (\<lambda>c. \<not> byte_space c)
                        (dropWhile byte_space (takeWhile (\<lambda>c. c \<noteq> CHR 0x0A) (drop 2 head)))
           in if word = [] then None else Some word)"

text \<open>\<open>struct.unpack_from\<close> of one unsigned field of \<open>w\<close> bytes.\<close>

definition unpack_from :: "bool \<Rightarrow> nat \<Rightarrow> string \<Rightarrow> nat \<Rightarrow> int result" where
  "unpack_from little w bytes off =
     (if length bytes < off + w then Inl (OtherError ''struct.error'')
      else let field = take w (drop off bytes) in Inr (le_value (if little then field else rev field)))"

text \<open>
  \<open>fh.seek(off)\<close> and \<open>fh.read(n)\<close>: an offset beyond \<open>off_t\<close> raises; reading past the end
  gives what is there.
\<close>

definition read_at :: "string \<Rightarrow> int \<Rightarrow> int \<Rightarrow> string result" where
  "read_at content off n =
     (if off \<ge> 2 ^ 63 then Inl ValueError else Inr (take (nat n) (drop (nat off) content)))"

text \<open>The loop over the program headers; \<open>i\<close> is the header's index, \<open>left\<close> how many are left.\<close>

fun elf_headers :: "string \<Rightarrow> bool \<Rightarrow> bool \<Rightarrow> int \<Rightarrow> int \<Rightarrow> nat \<Rightarrow> nat \<Rightarrow> string option result" where
  "elf_headers content is64 little phoff phentsize i 0 = Inr None"
| "elf_headers content is64 little phoff phentsize i (Suc left) =
     (case read_at content (phoff + int i * phentsize) phentsize of
        Inl e \<Rightarrow> Inl e
      | Inr entry \<Rightarrow>
          if int (length entry) < phentsize then Inr None
          else case unpack_from little 4 entry 0 of
            Inl e \<Rightarrow> Inl e
          | Inr kind \<Rightarrow>
              if kind \<noteq> 3 then elf_headers content is64 little phoff phentsize (Suc i) left
              else (case unpack_from little (if is64 then 8 else 4) entry (if is64 then 8 else 4) of
                      Inl e \<Rightarrow> Inl e
                    | Inr offset \<Rightarrow>
                        (case unpack_from little (if is64 then 8 else 4) entry (if is64 then 32 else 16) of
                           Inl e \<Rightarrow> Inl e
                         | Inr n \<Rightarrow> map_sum id (\<lambda>b. Some (takeWhile (\<lambda>c. c \<noteq> nul) b)) (read_at content offset (min n 4096)))))"

text \<open>\<open>_elf_interp\<close>.\<close>

definition elf_interp :: "string \<Rightarrow> string option result" where
  "elf_interp content =
     (let head = take 4096 content in
      if take 4 head \<noteq> CHR 0x7F # ''ELF'' \<or> length head < 64 then Inr None
      else let is64 = (head ! 4 = CHR 0x02); little = (head ! 5 = CHR 0x01) in
        case unpack_from little (if is64 then 8 else 4) head (if is64 then 32 else 28) of
          Inl e \<Rightarrow> Inl e
        | Inr phoff \<Rightarrow>
            (case unpack_from little 2 head (if is64 then 54 else 42) of
               Inl e \<Rightarrow> Inl e
             | Inr phentsize \<Rightarrow>
                 (case unpack_from little 2 head (if is64 then 56 else 44) of
                    Inl e \<Rightarrow> Inl e
                  | Inr phnum \<Rightarrow> elf_headers content is64 little phoff phentsize 0 (nat (min phnum 64)))))"

definition interpreter_of :: "launch_host \<Rightarrow> string \<Rightarrow> string option result" where
  "interpreter_of h p =
     (case hs_content h p of
        Inl e \<Rightarrow> Inl e
      | Inr content \<Rightarrow>
          (case shebang (take 4096 content) of Some w \<Rightarrow> Inr (Some w) | None \<Rightarrow> elf_interp content))"

text \<open>The loop of \<open>interpreters\<close>: \<open>todo\<close> is a stack, and at most eight programs are found.\<close>

function interpreter_loop :: "launch_host \<Rightarrow> string list \<Rightarrow> string list \<Rightarrow> string list result" where
  "interpreter_loop h todo found =
     (if todo = [] \<or> length found \<ge> 8 then Inr found
      else case interpreter_of h (last todo) of
        Inl e \<Rightarrow> if is_os_error e then interpreter_loop h (butlast todo) found else Inl e
      | Inr None \<Rightarrow> interpreter_loop h (butlast todo) found
      | Inr (Some p) \<Rightarrow>
          if p \<noteq> [] \<and> p \<notin> set found then interpreter_loop h (butlast todo @ [p]) (found @ [p])
          else interpreter_loop h (butlast todo) found)"
  by pat_completeness auto
termination
  by (relation "measure (\<lambda>(h, todo, found). 2 * (8 - length found) + length todo)") auto

definition interpreters :: "launch_host \<Rightarrow> string \<Rightarrow> string list result" where
  "interpreters h p = interpreter_loop h [p] []"

section \<open>Restricting\<close>

text \<open>Making calls until one is refused: the calls made, and whether all were granted.\<close>

fun perform :: "launch_host \<Rightarrow> landlock_call list \<Rightarrow> landlock_call list \<Rightarrow> landlock_call list \<times> bool" where
  "perform h before [] = (before, True)"
| "perform h before (c # cs) =
     (if hs_grants h before c then perform h (before @ [c]) cs else (before @ [c], False))"

definition restrict_calls :: "launch_host \<Rightarrow> string list \<Rightarrow> string list \<Rightarrow> string list \<Rightarrow> landlock_call list" where
  "restrict_calls h write_dirs write_devices exec_files =
     (let abi = abi_version h; writes = write_access abi in
      CreateRuleset (writes OR EXECUTE)
      # map (\<lambda>p. AddRule p writes) write_dirs
      @ map (\<lambda>p. AddRule p (WRITE_FILE OR (if abi \<ge> 3 then TRUNCATE else 0))) (filter (hs_exists h) write_devices)
      @ map (\<lambda>p. AddRule p EXECUTE) exec_files
      @ [NoNewPrivs, RestrictSelf])"

definition restrict_self ::
  "launch_host \<Rightarrow> string list \<Rightarrow> string list \<Rightarrow> string list \<Rightarrow> landlock_call list \<times> bool" where
  "restrict_self h write_dirs write_devices exec_files =
     (if abi_version h < 1 then ([], False)
      else perform h [] (restrict_calls h write_dirs write_devices exec_files))"

section \<open>The launcher\<close>

record launcher_args =
  la_write :: "string list"
  la_devices :: "string list"
  la_exec :: "string list"

text \<open>The argument loop; \<open>None\<close> is a bad argument.  Without a double dash the command is empty.\<close>

fun parse_args :: "string list \<Rightarrow> launcher_args \<Rightarrow> (launcher_args \<times> string list) option" where
  "parse_args [] a = Some (a, [])"
| "parse_args (x # rest) a =
     (if x = ''--'' then Some (a, rest)
      else case rest of
        [] \<Rightarrow> None
      | v # rest' \<Rightarrow>
          if x = ''--write'' then parse_args rest' (a\<lparr>la_write := la_write a @ [v]\<rparr>)
          else if x = ''--write-dev'' then parse_args rest' (a\<lparr>la_devices := la_devices a @ [v]\<rparr>)
          else if x = ''--exec'' then parse_args rest' (a\<lparr>la_exec := la_exec a @ [v]\<rparr>)
          else None)"

definition no_args :: launcher_args where
  "no_args = \<lparr>la_write = [], la_devices = [], la_exec = []\<rparr>"

text \<open>The programs the parser may execute.\<close>

definition add_existing :: "launch_host \<Rightarrow> string list \<Rightarrow> string list \<Rightarrow> string list" where
  "add_existing h paths allowed =
     fold (\<lambda>p acc. if p \<notin> set acc \<and> hs_exists h p then acc @ [p] else acc) paths allowed"

fun allowed_programs :: "launch_host \<Rightarrow> string list \<Rightarrow> string list \<Rightarrow> string list result" where
  "allowed_programs h [] allowed = Inr allowed"
| "allowed_programs h (x # xs) allowed =
     (case which_program h x of
        None \<Rightarrow> allowed_programs h xs allowed
      | Some p \<Rightarrow>
          if \<not> hs_exists h p then allowed_programs h xs allowed
          else (case interpreters h p of
                  Inl e \<Rightarrow> Inl e
                | Inr ps \<Rightarrow> allowed_programs h xs (add_existing h (p # ps) allowed)))"

text \<open>How it ends: as the parser, with an exit status, or with an uncaught exception.\<close>

datatype launch_end = Started | Exited int | Crashed exn

definition LAUNCHER_FAILURE_EXIT :: int where
  "LAUNCHER_FAILURE_EXIT = 126"

definition launcher_main :: "launch_host \<Rightarrow> string list \<Rightarrow> launch_end \<times> landlock_call list" where
  "launcher_main h argv =
     (case parse_args argv no_args of
        None \<Rightarrow> (Exited LAUNCHER_FAILURE_EXIT, [])
      | Some (a, []) \<Rightarrow> (Exited LAUNCHER_FAILURE_EXIT, [])
      | Some (a, command) \<Rightarrow>
          (case which_program h (hd command) of
             None \<Rightarrow> (Exited 127, [])
           | Some program \<Rightarrow>
               (case allowed_programs h (program # la_exec a) [] of
                  Inl e \<Rightarrow> (Crashed e, [])
                | Inr allowed \<Rightarrow>
                    (case restrict_self h (la_write a) (la_devices a) allowed of
                       (calls, False) \<Rightarrow> (Exited LAUNCHER_FAILURE_EXIT, calls)
                     | (calls, True) \<Rightarrow>
                         (if hs_grants h calls (Exec program command) then Started else Exited 126,
                          calls @ [Exec program command])))))"

section \<open>The search ends\<close>

lemma interpreter_loop_found:
  "length found \<le> 8 \<Longrightarrow> distinct found \<Longrightarrow> [] \<notin> set found \<Longrightarrow>
   case interpreter_loop h todo found of
     Inl e \<Rightarrow> \<not> is_os_error e
   | Inr ps \<Rightarrow> length ps \<le> 8 \<and> distinct ps \<and> [] \<notin> set ps"
proof (induction h todo found rule: interpreter_loop.induct)
  case (1 h todo found)
  show ?case
  proof (cases "todo = [] \<or> length found \<ge> 8")
    case True
    then show ?thesis using 1(5-7) by (subst interpreter_loop.simps) simp
  next
    case False
    note step = interpreter_loop.simps [of h todo found]
    show ?thesis
    proof (cases "interpreter_of h (last todo)")
      case (Inl e)
      then show ?thesis using 1(1) [OF False Inl] 1(5-7) False step by (cases "is_os_error e") auto
    next
      case (Inr r)
      then show ?thesis
      proof (cases r)
        case None
        then show ?thesis using 1(2) [OF False Inr None] 1(5-7) False Inr step by simp
      next
        case (Some p)
        then show ?thesis
          using 1(3) [OF False Inr Some] 1(4) [OF False Inr Some] 1(5-7) False Inr step
          by (cases "p \<noteq> [] \<and> p \<notin> set found") auto
      qed
    qed
  qed
qed

text \<open>
  The search for interpreters always ends, whatever the files say about each other: it
  gives at most eight programs, none of them twice and none unnamed, even when scripts name
  each other in a circle; an unreadable file is skipped, and only other exceptions pass.
\<close>

theorem interpreters_bounded:
  "case interpreters h p of
     Inl e \<Rightarrow> \<not> is_os_error e
   | Inr ps \<Rightarrow> length ps \<le> 8 \<and> distinct ps \<and> [] \<notin> set ps"
  unfolding interpreters_def by (rule interpreter_loop_found) simp_all

section \<open>Reading its own command line\<close>

definition launcher_arity :: "string \<Rightarrow> nat option" where
  "launcher_arity x = (if x \<in> {''--write'', ''--write-dev'', ''--exec''} then Some 1 else None)"

definition launcher_apply :: "string \<Rightarrow> string list \<Rightarrow> launcher_args \<Rightarrow> launcher_args" where
  "launcher_apply x vs a =
     (if x = ''--write'' then a\<lparr>la_write := la_write a @ vs\<rparr>
      else if x = ''--write-dev'' then a\<lparr>la_devices := la_devices a @ vs\<rparr>
      else a\<lparr>la_exec := la_exec a @ vs\<rparr>)"

interpretation launcher_options: option_reader launcher_arity dash_ends launcher_apply parse_args
proof unfold_locales
  show "parse_args (x # vs @ rest) a = parse_args rest (launcher_apply x vs a)"
    if "launcher_arity x = Some (length vs)" for x vs rest a
  proof -
    from that obtain v where "vs = [v]" by (cases vs) (auto simp: launcher_arity_def split: if_splits)
    then show ?thesis using that by (auto simp: launcher_arity_def launcher_apply_def split: if_splits)
  qed
qed (auto simp: dash_ends_def split: list.splits if_splits)

section \<open>The launcher fails closed\<close>

fun granted :: "launch_host \<Rightarrow> landlock_call list \<Rightarrow> landlock_call list \<Rightarrow> bool" where
  "granted h before [] = True"
| "granted h before (c # cs) = (hs_grants h before c \<and> granted h (before @ [c]) cs)"

fun is_exec :: "landlock_call \<Rightarrow> bool" where
  "is_exec (Exec p cmd) = True"
| "is_exec _ = False"

lemma perform_True: "perform h bs cs = (calls, True) \<Longrightarrow> calls = bs @ cs \<and> granted h bs cs"
  by (induction h bs cs rule: perform.induct) (auto split: if_splits)

lemma perform_no_exec:
  "perform h bs cs = (calls, r) \<Longrightarrow> \<not> list_ex is_exec bs \<Longrightarrow> \<not> list_ex is_exec cs \<Longrightarrow> \<not> list_ex is_exec calls"
  by (induction h bs cs rule: perform.induct) (auto split: if_splits)

lemma restrict_calls_no_exec: "\<not> list_ex is_exec (restrict_calls h w d e)"
  by (auto simp: restrict_calls_def Let_def list_ex_iff)

section \<open>The kernel\<close>

text \<open>
  Landlock as the kernel documents it (\<open>linux/landlock.h\<close>), independent of the launcher, over a
  task's state \<open>'k\<close>: whether it gave up new privileges, the ruleset it is building - the
  rights handled and the rules, each a path and the rights it grants beneath it - and the
  rights it may exercise on a path.  A call the kernel cannot honour is \<open>None\<close>; it honours a
  ruleset of rights the ABI knows, a rule that grants some of what its ruleset handles, and a
  restriction to a ruleset once the task gave up new privileges.  A restriction leaves a right
  that it handles only where some rule grants it, and every other as it was.
\<close>

type_synonym landlock_ruleset = "int \<times> (string \<times> int) list"

definition known_rights :: "int \<Rightarrow> int" where
  "known_rights abi = mask (if abi \<ge> 3 then 15 else if abi \<ge> 2 then 14 else 13)"

definition grantable :: "int \<Rightarrow> int \<Rightarrow> bool" where
  "grantable rights handled \<longleftrightarrow> rights \<noteq> 0 \<and> rights AND handled = rights"

definition grants :: "(string \<Rightarrow> string \<Rightarrow> bool) \<Rightarrow> landlock_ruleset \<Rightarrow> string \<Rightarrow> nat \<Rightarrow> bool" where
  "grants beneath r p n = (bit (fst r) n \<longrightarrow> list_ex (\<lambda>(q, rights). bit rights n \<and> beneath q p) (snd r))"

locale landlock_kernel =
  fixes abi :: int
    and beneath :: "string \<Rightarrow> string \<Rightarrow> bool"
    and step :: "landlock_call \<Rightarrow> 'k \<Rightarrow> 'k option"
    and building :: "'k \<Rightarrow> landlock_ruleset option"
    and unprivileged :: "'k \<Rightarrow> bool"
    and permits :: "'k \<Rightarrow> string \<Rightarrow> nat \<Rightarrow> bool"
    and fresh :: 'k
  assumes fresh_permits: "permits fresh p n"
    and step_create: "grantable handled (known_rights abi) \<Longrightarrow>
      \<exists>k'. step (CreateRuleset handled) k = Some k' \<and> building k' = Some (handled, []) \<and>
        unprivileged k' = unprivileged k \<and> permits k' = permits k"
    and step_rule: "building k = Some (handled, rules) \<Longrightarrow> grantable rights handled \<Longrightarrow>
      \<exists>k'. step (AddRule q rights) k = Some k' \<and> building k' = Some (handled, rules @ [(q, rights)]) \<and>
        unprivileged k' = unprivileged k \<and> permits k' = permits k"
    and step_privs: "\<exists>k'. step NoNewPrivs k = Some k' \<and> unprivileged k' \<and> building k' = building k \<and> permits k' = permits k"
    and step_restrict: "building k = Some r \<Longrightarrow> unprivileged k \<Longrightarrow>
      \<exists>k'. step RestrictSelf k = Some k' \<and> unprivileged k' \<and>
        permits k' = (\<lambda>p n. permits k p n \<and> grants beneath r p n)"

fun kernel_run :: "(landlock_call \<Rightarrow> 'k \<Rightarrow> 'k option) \<Rightarrow> landlock_call list \<Rightarrow> 'k \<Rightarrow> 'k option" where
  "kernel_run step [] k = Some k"
| "kernel_run step (c # cs) k = (case step c k of None \<Rightarrow> None | Some k' \<Rightarrow> kernel_run step cs k')"

lemma kernel_run_append:
  "kernel_run step (cs @ ds) k = (case kernel_run step cs k of None \<Rightarrow> None | Some k' \<Rightarrow> kernel_run step ds k')"
  by (induction cs arbitrary: k) (auto split: option.split)

context landlock_kernel
begin

lemma run_rules:
  "building k = Some (handled, rules) \<Longrightarrow> list_all (\<lambda>(q, rights). grantable rights handled) rs \<Longrightarrow>
   \<exists>k'. kernel_run step (map (\<lambda>(q, rights). AddRule q rights) rs) k = Some k' \<and> building k' = Some (handled, rules @ rs) \<and>
     unprivileged k' = unprivileged k \<and> permits k' = permits k"
proof (induction rs arbitrary: k rules)
  case (Cons x rs)
  obtain q rights where x: "x = (q, rights)" by (cases x)
  from step_rule [OF Cons.prems(1), of rights q] Cons.prems(2) obtain k1 where k1: "step (AddRule q rights) k = Some k1"
    "building k1 = Some (handled, rules @ [(q, rights)])" "unprivileged k1 = unprivileged k" "permits k1 = permits k"
    by (auto simp: x)
  from Cons.IH [OF k1(2)] Cons.prems(2) show ?case using k1 by (simp add: x)
qed simp

lemma run_restricting:
  assumes "grantable handled (known_rights abi)" "list_all (\<lambda>(q, rights). grantable rights handled) rs"
  shows "\<exists>k. kernel_run step (CreateRuleset handled # map (\<lambda>(q, rights). AddRule q rights) rs @ [NoNewPrivs, RestrictSelf]) fresh =
      Some k \<and> unprivileged k \<and> permits k = grants beneath (handled, rs)"
proof -
  obtain k1 where k1: "step (CreateRuleset handled) fresh = Some k1" "building k1 = Some (handled, [])" "permits k1 = permits fresh"
    using step_create [OF assms(1)] by blast
  obtain k2 where k2: "kernel_run step (map (\<lambda>(q, rights). AddRule q rights) rs) k1 = Some k2"
    "building k2 = Some (handled, rs)" "permits k2 = permits k1"
    using run_rules [OF k1(2) assms(2)] by auto
  obtain k3 where k3: "step NoNewPrivs k2 = Some k3" "unprivileged k3" "building k3 = building k2" "permits k3 = permits k2"
    using step_privs by blast
  obtain k4 where "step RestrictSelf k3 = Some k4" "unprivileged k4" "permits k4 = (\<lambda>p n. permits k3 p n \<and> grants beneath (handled, rs) p n)"
    using step_restrict [of k3 "(handled, rs)"] k2(2) k3 by auto
  then show ?thesis using k1 k2 k3 by (simp add: kernel_run_append fresh_permits)
qed

end

text \<open>
  The numbers of the header: execution, reading files and directories, and the rights that
  change the file system, of which the first and the last apply to files.
\<close>

definition EXECUTE_RIGHT :: nat where "EXECUTE_RIGHT = 0"
definition READ_RIGHTS :: "nat list" where "READ_RIGHTS = [2, 3]"
definition FILE_WRITE_RIGHTS :: "nat list" where "FILE_WRITE_RIGHTS = [1, 14]"

definition WRITE_RIGHTS :: "int \<Rightarrow> nat list" where
  "WRITE_RIGHTS abi = [1, 4, 5, 6, 7, 8, 9, 10, 11, 12] @ (if abi \<ge> 2 then [13] else []) @ (if abi \<ge> 3 then [14] else [])"

text \<open>
  The programs names stand for: what they resolve to, and the interpreters those need, by
  their first line or their ELF header, and theirs again.
\<close>

inductive stands_for :: "launch_host \<Rightarrow> string list \<Rightarrow> string \<Rightarrow> bool" for h names where
  resolved: "x \<in> set names \<Longrightarrow> which_program h x = Some p \<Longrightarrow> stands_for h names p"
| interpreter: "stands_for h names p \<Longrightarrow> interpreter_of h p = Inr (Some q) \<Longrightarrow> stands_for h names q"

text \<open>
  What running as the parser presupposes: the calls before the one that executes leave the
  task without new privileges; it may change the file system under the write directories and
  nowhere else, but for writing to and truncating the devices there are; it may execute what
  the command and the allowlist stand for, as far as it is there, and nothing else; and it may
  read what it could.
\<close>

definition confined_task ::
  "launch_host \<Rightarrow> launcher_args \<Rightarrow> string list \<Rightarrow> (string \<Rightarrow> string \<Rightarrow> bool) \<Rightarrow> (string \<Rightarrow> nat \<Rightarrow> bool) \<Rightarrow> bool" where
  "confined_task h a names beneath may \<longleftrightarrow>
     (\<forall>p. \<forall>n \<in> set (WRITE_RIGHTS (abi_version h)). may p n \<longleftrightarrow>
        (\<exists>d \<in> set (la_write a). beneath d p) \<or>
        n \<in> set FILE_WRITE_RIGHTS \<and> (\<exists>d \<in> set (la_devices a). hs_exists h d \<and> beneath d p)) \<and>
     (\<forall>p. may p EXECUTE_RIGHT \<longrightarrow> (\<exists>q. stands_for h names q \<and> hs_exists h q \<and> beneath q p)) \<and>
     (\<forall>p. \<forall>x \<in> set names. \<forall>q. which_program h x = Some q \<longrightarrow> hs_exists h q \<longrightarrow> beneath q p \<longrightarrow> may p EXECUTE_RIGHT) \<and>
     (\<forall>p. \<forall>n \<in> set READ_RIGHTS. may p n)"

definition confined_as ::
  "(string \<Rightarrow> string \<Rightarrow> bool) \<Rightarrow> (landlock_call \<Rightarrow> 'k \<Rightarrow> 'k option) \<Rightarrow> ('k \<Rightarrow> bool) \<Rightarrow> ('k \<Rightarrow> string \<Rightarrow> nat \<Rightarrow> bool) \<Rightarrow> 'k \<Rightarrow>
   launch_host \<Rightarrow> launcher_args \<Rightarrow> string list \<Rightarrow> landlock_call list \<Rightarrow> bool" where
  "confined_as beneath step unprivileged permits fresh h a command calls \<longleftrightarrow>
     1 \<le> abi_version h \<and>
     (\<exists>program cs k.
        which_program h (hd command) = Some program \<and>
        calls = cs @ [Exec program command] \<and> \<not> list_ex is_exec cs \<and> granted h [] cs \<and>
        kernel_run step cs fresh = Some k \<and> unprivileged k \<and>
        confined_task h a (hd command # la_exec a) beneath (permits k))"

section \<open>What is handled\<close>

lemma right_bit: "bit (push_bit k (1 :: int)) n \<longleftrightarrow> n = k"
  by (auto simp: bit_exp_iff)

lemma write_access_bits:
  "bit (write_access abi) n \<longleftrightarrow> n \<in> {1, 4, 5, 6, 7, 8, 9, 10, 11, 12} \<or> (n = 13 \<and> 2 \<le> abi) \<or> (n = 14 \<and> 3 \<le> abi)"
  unfolding write_access_def Let_def WRITE_FILE_def REMOVE_DIR_def REMOVE_FILE_def MAKE_CHAR_def
      MAKE_DIR_def MAKE_REG_def MAKE_SOCK_def MAKE_FIFO_def MAKE_BLOCK_def MAKE_SYM_def REFER_def TRUNCATE_def
  by (simp only: bit_or_iff right_bit if_distrib [of "\<lambda>x. bit x n"] insert_iff empty_iff simp_thms split: if_split) auto


lemma rights_defs: "x = push_bit k (1 :: int) \<Longrightarrow> bit x n \<longleftrightarrow> n = k"
  by (simp only: right_bit)

lemmas right_bits =
  rights_defs [OF EXECUTE_def] rights_defs [OF WRITE_FILE_def] rights_defs [OF TRUNCATE_def]

lemma grantable_bits: "bit rights k \<Longrightarrow> (\<And>n. bit rights n \<Longrightarrow> bit handled n) \<Longrightarrow> grantable rights handled"
  by (auto simp: grantable_def bit_eq_iff bit_and_iff)

lemma grantable_known: "grantable (write_access abi OR EXECUTE) (known_rights abi)"
  by (rule grantable_bits [of _ 1])
    (auto simp: known_rights_def bit_or_iff bit_mask_iff write_access_bits right_bits split: if_splits)

lemma device_bits: "bit (WRITE_FILE OR (if k \<ge> 3 then TRUNCATE else 0)) n \<longleftrightarrow> n = 1 \<or> n = 14 \<and> 3 \<le> (k :: int)"
  by (cases "3 \<le> k") (auto simp: bit_or_iff right_bits)

lemma grantable_handled:
  "grantable (write_access abi) (write_access abi OR EXECUTE)"
  "grantable (WRITE_FILE OR (if abi \<ge> 3 then TRUNCATE else 0)) (write_access abi OR EXECUTE)"
  "grantable EXECUTE (write_access abi OR EXECUTE)"
proof -
  show "grantable (write_access abi) (write_access abi OR EXECUTE)"
    by (rule grantable_bits [of _ 1]) (simp_all add: bit_or_iff write_access_bits)
  show "grantable (WRITE_FILE OR (if abi \<ge> 3 then TRUNCATE else 0)) (write_access abi OR EXECUTE)"
  proof (rule grantable_bits [of _ 1])
    show "bit (write_access abi OR EXECUTE) n" if "bit (WRITE_FILE OR (if abi \<ge> 3 then TRUNCATE else 0)) n" for n
      using that unfolding device_bits by (auto simp: bit_or_iff write_access_bits)
  qed (simp add: device_bits del: if_split)
  show "grantable EXECUTE (write_access abi OR EXECUTE)"
    by (rule grantable_bits [of _ 0]) (simp_all add: bit_or_iff right_bits)
qed

text \<open>The rules of the launcher's ruleset, and the task it leaves.\<close>

definition launcher_rules :: "launch_host \<Rightarrow> string list \<Rightarrow> string list \<Rightarrow> string list \<Rightarrow> (string \<times> int) list" where
  "launcher_rules h write_dirs write_devices exec_files =
     map (\<lambda>p. (p, write_access (abi_version h))) write_dirs
     @ map (\<lambda>p. (p, WRITE_FILE OR (if abi_version h \<ge> 3 then TRUNCATE else 0))) (filter (hs_exists h) write_devices)
     @ map (\<lambda>p. (p, EXECUTE)) exec_files"

lemma restrict_calls_rules:
  "restrict_calls h w d e = CreateRuleset (write_access (abi_version h) OR EXECUTE)
     # map (\<lambda>(p, rights). AddRule p rights) (launcher_rules h w d e) @ [NoNewPrivs, RestrictSelf]"
  by (simp add: restrict_calls_def launcher_rules_def Let_def comp_def)

lemma launcher_rules_grantable:
  "list_all (\<lambda>(p, rights). grantable rights (write_access (abi_version h) OR EXECUTE)) (launcher_rules h w d e)"
  using grantable_handled [of "abi_version h"] unfolding launcher_rules_def list_all_iff by auto

section \<open>The programs allowed\<close>

lemma which_program_idem: "which_program h x = Some p \<Longrightarrow> which_program h p = Some p"
proof -
  assume which: "which_program h x = Some p"
  have slash: "CHR ''/'' \<in> set (os_path_join d x)" if "d \<noteq> []" for d
    using that last_in_set [of d] by (cases "last d = CHR ''/''") (simp_all add: os_path_join_def)
  have "CHR ''/'' \<in> set p"
    using which slash by (auto simp: which_program_def find_Some_iff nth_Cons split: if_splits)
  then show ?thesis by (simp add: which_program_def)
qed

lemma interpreter_loop_stands:
  "interpreter_loop h todo found = Inr ps \<Longrightarrow> list_all (stands_for h names) (todo @ found) \<Longrightarrow>
   list_all (stands_for h names) ps"
proof (induction h todo found rule: interpreter_loop.induct)
  case (1 h todo found)
  note step = interpreter_loop.simps [of h todo found]
  show ?case
  proof (cases "todo = [] \<or> length found \<ge> 8")
    case True
    then show ?thesis using 1(5,6) step by auto
  next
    case False
    then have todo: "stands_for h names (last todo)" "list_all (stands_for h names) (butlast todo)"
      using 1(6) by (auto simp: list_all_iff dest: in_set_butlastD)
    show ?thesis
    proof (cases "interpreter_of h (last todo)")
      case (Inl e)
      then show ?thesis using 1(1) [OF False Inl] 1(5,6) False step todo by (cases "is_os_error e") auto
    next
      case (Inr r)
      show ?thesis
      proof (cases r)
        case None
        then show ?thesis using 1(2) [OF False Inr None] 1(5,6) False Inr step todo by auto
      next
        case (Some p)
        then have "stands_for h names p" using todo(1) Inr by (auto intro: stands_for.interpreter)
        then show ?thesis
          using 1(3) [OF False Inr Some] 1(4) [OF False Inr Some] 1(5,6) False Inr Some step todo
          by (cases "p \<noteq> [] \<and> p \<notin> set found") auto
      qed
    qed
  qed
qed

lemma add_existing_set: "set (add_existing h ps allowed) = set allowed \<union> {p \<in> set ps. hs_exists h p}"
  unfolding add_existing_def by (induction ps arbitrary: allowed) auto

text \<open>One name adds the programs of a list: what it resolves to, and nothing it does not stand for.\<close>

lemma allowed_programs_Cons:
  assumes "allowed_programs h (x # xs) allowed = Inr ps"
  obtains qs where "allowed_programs h xs (add_existing h qs allowed) = Inr ps"
    "\<And>p. which_program h x = Some p \<Longrightarrow> hs_exists h p \<Longrightarrow> p \<in> set qs"
    "\<And>names. x \<in> set names \<Longrightarrow> list_all (stands_for h names) qs"
proof (cases "which_program h x")
  case None
  then show thesis using that [of "[]"] assms by (simp add: add_existing_def)
next
  case (Some p)
  show thesis
  proof (cases "hs_exists h p")
    case False
    then show thesis using that [of "[]"] assms Some by (simp add: add_existing_def)
  next
    case True
    then obtain qs where qs: "interpreters h p = Inr qs" "allowed_programs h xs (add_existing h (p # qs) allowed) = Inr ps"
      using assms Some by (cases "interpreters h p") simp_all
    have "list_all (stands_for h names) (p # qs)" if "x \<in> set names" for names
      using interpreter_loop_stands [of h "[p]" "[]" qs names] qs(1) stands_for.resolved [OF that Some]
      unfolding interpreters_def by simp
    then show thesis using that [of "p # qs"] qs(2) Some by simp
  qed
qed

text \<open>Everything allowed is there and something a name stands for; what the names resolve to is allowed.\<close>

lemma allowed_programs_stand:
  "allowed_programs h xs allowed = Inr ps \<Longrightarrow> set xs \<subseteq> set names \<Longrightarrow>
   \<forall>q \<in> set allowed. stands_for h names q \<and> hs_exists h q \<Longrightarrow> \<forall>q \<in> set ps. stands_for h names q \<and> hs_exists h q"
proof (induction xs arbitrary: allowed)
  case (Cons x xs)
  from allowed_programs_Cons [OF Cons.prems(1)] obtain qs where qs:
    "allowed_programs h xs (add_existing h qs allowed) = Inr ps" "x \<in> set names \<Longrightarrow> list_all (stands_for h names) qs"
    by metis
  then have "\<forall>q \<in> set (add_existing h qs allowed). stands_for h names q \<and> hs_exists h q"
    using Cons.prems(2,3) by (auto simp: add_existing_set list_all_iff)
  then show ?case using Cons.IH [OF qs(1)] Cons.prems(2) by simp
qed simp

lemma allowed_programs_mono: "allowed_programs h xs allowed = Inr ps \<Longrightarrow> set allowed \<subseteq> set ps"
proof (induction xs arbitrary: allowed)
  case (Cons x xs)
  from allowed_programs_Cons [OF Cons.prems(1)] obtain qs where
    "allowed_programs h xs (add_existing h qs allowed) = Inr ps" by metis
  from Cons.IH [OF this] show ?case by (simp add: add_existing_set)
qed simp

lemma allowed_programs_resolved:
  "allowed_programs h xs allowed = Inr ps \<Longrightarrow> x \<in> set xs \<Longrightarrow> which_program h x = Some q \<Longrightarrow> hs_exists h q \<Longrightarrow> q \<in> set ps"
proof (induction xs arbitrary: allowed)
  case (Cons y xs)
  from allowed_programs_Cons [OF Cons.prems(1)] obtain qs where qs:
    "allowed_programs h xs (add_existing h qs allowed) = Inr ps"
    "\<And>p. which_program h y = Some p \<Longrightarrow> hs_exists h p \<Longrightarrow> p \<in> set qs" by metis
  show ?case
  proof (cases "x = y")
    case True
    then have "q \<in> set (add_existing h qs allowed)" using qs(2) Cons.prems by (simp add: add_existing_set)
    then show ?thesis using allowed_programs_mono [OF qs(1)] by blast
  next
    case False
    then show ?thesis using Cons.IH [OF qs(1)] Cons.prems by simp
  qed
qed simp

text \<open>What the launcher's ruleset grants is what its arguments say.\<close>

lemma launcher_confines:
  assumes "allowed_programs h (program # la_exec a) [] = Inr allowed" "which_program h c = Some program"
    "may = grants beneath (write_access (abi_version h) OR EXECUTE, launcher_rules h (la_write a) (la_devices a) allowed)"
  shows "confined_task h a (c # la_exec a) beneath may"
proof -
  let ?names = "c # la_exec a"
  have stands: "stands_for h ?names q" if "stands_for h (program # la_exec a) q" for q
    using that by induction (use assms(2) which_program_idem [OF assms(2)] in \<open>auto intro: stands_for.intros\<close>)
  have allowed: "stands_for h ?names q \<and> hs_exists h q" if "q \<in> set allowed" for q
    using allowed_programs_stand [OF assms(1), of "program # la_exec a"] stands that by auto
  have resolved: "q \<in> set allowed" if "x \<in> set ?names" "which_program h x = Some q" "hs_exists h q" for x q
  proof (cases "x = c")
    case True
    then show ?thesis using that assms(2) allowed_programs_resolved [OF assms(1) _ which_program_idem [OF assms(2)]] by simp
  next
    case False
    then show ?thesis using that allowed_programs_resolved [OF assms(1), of x q] by simp
  qed
  let ?rules = "launcher_rules h (la_write a) (la_devices a) allowed"
  have rules: "list_ex (\<lambda>(q, rights). bit rights n \<and> beneath q p) ?rules \<longleftrightarrow>
      bit (write_access (abi_version h)) n \<and> (\<exists>d \<in> set (la_write a). beneath d p) \<or>
      (n = 1 \<or> n = 14 \<and> 3 \<le> abi_version h) \<and> (\<exists>d \<in> set (la_devices a). hs_exists h d \<and> beneath d p) \<or>
      n = 0 \<and> (\<exists>q \<in> set allowed. beneath q p)" for n p
    unfolding launcher_rules_def list_ex_iff set_append set_map bex_Un bex_simps prod.case device_bits right_bits set_filter
    by blast
  have may: "may p n \<longleftrightarrow>
      (bit (write_access (abi_version h)) n \<or> n = 0 \<longrightarrow> list_ex (\<lambda>(q, rights). bit rights n \<and> beneath q p) ?rules)" for n p
    by (simp add: assms(3) grants_def bit_or_iff right_bits)
  have writes: "bit (write_access (abi_version h)) n \<and> (n = 1 \<or> n = 14 \<and> 3 \<le> abi_version h \<longleftrightarrow> n \<in> set FILE_WRITE_RIGHTS)"
    if "n \<in> set (WRITE_RIGHTS (abi_version h))" for n
    using that by (auto simp: WRITE_RIGHTS_def FILE_WRITE_RIGHTS_def write_access_bits split: if_splits)
  have "n \<noteq> 0" if "n \<in> set (WRITE_RIGHTS k)" for n k
    using that by (auto simp: WRITE_RIGHTS_def split: if_splits)
  then have changes: "may p n \<longleftrightarrow> (\<exists>d \<in> set (la_write a). beneath d p) \<or>
      n \<in> set FILE_WRITE_RIGHTS \<and> (\<exists>d \<in> set (la_devices a). hs_exists h d \<and> beneath d p)"
    if "n \<in> set (WRITE_RIGHTS (abi_version h))" for n p
    using writes [OF that] that unfolding may rules by blast
  have execute: "may p EXECUTE_RIGHT \<longleftrightarrow> (\<exists>q \<in> set allowed. beneath q p)" for p
    by (simp add: may rules EXECUTE_RIGHT_def write_access_bits)
  have reads: "\<forall>n \<in> set READ_RIGHTS. may p n" for p
    by (simp add: may READ_RIGHTS_def write_access_bits)
  show ?thesis
    unfolding confined_task_def execute using allowed resolved changes reads by blast
qed

lemma launcher_facts:
  assumes "landlock_kernel (abi_version h) beneath step building unprivileged permits fresh"
  shows "case launcher_main h argv of (r, calls) \<Rightarrow>
     if r = Started \<or> list_ex is_exec calls
     then (case parse_args argv no_args of
             None \<Rightarrow> False
           | Some (a, command) \<Rightarrow> command \<noteq> [] \<and> confined_as beneath step unprivileged permits fresh h a command calls \<and>
               (r = Started \<longleftrightarrow> granted h [] calls))
     else list_all (\<lambda>c. \<not> is_exec c) calls"
proof -
  obtain r calls where m: "launcher_main h argv = (r, calls)" by (cases "launcher_main h argv")
  have "case parse_args argv no_args of
             None \<Rightarrow> False
           | Some (a, command) \<Rightarrow> command \<noteq> [] \<and> confined_as beneath step unprivileged permits fresh h a command calls \<and>
               (r = Started \<longleftrightarrow> granted h [] calls)"
    if ex: "r = Started \<or> list_ex is_exec calls"
  proof (cases "parse_args argv no_args")
    case None
    then show ?thesis using m ex by (auto simp: launcher_main_def)
  next
    case (Some ac)
    then obtain a x xs where ac: "parse_args argv no_args = Some (a, x # xs)"
      using m ex by (cases ac; cases "snd ac") (auto simp: launcher_main_def)
    obtain program where p: "which_program h x = Some program"
      using m ex ac by (auto simp: launcher_main_def split: option.splits)
    obtain allowed where al: "allowed_programs h (program # la_exec a) [] = Inr allowed"
      using m ex ac p by (auto simp: launcher_main_def simp del: allowed_programs.simps split: sum.splits)
    obtain cs ok where rs: "restrict_self h (la_write a) (la_devices a) allowed = (cs, ok)"
      by (cases "restrict_self h (la_write a) (la_devices a) allowed")
    let ?rc = "restrict_calls h (la_write a) (la_devices a) allowed"
    have none: "\<not> list_ex is_exec cs"
      using rs perform_no_exec restrict_calls_no_exec by (fastforce simp: restrict_self_def split: if_splits)
    have m': "launcher_main h argv = (if ok then (if hs_grants h cs (Exec program (x # xs)) then Started else Exited 126,
          cs @ [Exec program (x # xs)]) else (Exited LAUNCHER_FAILURE_EXIT, cs))"
      using ac p al rs by (cases ok) (simp_all add: launcher_main_def del: allowed_programs.simps)
    have ok using m m' ex none by (auto split: if_splits)
    then have abi: "1 \<le> abi_version h" and run: "perform h [] ?rc = (cs, True)"
      using rs by (auto simp: restrict_self_def split: if_splits)
    from perform_True [OF run] have cs: "cs = ?rc" "granted h [] ?rc" by auto
    have gr: "granted h bs (ds @ [c]) \<longleftrightarrow> granted h bs ds \<and> hs_grants h (bs @ ds) c" for bs ds c
      by (induction ds arbitrary: bs) auto
    have calls: "calls = ?rc @ [Exec program (x # xs)]" "r = Started \<longleftrightarrow> hs_grants h ?rc (Exec program (x # xs))"
      using m m' \<open>ok\<close> cs(1) by (auto split: if_splits)
    from landlock_kernel.run_restricting [OF assms grantable_known launcher_rules_grantable [of h "la_write a" "la_devices a" allowed]]
    obtain k where k: "kernel_run step ?rc fresh = Some k" "unprivileged k"
      "permits k = grants beneath (write_access (abi_version h) OR EXECUTE, launcher_rules h (la_write a) (la_devices a) allowed)"
      unfolding restrict_calls_rules by blast
    have "confined_as beneath step unprivileged permits fresh h a (x # xs) calls"
      unfolding confined_as_def list.sel calls(1)
      using abi p cs(2) k(1,2) restrict_calls_no_exec launcher_confines [OF al p k(3)]
      by (intro conjI exI [of _ program] exI [of _ ?rc] exI [of _ k]) (assumption | rule refl)+
    then show ?thesis using ac cs(2) calls gr [of "[]" ?rc "Exec program (x # xs)"] by simp
  qed
  then show ?thesis using m by (simp add: list_ex_iff list_all_iff)
qed

text \<open>
  The launcher fails closed.  If it ever asks the kernel to execute anything - let alone
  becomes the parser - its command line was read to the end, the kernel offers Landlock, and
  the calls before that one were all granted and, taken by the kernel, leave a task that can
  change the file system only under its write directories and devices and execute only what
  its command and allowlist stand for.  In every other case it ends without executing anything.
\<close>

theorem launcher_fails_closed:
  assumes "landlock_kernel (abi_version h) beneath step building unprivileged permits fresh"
  shows "case launcher_main h argv of (r, calls) \<Rightarrow>
     if r = Started \<or> list_ex is_exec calls
     then (case parse_args argv no_args of
             None \<Rightarrow> False
           | Some (a, command) \<Rightarrow> command \<noteq> [] \<and> confined_as beneath step unprivileged permits fresh h a command calls \<and>
               (r = Started \<longleftrightarrow> granted h [] calls))
     else list_all (\<lambda>c. \<not> is_exec c) calls"
  by (rule launcher_facts [OF assms])

section \<open>A kernel with these laws\<close>

record landlock_task =
  lt_no_new_privs :: bool
  lt_ruleset :: "landlock_ruleset option"
  lt_layers :: "landlock_ruleset list"

definition fresh_task :: landlock_task where
  "fresh_task = \<lparr>lt_no_new_privs = False, lt_ruleset = None, lt_layers = []\<rparr>"

fun task_step :: "int \<Rightarrow> landlock_call \<Rightarrow> landlock_task \<Rightarrow> landlock_task option" where
  "task_step abi (CreateRuleset handled) t =
     (if grantable handled (known_rights abi) then Some (t\<lparr>lt_ruleset := Some (handled, [])\<rparr>) else None)"
| "task_step abi (AddRule p rights) t =
     (case lt_ruleset t of
        None \<Rightarrow> None
      | Some (handled, rules) \<Rightarrow>
          if grantable rights handled then Some (t\<lparr>lt_ruleset := Some (handled, rules @ [(p, rights)])\<rparr>) else None)"
| "task_step abi NoNewPrivs t = Some (t\<lparr>lt_no_new_privs := True\<rparr>)"
| "task_step abi RestrictSelf t =
     (case lt_ruleset t of
        None \<Rightarrow> None
      | Some r \<Rightarrow> if lt_no_new_privs t then Some (t\<lparr>lt_layers := r # lt_layers t\<rparr>) else None)"
| "task_step abi (Exec p command) t = Some t"

definition task_permits :: "(string \<Rightarrow> string \<Rightarrow> bool) \<Rightarrow> landlock_task \<Rightarrow> string \<Rightarrow> nat \<Rightarrow> bool" where
  "task_permits beneath t p n = list_all (\<lambda>r. grants beneath r p n) (lt_layers t)"

interpretation landlock_tasks: landlock_kernel abi beneath "task_step abi" lt_ruleset lt_no_new_privs "task_permits beneath" fresh_task
  for abi beneath
  by unfold_locales (auto simp: task_permits_def fresh_task_def fun_eq_iff)

end
