(* ===== verification/Staging.thy ===== *)
theory Staging
  imports Containment
begin

text \<open>
  Staging of parser inputs and collection of parser outputs (\<open>stele/containment/staging.py\<close>,
  \<open>artifacts.py\<close>): an untrusted input is copied without following symbolic links, hashing
  exactly the bytes copied; an output directory is accepted only if everything in it is
  a regular file or a directory.  A single file is modelled with what \<open>lstat\<close> saw and what
  was then opened, which may differ; a directory tree is taken as it is while it is copied.
  Permissions are not modelled.
\<close>

section \<open>Copying one file\<close>

datatype file_kind = RegularFile | DirectoryFile | OtherFile

text \<open>\<open>os.stat_result\<close>, as far as it is read; \<open>st_reparse\<close> is \<open>_is_link_or_reparse_point\<close>.\<close>

record stat =
  st_kind :: file_kind
  st_dev :: int
  st_ino :: int
  st_reparse :: bool

text \<open>The descriptor's \<open>fstat\<close>, its content, and what was observed before: the digest of the copy.\<close>

definition copy_verified :: "bool \<Rightarrow> stat \<Rightarrow> string \<Rightarrow> stat \<Rightarrow> string result" where
  "copy_verified race_free opened content observed =
     (if st_kind opened \<noteq> RegularFile then Inl InputStagingError
      else if (st_dev opened, st_ino opened) \<noteq> (st_dev observed, st_ino observed) then Inl InputStagingError
      else if \<not> race_free \<and> st_ino opened = 0 then Inl InputStagingError
      else Inr (sha256 content))"

text \<open>A staged input with the node its staged path names; the path ends in \<open>staged_name\<close>.\<close>

record staged_copy = staged_input +
  staged_name :: string
  staged_node :: node

text \<open>\<open>None\<close> is an \<open>OSError\<close> of \<open>lstat\<close> or \<open>open\<close>.\<close>

definition stage_regular_file ::
  "bool \<Rightarrow> string \<Rightarrow> stat option \<Rightarrow> (stat \<times> string) option \<Rightarrow> staged_copy result" where
  "stage_regular_file race_free name observed opened =
     (case observed of
        None \<Rightarrow> Inl InputStagingError
      | Some ob \<Rightarrow>
          if st_kind ob \<noteq> RegularFile \<or> st_reparse ob then Inl InputStagingError
          else (case opened of
                  None \<Rightarrow> Inl InputStagingError
                | Some (st, content) \<Rightarrow>
                    map_sum id (\<lambda>d. \<lparr>staged_sha256 = d, staged_manifest = [], staged_name = name, staged_node = Reg content\<rparr>)
                      (copy_verified race_free st content ob)))"

section \<open>Copying a tree\<close>

definition is_plain :: "node \<Rightarrow> bool" where
  "is_plain n = (case n of Reg _ \<Rightarrow> True | Folder _ \<Rightarrow> True | _ \<Rightarrow> False)"

definition files_in :: "(string \<times> node) list \<Rightarrow> (string \<times> string) list" where
  "files_in es = concat (map (\<lambda>(name, n). case n of Reg b \<Rightarrow> [(name, b)] | _ \<Rightarrow> []) es)"

text \<open>
  \<open>_copy_tree\<close>: each directory's entries are checked and its files copied before its
  subdirectories are walked.  The names of a directory are distinct, so the manifest's keys
  are too and assigning one appends it.
\<close>

definition entry_path :: "string list \<Rightarrow> string \<Rightarrow> string" where
  "entry_path pre name = joins ''/'' (pre @ [name])"

function (sequential) copy_folder :: "string list \<Rightarrow> (string \<times> node) list \<Rightarrow> ((string \<times> node) list \<times> manifest) result"
  and copy_folders :: "string list \<Rightarrow> (string \<times> node) list \<Rightarrow> ((string \<times> node) list \<times> manifest) result" where
  "copy_folder pre es =
     (if \<not> list_all (\<lambda>(_, n). is_plain n) es then Inl InputStagingError
      else map_sum id
             (\<lambda>(ds, m). (ds @ map (\<lambda>(name, b). (name, Reg b)) (files_in es),
                         map (\<lambda>(name, b). (entry_path pre name, sha256 b)) (files_in es) @ m))
             (copy_folders pre es))"
| "copy_folders pre [] = Inr ([], [])"
| "copy_folders pre ((name, Folder sub) # es) =
     (case copy_folder (pre @ [name]) sub of
        Inl e \<Rightarrow> Inl e
      | Inr (ns, m) \<Rightarrow> map_sum id (\<lambda>(ds, m'). ((name, Folder ns) # ds, m @ m')) (copy_folders pre es))"
| "copy_folders pre (_ # es) = copy_folders pre es"
  by pat_completeness auto
termination
  by (relation "measure (\<lambda>x. case x of Inl (_, es) \<Rightarrow> 2 * size_list (size_prod (\<lambda>_. 0) size) es + 1
                                      | Inr (_, es) \<Rightarrow> 2 * size_list (size_prod (\<lambda>_. 0) size) es)") auto

definition stage_directory :: "string \<Rightarrow> (string \<times> node) list \<Rightarrow> staged_copy result" where
  "stage_directory name es =
     (case copy_folder [] es of
        Inl e \<Rightarrow> Inl e
      | Inr (ns, m) \<Rightarrow>
          map_sum id
            (\<lambda>d. \<lparr>staged_sha256 = d, staged_manifest = m, staged_name = (if name = [] then ''input'' else name),
                  staged_node = Folder ns\<rparr>)
            (sha256_manifest m))"

text \<open>What \<open>lstat\<close> says of a node; identity numbers are the same whenever the node is.\<close>

definition stat_of :: "node \<Rightarrow> stat" where
  "stat_of n =
     \<lparr>st_kind = (case n of Reg _ \<Rightarrow> RegularFile | Folder _ \<Rightarrow> DirectoryFile | _ \<Rightarrow> OtherFile),
      st_dev = 1, st_ino = 1, st_reparse = (case n of Link _ \<Rightarrow> True | _ \<Rightarrow> False)\<rparr>"

definition open_of :: "node \<Rightarrow> (stat \<times> string) option" where
  "open_of n = (case n of Reg b \<Rightarrow> Some (stat_of n, b) | Folder _ \<Rightarrow> Some (stat_of n, []) | _ \<Rightarrow> None)"

definition stage_input :: "string \<Rightarrow> node option \<Rightarrow> staged_copy result" where
  "stage_input name source =
     (case source of
        None \<Rightarrow> Inl InputStagingError
      | Some (Folder es) \<Rightarrow> stage_directory name es
      | Some n \<Rightarrow> stage_regular_file True name (Some (stat_of n)) (open_of n))"

section \<open>Trees\<close>

text \<open>The regular files of a tree, by the names that lead to them; trees of files and directories only.\<close>

primrec leaves :: "node \<Rightarrow> (string list \<times> string) list" where
  "leaves (Reg b) = [([], b)]"
| "leaves (Link t) = []"
| "leaves Special = []"
| "leaves (Folder es) = concat (map (\<lambda>(name, ls). map (\<lambda>(q, b). (name # q, b)) ls) (map (map_prod id leaves) es))"

primrec plain_tree :: "node \<Rightarrow> bool" where
  "plain_tree (Reg b) = True"
| "plain_tree (Link t) = False"
| "plain_tree Special = False"
| "plain_tree (Folder es) = list_all snd (map (map_prod id plain_tree) es)"

text \<open>Names a POSIX file system can hold, distinct in each directory.\<close>

definition valid_name :: "string \<Rightarrow> bool" where
  "valid_name s \<longleftrightarrow> s \<noteq> [] \<and> s \<noteq> ''.'' \<and> s \<noteq> ''..'' \<and> CHR ''/'' \<notin> set s \<and> nul \<notin> set s"

primrec posix_tree :: "node \<Rightarrow> bool" where
  "posix_tree (Reg b) = True"
| "posix_tree (Link t) = True"
| "posix_tree Special = True"
| "posix_tree (Folder es) =
     (distinct (map fst es) \<and> list_all (\<lambda>(name, ok). valid_name name \<and> ok) (map (map_prod id posix_tree) es))"

definition under :: "string \<Rightarrow> (string list \<times> string) list \<Rightarrow> (string list \<times> string) list" where
  "under name ls = map (\<lambda>(q, b). (name # q, b)) ls"

definition leaves_of :: "(string \<times> node) list \<Rightarrow> (string list \<times> string) list" where
  "leaves_of es = concat (map (\<lambda>(name, n). under name (leaves n)) es)"

lemma leaves_Folder: "leaves (Folder es) = leaves_of es"
  unfolding leaves_of_def leaves.simps by (simp add: under_def case_prod_unfold comp_def)

lemma leaves_of_simps [simp]:
  "leaves_of [] = []" "leaves_of ((name, n) # es) = under name (leaves n) @ leaves_of es"
  "leaves_of (es @ fs) = leaves_of es @ leaves_of fs"
  by (simp_all add: leaves_of_def)

lemma plain_tree_Folder: "plain_tree (Folder es) \<longleftrightarrow> list_all (\<lambda>(_, n). plain_tree n) es"
  by (simp add: list_all_iff case_prod_beta)

lemma posix_tree_Folder:
  "posix_tree (Folder es) \<longleftrightarrow>
     distinct (map fst es) \<and> (\<forall>(name, n) \<in> set es. valid_name name \<and> posix_tree n)"
  by (simp add: list_all_iff case_prod_beta)

declare leaves.simps(4) [simp del] plain_tree.simps(4) [simp del] posix_tree.simps(4) [simp del]
declare leaves_Folder [simp]

lemma leaves_files: "leaves_of (map (\<lambda>(name, b). (name, Reg b)) fs) = map (\<lambda>(name, b). ([name], b)) fs"
  by (induction fs) (auto simp: under_def)

text \<open>The files of a directory first, then those of its subdirectories.\<close>

definition below :: "(string \<times> node) list \<Rightarrow> (string list \<times> string) list" where
  "below es = concat (map (\<lambda>(name, n). case n of Folder sub \<Rightarrow> under name (leaves_of sub) | _ \<Rightarrow> []) es)"

lemma mset_leaves_split:
  "mset (leaves_of es) = mset (map (\<lambda>(name, b). ([name], b)) (files_in es)) + mset (below es)"
proof (induction es)
  case (Cons e es)
  obtain name n where e: "e = (name, n)" by (cases e)
  show ?case using Cons by (cases n) (simp_all add: e files_in_def below_def under_def)
qed (simp add: files_in_def below_def)

definition manifest_of_leaves :: "string list \<Rightarrow> (string list \<times> string) list \<Rightarrow> manifest" where
  "manifest_of_leaves pre ls = map (\<lambda>(q, b). (joins ''/'' (pre @ q), sha256 b)) ls"

lemma manifest_under:
  "manifest_of_leaves pre (under name ls) = manifest_of_leaves (pre @ [name]) ls"
  by (simp add: manifest_of_leaves_def under_def case_prod_beta comp_def)

lemma mset_under: "mset xs = mset ys \<Longrightarrow> mset (under name xs) = mset (under name ys)"
  by (simp add: under_def)

lemma copy_folder_leaves:
  "copy_folder pre es = Inr (ns, m) \<Longrightarrow>
     list_all (\<lambda>(_, n). plain_tree n) es \<and> mset (leaves_of ns) = mset (leaves_of es) \<and>
     mset m = mset (manifest_of_leaves pre (leaves_of es))"
  "copy_folders pre es = Inr (ns, m) \<Longrightarrow> list_all (\<lambda>(_, n). is_plain n) es \<Longrightarrow>
     list_all (\<lambda>(_, n). plain_tree n) es \<and> mset (leaves_of ns) = mset (below es) \<and>
     mset m = mset (manifest_of_leaves pre (below es))"
proof (induction pre es and pre es arbitrary: ns m and ns m rule: copy_folder_copy_folders.induct)
  case (1 pre es)
  from 1(2) obtain ds m' where c: "copy_folders pre es = Inr (ds, m')" "list_all (\<lambda>(_, n). is_plain n) es"
    and ns: "ns = ds @ map (\<lambda>(name, b). (name, Reg b)) (files_in es)"
    and m: "m = map (\<lambda>(name, b). (entry_path pre name, sha256 b)) (files_in es) @ m'"
    by (auto simp: map_sum_Inr_iff split: if_splits)
  note ih = 1(1) [OF _ c(1) c(2)]
  have "manifest_of_leaves pre (map (\<lambda>(name, b). ([name], b)) (files_in es)) =
      map (\<lambda>(name, b). (entry_path pre name, sha256 b)) (files_in es)"
    by (simp add: manifest_of_leaves_def entry_path_def case_prod_beta comp_def)
  moreover have "mset (manifest_of_leaves pre (leaves_of es)) =
      mset (manifest_of_leaves pre (map (\<lambda>(name, b). ([name], b)) (files_in es))) + mset (manifest_of_leaves pre (below es))"
    using mset_leaves_split [of es] by (simp add: manifest_of_leaves_def multiset.map_comp)
  ultimately show ?case
    using ih c(2) by (simp add: ns m leaves_files mset_leaves_split [of es])
next
  case (3 pre name sub es)
  from 3(3) obtain xs k ds m' where c: "copy_folder (pre @ [name]) sub = Inr (xs, k)" "copy_folders pre es = Inr (ds, m')"
    and ns: "ns = (name, Folder xs) # ds" "m = k @ m'"
    by (auto simp: map_sum_Inr_iff simp del: copy_folder.simps split: sum.splits)
  have all: "list_all (\<lambda>(_, n). is_plain n) es" using 3(4) by simp
  note sub = 3(1) [OF c(1)] and rest = 3(2) [OF c(1) refl c(2) all]
  have b: "below ((name, Folder sub) # es) = under name (leaves_of sub) @ below es" by (simp add: below_def)
  have ml: "manifest_of_leaves pre (xs @ ys) = manifest_of_leaves pre xs @ manifest_of_leaves pre ys" for xs ys
    by (simp add: manifest_of_leaves_def)
  show ?case
    unfolding ns b ml manifest_under mset_append list.pred_inject prod.case plain_tree_Folder leaves_of_simps leaves_Folder
    using sub rest mset_under [of "leaves_of xs" "leaves_of sub"] by simp
qed (simp_all add: below_def manifest_of_leaves_def is_plain_def)

lemma copy_folder_total:
  "list_all (\<lambda>(_, n). plain_tree n) es \<Longrightarrow> \<exists>r. copy_folder pre es = Inr r"
  "list_all (\<lambda>(_, n). plain_tree n) es \<Longrightarrow> \<exists>r. copy_folders pre es = Inr r"
proof (induction pre es and pre es rule: copy_folder_copy_folders.induct)
  case (1 pre es)
  have "is_plain n" if "plain_tree n" for n using that by (cases n) (simp_all add: is_plain_def)
  then have p: "list_all (\<lambda>(_, n). is_plain n) es" using 1(2) by (auto simp: list_all_iff)
  then obtain r where "copy_folders pre es = Inr r" using 1 by auto
  with p show ?case by (cases r) simp
next
  case (3 pre name sub es)
  then obtain xs k where a: "copy_folder (pre @ [name]) sub = Inr (xs, k)"
    by (auto simp: plain_tree_Folder simp del: copy_folder.simps)
  have "list_all (\<lambda>(_, n). plain_tree n) es" using 3(3) by simp
  from 3(2) [OF a refl this] a show ?case by (auto simp del: copy_folder.simps)
qed simp_all

lemma copy_folder_error:
  "copy_folder pre es = Inl e \<Longrightarrow> e = InputStagingError"
  "copy_folders pre es = Inl e \<Longrightarrow> e = InputStagingError"
proof (induction pre es and pre es rule: copy_folder_copy_folders.induct)
  case (1 pre es)
  then show ?case by (cases "copy_folders pre es") (auto split: if_splits)
next
  case (3 pre name sub es)
  then show ?case
    by (cases "copy_folder (pre @ [name]) sub"; cases "copy_folders pre es")
      (auto simp del: copy_folder.simps split: prod.splits)
qed simp_all

definition is_folder :: "node \<Rightarrow> bool" where
  "is_folder n = (case n of Folder _ \<Rightarrow> True | _ \<Rightarrow> False)"

lemma files_in_names: "map fst (files_in es) = map fst (filter (\<lambda>(_, n). case n of Reg _ \<Rightarrow> True | _ \<Rightarrow> False) es)"
  by (induction es) (auto simp: files_in_def split: node.splits)

lemma plain_names:
  "list_all (\<lambda>(_, n). is_plain n) es \<Longrightarrow>
   mset (map fst (filter (\<lambda>(_, n). is_folder n) es)) + mset (map fst (files_in es)) = mset (map fst es)"
  unfolding files_in_names by (induction es) (auto simp: is_plain_def is_folder_def split: node.splits)

lemma copy_folder_posix:
  "copy_folder pre es = Inr (ns, m) \<Longrightarrow> posix_tree (Folder es) \<Longrightarrow> posix_tree (Folder ns)"
  "copy_folders pre es = Inr (ns, m) \<Longrightarrow> (\<forall>(name, n) \<in> set es. valid_name name \<and> posix_tree n) \<Longrightarrow>
     map fst ns = map fst (filter (\<lambda>(_, n). is_folder n) es) \<and> (\<forall>(name, n) \<in> set ns. valid_name name \<and> posix_tree n)"
proof (induction pre es and pre es arbitrary: ns m and ns m rule: copy_folder_copy_folders.induct)
  case (1 pre es)
  from 1(2) obtain ds m' where c: "copy_folders pre es = Inr (ds, m')" "list_all (\<lambda>(_, n). is_plain n) es"
    and ns: "ns = ds @ map (\<lambda>(name, b). (name, Reg b)) (files_in es)"
    by (auto simp: map_sum_Inr_iff split: if_splits)
  have e: "distinct (map fst es)" "\<forall>(name, n) \<in> set es. valid_name name \<and> posix_tree n"
    using 1(3) by (simp_all add: posix_tree_Folder)
  note ih = 1(1) [OF _ c(1) e(2)]
  have "map fst ns = map fst (filter (\<lambda>(_, n). is_folder n) es) @ map fst (files_in es)"
    using ih c(2) by (simp add: ns case_prod_unfold comp_def)
  then have "mset (map fst ns) = mset (map fst es)" using plain_names [OF c(2)] by simp
  then have "distinct (map fst ns)" using e(1) mset_eq_imp_distinct_iff by blast
  moreover have "\<forall>(name, n) \<in> set ns. valid_name name \<and> posix_tree n"
  proof -
    have "set (files_in es) \<subseteq> {(name, b). (name, Reg b) \<in> set es}"
      by (auto simp: files_in_def split: node.splits)
    then have "\<forall>(name, b) \<in> set (files_in es). valid_name name" using e(2) by fastforce
    then show ?thesis using ih c(2) by (auto simp: ns)
  qed
  ultimately show ?case by (simp add: posix_tree_Folder)
next
  case (3 pre name sub es)
  from 3(3) obtain xs k ds m' where c: "copy_folder (pre @ [name]) sub = Inr (xs, k)" "copy_folders pre es = Inr (ds, m')"
    and ns: "ns = (name, Folder xs) # ds"
    by (auto simp: map_sum_Inr_iff simp del: copy_folder.simps split: sum.splits)
  show ?case using 3(1) [OF c(1)] 3(2) [OF c(1) refl c(2)] 3(4) by (simp add: ns is_folder_def)
qed (simp_all add: is_folder_def)

lemma leaves_node_at: "posix_tree n \<Longrightarrow> (q, b) \<in> set (leaves n) \<longleftrightarrow> node_at n q = Some (Reg b)"
proof (induction n arbitrary: q)
  case (Folder es)
  have d: "distinct (map fst es)" using Folder.prems by (simp add: posix_tree_Folder)
  show ?case
  proof (cases q)
    case (Cons name rest)
    have "(q, b) \<in> set (leaves (Folder es)) \<longleftrightarrow> (\<exists>n. (name, n) \<in> set es \<and> (rest, b) \<in> set (leaves n))"
      unfolding leaves_Folder leaves_of_def Cons by (force simp: under_def)
    also have "\<dots> \<longleftrightarrow> (\<exists>n. map_of es name = Some n \<and> node_at n rest = Some (Reg b))"
    proof -
      have "posix_tree n" if "(name, n) \<in> set es" for n using Folder.prems that by (auto simp: posix_tree_Folder)
      then have "(rest, b) \<in> set (leaves n) \<longleftrightarrow> node_at n rest = Some (Reg b)" if "(name, n) \<in> set es" for n
        using Folder.IH [of "(name, n)" n rest] that by simp
      then show ?thesis using d by (metis map_of_eq_Some_iff)
    qed
    finally show ?thesis by (simp add: Cons split: option.split)
  qed (auto simp: leaves_of_def under_def)
next
  case (Reg c)
  show ?case by (cases q) auto
next
  case (Link t)
  show ?case by (cases q) auto
next
  case Special
  show ?case by (cases q) auto
qed

lemma leaf_paths:
  "posix_tree n \<Longrightarrow> (q, b) \<in> set (leaves n) \<Longrightarrow> \<forall>w \<in> set q. valid_name w"
proof (induction n arbitrary: q)
  case (Folder es)
  then obtain name c r where c: "(name, c) \<in> set es" "q = name # r" "(r, b) \<in> set (leaves c)"
    by (auto simp: leaves_of_def under_def)
  with Folder.IH [of "(name, c)" c r] Folder.prems(1) show ?case by (auto simp: posix_tree_Folder)
qed auto

lemma distinct_leaves: "posix_tree n \<Longrightarrow> distinct (map fst (leaves n))"
proof (induction n)
  case (Folder es)
  have inj: "map fst (under name ls) = map ((#) name) (map fst ls)" for name ls
    by (simp add: under_def case_prod_unfold comp_def)
  have "distinct (map fst es) \<Longrightarrow> \<forall>(name, n) \<in> set es. distinct (map fst (leaves n)) \<Longrightarrow> distinct (map fst (leaves_of es))" for es
  proof (induction es)
    case (Cons e es)
    obtain name n where e: "e = (name, n)" by (cases e)
    have "set (map fst (under name (leaves n))) \<inter> set (map fst (leaves_of es)) = {}"
      using Cons.prems(1) by (force simp: e under_def leaves_of_def)
    moreover have "distinct (map fst (under name (leaves n)))"
      unfolding inj distinct_map [of "(#) name"] using Cons.prems(2) by (simp add: e)
    moreover have "distinct (map fst (leaves_of es))" using Cons by (simp add: e)
    ultimately show ?case unfolding e leaves_of_simps map_append distinct_append by blast
  qed simp
  then show ?case using Folder by (fastforce simp: posix_tree_Folder)
qed auto

lemma split_joins_names:
  "q \<noteq> [] \<Longrightarrow> \<forall>w \<in> set q. valid_name w \<Longrightarrow> split_on (CHR ''/'') (joins ''/'' q) = q"
  by (rule split_on_joins) (auto simp: valid_name_def)

lemma leaf_nonempty: "(q, b) \<in> set (leaves_of es) \<Longrightarrow> q \<noteq> []"
  by (auto simp: leaves_of_def under_def)

lemma distinct_manifest_of_leaves:
  assumes "posix_tree (Folder es)"
  shows "distinct (map fst (manifest_of_leaves [] (leaves_of es)))"
proof -
  have "inj_on (joins ''/'') (fst ` set (leaves_of es))"
  proof (rule inj_onI)
    fix q r assume q: "q \<in> fst ` set (leaves_of es)" and r: "r \<in> fst ` set (leaves_of es)"
      and eq: "joins ''/'' q = joins ''/'' r"
    have "split_on (CHR ''/'') (joins ''/'' x) = x" if "x \<in> fst ` set (leaves_of es)" for x
      using that leaf_nonempty leaf_paths [OF assms] by (intro split_joins_names) fastforce+
    with q r eq show "q = r" by metis
  qed
  then have "distinct (map (joins ''/'') (map fst (leaves_of es)))"
    unfolding distinct_map [of "joins ''/''"] using distinct_leaves [OF assms] by simp
  then show ?thesis by (simp add: manifest_of_leaves_def case_prod_unfold comp_def)
qed

lemma path_of_names:
  assumes "q \<noteq> []" "\<forall>w \<in> set q. valid_name w"
  shows "path_of (joins ''/'' q) = \<lparr>path_root = [], path_parts = q\<rparr>"
proof -
  note sp = split_joins_names [OF assms]
  obtain w ws where q: "q = w # ws" using assms(1) by (cases q) auto
  have "\<not> starts_with ''/'' (joins ''/'' q)"
  proof
    assume "starts_with ''/'' (joins ''/'' q)"
    then obtain t where "joins ''/'' q = CHR ''/'' # t" by (auto simp: starts_with_def prefix_def)
    then have "hd q = []" using sp by (metis list.sel(1) split_on.simps(2))
    then show False using assms by (simp add: q valid_name_def)
  qed
  moreover from this have "\<not> starts_with ''//'' (joins ''/'' q)"
    by (auto simp: starts_with_def prefix_def)
  moreover have "filter (\<lambda>p. p \<noteq> [] \<and> p \<noteq> ''.'') q = q"
    using assms(2) by (auto simp: valid_name_def filter_id_conv)
  ultimately show ?thesis by (simp add: path_of_def sp)
qed
lemma staged_folder:
  assumes "stage_input name (Some (Folder es)) = Inr c" "posix_tree (Folder es)"
  shows "\<exists>ns. staged_node c = Folder ns \<and> posix_tree (Folder ns) \<and> mset (leaves_of ns) = mset (leaves_of es)"
    and "mset (staged_manifest c) = mset (manifest_of_leaves [] (leaves_of es))"
    and "sha256_manifest (staged_manifest c) = Inr (staged_sha256 c)" "distinct (map fst (staged_manifest c))"
proof -
  from assms(1) obtain ns m where cf: "copy_folder [] es = Inr (ns, m)" and c: "sha256_manifest m = Inr (staged_sha256 c)"
    "staged_manifest c = m" "staged_node c = Folder ns"
    by (auto simp: stage_input_def stage_directory_def map_sum_Inr_iff simp del: copy_folder.simps split: sum.splits)
  note l = copy_folder_leaves(1) [OF cf]
  show "\<exists>ns. staged_node c = Folder ns \<and> posix_tree (Folder ns) \<and> mset (leaves_of ns) = mset (leaves_of es)"
    using c l copy_folder_posix(1) [OF cf assms(2)] by blast
  show m: "mset (staged_manifest c) = mset (manifest_of_leaves [] (leaves_of es))" using l c by simp
  show "sha256_manifest (staged_manifest c) = Inr (staged_sha256 c)" using c by simp
  have "mset (map fst (staged_manifest c)) = mset (map fst (manifest_of_leaves [] (leaves_of es)))"
    using m by simp
  then show "distinct (map fst (staged_manifest c))"
    using distinct_manifest_of_leaves [OF assms(2)] mset_eq_imp_distinct_iff by blast
qed

text \<open>
  A file of a folder and what the store holds under its digest are two texts with the same SHA-256.
\<close>

definition blob_collision :: "archive \<Rightarrow> string \<Rightarrow> bool" where
  "blob_collision s b \<longleftrightarrow> (\<exists>b'. read_blob s (sha256 b) = Inr b' \<and> collision b b')"

text \<open>A manifest of a tree's files, read from the store, describes that tree.\<close>

lemma stored_leaves:
  assumes mat: "materialize_snapshot s x None = (Inr (), Some n')" "snap_kind x = TREE"
    and tree: "read_tree s (snap_digest x) = Inr mm" "set mm = set (manifest_of_leaves [] (leaves_of es))"
    and es: "posix_tree (Folder es)"
  shows "(\<forall>q b. node_at n' q = Some (Reg b) \<longleftrightarrow> (q, b) \<in> set (leaves_of es)) \<or>
    (\<exists>q b. (q, b) \<in> set (leaves_of es) \<and> blob_collision s b)"
proof (rule disjCI)
  assume nc: "\<nexists>q b. (q, b) \<in> set (leaves_of es) \<and> blob_collision s b"
  have inj: "b' = b" if "(q, b) \<in> set (leaves_of es)" "read_blob s (sha256 b) = Inr b'" for q b b'
    using that nc read_blob_digest [OF that(2)] sha256_eqD [of b b'] unfolding blob_collision_def by metis
  have split: "split_on (CHR ''/'') (joins ''/'' q) = q" if "(q, b) \<in> set (leaves_of es)" for q b
    using that leaf_paths [OF es, of q b] leaf_nonempty by (intro split_joins_names) auto
  have f: "\<forall>(p, d) \<in> set mm. \<exists>b. node_at n' (split_on (CHR ''/'') p) = Some (Reg b) \<and> read_blob s d = Inr b"
    "\<forall>q b. node_at n' q = Some (Reg b) \<longrightarrow> (\<exists>(p, d) \<in> set mm. q = split_on (CHR ''/'') p \<and> read_blob s d = Inr b)"
    using materialize_facts [of s x] mat tree(1) by auto
  have there: "node_at n' q = Some (Reg b)" if leaf: "(q, b) \<in> set (leaves_of es)" for q b
  proof -
    have "(joins ''/'' q, sha256 b) \<in> set mm" using leaf tree(2) by (force simp: manifest_of_leaves_def)
    then obtain b' where "node_at n' q = Some (Reg b')" "read_blob s (sha256 b) = Inr b'"
      using f(1) split [OF leaf] by fastforce
    then show ?thesis using inj [OF leaf] by blast
  qed
  have "(q, b) \<in> set (leaves_of es)" if nb: "node_at n' q = Some (Reg b)" for q b
  proof -
    obtain p d where p: "(p, d) \<in> set mm" "q = split_on (CHR ''/'') p" "read_blob s d = Inr b" using f(2) nb by blast
    then obtain r c where r: "(r, c) \<in> set (leaves_of es)" "p = joins ''/'' r" "d = sha256 c"
      using tree(2) by (force simp: manifest_of_leaves_def)
    have "b = c" using inj [OF r(1)] p(3) r(3) by simp
    moreover have "q = r" using p(2) r(2) split [OF r(1)] by simp
    ultimately show ?thesis using r(1) by simp
  qed
  with there show "\<forall>q b. node_at n' q = Some (Reg b) \<longleftrightarrow> (q, b) \<in> set (leaves_of es)" by blast
qed

section \<open>What staging does\<close>

text \<open>
  C12.  Staging an input copies it faithfully or refuses it.  What is staged has only regular files
  and directories, no link or device anywhere; the staged copy holds the same files with the
  same bytes; and the staged hash is that of the file, or of the manifest that names each file
  of the tree with the hash of its bytes.  It is refused only if the input has anything else
  in it, or a file name that is not UTF-8.
\<close>

theorem stage_input_faithful:
  "case stage_input name (Some n) of
     Inr c \<Rightarrow> plain_tree n \<and> mset (leaves (staged_node c)) = mset (leaves n) \<and>
       (case n of
          Folder es \<Rightarrow> mset (staged_manifest c) = mset (manifest_of_leaves [] (leaves n)) \<and>
            sha256_manifest (staged_manifest c) = Inr (staged_sha256 c)
        | _ \<Rightarrow> n = staged_node c \<and> staged_manifest c = [] \<and> (\<exists>b. n = Reg b \<and> staged_sha256 c = sha256 b))
   | Inl e \<Rightarrow>
       if plain_tree n then e = UnicodeError \<and> list_ex (\<lambda>(q, b). \<not> utf8_ok (joins ''/'' q)) (leaves n)
       else e = InputStagingError"
proof (cases n)
  case (Folder es)
  show ?thesis
  proof (cases "copy_folder [] es")
    case (Inl e)
    then have "e = InputStagingError" by (rule copy_folder_error(1))
    moreover have "\<not> plain_tree n" using copy_folder_total(1) [of es "[]"] Inl Folder by (auto simp: plain_tree_Folder)
    ultimately show ?thesis using Inl Folder by (simp add: stage_input_def stage_directory_def)
  next
    case (Inr r)
    obtain ns m where r: "r = (ns, m)" by (cases r)
    note l = copy_folder_leaves(1) [OF Inr [unfolded r]]
    have p: "plain_tree n" using l by (simp add: Folder plain_tree_Folder)
    show ?thesis
    proof (cases "sha256_manifest m")
      case (Inl e)
      have "\<not> list_all (\<lambda>(p, d). utf8_ok p \<and> utf8_ok d) m" "e = UnicodeError"
        using Inl by (auto simp: sha256_manifest_def encode_manifest_def split: if_splits)
      then obtain p d where "(p, d) \<in> set m" "\<not> utf8_ok p \<or> \<not> utf8_ok d" by (auto simp: list_all_iff)
      moreover have "set m = set (manifest_of_leaves [] (leaves_of es))" using l mset_eq_setD by blast
      ultimately have "list_ex (\<lambda>(q, b). \<not> utf8_ok (joins ''/'' q)) (leaves n)"
        by (force simp: Folder manifest_of_leaves_def list_ex_iff is_digest_utf8 [OF is_digest_sha256])
      then show ?thesis using Inl Inr r p \<open>e = UnicodeError\<close> by (simp add: Folder stage_input_def stage_directory_def)
    next
      case (Inr d)
      then show ?thesis
        using \<open>copy_folder [] es = Inr r\<close> r p l by (simp add: Folder stage_input_def stage_directory_def)
    qed
  qed
qed (simp_all add: stage_input_def stage_regular_file_def stat_of_def open_of_def copy_verified_def)

text \<open>
  Evidence of an input can be put back: stage an input, record the staged copy as a snapshot,
  and later - whatever else was stored meanwhile - write the snapshot out again: the files
  written are exactly the files of the original input, each with its bytes - unless a file, or
  the listing of the files, and what the store has under its digest are two texts with one SHA-256.
\<close>

theorem staged_input_roundtrip:
  assumes "stage_input name (Some n) = Inr c" "posix_tree n"
    and "snapshot_staged_input (Some (staged_node c)) (staged_input.truncate c) s = (Inr x, s1)" "extends s1 s2"
    and "materialize_snapshot s2 x None = (Inr (), Some n')"
  shows "(\<forall>q b. node_at n' q = Some (Reg b) \<longleftrightarrow> node_at n q = Some (Reg b)) \<or>
    (\<exists>q b. node_at n q = Some (Reg b) \<and> blob_collision s2 b) \<or> tree_collision s2 (snap_digest x) (staged_manifest c)"
proof (cases n)
  case (Folder es)
  note st = staged_folder [OF assms(1) [unfolded Folder] assms(2) [unfolded Folder]]
  let ?m = "staged_manifest (staged_input.truncate c)"
  have m: "?m = staged_manifest c" by (simp add: staged_input.truncate_def)
  have d: "distinct (map fst ?m)" using st(4) m by simp
  obtain ns where ns: "staged_node c = Folder ns" using st(1) by blast
  note facts = snapshot_staged_facts [OF assms(3) d]
  have kind: "snap_kind x = TREE" using facts ns by (auto split: snapshot_kind.splits)
  then have tr: "tree_ok ?m" "sha256_manifest ?m = Inr (snap_digest x)"
    and content: "snapshot_content s1 x \<or> tree_collision s1 (snap_digest x) ?m" using facts by auto
  from content show ?thesis
  proof
    assume "snapshot_content s1 x"
    then obtain blob where "read_blob s1 (snap_digest x) = Inr blob"
      using kind by (auto simp: snapshot_content_def read_tree_def split: sum.splits)
    then have "read_blob s2 (snap_digest x) = Inr blob" using assms(4) extends_read_blob by blast
    from read_stored_tree [OF tr this] show ?thesis
    proof
      assume t: "read_tree s2 (snap_digest x) = Inr (sort_key fst ?m)"
      have "set (sort_key fst ?m) = set (manifest_of_leaves [] (leaves_of es))"
        using mset_eq_setD [OF st(2)] m by simp
      from stored_leaves [OF assms(5) kind t this] assms(2) show ?thesis
        using leaves_node_at [OF assms(2)] by (auto simp: Folder)
    qed (simp add: m)
  qed (use tree_collision_extends [OF assms(4)] m in simp)
next
  case (Reg b)
  then have c: "staged_node c = Reg b" "staged_manifest (staged_input.truncate c) = []"
    using assms(1) by (auto simp: stage_input_def stage_regular_file_def stat_of_def open_of_def map_sum_Inr_iff
        staged_input.truncate_def)
  then have "snap_kind x = FILE" "snap_digest x = sha256 b"
    using snapshot_staged_facts [OF assms(3)] by (auto split: snapshot_kind.splits)
  then obtain b' where b': "n' = Reg b'" "read_blob s2 (sha256 b) = Inr b'"
    using materialize_facts [of s2 x] assms(5) by auto
  then have "b' = b \<or> blob_collision s2 b"
    using read_blob_digest [OF b'(2)] sha256_eqD [of b b'] unfolding blob_collision_def by metis
  moreover have "node_at n [] = Some (Reg b)" by (simp add: Reg)
  ultimately show ?thesis using b'(1) Reg by (metis (no_types))
qed (use assms(1) in \<open>simp_all add: stage_input_def stage_regular_file_def stat_of_def\<close>)

theorem staged_input_roundtrip_witness:
  "\<exists>c x s. stage_input ''a'' (Some (Reg ''x'')) = Inr c \<and>
     snapshot_staged_input (Some (staged_node c)) (staged_input.truncate c) (\<lambda>p. None) = (Inr x, s) \<and>
     materialize_snapshot s x None = (Inr (), Some (Reg ''x''))"
proof -
  let ?c = "\<lparr>staged_sha256 = sha256 ''x'', staged_manifest = [], staged_name = ''a'', staged_node = Reg ''x''\<rparr>"
  let ?x = "\<lparr>snap_kind = FILE, snap_digest = sha256 ''x'', snap_size = 1, snap_file_count = 1\<rparr>"
  have c: "stage_input ''a'' (Some (Reg ''x'')) = Inr ?c"
    by (simp add: stage_input_def stage_regular_file_def stat_of_def open_of_def copy_verified_def)
  obtain s where s: "snapshot_staged_input (Some (Reg ''x'')) (staged_input.truncate ?c) (\<lambda>p. None) = (Inr ?x, s)"
    "read_blob s (sha256 ''x'') = Inr ''x''"
    using demo_staged by (auto simp: staged_input.truncate_def)
  have m: "materialize_snapshot s ?x None = (Inr (), Some (Reg ''x''))"
    using s(2) by (simp add: materialize_snapshot_def export_blob_None)
  have "(\<forall>q b. node_at (Reg ''x'') q = Some (Reg b) \<longleftrightarrow> node_at (Reg ''x'') q = Some (Reg b)) \<or>
      (\<exists>q b. node_at (Reg ''x'') q = Some (Reg b) \<and> blob_collision s b) \<or>
      tree_collision s (snap_digest ?x) (staged_manifest ?c)"
    by (rule staged_input_roundtrip [OF c _ _ extends_refl m]) (use s(1) in simp_all)
  then show ?thesis using c s(1) m by (intro exI [of _ ?c] exI [of _ ?x] exI [of _ s]) simp
qed

end
