(* ===== verification/Collect.thy ===== *)
theory Collect
  imports Staging
begin

text \<open>
  Collecting what a parser wrote (\<open>stele/containment/artifacts.py\<close>): the parser controls the
  whole tree, so everything in it is checked without following links, and the limits are
  enforced before any file is read.
\<close>

section \<open>Walking the output\<close>

text \<open>
  \<open>os.walk\<close>: each directory with its entries, a directory before its subdirectories.  A link
  is listed among the directories when its target is one, which \<open>link_dir\<close> says, but is
  never followed.
\<close>

primrec visits :: "node \<Rightarrow> (string list \<times> (string \<times> node) list) list" where
  "visits (Reg b) = []"
| "visits (Link t) = []"
| "visits Special = []"
| "visits (Folder es) =
     ([], es) # concat (map (\<lambda>(name, vs). map (\<lambda>(q, x). (name # q, x)) vs) (map (map_prod id visits) es))"

definition listed_as_dir :: "(string \<Rightarrow> bool) \<Rightarrow> node \<Rightarrow> bool" where
  "listed_as_dir link_dir n = (case n of Folder _ \<Rightarrow> True | Link t \<Rightarrow> link_dir t | _ \<Rightarrow> False)"

definition over :: "int option \<Rightarrow> int \<Rightarrow> bool" where
  "over limit n \<longleftrightarrow> (case limit of None \<Rightarrow> False | Some m \<Rightarrow> n > m)"

text \<open>The loop over \<open>filenames\<close>; the accumulator is \<open>artifacts\<close> and \<open>total\<close> (\<open>used\<close> here).\<close>

fun collect_files ::
  "int option \<Rightarrow> int option \<Rightarrow> string list \<Rightarrow> (string \<times> node) list \<Rightarrow> string list list \<times> int \<Rightarrow> (string list list \<times> int) result" where
  "collect_files max_bytes max_files pre [] acc = Inr acc"
| "collect_files max_bytes max_files pre ((name, Reg b) # es) (found, used) =
     (let found' = found @ [pre @ [name]]; used' = used + int (length b) in
      if over max_files (int (length found')) then Inl OutputLimitError
      else if over max_bytes used' then Inl OutputLimitError
      else collect_files max_bytes max_files pre es (found', used'))"
| "collect_files max_bytes max_files pre ((name, _) # es) acc = Inl UnsafeArtifactError"

fun collect_visits ::
  "(string \<Rightarrow> bool) \<Rightarrow> int option \<Rightarrow> int option \<Rightarrow> (string list \<times> (string \<times> node) list) list \<Rightarrow>
   string list list \<times> int \<Rightarrow> (string list list \<times> int) result" where
  "collect_visits link_dir max_bytes max_files [] acc = Inr acc"
| "collect_visits link_dir max_bytes max_files ((pre, es) # vs) acc =
     (if list_ex (\<lambda>(_, n). listed_as_dir link_dir n \<and> (case n of Folder _ \<Rightarrow> False | _ \<Rightarrow> True)) es
      then Inl UnsafeArtifactError
      else case collect_files max_bytes max_files pre (filter (\<lambda>(_, n). \<not> listed_as_dir link_dir n) es) acc of
        Inl e \<Rightarrow> Inl e
      | Inr acc' \<Rightarrow> collect_visits link_dir max_bytes max_files vs acc')"

definition collect_artifact_paths ::
  "(string \<Rightarrow> bool) \<Rightarrow> path \<Rightarrow> node option \<Rightarrow> int option \<Rightarrow> int option \<Rightarrow> path list result" where
  "collect_artifact_paths link_dir artifact_dir dir max_bytes max_files =
     (case dir of
        None \<Rightarrow> Inr []
      | Some (Folder es) \<Rightarrow>
          map_sum id (\<lambda>(found, _). map (path_join artifact_dir) (sort_key (joins ''/'') found))
            (collect_visits link_dir max_bytes max_files (visits (Folder es)) ([], 0))
      | Some _ \<Rightarrow> Inl UnsafeArtifactError)"

text \<open>\<open>discard_artifact_dir_contents\<close>; permissions, which it repairs first, are not modelled.\<close>

definition discard_artifact_dir_contents :: "node option \<Rightarrow> unit result \<times> node option" where
  "discard_artifact_dir_contents dir =
     (case dir of
        None \<Rightarrow> (Inr (), None)
      | Some (Folder _) \<Rightarrow> (Inr (), Some (Folder []))
      | Some n \<Rightarrow> (Inl UnsafeArtifactError, Some n))"

section \<open>Lemmas\<close>

definition dirs_under :: "(string \<times> node) list \<Rightarrow> (string list \<times> (string \<times> node) list) list" where
  "dirs_under es = concat (map (\<lambda>(name, n). map (\<lambda>(q, x). (name # q, x)) (visits n)) es)"

lemma visits_Folder: "visits (Folder es) = ([], es) # dirs_under es"
  unfolding dirs_under_def visits.simps by (simp add: case_prod_unfold comp_def)

declare visits.simps(4) [simp del]
declare visits_Folder [simp]

text \<open>The files of the visited directories, and whether these hold files and directories only.\<close>

definition visited :: "(string list \<times> (string \<times> node) list) list \<Rightarrow> (string list \<times> string) list" where
  "visited vs = concat (map (\<lambda>(pre, es). map (\<lambda>(name, b). (pre @ [name], b)) (files_in es)) vs)"

lemma visited_simps [simp]:
  "visited [] = []" "visited ((pre, es) # vs) = map (\<lambda>(name, b). (pre @ [name], b)) (files_in es) @ visited vs"
  "visited (vs @ ws) = visited vs @ visited ws"
  by (simp_all add: visited_def)

lemma visited_under: "visited (map (\<lambda>(q, x). (name # q, x)) vs) = under name (visited vs)"
  by (induction vs) (auto simp: under_def)

lemma mset_visited: "mset (visited (visits n)) + mset (case n of Reg b \<Rightarrow> [([], b)] | _ \<Rightarrow> []) = mset (leaves n)"
proof (induction n)
  case (Folder es)
  have f: "map (\<lambda>(name, b). ([] @ [name], b)) (files_in es) = map (\<lambda>(name, b). ([name], b)) (files_in es)" by simp
  have "\<forall>(name, n) \<in> set es. mset (visited (visits n)) + mset (case n of Reg b \<Rightarrow> [([], b)] | _ \<Rightarrow> []) = mset (leaves n) \<Longrightarrow>
      mset (visited (dirs_under es)) = mset (below es)" for es
  proof (induction es)
    case (Cons e es)
    obtain name n where e: "e = (name, n)" by (cases e)
    have "mset (visited (dirs_under es)) = mset (below es)" using Cons by simp
    moreover have "dirs_under (e # es) = map (\<lambda>(q, x). (name # q, x)) (visits n) @ dirs_under es"
      by (simp add: dirs_under_def e)
    moreover have "below (e # es) = (case n of Folder sub \<Rightarrow> under name (leaves_of sub) | _ \<Rightarrow> []) @ below es"
      by (simp add: below_def e)
    moreover have "mset (under name (visited (visits n))) = mset (case n of Folder sub \<Rightarrow> under name (leaves_of sub) | _ \<Rightarrow> [])"
    proof (cases n)
      case (Folder sub)
      then have "mset (visited (visits n)) = mset (leaves_of sub)" using Cons.prems e by simp
      from mset_under [OF this] show ?thesis unfolding Folder node.case .
    qed (simp_all add: under_def)
    ultimately show ?case by (simp only: visited_simps mset_append visited_under)
  qed (simp add: dirs_under_def below_def)
  moreover have "\<forall>(name, n) \<in> set es. mset (visited (visits n)) + mset (case n of Reg b \<Rightarrow> [([], b)] | _ \<Rightarrow> []) = mset (leaves n)"
    using Folder by fastforce
  ultimately show ?case
    using mset_leaves_split [of es] by simp
qed simp_all

definition plain_visits :: "(string list \<times> (string \<times> node) list) list \<Rightarrow> bool" where
  "plain_visits vs \<longleftrightarrow> list_all (\<lambda>(_, es). list_all (\<lambda>(_, n). is_plain n) es) vs"

lemma plain_visits_iff: "plain_tree n \<longleftrightarrow> is_plain n \<and> plain_visits (visits n)"
proof (induction n)
  case (Folder es)
  have "plain_visits (dirs_under es) \<longleftrightarrow> (\<forall>(name, n) \<in> set es. plain_visits (visits n))" for es
    by (auto simp: plain_visits_def dirs_under_def list_all_iff case_prod_unfold)
  then show ?case
    using Folder by (fastforce simp: plain_tree_Folder plain_visits_def is_plain_def list_all_iff)
qed (simp_all add: is_plain_def plain_visits_def)

lemma files_only: "list_all (\<lambda>(_, n). is_plain n \<and> \<not> is_folder n) es \<Longrightarrow> map fst (files_in es) = map fst es"
proof (induction es)
  case (Cons e es)
  obtain name n where e: "e = (name, n)" by (cases e)
  show ?case using Cons by (cases n) (simp_all add: e files_in_def is_plain_def is_folder_def)
qed (simp add: files_in_def)

lemma collect_files_Inr:
  "collect_files mb mf pre es (found, used) = Inr (found', used') \<Longrightarrow>
   list_all (\<lambda>(_, n). is_plain n \<and> \<not> is_folder n) es \<and> found' = found @ map (\<lambda>(name, b). pre @ [name]) (files_in es) \<and>
   used' = used + int (sum_list (map (length \<circ> snd) (files_in es))) \<and>
   (files_in es \<noteq> [] \<longrightarrow> \<not> over mf (int (length found')) \<and> \<not> over mb used')"
proof (induction es arbitrary: found used)
  case (Cons e es)
  obtain name n where e: "e = (name, n)" by (cases e)
  from Cons.prems obtain b where n: "n = Reg b" by (cases n) (simp_all add: e)
  have c: "collect_files mb mf pre es (found @ [pre @ [name]], used + int (length b)) = Inr (found', used')"
    "\<not> over mf (int (length (found @ [pre @ [name]])))" "\<not> over mb (used + int (length b))"
    using Cons.prems by (simp_all add: e n Let_def split: if_splits)
  have f: "files_in (e # es) = (name, b) # files_in es" by (simp add: files_in_def e n)
  show ?case
    using Cons.IH [OF c(1)] c(2,3) unfolding f by (cases "files_in es = []") (auto simp: e n is_plain_def is_folder_def algebra_simps)
qed (simp add: files_in_def)

lemma over_mono: "over m i \<Longrightarrow> i \<le> j \<Longrightarrow> over m j"
  by (auto simp: over_def split: option.splits)

lemma collect_files_Inl:
  "collect_files mb mf pre es (found, used) = Inl e \<Longrightarrow>
   (e = UnsafeArtifactError \<and> \<not> list_all (\<lambda>(_, n). is_plain n \<and> \<not> is_folder n) es) \<or>
   (e = OutputLimitError \<and>
     (over mf (int (length found + length (files_in es))) \<or>
      over mb (used + int (sum_list (map (length \<circ> snd) (files_in es))))))"
proof (induction es arbitrary: found used)
  case (Cons x es)
  obtain name n where x: "x = (name, n)" by (cases x)
  note mono = over_mono
  show ?case
  proof (cases n)
    case (Reg b)
    have f: "files_in (x # es) = (name, b) # files_in es" by (simp add: files_in_def x Reg)
    show ?thesis
    proof (cases "over mf (int (length (found @ [pre @ [name]]))) \<or> over mb (used + int (length b))")
      case True
      then have "e = OutputLimitError" using Cons.prems by (auto simp: x Reg Let_def split: if_splits)
      moreover have "over mf (int (length found + length (files_in (x # es)))) \<or>
          over mb (used + int (sum_list (map (length \<circ> snd) (files_in (x # es)))))"
        using True unfolding f by (auto intro: mono [of mf "1 + int (length found)"] mono [of mb "used + int (length b)"])
      ultimately show ?thesis by blast
    next
      case False
      then have "collect_files mb mf pre es (found @ [pre @ [name]], used + int (length b)) = Inl e"
        using Cons.prems by (simp add: x Reg Let_def)
      from Cons.IH [OF this] show ?thesis unfolding f by (auto simp: x Reg algebra_simps)
    qed
  qed (use Cons.prems in \<open>simp_all add: x is_plain_def is_folder_def\<close>)
qed simp

definition bytes_of :: "(string list \<times> string) list \<Rightarrow> int" where
  "bytes_of ls = int (sum_list (map (length \<circ> snd) ls))"

lemma bytes_of_mset: "mset xs = mset ys \<Longrightarrow> bytes_of xs = bytes_of ys"
  unfolding bytes_of_def by (metis mset_map sum_mset_sum_list)

text \<open>The entries that are neither directories nor links to one.\<close>

lemma plain_by_kind:
  "list_all (\<lambda>(_, n). is_plain n) es \<longleftrightarrow>
     \<not> list_ex (\<lambda>(_, n). listed_as_dir ld n \<and> (case n of Folder _ \<Rightarrow> False | _ \<Rightarrow> True)) es \<and>
     list_all (\<lambda>(_, n). is_plain n \<and> \<not> is_folder n) (filter (\<lambda>(_, n). \<not> listed_as_dir ld n) es)"
proof (induction es)
  case (Cons e es)
  obtain name n where e: "e = (name, n)" by (cases e)
  show ?case using Cons by (cases n) (simp_all add: e is_plain_def is_folder_def listed_as_dir_def)
qed simp

lemma files_in_filter: "files_in (filter (\<lambda>(_, n). \<not> listed_as_dir ld n) es) = files_in es"
proof (induction es)
  case (Cons e es)
  obtain name n where e: "e = (name, n)" by (cases e)
  show ?case using Cons by (cases n) (simp_all add: e files_in_def listed_as_dir_def)
qed simp

lemma bytes_of_visit: "bytes_of (map (\<lambda>(name, b). (pre @ [name], b)) fs) = int (sum_list (map (length \<circ> snd) fs))"
  by (simp add: bytes_of_def case_prod_unfold comp_def)

lemma collect_visits_Inr:
  "collect_visits ld mb mf vs (found, used) = Inr (found', used') \<Longrightarrow>
   plain_visits vs \<and> found' = found @ map fst (visited vs) \<and> used' = used + bytes_of (visited vs) \<and>
   (visited vs \<noteq> [] \<longrightarrow> \<not> over mf (int (length found')) \<and> \<not> over mb used')"
proof (induction vs arbitrary: found used)
  case (Cons v vs)
  obtain pre es where v: "v = (pre, es)" by (cases v)
  let ?fs = "filter (\<lambda>(_, n). \<not> listed_as_dir ld n) es"
  from Cons.prems obtain f u where c: "collect_files mb mf pre ?fs (found, used) = Inr (f, u)"
    and r: "collect_visits ld mb mf vs (f, u) = Inr (found', used')"
    and d: "\<not> list_ex (\<lambda>(_, n). listed_as_dir ld n \<and> (case n of Folder _ \<Rightarrow> False | _ \<Rightarrow> True)) es"
    unfolding v by (auto split: if_splits sum.splits)
  note one = collect_files_Inr [OF c, unfolded files_in_filter]
  have plain: "list_all (\<lambda>(_, n). is_plain n) es" using plain_by_kind [of es ld] d one by blast
  have f: "f = found @ map fst (map (\<lambda>(name, b). (pre @ [name], b)) (files_in es))"
    using one by (simp add: case_prod_unfold comp_def)
  have b: "bytes_of (visited (v # vs)) = int (sum_list (map (length \<circ> snd) (files_in es))) + bytes_of (visited vs)"
    unfolding v visited_simps by (simp add: bytes_of_def case_prod_unfold comp_def)
  have lim: "visited (v # vs) \<noteq> [] \<longrightarrow> \<not> over mf (int (length found')) \<and> \<not> over mb used'"
    using Cons.IH [OF r] one f by (cases "visited vs = []") (auto simp: v bytes_of_def)
  show ?case
    using Cons.IH [OF r] one plain f b lim by (simp add: v plain_visits_def)
qed (simp add: plain_visits_def bytes_of_def)

lemma collect_visits_Inl:
  "collect_visits ld mb mf vs (found, used) = Inl e \<Longrightarrow>
   (e = UnsafeArtifactError \<and> \<not> plain_visits vs) \<or>
   (e = OutputLimitError \<and>
     (over mf (int (length found + length (visited vs))) \<or> over mb (used + bytes_of (visited vs))))"
proof (induction vs arbitrary: found used)
  case (Cons v vs)
  obtain pre es where v: "v = (pre, es)" by (cases v)
  let ?fs = "filter (\<lambda>(_, n). \<not> listed_as_dir ld n) es"
  let ?d = "list_ex (\<lambda>(_, n). listed_as_dir ld n \<and> (case n of Folder _ \<Rightarrow> False | _ \<Rightarrow> True)) es"
  have b: "bytes_of (visited (v # vs)) = int (sum_list (map (length \<circ> snd) (files_in es))) + bytes_of (visited vs)"
    unfolding v visited_simps by (simp add: bytes_of_def case_prod_unfold comp_def)
  have pos: "0 \<le> bytes_of (visited vs)" by (simp add: bytes_of_def)
  show ?case
  proof (cases ?d)
    case True
    then have "e = UnsafeArtifactError" "\<not> list_all (\<lambda>(_, n). is_plain n) es"
      using Cons.prems plain_by_kind [of es ld] by (auto simp: v)
    then show ?thesis by (simp add: v plain_visits_def)
  next
    case nd: False
    show ?thesis
    proof (cases "collect_files mb mf pre ?fs (found, used)")
      case (Inl x)
      then have "x = e" using Cons.prems nd by (simp add: v)
      from collect_files_Inl [OF Inl, unfolded files_in_filter this] show ?thesis
      proof
        assume "e = UnsafeArtifactError \<and> \<not> list_all (\<lambda>(_, n). is_plain n \<and> \<not> is_folder n) ?fs"
        then show ?thesis using plain_by_kind [of es ld] by (simp add: v plain_visits_def)
      next
        assume l: "e = OutputLimitError \<and> (over mf (int (length found + length (files_in es))) \<or>
            over mb (used + int (sum_list (map (length \<circ> snd) (files_in es)))))"
        have "over mf (int (length found + length (visited (v # vs))))" if "over mf (int (length found + length (files_in es)))"
          by (rule over_mono [OF that]) (simp add: v)
        moreover have "over mb (used + bytes_of (visited (v # vs)))"
          if "over mb (used + int (sum_list (map (length \<circ> snd) (files_in es))))"
          by (rule over_mono [OF that]) (use b pos in simp)
        ultimately show ?thesis using l by blast
      qed
    next
      case (Inr acc)
      obtain f u where acc: "acc = (f, u)" by (cases acc)
      have r: "collect_visits ld mb mf vs (f, u) = Inl e" using Cons.prems nd Inr by (simp add: v acc)
      note one = collect_files_Inr [OF Inr [unfolded acc], unfolded files_in_filter]
      have "length f + length (visited vs) = length found + length (visited (v # vs))"
        "u + bytes_of (visited vs) = used + bytes_of (visited (v # vs))"
        using one b by (simp_all add: v)
      with Cons.IH [OF r] show ?thesis by (auto simp: v plain_visits_def)
    qed
  qed
qed simp

section \<open>The manifest of what was collected\<close>

definition content_at :: "node \<Rightarrow> string list \<Rightarrow> string" where
  "content_at n q = (case node_at n q of Some (Reg b) \<Rightarrow> b | _ \<Rightarrow> [])"

lemma hash_leaf:
  assumes "posix_tree n" "(q, b) \<in> set (leaves n)" "q \<noteq> []"
  shows "artifact_relative_path dir (path_join dir q) = Inr \<lparr>path_root = [], path_parts = q\<rparr>"
    "sha256_file_beneath (Some n) \<lparr>path_root = [], path_parts = q\<rparr> = Inr (sha256 b)" "content_at n q = b"
proof -
  have v: "\<forall>w \<in> set q. valid_name w" by (rule leaf_paths [OF assms(1,2)])
  then have u: "\<not> unsafe_parts q" "\<forall>p \<in> set q. nul \<notin> set p" by (auto simp: unsafe_parts_def valid_name_def)
  then show "artifact_relative_path dir (path_join dir q) = Inr \<lparr>path_root = [], path_parts = q\<rparr>"
    using assms(3) by (simp add: artifact_relative_path_def relative_to_def path_join_def)
  have at: "node_at n q = Some (Reg b)" using leaves_node_at [OF assms(1)] assms(2) by blast
  then show "content_at n q = b" by (simp add: content_at_def)
  have "walk_beneath n q = Inr b" using at u(2) assms(3) by (simp add: walk_beneath_iff)
  then show "sha256_file_beneath (Some n) \<lparr>path_root = [], path_parts = q\<rparr> = Inr (sha256 b)"
    using u(1) assms(3) by (simp add: sha256_file_beneath_def open_regular_file_beneath_def check_relative_def)
qed

lemma build_manifest_leaves:
  assumes n: "posix_tree n" and qs: "\<forall>q \<in> set qs. q \<noteq> [] \<and> (\<exists>b. (q, b) \<in> set (leaves n))"
    and d: "distinct (map fst m @ map (joins ''/'') qs)"
  shows "build_manifest_from (Some n) dir (map (path_join dir) qs) m =
     Inr (m @ map (\<lambda>q. (joins ''/'' q, sha256 (content_at n q))) qs)"
  using qs d
proof (induction qs arbitrary: m)
  case (Cons q qs)
  then obtain b where b: "(q, b) \<in> set (leaves n)" "q \<noteq> []" by auto
  note h = hash_leaf [OF n b]
  have "AList.update (joins ''/'' q) (sha256 b) m = m @ [(joins ''/'' q, sha256 b)]"
    using Cons.prems(2) by (intro update_fresh) auto
  moreover have "as_posix \<lparr>path_root = [], path_parts = q\<rparr> = joins ''/'' q" using b(2) by (simp add: as_posix_def)
  ultimately show ?case
    using Cons.IH [of "m @ [(joins ''/'' q, sha256 b)]"] Cons.prems h by simp
qed simp

lemma collected_manifest:
  assumes n: "posix_tree (Folder es)" and qs: "mset qs = mset (map fst (leaves_of es))"
  shows "\<exists>m. build_manifest (Some (Folder es)) dir (map (path_join dir) qs) = Inr m \<and>
     mset m = mset (manifest_of_leaves [] (leaves_of es))"
proof -
  let ?n = "Folder es" and ?m = "map (\<lambda>q. (joins ''/'' q, sha256 (content_at (Folder es) q))) qs"
  have set: "\<forall>q \<in> set qs. q \<noteq> [] \<and> (\<exists>b. (q, b) \<in> set (leaves ?n))"
    using mset_eq_setD [OF qs] by (fastforce simp: leaves_of_def under_def)
  have "mset (map (joins ''/'') qs) = mset (map fst (manifest_of_leaves [] (leaves_of es)))"
  proof -
    have "map fst (manifest_of_leaves [] (leaves_of es)) = map (joins ''/'') (map fst (leaves_of es))"
      by (simp add: manifest_of_leaves_def case_prod_unfold comp_def)
    then show ?thesis using qs by (metis mset_map)
  qed
  then have "distinct (map (joins ''/'') qs)"
    using distinct_manifest_of_leaves [OF n] mset_eq_imp_distinct_iff by blast
  then have b: "build_manifest (Some ?n) dir (map (path_join dir) qs) = Inr ?m"
    unfolding build_manifest_def using build_manifest_leaves [OF n set, of "[]" dir] by simp
  have "mset ?m = mset (map (\<lambda>q. (joins ''/'' q, sha256 (content_at ?n q))) (map fst (leaves_of es)))"
    using qs by (metis mset_map)
  also have "map (\<lambda>q. (joins ''/'' q, sha256 (content_at ?n q))) (map fst (leaves_of es)) = manifest_of_leaves [] (leaves_of es)"
  proof -
    have "content_at ?n q = b" if "(q, b) \<in> set (leaves_of es)" for q b
      using hash_leaf(3) [OF n _ leaf_nonempty] that by simp
    then show ?thesis by (auto simp: manifest_of_leaves_def)
  qed
  finally show ?thesis using b by blast
qed

lemma collect_folder:
  assumes "collect_artifact_paths link_dir artifact_dir (Some (Folder es)) max_bytes max_files = res"
  shows "case res of
     Inr ps \<Rightarrow> plain_tree (Folder es) \<and>
       (case leaves_of es of [] \<Rightarrow> True | _ \<Rightarrow> \<not> over max_files (int (length (leaves_of es))) \<and> \<not> over max_bytes (bytes_of (leaves_of es))) \<and>
       (\<exists>qs. ps = map (path_join artifact_dir) qs \<and> sorted (map (joins ''/'') qs) \<and> mset qs = mset (map fst (leaves_of es)))
   | Inl e \<Rightarrow>
       if e = OutputLimitError then over max_files (int (length (leaves_of es))) \<or> over max_bytes (bytes_of (leaves_of es))
       else e = UnsafeArtifactError \<and> \<not> plain_tree (Folder es)"
proof -
  let ?vs = "visits (Folder es)"
  have m: "mset (visited ?vs) = mset (leaves_of es)" using mset_visited [of "Folder es"] by simp
  have "length (visited ?vs) = length (leaves_of es)" using m mset_eq_length by blast
  moreover have "bytes_of (visited ?vs) = bytes_of (leaves_of es)" using m by (rule bytes_of_mset)
  ultimately have eqs: "length (visited ?vs) = length (leaves_of es)" "bytes_of (visited ?vs) = bytes_of (leaves_of es)" .
  have plain: "plain_tree (Folder es) \<longleftrightarrow> plain_visits ?vs" using plain_visits_iff [of "Folder es"] by (simp add: is_plain_def)
  show ?thesis
  proof (cases "collect_visits link_dir max_bytes max_files ?vs ([], 0)")
    case (Inl e)
    from collect_visits_Inl [OF this] have
      "if e = OutputLimitError then over max_files (int (length (leaves_of es))) \<or> over max_bytes (bytes_of (leaves_of es))
       else e = UnsafeArtifactError \<and> \<not> plain_tree (Folder es)"
      unfolding plain list.size add_0 eqs by auto
    then show ?thesis unfolding assms [symmetric] using Inl by (simp add: collect_artifact_paths_def del: visits_Folder split: if_splits)
  next
    case (Inr r)
    obtain found used where r: "r = (found, used)" by (cases r)
    note c = collect_visits_Inr [OF Inr [unfolded r]]
    have ne: "visited ?vs = [] \<longleftrightarrow> leaves_of es = []" using eqs(1) by (metis length_0_conv)
    have "mset (sort_key (joins ''/'') found) = mset (map fst (leaves_of es))"
      using c m by (simp del: visits_Folder)
    moreover have "case leaves_of es of [] \<Rightarrow> True | _ \<Rightarrow> \<not> over max_files (int (length (leaves_of es))) \<and> \<not> over max_bytes (bytes_of (leaves_of es))"
      using c eqs ne by (auto split: list.split)
    ultimately show ?thesis unfolding assms [symmetric] using Inr r plain c
      by (auto simp: collect_artifact_paths_def simp del: visits_Folder intro!: exI [of _ "sort_key (joins ''/'') found"])
  qed
qed

lemma collect_leaves:
  assumes "collect_artifact_paths ld dir (Some (Folder es)) mb mf = Inr ps"
  shows "\<exists>qs. plain_tree (Folder es) \<and> ps = map (path_join dir) qs \<and> mset qs = mset (map fst (leaves_of es))"
  using collect_folder [OF assms] by auto

text \<open>
  What is collected of a run's output is exactly its files, or nothing.  The list has every
  regular file of the tree, sorted, each once, and there is nothing else in the tree and no
  more than the limits allow; otherwise collecting fails: because the output is over a limit,
  or because it has a link, device or other entry.
\<close>

theorem collect_exact:
  "case collect_artifact_paths link_dir artifact_dir (Some n) max_bytes max_files of
     Inr ps \<Rightarrow> plain_tree n \<and> (case leaves n of [] \<Rightarrow> True | _ \<Rightarrow> \<not> over max_files (int (length (leaves n))) \<and> \<not> over max_bytes (bytes_of (leaves n))) \<and>
       (\<exists>qs. ps = map (path_join artifact_dir) qs \<and> sorted (map (joins ''/'') qs) \<and> mset qs = mset (map fst (leaves n)))
   | Inl e \<Rightarrow>
       if e = OutputLimitError then over max_files (int (length (leaves n))) \<or> over max_bytes (bytes_of (leaves n))
       else e = UnsafeArtifactError \<and> (case n of Folder es \<Rightarrow> \<not> plain_tree n | _ \<Rightarrow> True)"
proof (cases n)
  case (Folder es)
  show ?thesis
    using collect_folder [OF refl, where link_dir = link_dir and artifact_dir = artifact_dir and es = es and max_bytes = max_bytes
        and max_files = max_files]
    unfolding Folder leaves_Folder node.case .
qed (simp_all add: collect_artifact_paths_def)

end
