(* ===== verification/Runner.thy ===== *)
theory Runner
  imports Collect
begin

text \<open>
  Running a parser (\<open>stele/containment/runner.py\<close>): choose a backend, stage the input, execute,
  then collect the output or discard it.  On disk there are two places: what the input path
  names, and what the output directory holds before and after; the evidence store is there
  when the caller passes one.  \<open>followed\<close> is what the output path names with links followed,
  which the freshness check sees.
\<close>

section \<open>The run\<close>

definition path_name :: "path \<Rightarrow> string" where
  "path_name p = (if path_parts p = [] then [] else last (path_parts p))"

definition fresh_output :: "node option \<Rightarrow> unit result" where
  "fresh_output followed =
     (case followed of
        None \<Rightarrow> Inr ()
      | Some (Folder es) \<Rightarrow> if es = [] then Inr () else Inl ValueError
      | Some _ \<Rightarrow> Inl NotADirectoryError)"

text \<open>\<open>_generic_failure\<close>.\<close>

definition generic_failure :: "execution_outcome \<Rightarrow> sandbox_config \<Rightarrow> run_failure option" where
  "generic_failure x cf =
     (if xo_timed_out x then Some (timeout_failure (cf_timeout cf) (xo_exit_code x) ''the run was stopped'')
      else case xo_violation x of
        Some (c # v) \<Rightarrow>
          Some \<lparr>rf_reason = SYSCALL_BLOCKED, rf_detail = c # v, rf_exit_code = Some (xo_exit_code x), rf_signal = None\<rparr>
      | _ \<Rightarrow> if xo_exit_code x \<noteq> 0 then Some (exit_status_failure (xo_exit_code x)) else None)"

text \<open>\<open>_remove_output\<close>; \<open>created\<close> is whether the run made the directory.\<close>

definition remove_output :: "bool \<Rightarrow> node option \<Rightarrow> unit result \<times> node option" where
  "remove_output created out =
     (case discard_artifact_dir_contents out of
        (Inl e, out') \<Rightarrow> (Inl e, out')
      | (Inr _, out') \<Rightarrow> (Inr (), if created then None else out'))"

text \<open>
  The input as the parser will see it: the configuration with the staged path, the staged
  hash, and the snapshot when there is a store.
\<close>

record prepared =
  pp_config :: sandbox_config
  pp_staged :: "node option"
  pp_sha256 :: "string option"
  pp_snapshot :: "snapshot option"

definition prepare_input ::
  "path \<Rightarrow> sandbox_config \<Rightarrow> node option \<Rightarrow> archive option \<Rightarrow> prepared result \<times> archive option" where
  "prepare_input staging cf input store =
     (case cf_input_path cf of
        None \<Rightarrow> (Inr \<lparr>pp_config = cf, pp_staged = None, pp_sha256 = None, pp_snapshot = None\<rparr>, store)
      | Some src \<Rightarrow>
          (case stage_input (path_name src) input of
             Inl e \<Rightarrow> (Inl e, store)
           | Inr c \<Rightarrow>
               (let cf' = cf\<lparr>cf_input_path := Some (path_join staging [''input'', staged_name c])\<rparr> in
                case store of
                  None \<Rightarrow>
                    (Inr \<lparr>pp_config = cf', pp_staged = Some (staged_node c), pp_sha256 = Some (staged_sha256 c),
                          pp_snapshot = None\<rparr>, None)
                | Some s \<Rightarrow>
                    (case snapshot_staged_input (Some (staged_node c)) (staged_input.truncate c) s of
                       (Inl e, s') \<Rightarrow> (Inl e, Some s')
                     | (Inr x, s') \<Rightarrow>
                         (Inr \<lparr>pp_config = cf', pp_staged = Some (staged_node c), pp_sha256 = Some (staged_sha256 c),
                               pp_snapshot = Some x\<rparr>, Some s')))))"

text \<open>The failure of the run, if any, and otherwise the artifacts collected.  The detail of an
  unsafe output is the exception's text, which is not modelled.\<close>

definition settle ::
  "(string \<Rightarrow> bool) \<Rightarrow> sandbox_config \<Rightarrow> execution_outcome \<Rightarrow> node option \<Rightarrow> run_failure option \<times> path list" where
  "settle link_dir cf x out =
     (case (case xo_failure x of Some f \<Rightarrow> Some f | None \<Rightarrow> generic_failure x cf) of
        Some f \<Rightarrow> (Some f, [])
      | None \<Rightarrow>
          (case collect_artifact_paths link_dir (cf_artifact_dir cf) out (Some (cf_max_output_bytes cf)) (Some (cf_max_output_files cf)) of
             Inr ps \<Rightarrow> (None, ps)
           | Inl e \<Rightarrow>
               (Some \<lparr>rf_reason = (if e = OutputLimitError then OUTPUT_LIMIT else UNSAFE_ARTIFACT),
                      rf_detail = [], rf_exit_code = Some (xo_exit_code x), rf_signal = None\<rparr>, [])))"

text \<open>Storing the collected artifacts and the tree over them.\<close>

definition store_outputs ::
  "path \<Rightarrow> node option \<Rightarrow> path list \<Rightarrow> archive option \<Rightarrow> (manifest \<times> string option) result \<times> archive option" where
  "store_outputs dir out ps store =
     (case store of
        None \<Rightarrow> (Inr ([], None), None)
      | Some s \<Rightarrow>
          (case ingest_artifacts out dir ps s of
             (Inl e, s1) \<Rightarrow> (Inl e, Some s1)
           | (Inr m, s1) \<Rightarrow>
               (case put_tree m s1 of
                  (Inl e, s2) \<Rightarrow> (Inl e, Some s2)
                | (Inr d, s2) \<Rightarrow> (Inr (m, Some d), Some s2))))"

definition telemetry_of :: "sandbox_config \<Rightarrow> string \<Rightarrow> execution_outcome \<Rightarrow> telemetry" where
  "telemetry_of cf name x =
     \<lparr>tm_backend = name, tm_runtime = xo_runtime x, tm_wall_time = xo_wall_time x, tm_exit_code = xo_exit_code x,
      tm_cpu_time = xo_cpu_time x, tm_peak_memory = xo_peak_memory x,
      tm_limits = (if xo_limits x = [] then [(''timeout_seconds'', VInt (cf_timeout cf))] else xo_limits x),
      tm_counters = xo_counters x\<rparr>"

definition result_of ::
  "string \<Rightarrow> sandbox_config \<Rightarrow> string \<Rightarrow> prepared \<Rightarrow> execution_outcome \<Rightarrow> run_failure option \<Rightarrow> path list \<Rightarrow>
   manifest \<Rightarrow> string option \<Rightarrow> sandbox_result" where
  "result_of run_id cf name p x failure ps m bundle =
     \<lparr>sr_run_id = run_id, sr_exit_code = xo_exit_code x, sr_stdout = xo_stdout x, sr_stderr = xo_stderr x,
      sr_artifact_paths = ps, sr_artifact_dir = cf_artifact_dir cf, sr_wall_time = xo_wall_time x,
      sr_timed_out = (xo_timed_out x \<or> (case failure of None \<Rightarrow> False | Some f \<Rightarrow> rf_reason f = TIMEOUT)),
      sr_input_sha256 = pp_sha256 p, sr_backend = Some name, sr_image_digest = xo_image_digest x,
      sr_module_sha256 = xo_module_sha256 x, sr_hardening = xo_hardening x, sr_violation = xo_violation x,
      sr_input_snapshot = pp_snapshot p, sr_artifact_digests = m, sr_bundle_digest = bundle,
      sr_telemetry = Some (telemetry_of cf name x), sr_failure = failure\<rparr>"

record places =
  pl_output :: "node option"
  pl_store :: "archive option"

text \<open>What follows the execution.\<close>

definition finish_run ::
  "string \<Rightarrow> (string \<Rightarrow> bool) \<Rightarrow> sandbox_config \<Rightarrow> string \<Rightarrow> bool \<Rightarrow> prepared \<Rightarrow> execution_outcome \<Rightarrow> places \<Rightarrow>
   sandbox_result result \<times> places" where
  "finish_run run_id link_dir cf name created p x pl =
     (case settle link_dir cf x (pl_output pl) of
        (Some f, ps) \<Rightarrow>
          (case remove_output created (pl_output pl) of
             (Inl e, out) \<Rightarrow> (Inl e, pl\<lparr>pl_output := out\<rparr>)
           | (Inr _, out) \<Rightarrow> (Inr (result_of run_id cf name p x (Some f) ps [] None), pl\<lparr>pl_output := out\<rparr>))
      | (None, ps) \<Rightarrow>
          (case store_outputs (cf_artifact_dir cf) (pl_output pl) ps (pl_store pl) of
             (Inl e, s) \<Rightarrow> (Inl e, pl\<lparr>pl_store := s\<rparr>)
           | (Inr (m, bundle), s) \<Rightarrow> (Inr (result_of run_id cf name p x None ps m bundle), pl\<lparr>pl_store := s\<rparr>)))"

definition run_in_sandbox ::
  "string \<Rightarrow> path \<Rightarrow> (string \<Rightarrow> bool) \<Rightarrow> backend list \<Rightarrow> sandbox_config \<Rightarrow> parser_requirements \<Rightarrow>
   node option \<Rightarrow> node option \<Rightarrow> places \<Rightarrow> sandbox_result result \<times> places" where
  "run_in_sandbox run_id staging link_dir backends cf req input followed pl =
     (case fresh_output followed of Inl e \<Rightarrow> (Inl e, pl) | Inr _ \<Rightarrow>
      (case select_backend req backends of Inl e \<Rightarrow> (Inl e, pl) | Inr b \<Rightarrow>
      (case prepare_input staging cf input (pl_store pl) of
         (Inl e, s) \<Rightarrow> (Inl e, pl\<lparr>pl_store := s\<rparr>)
       | (Inr p, s) \<Rightarrow>
           (case bk_execute b (pp_config p) (pp_staged p) (pl_output pl) of
              (Inl e, out) \<Rightarrow> (Inl e, \<lparr>pl_output = snd (remove_output (followed = None) out), pl_store = s\<rparr>)
            | (Inr x, out) \<Rightarrow>
                finish_run run_id link_dir cf (bk_name b) (followed = None) p x \<lparr>pl_output = out, pl_store = s\<rparr>))))"

section \<open>What a run leaves\<close>

definition store_extends :: "archive option \<Rightarrow> archive option \<Rightarrow> bool" where
  "store_extends a b \<longleftrightarrow>
     (case (a, b) of (None, None) \<Rightarrow> True | (Some s, Some s') \<Rightarrow> extends s s' | _ \<Rightarrow> False)"

lemma store_extends_simps [simp]:
  "store_extends a a" "store_extends (Some s) b \<longleftrightarrow> (\<exists>s'. b = Some s' \<and> extends s s')"
  "store_extends None b \<longleftrightarrow> b = None"
  by (auto simp: store_extends_def extends_refl split: option.splits)

lemma store_extends_trans: "store_extends a b \<Longrightarrow> store_extends b c \<Longrightarrow> store_extends a c"
  by (auto simp: store_extends_def intro: extends_trans split: option.splits)

lemma stage_extends:
  "stage_tree found st s = (q, s') \<Longrightarrow> extends s s'" "stage_file found st s = (q, s') \<Longrightarrow> extends s s'"
  by (auto simp: stage_tree_def stage_file_def split: prod.splits sum.splits
      dest!: put_staged_files_extends put_tree_extends put_file_extends intro: extends_trans)

lemma snapshot_staged_extends:
  assumes "snapshot_staged_input found st s = (r, s')"
  shows "extends s s'"
proof -
  let ?put = "case found of Some (Folder _) \<Rightarrow> stage_tree found st s | _ \<Rightarrow> stage_file found st s"
  obtain q s1 where q: "?put = (q, s1)" by (cases ?put)
  have "?put = stage_tree found st s \<or> ?put = stage_file found st s" by (auto split: option.split node.split)
  then have "extends s s1" using q stage_extends by metis
  then show ?thesis
    using assms q by (auto simp: snapshot_staged_input_def extends_refl split: if_splits sum.splits
        dest!: record_snapshot_extends intro: extends_trans)
qed

lemma prepare_input_extends: "prepare_input staging cf input store = (r, store') \<Longrightarrow> store_extends store store'"
  by (auto simp: prepare_input_def Let_def split: option.splits sum.splits prod.splits dest!: snapshot_staged_extends)

lemma store_outputs_extends: "store_outputs dir out ps store = (r, store') \<Longrightarrow> store_extends store store'"
  by (auto simp: store_outputs_def split: option.splits sum.splits prod.splits
      dest!: ingest_artifacts_extends put_tree_extends intro: extends_trans)

lemma finish_run_extends: "finish_run rid ld cf name c p x pl = (r, pl') \<Longrightarrow> store_extends (pl_store pl) (pl_store pl')"
  by (auto simp: finish_run_def split: option.splits sum.splits prod.splits dest!: store_outputs_extends)

lemma settle_cases:
  "settle ld cf x out = (None, ps) \<Longrightarrow>
     xo_failure x = None \<and> xo_exit_code x = 0 \<and> \<not> xo_timed_out x \<and>
     collect_artifact_paths ld (cf_artifact_dir cf) out (Some (cf_max_output_bytes cf)) (Some (cf_max_output_files cf)) = Inr ps"
  "settle ld cf x out = (Some f, ps) \<Longrightarrow> ps = []"
  by (auto simp: settle_def generic_failure_def split: option.splits sum.splits if_splits list.splits)

lemma run_extends:
  assumes "run_in_sandbox rid staging ld bs cf req input followed pl = (r, pl')"
  shows "store_extends (pl_store pl) (pl_store pl')"
proof -
  show ?thesis
    using assms unfolding run_in_sandbox_def
    by (auto split: sum.splits prod.splits dest!: prepare_input_extends finish_run_extends intro: store_extends_trans)
qed

lemma run_InrD:
  assumes "run_in_sandbox rid staging ld bs cf req input followed pl = (Inr r, pl')"
  shows "\<exists>b p s x out. select_backend req bs = Inr b \<and> prepare_input staging cf input (pl_store pl) = (Inr p, s) \<and>
    bk_execute b (pp_config p) (pp_staged p) (pl_output pl) = (Inr x, out) \<and>
    finish_run rid ld cf (bk_name b) (followed = None) p x \<lparr>pl_output = out, pl_store = s\<rparr> = (Inr r, pl')"
  using assms unfolding run_in_sandbox_def by (simp split: sum.splits prod.splits)

text \<open>What the settled run reports.\<close>

lemma finish_run_InrD:
  assumes "finish_run rid ld cf name created p x pl = (Inr r, pl')"
  shows "sr_backend r = Some name \<and> sr_input_sha256 r = pp_sha256 p \<and> sr_input_snapshot r = pp_snapshot p \<and>
    (case sr_failure r of
       Some f \<Rightarrow> \<not> succeeded r \<and> sr_artifact_paths r = [] \<and> sr_artifact_digests r = [] \<and> sr_bundle_digest r = None \<and>
         (case pl_output pl' of None \<Rightarrow> True | Some n \<Rightarrow> n = Folder [])
     | None \<Rightarrow> succeeded r \<and> pl_output pl' = pl_output pl \<and>
         collect_artifact_paths ld (cf_artifact_dir cf) (pl_output pl) (Some (cf_max_output_bytes cf))
           (Some (cf_max_output_files cf)) = Inr (sr_artifact_paths r) \<and>
         store_outputs (cf_artifact_dir cf) (pl_output pl) (sr_artifact_paths r) (pl_store pl) =
           (Inr (sr_artifact_digests r, sr_bundle_digest r), pl_store pl'))"
proof (cases "settle ld cf x (pl_output pl)")
  case (Pair f ps)
  show ?thesis
  proof (cases f)
    case None
    note st = settle_cases(1) [OF Pair [unfolded None]]
    from assms Pair None obtain m bd s where
      "store_outputs (cf_artifact_dir cf) (pl_output pl) ps (pl_store pl) = (Inr (m, bd), s)"
      "r = result_of rid cf name p x None ps m bd" "pl' = pl\<lparr>pl_store := s\<rparr>"
      by (auto simp: finish_run_def split: sum.splits prod.splits)
    then show ?thesis using st by (simp add: result_of_def succeeded_def)
  next
    case (Some fl)
    then have "ps = []" using Pair settle_cases(2) by blast
    moreover from assms Pair Some obtain out where
      "remove_output created (pl_output pl) = (Inr (), out)" "r = result_of rid cf name p x (Some fl) ps [] None"
      "pl' = pl\<lparr>pl_output := out\<rparr>"
      by (auto simp: finish_run_def split: sum.splits prod.splits)
    ultimately show ?thesis
      by (auto simp: result_of_def succeeded_def remove_output_def discard_artifact_dir_contents_def
          split: option.splits node.splits if_splits)
  qed
qed

text \<open>
  C11.  A run keeps all of its output or none.  Every reported run used a backend that is available
  and has every capability the parser requires.  A run without a failure succeeded, and its
  artifacts are all that is in the output directory; a run with one did not succeed, whatever
  its exit code, names no artifact and leaves the output directory empty or removed, so no
  partial output can be recorded.  The store, when there is one, only ever grows, also when
  the run raises.
\<close>

theorem run_all_or_nothing:
  "case run_in_sandbox rid staging ld bs cf req input followed pl of (res, pl') \<Rightarrow>
     store_extends (pl_store pl) (pl_store pl') \<and>
     (case res of
        Inl e \<Rightarrow> True
      | Inr r \<Rightarrow>
          list_ex (\<lambda>b. sr_backend r = Some (bk_name b) \<and> required_capabilities req \<subseteq> bk_capabilities b \<and> bk_available b) bs \<and>
          (case sr_failure r of
             None \<Rightarrow> succeeded r \<and>
               collect_artifact_paths ld (cf_artifact_dir cf) (pl_output pl') (Some (cf_max_output_bytes cf))
                 (Some (cf_max_output_files cf)) = Inr (sr_artifact_paths r)
           | Some f \<Rightarrow> \<not> succeeded r \<and> sr_artifact_paths r = [] \<and> sr_artifact_digests r = [] \<and>
               sr_bundle_digest r = None \<and> (case pl_output pl' of None \<Rightarrow> True | Some n \<Rightarrow> n = Folder [])))"
proof (cases "run_in_sandbox rid staging ld bs cf req input followed pl")
  case (Pair res pl')
  show ?thesis
  proof (cases res)
    case (Inr r)
    from run_InrD [OF Pair [unfolded Inr]] obtain b p s x out where
      b: "select_backend req bs = Inr b" and
      f: "finish_run rid ld cf (bk_name b) (followed = None) p x \<lparr>pl_output = out, pl_store = s\<rparr> = (Inr r, pl')" by blast
    have "list_ex (\<lambda>b. sr_backend r = Some (bk_name b) \<and> required_capabilities req \<subseteq> bk_capabilities b \<and> bk_available b) bs"
      unfolding list_ex_iff using select_backend_Inr [OF b] finish_run_InrD [OF f] by blast
    then show ?thesis using run_extends [OF Pair] finish_run_InrD [OF f] Pair Inr by (auto split: option.splits)
  qed (use run_extends [OF Pair] Pair in simp)
qed

text \<open>A snapshot's content is stored, or the listing it is of and what is under its digest collide.\<close>

definition input_kept :: "archive \<Rightarrow> snapshot \<Rightarrow> bool" where
  "input_kept s x \<longleftrightarrow> snapshot_content s x \<or> (\<exists>m. tree_collision s (snap_digest x) m)"

lemma input_kept_extends: "extends s s' \<Longrightarrow> input_kept s x \<Longrightarrow> input_kept s' x"
  unfolding input_kept_def using snapshot_content_extends tree_collision_extends by blast

lemma prepare_input_archived:
  assumes "prepare_input staging cf input (Some s) = (Inr p, s')" "case input of None \<Rightarrow> True | Some n \<Rightarrow> posix_tree n"
  shows "case pp_snapshot p of
      None \<Rightarrow> pp_sha256 p = None \<and> cf_input_path cf = None
    | Some x \<Rightarrow> pp_sha256 p = Some (snap_digest x) \<and> (\<exists>t. s' = Some t \<and> input_kept t x)"
proof (cases "cf_input_path cf")
  case None
  then show ?thesis using assms(1) by (auto simp: prepare_input_def)
next
  case (Some src)
  from assms(1) Some obtain c x t where c: "stage_input (path_name src) input = Inr c"
    and x: "snapshot_staged_input (Some (staged_node c)) (staged_input.truncate c) s = (Inr x, t)"
    and p: "pp_snapshot p = Some x" "pp_sha256 p = Some (staged_sha256 c)" "s' = Some t"
    by (auto simp: prepare_input_def Let_def split: sum.splits prod.splits)
  obtain n where n: "input = Some n" using c by (cases input) (simp_all add: stage_input_def)
  have "distinct (map fst (staged_manifest c))"
  proof (cases n)
    case (Folder es)
    then show ?thesis using staged_folder(4) c n assms(2) by auto
  qed (use c n in \<open>auto simp: stage_input_def stage_regular_file_def map_sum_Inr_iff split: option.splits if_splits prod.splits\<close>)
  then have "distinct (map fst (staged_manifest (staged_input.truncate c)))" by (simp add: staged_input.truncate_def)
  from snapshot_staged_facts [OF x this] show ?thesis using p by (auto simp: staged_input.truncate_def input_kept_def)
qed

text \<open>
  The archive holds what a successful run is judged by.  Given a store, after a run that
  succeeded: the digests reported are those of exactly the files in its output directory, which
  holds nothing else; the bytes of each are in the store, and the bundle digest names the
  stored tree over them; the input's snapshot is the staged hash the run reports, with all its
  content in the store.  The exceptions are a manifest of the run and what the store holds under
  its digest being two texts with the same SHA-256.
\<close>

theorem run_archives_evidence:
  assumes "run_in_sandbox rid staging ld bs cf req input followed pl = (Inr r, pl')" "succeeded r"
    and "pl_store pl = Some s" "case input of None \<Rightarrow> True | Some n \<Rightarrow> posix_tree n"
    and "pl_output pl' = Some n" "posix_tree n"
  shows "\<exists>s' d. pl_store pl' = Some s' \<and> plain_tree n \<and>
    mset (sr_artifact_digests r) = mset (manifest_of_leaves [] (leaves n)) \<and>
    manifest_readable s' (sr_artifact_digests r) \<and>
    sr_bundle_digest r = Some d \<and> sha256_manifest (sr_artifact_digests r) = Inr d \<and>
    (read_tree s' d = Inr (sort_key fst (sr_artifact_digests r)) \<or> tree_collision s' d (sr_artifact_digests r)) \<and>
    (case sr_input_snapshot r of
       None \<Rightarrow> sr_input_sha256 r = None \<and> cf_input_path cf = None
     | Some x \<Rightarrow> sr_input_sha256 r = Some (snap_digest x) \<and> input_kept s' x)"
proof -
  let ?m = "sr_artifact_digests r" and ?dir = "cf_artifact_dir cf"
  from run_InrD [OF assms(1)] obtain b :: backend and p :: prepared and s1 x out where
    p: "prepare_input staging cf input (Some s) = (Inr p, s1)" and
    f: "finish_run rid ld cf (bk_name b) (followed = None) p x \<lparr>pl_output = out, pl_store = s1\<rparr> = (Inr r, pl')"
    unfolding assms(3) by blast
  have nf: "sr_failure r = None" using assms(2) by (simp add: succeeded_def)
  note fin = finish_run_InrD [OF f, unfolded nf, simplified]
  have out: "out = Some n" using fin assms(5) by simp
  obtain t where t: "s1 = Some t" using prepare_input_extends [OF p] by auto
  from fin t out obtain t1 t2 d where ing: "ingest_artifacts (Some n) ?dir (sr_artifact_paths r) t = (Inr ?m, t1)"
    and tree: "put_tree ?m t1 = (Inr d, t2)" and e: "sr_bundle_digest r = Some d" "pl_store pl' = Some t2"
    by (auto simp: store_outputs_def split: sum.splits prod.splits)
  note i = ingest_artifacts_InrD [OF ing] and pt = put_tree_InrD [OF tree ingest_artifacts_InrD(4) [OF ing]]
  from fin out have col: "collect_artifact_paths ld ?dir (Some n) (Some (cf_max_output_bytes cf)) (Some (cf_max_output_files cf)) =
      Inr (sr_artifact_paths r)" by simp
  then obtain es where es: "n = Folder es" by (cases n) (simp_all add: collect_artifact_paths_def)
  from collect_leaves [OF col [unfolded es]] obtain qs where
    qs: "plain_tree (Folder es)" "sr_artifact_paths r = map (path_join ?dir) qs" "mset qs = mset (map fst (leaves_of es))" by blast
  have m: "mset ?m = mset (manifest_of_leaves [] (leaves n))"
    using collected_manifest [OF assms(6) [unfolded es] qs(3), of ?dir] i(1) qs(2) by (simp add: es)
  have rd: "manifest_readable t2 ?m" using manifest_readable_extends [OF put_tree_extends [OF tree] i(3)] .
  obtain c where "read_blob t2 d = Inr c" using pt(3) by blast
  from read_stored_tree [OF pt(1,2) this] have "read_tree t2 d = Inr (sort_key fst ?m) \<or> tree_collision t2 d ?m" .
  moreover have "extends t t2" using i(2) put_tree_extends [OF tree] by (rule extends_trans)
  then have "case sr_input_snapshot r of
       None \<Rightarrow> sr_input_sha256 r = None \<and> cf_input_path cf = None
     | Some x \<Rightarrow> sr_input_sha256 r = Some (snap_digest x) \<and> input_kept t2 x"
    using prepare_input_archived [OF p assms(4)] fin t input_kept_extends by (auto split: option.splits)
  ultimately show ?thesis using e pt(2) m rd qs(1) es by blast
qed

definition demo_config :: sandbox_config where
  "demo_config = \<lparr>cf_command = [''p''], cf_artifact_dir = \<lparr>path_root = ''/'', path_parts = [''out'']\<rparr>, cf_input_path = None,
     cf_script_path = None, cf_ro_binds = [], cf_env = [], cf_timeout = 300, cf_exec_allowlist = [],
     cf_writable_scratch = True, cf_max_output_bytes = 100, cf_max_output_files = 10\<rparr>"

definition demo_outcome :: execution_outcome where
  "demo_outcome = \<lparr>xo_exit_code = 0, xo_stdout = [], xo_stderr = [], xo_wall_time = PNum 1, xo_timed_out = False,
     xo_image_digest = None, xo_module_sha256 = None, xo_hardening = [], xo_violation = None, xo_cpu_time = None,
     xo_peak_memory = None, xo_runtime = None, xo_limits = [], xo_counters = [], xo_failure = None\<rparr>"

text \<open>A backend that writes one file.\<close>

definition demo_backend :: backend where
  "demo_backend = \<lparr>bk_name = ''demo'', bk_capabilities = {FILESYSTEM_ISOLATION, NETWORK_ISOLATION, HOST_PROCESS},
     bk_available = True, bk_reason = [],
     bk_execute = (\<lambda>cf i out. (Inr demo_outcome, Some (Folder [(''o'', Reg ''x'')])))\<rparr>"

lemma demo_put: "put_bytes ''x'' None (\<lambda>p. None) = (Inr (sha256 ''x''), [sharded ''blobs'' (sha256 ''x'') \<mapsto> Stored ''x''])"
  by (simp add: put_bytes_def put_chunks_def check_digest_def blob_path_def install_def link_new_def Let_def)

lemma sharded_inject: "is_digest d \<Longrightarrow> is_digest e \<Longrightarrow> sharded base d = sharded base e \<Longrightarrow> d = e"
proof -
  assume d: "is_digest d" "is_digest e" and eq: "sharded base d = sharded base e"
  have "length (take 2 d) = length (take 2 e)" using d by (simp add: is_digest_def)
  then have "take 2 d = take 2 e" "drop 2 d = drop 2 e" using eq by (simp_all add: sharded_def)
  then show "d = e" by (metis append_take_drop_id)
qed

lemma demo_put_again: "\<exists>s. put_bytes b None [sharded ''blobs'' (sha256 ''x'') \<mapsto> Stored ''x''] = (Inr (sha256 b), s)"
proof (cases "sharded ''blobs'' (sha256 b) = sharded ''blobs'' (sha256 ''x'')")
  case True
  then have "sha256 b = sha256 ''x''" using sharded_inject is_digest_sha256 by blast
  then show ?thesis
    by (simp add: put_bytes_def put_chunks_def check_digest_def blob_path_def install_def verify_blob_def
        read_file_def Let_def)
next
  case False
  then show ?thesis
    by (simp add: put_bytes_def put_chunks_def check_digest_def blob_path_def install_def link_new_def Let_def)
qed

theorem run_archives_evidence_witness:
  "\<exists>r s. run_in_sandbox ''r'' \<lparr>path_root = ''/'', path_parts = [''tmp'']\<rparr> (\<lambda>t. False) [demo_backend] demo_config no_requirements None None
      \<lparr>pl_output = None, pl_store = Some (\<lambda>p. None)\<rparr> = (Inr r, \<lparr>pl_output = Some (Folder [(''o'', Reg ''x'')]), pl_store = Some s\<rparr>) \<and>
    sr_artifact_digests r = [(''o'', sha256 ''x'')] \<and> manifest_readable s (sr_artifact_digests r)"
proof -
  let ?n = "Folder [(''o'', Reg ''x'')]" and ?m = "[(''o'', sha256 ''x'')]" and ?s0 = "\<lambda>p. None"
  let ?s1 = "[sharded ''blobs'' (sha256 ''x'') \<mapsto> Stored ''x'']"
  have posix: "posix_tree ?n" by (simp add: posix_tree_Folder valid_name_def nul_def)
  have col: "collect_artifact_paths (\<lambda>t. False) (cf_artifact_dir demo_config) (Some ?n) (Some 100) (Some 10) =
      Inr [path_join (cf_artifact_dir demo_config) [''o'']]"
    by (simp add: collect_artifact_paths_def dirs_under_def listed_as_dir_def over_def Let_def)
  have op: "open_regular_file_beneath (Some ?n) \<lparr>path_root = [], path_parts = [''o'']\<rparr> = Inr ''x''"
    by (simp add: open_regular_file_beneath_def check_relative_def unsafe_parts_def lookup_entry_def open_final_def nul_def)
  have ing: "ingest_artifacts (Some ?n) (cf_artifact_dir demo_config) [path_join (cf_artifact_dir demo_config) [''o'']] ?s0 =
      (Inr ?m, ?s1)"
    using hash_leaf(1) [OF posix, of "[''o'']" "''x''" "cf_artifact_dir demo_config"] op
    by (simp add: ingest_artifacts_def under_def put_fd_bytes demo_put as_posix_def)
  have rd: "read_blob ?s1 (sha256 ''x'') = Inr ''x''" by (simp add: read_blob_iff)
  have enc: "encode_manifest ?m = Inr (encode_entry (''o'', sha256 ''x''))"
    by (simp add: encode_manifest_def utf8_ok_ascii is_digest_utf8 [OF is_digest_sha256])
  have chk: "put_tree_check ?s1 ?m = Inr ()" "check_no_file_dir_clash ?m = Inr ()"
    by (simp_all add: check_digest_def has_def blob_path_def validate_tree_path_def unsafe_parts_def
        check_no_file_dir_clash_def directories_of_def nul_def starts_with_def)
  obtain d s2 where tree: "put_tree ?m ?s1 = (Inr d, s2)"
    using demo_put_again [of "encode_entry (''o'', sha256 ''x'')"] enc chk by (auto simp: put_tree_def)
  obtain r where run: "run_in_sandbox ''r'' \<lparr>path_root = ''/'', path_parts = [''tmp'']\<rparr> (\<lambda>t. False) [demo_backend] demo_config
      no_requirements None None \<lparr>pl_output = None, pl_store = Some ?s0\<rparr> = (Inr r, \<lparr>pl_output = Some ?n, pl_store = Some s2\<rparr>)"
    and r: "sr_artifact_digests r = ?m" "sr_failure r = None" "sr_exit_code r = 0" "\<not> sr_timed_out r"
    using col ing tree
    by (auto simp: run_in_sandbox_def fresh_output_def select_backend_def required_capabilities_def BASELINE_CAPABILITIES_def
        no_requirements_def demo_backend_def prepare_input_def demo_config_def finish_run_def settle_def demo_outcome_def
        generic_failure_def store_outputs_def result_of_def)
  have "succeeded r" using r by (simp add: succeeded_def)
  from run_archives_evidence [OF run this _ _ _ posix] run r show ?thesis by auto
qed

end
