(* ===== verification/Bubblewrap.thy ===== *)
theory Bubblewrap
  imports Landlock Runner
begin

text \<open>
  The command line of the bubblewrap sandbox (\<open>BubblewrapSandbox\<close> of
  \<open>stele/containment/sandbox.py\<close>, and its use by \<open>BubblewrapBackend\<close> of
  \<open>stele/containment/backend.py\<close>).  Bubblewrap itself is a parameter: a reader of options whose
  numbers of values are those it documents.  No string of a configuration can become an
  option, and the options are the sandbox's.
\<close>

section \<open>The command line\<close>

definition SANDBOX_OUTPUT :: string where "SANDBOX_OUTPUT = ''/stele/output''"
definition SANDBOX_INPUT_DIR :: string where "SANDBOX_INPUT_DIR = ''/stele/input''"
definition SANDBOX_SCRIPT :: string where "SANDBOX_SCRIPT = ''/stele/parser''"
definition SANDBOX_LANDLOCK :: string where "SANDBOX_LANDLOCK = ''/stele/landlock''"

definition LANDLOCK_WRITE_DEVICES :: "string list" where
  "LANDLOCK_WRITE_DEVICES = [''/dev/null'', ''/dev/zero'', ''/dev/full'']"

definition SYS_RO_REQUIRED :: "string list" where
  "SYS_RO_REQUIRED = [''/usr'']"

definition SYS_RO_TRY :: "string list" where
  "SYS_RO_TRY = [''/lib'', ''/lib64'', ''/lib32'', ''/lib/x86_64-linux-gnu'']"

definition EPHEMERAL_TMPFS :: "string list" where
  "EPHEMERAL_TMPFS = [''/home'', ''/mnt'', ''/root'', ''/run'', ''/var'']"

record landlock_launch =
  ll_python :: string
  ll_script :: string

definition landlock_prefix :: "sandbox_config \<Rightarrow> landlock_launch option \<Rightarrow> string list" where
  "landlock_prefix cf landlock =
     (case landlock of
        None \<Rightarrow> []
      | Some l \<Rightarrow>
          [ll_python l, ''-I'', ''-S'', ''-B'', SANDBOX_LANDLOCK, ''--write'', SANDBOX_OUTPUT]
          @ (if cf_writable_scratch cf then [''--write'', ''/tmp''] else [])
          @ concat (map (\<lambda>device. [''--write-dev'', device]) LANDLOCK_WRITE_DEVICES)
          @ concat (map (\<lambda>program. [''--exec'', program]) (cf_exec_allowlist cf))
          @ [''--''])"

definition input_dest :: "path \<Rightarrow> string" where
  "input_dest p = SANDBOX_INPUT_DIR @ ''/'' @ path_name p"

text \<open>\<open>build_argv\<close>, which also makes the output directory.\<close>

definition build_argv :: "sandbox_config \<Rightarrow> int option \<Rightarrow> landlock_launch option \<Rightarrow> string list" where
  "build_argv cf seccomp_fd landlock =
     [''bwrap'']
     @ concat (map (\<lambda>p. [''--ro-bind'', p, p]) SYS_RO_REQUIRED)
     @ concat (map (\<lambda>p. [''--ro-bind-try'', p, p]) SYS_RO_TRY)
     @ [''--proc'', ''/proc'']
     @ [''--dev'', ''/dev'']
     @ [''--tmpfs'', ''/tmp'']
     @ concat (map (\<lambda>p. [''--tmpfs'', p]) EPHEMERAL_TMPFS)
     @ [''--bind'', as_posix (cf_artifact_dir cf), SANDBOX_OUTPUT]
     @ (case cf_input_path cf of None \<Rightarrow> [] | Some p \<Rightarrow> [''--ro-bind'', as_posix p, input_dest p])
     @ (case cf_script_path cf of None \<Rightarrow> [] | Some p \<Rightarrow> [''--ro-bind'', as_posix p, SANDBOX_SCRIPT])
     @ concat (map (\<lambda>(src, dst). [''--ro-bind'', src, dst]) (cf_ro_binds cf))
     @ (case landlock of None \<Rightarrow> [] | Some l \<Rightarrow> [''--ro-bind'', ll_script l, SANDBOX_LANDLOCK])
     @ [''--remount-ro'', ''/'']
     @ [''--unshare-user'', ''--uid'', ''0'', ''--gid'', ''0'', ''--unshare-net'', ''--unshare-pid'', ''--unshare-uts'',
        ''--unshare-ipc'', ''--unshare-cgroup-try'', ''--new-session'', ''--die-with-parent'']
     @ (case seccomp_fd of None \<Rightarrow> [] | Some fd \<Rightarrow> [''--seccomp'', show_int fd])
     @ [''--clearenv'']
     @ [''--setenv'', ''PATH'', ''/usr/local/bin:/usr/bin:/bin'']
     @ [''--setenv'', ''STELE_OUTPUT_DIR'', SANDBOX_OUTPUT]
     @ (case cf_input_path cf of None \<Rightarrow> [] | Some p \<Rightarrow> [''--setenv'', ''STELE_INPUT_PATH'', input_dest p])
     @ concat (map (\<lambda>(key, val). [''--setenv'', key, val]) (cf_env cf))
     @ [''--chdir'', SANDBOX_OUTPUT]
     @ [''--''] @ landlock_prefix cf landlock @ cf_command cf"

section \<open>What bubblewrap reads\<close>

text \<open>The values bubblewrap documents for the options used; of others nothing is said.\<close>

definition bwrap_values :: "(string \<times> nat) list" where
  "bwrap_values =
     [(''--ro-bind'', 2), (''--ro-bind-try'', 2), (''--bind'', 2), (''--proc'', 1), (''--dev'', 1), (''--tmpfs'', 1),
      (''--remount-ro'', 1), (''--unshare-user'', 0), (''--uid'', 1), (''--gid'', 1), (''--unshare-net'', 0),
      (''--unshare-pid'', 0), (''--unshare-uts'', 0), (''--unshare-ipc'', 0), (''--unshare-cgroup-try'', 0),
      (''--new-session'', 0), (''--die-with-parent'', 0), (''--seccomp'', 1), (''--clearenv'', 0), (''--setenv'', 2),
      (''--chdir'', 1)]"

type_synonym option_values = "string \<times> string list"

text \<open>The reader gathers options and their values in order.\<close>

definition gather :: "string \<Rightarrow> string list \<Rightarrow> option_values list \<Rightarrow> option_values list" where
  "gather x vs os = os @ [(x, vs)]"

text \<open>The options of a run, by what they are for.\<close>

definition mount_binds :: "sandbox_config \<Rightarrow> landlock_launch option \<Rightarrow> option_values list" where
  "mount_binds cf landlock =
     map (\<lambda>p. (''--ro-bind'', [p, p])) SYS_RO_REQUIRED
     @ map (\<lambda>p. (''--ro-bind-try'', [p, p])) SYS_RO_TRY
     @ [(''--proc'', [''/proc'']), (''--dev'', [''/dev'']), (''--tmpfs'', [''/tmp''])]
     @ map (\<lambda>p. (''--tmpfs'', [p])) EPHEMERAL_TMPFS
     @ [(''--bind'', [as_posix (cf_artifact_dir cf), SANDBOX_OUTPUT])]
     @ (case cf_input_path cf of None \<Rightarrow> [] | Some p \<Rightarrow> [(''--ro-bind'', [as_posix p, input_dest p])])
     @ (case cf_script_path cf of None \<Rightarrow> [] | Some p \<Rightarrow> [(''--ro-bind'', [as_posix p, SANDBOX_SCRIPT])])
     @ map (\<lambda>(src, dst). (''--ro-bind'', [src, dst])) (cf_ro_binds cf)
     @ (case landlock of None \<Rightarrow> [] | Some l \<Rightarrow> [(''--ro-bind'', [ll_script l, SANDBOX_LANDLOCK])])"

definition isolation_options :: "int option \<Rightarrow> option_values list" where
  "isolation_options seccomp_fd =
     [(''--unshare-user'', []), (''--uid'', [''0'']), (''--gid'', [''0'']), (''--unshare-net'', []), (''--unshare-pid'', []),
      (''--unshare-uts'', []), (''--unshare-ipc'', []), (''--unshare-cgroup-try'', []), (''--new-session'', []),
      (''--die-with-parent'', [])]
     @ (case seccomp_fd of None \<Rightarrow> [] | Some fd \<Rightarrow> [(''--seccomp'', [show_int fd])])"

definition environment :: "sandbox_config \<Rightarrow> (string \<times> string) list" where
  "environment cf =
     [(''PATH'', ''/usr/local/bin:/usr/bin:/bin''), (''STELE_OUTPUT_DIR'', SANDBOX_OUTPUT)]
     @ (case cf_input_path cf of None \<Rightarrow> [] | Some p \<Rightarrow> [(''STELE_INPUT_PATH'', input_dest p)])
     @ cf_env cf"

definition sandbox_options :: "sandbox_config \<Rightarrow> int option \<Rightarrow> landlock_launch option \<Rightarrow> option_values list" where
  "sandbox_options cf seccomp_fd landlock =
     mount_binds cf landlock @ [(''--remount-ro'', [''/''])] @ isolation_options seccomp_fd @ [(''--clearenv'', [])]
     @ map (\<lambda>(k, v). (''--setenv'', [k, v])) (environment cf) @ [(''--chdir'', [SANDBOX_OUTPUT])]"

definition rendered :: "option_values list \<Rightarrow> string list" where
  "rendered os = concat (map (\<lambda>(x, vs). x # vs) os)"

lemma rendered_simps [simp]:
  "rendered [] = []"
  "rendered ((x, vs) # os) = x # vs @ rendered os"
  "rendered (xs @ ys) = rendered xs @ rendered ys"
  by (simp_all add: rendered_def)

lemma rendered_map:
  "rendered (map (\<lambda>p. (x, f p)) ps) = concat (map (\<lambda>p. x # f p) ps)"
  "rendered (map (\<lambda>(a, b). (x, [a, b])) qs) = concat (map (\<lambda>(a, b). [x, a, b]) qs)"
  by (induction ps) (simp_all add: rendered_def, induction qs, auto)

lemma build_argv_options:
  "build_argv cf fd l = ''bwrap'' # rendered (sandbox_options cf fd l) @ ''--'' # landlock_prefix cf l @ cf_command cf"
  unfolding build_argv_def sandbox_options_def mount_binds_def isolation_options_def environment_def
  by (simp add: rendered_map split: option.split)

lemma options_arity:
  "list_all (\<lambda>(x, vs). map_of bwrap_values x = Some (length vs)) (sandbox_options cf fd l)"
  unfolding sandbox_options_def mount_binds_def isolation_options_def environment_def
  by (auto simp: bwrap_values_def list_all_iff split: option.split)

lemma fold_gather: "fold (\<lambda>(x, vs). gather x vs) os s = s @ os"
  by (induction os arbitrary: s) (auto simp: gather_def)

text \<open>What the options of a run are, and in what order.\<close>

definition is_mount :: "option_values \<Rightarrow> bool" where
  "is_mount o' \<longleftrightarrow> fst o' \<in> {''--bind'', ''--ro-bind'', ''--ro-bind-try'', ''--proc'', ''--dev'', ''--tmpfs'', ''--remount-ro''}"

definition options_confine :: "sandbox_config \<Rightarrow> int option \<Rightarrow> option_values list \<Rightarrow> bool" where
  "options_confine cf fd os \<longleftrightarrow>
     filter (\<lambda>(x, vs). x = ''--bind'') os = [(''--bind'', [as_posix (cf_artifact_dir cf), SANDBOX_OUTPUT])] \<and>
     filter is_mount (dropWhile (\<lambda>o'. o' \<noteq> (''--remount-ro'', [''/''])) os) = [(''--remount-ro'', [''/''])] \<and>
     list_all (\<lambda>x. (x, []) \<in> set os)
       [''--unshare-user'', ''--unshare-net'', ''--unshare-pid'', ''--unshare-uts'', ''--unshare-ipc'', ''--new-session'',
        ''--die-with-parent''] \<and>
     filter (\<lambda>(x, vs). x = ''--seccomp'') os = (case fd of None \<Rightarrow> [] | Some n \<Rightarrow> [(''--seccomp'', [show_int n])]) \<and>
     dropWhile (\<lambda>(x, vs). x \<noteq> ''--clearenv'') os =
       (''--clearenv'', []) # map (\<lambda>(k, v). (''--setenv'', [k, v])) (environment cf) @ [(''--chdir'', [SANDBOX_OUTPUT])] \<and>
     filter (\<lambda>(x, vs). x = ''--setenv'') (takeWhile (\<lambda>(x, vs). x \<noteq> ''--clearenv'') os) = []"

lemma mount_binds_names:
  "o' \<in> set (mount_binds cf l) \<Longrightarrow> fst o' \<in> {''--bind'', ''--ro-bind'', ''--ro-bind-try'', ''--proc'', ''--dev'', ''--tmpfs''}"
  by (auto simp: mount_binds_def split: option.splits)

lemma isolation_names:
  "o' \<in> set (isolation_options fd) \<Longrightarrow> fst o' \<notin> {''--setenv'', ''--clearenv''} \<and> \<not> is_mount o'"
  by (auto simp: isolation_options_def is_mount_def split: option.splits)

lemma filter_map_none: "(\<And>x. \<not> P (f x)) \<Longrightarrow> filter P (map f xs) = []"
  by (simp add: filter_empty_conv)

lemma one_bind:
  "filter (\<lambda>(x, vs). x = ''--bind'') (mount_binds cf l) = [(''--bind'', [as_posix (cf_artifact_dir cf), SANDBOX_OUTPUT])]"
  by (simp add: mount_binds_def filter_map_none case_prod_beta split: option.split)

lemma no_option: "(\<And>o'. o' \<in> set os \<Longrightarrow> \<not> P o') \<Longrightarrow> filter P os = []"
  by (simp add: filter_empty_conv)

lemma before_clearenv:
  "o' \<in> set (mount_binds cf l @ (''--remount-ro'', [''/'']) # isolation_options fd) \<Longrightarrow>
   fst o' \<notin> {''--setenv'', ''--clearenv''}"
  by (auto dest: mount_binds_names isolation_names)

lemma sandbox_options_split:
  "sandbox_options cf fd l = (mount_binds cf l @ (''--remount-ro'', [''/'']) # isolation_options fd)
     @ (''--clearenv'', []) # map (\<lambda>(k, v). (''--setenv'', [k, v])) (environment cf) @ [(''--chdir'', [SANDBOX_OUTPUT])]"
  by (simp add: sandbox_options_def)

lemma options_confine: "options_confine cf fd (sandbox_options cf fd l)"
  unfolding options_confine_def
proof (intro conjI)
  have before: "\<forall>o' \<in> set (mount_binds cf l @ (''--remount-ro'', [''/'']) # isolation_options fd). (\<lambda>(x, vs). x \<noteq> ''--clearenv'') o'"
  proof
    show "(\<lambda>(x, vs). x \<noteq> ''--clearenv'') o'" if "o' \<in> set (mount_binds cf l @ (''--remount-ro'', [''/'']) # isolation_options fd)" for o'
      using before_clearenv [OF that] by (cases o') simp
  qed
  let ?env = "map (\<lambda>(k, v). (''--setenv'', [k, v])) (environment cf)"
  show "filter (\<lambda>(x, vs). x = ''--bind'') (sandbox_options cf fd l) =
      [(''--bind'', [as_posix (cf_artifact_dir cf), SANDBOX_OUTPUT])]"
    by (simp add: sandbox_options_def one_bind isolation_options_def filter_map_none case_prod_beta split: option.split)
  have "filter is_mount (isolation_options fd) = []" "filter is_mount ?env = []"
    using isolation_names by (auto simp: filter_empty_conv is_mount_def)
  moreover have "dropWhile (\<lambda>o'. o' \<noteq> (''--remount-ro'', [''/''])) (sandbox_options cf fd l) =
      (''--remount-ro'', [''/'']) # isolation_options fd @ [(''--clearenv'', [])] @ ?env @ [(''--chdir'', [SANDBOX_OUTPUT])]"
    unfolding sandbox_options_def by (subst dropWhile_append2) (auto dest!: mount_binds_names)
  ultimately show "filter is_mount (dropWhile (\<lambda>o'. o' \<noteq> (''--remount-ro'', [''/''])) (sandbox_options cf fd l)) =
      [(''--remount-ro'', [''/''])]"
    by (simp add: is_mount_def)
  show "list_all (\<lambda>x. (x, []) \<in> set (sandbox_options cf fd l))
       [''--unshare-user'', ''--unshare-net'', ''--unshare-pid'', ''--unshare-uts'', ''--unshare-ipc'', ''--new-session'',
        ''--die-with-parent'']"
    by (simp add: sandbox_options_def isolation_options_def)
  have "filter (\<lambda>(x, vs). x = ''--seccomp'') (mount_binds cf l) = []" "filter (\<lambda>(x, vs). x = ''--seccomp'') ?env = []"
    using mount_binds_names [of _ cf l] by (fastforce intro!: no_option)+
  then show "filter (\<lambda>(x, vs). x = ''--seccomp'') (sandbox_options cf fd l) =
      (case fd of None \<Rightarrow> [] | Some n \<Rightarrow> [(''--seccomp'', [show_int n])])"
    by (simp add: sandbox_options_def isolation_options_def split: option.split)
  show "dropWhile (\<lambda>(x, vs). x \<noteq> ''--clearenv'') (sandbox_options cf fd l) =
      (''--clearenv'', []) # ?env @ [(''--chdir'', [SANDBOX_OUTPUT])]"
    unfolding sandbox_options_split using before by (subst dropWhile_append2) (blast, simp)
  have "takeWhile (\<lambda>(x, vs). x \<noteq> ''--clearenv'') (sandbox_options cf fd l) =
      mount_binds cf l @ (''--remount-ro'', [''/'']) # isolation_options fd"
    unfolding sandbox_options_split using before by (subst takeWhile_append2) (blast, simp)
  then show "filter (\<lambda>(x, vs). x = ''--setenv'') (takeWhile (\<lambda>(x, vs). x \<noteq> ''--clearenv'') (sandbox_options cf fd l)) = []"
    using mount_binds_names [of _ cf l] isolation_names [of _ fd] by (fastforce intro!: no_option)
qed

text \<open>
  C17.  No string of a configuration can become an option of the sandbox.  Whatever the paths,
  extra binds, environment, allowlist and command hold - double dashes, option names, empty
  strings - a bubblewrap that reads its options as documented reads exactly the sandbox's, and
  takes the command to be what follows them.  So the output directory is the only writable
  bind, the root is made read-only after every mount, network and the other namespaces are
  unshared, the filter is installed exactly when there is one, and the environment is cleared
  and then only what Stele and the configuration set.
\<close>

theorem sandbox_argv_confines:
  assumes "option_reader (map_of bwrap_values) dash_ends gather read"
  shows "case build_argv cf fd l of
      [] \<Rightarrow> False
    | program # args \<Rightarrow> program = ''bwrap'' \<and>
        (case read args [] of
           None \<Rightarrow> False
         | Some (os, command) \<Rightarrow> options_confine cf fd os \<and> command = landlock_prefix cf l @ cf_command cf)"
proof -
  have "read (rendered (sandbox_options cf fd l) @ ''--'' # landlock_prefix cf l @ cf_command cf) [] =
      Some (sandbox_options cf fd l, landlock_prefix cf l @ cf_command cf)"
    using option_reader.read_rendered [OF assms options_arity, of "''--'' # landlock_prefix cf l @ cf_command cf"]
    by (simp add: rendered_def fold_gather dash_ends_def)
  then show ?thesis using options_confine by (simp add: build_argv_options)
qed

text \<open>A reader with these laws.\<close>

function read_bwrap :: "string list \<Rightarrow> option_values list \<Rightarrow> (option_values list \<times> string list) option" where
  "read_bwrap [] os = Some (os, [])"
| "read_bwrap (x # args) os =
     (if x = ''--'' then Some (os, args)
      else case map_of bwrap_values x of
        None \<Rightarrow> None
      | Some n \<Rightarrow> if length args < n then None else read_bwrap (drop n args) (gather x (take n args) os))"
  by pat_completeness auto
termination
  by (relation "measure (\<lambda>(args, os). length args)") auto

interpretation bwrap_options: option_reader "map_of bwrap_values" dash_ends gather read_bwrap
proof unfold_locales
  show "read_bwrap (x # vs @ rest) os = read_bwrap rest (gather x vs os)"
    if "map_of bwrap_values x = Some (length vs)" for x vs rest os
  proof -
    have "x \<noteq> ''--''" using that by (auto simp: bwrap_values_def)
    then show ?thesis using that by simp
  qed
qed (auto simp: dash_ends_def split: list.splits if_splits)

text \<open>A hostile environment entry stays one.\<close>

theorem sandbox_argv_confines_witness:
  "case read_bwrap (tl (build_argv (demo_config\<lparr>cf_env := [(''--bind'', ''/ /stele/output'')]\<rparr>) None None)) [] of
     None \<Rightarrow> False
   | Some (os, command) \<Rightarrow> length (filter (\<lambda>(x, vs). x = ''--bind'') os) = 1"
  using sandbox_argv_confines [OF bwrap_options.option_reader_axioms,
      of "demo_config\<lparr>cf_env := [(''--bind'', ''/ /stele/output'')]\<rparr>" None None]
  by (auto simp: options_confine_def split: list.splits option.splits)

section \<open>The command confines itself\<close>

lemma launcher_options_fold:
  "fold (\<lambda>(x, vs). launcher_apply x vs) (map (\<lambda>p. (''--write'', [p])) ps) a = a\<lparr>la_write := la_write a @ ps\<rparr>"
  "fold (\<lambda>(x, vs). launcher_apply x vs) (map (\<lambda>p. (''--write-dev'', [p])) ps) a = a\<lparr>la_devices := la_devices a @ ps\<rparr>"
  "fold (\<lambda>(x, vs). launcher_apply x vs) (map (\<lambda>p. (''--exec'', [p])) ps) a = a\<lparr>la_exec := la_exec a @ ps\<rparr>"
  by (induction ps arbitrary: a) (simp_all add: launcher_apply_def)

definition launcher_args_of :: "sandbox_config \<Rightarrow> launcher_args" where
  "launcher_args_of cf =
     \<lparr>la_write = SANDBOX_OUTPUT # (if cf_writable_scratch cf then [''/tmp''] else []),
      la_devices = LANDLOCK_WRITE_DEVICES, la_exec = cf_exec_allowlist cf\<rparr>"

lemma prefix_parsed:
  "\<exists>args. landlock_prefix cf (Some l) @ cmd = ll_python l # ''-I'' # ''-S'' # ''-B'' # SANDBOX_LANDLOCK # args \<and>
     parse_args args no_args = Some (launcher_args_of cf, cmd)"
proof -
  let ?os = "map (\<lambda>p. (''--write'', [p])) (SANDBOX_OUTPUT # (if cf_writable_scratch cf then [''/tmp''] else []))
     @ map (\<lambda>p. (''--write-dev'', [p])) LANDLOCK_WRITE_DEVICES @ map (\<lambda>p. (''--exec'', [p])) (cf_exec_allowlist cf)"
  have "list_all (\<lambda>(x, vs). launcher_arity x = Some (length vs)) ?os"
    by (auto simp: list_all_iff launcher_arity_def)
  from launcher_options.read_rendered [OF this, of "''--'' # cmd" cmd no_args, folded rendered_def]
  have "parse_args (rendered ?os @ ''--'' # cmd) no_args = Some (fold (\<lambda>(x, vs). launcher_apply x vs) ?os no_args, cmd)"
    unfolding dash_ends_def by simp
  also have "fold (\<lambda>(x, vs). launcher_apply x vs) ?os no_args = launcher_args_of cf"
    unfolding fold_append o_apply launcher_options_fold by (simp add: no_args_def launcher_args_of_def)
  finally have "parse_args (rendered ?os @ ''--'' # cmd) no_args = Some (launcher_args_of cf, cmd)" .
  moreover have "landlock_prefix cf (Some l) @ cmd =
      ll_python l # ''-I'' # ''-S'' # ''-B'' # SANDBOX_LANDLOCK # rendered ?os @ ''--'' # cmd"
    by (simp add: landlock_prefix_def rendered_map LANDLOCK_WRITE_DEVICES_def)
  ultimately show ?thesis by blast
qed

text \<open>
  C16.  The parser runs confined or not at all.  Started on the command line the sandbox builds
  with Landlock, the launcher becomes a program only as the configured command, and only after the
  kernel granted the calls before.  Taken by a kernel that follows the documentation of Landlock,
  those calls leave a task without new privileges, whatever counts as lying beneath a path and
  however the kernel keeps its tasks: the laws of \<open>landlock_kernel\<close> are the premise.  It
  can exercise each right to change the file system exactly beneath \<open>/stele/output\<close>, beneath
  \<open>/tmp\<close> when scratch space is writable, and, to write and truncate, on the device sinks there
  are.  It can execute nothing but what the command, the allowlist and their chains of
  interpreters stand for and what lies beneath that, and it can execute what the command and
  the allowlist resolve to.  All this whatever the allowlist and the command hold.
\<close>

theorem sandboxed_command_confined:
  assumes "landlock_kernel (abi_version h) beneath step building unprivileged permits fresh"
  shows "case landlock_prefix cf (Some l) @ cf_command cf of
     python # i # s # b # script # args \<Rightarrow>
       [python, i, s, b, script] = [ll_python l, ''-I'', ''-S'', ''-B'', SANDBOX_LANDLOCK] \<and>
       (case launcher_main h args of
          (r, calls) \<Rightarrow>
            if r = Started \<or> list_ex is_exec calls
            then cf_command cf \<noteq> [] \<and>
                 confined_as beneath step unprivileged permits fresh h
                   \<lparr>la_write = [''/stele/output''] @ (if cf_writable_scratch cf then [''/tmp''] else []),
                    la_devices = [''/dev/null'', ''/dev/zero'', ''/dev/full''], la_exec = cf_exec_allowlist cf\<rparr>
                   (cf_command cf) calls
            else True)
   | _ \<Rightarrow> False"
proof -
  obtain args where args: "landlock_prefix cf (Some l) @ cf_command cf =
      ll_python l # ''-I'' # ''-S'' # ''-B'' # SANDBOX_LANDLOCK # args"
    "parse_args args no_args = Some (launcher_args_of cf, cf_command cf)"
    using prefix_parsed by blast
  then show ?thesis using launcher_facts [OF assms, of args]
    by (auto simp: launcher_args_of_def SANDBOX_OUTPUT_def LANDLOCK_WRITE_DEVICES_def split: prod.splits if_splits)
qed

text \<open>
  On a host that grants every call and whose programs need no interpreter the parser starts,
  and the task that became it can write to the output but not to \<open>/etc\<close>.
\<close>

definition demo_launch_host :: launch_host where
  "demo_launch_host = \<lparr>hs_version = Some 3, hs_path = ''/usr/bin'', hs_is_file = (\<lambda>p. True), hs_executable = (\<lambda>p. True),
     hs_exists = (\<lambda>p. True), hs_content = (\<lambda>p. Inr []), hs_grants = (\<lambda>before call. True)\<rparr>"

definition demo_launch_args :: "string list" where
  "demo_launch_args = drop 5 (landlock_prefix demo_config (Some \<lparr>ll_python = ''/usr/bin/python3'', ll_script = ''/s''\<rparr>) @ [''p''])"

lemma demo_launch_starts: "fst (launcher_main demo_launch_host demo_launch_args) = Started"
  by code_simp

theorem sandboxed_command_confined_witness:
  "\<exists>k t. launcher_main demo_launch_host demo_launch_args = (Started, k @ [Exec ''/usr/bin/p'' [''p'']]) \<and>
     kernel_run (task_step 3) k fresh_task = Some t \<and> lt_no_new_privs t \<and>
     task_permits starts_with t ''/stele/output/a'' 1 \<and> \<not> task_permits starts_with t ''/etc/a'' 1"
proof -
  obtain calls where m: "launcher_main demo_launch_host demo_launch_args = (Started, calls)"
    using demo_launch_starts by (cases "launcher_main demo_launch_host demo_launch_args") simp
  let ?l = "\<lparr>ll_python = ''/usr/bin/python3'', ll_script = ''/s''\<rparr>"
  have args: "landlock_prefix demo_config (Some ?l) @ cf_command demo_config =
      ''/usr/bin/python3'' # ''-I'' # ''-S'' # ''-B'' # SANDBOX_LANDLOCK # demo_launch_args"
    by (simp add: demo_launch_args_def landlock_prefix_def demo_config_def)
  have abi: "abi_version demo_launch_host = 3" "hs_exists demo_launch_host d"
    "which_program demo_launch_host ''p'' = Some ''/usr/bin/p''" for d
    by (simp_all add: abi_version_def demo_launch_host_def which_program_def os_path_join_def)
  have "confined_as starts_with (task_step 3) lt_no_new_privs (task_permits starts_with) fresh_task demo_launch_host \<lparr>la_write = [''/stele/output'', ''/tmp''],
      la_devices = [''/dev/null'', ''/dev/zero'', ''/dev/full''], la_exec = []\<rparr> [''p''] calls"
    using sandboxed_command_confined [where cf = demo_config and l = ?l, OF landlock_tasks.landlock_kernel_axioms,
        of starts_with demo_launch_host] m
    unfolding args by (simp add: demo_config_def abi)
  then obtain k t where k: "calls = k @ [Exec ''/usr/bin/p'' [''p'']]" "kernel_run (task_step 3) k fresh_task = Some t" "lt_no_new_privs t"
    and t: "confined_task demo_launch_host \<lparr>la_write = [''/stele/output'', ''/tmp''],
      la_devices = [''/dev/null'', ''/dev/zero'', ''/dev/full''], la_exec = []\<rparr> [''p''] starts_with (task_permits starts_with t)"
    unfolding confined_as_def abi by (auto simp: abi(3))
  have "task_permits starts_with t p 1 \<longleftrightarrow> list_ex (\<lambda>d. starts_with d p)
      [''/stele/output'', ''/tmp'', ''/dev/null'', ''/dev/zero'', ''/dev/full'']" for p
    using t by (simp add: confined_task_def abi WRITE_RIGHTS_def FILE_WRITE_RIGHTS_def list_ex_iff)
  then have "task_permits starts_with t ''/stele/output/a'' 1" "\<not> task_permits starts_with t ''/etc/a'' 1"
    by (simp_all add: starts_with_def)
  then show ?thesis using m k by blast
qed

section \<open>The backend\<close>

text \<open>
  The host of \<open>BubblewrapBackend\<close>.  \<open>bh_run\<close> is \<open>run_process\<close>: what the process gave, and for a
  \<open>FileNotFoundError\<close> whether it is the program itself that is missing.
\<close>

record bwrap_host =
  bh_machine :: string
  bh_platform :: string
  bh_status :: "string option"
  bh_abi :: int
  bh_executable :: string
  bh_is_file :: "string \<Rightarrow> bool"
  bh_script :: string
  bh_fd :: int
  bh_output_limit :: int
  bh_wall :: pyfloat
  bh_run :: "string list \<Rightarrow> process_result result \<times> bool"

text \<open>\<open>_sandbox_python\<close>; \<open>bh_executable\<close> is the real path of the running interpreter.\<close>

definition sandbox_python :: "bwrap_host \<Rightarrow> string option" where
  "sandbox_python h = find (\<lambda>c. starts_with ''/usr/'' c \<and> bh_is_file h c) [bh_executable h, ''/usr/bin/python3'']"

definition landlock_launch_of :: "bwrap_host \<Rightarrow> landlock_launch option" where
  "landlock_launch_of h =
     (if bh_abi h < 1 then None
      else case sandbox_python h of
        None \<Rightarrow> None
      | Some python \<Rightarrow> Some \<lparr>ll_python = python, ll_script = bh_script h\<rparr>)"

definition bubblewrap_execute :: "bwrap_host \<Rightarrow> sandbox_config \<Rightarrow> execution_outcome result" where
  "bubblewrap_execute h cf =
     (case filter_for_host (bh_machine h) (bh_platform h) (bh_status h) of
        Inl e \<Rightarrow> Inl e
      | Inr program \<Rightarrow>
          let launch = landlock_launch_of h;
              fd = (if program \<noteq> None then Some (bh_fd h) else None) in
          (case bh_run h (build_argv cf fd launch) of
             (Inl e, missing) \<Rightarrow> Inl (if e = FileNotFoundError \<and> missing then SandboxUnavailableError else e)
           | (Inr p, missing) \<Rightarrow> Inr (bubblewrap_outcome cf program (launch \<noteq> None) (bh_output_limit h) (bh_wall h) p)))"

lemma bubblewrap_failure_None: "bubblewrap_failure cf f p = None \<longleftrightarrow> \<not> pr_timed_out p \<and> pr_returncode p = 0"
  by (auto simp: bubblewrap_failure_def Let_def SIGSYS_def)

lemma bubblewrap_blocked:
  "(case bubblewrap_failure cf f p of None \<Rightarrow> False | Some x \<Rightarrow> rf_reason x = SYSCALL_BLOCKED) \<longleftrightarrow>
   f \<and> \<not> pr_timed_out p \<and> pr_returncode p = 159"
  by (auto simp: bubblewrap_failure_def Let_def SIGSYS_def timeout_failure_def signal_failure_def exit_status_failure_def)

text \<open>
  What a bubblewrap run reports of itself is what was run.  The process behind it was given
  the sandbox's command line; seccomp is reported exactly when a filter was installed in it
  and Landlock exactly when the command goes through the launcher; the run counts as having
  succeeded exactly when the process ended in time with status 0; and a blocked system call is
  reported exactly for status 159 under a filter.
\<close>

theorem bubblewrap_report_exact:
  "case bubblewrap_execute h cf of
     Inl e \<Rightarrow> True
   | Inr x \<Rightarrow>
       \<exists>fd p. fst (bh_run h (build_argv cf fd (landlock_launch_of h))) = Inr p \<and>
         (''seccomp'' \<in> set (xo_hardening x) \<longleftrightarrow> fd \<noteq> None) \<and>
         (''landlock'' \<in> set (xo_hardening x) \<longleftrightarrow> landlock_launch_of h \<noteq> None) \<and>
         (xo_failure x = None \<longleftrightarrow> \<not> pr_timed_out p \<and> pr_returncode p = 0) \<and>
         (xo_timed_out x \<longleftrightarrow> pr_timed_out p) \<and>
         ((case xo_failure x of None \<Rightarrow> False | Some f \<Rightarrow> rf_reason f = SYSCALL_BLOCKED) \<longleftrightarrow>
            fd \<noteq> None \<and> \<not> pr_timed_out p \<and> pr_returncode p = 159)"
proof (cases "filter_for_host (bh_machine h) (bh_platform h) (bh_status h)")
  case (Inr program)
  define fd where "fd = (if program \<noteq> None then Some (bh_fd h) else None)"
  obtain q missing where q: "bh_run h (build_argv cf fd (landlock_launch_of h)) = (q, missing)"
    by (cases "bh_run h (build_argv cf fd (landlock_launch_of h))")
  show ?thesis
  proof (cases q)
    case (Inl e)
    then show ?thesis using Inr q by (simp add: bubblewrap_execute_def Let_def fd_def)
  next
    case p: (Inr p)
    have "program \<noteq> Some []" by (rule filter_for_host_nonempty [OF Inr])
    then have sec: "''seccomp'' \<in> set (hardening_of program l) \<longleftrightarrow> fd \<noteq> None" for l
      by (cases l) (simp_all add: hardening_of_def fd_def)
    have ll: "''landlock'' \<in> set (hardening_of program l) \<longleftrightarrow> l" for l
      by (simp add: hardening_of_def)
    have x: "bubblewrap_execute h cf =
        Inr (bubblewrap_outcome cf program (landlock_launch_of h \<noteq> None) (bh_output_limit h) (bh_wall h) p)"
      using Inr q p by (simp add: bubblewrap_execute_def Let_def fd_def)
    have some: "(program \<noteq> None) = (fd \<noteq> None)" by (simp add: fd_def)
    show ?thesis
      unfolding x sum.case bubblewrap_outcome_def Let_def execution_outcome.simps sec ll some bubblewrap_failure_None
        bubblewrap_blocked
      using q p by (intro exI [of _ fd] exI [of _ p]) simp
  qed
qed (simp add: bubblewrap_execute_def)
end
