(* ===== verification/Processes.thy ===== *)
theory Processes
  imports Bubblewrap
begin

text \<open>
  Running a process under Stele: the bounded capture of its output
  (\<open>stele/containment/capture.py\<close>) and its supervision with a timeout (\<open>run_process\<close> of
  \<open>stele/containment/backend.py\<close>).  The operating system is a parameter: the pieces in which
  the output arrives, how the process ends, and, for the supervision, every interleaving of
  the process, the waiting thread and the timer.
\<close>

section \<open>Bounded capture\<close>

record capture =
  ca_limit :: int
  ca_chunks :: "string list"
  ca_size :: int
  ca_truncated :: bool

definition make_capture :: "int \<Rightarrow> capture result" where
  "make_capture limit =
     (if limit < 0 then Inl ValueError
      else Inr \<lparr>ca_limit = limit, ca_chunks = [], ca_size = 0, ca_truncated = False\<rparr>)"

text \<open>\<open>__call__\<close>: what it returns, and the capture after it.\<close>

definition capture_write :: "string \<Rightarrow> capture \<Rightarrow> int \<times> capture" where
  "capture_write data c =
     (let room = ca_limit c - ca_size c;
          kept = take (nat room) data;
          c' = (if room > 0 then c\<lparr>ca_chunks := ca_chunks c @ [kept], ca_size := ca_size c + int (length kept)\<rparr> else c)
      in (int (length data), if int (length data) > max room 0 then c'\<lparr>ca_truncated := True\<rparr> else c'))"

text \<open>
  \<open>bytes.decode("utf-8", errors="replace")\<close>: each maximal ill-formed subsequence becomes one
  U+FFFD.  \<open>lead\<close> gives the number of bytes that follow a leading byte and the range of the first.
\<close>

definition lead :: "nat \<Rightarrow> (nat \<times> nat \<times> nat) option" where
  "lead n =
     (if n < 128 then Some (0, 128, 191)
      else if 194 \<le> n \<and> n \<le> 223 then Some (1, 128, 191)
      else if n = 224 then Some (2, 160, 191)
      else if n = 237 then Some (2, 128, 159)
      else if 225 \<le> n \<and> n \<le> 239 then Some (2, 128, 191)
      else if n = 240 then Some (3, 144, 191)
      else if 241 \<le> n \<and> n \<le> 243 then Some (3, 128, 191)
      else if n = 244 then Some (3, 128, 143)
      else None)"

text \<open>How many of the next \<open>k\<close> bytes continue the sequence.\<close>

fun continuing :: "nat \<Rightarrow> nat \<Rightarrow> nat \<Rightarrow> string \<Rightarrow> nat" where
  "continuing (Suc k) lo hi (b # bs) = (if lo \<le> code b \<and> code b \<le> hi then Suc (continuing k 128 191 bs) else 0)"
| "continuing _ lo hi _ = 0"

definition replacement :: string where
  "replacement = [CHR 0xEF, CHR 0xBF, CHR 0xBD]"

fun decode_replace :: "string \<Rightarrow> string" where
  "decode_replace [] = []"
| "decode_replace (b # bs) =
     (case lead (code b) of
        None \<Rightarrow> replacement @ decode_replace bs
      | Some (k, lo, hi) \<Rightarrow>
          (let n = continuing k lo hi bs in
           (if n = k then b # take k bs else replacement) @ decode_replace (drop n bs)))"

definition capture_text :: "string \<Rightarrow> capture \<Rightarrow> string" where
  "capture_text stream c =
     decode_replace (concat (ca_chunks c))
     @ (if ca_truncated c
        then CHR 0x0A # ''[stele: '' @ stream @ '' truncated at '' @ show_int (ca_limit c) @ '' bytes]'' @ [CHR 0x0A]
        else [])"

text \<open>\<open>_newlines\<close>: the two replacements, one after the other.\<close>

fun replace_crlf :: "string \<Rightarrow> string" where
  "replace_crlf (a # b # cs) =
     (if a = CHR 0x0D \<and> b = CHR 0x0A then CHR 0x0A # replace_crlf cs else a # replace_crlf (b # cs))"
| "replace_crlf s = s"

definition newlines :: "string \<Rightarrow> string" where
  "newlines text = map (\<lambda>c. if c = CHR 0x0D then CHR 0x0A else c) (replace_crlf text)"

text \<open>
  \<open>_drain\<close>: what reading the pipe gives, piece by piece, until an empty piece or an error.
\<close>

fun drain :: "string result list \<Rightarrow> capture \<Rightarrow> capture" where
  "drain [] c = c"
| "drain (Inl e # rs) c = c"
| "drain (Inr data # rs) c = (if data = [] then c else drain rs (snd (capture_write data c)))"

text \<open>\<open>run_bounded\<close>: the pieces of both streams, and the exit status or, on a timeout, nothing.\<close>

record bounded_run =
  br_returncode :: int
  br_stdout :: string
  br_stderr :: string
  br_timed_out :: bool
  br_stdout_truncated :: bool
  br_stderr_truncated :: bool

definition run_bounded ::
  "(string result list \<times> string result list \<times> int \<times> bool) result \<Rightarrow> int \<Rightarrow> bounded_run result" where
  "run_bounded got limit =
     (case got of
        Inl e \<Rightarrow> Inl e
      | Inr (out_reads, err_reads, status, timed_out) \<Rightarrow>
          (case make_capture limit of
             Inl e \<Rightarrow> Inl e
           | Inr c \<Rightarrow>
               let out = drain out_reads c; err = drain err_reads c in
               Inr \<lparr>br_returncode = status, br_stdout = newlines (capture_text ''stdout'' out),
                    br_stderr = newlines (capture_text ''stderr'' err), br_timed_out = timed_out,
                    br_stdout_truncated = ca_truncated out, br_stderr_truncated = ca_truncated err\<rparr>))"

section \<open>What is kept\<close>

fun write_all :: "string list \<Rightarrow> capture \<Rightarrow> capture" where
  "write_all [] c = c"
| "write_all (d # ds) c = write_all ds (snd (capture_write d c))"

text \<open>A capture that holds the first bytes of \<open>s\<close>, and nothing else.\<close>

definition holds_prefix :: "string \<Rightarrow> capture \<Rightarrow> bool" where
  "holds_prefix s c \<longleftrightarrow>
     0 \<le> ca_limit c \<and> concat (ca_chunks c) = take (nat (ca_limit c)) s \<and>
     ca_size c = int (length (concat (ca_chunks c))) \<and> (ca_truncated c \<longleftrightarrow> ca_limit c < int (length s))"

lemma capture_write_holds:
  assumes "holds_prefix s c"
  shows "holds_prefix (s @ d) (snd (capture_write d c)) \<and> ca_limit (snd (capture_write d c)) = ca_limit c"
proof -
  obtain L where L: "ca_limit c = int L" using assms nonneg_int_cases [of "ca_limit c"] by (auto simp: holds_prefix_def)
  have h: "concat (ca_chunks c) = take L s" "ca_size c = int (min (length s) L)" "ca_truncated c \<longleftrightarrow> L < length s"
    using assms by (simp_all add: holds_prefix_def L)
  show ?thesis
  proof (cases "length s < L")
    case True
    then have "ca_size c = int (length s)" "nat (int L - int (length s)) = L - length s" using h by simp_all
    then show ?thesis using True h by (auto simp: holds_prefix_def capture_write_def Let_def L)
  next
    case False
    then have "ca_size c = int L" using h by simp
    then show ?thesis using False h by (auto simp: holds_prefix_def capture_write_def Let_def L)
  qed
qed

lemma write_all_holds:
  "holds_prefix s c \<Longrightarrow> holds_prefix (s @ concat ds) (write_all ds c) \<and> ca_limit (write_all ds c) = ca_limit c"
proof (induction ds arbitrary: s c)
  case (Cons d ds)
  then show ?case using Cons.IH [of "s @ d" "snd (capture_write d c)"] capture_write_holds [of s c d] by simp
qed simp

lemma drain_writes: "\<exists>ds. drain rs c = write_all ds c"
proof (induction rs arbitrary: c)
  case Nil
  show ?case by (intro exI [of _ "[]"]) simp
next
  case (Cons r rs)
  show ?case
  proof (cases r)
    case (Inr d)
    obtain ds where "drain rs (snd (capture_write d c)) = write_all ds (snd (capture_write d c))" using Cons by blast
    then show ?thesis using Inr by (cases "d = []") (auto intro: exI [of _ "[]"] exI [of _ "d # ds"])
  qed (auto intro: exI [of _ "[]"])
qed

lemma continuing_le: "continuing k lo hi bs \<le> k" "continuing k lo hi bs \<le> length bs"
  by (induction k lo hi bs rule: continuing.induct) auto

lemma decode_replace_length: "length (decode_replace s) \<le> 3 * length s"
proof (induction s rule: decode_replace.induct)
  case (2 b bs)
  show ?case
  proof (cases "lead (code b)")
    case None
    then show ?thesis using 2 by (simp add: replacement_def)
  next
    case (Some t)
    obtain k lo hi where t: "t = (k, lo, hi)" by (cases t)
    note le = continuing_le [of k lo hi bs]
    have "length (decode_replace (drop (continuing k lo hi bs) bs)) \<le> 3 * (length bs - continuing k lo hi bs)"
      using 2(2) [OF Some [unfolded t] refl refl refl] by simp
    then show ?thesis using Some t le by (auto simp: Let_def replacement_def)
  qed
qed simp

lemma continuing_all:
  "continuing 0 lo hi bs = 0"
  "continuing 1 lo hi bs = 1 \<longleftrightarrow> (case bs of b # cs \<Rightarrow> lo \<le> code b \<and> code b \<le> hi | _ \<Rightarrow> False)"
  "continuing 2 lo hi bs = 2 \<longleftrightarrow> (case bs of b # c # cs \<Rightarrow> lo \<le> code b \<and> code b \<le> hi \<and> cont_byte c | _ \<Rightarrow> False)"
  "continuing 3 lo hi bs = 3 \<longleftrightarrow>
     (case bs of b # c # d # cs \<Rightarrow> lo \<le> code b \<and> code b \<le> hi \<and> cont_byte c \<and> cont_byte d | _ \<Rightarrow> False)"
  by (auto simp: numeral_eq_Suc cont_byte_def split: list.splits)

lemma lead_valid:
  assumes "lead (code b) = Some (k, lo, hi)"
  shows "utf8_ok (b # bs) \<longleftrightarrow> continuing k lo hi bs = k \<and> utf8_ok (drop k bs)"
proof -
  consider "code b < 128" "(k, lo, hi) = (0, 128, 191)"
    | "194 \<le> code b" "code b \<le> 223" "(k, lo, hi) = (1, 128, 191)"
    | "code b = 224" "(k, lo, hi) = (2, 160, 191)"
    | "code b = 237" "(k, lo, hi) = (2, 128, 159)"
    | "225 \<le> code b" "code b \<le> 239" "code b \<noteq> 237" "(k, lo, hi) = (2, 128, 191)"
    | "code b = 240" "(k, lo, hi) = (3, 144, 191)"
    | "241 \<le> code b" "code b \<le> 243" "(k, lo, hi) = (3, 128, 191)"
    | "code b = 244" "(k, lo, hi) = (3, 128, 143)"
    using assms unfolding lead_def by (auto split: if_splits)
  then show ?thesis
    by cases (auto simp: continuing_all cont_byte_def Let_def split: list.splits)
qed

lemma lead_None: "lead (code b) = None \<Longrightarrow> \<not> utf8_ok (b # bs)"
  by (auto simp: lead_def Let_def split: if_splits)

text \<open>Text that is valid UTF-8 is decoded as it is.\<close>

lemma decode_replace_valid: "utf8_ok s \<Longrightarrow> decode_replace s = s"
proof (induction s rule: decode_replace.induct)
  case (2 b bs)
  obtain k lo hi where l: "lead (code b) = Some (k, lo, hi)" using lead_None 2(3) by (cases "lead (code b)") auto
  then have "continuing k lo hi bs = k" "utf8_ok (drop k bs)" using 2(3) lead_valid by auto
  then show ?case using l 2(2) [OF l refl refl refl] by simp
qed simp

text \<open>
  C21.  Whatever a parser prints, and in whatever pieces it arrives, Stele keeps exactly its first
  \<open>limit\<close> bytes, says so exactly when there were more, and its text of them is bounded by the
  limit: three bytes for each byte kept, and the note.  Valid UTF-8 within the limit comes out
  as it was printed.
\<close>

theorem capture_exact:
  "case make_capture limit of
     Inl e \<Rightarrow> limit < 0
   | Inr c \<Rightarrow>
       (let kept = write_all ds c; printed = concat ds in
        concat (ca_chunks kept) = take (nat limit) printed \<and>
        (ca_truncated kept \<longleftrightarrow> limit < int (length printed)) \<and>
        int (length (capture_text stream kept)) \<le> 3 * limit + int (length stream + length (show_int limit) + 31) \<and>
        (if utf8_ok printed \<and> int (length printed) \<le> limit then capture_text stream kept = printed else True))"
proof (cases "limit < 0")
  case False
  define c where "c = \<lparr>ca_limit = limit, ca_chunks = [], ca_size = 0, ca_truncated = False\<rparr>"
  have m: "make_capture limit = Inr c" using False by (simp add: make_capture_def c_def)
  have "holds_prefix [] c" using False by (simp add: holds_prefix_def c_def)
  from write_all_holds [OF this, of ds] have h: "holds_prefix (concat ds) (write_all ds c)" "ca_limit (write_all ds c) = limit"
    by (simp_all add: c_def)
  then have kept: "concat (ca_chunks (write_all ds c)) = take (nat limit) (concat ds)"
    "ca_truncated (write_all ds c) \<longleftrightarrow> limit < int (length (concat ds))"
    by (simp_all add: holds_prefix_def)
  have "length (decode_replace (take (nat limit) (concat ds))) \<le> 3 * nat limit"
    using decode_replace_length [of "take (nat limit) (concat ds)"] by (simp add: min_def split: if_splits)
  then have "int (length (decode_replace (take (nat limit) (concat ds)))) \<le> 3 * limit" using False by linarith
  moreover have "int (length (capture_text stream (write_all ds c))) \<le>
      int (length (decode_replace (take (nat limit) (concat ds)))) + int (length stream + length (show_int limit) + 31)"
    unfolding capture_text_def kept(1) h(2) by simp
  moreover have "capture_text stream (write_all ds c) = concat ds" if "utf8_ok (concat ds)" "int (length (concat ds)) \<le> limit"
    using that kept decode_replace_valid by (simp add: capture_text_def)
  ultimately show ?thesis using m kept by (simp add: Let_def)
qed (simp add: make_capture_def)

section \<open>Supervision\<close>

text \<open>
  \<open>run_process\<close> after it started the process: the kernel's view of it, where the thread
  that waits for it is, and the timer.  \<open>Returned\<close> is after \<open>os.wait4\<close> and before the lock was
  taken to say so.
\<close>

datatype kernel_process = Running | Zombie | Freed

datatype waiter = Waiting | Returned | Marked

record supervised =
  sv_process :: kernel_process
  sv_waiter :: waiter
  sv_armed :: bool
  sv_killed :: bool
  sv_signals :: "kernel_process list"

definition supervised_start :: supervised where
  "supervised_start = \<lparr>sv_process = Running, sv_waiter = Waiting, sv_armed = True, sv_killed = False, sv_signals = []\<rparr>"

text \<open>
  \<open>kill_group\<close>, under the lock: nothing once \<open>reaped\<close> is set; otherwise it notes that it
  killed, and signals whatever the process id now stands for.
\<close>

definition kill_group :: "supervised \<Rightarrow> supervised" where
  "kill_group s =
     (if sv_waiter s = Marked then s
      else s\<lparr>sv_killed := True, sv_signals := sv_signals s @ [sv_process s]\<rparr>)"

inductive supervise :: "supervised \<Rightarrow> supervised \<Rightarrow> bool" where
  exits: "sv_process s = Running \<Longrightarrow> supervise s (s\<lparr>sv_process := Zombie\<rparr>)"
| waits: "sv_process s = Zombie \<Longrightarrow> sv_waiter s = Waiting \<Longrightarrow> supervise s (s\<lparr>sv_process := Freed, sv_waiter := Returned\<rparr>)"
| marks: "sv_waiter s = Returned \<Longrightarrow> supervise s (s\<lparr>sv_waiter := Marked\<rparr>)"
| fires: "sv_armed s \<Longrightarrow> supervise s ((kill_group s)\<lparr>sv_armed := False\<rparr>)"
| cancels: "sv_waiter s = Marked \<Longrightarrow> supervise s (s\<lparr>sv_armed := False\<rparr>)"

inductive_cases superviseE: "supervise s s'"

definition supervision_sound :: "supervised \<Rightarrow> bool" where
  "supervision_sound s \<longleftrightarrow>
     (sv_killed s \<longleftrightarrow> sv_signals s \<noteq> []) \<and> length (sv_signals s) \<le> (if sv_armed s then 0 else 1) \<and>
     (sv_waiter s = Waiting \<longleftrightarrow> sv_process s \<noteq> Freed) \<and>
     (Freed \<in> set (sv_signals s) \<longrightarrow> sv_waiter s \<noteq> Waiting)"

lemma supervision_invariant: "supervise\<^sup>*\<^sup>* supervised_start s \<Longrightarrow> supervision_sound s"
proof (induction rule: rtranclp_induct)
  case base
  show ?case by (simp add: supervision_sound_def supervised_start_def)
next
  case (step s t)
  from step(2,3) show ?case
    by (elim superviseE) (auto simp: supervision_sound_def kill_group_def split: if_splits)
qed

lemma marked_quiet:
  assumes "supervise\<^sup>*\<^sup>* s t" "sv_waiter s = Marked"
  shows "sv_waiter t = Marked \<and> sv_signals t = sv_signals s \<and> sv_killed t = sv_killed s"
  using assms
proof (induction rule: rtranclp_induct)
  case (step t u)
  from step(2) step.IH [OF step.prems] show ?case
    by (elim superviseE) (auto simp: kill_group_def split: if_splits)
qed simp

text \<open>A step that signals: it is the timer's, the first, and before the reaping was noted.\<close>

lemma signalling_step:
  assumes "supervise s s'" "supervision_sound s" "sv_signals s' \<noteq> sv_signals s"
  shows "sv_armed s \<and> sv_signals s = [] \<and> sv_signals s' = [sv_process s] \<and> sv_killed s' \<and> sv_waiter s \<noteq> Marked \<and>
    (sv_process s = Freed \<longleftrightarrow> sv_waiter s = Returned)"
  using assms by (elim superviseE) (cases "sv_waiter s"; auto simp: supervision_sound_def kill_group_def split: if_splits)+

text \<open>
  C20.  Supervising a process: in every interleaving of the process, the waiting thread and the
  timer, at most one signal is sent, and the run counts as timed out exactly when one was.  The
  signal is the timer's, sent before the waiting thread has noted that the process was reaped;
  it goes to the run's own process, running or a zombie, with one exception: when it falls
  between the return of \<open>os.wait4\<close> and that note, the process id is free already and may be
  another's.  Once the note is made no signal is sent and the verdict no longer changes.
\<close>

theorem supervision_signals_once:
  assumes "supervise\<^sup>*\<^sup>* supervised_start s" "supervise s s'" "supervise\<^sup>*\<^sup>* s' t"
  shows "length (sv_signals s) \<le> 1 \<and> (sv_killed s \<longleftrightarrow> sv_signals s \<noteq> []) \<and>
    (sv_signals s' \<noteq> sv_signals s \<longrightarrow>
       sv_armed s \<and> sv_signals s = [] \<and> sv_signals s' = [sv_process s] \<and> sv_waiter s \<noteq> Marked \<and>
       (sv_process s = Freed \<longleftrightarrow> sv_waiter s = Returned)) \<and>
    (sv_waiter s = Marked \<longrightarrow> sv_signals t = sv_signals s \<and> (sv_killed t \<longleftrightarrow> sv_killed s))"
proof -
  have sound: "supervision_sound s" by (rule supervision_invariant [OF assms(1)])
  have "supervise\<^sup>*\<^sup>* s t" using assms(2,3) by (rule converse_rtranclp_into_rtranclp)
  then show ?thesis
    using sound signalling_step [OF assms(2) sound] marked_quiet [of s t]
    by (auto simp: supervision_sound_def split: if_splits)
qed

definition demo_timeout :: supervised where
  "demo_timeout = \<lparr>sv_process = Running, sv_waiter = Waiting, sv_armed = False, sv_killed = True, sv_signals = [Running]\<rparr>"

lemma demo_timeout_step: "supervise supervised_start demo_timeout"
proof -
  have "supervise supervised_start ((kill_group supervised_start)\<lparr>sv_armed := False\<rparr>)"
    by (rule fires) (simp add: supervised_start_def)
  then show ?thesis by (simp add: kill_group_def supervised_start_def demo_timeout_def)
qed

theorem supervision_signals_once_witness:
  "supervise supervised_start demo_timeout \<and> sv_signals demo_timeout = [sv_process supervised_start]"
  using supervision_signals_once [OF rtranclp.rtrancl_refl demo_timeout_step rtranclp.rtrancl_refl] demo_timeout_step
  by (simp add: demo_timeout_def supervised_start_def)

text \<open>
  The comment in \<open>kill_group\<close> is not quite true: a signal can be sent to a process id
  that was already reaped, and so may be another's.  Between the return of \<open>os.wait4\<close> and
  the taking of the lock the timer may fire.
\<close>

theorem signal_after_reaping_reachable:
  "\<exists>s. supervise\<^sup>*\<^sup>* supervised_start s \<and> sv_signals s = [Freed] \<and> sv_killed s"
proof -
  define s1 where "s1 = supervised_start\<lparr>sv_process := Zombie\<rparr>"
  define s2 where "s2 = s1\<lparr>sv_process := Freed, sv_waiter := Returned\<rparr>"
  define s3 where "s3 = (kill_group s2)\<lparr>sv_armed := False\<rparr>"
  have "supervise supervised_start s1" unfolding s1_def by (rule exits) (simp add: supervised_start_def)
  then have "supervise\<^sup>*\<^sup>* supervised_start s1" by blast
  moreover have "supervise s1 s2" unfolding s2_def by (rule waits) (simp_all add: s1_def supervised_start_def)
  moreover have "supervise s2 s3" unfolding s3_def by (rule fires) (simp add: s2_def s1_def supervised_start_def)
  ultimately have "supervise\<^sup>*\<^sup>* supervised_start s3" by (blast intro: rtranclp.rtrancl_into_rtrancl)
  then show ?thesis
    by (intro exI [of _ s3]) (simp add: s3_def s2_def s1_def kill_group_def supervised_start_def)
qed

end
