(* ===== verification/Database.thy ===== *)
theory Database
  imports Models Hashing
begin

text \<open>
  The ledger's database: its tables (the DDL of \<open>stele/ledger/store.py\<close> and
  \<open>stele/ledger/events.py\<close>), the constraints SQLite enforces on an insert, the write
  transaction, and appending to the event chain.  A table is the list of its rows in
  insertion order; queries that sort, sort.  No statement of the program updates or
  deletes a row of the append-only tables.
\<close>

section \<open>Tables\<close>

record event_row =
  ev_seq :: int
  ev_kind :: string
  ev_subject :: string
  ev_body :: string
  ev_at :: string
  ev_prev_hash :: string
  ev_hash :: string

text \<open>
  A row of \<open>artifact_records\<close>.  The manifest column, JSON that is never hashed or
  compared as text, is kept decoded (\<open>None\<close> when its text is not JSON).
\<close>

record record_row =
  r_record_id :: string
  r_run_id :: string
  r_source_path :: "string option"
  r_source_id :: "string option"
  r_source_hash :: "string option"
  r_source_kind :: "string option"
  r_parser_name :: "string option"
  r_parser_version :: "string option"
  r_parser_image_digest :: "string option"
  r_parser_module_sha256 :: "string option"
  r_parser_config :: "string option"
  r_backend :: "string option"
  r_artifact_dir :: string
  r_artifact_manifest :: "json option"
  r_artifact_hash :: string
  r_state :: string
  r_created_at :: string
  r_finalized_at :: "string option"
  r_error :: "string option"
  r_legacy_source_hash :: "string option"
  r_run_conditions :: "string option"

record delivery_row =
  d_dispatch_id :: string
  d_record_id :: string
  d_target_kind :: string
  d_target :: string
  d_created_at :: string

record delivery_event_row =
  e_event_id :: int
  e_dispatch_id :: string
  e_event :: string
  e_planned :: "int option"
  e_chunks_digest :: "string option"
  e_done :: "int option"
  e_error :: "string option"
  e_at :: string
  e_attempt_id :: "string option"

text \<open>The differences column, JSON that is never hashed or compared as text, is kept decoded.\<close>

record replay_row =
  p_replay_id :: string
  p_record_id :: string
  p_outcome :: string
  p_reason :: string
  p_replay_run_id :: "string option"
  p_replay_artifact_hash :: "string option"
  p_differences :: "string list"
  p_policy :: "string option"
  p_backend :: "string option"
  p_platform :: string
  p_replayed_at :: string

record database =
  db_records :: "record_row list"
  db_deliveries :: "delivery_row list"
  db_delivery_events :: "delivery_event_row list"
  db_replays :: "replay_row list"
  db_events :: "event_row list"
  db_version :: int

definition empty_database :: "int \<Rightarrow> database" where
  "empty_database v =
     \<lparr>db_records = [], db_deliveries = [], db_delivery_events = [], db_replays = [], db_events = [],
      db_version = v\<rparr>"

section \<open>Transactions\<close>

text \<open>\<open>write_transaction\<close>: the block's changes commit together, or an exception rolls all
  of them back.  The write lock makes a transaction one step.\<close>

definition write_transaction :: "('s \<Rightarrow> 'a result \<times> 's) \<Rightarrow> 's \<Rightarrow> 'a result \<times> 's" where
  "write_transaction block db =
     (case block db of (Inl e, _) \<Rightarrow> (Inl e, db) | (Inr x, db') \<Rightarrow> (Inr x, db'))"

lemma write_transaction_Inl: "write_transaction f db = (Inl e, db') \<Longrightarrow> db' = db"
  by (auto simp: write_transaction_def split: prod.splits sum.splits)

lemma write_transaction_Inr: "write_transaction f db = (Inr x, db') \<longleftrightarrow> f db = (Inr x, db')"
  by (auto simp: write_transaction_def split: prod.splits sum.splits)

section \<open>The event chain\<close>

definition GENESIS :: string where
  "GENESIS = replicate 64 (CHR ''0'')"

definition event_obj :: "int \<Rightarrow> string \<Rightarrow> string \<Rightarrow> string \<Rightarrow> string \<Rightarrow> string \<Rightarrow> json" where
  "event_obj seq kind subject body ts prev_hash =
     JObj [(''seq'', JInt seq), (''kind'', JStr kind), (''subject'', JStr subject),
           (''body'', JStr body), (''at'', JStr ts), (''prev'', JStr prev_hash)]"

definition event_hash ::
  "int \<Rightarrow> string \<Rightarrow> string \<Rightarrow> string \<Rightarrow> string \<Rightarrow> string \<Rightarrow> string result" where
  "event_hash seq kind subject body ts prev_hash =
     map_sum id sha256 (canonical_json (event_obj seq kind subject body ts prev_hash))"

text \<open>\<open>SELECT seq, hash FROM events ORDER BY seq DESC LIMIT 1\<close>.\<close>

definition last_event :: "event_row list \<Rightarrow> event_row option" where
  "last_event evs = (case rev (sort_key ev_seq evs) of [] \<Rightarrow> None | e # _ \<Rightarrow> Some e)"

text \<open>
  \<open>append_event\<close>: \<open>ts\<close> is the time it is given or reads.  The table's \<open>hash\<close> is unique,
  its \<open>seq\<close> the primary key.
\<close>

definition append_event ::
  "string \<Rightarrow> string \<Rightarrow> json \<Rightarrow> string \<Rightarrow> database \<Rightarrow> event_row result \<times> database" where
  "append_event kind subject body ts db =
     (let (seq, prev) =
        (case last_event (db_events db) of None \<Rightarrow> (1, GENESIS) | Some e \<Rightarrow> (ev_seq e + 1, ev_hash e))
      in case canonical_json body of
           Inl x \<Rightarrow> (Inl x, db)
         | Inr body_json \<Rightarrow>
             (case event_hash seq kind subject body_json ts prev of
                Inl x \<Rightarrow> (Inl x, db)
              | Inr digest \<Rightarrow>
                  if seq \<in> set (map ev_seq (db_events db)) \<or> digest \<in> set (map ev_hash (db_events db))
                  then (Inl SqliteIntegrityError, db)
                  else let ev = \<lparr>ev_seq = seq, ev_kind = kind, ev_subject = subject, ev_body = body_json,
                                 ev_at = ts, ev_prev_hash = prev, ev_hash = digest\<rparr>
                       in (Inr ev, db\<lparr>db_events := db_events db @ [ev]\<rparr>)))"

section \<open>Inserts and their constraints\<close>

text \<open>Binding a text parameter encodes it as UTF-8.\<close>

definition texts_ok :: "string option list \<Rightarrow> bool" where
  "texts_ok ts \<longleftrightarrow> list_all (\<lambda>t. case t of None \<Rightarrow> True | Some s \<Rightarrow> utf8_ok s) ts"

definition record_texts :: "record_row \<Rightarrow> string option list" where
  "record_texts r =
     [Some (r_record_id r), Some (r_run_id r), r_source_path r, r_source_id r, r_source_hash r,
      r_source_kind r, r_parser_name r, r_parser_version r, r_parser_image_digest r,
      r_parser_module_sha256 r, r_parser_config r, r_backend r, Some (r_artifact_dir r),
      Some (r_artifact_hash r), Some (r_state r), Some (r_created_at r), r_finalized_at r, r_error r,
      r_legacy_source_hash r, r_run_conditions r]"

text \<open>The \<open>CHECK\<close>s of \<open>artifact_records\<close>.\<close>

definition record_checks :: "record_row \<Rightarrow> bool" where
  "record_checks r \<longleftrightarrow>
     r_source_kind r \<in> {None, Some ''file'', Some ''tree''} \<and>
     r_state r \<in> {''pending'', ''sealed'', ''failed'', ''invalidated''} \<and>
     (r_source_hash r = None) = (r_source_kind r = None) \<and>
     (r_parser_name r = None) = (r_parser_version r = None) \<and>
     (r_parser_name r = None) = (r_parser_config r = None)"

definition insert_record :: "record_row \<Rightarrow> database \<Rightarrow> unit result \<times> database" where
  "insert_record r db =
     (if \<not> texts_ok (record_texts r) then (Inl UnicodeError, db)
      else if \<not> record_checks r \<or> r_record_id r \<in> set (map r_record_id (db_records db))
           \<or> r_run_id r \<in> set (map r_run_id (db_records db))
      then (Inl SqliteIntegrityError, db)
      else (Inr (), db\<lparr>db_records := db_records db @ [r]\<rparr>))"

text \<open>
  \<open>INSERT OR IGNORE INTO deliveries\<close>: a duplicate is ignored (\<open>False\<close>), an unknown
  record is not.
\<close>

definition insert_delivery :: "delivery_row \<Rightarrow> database \<Rightarrow> bool result \<times> database" where
  "insert_delivery d db =
     (if \<not> texts_ok (map Some [d_dispatch_id d, d_record_id d, d_target_kind d, d_target d, d_created_at d])
      then (Inl UnicodeError, db)
      else if d_dispatch_id d \<in> set (map d_dispatch_id (db_deliveries db))
           \<or> (d_record_id d, d_target_kind d, d_target d)
               \<in> set (map (\<lambda>x. (d_record_id x, d_target_kind x, d_target x)) (db_deliveries db))
      then (Inr False, db)
      else if d_record_id d \<notin> set (map r_record_id (db_records db)) then (Inl SqliteIntegrityError, db)
      else (Inr True, db\<lparr>db_deliveries := db_deliveries db @ [d]\<rparr>))"

definition delivery_event_names :: "string list" where
  "delivery_event_names =
     [''intent'', ''receipt'', ''failure'', ''removal_intent'', ''removal_receipt'', ''removal_failure'']"

text \<open>The trigger \<open>delivery_events_one_payload\<close>.\<close>

definition payload_conflict :: "delivery_event_row \<Rightarrow> database \<Rightarrow> bool" where
  "payload_conflict e db \<longleftrightarrow>
     e_event e = ''intent'' \<and>
     (e_chunks_digest e = None \<or> e_planned e = None \<or>
      (\<exists>x \<in> set (db_delivery_events db).
         e_dispatch_id x = e_dispatch_id e \<and> e_event x = ''intent'' \<and>
         (e_chunks_digest x \<noteq> e_chunks_digest e \<or> e_planned x \<noteq> e_planned e)))"

text \<open>\<open>AUTOINCREMENT\<close> on a table from which nothing is deleted.\<close>

definition next_event_id :: "delivery_event_row list \<Rightarrow> int" where
  "next_event_id es = fold max (map e_event_id es) 0 + 1"

definition insert_delivery_event :: "delivery_event_row \<Rightarrow> database \<Rightarrow> unit result \<times> database" where
  "insert_delivery_event e db =
     (if \<not> texts_ok [Some (e_dispatch_id e), Some (e_event e), e_chunks_digest e, e_error e, Some (e_at e),
                     e_attempt_id e]
      then (Inl UnicodeError, db)
      else if payload_conflict e db \<or> e_event e \<notin> set delivery_event_names
           \<or> e_dispatch_id e \<notin> set (map d_dispatch_id (db_deliveries db))
      then (Inl SqliteIntegrityError, db)
      else (Inr (), db\<lparr>db_delivery_events := db_delivery_events db
             @ [e\<lparr>e_event_id := next_event_id (db_delivery_events db)\<rparr>]\<rparr>))"

definition replay_outcomes :: "string list" where
  "replay_outcomes = [''reproduced'', ''equivalent'', ''diverged'', ''unreplayable'', ''failed'']"

definition insert_replay :: "replay_row \<Rightarrow> database \<Rightarrow> unit result \<times> database" where
  "insert_replay p db =
     (if \<not> texts_ok [Some (p_replay_id p), Some (p_record_id p), Some (p_outcome p), Some (p_reason p),
                     p_replay_run_id p, p_replay_artifact_hash p, p_policy p,
                     p_backend p, Some (p_platform p), Some (p_replayed_at p)]
      then (Inl UnicodeError, db)
      else if p_replay_id p \<in> set (map p_replay_id (db_replays db)) \<or> p_outcome p \<notin> set replay_outcomes
           \<or> p_record_id p \<notin> set (map r_record_id (db_records db))
      then (Inl SqliteIntegrityError, db)
      else (Inr (), db\<lparr>db_replays := db_replays db @ [p]\<rparr>))"

section \<open>Event bodies\<close>

definition loads_column :: "string option \<Rightarrow> json result" where
  "loads_column t =
     (case t of None \<Rightarrow> Inr JNull
      | Some s \<Rightarrow> (case json_loads s of None \<Rightarrow> Inl ValueError | Some j \<Rightarrow> Inr j))"

definition parser_obj :: "record_row \<Rightarrow> json" where
  "parser_obj r =
     (case r_parser_name r of
        None \<Rightarrow> JNull
      | Some n \<Rightarrow>
          JObj [(''name'', JStr n), (''version'', opt_str (r_parser_version r)),
                (''image_digest'', opt_str (r_parser_image_digest r)),
                (''module_sha256'', opt_str (r_parser_module_sha256 r))])"

definition record_body :: "record_row \<Rightarrow> bool \<Rightarrow> json result" where
  "record_body r with_state =
     (case loads_column (r_parser_config r) of
        Inl e \<Rightarrow> Inl e
      | Inr config \<Rightarrow>
          (case loads_column (r_run_conditions r) of
             Inl e \<Rightarrow> Inl e
           | Inr conditions \<Rightarrow>
               Inr (JObj ([(''run_id'', JStr (r_run_id r)),
                           (''artifact_hash'', JStr (r_artifact_hash r)),
                           (''source_hash'', opt_str (r_source_hash r)),
                           (''source_kind'', opt_str (r_source_kind r)),
                           (''source_id'', opt_str (r_source_id r)),
                           (''parser'', parser_obj r),
                           (''parser_config'', config),
                           (''backend'', opt_str (r_backend r)),
                           (''run_conditions'', conditions)]
                   @ (if with_state then [(''state'', JStr (r_state r)), (''error'', opt_str (r_error r))]
                      else [])))))"

definition delivery_body :: "string \<Rightarrow> string \<Rightarrow> string \<Rightarrow> json" where
  "delivery_body record_id kind target =
     JObj [(''record_id'', JStr record_id), (''target_kind'', JStr kind), (''target'', JStr target)]"

definition delivery_event_body :: "delivery_event_row \<Rightarrow> json" where
  "delivery_event_body e =
     JObj [(''event'', JStr (e_event e)), (''planned'', opt_int (e_planned e)),
           (''chunks_digest'', opt_str (e_chunks_digest e)), (''done'', opt_int (e_done e)),
           (''error'', opt_str (e_error e)), (''attempt_id'', opt_str (e_attempt_id e))]"

end
