(* ===== verification/Chain.thy ===== *)
theory Chain
  imports Database
begin

text \<open>
  Verifying the hash-chained event log (\<open>EventLog\<close> of \<open>stele/ledger/events.py\<close>).  The
  main results: verification succeeds exactly on intact chains, appending keeps a chain
  intact, and a chain that verifies against an anchored head contains the anchored
  history unchanged, or two events at one place collide.
\<close>

section \<open>Reading and verifying\<close>

text \<open>\<open>events(after=...)\<close>, \<open>for_subject\<close> and \<open>head\<close>; a body that is not JSON raises.\<close>

fun row_events :: "event_row list \<Rightarrow> (event_row \<times> json) list result" where
  "row_events [] = Inr []"
| "row_events (r # rs) =
     (case json_loads (ev_body r) of
        None \<Rightarrow> Inl ValueError
      | Some b \<Rightarrow> (case row_events rs of Inl e \<Rightarrow> Inl e | Inr es \<Rightarrow> Inr ((r, b) # es)))"

definition log_events :: "int \<Rightarrow> database \<Rightarrow> (event_row \<times> json) list result" where
  "log_events after db = row_events (filter (\<lambda>r. after < ev_seq r) (sort_key ev_seq (db_events db)))"

definition log_for_subject :: "string \<Rightarrow> database \<Rightarrow> (event_row \<times> json) list result" where
  "log_for_subject subject db =
     row_events (filter (\<lambda>r. ev_subject r = subject) (sort_key ev_seq (db_events db)))"

definition log_head :: "database \<Rightarrow> (int \<times> string) option" where
  "log_head db = map_option (\<lambda>e. (ev_seq e, ev_hash e)) (last_event (db_events db))"

datatype chain_problem =
    Missing int int
  | NotFollowing int
  | Altered int
  | AnchorMismatch int
  | Truncated int

record chain_report =
  cr_length :: int
  cr_head :: "(int \<times> string) option"
  cr_problems :: "chain_problem list"

type_synonym anchor = "(int \<times> string) option"

definition row_hash :: "event_row \<Rightarrow> string result" where
  "row_hash r = event_hash (ev_seq r) (ev_kind r) (ev_subject r) (ev_body r) (ev_at r) (ev_prev_hash r)"

text \<open>The loop of \<open>verify\<close>: the anchor, the rows, then its five variables.\<close>

fun verify_rows ::
  "anchor \<Rightarrow> event_row list \<Rightarrow> string \<Rightarrow> int \<Rightarrow> (int \<times> string) option \<Rightarrow> bool \<Rightarrow> chain_problem list \<Rightarrow>
   ((int \<times> string) option \<times> bool \<times> chain_problem list) result" where
  "verify_rows anchor [] prev expected head seen ps = Inr (head, seen, ps)"
| "verify_rows anchor (r # rs) prev expected head seen ps =
     (let seq = ev_seq r;
          ps1 = (if seq \<noteq> expected then ps @ [Missing expected seq] else ps);
          ps2 = (if ev_prev_hash r \<noteq> prev then ps1 @ [NotFollowing seq] else ps1)
      in case row_hash r of
           Inl e \<Rightarrow> Inl e
         | Inr h \<Rightarrow>
             let ps3 = (if h \<noteq> ev_hash r then ps2 @ [Altered seq] else ps2);
                 (seen', ps4) =
                   (case anchor of
                      None \<Rightarrow> (seen, ps3)
                    | Some (a, ah) \<Rightarrow>
                        if seq = a
                        then (ev_hash r = ah, if ev_hash r = ah then ps3 else ps3 @ [AnchorMismatch seq])
                        else (seen, ps3))
             in verify_rows anchor rs (ev_hash r) (seq + 1) (Some (seq, ev_hash r)) seen' ps4)"

definition verify :: "anchor \<Rightarrow> database \<Rightarrow> chain_report result" where
  "verify anchor db =
     (case verify_rows anchor (sort_key ev_seq (db_events db)) GENESIS 1 None (anchor = None) [] of
        Inl e \<Rightarrow> Inl e
      | Inr (head, seen, ps) \<Rightarrow>
          let ps' = (case anchor of
                       None \<Rightarrow> ps
                     | Some (a, ah) \<Rightarrow>
                         if \<not> seen \<and> (case head of None \<Rightarrow> True | Some (s, h) \<Rightarrow> s < a)
                         then ps @ [Truncated a] else ps)
          in Inr \<lparr>cr_length = (case head of None \<Rightarrow> 0 | Some (s, h) \<Rightarrow> s), cr_head = head,
                  cr_problems = ps'\<rparr>)"

text \<open>\<open>report.ok\<close>.\<close>

definition chain_verifies :: "anchor \<Rightarrow> database \<Rightarrow> bool" where
  "chain_verifies anchor db =
     (case verify anchor db of Inl e \<Rightarrow> False | Inr rep \<Rightarrow> cr_problems rep = [])"

section \<open>Intact chains\<close>

fun chain_ok :: "string \<Rightarrow> int \<Rightarrow> event_row list \<Rightarrow> bool" where
  "chain_ok prev n [] = True"
| "chain_ok prev n (r # rs) =
     (ev_seq r = n \<and> ev_prev_hash r = prev \<and> row_hash r = Inr (ev_hash r) \<and>
      chain_ok (ev_hash r) (n + 1) rs)"

lemma chain_ok_append:
  "chain_ok prev n (xs @ ys) \<longleftrightarrow>
   chain_ok prev n xs \<and> chain_ok (if xs = [] then prev else ev_hash (last xs)) (n + int (length xs)) ys"
  by (induction xs arbitrary: prev n) (auto simp: algebra_simps)

lemma chain_ok_nth: "chain_ok prev n xs \<Longrightarrow> i < length xs \<Longrightarrow> ev_seq (xs ! i) = n + int i"
proof (induction xs arbitrary: prev n i)
  case (Cons r rs)
  then show ?case by (cases i) auto
qed simp

lemma chain_ok_seq_bound: "chain_ok prev n xs \<Longrightarrow> r \<in> set xs \<Longrightarrow> n \<le> ev_seq r \<and> ev_seq r < n + int (length xs)"
  by (auto simp: in_set_conv_nth chain_ok_nth)

lemma chain_ok_sorted: "chain_ok prev n xs \<Longrightarrow> sort_key ev_seq xs = xs"
  by (rule sort_key_id_if_sorted) (simp add: sorted_iff_nth_mono chain_ok_nth)

lemma chain_ok_last_event:
  assumes "chain_ok prev n xs"
  shows "last_event xs = (if xs = [] then None else Some (last xs))"
  unfolding last_event_def chain_ok_sorted [OF assms]
  by (cases xs rule: rev_cases) simp_all

lemma chain_ok_last_seq:
  "chain_ok prev n xs \<Longrightarrow> xs \<noteq> [] \<Longrightarrow> ev_seq (last xs) = n + int (length xs) - 1"
  by (cases xs rule: rev_cases) (simp_all add: chain_ok_append)

text \<open>The head of the rows read so far.\<close>

definition head_after :: "(int \<times> string) option \<Rightarrow> event_row list \<Rightarrow> (int \<times> string) option" where
  "head_after head rs = (if rs = [] then head else Some (ev_seq (last rs), ev_hash (last rs)))"

lemma head_after_simps [simp]:
  "head_after head [] = head"
  "head_after (Some (ev_seq r, ev_hash r)) rs = head_after head (r # rs)"
  by (auto simp: head_after_def)

lemma verify_rows_problems_grow:
  "verify_rows anchor rs prev n head seen ps = Inr (head', seen', ps') \<Longrightarrow> \<exists>qs. ps' = ps @ qs"
proof (induction rs arbitrary: prev n head seen ps)
  case (Cons r rs)
  then obtain prev2 n2 head2 seen2 ps2
    where "verify_rows anchor rs prev2 n2 head2 seen2 ps2 = Inr (head', seen', ps')" "\<exists>qs. ps2 = ps @ qs"
    by (auto simp: Let_def split: sum.splits option.splits prod.splits if_splits)
  with Cons.IH show ?case by (metis append.assoc)
qed simp

definition anchor_match :: "anchor \<Rightarrow> event_row \<Rightarrow> bool" where
  "anchor_match anchor r \<longleftrightarrow> (case anchor of None \<Rightarrow> True | Some (a, h) \<Rightarrow> ev_seq r = a \<longrightarrow> ev_hash r = h)"

definition anchor_here :: "anchor \<Rightarrow> event_row \<Rightarrow> bool" where
  "anchor_here anchor r \<longleftrightarrow> (case anchor of None \<Rightarrow> False | Some (a, h) \<Rightarrow> ev_seq r = a)"

lemma verify_rows_clean:
  "verify_rows anchor rs prev n head seen [] = Inr (head', seen', []) \<Longrightarrow>
   chain_ok prev n rs \<and> (\<forall>r \<in> set rs. anchor_match anchor r) \<and> head' = head_after head rs \<and>
   (seen' \<longleftrightarrow> seen \<or> (\<exists>r \<in> set rs. anchor_here anchor r))"
proof (induction rs arbitrary: prev n head seen)
  case Nil
  then show ?case by simp
next
  case (Cons r rs)
  obtain h where h: "row_hash r = Inr h" using Cons.prems by (cases "row_hash r") (auto simp: Let_def)
  define ps4 where "ps4 = (if ev_seq r \<noteq> n then [Missing n (ev_seq r)] else [])
      @ (if ev_prev_hash r \<noteq> prev then [NotFollowing (ev_seq r)] else [])
      @ (if h \<noteq> ev_hash r then [Altered (ev_seq r)] else [])
      @ (if anchor_match anchor r then [] else [AnchorMismatch (ev_seq r)])"
  define seen2 where "seen2 = (if anchor_here anchor r then anchor_match anchor r else seen)"
  have rec: "verify_rows anchor rs (ev_hash r) (ev_seq r + 1) (Some (ev_seq r, ev_hash r)) seen2 ps4
      = Inr (head', seen', [])"
    using Cons.prems h
    by (cases anchor)
      (auto simp: Let_def ps4_def seen2_def anchor_match_def anchor_here_def split: if_splits)
  then have "ps4 = []" using verify_rows_problems_grow by fastforce
  then have ok: "ev_seq r = n" "ev_prev_hash r = prev" "h = ev_hash r" "anchor_match anchor r"
    by (auto simp: ps4_def split: if_splits)
  have s2: "seen2 \<longleftrightarrow> anchor_here anchor r \<or> seen" using ok(4) by (auto simp: seen2_def)
  from Cons.IH [OF rec [unfolded \<open>ps4 = []\<close>]] ok h show ?case
    by (auto simp: s2 head_after_def)
qed

lemma verify_rows_intact:
  "chain_ok prev n rs \<Longrightarrow> \<forall>r \<in> set rs. anchor_match anchor r \<Longrightarrow>
   verify_rows anchor rs prev n head seen [] =
     Inr (head_after head rs, seen \<or> (\<exists>r \<in> set rs. anchor_here anchor r), [])"
proof (induction rs arbitrary: prev n head seen)
  case (Cons r rs)
  then have "verify_rows anchor rs (ev_hash r) (n + 1) (Some (ev_seq r, ev_hash r))
      (seen \<or> anchor_here anchor r) [] =
      Inr (head_after head (r # rs), (seen \<or> anchor_here anchor r) \<or> (\<exists>r \<in> set rs. anchor_here anchor r), [])"
    by (simp add: head_after_def)
  with Cons.prems show ?case
    by (cases anchor) (auto simp: Let_def anchor_match_def anchor_here_def)
qed simp

lemma chain_verifies_split:
  "chain_verifies anchor db \<longleftrightarrow>
     chain_ok GENESIS 1 (sort_key ev_seq (db_events db)) \<and>
     (\<forall>r \<in> set (sort_key ev_seq (db_events db)). anchor_match anchor r) \<and>
     (case anchor of
        None \<Rightarrow> True
      | Some (a, h) \<Rightarrow>
          (\<exists>r \<in> set (sort_key ev_seq (db_events db)). anchor_here anchor r) \<or>
          \<not> (case head_after None (sort_key ev_seq (db_events db)) of None \<Rightarrow> True | Some (s, _) \<Rightarrow> s < a))"
proof -
  let ?rs = "sort_key ev_seq (db_events db)"
  let ?res = "verify_rows anchor ?rs GENESIS 1 None (anchor = None) []"
  show ?thesis
  proof (cases "chain_ok GENESIS 1 ?rs \<and> (\<forall>r \<in> set ?rs. anchor_match anchor r)")
    case True
    then have "?res = Inr (head_after None ?rs, anchor = None \<or> (\<exists>r \<in> set ?rs. anchor_here anchor r), [])"
      using verify_rows_intact [of GENESIS 1 ?rs anchor None "anchor = None"] by simp
    with True show ?thesis
      by (auto simp: chain_verifies_def verify_def Let_def split: option.splits)
  next
    case False
    have "\<not> chain_verifies anchor db"
    proof (cases ?res)
      case (Inl e)
      then show ?thesis by (simp add: chain_verifies_def verify_def)
    next
      case (Inr x)
      obtain hd sn ps where x: "x = (hd, sn, ps)" by (cases x)
      have "ps \<noteq> []" using False verify_rows_clean [of anchor ?rs GENESIS 1 None "anchor = None"] Inr x by blast
      then show ?thesis
        using Inr x by (auto simp: chain_verifies_def verify_def Let_def split: option.splits)
    qed
    with False show ?thesis by blast
  qed
qed

lemma chain_seq_unique:
  assumes "chain_ok GENESIS 1 rs" "r \<in> set rs" "r' \<in> set rs" "ev_seq r = ev_seq r'"
  shows "r = r'"
proof -
  obtain i where i: "i < length rs" "r = rs ! i" using assms(2) unfolding in_set_conv_nth by blast
  obtain j where j: "j < length rs" "r' = rs ! j" using assms(3) unfolding in_set_conv_nth by blast
  have "i = j" using assms(4) chain_ok_nth [OF assms(1) i(1)] chain_ok_nth [OF assms(1) j(1)] i j by simp
  then show ?thesis using i j by simp
qed

lemma chain_seq_there:
  assumes "chain_ok GENESIS 1 rs" "1 \<le> a" "a \<le> int (length rs)"
  shows "\<exists>r \<in> set rs. ev_seq r = a"
proof -
  have "nat a - 1 < length rs" using assms(2,3) by simp
  then have "rs ! (nat a - 1) \<in> set rs" "ev_seq (rs ! (nat a - 1)) = a"
    using assms(2) chain_ok_nth [OF assms(1), of "nat a - 1"] by (simp_all only: nth_mem)
  then show ?thesis by blast
qed

text \<open>On an intact chain, what the checks of an anchor come to.\<close>

lemma anchor_on_chain:
  assumes c: "chain_ok GENESIS 1 rs"
  shows "(\<forall>r \<in> set rs. anchor_match (Some (a, h)) r) \<and>
      ((\<exists>r \<in> set rs. anchor_here (Some (a, h)) r) \<or>
       \<not> (case head_after None rs of None \<Rightarrow> True | Some (s, _) \<Rightarrow> s < a)) \<longleftrightarrow>
      (\<exists>r \<in> set rs. ev_seq r = a \<and> ev_hash r = h) \<or> (a \<le> 0 \<and> rs \<noteq> [])"
proof -
  have bound: "1 \<le> ev_seq r \<and> ev_seq r \<le> int (length rs)" if "r \<in> set rs" for r
    using chain_ok_seq_bound [OF c that] by simp
  have head: "(case head_after None rs of None \<Rightarrow> True | Some (s, _) \<Rightarrow> s < a) \<longleftrightarrow> rs = [] \<or> int (length rs) < a"
    using chain_ok_last_seq [OF c] by (auto simp: head_after_def)
  have match: "(\<forall>r \<in> set rs. anchor_match (Some (a, h)) r) \<longleftrightarrow> (\<forall>r \<in> set rs. ev_seq r = a \<longrightarrow> ev_hash r = h)"
    "(\<exists>r \<in> set rs. anchor_here (Some (a, h)) r) \<longleftrightarrow> (\<exists>r \<in> set rs. ev_seq r = a)"
    by (simp_all add: anchor_match_def anchor_here_def)
  consider "a \<le> 0" | "1 \<le> a" "a \<le> int (length rs)" | "int (length rs) < a" by linarith
  then show ?thesis
  proof cases
    case 1
    then have "\<forall>r \<in> set rs. ev_seq r \<noteq> a" using bound by fastforce
    with 1 show ?thesis unfolding head match by auto
  next
    case 2
    then obtain r where r: "r \<in> set rs" "ev_seq r = a" using chain_seq_there [OF c] by blast
    with 2 show ?thesis unfolding head match using chain_seq_unique [OF c] by fastforce
  next
    case 3
    then have "\<forall>r \<in> set rs. ev_seq r \<noteq> a" using bound by fastforce
    with 3 show ?thesis unfolding head match by auto
  qed
qed

text \<open>
  C28.  The chain verifies, without or with an anchor \<open>(a, h)\<close>, exactly when its rows are
  numbered 1, 2, 3, ..., each names the hash of the one before it and each stored hash is
  the hash of its row; and the event numbered \<open>a\<close> is there with hash \<open>h\<close> - except that an
  anchor numbered 0 or less is accepted by any chain that is not empty.
\<close>

theorem chain_verifies_exact:
  "chain_verifies anchor db \<longleftrightarrow>
   chain_ok GENESIS 1 (sort_key ev_seq (db_events db)) \<and>
   (case anchor of
      None \<Rightarrow> True
    | Some (a, h) \<Rightarrow>
        (\<exists>r \<in> set (db_events db). ev_seq r = a \<and> ev_hash r = h) \<or> (a \<le> 0 \<and> db_events db \<noteq> []))"
proof (cases anchor)
  case None
  then show ?thesis by (simp add: chain_verifies_split anchor_match_def)
next
  case (Some ah)
  obtain a h where ah: "anchor = Some (a, h)" using Some by (cases ah) simp
  have ne: "sort_key ev_seq (db_events db) \<noteq> [] \<longleftrightarrow> db_events db \<noteq> []" by (metis length_0_conv length_sort)
  show ?thesis
    using anchor_on_chain [of "sort_key ev_seq (db_events db)" a h] ne unfolding chain_verifies_split ah
    by (simp only: option.case prod.case set_sort) blast
qed

section \<open>Tamper evidence\<close>

text \<open>
  The interface of a hash chain: the digest of an event determines the event and the
  previous digest, unless two entries are broken (a collision).  Then the digest of a
  history determines the history.
\<close>

locale hash_chain =
  fixes digest :: "'e \<Rightarrow> 'h option"
    and prev_of :: "'e \<Rightarrow> 'h"
    and broken :: "'e \<Rightarrow> 'e \<Rightarrow> bool"
  assumes digest_inj: "digest x = Some h \<Longrightarrow> digest y = Some h \<Longrightarrow> x = y \<or> broken x y"
begin

text \<open>Rows whose stored digests are right and linked to one another.\<close>

definition linked :: "'e list \<Rightarrow> 'h list \<Rightarrow> bool" where
  "linked es hs \<longleftrightarrow> length es = length hs \<and> (\<forall>i < length es. digest (es ! i) = Some (hs ! i)) \<and>
     (\<forall>i. Suc i < length es \<longrightarrow> prev_of (es ! Suc i) = hs ! i)"

lemma same_prefix:
  assumes "linked es hs" "linked fs ks" "k < length es" "k < length fs" "hs ! k = ks ! k"
  shows "take (Suc k) es = take (Suc k) fs \<or> (\<exists>i \<le> k. broken (es ! i) (fs ! i))"
  using assms(3-5)
proof (induction k)
  case 0
  have "digest (es ! 0) = Some (hs ! 0)" "digest (fs ! 0) = Some (hs ! 0)"
    using assms(1,2) 0 by (simp_all add: linked_def)
  then have "es ! 0 = fs ! 0 \<or> broken (es ! 0) (fs ! 0)" by (rule digest_inj)
  with 0 show ?case by (auto simp: take_Suc_conv_app_nth)
next
  case (Suc k)
  have "digest (es ! Suc k) = Some (hs ! Suc k)" "digest (fs ! Suc k) = Some (hs ! Suc k)"
    using assms(1,2) Suc.prems by (simp_all add: linked_def)
  then have e: "es ! Suc k = fs ! Suc k \<or> broken (es ! Suc k) (fs ! Suc k)" by (rule digest_inj)
  have "prev_of (es ! Suc k) = hs ! k" "prev_of (fs ! Suc k) = ks ! k"
    using assms(1,2) Suc.prems by (simp_all add: linked_def)
  then have "hs ! k = ks ! k \<or> broken (es ! Suc k) (fs ! Suc k)" using e by auto
  then have "take (Suc k) es = take (Suc k) fs \<or> (\<exists>i \<le> Suc k. broken (es ! i) (fs ! i))"
    using Suc by (auto intro: le_SucI)
  with e Suc.prems show ?case by (auto simp: take_Suc_conv_app_nth)
qed

end

lemma map_of_eq_of_jsort:
  assumes "distinct (map fst a)" "distinct (map fst b)" "jsort (JObj a) = jsort (JObj b)"
  shows "jsort (jget a k) = jsort (jget b k)"
  using assms(3) jget_sorted [OF assms(1), of k] jget_sorted [OF assms(2), of k] by simp

lemma json_ok_event_obj:
  "event_hash seq kind subject body ts prev = Inr h \<Longrightarrow>
   json_ok (event_obj seq kind subject body ts prev) \<and> h = sha256 (cjson (event_obj seq kind subject body ts prev))"
  by (auto simp: event_hash_def canonical_json_def event_obj_def map_sum_Inr_iff split: if_splits)

text \<open>
  What an event's hash is of, and two events that are different but share their hash.  An event's
  hash determines every field the chain commits to, or the two events are such a pair.
\<close>

definition event_text :: "event_row \<Rightarrow> string" where
  "event_text r = cjson (event_obj (ev_seq r) (ev_kind r) (ev_subject r) (ev_body r) (ev_at r) (ev_prev_hash r))"

definition event_collision :: "event_row \<Rightarrow> event_row \<Rightarrow> bool" where
  "event_collision r q \<longleftrightarrow> collision (event_text r) (event_text q)"

lemma event_hash_inj:
  assumes "event_hash s1 k1 u1 b1 t1 p1 = Inr h" "event_hash s2 k2 u2 b2 t2 p2 = Inr h"
  shows "(s1, k1, u1, b1, t1, p1) = (s2, k2, u2, b2, t2, p2) \<or>
    collision (cjson (event_obj s1 k1 u1 b1 t1 p1)) (cjson (event_obj s2 k2 u2 b2 t2 p2))"
proof -
  note o1 = json_ok_event_obj [OF assms(1)] and o2 = json_ok_event_obj [OF assms(2)]
  have "sha256 (cjson (event_obj s1 k1 u1 b1 t1 p1)) = sha256 (cjson (event_obj s2 k2 u2 b2 t2 p2))"
    using o1 o2 by simp
  then consider "cjson (event_obj s1 k1 u1 b1 t1 p1) = cjson (event_obj s2 k2 u2 b2 t2 p2)"
    | "collision (cjson (event_obj s1 k1 u1 b1 t1 p1)) (cjson (event_obj s2 k2 u2 b2 t2 p2))" using sha256_eqD by blast
  then show ?thesis
  proof cases
    case 1
    then have "jsort (event_obj s1 k1 u1 b1 t1 p1) = jsort (event_obj s2 k2 u2 b2 t2 p2)"
      using o1 o2 cjson_eqD by blast
    then have "jsort (jget [(''seq'', JInt s1), (''kind'', JStr k1), (''subject'', JStr u1), (''body'', JStr b1),
          (''at'', JStr t1), (''prev'', JStr p1)] k)
        = jsort (jget [(''seq'', JInt s2), (''kind'', JStr k2), (''subject'', JStr u2), (''body'', JStr b2),
          (''at'', JStr t2), (''prev'', JStr p2)] k)" for k
      by (intro map_of_eq_of_jsort) (simp_all add: event_obj_def)
    from this [of "''seq''"] this [of "''kind''"] this [of "''subject''"] this [of "''body''"]
      this [of "''at''"] this [of "''prev''"] show ?thesis by simp
  qed blast
qed

text \<open>A row without its own hash.\<close>

definition row_content :: "event_row \<Rightarrow> event_row" where
  "row_content r = r\<lparr>ev_hash := []\<rparr>"

definition content_digest :: "event_row \<Rightarrow> string option" where
  "content_digest r = (if ev_hash r = [] then (case row_hash r of Inl e \<Rightarrow> None | Inr h \<Rightarrow> Some h) else None)"

interpretation event_chain: hash_chain content_digest ev_prev_hash event_collision
proof
  fix x y :: event_row and h
  assume "content_digest x = Some h" "content_digest y = Some h"
  then have e: "ev_hash x = []" "ev_hash y = []" and "row_hash x = Inr h" "row_hash y = Inr h"
    by (auto simp: content_digest_def split: if_splits sum.splits)
  then have "(ev_seq x, ev_kind x, ev_subject x, ev_body x, ev_at x, ev_prev_hash x)
      = (ev_seq y, ev_kind y, ev_subject y, ev_body y, ev_at y, ev_prev_hash y) \<or> event_collision x y"
    unfolding row_hash_def event_collision_def event_text_def by (intro event_hash_inj)
  with e show "x = y \<or> event_collision x y" by auto
qed

lemma chain_ok_nth_hash: "chain_ok prev n xs \<Longrightarrow> i < length xs \<Longrightarrow> row_hash (xs ! i) = Inr (ev_hash (xs ! i))"
proof (induction xs arbitrary: prev n i)
  case (Cons r rs)
  then show ?case by (cases i) auto
qed simp

lemma chain_ok_nth_prev: "chain_ok prev n xs \<Longrightarrow> Suc i < length xs \<Longrightarrow> ev_prev_hash (xs ! Suc i) = ev_hash (xs ! i)"
proof (induction xs arbitrary: prev n i)
  case (Cons r rs)
  then show ?case by (cases i; cases rs) auto
qed simp

lemma row_hash_content: "row_hash (row_content r) = row_hash r"
  by (simp add: row_hash_def row_content_def)

lemma chain_ok_linked:
  "chain_ok prev n xs \<Longrightarrow> event_chain.linked (map row_content xs) (map ev_hash xs)"
  by (auto simp: event_chain.linked_def content_digest_def row_content_def row_hash_def
      chain_ok_nth_prev chain_ok_nth_hash [unfolded row_hash_def])

lemma chain_same_prefix:
  assumes "chain_ok p n xs" "chain_ok q m ys" "k < length xs" "k < length ys"
    and h: "ev_hash (xs ! k) = ev_hash (ys ! k)"
  shows "take (Suc k) xs = take (Suc k) ys \<or> (\<exists>i \<le> k. event_collision (xs ! i) (ys ! i))"
proof -
  have "event_collision (row_content a) (row_content b) = event_collision a b" for a b
    by (simp add: event_collision_def event_text_def row_content_def)
  then have "take (Suc k) (map row_content xs) = take (Suc k) (map row_content ys) \<or>
      (\<exists>i \<le> k. event_collision (xs ! i) (ys ! i))"
    using event_chain.same_prefix [OF chain_ok_linked [OF assms(1)] chain_ok_linked [OF assms(2)], of k] assms(3-5)
    by auto
  moreover have "take (Suc k) xs = take (Suc k) ys"
    if t: "take (Suc k) (map row_content xs) = take (Suc k) (map row_content ys)"
  proof (rule nth_take_lemma [rule_format])
    show "Suc k \<le> length xs" "Suc k \<le> length ys" using assms(3,4) by simp_all
    fix i assume i: "i < Suc k"
    then have "row_content (xs ! i) = row_content (ys ! i)"
      using arg_cong [OF t, of "\<lambda>l. l ! i"] assms(3,4) by simp
    moreover have "ev_hash (xs ! i) = ev_hash (ys ! i)"
      using row_hash_content [of "xs ! i"] row_hash_content [of "ys ! i"] calculation
        chain_ok_nth_hash [OF assms(1), of i] chain_ok_nth_hash [OF assms(2), of i] i assms(3,4)
      by simp
    ultimately show "xs ! i = ys ! i"
      by (cases "xs ! i"; cases "ys ! i") (simp add: row_content_def)
  qed
  ultimately show ?thesis by blast
qed

text \<open>
  C26.  Tamper evidence: if the head of an intact, non-empty history \<open>xs\<close> was published,
  any database whose chain later verifies against that anchor still begins with exactly
  \<open>xs\<close> - no event removed, changed, reordered or inserted - or an event of the published history
  and the event at its place now are different and have the same SHA-256.
\<close>

theorem anchored_history_unchanged:
  assumes "chain_ok GENESIS 1 xs" "xs \<noteq> []"
    and "chain_verifies (Some (ev_seq (last xs), ev_hash (last xs))) db"
  shows "take (length xs) (sort_key ev_seq (db_events db)) = xs \<or>
    (\<exists>i < length xs. event_collision (xs ! i) (sort_key ev_seq (db_events db) ! i))"
proof -
  let ?ys = "sort_key ev_seq (db_events db)"
  have seq: "ev_seq (last xs) = int (length xs)" using chain_ok_last_seq [OF assms(1,2)] by simp
  from assms(3) have ys: "chain_ok GENESIS 1 ?ys"
    and "\<exists>r \<in> set (db_events db). ev_seq r = int (length xs) \<and> ev_hash r = ev_hash (last xs)"
    using assms(2) by (auto simp: chain_verifies_exact seq)
  then obtain j where j: "j < length ?ys" "ev_seq (?ys ! j) = int (length xs)" "ev_hash (?ys ! j) = ev_hash (last xs)"
    by (metis in_set_conv_nth set_sort)
  then have "j = length xs - 1" using chain_ok_nth [OF ys j(1)] by linarith
  moreover have "last xs = xs ! (length xs - 1)" using assms(2) by (rule last_conv_nth)
  ultimately have "take (Suc j) xs = take (Suc j) ?ys \<or> (\<exists>i \<le> j. event_collision (xs ! i) (?ys ! i))"
    using chain_same_prefix [OF assms(1) ys, of j] j assms(2) by simp
  moreover have "i \<le> j \<Longrightarrow> i < length xs" for i using \<open>j = length xs - 1\<close> assms(2) by (cases xs) auto
  moreover have "take (Suc j) xs = xs" "Suc j = length xs" using \<open>j = length xs - 1\<close> assms(2) by simp_all
  ultimately show ?thesis by (metis (no_types))
qed

section \<open>Appending\<close>

lemma append_event_frame [frame_simps]:
  assumes "append_event k u b t db = (r, db')"
  shows "db_records db' = db_records db" "db_deliveries db' = db_deliveries db"
    "db_delivery_events db' = db_delivery_events db" "db_replays db' = db_replays db"
    "db_version db' = db_version db"
  using assms by (auto simp: append_event_def Let_def split: option.splits sum.splits if_splits)

lemma append_event_Inl: "append_event k u b t db = (Inl e, db') \<Longrightarrow> db' = db"
  by (auto simp: append_event_def Let_def split: option.splits sum.splits if_splits)

text \<open>What a successful append adds to an intact chain.\<close>

lemma append_event_chain:
  assumes "chain_ok GENESIS 1 (db_events db)" "append_event k u b t db = (Inr ev, db')"
  shows "chain_ok GENESIS 1 (db_events db')" "db_events db' = db_events db @ [ev]"
    "ev_kind ev = k" "ev_subject ev = u" "ev_at ev = t" "canonical_json b = Inr (ev_body ev)"
proof -
  let ?es = "db_events db"
  have le: "last_event ?es = (if ?es = [] then None else Some (last ?es))"
    by (rule chain_ok_last_event [OF assms(1)])
  define seq where "seq = (if ?es = [] then 1 else ev_seq (last ?es) + 1)"
  define prev where "prev = (if ?es = [] then GENESIS else ev_hash (last ?es))"
  from assms(2) have ev: "db_events db' = ?es @ [ev]" "ev_kind ev = k" "ev_subject ev = u" "ev_at ev = t"
    "canonical_json b = Inr (ev_body ev)" "ev_seq ev = seq" "ev_prev_hash ev = prev"
    "row_hash ev = Inr (ev_hash ev)"
    by (auto simp: append_event_def le seq_def prev_def row_hash_def Let_def split: sum.splits if_splits)
  have "seq = 1 + int (length ?es)"
    using chain_ok_last_seq [OF assms(1)] by (simp add: seq_def)
  with ev show "chain_ok GENESIS 1 (db_events db')"
    using assms(1) by (auto simp: chain_ok_append prev_def)
  show "db_events db' = ?es @ [ev]" "ev_kind ev = k" "ev_subject ev = u" "ev_at ev = t"
    "canonical_json b = Inr (ev_body ev)" by (rule ev)+
qed

text \<open>
  The event an append writes, without its hash.  On an intact chain the constraints of the event
  table refuse it only if an event that is there has its hash.
\<close>

definition next_event :: "string \<Rightarrow> string \<Rightarrow> json \<Rightarrow> string \<Rightarrow> database \<Rightarrow> event_row" where
  "next_event k u b t db =
     (let (seq, prev) = (case last_event (db_events db) of None \<Rightarrow> (1, GENESIS) | Some e \<Rightarrow> (ev_seq e + 1, ev_hash e))
      in \<lparr>ev_seq = seq, ev_kind = k, ev_subject = u, ev_body = cjson b, ev_at = t, ev_prev_hash = prev, ev_hash = []\<rparr>)"

definition append_collides :: "string \<Rightarrow> string \<Rightarrow> json \<Rightarrow> string \<Rightarrow> database \<Rightarrow> bool" where
  "append_collides k u b t db \<longleftrightarrow> (\<exists>r \<in> set (db_events db). event_collision r (next_event k u b t db))"

lemma append_event_integrity:
  assumes "chain_ok GENESIS 1 (db_events db)" "append_event k u b t db = (Inl SqliteIntegrityError, db')"
  shows "append_collides k u b t db"
proof -
  let ?es = "db_events db"
  define seq where "seq = (if ?es = [] then 1 else ev_seq (last ?es) + 1)"
  define prev where "prev = (if ?es = [] then GENESIS else ev_hash (last ?es))"
  have le: "last_event ?es = (if ?es = [] then None else Some (last ?es))"
    by (rule chain_ok_last_event [OF assms(1)])
  have sq: "seq = 1 + int (length ?es)" using chain_ok_last_seq [OF assms(1)] by (simp add: seq_def)
  then have new: "seq \<notin> set (map ev_seq ?es)" using chain_ok_seq_bound [OF assms(1)] by fastforce
  have ue: "canonical_json b \<noteq> Inl SqliteIntegrityError" "event_hash s k u bj t p \<noteq> Inl SqliteIntegrityError" for s bj p
    by (auto simp: canonical_json_def event_hash_def map_sum_def split: if_splits sum.splits)
  obtain bj h where bj: "canonical_json b = Inr bj" "event_hash seq k u bj t prev = Inr h" "h \<in> set (map ev_hash ?es)"
    using assms(2) new ue
    by (auto simp: append_event_def le seq_def prev_def Let_def split: sum.splits if_splits)
  then obtain r where r: "r \<in> set ?es" "ev_hash r = h" by auto
  then have "row_hash r = Inr h" using chain_ok_nth_hash [OF assms(1)] by (auto simp: in_set_conv_nth)
  then have eh: "event_hash (ev_seq r) (ev_kind r) (ev_subject r) (ev_body r) (ev_at r) (ev_prev_hash r) = Inr h"
    by (simp add: row_hash_def)
  have "bj = cjson b" using bj(1) by (auto simp: canonical_json_def split: if_splits)
  moreover have "ev_seq r \<noteq> seq" using r(1) new by auto
  ultimately have "event_collision r \<lparr>ev_seq = seq, ev_kind = k, ev_subject = u, ev_body = cjson b, ev_at = t,
      ev_prev_hash = prev, ev_hash = []\<rparr>"
    using event_hash_inj [OF eh bj(2)] by (auto simp: event_collision_def event_text_def)
  moreover have "next_event k u b t db = \<lparr>ev_seq = seq, ev_kind = k, ev_subject = u, ev_body = cjson b, ev_at = t,
      ev_prev_hash = prev, ev_hash = []\<rparr>"
    by (simp add: next_event_def le seq_def prev_def)
  ultimately show ?thesis using r(1) by (auto simp: append_collides_def)
qed

lemma append_collides_same: "db_events db = db_events db' \<Longrightarrow> append_collides k u b t db = append_collides k u b t db'"
  by (simp add: append_collides_def next_event_def)

lemma last_event_Nil [simp]: "last_event [] = None"
  by (simp add: last_event_def)

lemma append_event_ok:
  assumes "chain_ok GENESIS 1 (db_events db)" "json_ok b" "utf8_ok k" "utf8_ok u" "utf8_ok t"
    and "\<forall>r \<in> set (db_events db). utf8_ok (ev_hash r)"
  shows "(\<exists>ev db'. append_event k u b t db = (Inr ev, db')) \<or>
    append_event k u b t db = (Inl SqliteIntegrityError, db)"
proof -
  let ?es = "db_events db"
  have le: "last_event ?es = (if ?es = [] then None else Some (last ?es))"
    by (rule chain_ok_last_event [OF assms(1)])
  have g: "utf8_ok GENESIS" by (simp add: GENESIS_def utf8_ok_ascii list_all_iff)
  have "utf8_ok (ev_hash (last ?es))" if "?es \<noteq> []" using assms(6) that by simp
  then have "canonical_json (event_obj seq k u (cjson b) t (if ?es = [] then GENESIS else ev_hash (last ?es)))
      = Inr (cjson (event_obj seq k u (cjson b) t (if ?es = [] then GENESIS else ev_hash (last ?es))))" for seq
    using assms g by (intro canonical_json_ok) (simp add: event_obj_def utf8_cjson)
  then show ?thesis
    using canonical_json_ok [OF assms(2)]
    by (cases "?es = []") (auto simp: append_event_def le event_hash_def Let_def)
qed

theorem anchored_history_unchanged_witness:
  "\<exists>ev db. append_event ''record.sealed'' ''r'' (JObj []) ''t'' (empty_database 8) = (Inr ev, db) \<and>
     chain_verifies (Some (ev_seq ev, ev_hash ev)) db \<and>
     (take 1 (sort_key ev_seq (db_events db)) = [ev] \<or> (\<exists>i < 1. event_collision ([ev] ! i) (sort_key ev_seq (db_events db) ! i)))"
proof -
  let ?db = "empty_database 8"
  have "append_event k u b t ?db \<noteq> (Inl SqliteIntegrityError, ?db)" for k u b t
    by (auto simp: append_event_def empty_database_def last_event_def event_hash_def canonical_json_def
        map_sum_def Let_def split: sum.splits if_splits)
  then obtain ev db where a: "append_event ''record.sealed'' ''r'' (JObj []) ''t'' ?db = (Inr ev, db)"
    using append_event_ok [of ?db "JObj []" "''record.sealed''" "''r''" "''t''"]
    by (auto simp: empty_database_def utf8_ok_ascii)
  note c = append_event_chain [OF _ a]
  have ok: "chain_ok GENESIS 1 [ev]" "db_events db = [ev]"
    using c(1,2) by (simp_all add: empty_database_def)
  then have v: "chain_verifies (Some (ev_seq (last [ev]), ev_hash (last [ev]))) db"
    by (simp add: chain_verifies_exact)
  have "take (length [ev]) (sort_key ev_seq (db_events db)) = [ev] \<or>
      (\<exists>i < length [ev]. event_collision ([ev] ! i) (sort_key ev_seq (db_events db) ! i))"
    by (rule anchored_history_unchanged [OF ok(1) _ v]) simp
  with a v show ?thesis by auto
qed

end
