(* ===== verification/Ledger.thy ===== *)
theory Ledger
  imports Chain Ingest
begin

text \<open>
  The ledger store (\<open>stele/ledger/store.py\<close>): one record per sandbox run, pointing into
  the evidence archive.  The state is the archive and the database; the file system is
  a parameter, what each path names on disk when an operation reads it.  A fresh UUID
  and the clock are arguments of the operations that use them.
\<close>

record ledger =
  lg_archive :: archive
  lg_db :: database

type_synonym file_system = "path \<Rightarrow> node option"

section \<open>Configs and rows\<close>

definition canonical_parser_config :: "pyval \<Rightarrow> string result" where
  "canonical_parser_config config =
     (case config of
        VDict _ \<Rightarrow>
          (case encode_value config of
             None \<Rightarrow> Inl ValueError
           | Some j \<Rightarrow>
               (case canonical_json j of
                  Inl e \<Rightarrow> Inl ValueError
                | Inr encoded \<Rightarrow>
                    (case json_loads encoded of
                       None \<Rightarrow> Inl ValueError
                     | Some decoded \<Rightarrow>
                         if has_tuple config \<or> \<not> py_eq decoded j then Inl ValueError
                         else Inr encoded)))
      | _ \<Rightarrow> Inl ValueError)"

text \<open>A manifest column: an object of texts.\<close>

fun manifest_of :: "(string \<times> json) list \<Rightarrow> manifest option" where
  "manifest_of [] = Some []"
| "manifest_of ((p, v) # kvs) =
     (case (v, manifest_of kvs) of (JStr d, Some m) \<Rightarrow> Some ((p, d) # m) | _ \<Rightarrow> None)"

definition manifest_of_column :: "json option \<Rightarrow> manifest result" where
  "manifest_of_column c =
     (case c of
        None \<Rightarrow> Inl ValueError
      | Some (JObj kvs) \<Rightarrow> (case manifest_of kvs of None \<Rightarrow> Inl TypeError | Some m \<Rightarrow> Inr m)
      | Some _ \<Rightarrow> Inl TypeError)"

definition manifest_column :: "manifest \<Rightarrow> json option" where
  "manifest_column m = Some (JObj (map (\<lambda>(p, d). (p, JStr d)) m))"

text \<open>
  \<open>_row_to_record\<close>.  The timestamps are kept as texts.  A manifest column that is JSON
  but not an object of texts, which only an edited row holds, is refused here rather
  than by the operation that first uses it.
\<close>

definition row_parser :: "record_row \<Rightarrow> parser_identity option result" where
  "row_parser r =
     (case r_parser_name r of
        None \<Rightarrow> Inr None
      | Some n \<Rightarrow>
          (case r_parser_version r of
             None \<Rightarrow> Inl ValueError
           | Some v \<Rightarrow>
               map_sum id Some (check_identity \<lparr>pi_name = n, pi_version = v,
                 pi_image_digest = r_parser_image_digest r, pi_module_sha256 = r_parser_module_sha256 r\<rparr>)))"

definition row_kind :: "record_row \<Rightarrow> snapshot_kind option result" where
  "row_kind r =
     (case r_source_kind r of
        None \<Rightarrow> Inr None
      | Some k \<Rightarrow> if k = [] then Inr None else map_sum id Some (kind_of_value k))"

definition row_config :: "record_row \<Rightarrow> json option result" where
  "row_config r =
     (case r_parser_config r of
        None \<Rightarrow> Inr None
      | Some t \<Rightarrow> (case json_loads t of None \<Rightarrow> Inl ValueError | Some j \<Rightarrow> Inr (Some j)))"

definition row_conditions :: "record_row \<Rightarrow> run_conditions option result" where
  "row_conditions r =
     (case r_run_conditions r of
        None \<Rightarrow> Inr None
      | Some t \<Rightarrow>
          (case json_loads t of
             None \<Rightarrow> Inl ValueError
           | Some j \<Rightarrow> map_sum id Some (run_conditions_from_dict j)))"

definition row_to_record :: "record_row \<Rightarrow> artifact_record result" where
  "row_to_record r =
     (case row_parser r of Inl e \<Rightarrow> Inl e | Inr parser \<Rightarrow>
     (case row_kind r of Inl e \<Rightarrow> Inl e | Inr kind \<Rightarrow>
     (case row_config r of Inl e \<Rightarrow> Inl e | Inr config \<Rightarrow>
     (case manifest_of_column (r_artifact_manifest r) of Inl e \<Rightarrow> Inl e | Inr m \<Rightarrow>
     (case state_of_value (r_state r) of Inl e \<Rightarrow> Inl e | Inr st \<Rightarrow>
     (case row_conditions r of Inl e \<Rightarrow> Inl e | Inr conditions \<Rightarrow>
        Inr \<lparr>ar_record_id = r_record_id r, ar_run_id = r_run_id r, ar_source_path = r_source_path r,
             ar_source_hash = r_source_hash r, ar_source_kind = kind, ar_source_id = r_source_id r,
             ar_parser = parser, ar_parser_config = config, ar_backend = r_backend r,
             ar_artifact_dir = r_artifact_dir r, ar_artifact_manifest = m,
             ar_artifact_hash = r_artifact_hash r, ar_state = st, ar_created_at = r_created_at r,
             ar_finalized_at = r_finalized_at r, ar_error = r_error r,
             ar_legacy_source_hash = r_legacy_source_hash r, ar_run_conditions = conditions\<rparr>))))))"

section \<open>Reading\<close>

definition find_row :: "(record_row \<Rightarrow> bool) \<Rightarrow> database \<Rightarrow> record_row option" where
  "find_row p db = find p (db_records db)"

definition get_record :: "string \<Rightarrow> database \<Rightarrow> artifact_record result" where
  "get_record rid db =
     (case find_row (\<lambda>r. r_record_id r = rid) db of
        None \<Rightarrow> Inl RecordNotFoundError
      | Some r \<Rightarrow> row_to_record r)"

lemma found_record_id: "get_record rid db = Inr a \<Longrightarrow> ar_record_id a = rid"
  by (auto simp: get_record_def find_row_def row_to_record_def find_Some_iff split: option.splits sum.splits)

definition get_by_run_id :: "string \<Rightarrow> database \<Rightarrow> artifact_record option result" where
  "get_by_run_id run_id db =
     (case find_row (\<lambda>r. r_run_id r = run_id) db of
        None \<Rightarrow> Inr None
      | Some r \<Rightarrow> map_sum id Some (row_to_record r))"

fun rows_to_records :: "record_row list \<Rightarrow> artifact_record list result" where
  "rows_to_records [] = Inr []"
| "rows_to_records (r # rs) =
     (case row_to_record r of
        Inl e \<Rightarrow> Inl e
      | Inr x \<Rightarrow> (case rows_to_records rs of Inl e \<Rightarrow> Inl e | Inr xs \<Rightarrow> Inr (x # xs)))"

text \<open>\<open>_select\<close>: \<open>ORDER BY created_at, record_id\<close>.\<close>

definition select_records :: "(record_row \<Rightarrow> bool) \<Rightarrow> database \<Rightarrow> artifact_record list result" where
  "select_records p db =
     rows_to_records (filter p (sort_key r_created_at (sort_key r_record_id (db_records db))))"

definition find_by_artifact_hash :: "string \<Rightarrow> database \<Rightarrow> artifact_record list result" where
  "find_by_artifact_hash h = select_records (\<lambda>r. r_artifact_hash r = h)"

definition find_by_source_hash :: "string \<Rightarrow> database \<Rightarrow> artifact_record list result" where
  "find_by_source_hash h = select_records (\<lambda>r. r_source_hash r = Some h)"

definition list_by_states :: "artifact_state list \<Rightarrow> database \<Rightarrow> artifact_record list result" where
  "list_by_states states = select_records (\<lambda>r. r_state r \<in> set (map state_value states))"

section \<open>Archiving a bundle\<close>

definition verify_blobs :: "archive \<Rightarrow> string list \<Rightarrow> unit result" where
  "verify_blobs archive ds =
     foldr (\<lambda>d rest. case snd (iter_verified archive d) of Inl e \<Rightarrow> Inl e | Inr _ \<Rightarrow> rest) ds (Inr ())"

definition verify_archived_bundle :: "archive \<Rightarrow> string \<Rightarrow> manifest \<Rightarrow> unit result" where
  "verify_archived_bundle archive artifact_hash m =
     (case read_tree archive artifact_hash of
        Inl e \<Rightarrow> Inl e
      | Inr tree \<Rightarrow>
          if \<not> dict_eq tree m then Inl ArtifactDriftError
          else verify_blobs archive (dict_values m))"

text \<open>\<open>artifact_dir / rel_path\<close>: an absolute second operand replaces the first.\<close>

definition path_div :: "path \<Rightarrow> string \<Rightarrow> path" where
  "path_div p s =
     (let q = path_of s in if path_root q \<noteq> [] then q else path_join p (path_parts q))"

definition archive_bundle ::
  "node option \<Rightarrow> path \<Rightarrow> manifest \<Rightarrow> string \<Rightarrow> archive \<Rightarrow> unit result \<times> archive" where
  "archive_bundle dir artifact_dir m artifact_hash s =
     (case ingest_artifacts dir artifact_dir (map (path_div artifact_dir) (dict_keys m)) s of
        (Inl e, s1) \<Rightarrow>
          if e = FileNotFoundError then
            (case verify_archived_bundle s1 artifact_hash m of
               Inl e2 \<Rightarrow> (Inl (if e2 = MissingObjectError then MissingArtifactError else e2), s1)
             | Inr _ \<Rightarrow> (Inr (), s1))
          else if is_value_error e then (Inl ArtifactDriftError, s1)
          else (Inl e, s1)
      | (Inr stored, s1) \<Rightarrow>
          if \<not> dict_eq stored m then (Inl ArtifactDriftError, s1)
          else (case put_tree stored s1 of
                  (Inl e, s2) \<Rightarrow> (Inl e, s2)
                | (Inr d, s2) \<Rightarrow>
                    if d \<noteq> artifact_hash then (Inl ArtifactDriftError, s2) else (Inr (), s2)))"

section \<open>Writing\<close>

definition check_input_snapshot :: "snapshot option \<Rightarrow> archive \<Rightarrow> unit result" where
  "check_input_snapshot snap archive =
     (case snap of
        None \<Rightarrow> Inr ()
      | Some x \<Rightarrow>
          (case has_snapshot archive (snap_digest x) (snap_kind x) of
             Inl e \<Rightarrow> Inl e
           | Inr False \<Rightarrow> Inl ProvenanceError
           | Inr True \<Rightarrow>
               (case get_snapshot archive (snap_digest x) (snap_kind x) of
                  Inl e \<Rightarrow> Inl e
                | Inr y \<Rightarrow> if y \<noteq> x then Inl ProvenanceError else Inr ())))"

definition record_source :: "snapshot option \<Rightarrow> source option \<Rightarrow> archive \<Rightarrow> string option result \<times> archive" where
  "record_source snap src s =
     (case src of
        None \<Rightarrow> (Inr None, s)
      | Some y \<Rightarrow>
          if snap = None then (Inl ProvenanceError, s)
          else (case put_source y s of (Inl e, s') \<Rightarrow> (Inl e, s') | (Inr i, s') \<Rightarrow> (Inr (Some i), s')))"

definition conditions_json :: "run_conditions option \<Rightarrow> string option result" where
  "conditions_json rc =
     (case rc of None \<Rightarrow> Inr None | Some c \<Rightarrow> map_sum id Some (canonical_json (run_conditions_to_dict c)))"

text \<open>The transaction of \<open>create_pending\<close>: the record and its event commit together.\<close>

definition insert_pending :: "record_row \<Rightarrow> string \<Rightarrow> database \<Rightarrow> unit result \<times> database" where
  "insert_pending row now db =
     write_transaction
       (\<lambda>db. case insert_record row db of
          (Inl e, db1) \<Rightarrow> (Inl e, db1)
        | (Inr _, db1) \<Rightarrow>
            (case record_body row False of
               Inl e \<Rightarrow> (Inl e, db1)
             | Inr body \<Rightarrow>
                 (case append_event ''record.created'' (r_record_id row) body now db1 of
                    (Inl e, db2) \<Rightarrow> (Inl e, db2)
                  | (Inr _, db2) \<Rightarrow> (Inr (), db2)))) db"

record run_input =
  in_run_id :: string
  in_artifact_dir :: path
  in_artifact_paths :: "path list"
  in_parser :: parser_identity
  in_parser_config :: pyval
  in_input_snapshot :: "snapshot option"
  in_source :: "source option"
  in_backend :: "string option"
  in_run_conditions :: "run_conditions option"

definition pending_row ::
  "run_input \<Rightarrow> string \<Rightarrow> string option \<Rightarrow> string option \<Rightarrow> manifest \<Rightarrow> string \<Rightarrow> string \<Rightarrow> string \<Rightarrow> record_row" where
  "pending_row i config conditions sid m h rid now =
     \<lparr>r_record_id = rid, r_run_id = in_run_id i,
      r_source_path = map_option src_locator (in_source i), r_source_id = sid,
      r_source_hash = map_option snap_digest (in_input_snapshot i),
      r_source_kind = map_option (\<lambda>x. kind_value (snap_kind x)) (in_input_snapshot i),
      r_parser_name = Some (pi_name (in_parser i)), r_parser_version = Some (pi_version (in_parser i)),
      r_parser_image_digest = pi_image_digest (in_parser i),
      r_parser_module_sha256 = pi_module_sha256 (in_parser i),
      r_parser_config = Some config, r_backend = in_backend i,
      r_artifact_dir = as_posix (in_artifact_dir i), r_artifact_manifest = manifest_column m,
      r_artifact_hash = h, r_state = ''pending'', r_created_at = now, r_finalized_at = None,
      r_error = None, r_legacy_source_hash = None, r_run_conditions = conditions\<rparr>"

text \<open>\<open>create_pending\<close>, with the new record's UUID \<open>rid\<close> and the times of the row and the event.\<close>

definition create_pending ::
  "file_system \<Rightarrow> run_input \<Rightarrow> string \<Rightarrow> string \<Rightarrow> string \<Rightarrow> ledger \<Rightarrow> artifact_record result \<times> ledger" where
  "create_pending fs i rid now1 now2 st =
     (if in_artifact_paths i = [] then (Inl ValueError, st)
      else case canonical_parser_config (in_parser_config i) of Inl e \<Rightarrow> (Inl e, st) | Inr config \<Rightarrow>
      (case conditions_json (in_run_conditions i) of Inl e \<Rightarrow> (Inl e, st) | Inr conditions \<Rightarrow>
      (case check_input_snapshot (in_input_snapshot i) (lg_archive st) of Inl e \<Rightarrow> (Inl e, st) | Inr _ \<Rightarrow>
      (case record_source (in_input_snapshot i) (in_source i) (lg_archive st) of
         (Inl e, s1) \<Rightarrow> (Inl e, st\<lparr>lg_archive := s1\<rparr>)
       | (Inr sid, s1) \<Rightarrow>
           let st1 = st\<lparr>lg_archive := s1\<rparr> in
           (case build_manifest (fs (in_artifact_dir i)) (in_artifact_dir i) (in_artifact_paths i) of
              Inl e \<Rightarrow> (Inl e, st1)
            | Inr m \<Rightarrow>
                (case sha256_manifest m of
                   Inl e \<Rightarrow> (Inl e, st1)
                 | Inr h \<Rightarrow>
                     (case insert_pending (pending_row i config conditions sid m h rid now1) now2 (lg_db st1) of
                        (Inl e, db') \<Rightarrow>
                          if e = SqliteIntegrityError then
                            (case get_by_run_id (in_run_id i) db' of
                               Inl e2 \<Rightarrow> (Inl e2, st1\<lparr>lg_db := db'\<rparr>)
                             | Inr None \<Rightarrow> (Inl e, st1\<lparr>lg_db := db'\<rparr>)
                             | Inr (Some _) \<Rightarrow> (Inl DuplicateRunError, st1\<lparr>lg_db := db'\<rparr>))
                          else (Inl e, st1\<lparr>lg_db := db'\<rparr>)
                      | (Inr _, db') \<Rightarrow> (get_record rid db', st1\<lparr>lg_db := db'\<rparr>))))))))"

text \<open>\<open>_transition\<close>: one conditional \<open>UPDATE\<close> and its event, in one transaction.\<close>

definition update_where ::
  "string \<Rightarrow> artifact_state list \<Rightarrow> (record_row \<Rightarrow> record_row) \<Rightarrow> database \<Rightarrow> database" where
  "update_where rid from upd db =
     db\<lparr>db_records := map (\<lambda>r. if r_record_id r = rid \<and> r_state r \<in> set (map state_value from)
                                then upd r else r) (db_records db)\<rparr>"

definition transition ::
  "string \<Rightarrow> artifact_state list \<Rightarrow> (record_row \<Rightarrow> record_row) \<Rightarrow> string option list \<Rightarrow> string \<Rightarrow> json \<Rightarrow>
   string \<Rightarrow> database \<Rightarrow> unit result \<times> database" where
  "transition rid from upd texts kind body now db =
     (case write_transaction
        (\<lambda>db. if \<not> texts_ok (Some rid # texts) then (Inl UnicodeError, db)
          else if \<exists>r \<in> set (db_records db). r_record_id r = rid \<and> r_state r \<in> set (map state_value from)
          then (case append_event kind rid body now (update_where rid from upd db) of
                  (Inl e, db') \<Rightarrow> (Inl e, db')
                | (Inr _, db') \<Rightarrow> (Inr True, db'))
          else (Inr False, db)) db of
        (Inl e, db') \<Rightarrow> (Inl e, db')
      | (Inr True, db') \<Rightarrow> (Inr (), db')
      | (Inr False, db') \<Rightarrow>
          (case get_record rid db' of
             Inl e \<Rightarrow> (Inl e, db')
           | Inr _ \<Rightarrow> (Inl InvalidStateTransitionError, db')))"

definition set_sealed :: "string \<Rightarrow> record_row \<Rightarrow> record_row" where
  "set_sealed now r = r\<lparr>r_state := ''sealed'', r_finalized_at := Some now\<rparr>"

definition set_failed :: "string \<Rightarrow> string \<Rightarrow> record_row \<Rightarrow> record_row" where
  "set_failed now err r = r\<lparr>r_state := ''failed'', r_finalized_at := Some now, r_error := Some err\<rparr>"

definition set_invalidated :: "string \<Rightarrow> string \<Rightarrow> record_row \<Rightarrow> record_row" where
  "set_invalidated now err r = r\<lparr>r_state := ''invalidated'', r_finalized_at := Some now, r_error := Some err\<rparr>"

text \<open>
  What \<open>seal\<close>, \<open>fail\<close> and \<open>invalidate\<close> do in their transaction.  By then the record they read
  may be an earlier one: another process may have moved it, which is why the transaction looks at
  the state again.
\<close>

definition seal_transition :: "artifact_record \<Rightarrow> string \<Rightarrow> string \<Rightarrow> string \<Rightarrow> database \<Rightarrow> unit result \<times> database" where
  "seal_transition r rid now1 now2 db =
     transition rid [PENDING] (set_sealed now1) [Some now1] ''record.sealed''
       (JObj [(''artifact_hash'', JStr (ar_artifact_hash r))]) now2 db"

definition fail_transition :: "string \<Rightarrow> string \<Rightarrow> string \<Rightarrow> string \<Rightarrow> database \<Rightarrow> unit result \<times> database" where
  "fail_transition rid err now1 now2 db =
     transition rid [PENDING, FAILED] (set_failed now1 err) [Some now1, Some err]
       ''record.failed'' (JObj [(''error'', JStr err)]) now2 db"

definition invalidate_transition :: "string \<Rightarrow> string \<Rightarrow> string \<Rightarrow> string \<Rightarrow> database \<Rightarrow> unit result \<times> database" where
  "invalidate_transition rid note now1 now2 db =
     transition rid [PENDING, SEALED] (set_invalidated now1 (''INVALIDATED: '' @ note))
       [Some now1, Some (''INVALIDATED: '' @ note)] ''record.invalidated'' (JObj [(''reason'', JStr note)]) now2 db"

lemmas transitions = seal_transition_def fail_transition_def invalidate_transition_def

definition seal ::
  "file_system \<Rightarrow> string \<Rightarrow> string \<Rightarrow> string \<Rightarrow> ledger \<Rightarrow> artifact_record result \<times> ledger" where
  "seal fs rid now1 now2 st =
     (case get_record rid (lg_db st) of
        Inl e \<Rightarrow> (Inl e, st)
      | Inr r \<Rightarrow>
          if ar_state r \<noteq> PENDING then (Inl InvalidStateTransitionError, st)
          else let dir = path_of (ar_artifact_dir r) in
            (case archive_bundle (fs dir) dir (ar_artifact_manifest r) (ar_artifact_hash r) (lg_archive st) of
               (Inl e, s1) \<Rightarrow> (Inl e, st\<lparr>lg_archive := s1\<rparr>)
             | (Inr _, s1) \<Rightarrow>
                 (case seal_transition r rid now1 now2 (lg_db st) of
                    (Inl e, db') \<Rightarrow> (Inl e, \<lparr>lg_archive = s1, lg_db = db'\<rparr>)
                  | (Inr _, db') \<Rightarrow> (get_record rid db', \<lparr>lg_archive = s1, lg_db = db'\<rparr>))))"

definition fail_record ::
  "string \<Rightarrow> string \<Rightarrow> string \<Rightarrow> string \<Rightarrow> database \<Rightarrow> artifact_record result \<times> database" where
  "fail_record rid err now1 now2 db =
     (case get_record rid db of
        Inl e \<Rightarrow> (Inl e, db)
      | Inr r \<Rightarrow>
          if ar_state r = SEALED \<or> ar_state r = INVALIDATED then (Inl InvalidStateTransitionError, db)
          else (case fail_transition rid err now1 now2 db of
                  (Inl e, db') \<Rightarrow> (Inl e, db')
                | (Inr _, db') \<Rightarrow> (get_record rid db', db')))"

definition invalidate ::
  "string \<Rightarrow> string \<Rightarrow> string \<Rightarrow> string \<Rightarrow> database \<Rightarrow> artifact_record result \<times> database" where
  "invalidate rid note now1 now2 db =
     (case get_record rid db of
        Inl e \<Rightarrow> (Inl e, db)
      | Inr r \<Rightarrow>
          if ar_state r = INVALIDATED \<or> ar_state r = FAILED then (Inl InvalidStateTransitionError, db)
          else (case invalidate_transition rid note now1 now2 db of
                  (Inl e, db') \<Rightarrow> (Inl e, db')
                | (Inr _, db') \<Rightarrow> (get_record rid db', db')))"

end
