(* ===== verification/Adapter.thy ===== *)
theory Adapter
  imports Ledger
begin

text \<open>
  The adapter contract (\<open>stele/contracts/adapter.py\<close>): chunks, the bundle an adapter
  reads, and the validation of an adapter's output.  The main result: validated chunks
  are exactly those with distinct ids, hashed contents and metadata that JSON keeps
  unchanged.  Types the code states in annotations only (an id that is not a \<open>str\<close>) are
  not modelled.
\<close>

section \<open>Chunks\<close>

record chunk =
  ch_id :: string
  ch_content :: string
  ch_content_hash :: string
  ch_token_count :: pyval
  ch_metadata :: pyval

text \<open>The code points \<open>str.split()\<close> separates words at.\<close>

definition space_cp :: "nat \<Rightarrow> bool" where
  "space_cp n \<longleftrightarrow> (9 \<le> n \<and> n \<le> 13) \<or> (28 \<le> n \<and> n \<le> 32) \<or> n = 133 \<or> n = 160 \<or> n = 5760
     \<or> (8192 \<le> n \<and> n \<le> 8202) \<or> n = 8232 \<or> n = 8233 \<or> n = 8239 \<or> n = 8287 \<or> n = 12288"

fun count_words :: "bool \<Rightarrow> nat list \<Rightarrow> nat" where
  "count_words inside [] = (if inside then 1 else 0)"
| "count_words inside (n # ns) =
     (if space_cp n then (if inside then 1 else 0) + count_words False ns else count_words True ns)"

definition make_chunk :: "string \<Rightarrow> string \<Rightarrow> (string \<times> pyval) list \<Rightarrow> chunk result" where
  "make_chunk cid content metadata =
     (if \<not> utf8_ok content then Inl UnicodeError
      else Inr \<lparr>ch_id = cid, ch_content = content, ch_content_hash = sha256 content,
                ch_token_count = VInt (int (count_words False (code_points content))),
                ch_metadata = VDict metadata\<rparr>)"

section \<open>What an adapter reads\<close>

record sealed_bundle =
  sb_record_id :: string
  sb_run_id :: string
  sb_artifact_hash :: string
  sb_manifest :: manifest
  sb_parser :: "parser_identity option"
  sb_parser_config :: "json option"
  sb_source_hash :: "string option"
  sb_source_kind :: "snapshot_kind option"
  sb_source_path :: "string option"
  sb_archive :: archive

text \<open>\<open>dict(record.parser_config)\<close> of a stored config, which is an object.\<close>

definition bundle_from_record :: "artifact_record \<Rightarrow> archive \<Rightarrow> sealed_bundle" where
  "bundle_from_record r archive =
     \<lparr>sb_record_id = ar_record_id r, sb_run_id = ar_run_id r, sb_artifact_hash = ar_artifact_hash r,
      sb_manifest = ar_artifact_manifest r, sb_parser = ar_parser r, sb_parser_config = ar_parser_config r,
      sb_source_hash = ar_source_hash r, sb_source_kind = ar_source_kind r,
      sb_source_path = ar_source_path r, sb_archive = archive\<rparr>"

definition bundle_paths :: "sealed_bundle \<Rightarrow> string list" where
  "bundle_paths b = sort (dict_keys (sb_manifest b))"

definition bundle_read :: "sealed_bundle \<Rightarrow> string \<Rightarrow> string result" where
  "bundle_read b path =
     (case map_of (sb_manifest b) path of
        None \<Rightarrow> Inl KeyError
      | Some digest \<Rightarrow> read_blob (sb_archive b) digest)"

text \<open>\<open>read_text\<close> with its default encoding.\<close>

definition bundle_read_text :: "sealed_bundle \<Rightarrow> string \<Rightarrow> string result" where
  "bundle_read_text b path =
     (case bundle_read b path of
        Inl e \<Rightarrow> Inl e
      | Inr bytes \<Rightarrow> if utf8_ok bytes then Inr bytes else Inl UnicodeError)"

section \<open>Validation\<close>

text \<open>\<open>==\<close> on floats.\<close>

fun float_eq :: "pyfloat \<Rightarrow> pyfloat \<Rightarrow> bool" where
  "float_eq PNaN y = False"
| "float_eq x PNaN = False"
| "float_eq (PNum a) PNegZero = (a = 0)"
| "float_eq PNegZero (PNum b) = (b = 0)"
| "float_eq x y = (x = y)"

lemma size_zip_right: "(x, v) \<in> set (zip ds vs) \<Longrightarrow> size v < Suc (size_list size vs)"
  using set_zip_rightD size_list_estimation' [of v vs "size v" size] by fastforce

lemma size_member: "(k, v) \<in> set kvs \<Longrightarrow> size v < Suc (size_list (size_prod (\<lambda>x. 0) size) kvs)"
  using size_list_estimation' [of "(k, v)" kvs "size v" "size_prod (\<lambda>x. 0) size"] by simp

text \<open>\<open>_json_equal(decoded, original)\<close>.\<close>

function json_equal :: "json \<Rightarrow> pyval \<Rightarrow> bool" where
  "json_equal d (VDict kvs) =
     (case d of
        JObj dkvs \<Rightarrow>
          set (map fst dkvs) = set (map fst kvs) \<and> list_all (\<lambda>(k, v). json_equal (jget dkvs k) v) kvs
      | _ \<Rightarrow> False)"
| "json_equal d (VList vs) =
     (case d of
        JArr ds \<Rightarrow> length ds = length vs \<and> list_all (\<lambda>(x, v). json_equal x v) (zip ds vs)
      | _ \<Rightarrow> False)"
| "json_equal d VNull = (d = JNull)"
| "json_equal d (VBool b) = (d = JBool b)"
| "json_equal d (VInt i) = (d = JInt i)"
| "json_equal d (VFloat x) = (case d of JFloat y \<Rightarrow> float_eq y x | _ \<Rightarrow> False)"
| "json_equal d (VStr s) = (d = JStr s)"
| "json_equal d (VTuple vs) = False"
| "json_equal d VOtherKeys = False"
| "json_equal d VOther = False"
  by pat_completeness auto
termination
  by (relation "measure (\<lambda>p. size (snd p))") (auto simp: size_zip_right size_member)

text \<open>\<open>_check_metadata\<close>: every refusal is a \<open>ChunkValidationError\<close>.\<close>

definition check_metadata :: "pyval \<Rightarrow> unit result" where
  "check_metadata m =
     (case m of
        VDict _ \<Rightarrow>
          (case encode_value m of
             None \<Rightarrow> Inl ChunkValidationError
           | Some j \<Rightarrow>
               (case canonical_json j of
                  Inl e \<Rightarrow> Inl ChunkValidationError
                | Inr encoded \<Rightarrow>
                    (case json_loads encoded of
                       None \<Rightarrow> Inl ValueError
                     | Some d \<Rightarrow> if json_equal d m then Inr () else Inl ChunkValidationError)))
      | _ \<Rightarrow> Inl ChunkValidationError)"

definition check_token_count :: "pyval \<Rightarrow> unit result" where
  "check_token_count t =
     (case t of VInt i \<Rightarrow> if i < 0 then Inl ChunkValidationError else Inr ()
      | _ \<Rightarrow> Inl ChunkValidationError)"

fun validate_from :: "string list \<Rightarrow> chunk list \<Rightarrow> unit result" where
  "validate_from seen [] = Inr ()"
| "validate_from seen (c # cs) =
     (if ch_id c = [] \<or> ch_id c \<in> set seen \<or> ch_content c = [] \<or> ch_content_hash c = []
      then Inl ChunkValidationError
      else if \<not> utf8_ok (ch_content c) then Inl UnicodeError
      else if ch_content_hash c \<noteq> sha256 (ch_content c) then Inl ChunkValidationError
      else case check_token_count (ch_token_count c) of Inl e \<Rightarrow> Inl e | Inr _ \<Rightarrow>
        (case check_metadata (ch_metadata c) of Inl e \<Rightarrow> Inl e | Inr _ \<Rightarrow>
           validate_from (ch_id c # seen) cs))"

definition validate_chunks :: "chunk list \<Rightarrow> unit result" where
  "validate_chunks chunks = (if chunks = [] then Inl ChunkValidationError else validate_from [] chunks)"

section \<open>Lemmas\<close>

definition chunk_ok :: "chunk \<Rightarrow> bool" where
  "chunk_ok c \<longleftrightarrow>
     ch_id c \<noteq> [] \<and> ch_content c \<noteq> [] \<and> utf8_ok (ch_content c) \<and>
     ch_content_hash c = sha256 (ch_content c) \<and> (\<exists>n. ch_token_count c = VInt n \<and> 0 \<le> n) \<and>
     check_metadata (ch_metadata c) = Inr ()"

lemma check_token_count_iff: "check_token_count t = Inr () \<longleftrightarrow> (\<exists>n. t = VInt n \<and> 0 \<le> n)"
  by (auto simp: check_token_count_def split: pyval.splits)

lemma sha256_nonempty [simp]: "sha256 x \<noteq> []"
  using length_sha256 [of x] by fastforce

lemma validate_from_iff:
  "validate_from seen cs = Inr () \<longleftrightarrow>
   list_all chunk_ok cs \<and> distinct (map ch_id cs) \<and> set (map ch_id cs) \<inter> set seen = {}"
proof (induction cs arbitrary: seen)
  case (Cons c cs)
  have "validate_from seen (c # cs) = Inr () \<longleftrightarrow>
      chunk_ok c \<and> ch_id c \<notin> set seen \<and> validate_from (ch_id c # seen) cs = Inr ()"
    using check_token_count_iff [of "ch_token_count c"]
    by (auto simp: chunk_ok_def split: sum.splits)
  with Cons.IH [of "ch_id c # seen"] show ?case by auto
qed simp

text \<open>
  An adapter's output passes validation exactly when it is not empty, its chunk ids are
  distinct, and every chunk has an id, a content whose SHA-256 is the stated content hash,
  a token count that is an integer of at least 0 (a boolean is refused), and metadata that
  canonical JSON encodes and gives back unchanged.
\<close>

theorem validate_chunks_exact:
  "validate_chunks cs = Inr () \<longleftrightarrow> cs \<noteq> [] \<and> distinct (map ch_id cs) \<and> list_all chunk_ok cs"
  by (auto simp: validate_chunks_def validate_from_iff list_all_iff)

text \<open>What metadata passes: an object with an encoding, and it is equal to what is decoded.\<close>

lemma check_metadata_ok:
  "check_metadata m = Inr () \<Longrightarrow>
   \<exists>kvs j t d. m = VDict kvs \<and> encode_value m = Some j \<and> canonical_json j = Inr t \<and>
     json_loads t = Some d \<and> json_equal d m"
  by (auto simp: check_metadata_def split: pyval.splits option.splits sum.splits if_splits)

lemma json_equal_no_tuple: "json_equal d m \<Longrightarrow> \<not> has_tuple m"
proof (induction d m rule: json_equal.induct)
  case (1 d kvs)
  then show ?case by (cases d) (auto simp: list_ex_iff list_all_iff)
next
  case (2 d vs)
  then obtain ds where d: "d = JArr ds" "length ds = length vs" by (cases d) auto
  have "\<not> has_tuple v" if v: "v \<in> set vs" for v
  proof -
    obtain i where "i < length vs" "v = vs ! i" using v by (metis in_set_conv_nth)
    then have "(ds ! i, v) \<in> set (zip ds vs)" using d by (auto simp: in_set_zip)
    then show ?thesis using 2 d by (auto simp: list_all_iff)
  qed
  then show ?case by (auto simp: list_ex_iff)
qed auto

text \<open>
  Reading an artifact through the bundle gives only bytes whose SHA-256 is the digest
  the sealed record's manifest states for that path: an adapter sees what was sealed or an
  error, whatever the archive's files have become.
\<close>

theorem bundle_read_verified:
  "bundle_read (bundle_from_record r archive) p = Inr bytes \<Longrightarrow>
   \<exists>d. map_of (ar_artifact_manifest r) p = Some d \<and> sha256 bytes = d"
  by (auto simp: bundle_read_def bundle_from_record_def read_blob_digest split: option.splits)

end
