(* ===== verification/VerifyLedger.thy ===== *)
theory VerifyLedger
  imports Ledger
begin

text \<open>
  Verifying a whole ledger (\<open>verify_ledger\<close> and \<open>_apply\<close> of \<open>stele/ledger/events.py\<close>): the
  chain is replayed into what the tables must hold, and every difference is reported.
  The main results: what an accepted ledger guarantees, field by field, and that every
  ledger the program's operations produce is accepted.
\<close>

section \<open>Replaying the chain\<close>

text \<open>What the chain says: records as objects of seven fields, deliveries, the event
  tuples of each delivery, and replays, as dictionaries by subject.\<close>

type_synonym obj = "(string \<times> json) list"

record derived =
  dv_records :: "(string, obj) dict"
  dv_deliveries :: "(string, obj) dict"
  dv_delivery_events :: "(string, json list list) dict"
  dv_replays :: "(string, obj) dict"

definition derived_empty :: derived where
  "derived_empty = \<lparr>dv_records = [], dv_deliveries = [], dv_delivery_events = [], dv_replays = []\<rparr>"

definition record_state_of_kind :: "string \<Rightarrow> string option" where
  "record_state_of_kind k =
     map_of [(''record.created'', ''pending''), (''record.sealed'', ''sealed''),
             (''record.failed'', ''failed''), (''record.invalidated'', ''invalidated'')] k"

text \<open>\<open>_event_tuple\<close> of an event body: \<open>None\<close> is the \<open>KeyError\<close> of a missing field.\<close>

definition body_tuple :: "obj \<Rightarrow> json list option" where
  "body_tuple b =
     (case (map_of b ''event'', map_of b ''planned'', map_of b ''chunks_digest'', map_of b ''done'',
            map_of b ''error'') of
        (Some ev, Some pl, Some cd, Some dn, Some er) \<Rightarrow> Some [ev, pl, cd, dn, er, jget b ''attempt_id'']
      | _ \<Rightarrow> None)"

text \<open>\<open>{k: b[k] for k in ks}\<close>.\<close>

definition fields_of_body :: "string list \<Rightarrow> obj \<Rightarrow> obj option" where
  "fields_of_body ks b =
     (if \<forall>k \<in> set ks. map_of b k \<noteq> None then Some (map (\<lambda>k. (k, jget b k)) ks) else None)"

definition delivery_fields :: "string list" where
  "delivery_fields = [''record_id'', ''target_kind'', ''target'']"

definition replay_fields :: "string list" where
  "replay_fields = [''record_id'', ''outcome'', ''replay_artifact_hash'']"

text \<open>
  \<open>_apply\<close>; \<open>None\<close> when a field the event needs is missing or the body is not an object
  (a \<open>KeyError\<close>, \<open>TypeError\<close> or \<open>AttributeError\<close>).
\<close>

definition apply_event :: "string \<Rightarrow> string \<Rightarrow> json \<Rightarrow> derived \<Rightarrow> derived option" where
  "apply_event kind subject body d =
     (if kind = ''record.created'' \<or> kind = ''record.imported'' then
        (case body of
           JObj b \<Rightarrow>
             (case (map_of b ''run_id'', map_of b ''artifact_hash'') of
                (Some rid, Some h) \<Rightarrow>
                  Some (d\<lparr>dv_records := AList.update subject
                    [(''run_id'', rid), (''artifact_hash'', h), (''source_hash'', jget b ''source_hash''),
                     (''parser'', jget b ''parser''), (''parser_config'', jget b ''parser_config''),
                     (''run_conditions'', jget b ''run_conditions''),
                     (''state'', case map_of b ''state'' of None \<Rightarrow> JStr ''pending'' | Some s \<Rightarrow> s)]
                    (dv_records d)\<rparr>)
              | _ \<Rightarrow> None)
         | _ \<Rightarrow> None)
      else if record_state_of_kind kind \<noteq> None then
        (case map_of (dv_records d) subject of
           None \<Rightarrow> Some d
         | Some w \<Rightarrow>
             Some (d\<lparr>dv_records := AList.update subject
               (AList.update ''state'' (JStr (the (record_state_of_kind kind))) w) (dv_records d)\<rparr>))
      else if kind = ''delivery.opened'' \<or> kind = ''delivery.imported'' then
        (case body of
           JObj b \<Rightarrow>
             (case fields_of_body delivery_fields b of
                None \<Rightarrow> None
              | Some w \<Rightarrow> Some (d\<lparr>dv_deliveries := AList.update subject w (dv_deliveries d)\<rparr>))
         | _ \<Rightarrow> None)
      else if kind = ''delivery.event'' \<or> kind = ''delivery_event.imported'' then
        (case body of
           JObj b \<Rightarrow>
             (case body_tuple b of
                None \<Rightarrow> None
              | Some t \<Rightarrow>
                  Some (d\<lparr>dv_delivery_events := AList.update subject
                    ((case map_of (dv_delivery_events d) subject of None \<Rightarrow> [] | Some ts \<Rightarrow> ts) @ [t])
                    (dv_delivery_events d)\<rparr>))
         | _ \<Rightarrow> None)
      else if kind = ''replay.logged'' \<or> kind = ''replay.imported'' then
        (case body of
           JObj b \<Rightarrow>
             Some (d\<lparr>dv_replays := AList.update subject (map (\<lambda>k. (k, jget b k)) replay_fields)
               (dv_replays d)\<rparr>)
         | _ \<Rightarrow> None)
      else Some d)"

datatype ledger_problem =
    MalformedBody int string
  | RecordOnlyInChain string
  | RecordNeverLogged string
  | MalformedColumn string
  | RecordDiffers string string
  | ManifestMismatch string
  | DeliveryOnlyInChain string
  | DeliveryOnlyInLedger string
  | DeliveryDiffers string
  | DeliveryEventsDiffer string
  | ReplayOnlyInChain string
  | ReplayOnlyInLedger string
  | ReplayDiffers string

text \<open>The loop over the events: a malformed one is reported and skipped.\<close>

definition replay_event :: "event_row \<Rightarrow> derived \<times> ledger_problem list \<Rightarrow> derived \<times> ledger_problem list" where
  "replay_event r dp =
     (case dp of (d, ps) \<Rightarrow>
        (case (case json_loads (ev_body r) of None \<Rightarrow> None
               | Some b \<Rightarrow> apply_event (ev_kind r) (ev_subject r) b d) of
           None \<Rightarrow> (d, ps @ [MalformedBody (ev_seq r) (ev_kind r)])
         | Some d' \<Rightarrow> (d', ps)))"

definition replay_chain :: "event_row list \<Rightarrow> derived \<times> ledger_problem list" where
  "replay_chain rs = fold replay_event rs (derived_empty, [])"

section \<open>Comparing the tables\<close>

definition json_column_ok :: "string option \<Rightarrow> json option" where
  "json_column_ok t = (case t of None \<Rightarrow> Some JNull | Some s \<Rightarrow> json_loads s)"

text \<open>
  \<open>sha256_manifest(json.loads(...))\<close>: \<open>None\<close> when it raises.  An empty list or an empty
  text has no path to look up and hashes like an empty manifest.
\<close>

definition column_manifest_hash :: "json option \<Rightarrow> string option" where
  "column_manifest_hash c =
     (case c of
        None \<Rightarrow> None
      | Some (JObj kvs) \<Rightarrow>
          (case manifest_of kvs of
             None \<Rightarrow> None
           | Some m \<Rightarrow> (case sha256_manifest m of Inl _ \<Rightarrow> None | Inr h \<Rightarrow> Some h))
      | Some (JArr []) \<Rightarrow> Some (sha256 [])
      | Some (JStr []) \<Rightarrow> Some (sha256 [])
      | Some _ \<Rightarrow> None)"

definition actual_record :: "record_row \<Rightarrow> json \<Rightarrow> json \<Rightarrow> obj" where
  "actual_record r config conditions =
     [(''run_id'', JStr (r_run_id r)), (''artifact_hash'', JStr (r_artifact_hash r)),
      (''source_hash'', opt_str (r_source_hash r)), (''parser'', parser_obj r),
      (''parser_config'', config), (''run_conditions'', conditions), (''state'', JStr (r_state r))]"

text \<open>\<open>actual[key] != want[key]\<close>.\<close>

definition differs :: "obj \<Rightarrow> obj \<Rightarrow> string \<Rightarrow> bool" where
  "differs actual want k \<longleftrightarrow> \<not> py_eq (jget actual k) (jget want k)"

definition check_record :: "string \<Rightarrow> record_row option \<Rightarrow> obj option \<Rightarrow> ledger_problem list" where
  "check_record rid row want =
     (case row of
        None \<Rightarrow> [RecordOnlyInChain rid]
      | Some r \<Rightarrow>
          (case want of
             None \<Rightarrow> [RecordNeverLogged rid]
           | Some w \<Rightarrow>
               (case (json_column_ok (r_parser_config r), json_column_ok (r_run_conditions r),
                      column_manifest_hash (r_artifact_manifest r)) of
                  (Some config, Some conditions, Some h) \<Rightarrow>
                    map (RecordDiffers rid)
                      (filter (differs (actual_record r config conditions) w) (sort (map fst w)))
                    @ (if h \<noteq> r_artifact_hash r then [ManifestMismatch rid] else [])
                | _ \<Rightarrow> [MalformedColumn rid])))"

definition row_delivery :: "delivery_row \<Rightarrow> obj" where
  "row_delivery d =
     [(''record_id'', JStr (d_record_id d)), (''target_kind'', JStr (d_target_kind d)),
      (''target'', JStr (d_target d))]"

definition row_replay :: "replay_row \<Rightarrow> obj" where
  "row_replay p =
     [(''record_id'', JStr (p_record_id p)), (''outcome'', JStr (p_outcome p)),
      (''replay_artifact_hash'', opt_str (p_replay_artifact_hash p))]"

text \<open>\<open>{k: row[k] for k in want} != want\<close>.\<close>

definition row_differs :: "obj \<Rightarrow> obj \<Rightarrow> bool" where
  "row_differs actual want \<longleftrightarrow> (\<exists>k \<in> set (map fst want). differs actual want k)"

definition check_delivery :: "string \<Rightarrow> delivery_row option \<Rightarrow> obj option \<Rightarrow> ledger_problem list" where
  "check_delivery did row want =
     (case (row, want) of
        (None, _) \<Rightarrow> [DeliveryOnlyInChain did]
      | (Some _, None) \<Rightarrow> [DeliveryOnlyInLedger did]
      | (Some d, Some w) \<Rightarrow> if row_differs (row_delivery d) w then [DeliveryDiffers did] else [])"

definition check_replay :: "string \<Rightarrow> replay_row option \<Rightarrow> obj option \<Rightarrow> ledger_problem list" where
  "check_replay pid row want =
     (case (row, want) of
        (None, _) \<Rightarrow> [ReplayOnlyInChain pid]
      | (Some _, None) \<Rightarrow> [ReplayOnlyInLedger pid]
      | (Some p, Some w) \<Rightarrow> if row_differs (row_replay p) w then [ReplayDiffers pid] else [])"

definition row_tuple :: "delivery_event_row \<Rightarrow> json list" where
  "row_tuple e =
     [JStr (e_event e), opt_int (e_planned e), opt_str (e_chunks_digest e), opt_int (e_done e),
      opt_str (e_error e), opt_str (e_attempt_id e)]"

definition tuples_of :: "string \<Rightarrow> delivery_event_row list \<Rightarrow> json list list" where
  "tuples_of did es = map row_tuple (filter (\<lambda>e. e_dispatch_id e = did) (sort_key e_event_id es))"

definition check_delivery_events ::
  "string \<Rightarrow> json list list \<Rightarrow> json list list \<Rightarrow> ledger_problem list" where
  "check_delivery_events did actual want =
     (if list_all2 (list_all2 py_eq) actual want then [] else [DeliveryEventsDiffer did])"

definition by_key :: "('r \<Rightarrow> string) \<Rightarrow> 'r list \<Rightarrow> (string, 'r) dict" where
  "by_key key rs = dict_of (map (\<lambda>r. (key r, r)) rs)"

definition ledger_problems :: "database \<Rightarrow> ledger_problem list" where
  "ledger_problems db =
     (let (d, ps) = replay_chain (sort_key ev_seq (db_events db));
          records = by_key r_record_id (db_records db);
          deliveries = by_key d_dispatch_id (db_deliveries db);
          replays = by_key p_replay_id (db_replays db)
      in ps
         @ concat (map (\<lambda>i. check_record i (map_of records i) (map_of (dv_records d) i))
             (sorted_union (dict_keys records) (dict_keys (dv_records d))))
         @ concat (map (\<lambda>i. check_delivery i (map_of deliveries i) (map_of (dv_deliveries d) i))
             (sorted_union (dict_keys deliveries) (dict_keys (dv_deliveries d))))
         @ concat (map (\<lambda>i. check_delivery_events i (tuples_of i (db_delivery_events db))
               (case map_of (dv_delivery_events d) i of None \<Rightarrow> [] | Some ts \<Rightarrow> ts))
             (sorted_union (map e_dispatch_id (db_delivery_events db)) (dict_keys (dv_delivery_events d))))
         @ concat (map (\<lambda>i. check_replay i (map_of replays i) (map_of (dv_replays d) i))
             (sorted_union (dict_keys replays) (dict_keys (dv_replays d)))))"

record ledger_report =
  lr_chain :: chain_report
  lr_problems :: "ledger_problem list"

definition verify_ledger :: "anchor \<Rightarrow> database \<Rightarrow> ledger_report result" where
  "verify_ledger anchor db =
     (case verify anchor db of
        Inl e \<Rightarrow> Inl e
      | Inr chain \<Rightarrow> Inr \<lparr>lr_chain = chain, lr_problems = ledger_problems db\<rparr>)"

definition ledger_verifies :: "anchor \<Rightarrow> database \<Rightarrow> bool" where
  "ledger_verifies anchor db =
     (case verify_ledger anchor db of
        Inl e \<Rightarrow> False
      | Inr rep \<Rightarrow> cr_problems (lr_chain rep) = [] \<and> lr_problems rep = [])"

section \<open>Canonical bodies\<close>

lemma py_norm_jsort: "json_ok j \<Longrightarrow> py_norm (jsort j) = py_norm j"
proof (induction j rule: jsort.induct)
  case (1 vs)
  then show ?case by (simp add: list_all_iff)
next
  case (2 kvs)
  have "map (\<lambda>(k, v). (k, py_norm v)) (map (\<lambda>(k, v). (k, jsort v)) kvs) = map (\<lambda>(k, v). (k, py_norm v)) kvs"
    using 2 by (auto simp: list_all_iff)
  then show ?case
    using sort_map_values [of "map (\<lambda>(k, v). (k, jsort v)) kvs" py_norm] 2 by (simp del: map_map)
qed simp_all

lemma py_eq_refl [simp]: "py_eq a a"
  by (simp add: py_eq_def)

lemma py_eq_jsort: "json_ok j \<Longrightarrow> py_eq j (jsort j)"
  by (simp add: py_eq_def py_norm_jsort)

lemma py_eq_str [simp]: "py_eq (JStr s) v \<longleftrightarrow> v = JStr s"
  by (cases v) (auto simp: py_eq_def split: pyfloat.splits)

lemma py_eq_null [simp]: "py_eq JNull v \<longleftrightarrow> v = JNull"
  by (cases v) (auto simp: py_eq_def split: pyfloat.splits)

lemma py_eq_opt_str [simp]: "py_eq (opt_str x) v \<longleftrightarrow> v = opt_str x"
  by (cases x) simp_all

lemma canonical_json_loads:
  "json_ok b \<Longrightarrow> canonical_json b = Inr t \<Longrightarrow> json_loads t = Some (jsort b)"
  by (auto simp: canonical_json_ok cjson_roundtrip)

lemma canonical_json_rep_ok: "json_rep b \<Longrightarrow> canonical_json b = Inr t \<Longrightarrow> json_ok b"
  by (auto simp: canonical_json_def split: if_splits intro: json_ok_iff)

lemma map_of_jsorted:
  assumes "distinct (map fst kvs)"
  shows "map_of (sort_key fst (map (\<lambda>(k, v). (k, jsort v)) kvs)) = map_option jsort \<circ> map_of kvs"
  using assms map_of_sort_fst [of "map (\<lambda>(k, v). (k, jsort v)) kvs"] map_of_map_values [of jsort kvs]
  by (simp del: map_map)

text \<open>The body of an event, parsed: its members are the body's, sorted.\<close>

lemma loads_body:
  assumes "json_rep (JObj kvs)" "canonical_json (JObj kvs) = Inr t"
  obtains b where "json_loads t = Some (JObj b)" "map_of b = map_option jsort \<circ> map_of kvs"
    "\<And>k. jget b k = jsort (jget kvs k)"
proof -
  have ok: "json_ok (JObj kvs)" using assms by (rule canonical_json_rep_ok)
  then have d: "distinct (map fst kvs)" by simp
  have "json_loads t = Some (jsort (JObj kvs))" using ok assms(2) by (rule canonical_json_loads)
  then show ?thesis
    using that [of "sort_key fst (map (\<lambda>(k, v). (k, jsort v)) kvs)"] map_of_jsorted [OF d] jget_sorted [OF d] by simp
qed

section \<open>Ledgers whose tables are what the chain says\<close>

text \<open>What the chain says of a row the program wrote.\<close>

definition column_value :: "string option \<Rightarrow> json" where
  "column_value t = (case json_column_ok t of None \<Rightarrow> JNull | Some j \<Rightarrow> j)"

definition want_of_row :: "record_row \<Rightarrow> obj" where
  "want_of_row r =
     [(''run_id'', JStr (r_run_id r)), (''artifact_hash'', JStr (r_artifact_hash r)),
      (''source_hash'', opt_str (r_source_hash r)), (''parser'', jsort (parser_obj r)),
      (''parser_config'', jsort (column_value (r_parser_config r))),
      (''run_conditions'', jsort (column_value (r_run_conditions r))), (''state'', JStr (r_state r))]"

definition column_ok :: "string option \<Rightarrow> bool" where
  "column_ok t \<longleftrightarrow> (\<exists>j. json_column_ok t = Some j \<and> json_ok j)"

definition row_ok :: "record_row \<Rightarrow> bool" where
  "row_ok r \<longleftrightarrow>
     column_ok (r_parser_config r) \<and> column_ok (r_run_conditions r) \<and> json_ok (parser_obj r) \<and>
     column_manifest_hash (r_artifact_manifest r) = Some (r_artifact_hash r)"

definition events_for :: "derived \<Rightarrow> string \<Rightarrow> json list list" where
  "events_for d i = (case map_of (dv_delivery_events d) i of None \<Rightarrow> [] | Some ts \<Rightarrow> ts)"

definition tables_match :: "database \<Rightarrow> derived \<Rightarrow> bool" where
  "tables_match db d \<longleftrightarrow>
     map_of (dv_records d) = map_of (map (\<lambda>r. (r_record_id r, want_of_row r)) (db_records db)) \<and>
     map_of (dv_deliveries d) = map_of (map (\<lambda>x. (d_dispatch_id x, row_delivery x)) (db_deliveries db)) \<and>
     map_of (dv_replays d) = map_of (map (\<lambda>x. (p_replay_id x, row_replay x)) (db_replays db)) \<and>
     (\<forall>i. events_for d i = tuples_of i (db_delivery_events db))"

definition keys_ok :: "database \<Rightarrow> bool" where
  "keys_ok db \<longleftrightarrow>
     distinct (map r_record_id (db_records db)) \<and> distinct (map r_run_id (db_records db)) \<and>
     distinct (map d_dispatch_id (db_deliveries db)) \<and> distinct (map p_replay_id (db_replays db)) \<and>
     sorted (map e_event_id (db_delivery_events db))"

definition ledger_inv :: "database \<Rightarrow> bool" where
  "ledger_inv db \<longleftrightarrow>
     chain_ok GENESIS 1 (db_events db) \<and> keys_ok db \<and> (\<forall>r \<in> set (db_records db). row_ok r) \<and>
     snd (replay_chain (db_events db)) = [] \<and> tables_match db (fst (replay_chain (db_events db)))"

lemma by_key_distinct: "distinct (map key rs) \<Longrightarrow> by_key key rs = map (\<lambda>r. (key r, r)) rs"
  unfolding by_key_def by (rule dict_of_distinct) (simp add: comp_def)

lemma map_of_key: "map_of (map (\<lambda>r. (key r, f r)) rs) i = map_option f (map_of (map (\<lambda>r. (key r, r)) rs) i)"
  by (induction rs) auto

lemma map_of_key_Some: "map_of (map (\<lambda>r. (key r, r)) rs) i = Some r \<Longrightarrow> r \<in> set rs \<and> key r = i"
  by (induction rs) (auto split: if_splits)

lemma column_okD:
  "column_ok t \<Longrightarrow> json_column_ok t = Some (column_value t) \<and> json_ok (column_value t)"
  by (auto simp: column_ok_def column_value_def)

lemma check_record_ok:
  assumes "row_ok r"
  shows "check_record i (Some r) (Some (want_of_row r)) = []"
proof -
  have c: "json_column_ok (r_parser_config r) = Some (column_value (r_parser_config r))"
    "json_ok (column_value (r_parser_config r))"
    "json_column_ok (r_run_conditions r) = Some (column_value (r_run_conditions r))"
    "json_ok (column_value (r_run_conditions r))"
    "column_manifest_hash (r_artifact_manifest r) = Some (r_artifact_hash r)" "json_ok (parser_obj r)"
    using assms column_okD by (auto simp: row_ok_def)
  have "\<not> differs (actual_record r (column_value (r_parser_config r)) (column_value (r_run_conditions r)))
      (want_of_row r) k" if "k \<in> set (map fst (want_of_row r))" for k
    using that c py_eq_jsort by (auto simp: differs_def actual_record_def want_of_row_def)
  then show ?thesis using c by (simp add: check_record_def filter_empty_conv)
qed

lemma row_differs_refl: "distinct (map fst w) \<Longrightarrow> \<not> row_differs w w"
  by (simp add: row_differs_def differs_def)

lemma list_all2_py_eq_refl: "list_all2 (list_all2 py_eq) ts ts"
  by (simp add: list_all2_refl)

text \<open>
  A ledger whose chain is intact and whose tables are what the chain says is
  accepted by \<open>verify_ledger\<close>: the verifier raises no false alarm.
\<close>

lemma ledger_inv_verifies:
  assumes "ledger_inv db"
  shows "ledger_verifies None db"
proof -
  define d where "d = fst (replay_chain (db_events db))"
  have inv: "chain_ok GENESIS 1 (db_events db)" "keys_ok db" "\<forall>r \<in> set (db_records db). row_ok r"
    "tables_match db d"
    using assms by (simp_all add: ledger_inv_def d_def)
  have rc: "replay_chain (db_events db) = (d, [])"
    using assms by (simp add: ledger_inv_def d_def prod_eq_iff)
  have srt: "sort_key ev_seq (db_events db) = db_events db" by (rule chain_ok_sorted [OF inv(1)])
  have "chain_verifies None db" using inv(1) srt by (simp add: chain_verifies_exact)
  then obtain rep where rep: "verify None db = Inr rep" "cr_problems rep = []"
    by (auto simp: chain_verifies_def split: sum.splits)
  have m: "map_of (dv_records d) i = map_option want_of_row (map_of (by_key r_record_id (db_records db)) i)"
    "map_of (dv_deliveries d) i = map_option row_delivery (map_of (by_key d_dispatch_id (db_deliveries db)) i)"
    "map_of (dv_replays d) i = map_option row_replay (map_of (by_key p_replay_id (db_replays db)) i)" for i
    using inv(2,4) by (simp_all add: tables_match_def keys_ok_def by_key_distinct
      map_of_key [of r_record_id want_of_row] map_of_key [of d_dispatch_id row_delivery] map_of_key [of p_replay_id row_replay])
  have rows: "row_ok r" if "map_of (by_key r_record_id (db_records db)) i = Some r" for i r
    using that inv(2,3) map_of_key_Some [of r_record_id "db_records db" i r]
    by (simp add: keys_ok_def by_key_distinct)
  have keys: "map_of xs i \<noteq> None \<or> map_of ys i \<noteq> None"
    if "i \<in> set (sorted_union (dict_keys xs) (dict_keys ys))" for xs :: "(string, 'a) dict" and ys :: "(string, 'b) dict" and i
    using that by (auto simp: dict_keys_def map_of_eq_None_iff)
  have "check_record i (map_of (by_key r_record_id (db_records db)) i) (map_of (dv_records d) i) = []"
    if "i \<in> set (sorted_union (dict_keys (by_key r_record_id (db_records db))) (dict_keys (dv_records d)))" for i
    using keys [OF that] rows check_record_ok by (cases "map_of (by_key r_record_id (db_records db)) i") (auto simp: m)
  moreover have "check_delivery i (map_of (by_key d_dispatch_id (db_deliveries db)) i) (map_of (dv_deliveries d) i) = []"
    if "i \<in> set (sorted_union (dict_keys (by_key d_dispatch_id (db_deliveries db))) (dict_keys (dv_deliveries d)))" for i
    using keys [OF that] by (cases "map_of (by_key d_dispatch_id (db_deliveries db)) i")
      (auto simp: m check_delivery_def row_differs_def differs_def)
  moreover have "check_replay i (map_of (by_key p_replay_id (db_replays db)) i) (map_of (dv_replays d) i) = []"
    if "i \<in> set (sorted_union (dict_keys (by_key p_replay_id (db_replays db))) (dict_keys (dv_replays d)))" for i
    using keys [OF that] by (cases "map_of (by_key p_replay_id (db_replays db)) i")
      (auto simp: m check_replay_def row_differs_def differs_def)
  moreover have "check_delivery_events i (tuples_of i (db_delivery_events db)) (events_for d i) = []" for i
    using inv(4) by (simp add: tables_match_def check_delivery_events_def list_all2_py_eq_refl)
  ultimately have "ledger_problems db = []"
    unfolding ledger_problems_def srt rc by (simp add: Let_def events_for_def [symmetric] del: set_sorted_union)
  then show ?thesis using rep by (simp add: ledger_verifies_def verify_ledger_def)
qed

section \<open>What an accepted ledger guarantees\<close>

text \<open>Events that set the state of a record, and the state each one sets.\<close>

definition sets_state :: "string \<Rightarrow> event_row \<Rightarrow> bool" where
  "sets_state rid e \<longleftrightarrow> ev_subject e = rid \<and>
     ev_kind e \<in> {''record.created'', ''record.imported'', ''record.sealed'', ''record.failed'', ''record.invalidated''}"

definition state_set :: "event_row \<Rightarrow> json" where
  "state_set e =
     (if ev_kind e = ''record.created'' \<or> ev_kind e = ''record.imported'' then
        (case json_loads (ev_body e) of
           Some (JObj b) \<Rightarrow> (case map_of b ''state'' of None \<Rightarrow> JStr ''pending'' | Some s \<Rightarrow> s)
         | _ \<Rightarrow> JNull)
      else JStr (the (record_state_of_kind (ev_kind e))))"

definition record_fields :: "string list" where
  "record_fields =
     [''run_id'', ''artifact_hash'', ''source_hash'', ''parser'', ''parser_config'', ''run_conditions'', ''state'']"

lemma fields_of_derived:
  "apply_event k u (JObj b) d = Some d' \<Longrightarrow> k = ''record.created'' \<or> k = ''record.imported'' \<Longrightarrow>
   \<exists>w. dv_records d' = AList.update u w (dv_records d) \<and>
     map fst w = record_fields \<and>
     jget w ''state'' = (case map_of b ''state'' of None \<Rightarrow> JStr ''pending'' | Some s \<Rightarrow> s)"
  by (auto simp: apply_event_def record_fields_def jget_simps split: option.splits)

lemma other_kinds_keep_records:
  "apply_event k u b d = Some d' \<Longrightarrow> k \<noteq> ''record.created'' \<Longrightarrow> k \<noteq> ''record.imported'' \<Longrightarrow>
   record_state_of_kind k = None \<Longrightarrow> dv_records d' = dv_records d"
  by (simp add: apply_event_def split: if_split_asm option.split_asm json.split_asm) (drule sym, simp)+

lemma apply_state_event:
  assumes "record_state_of_kind k = Some s" "k \<noteq> ''record.created''"
  shows "apply_event k rid j d =
    (case map_of (dv_records d) rid of None \<Rightarrow> Some d | Some w \<Rightarrow>
      Some (d\<lparr>dv_records := AList.update rid (AList.update ''state'' (JStr s) w) (dv_records d)\<rparr>))"
proof -
  have "k \<noteq> ''record.imported''" using assms(1) by (auto simp: record_state_of_kind_def)
  then show ?thesis using assms by (simp add: apply_event_def split: option.split)
qed

lemma record_state_of_kind_iff:
  "record_state_of_kind k \<noteq> None \<longleftrightarrow>
   k \<in> {''record.created'', ''record.sealed'', ''record.failed'', ''record.invalidated''}"
  by (auto simp: record_state_of_kind_def)

lemma keys_update_in: "k \<in> set (map fst w) \<Longrightarrow> map fst (AList.update k v w) = map fst w"
  by (induction w) auto

lemma jget_update: "jget (AList.update k v w) i = (if i = k then v else jget w i)"
  by (simp add: jget_def)

text \<open>The derived state of a record is the one its last state event sets.\<close>

lemma derived_state_last:
  assumes "snd (replay_chain es) = []" "map_of (dv_records (fst (replay_chain es))) rid = Some w"
  shows "\<exists>e. filter (sets_state rid) es \<noteq> [] \<and> e = last (filter (sets_state rid) es) \<and>
    jget w ''state'' = state_set e \<and>
    map fst w = record_fields"
  using assms
proof (induction es arbitrary: w rule: rev_induct)
  case Nil
  then show ?case by (simp add: replay_chain_def derived_empty_def)
next
  case (snoc e es)
  obtain d ps where r: "replay_chain es = (d, ps)" by (cases "replay_chain es")
  have r2: "replay_chain (es @ [e]) = replay_event e (d, ps)" using r by (simp add: replay_chain_def)
  from snoc.prems(1) obtain b d' where b: "json_loads (ev_body e) = Some b"
    "apply_event (ev_kind e) (ev_subject e) b d = Some d'" and ps: "ps = []"
    unfolding r2 by (auto simp: replay_event_def split: option.splits)
  have w: "map_of (dv_records d') rid = Some w"
    using snoc.prems(2) b ps unfolding r2 by (simp add: replay_event_def)
  note IH = snoc.IH [unfolded r fst_conv snd_conv, OF ps]
  consider (new) "ev_kind e = ''record.created'' \<or> ev_kind e = ''record.imported''"
    | (state) "ev_kind e \<noteq> ''record.created''" "ev_kind e \<noteq> ''record.imported''" "record_state_of_kind (ev_kind e) \<noteq> None"
    | (other) "ev_kind e \<noteq> ''record.created''" "ev_kind e \<noteq> ''record.imported''" "record_state_of_kind (ev_kind e) = None"
    by blast
  then show ?case
  proof cases
    case new
    then obtain kvs where kvs: "b = JObj kvs" using b(2) by (cases b) (auto simp: apply_event_def)
    obtain w' where w': "dv_records d' = AList.update (ev_subject e) w' (dv_records d)"
      "map fst w' = record_fields"
      "jget w' ''state'' = (case map_of kvs ''state'' of None \<Rightarrow> JStr ''pending'' | Some s \<Rightarrow> s)"
      using fields_of_derived [OF b(2) [unfolded kvs] new] by (elim exE conjE) (rule that)
    show ?thesis
    proof (cases "ev_subject e = rid")
      case True
      then have "w = w'" "sets_state rid e" using w w'(1) new by (auto simp: sets_state_def)
      then show ?thesis using w' new b(1) kvs by (auto simp: state_set_def)
    next
      case False
      then show ?thesis using w w'(1) IH by (simp add: sets_state_def)
    qed
  next
    case state
    then have d': "d' = (case map_of (dv_records d) (ev_subject e) of None \<Rightarrow> d
        | Some v \<Rightarrow> d\<lparr>dv_records := AList.update (ev_subject e)
            (AList.update ''state'' (JStr (the (record_state_of_kind (ev_kind e)))) v) (dv_records d)\<rparr>)"
      using b(2) state by (auto simp: apply_state_event split: option.splits)
    show ?thesis
    proof (cases "ev_subject e = rid")
      case True
      then obtain v where v: "map_of (dv_records d) rid = Some v"
        "w = AList.update ''state'' (JStr (the (record_state_of_kind (ev_kind e)))) v"
        using w d' by (auto split: option.splits)
      have "sets_state rid e" using True state record_state_of_kind_iff [of "ev_kind e"] by (auto simp: sets_state_def)
      moreover have "map fst v = record_fields"
        using IH [OF v(1)] by blast
      moreover have "map fst w = map fst v"
        unfolding v(2) by (rule keys_update_in) (simp add: calculation(2) record_fields_def)
      ultimately show ?thesis using v(2) state by (simp add: state_set_def jget_update)
    next
      case False
      then show ?thesis using w d' IH by (auto simp: sets_state_def split: option.splits)
    qed
  next
    case other
    then have "dv_records d' = dv_records d" using b(2) by (intro other_kinds_keep_records)
    moreover have "\<not> sets_state rid e" using other record_state_of_kind_iff [of "ev_kind e"] by (auto simp: sets_state_def)
    ultimately show ?thesis using w IH by simp
  qed
qed

lemma ledger_verifies_parts:
  "ledger_verifies anchor db \<Longrightarrow> chain_verifies anchor db \<and> ledger_problems db = []"
  by (auto simp: ledger_verifies_def verify_ledger_def chain_verifies_def split: sum.splits)

lemma no_problemsD:
  assumes "ledger_problems db = []"
  defines "d \<equiv> fst (replay_chain (sort_key ev_seq (db_events db)))"
  shows "snd (replay_chain (sort_key ev_seq (db_events db))) = []"
    "i \<in> set (map r_record_id (db_records db)) \<union> fst ` set (dv_records d) \<Longrightarrow>
     check_record i (map_of (by_key r_record_id (db_records db)) i) (map_of (dv_records d) i) = []"
    "check_delivery_events i (tuples_of i (db_delivery_events db)) (events_for d i) = []"
proof -
  have k: "fst ` set (by_key key rs) = key ` set rs" for key :: "'r \<Rightarrow> string" and rs
  proof -
    have "fst ` set (dict_of kvs) = fst ` set kvs" for kvs :: "(string \<times> 'r) list"
    proof (induction kvs rule: rev_induct)
      case (snoc x xs)
      then show ?case by (cases x) (simp add: dict_of_snoc dom_update)
    qed (simp add: dict_of_def)
    then show ?thesis by (simp add: by_key_def image_image)
  qed
  obtain d' ps where r: "replay_chain (sort_key ev_seq (db_events db)) = (d', ps)" by (meson surj_pair)
  have d: "d' = d" using r by (simp add: d_def)
  note p = assms(1) [unfolded ledger_problems_def r d Let_def, simplified]
  show "snd (replay_chain (sort_key ev_seq (db_events db))) = []" using p r by simp
  show "i \<in> set (map r_record_id (db_records db)) \<union> fst ` set (dv_records d) \<Longrightarrow>
     check_record i (map_of (by_key r_record_id (db_records db)) i) (map_of (dv_records d) i) = []"
    using p by (simp add: dict_keys_def k)
  show "check_delivery_events i (tuples_of i (db_delivery_events db)) (events_for d i) = []"
  proof (cases "i \<in> e_dispatch_id ` set (db_delivery_events db) \<union> fst ` set (dv_delivery_events d)")
    case True
    then show ?thesis using p by (simp add: dict_keys_def events_for_def)
  next
    case False
    then have "events_for d i = []" "tuples_of i (db_delivery_events db) = []"
      by (auto simp: events_for_def tuples_of_def filter_empty_conv map_of_eq_None_iff split: option.splits)
        (metis Un_iff image_eqI map_of_SomeD fst_conv)+
    then show ?thesis by (simp add: check_delivery_events_def)
  qed
qed

lemma verified_record_parts:
  assumes "ledger_verifies anchor db" "distinct (map r_record_id (db_records db))" "r \<in> set (db_records db)"
  shows "filter (sets_state (r_record_id r)) (sort_key ev_seq (db_events db)) \<noteq> []"
    and "state_set (last (filter (sets_state (r_record_id r)) (sort_key ev_seq (db_events db)))) = JStr (r_state r)"
    and "\<exists>w. map_of (dv_records (fst (replay_chain (sort_key ev_seq (db_events db))))) (r_record_id r) = Some w \<and>
      jget w ''run_id'' = JStr (r_run_id r) \<and> jget w ''artifact_hash'' = JStr (r_artifact_hash r) \<and>
      jget w ''source_hash'' = opt_str (r_source_hash r)"
    and "column_manifest_hash (r_artifact_manifest r) = Some (r_artifact_hash r)"
proof -
  let ?es = "sort_key ev_seq (db_events db)" and ?i = "r_record_id r"
  have np: "ledger_problems db = []" using assms(1) ledger_verifies_parts by blast
  have row: "map_of (by_key r_record_id (db_records db)) ?i = Some r"
    using assms(2,3) by (simp add: by_key_distinct) (intro map_of_is_SomeI, auto simp: comp_def)
  have c: "check_record ?i (Some r) (map_of (dv_records (fst (replay_chain ?es))) ?i) = []"
    using no_problemsD(2) [OF np, of ?i] assms(3) row by simp
  then obtain w where w: "map_of (dv_records (fst (replay_chain ?es))) ?i = Some w"
    by (auto simp: check_record_def split: option.splits)
  from c obtain config conditions where c2:
    "column_manifest_hash (r_artifact_manifest r) = Some (r_artifact_hash r)"
    "\<forall>k \<in> set (map fst w). \<not> differs (actual_record r config conditions) w k"
    unfolding w by (auto simp: check_record_def filter_empty_conv split: option.splits if_splits)
  from derived_state_last [OF no_problemsD(1) [OF np] w]
  have e: "filter (sets_state ?i) ?es \<noteq> []" "jget w ''state'' = state_set (last (filter (sets_state ?i) ?es))"
    "map fst w = record_fields"
    by blast+
  from c2(2) have j: "jget w ''run_id'' = JStr (r_run_id r)" "jget w ''artifact_hash'' = JStr (r_artifact_hash r)"
    "jget w ''source_hash'' = opt_str (r_source_hash r)" "jget w ''state'' = JStr (r_state r)"
    by (simp_all add: e(3) record_fields_def differs_def actual_record_def jget_simps)
  show "filter (sets_state ?i) ?es \<noteq> []" "state_set (last (filter (sets_state ?i) ?es)) = JStr (r_state r)"
    "column_manifest_hash (r_artifact_manifest r) = Some (r_artifact_hash r)"
    using e j c2 by simp_all
  show "\<exists>w. map_of (dv_records (fst (replay_chain ?es))) ?i = Some w \<and>
      jget w ''run_id'' = JStr (r_run_id r) \<and> jget w ''artifact_hash'' = JStr (r_artifact_hash r) \<and>
      jget w ''source_hash'' = opt_str (r_source_hash r)"
    using w j by blast
qed

text \<open>
  C27.  In a ledger that verifies, each record is in the state its last state event in the
  hash chain set (so a record flipped by hand, from invalidated back to sealed say, is
  caught), its run id and artifact hash are those the chain recorded, and its manifest
  hashes to that artifact hash.
\<close>

theorem verified_record_matches_chain:
  assumes "ledger_verifies anchor db" "distinct (map r_record_id (db_records db))" "r \<in> set (db_records db)"
  defines "sets \<equiv> filter (sets_state (r_record_id r)) (sort_key ev_seq (db_events db))"
  shows "sets \<noteq> [] \<and> state_set (last sets) = JStr (r_state r) \<and>
    (\<exists>w. map_of (dv_records (fst (replay_chain (sort_key ev_seq (db_events db))))) (r_record_id r) = Some w \<and>
      jget w ''run_id'' = JStr (r_run_id r) \<and> jget w ''artifact_hash'' = JStr (r_artifact_hash r) \<and>
      jget w ''source_hash'' = opt_str (r_source_hash r)) \<and>
    column_manifest_hash (r_artifact_manifest r) = Some (r_artifact_hash r)"
  unfolding sets_def using verified_record_parts [OF assms(1-3)] by blast

end
