(* ===== verification/LedgerInv.thy ===== *)
theory LedgerInv
  imports VerifyLedger
begin

text \<open>
  The ledger's transactions keep its tables what its chain says (\<open>ledger_inv\<close>): one
  lemma per kind of transaction, over what it inserts or updates and the event it
  appends with it.
\<close>

section \<open>One more event\<close>

lemma replay_chain_snoc: "replay_chain (rs @ [r]) = replay_event r (replay_chain rs)"
  by (simp add: replay_chain_def)

lemma replay_append:
  assumes "snd (replay_chain rs) = []" "json_loads (ev_body r) = Some b"
    and "apply_event (ev_kind r) (ev_subject r) b (fst (replay_chain rs)) = Some d"
  shows "replay_chain (rs @ [r]) = (d, [])"
  using assms by (cases "replay_chain rs") (simp add: replay_chain_snoc replay_event_def)

text \<open>The step every transaction makes: given what the new event does to the derived
  state, and that the tables follow it, the ledger is consistent again.\<close>

lemma ledger_inv_append:
  assumes inv: "ledger_inv db" and ev: "append_event k u body t db1 = (Inr ev, db2)"
    and same: "db_events db1 = db_events db"
    and rep: "json_rep (JObj kvs)" "body = JObj kvs"
    and step: "\<And>b. map_of b = map_option jsort \<circ> map_of kvs \<Longrightarrow> (\<And>x. jget b x = jsort (jget kvs x)) \<Longrightarrow>
      json_ok body \<Longrightarrow>
      \<exists>d. apply_event k u (JObj b) (fst (replay_chain (db_events db))) = Some d \<and> tables_match db1 d \<and>
        keys_ok db1 \<and> (\<forall>r \<in> set (db_records db1). row_ok r)"
  shows "ledger_inv db2"
proof -
  have c: "chain_ok GENESIS 1 (db_events db1)" using inv same by (simp add: ledger_inv_def)
  note a = append_event_chain [OF c ev]
  from a(6) rep obtain b where b: "json_loads (ev_body ev) = Some (JObj b)"
    "map_of b = map_option jsort \<circ> map_of kvs" "\<And>x. jget b x = jsort (jget kvs x)"
    using loads_body by metis
  have "json_ok body" using canonical_json_rep_ok [OF _ a(6)] rep by blast
  with step [OF b(2,3)] obtain d where
    d: "apply_event k u (JObj b) (fst (replay_chain (db_events db))) = Some d" "tables_match db1 d"
      "keys_ok db1" "\<forall>r \<in> set (db_records db1). row_ok r" by blast
  have "replay_chain (db_events db @ [ev]) = (d, [])"
    using inv b(1) d(1) a(3,4) by (intro replay_append) (simp_all add: ledger_inv_def)
  moreover have "tables_match db2 d" "keys_ok db2" "\<forall>r \<in> set (db_records db2). row_ok r"
    using d(2-4) append_event_frame [OF ev] by (simp_all add: tables_match_def keys_ok_def)
  ultimately show ?thesis using a(1,2) same by (simp add: ledger_inv_def)
qed

lemma map_of_snoc: "k \<notin> fst ` set xs \<Longrightarrow> map_of (xs @ [(k, v)]) = (map_of xs)(k \<mapsto> v)"
  by (rule ext) (auto simp: map_add_def dom_map_of_conv_image_fst split: option.splits dest: map_of_SomeD intro: rev_image_eqI)

section \<open>Records\<close>

lemma loads_column_iff: "loads_column t = Inr j \<longleftrightarrow> json_column_ok t = Some j"
  by (auto simp: loads_column_def json_column_ok_def split: option.splits)

lemma json_rep_ok: "json_ok j \<Longrightarrow> json_rep j"
  by (induction j rule: json_ok.induct) (auto simp: list_all_iff split: pyfloat.splits)

lemma json_rep_opt [simp]: "json_rep (opt_str x)" "json_rep (opt_int y)"
  by (cases x; simp) (cases y; simp)

lemma json_rep_parser_obj [simp]: "json_rep (parser_obj r)"
  by (simp add: parser_obj_def split: option.splits)

text \<open>What the event of a new or an imported record says of its row.\<close>

lemma apply_record_event:
  assumes body: "record_body r ws = Inr (JObj kvs)" and col: "column_ok (r_parser_config r)" "column_ok (r_run_conditions r)"
    and k: "k = ''record.created'' \<or> k = ''record.imported''" and ws: "ws \<or> r_state r = ''pending''"
    and b: "map_of b = map_option jsort \<circ> map_of kvs" "\<And>x. jget b x = jsort (jget kvs x)"
  shows "apply_event k u (JObj b) d = Some (d\<lparr>dv_records := AList.update u (want_of_row r) (dv_records d)\<rparr>)"
proof -
  obtain config conditions where c: "loads_column (r_parser_config r) = Inr config"
    "loads_column (r_run_conditions r) = Inr conditions"
    "column_value (r_parser_config r) = config" "column_value (r_run_conditions r) = conditions"
    using column_okD [OF col(1)] column_okD [OF col(2)] by (simp add: loads_column_iff)
  from body c(1,2) have kvs: "kvs = [(''run_id'', JStr (r_run_id r)),
      (''artifact_hash'', JStr (r_artifact_hash r)), (''source_hash'', opt_str (r_source_hash r)),
      (''source_kind'', opt_str (r_source_kind r)), (''source_id'', opt_str (r_source_id r)),
      (''parser'', parser_obj r), (''parser_config'', config), (''backend'', opt_str (r_backend r)),
      (''run_conditions'', conditions)]
      @ (if ws then [(''state'', JStr (r_state r)), (''error'', opt_str (r_error r))] else [])"
    by (simp add: record_body_def)
  have w: "[(''run_id'', JStr (r_run_id r)), (''artifact_hash'', JStr (r_artifact_hash r)),
      (''source_hash'', jget b ''source_hash''), (''parser'', jget b ''parser''),
      (''parser_config'', jget b ''parser_config''), (''run_conditions'', jget b ''run_conditions''),
      (''state'', case map_of b ''state'' of None \<Rightarrow> JStr ''pending'' | Some s \<Rightarrow> s)] = want_of_row r"
    using ws by (auto simp: b kvs c(3,4) want_of_row_def jget_simps)
  have "map_of b ''run_id'' = Some (JStr (r_run_id r))" "map_of b ''artifact_hash'' = Some (JStr (r_artifact_hash r))"
    by (simp_all add: b(1) kvs)
  then show ?thesis using k w by (auto simp: apply_event_def)
qed

lemma json_rep_record_body:
  assumes "record_body r ws = Inr (JObj kvs)" "column_ok (r_parser_config r)" "column_ok (r_run_conditions r)"
  shows "json_rep (JObj kvs)"
proof -
  obtain c1 c2 where c: "loads_column (r_parser_config r) = Inr c1" "json_rep c1"
    "loads_column (r_run_conditions r) = Inr c2" "json_rep c2"
    using column_okD [OF assms(2)] column_okD [OF assms(3)] json_rep_ok by (simp add: loads_column_iff)
  then show ?thesis using assms(1) by (auto simp: record_body_def)
qed

lemma ledger_inv_insert_record:
  assumes inv: "ledger_inv db" and ins: "insert_record r db = (Inr x, db1)"
    and body: "record_body r False = Inr body"
    and ev: "append_event ''record.created'' (r_record_id r) body now db1 = (Inr ev, db2)"
    and r: "column_ok (r_parser_config r)" "column_ok (r_run_conditions r)"
      "column_manifest_hash (r_artifact_manifest r) = Some (r_artifact_hash r)" "r_state r = ''pending''"
  shows "ledger_inv db2"
proof -
  obtain kvs where kvs: "body = JObj kvs" using body by (auto simp: record_body_def split: sum.splits)
  have db1: "db1 = db\<lparr>db_records := db_records db @ [r]\<rparr>"
    and fresh: "r_record_id r \<notin> set (map r_record_id (db_records db))"
      "r_run_id r \<notin> set (map r_run_id (db_records db))"
    using ins by (auto simp: insert_record_def split: if_splits)
  show ?thesis
  proof (rule ledger_inv_append [OF inv ev])
    show "db_events db1 = db_events db" "body = JObj kvs" by (simp_all add: db1 kvs)
    show "json_rep (JObj kvs)" using body r(1,2) unfolding kvs by (rule json_rep_record_body)
    fix b assume b: "map_of b = map_option jsort \<circ> map_of kvs" "\<And>x. jget b x = jsort (jget kvs x)"
      and ok: "json_ok body"
    let ?d = "fst (replay_chain (db_events db))"
    have "json_ok (parser_obj r)" using ok body by (auto simp: record_body_def split: sum.splits)
    then have "\<forall>r \<in> set (db_records db1). row_ok r" using inv r by (auto simp: db1 ledger_inv_def row_ok_def)
    moreover have "keys_ok db1" using inv fresh by (auto simp: db1 ledger_inv_def keys_ok_def)
    moreover have "tables_match db1 (?d\<lparr>dv_records := AList.update (r_record_id r) (want_of_row r) (dv_records ?d)\<rparr>)"
      using inv fresh map_of_snoc [of "r_record_id r" "map (\<lambda>r. (r_record_id r, want_of_row r)) (db_records db)" "want_of_row r"]
      by (simp add: db1 ledger_inv_def tables_match_def events_for_def image_image)
    moreover note apply_record_event [OF body [unfolded kvs] r(1,2) _ _ b, of "''record.created''" "r_record_id r" ?d]
    ultimately show "\<exists>d. apply_event ''record.created'' (r_record_id r) (JObj b) ?d = Some d \<and>
        tables_match db1 d \<and> keys_ok db1 \<and> (\<forall>r \<in> set (db_records db1). row_ok r)"
      using r(4) by simp
  qed
qed

text \<open>An update that changes only the state and columns the chain does not carry.\<close>

definition only_state :: "string \<Rightarrow> (record_row \<Rightarrow> record_row) \<Rightarrow> bool" where
  "only_state s upd \<longleftrightarrow>
     (\<forall>r. r_record_id (upd r) = r_record_id r \<and> r_run_id (upd r) = r_run_id r \<and>
          want_of_row (upd r) = AList.update ''state'' (JStr s) (want_of_row r) \<and>
          row_ok (upd r) = row_ok r)"

lemma parser_obj_cong:
  "r_parser_name r = r_parser_name q \<Longrightarrow> r_parser_version r = r_parser_version q \<Longrightarrow>
   r_parser_image_digest r = r_parser_image_digest q \<Longrightarrow> r_parser_module_sha256 r = r_parser_module_sha256 q \<Longrightarrow>
   parser_obj r = parser_obj q"
  by (simp add: parser_obj_def split: option.split)

lemma only_state_set:
  "only_state ''sealed'' (set_sealed now)"
  "only_state ''failed'' (set_failed now err)"
  "only_state ''invalidated'' (set_invalidated now err)"
proof -
  have p: "parser_obj (set_sealed now r) = parser_obj r" "parser_obj (set_failed now err r) = parser_obj r"
    "parser_obj (set_invalidated now err r) = parser_obj r" for r
    by (rule parser_obj_cong; simp add: set_sealed_def set_failed_def set_invalidated_def)+
  show "only_state ''sealed'' (set_sealed now)" "only_state ''failed'' (set_failed now err)"
    "only_state ''invalidated'' (set_invalidated now err)"
    unfolding only_state_def
    by (simp_all add: want_of_row_def row_ok_def p) (simp_all add: set_sealed_def set_failed_def set_invalidated_def)
qed

lemma map_of_map_update:
  assumes "distinct (map key rs)" "r \<in> set rs" "P r" "\<forall>r. key (upd r) = key r"
  shows "map_of (map (\<lambda>r. (key r, f r)) (map (\<lambda>q. if key q = key r \<and> P q then upd q else q) rs)) =
    (map_of (map (\<lambda>r. (key r, f r)) rs))(key r \<mapsto> f (upd r))"
  using assms
proof (induction rs)
  case (Cons q rs)
  show ?case
  proof (cases "q = r")
    case True
    with Cons.prems(1) have "\<forall>x \<in> set rs. key x \<noteq> key r" by (auto simp: rev_image_eqI)
    then have "map (\<lambda>q. if key q = key r \<and> P q then upd q else q) rs = rs" by (intro map_idI) auto
    with True Cons.prems show ?thesis by (auto simp: fun_eq_iff)
  next
    case False
    with Cons.prems have "key q \<noteq> key r" "r \<in> set rs" by auto
    with Cons False show ?thesis by (auto simp: fun_eq_iff)
  qed
qed simp

lemma ledger_inv_update:
  assumes inv: "ledger_inv db"
    and row: "r \<in> set (db_records db)" "r_record_id r = rid" "r_state r \<in> set (map state_value from)"
    and ev: "append_event k rid (JObj kvs) now (update_where rid from upd db) = (Inr ev, db2)"
    and k: "record_state_of_kind k = Some s" "k \<noteq> ''record.created''" and upd: "only_state s upd" and rep: "json_rep (JObj kvs)"
  shows "ledger_inv db2"
proof (rule ledger_inv_append [OF inv ev])
  let ?db1 = "update_where rid from upd db" and ?d = "fst (replay_chain (db_events db))"
  let ?w = "\<lambda>rs. map_of (map (\<lambda>r. (r_record_id r, want_of_row r)) rs)"
  show "db_events ?db1 = db_events db" by (simp add: update_where_def)
  show "json_rep (JObj kvs)" "JObj kvs = JObj kvs" using rep by simp_all
  fix b
  have u: "r_record_id (upd q) = r_record_id q" "r_run_id (upd q) = r_run_id q"
    "want_of_row (upd q) = AList.update ''state'' (JStr s) (want_of_row q)" "row_ok (upd q) = row_ok q" for q
    using upd by (simp_all add: only_state_def)
  have d: "distinct (map r_record_id (db_records db))" and m: "map_of (dv_records ?d) = ?w (db_records db)"
    using inv by (simp_all add: ledger_inv_def keys_ok_def tables_match_def)
  have "?w (db_records db) rid = Some (want_of_row r)"
    using d row(1,2) by (intro map_of_is_SomeI) (auto simp: comp_def)
  then have "map_of (dv_records ?d) rid = Some (want_of_row r)" by (simp add: m)
  moreover have "apply_event k rid (JObj b) ?d =
      (case map_of (dv_records ?d) rid of None \<Rightarrow> Some ?d | Some w \<Rightarrow>
        Some (?d\<lparr>dv_records := AList.update rid (AList.update ''state'' (JStr s) w) (dv_records ?d)\<rparr>))"
    using k by (rule apply_state_event)
  moreover have "?w (db_records ?db1) = (?w (db_records db))(rid \<mapsto> want_of_row (upd r))"
    using map_of_map_update [OF d row(1), of "\<lambda>q. r_state q \<in> set (map state_value from)" upd want_of_row] row(2,3) u(1)
    by (simp add: update_where_def)
  ultimately have "apply_event k rid (JObj b) ?d =
      Some (?d\<lparr>dv_records := AList.update rid (want_of_row (upd r)) (dv_records ?d)\<rparr>)"
    "tables_match ?db1 (?d\<lparr>dv_records := AList.update rid (want_of_row (upd r)) (dv_records ?d)\<rparr>)"
    using inv m u(3) by (simp_all add: ledger_inv_def tables_match_def events_for_def update_where_def)
  moreover have "map r_record_id (db_records ?db1) = map r_record_id (db_records db)"
    "map r_run_id (db_records ?db1) = map r_run_id (db_records db)"
    using u(1,2) by (simp_all add: update_where_def)
  then have "keys_ok ?db1" using inv unfolding ledger_inv_def keys_ok_def
    by (simp add: update_where_def del: map_map)
  moreover have "\<forall>r \<in> set (db_records ?db1). row_ok r"
    using inv u(4) by (auto simp: ledger_inv_def update_where_def)
  ultimately show "\<exists>d. apply_event k rid (JObj b) ?d = Some d \<and> tables_match ?db1 d \<and> keys_ok ?db1 \<and>
      (\<forall>r \<in> set (db_records ?db1). row_ok r)"
    by blast
qed

section \<open>Deliveries and replays\<close>

lemma ledger_inv_insert_delivery:
  assumes inv: "ledger_inv db" and ins: "insert_delivery d db = (Inr True, db1)"
    and ev: "append_event ''delivery.opened'' (d_dispatch_id d)
      (delivery_body (d_record_id d) (d_target_kind d) (d_target d)) now db1 = (Inr ev, db2)"
  shows "ledger_inv db2"
proof (rule ledger_inv_append [OF inv ev])
  let ?d = "fst (replay_chain (db_events db))"
  have db1: "db1 = db\<lparr>db_deliveries := db_deliveries db @ [d]\<rparr>"
    and fresh: "d_dispatch_id d \<notin> set (map d_dispatch_id (db_deliveries db))"
    using ins by (auto simp: insert_delivery_def split: if_splits)
  show "db_events db1 = db_events db" by (simp add: db1)
  show "delivery_body (d_record_id d) (d_target_kind d) (d_target d) = JObj (row_delivery d)"
    by (simp add: delivery_body_def row_delivery_def)
  show "json_rep (JObj (row_delivery d))" by (simp add: row_delivery_def)
  fix b assume b: "map_of b = map_option jsort \<circ> map_of (row_delivery d)"
    "\<And>x. jget b x = jsort (jget (row_delivery d) x)"
  have "fields_of_body delivery_fields b = Some (row_delivery d)"
    by (simp add: fields_of_body_def delivery_fields_def b) (simp add: row_delivery_def jget_simps)
  then have "apply_event ''delivery.opened'' (d_dispatch_id d) (JObj b) ?d =
      Some (?d\<lparr>dv_deliveries := AList.update (d_dispatch_id d) (row_delivery d) (dv_deliveries ?d)\<rparr>)"
    by (simp add: apply_event_def record_state_of_kind_def)
  moreover have "tables_match db1 (?d\<lparr>dv_deliveries := AList.update (d_dispatch_id d) (row_delivery d) (dv_deliveries ?d)\<rparr>)"
    using inv fresh map_of_snoc [of "d_dispatch_id d" "map (\<lambda>x. (d_dispatch_id x, row_delivery x)) (db_deliveries db)" "row_delivery d"]
    by (simp add: db1 ledger_inv_def tables_match_def events_for_def image_image)
  moreover have "keys_ok db1" "\<forall>r \<in> set (db_records db1). row_ok r"
    using inv fresh by (simp_all add: db1 ledger_inv_def keys_ok_def)
  ultimately show "\<exists>d'. apply_event ''delivery.opened'' (d_dispatch_id d) (JObj b) ?d = Some d' \<and>
      tables_match db1 d' \<and> keys_ok db1 \<and> (\<forall>r \<in> set (db_records db1). row_ok r)" by blast
qed

lemma next_event_id_greater: "e \<in> set es \<Longrightarrow> e_event_id e < next_event_id es"
proof -
  assume "e \<in> set es"
  then have "e_event_id e \<in> set (0 # map e_event_id es)" by simp
  then have "e_event_id e \<le> Max (set (0 # map e_event_id es))" by (intro Max_ge) simp_all
  then show ?thesis unfolding Max.set_eq_fold next_event_id_def by simp
qed

lemma tuples_of_snoc:
  assumes "sorted (map e_event_id es)" "\<forall>x \<in> set es. e_event_id x \<le> e_event_id e"
  shows "tuples_of i (es @ [e]) = tuples_of i es @ (if e_dispatch_id e = i then [row_tuple e] else [])"
proof -
  have "sort_key e_event_id es = es" "sort_key e_event_id (es @ [e]) = es @ [e]"
    using assms by (auto intro!: sort_key_id_if_sorted simp: sorted_append)
  then show ?thesis by (simp add: tuples_of_def)
qed

lemma next_event_id_mono:
  "\<forall>x \<in> set es. e_event_id x \<le> e_event_id (e\<lparr>e_event_id := next_event_id es\<rparr>)"
  using next_event_id_greater less_imp_le by fastforce

lemma ledger_inv_insert_event:
  assumes inv: "ledger_inv db" and ins: "insert_delivery_event e db = (Inr x, db1)"
    and ev: "append_event ''delivery.event'' (e_dispatch_id e) (delivery_event_body e) now db1 = (Inr ev, db2)"
  shows "ledger_inv db2"
proof -
  let ?d = "fst (replay_chain (db_events db))"
  let ?e = "e\<lparr>e_event_id := next_event_id (db_delivery_events db)\<rparr>"
  obtain kvs where kvs: "delivery_event_body e = JObj kvs" by (simp add: delivery_event_body_def)
  have db1: "db1 = db\<lparr>db_delivery_events := db_delivery_events db @ [?e]\<rparr>"
    using ins by (auto simp: insert_delivery_event_def split: if_splits)
  show ?thesis
  proof (rule ledger_inv_append [OF inv ev _ _ kvs])
    show "db_events db1 = db_events db" by (simp add: db1)
    show "json_rep (JObj kvs)" using kvs by (auto simp: delivery_event_body_def)
    fix b assume b: "map_of b = map_option jsort \<circ> map_of kvs" "\<And>x. jget b x = jsort (jget kvs x)"
    have t: "body_tuple b = Some (row_tuple ?e)"
      using kvs by (auto simp: body_tuple_def b delivery_event_body_def row_tuple_def jget_simps)
    let ?d' = "?d\<lparr>dv_delivery_events := AList.update (e_dispatch_id e) (events_for ?d (e_dispatch_id e) @ [row_tuple ?e])
        (dv_delivery_events ?d)\<rparr>"
    have "apply_event ''delivery.event'' (e_dispatch_id e) (JObj b) ?d = Some ?d'"
      using t by (simp add: apply_event_def record_state_of_kind_def events_for_def)
    moreover have srt: "sorted (map e_event_id (db_delivery_events db))"
      and "\<forall>i. events_for ?d i = tuples_of i (db_delivery_events db)"
      using inv by (simp_all add: ledger_inv_def keys_ok_def tables_match_def)
    then have "events_for ?d' i = tuples_of i (db_delivery_events db1)" for i
      using tuples_of_snoc [OF srt next_event_id_mono, of i e] by (simp add: db1 events_for_def)
    then have "tables_match db1 ?d'" using inv by (simp add: db1 ledger_inv_def tables_match_def)
    moreover have "keys_ok db1" "\<forall>r \<in> set (db_records db1). row_ok r"
      using inv next_event_id_mono [of "db_delivery_events db" e]
      by (simp_all add: db1 ledger_inv_def keys_ok_def sorted_append)
    ultimately show "\<exists>d'. apply_event ''delivery.event'' (e_dispatch_id e) (JObj b) ?d = Some d' \<and>
        tables_match db1 d' \<and> keys_ok db1 \<and> (\<forall>r \<in> set (db_records db1). row_ok r)" by blast
  qed
qed

text \<open>The body of \<open>replay.logged\<close> (\<open>ReplayLog.append\<close> of \<open>stele/replay/engine.py\<close>).\<close>

definition replay_body :: "replay_row \<Rightarrow> json \<Rightarrow> json" where
  "replay_body p policy =
     JObj [(''record_id'', JStr (p_record_id p)), (''outcome'', JStr (p_outcome p)),
           (''reason'', JStr (p_reason p)), (''replay_artifact_hash'', opt_str (p_replay_artifact_hash p)),
           (''policy'', policy), (''platform'', JStr (p_platform p))]"

lemma ledger_inv_insert_replay:
  assumes inv: "ledger_inv db" and ins: "insert_replay p db = (Inr x, db1)"
    and ev: "append_event ''replay.logged'' (p_replay_id p) (replay_body p policy) now db1 = (Inr ev, db2)"
    and pol: "json_rep policy"
  shows "ledger_inv db2"
proof -
  let ?d = "fst (replay_chain (db_events db))"
  obtain kvs where kvs: "replay_body p policy = JObj kvs" by (simp add: replay_body_def)
  have db1: "db1 = db\<lparr>db_replays := db_replays db @ [p]\<rparr>"
    and fresh: "p_replay_id p \<notin> set (map p_replay_id (db_replays db))"
    using ins by (auto simp: insert_replay_def split: if_splits)
  show ?thesis
  proof (rule ledger_inv_append [OF inv ev _ _ kvs])
    show "db_events db1 = db_events db" by (simp add: db1)
    show "json_rep (JObj kvs)" using kvs pol by (auto simp: replay_body_def)
    fix b assume b: "map_of b = map_option jsort \<circ> map_of kvs" "\<And>x. jget b x = jsort (jget kvs x)"
    have "map (\<lambda>k. (k, jget b k)) replay_fields = row_replay p"
      using kvs by (auto simp: replay_fields_def b replay_body_def row_replay_def jget_simps)
    then have "apply_event ''replay.logged'' (p_replay_id p) (JObj b) ?d =
        Some (?d\<lparr>dv_replays := AList.update (p_replay_id p) (row_replay p) (dv_replays ?d)\<rparr>)"
      by (simp add: apply_event_def record_state_of_kind_def)
    moreover have "tables_match db1 (?d\<lparr>dv_replays := AList.update (p_replay_id p) (row_replay p) (dv_replays ?d)\<rparr>)"
      using inv fresh map_of_snoc [of "p_replay_id p" "map (\<lambda>x. (p_replay_id x, row_replay x)) (db_replays db)" "row_replay p"]
      by (simp add: db1 ledger_inv_def tables_match_def events_for_def image_image)
    moreover have "keys_ok db1" "\<forall>r \<in> set (db_records db1). row_ok r"
      using inv fresh by (simp_all add: db1 ledger_inv_def keys_ok_def)
    ultimately show "\<exists>d'. apply_event ''replay.logged'' (p_replay_id p) (JObj b) ?d = Some d' \<and>
        tables_match db1 d' \<and> keys_ok db1 \<and> (\<forall>r \<in> set (db_records db1). row_ok r)" by blast
  qed
qed

end
