(* ===== verification/Delivery.thy ===== *)
theory Delivery
  imports Adapter LedgerInv
begin

text \<open>
  The durable delivery log (\<open>stele/ledger/delivery.py\<close>): one record sent to one target,
  with an append-only history of events.  The main results: a delivery is bound to one
  payload for good, and what the log says a target may hold is true of the target, as
  long as no write concludes between a removal and its receipt; without that proviso it
  is not, and a history that shows it is given.
\<close>

section \<open>A delivery and its history\<close>

datatype delivery_status =
  NOT_ATTEMPTED | IN_FLIGHT | DELIVERED | DELIVERY_FAILED | REMOVING | REMOVED | REMOVAL_FAILED

fun status_value :: "delivery_status \<Rightarrow> string" where
  "status_value NOT_ATTEMPTED = ''not_attempted''"
| "status_value IN_FLIGHT = ''in_flight''"
| "status_value DELIVERED = ''delivered''"
| "status_value DELIVERY_FAILED = ''failed''"
| "status_value REMOVING = ''removing''"
| "status_value REMOVED = ''removed''"
| "status_value REMOVAL_FAILED = ''removal_failed''"

text \<open>The events are rows of \<open>delivery_events\<close>, in order.\<close>

record delivery =
  dl_dispatch_id :: string
  dl_record_id :: string
  dl_target_kind :: string
  dl_target :: json
  dl_created_at :: string
  dl_events :: "delivery_event_row list"

text \<open>The table's \<open>CHECK\<close> admits the six names only; the last one stands for the rest.\<close>

definition status_of_event :: "string \<Rightarrow> delivery_status" where
  "status_of_event ev =
     (if ev = ''intent'' then IN_FLIGHT
      else if ev = ''receipt'' then DELIVERED
      else if ev = ''failure'' then DELIVERY_FAILED
      else if ev = ''removal_intent'' then REMOVING
      else if ev = ''removal_receipt'' then REMOVED
      else REMOVAL_FAILED)"

definition delivery_status_of :: "delivery_event_row list \<Rightarrow> delivery_status" where
  "delivery_status_of es = (if es = [] then NOT_ATTEMPTED else status_of_event (e_event (last es)))"

definition bound_digest :: "delivery_event_row list \<Rightarrow> string option" where
  "bound_digest es =
     (case find (\<lambda>e. e_event e = ''intent'') es of None \<Rightarrow> None | Some e \<Rightarrow> e_chunks_digest e)"

definition delivery_planned :: "delivery_event_row list \<Rightarrow> int option" where
  "delivery_planned es =
     (case find (\<lambda>e. e_event e = ''intent'') es of None \<Rightarrow> Some 0 | Some e \<Rightarrow> e_planned e)"

definition last_error :: "delivery_event_row list \<Rightarrow> string option" where
  "last_error es =
     (case find (\<lambda>e. e_event e = ''failure'' \<or> e_event e = ''removal_failure'') (rev es) of
        None \<Rightarrow> None | Some e \<Rightarrow> e_error e)"

text \<open>The loop of \<open>possibly_written\<close>: its three variables.\<close>

record written_scan =
  ws_written :: bool
  ws_outstanding :: "string list"
  ws_legacy :: bool

definition scan_event :: "delivery_event_row \<Rightarrow> written_scan \<Rightarrow> written_scan" where
  "scan_event e s =
     (if e_event e = ''intent'' then
        (case e_attempt_id e of
           None \<Rightarrow> s\<lparr>ws_written := ws_written s \<or> ws_legacy s, ws_legacy := True\<rparr>
         | Some a \<Rightarrow> s\<lparr>ws_outstanding := List.insert a (ws_outstanding s)\<rparr>)
      else if e_event e = ''receipt'' \<or> e_event e = ''failure'' then
        (let w = (ws_written s \<or> e_event e = ''receipt'' \<or> e_done e \<noteq> Some 0) in
         case e_attempt_id e of
           None \<Rightarrow> s\<lparr>ws_written := w, ws_legacy := False\<rparr>
         | Some a \<Rightarrow> s\<lparr>ws_written := w, ws_outstanding := removeAll a (ws_outstanding s)\<rparr>)
      else if e_event e = ''removal_receipt'' then s\<lparr>ws_written := False\<rparr>
      else s)"

definition scan_events :: "delivery_event_row list \<Rightarrow> written_scan" where
  "scan_events es = fold scan_event es \<lparr>ws_written = False, ws_outstanding = [], ws_legacy = False\<rparr>"

definition possibly_written :: "delivery_event_row list \<Rightarrow> bool" where
  "possibly_written es =
     (let s = scan_events es in ws_written s \<or> ws_legacy s \<or> ws_outstanding s \<noteq> [])"

definition show_opt_int :: "int option \<Rightarrow> string" where
  "show_opt_int x = (case x of None \<Rightarrow> ''None'' | Some n \<Rightarrow> show_int n)"

definition explain :: "delivery \<Rightarrow> string" where
  "explain d =
     (let st = delivery_status_of (dl_events d); planned = show_opt_int (delivery_planned (dl_events d)) in
      if st = NOT_ATTEMPTED then ''nothing was written''
      else if st = DELIVERED then ''all '' @ planned @ '' chunks were written''
      else if st = REMOVED \<and> \<not> possibly_written (dl_events d) then ''the delivery's data was removed''
      else if \<not> possibly_written (dl_events d) then ''nothing was written''
      else ''between 0 and '' @ planned @ '' chunks may be at the target under dispatch_id ''
             @ dl_dispatch_id d @ '' ('' @ status_value st @ '')'')"

section \<open>Payloads and targets\<close>

definition DIGEST_PREFIX :: string where
  "DIGEST_PREFIX = ''chunks-v2:''"

definition chunk_body :: "chunk \<Rightarrow> json option" where
  "chunk_body c =
     (case (encode_value (ch_token_count c), encode_value (ch_metadata c)) of
        (Some t, Some m) \<Rightarrow>
          Some (JObj [(''chunk_id'', JStr (ch_id c)), (''content_hash'', JStr (ch_content_hash c)),
                      (''token_count'', t), (''metadata'', m)])
      | _ \<Rightarrow> None)"

definition chunk_bodies :: "chunk list \<Rightarrow> json list option" where
  "chunk_bodies cs =
     (if \<forall>c \<in> set cs. chunk_body c \<noteq> None then Some (map (\<lambda>c. the (chunk_body c)) cs) else None)"

definition chunks_digest :: "chunk list \<Rightarrow> string result" where
  "chunks_digest cs =
     (case chunk_bodies cs of
        None \<Rightarrow> Inl TypeError
      | Some bs \<Rightarrow>
          map_sum id (\<lambda>t. DIGEST_PREFIX @ sha256 t) (canonical_json (JObj [(''chunks'', JArr bs)])))"

definition legacy_chunks_digest :: "chunk list \<Rightarrow> string result" where
  "legacy_chunks_digest cs =
     map_sum id sha256 (canonical_json (JObj
       [(''chunks'', JArr (map (\<lambda>c. JArr [JStr (ch_id c), JStr (ch_content_hash c)]) cs))]))"

definition payload_matches :: "string option \<Rightarrow> chunk list \<Rightarrow> bool result" where
  "payload_matches bound cs =
     (case bound of
        None \<Rightarrow> Inl AttributeError
      | Some b \<Rightarrow>
          map_sum id (\<lambda>d. b = d)
            (if starts_with DIGEST_PREFIX b then chunks_digest cs else legacy_chunks_digest cs))"

text \<open>A target: a dataclass instance, with its class name and fields, or anything else.\<close>

datatype target = Target string "(string \<times> pyval) list" | NotDataclass

definition encode_target :: "target \<Rightarrow> (string \<times> string) result" where
  "encode_target t =
     (case t of
        NotDataclass \<Rightarrow> Inl TypeError
      | Target kind flds \<Rightarrow>
          (case encode_value (VDict flds) of
             None \<Rightarrow> Inl TypeError
           | Some j \<Rightarrow> map_sum id (\<lambda>enc. (kind, enc)) (canonical_json j)))"

section \<open>The log\<close>

definition delivery_events_of :: "string \<Rightarrow> database \<Rightarrow> delivery_event_row list" where
  "delivery_events_of did db =
     filter (\<lambda>e. e_dispatch_id e = did) (sort_key e_event_id (db_delivery_events db))"

definition insert_opened :: "delivery_row \<Rightarrow> string \<Rightarrow> database \<Rightarrow> unit result \<times> database" where
  "insert_opened d now db =
     write_transaction
       (\<lambda>db. case insert_delivery d db of
          (Inl e, db1) \<Rightarrow> (Inl e, db1)
        | (Inr False, db1) \<Rightarrow> (Inr (), db1)
        | (Inr True, db1) \<Rightarrow>
            (case append_event ''delivery.opened'' (d_dispatch_id d)
                    (delivery_body (d_record_id d) (d_target_kind d) (d_target d)) now db1 of
               (Inl e, db2) \<Rightarrow> (Inl e, db2)
             | (Inr _, db2) \<Rightarrow> (Inr (), db2))) db"

text \<open>\<open>open_delivery\<close>, with the fresh UUID and the times of the row and its event.\<close>

definition open_delivery ::
  "string \<Rightarrow> target \<Rightarrow> string \<Rightarrow> string \<Rightarrow> string \<Rightarrow> database \<Rightarrow> string result \<times> database" where
  "open_delivery rid t uuid now1 now2 db =
     (case encode_target t of
        Inl e \<Rightarrow> (Inl e, db)
      | Inr (kind, enc) \<Rightarrow>
          (case insert_opened \<lparr>d_dispatch_id = uuid, d_record_id = rid, d_target_kind = kind,
                               d_target = enc, d_created_at = now1\<rparr> now2 db of
             (Inl e, db') \<Rightarrow> (Inl e, db')
           | (Inr _, db') \<Rightarrow>
               (case find (\<lambda>d. d_record_id d = rid \<and> d_target_kind d = kind \<and> d_target d = enc)
                       (db_deliveries db') of
                  None \<Rightarrow> (Inl TypeError, db')
                | Some d \<Rightarrow> (Inr (d_dispatch_id d), db'))))"

text \<open>\<open>_insert\<close>, inside a transaction; the event id of the argument is not used.\<close>

definition insert_event :: "delivery_event_row \<Rightarrow> string \<Rightarrow> database \<Rightarrow> unit result \<times> database" where
  "insert_event e now db =
     (case insert_delivery_event e db of
        (Inl x, db1) \<Rightarrow> (Inl x, db1)
      | (Inr _, db1) \<Rightarrow>
          (case append_event ''delivery.event'' (e_dispatch_id e) (delivery_event_body e) now db1 of
             (Inl x, db2) \<Rightarrow> (Inl x, db2)
           | (Inr _, db2) \<Rightarrow> (Inr (), db2)))"

definition log_append :: "delivery_event_row \<Rightarrow> string \<Rightarrow> database \<Rightarrow> unit result \<times> database" where
  "log_append e now db =
     (case write_transaction (insert_event e now) db of
        (Inl x, db') \<Rightarrow> (Inl (if x = SqliteIntegrityError then ValueError else x), db')
      | (Inr u, db') \<Rightarrow> (Inr u, db'))"

definition intent_row :: "string \<Rightarrow> nat \<Rightarrow> string \<Rightarrow> string \<Rightarrow> string \<Rightarrow> delivery_event_row" where
  "intent_row did n digest ts attempt =
     \<lparr>e_event_id = 0, e_dispatch_id = did, e_event = ''intent'', e_planned = Some (int n),
      e_chunks_digest = Some digest, e_done = None, e_error = None, e_at = ts,
      e_attempt_id = Some attempt\<rparr>"

text \<open>The digest an intent records: that of the chunks, or of the payload already bound.\<close>

definition intent_digest :: "string \<Rightarrow> chunk list \<Rightarrow> database \<Rightarrow> string result" where
  "intent_digest did cs db =
     (case filter (\<lambda>e. e_event e = ''intent'') (delivery_events_of did db) of
        [] \<Rightarrow> chunks_digest cs
      | e # _ \<Rightarrow>
          if e_planned e \<noteq> Some (int (length cs)) then Inl PayloadConflictError
          else (case payload_matches (e_chunks_digest e) cs of
                  Inl x \<Rightarrow> Inl x
                | Inr False \<Rightarrow> Inl PayloadConflictError
                | Inr True \<Rightarrow> Inr (the (e_chunks_digest e))))"

definition append_intent ::
  "string \<Rightarrow> chunk list \<Rightarrow> string \<Rightarrow> string \<Rightarrow> string \<Rightarrow> database \<Rightarrow> string result \<times> database" where
  "append_intent did cs attempt now1 now2 db =
     write_transaction
       (\<lambda>db. case intent_digest did cs db of
          Inl x \<Rightarrow> (Inl x, db)
        | Inr digest \<Rightarrow>
            (case insert_event (intent_row did (length cs) digest now1 attempt) now2 db of
               (Inl x, db') \<Rightarrow> (Inl (if x = SqliteIntegrityError then PayloadConflictError else x), db')
             | (Inr _, db') \<Rightarrow> (Inr attempt, db'))) db"

definition event_row_of ::
  "string \<Rightarrow> string \<Rightarrow> int option \<Rightarrow> int option \<Rightarrow> string option \<Rightarrow> string \<Rightarrow> string option \<Rightarrow> delivery_event_row" where
  "event_row_of did ev planned dn err ts attempt =
     \<lparr>e_event_id = 0, e_dispatch_id = did, e_event = ev, e_planned = planned, e_chunks_digest = None,
      e_done = dn, e_error = err, e_at = ts, e_attempt_id = attempt\<rparr>"

definition append_unwritten_failure ::
  "string \<Rightarrow> string \<Rightarrow> string \<Rightarrow> string \<Rightarrow> string \<Rightarrow> database \<Rightarrow> unit result \<times> database" where
  "append_unwritten_failure did err attempt now1 now2 =
     log_append (event_row_of did ''failure'' None (Some 0) (Some err) now1 (Some attempt)) now2"

definition row_delivery_of :: "delivery_row \<Rightarrow> database \<Rightarrow> delivery result" where
  "row_delivery_of d db =
     (case json_loads (d_target d) of
        None \<Rightarrow> Inl ValueError
      | Some t \<Rightarrow>
          Inr \<lparr>dl_dispatch_id = d_dispatch_id d, dl_record_id = d_record_id d,
               dl_target_kind = d_target_kind d, dl_target = t, dl_created_at = d_created_at d,
               dl_events = delivery_events_of (d_dispatch_id d) db\<rparr>)"

definition get_delivery :: "string \<Rightarrow> database \<Rightarrow> delivery result" where
  "get_delivery did db =
     (case find (\<lambda>d. d_dispatch_id d = did) (db_deliveries db) of
        None \<Rightarrow> Inl KeyError
      | Some d \<Rightarrow> row_delivery_of d db)"

fun rows_to_deliveries :: "delivery_row list \<Rightarrow> database \<Rightarrow> delivery list result" where
  "rows_to_deliveries [] db = Inr []"
| "rows_to_deliveries (d # ds) db =
     (case row_delivery_of d db of
        Inl e \<Rightarrow> Inl e
      | Inr x \<Rightarrow> (case rows_to_deliveries ds db of Inl e \<Rightarrow> Inl e | Inr xs \<Rightarrow> Inr (x # xs)))"

definition ordered_deliveries :: "database \<Rightarrow> delivery_row list" where
  "ordered_deliveries db = sort_key d_created_at (sort_key d_dispatch_id (db_deliveries db))"

definition deliveries_for_record :: "string \<Rightarrow> database \<Rightarrow> delivery list result" where
  "deliveries_for_record rid db =
     rows_to_deliveries (filter (\<lambda>d. d_record_id d = rid) (ordered_deliveries db)) db"

definition all_deliveries :: "database \<Rightarrow> delivery list result" where
  "all_deliveries db = rows_to_deliveries (ordered_deliveries db) db"

end
