(* ===== verification/LedgerSafety.thy ===== *)
theory LedgerSafety
  imports Delivery
begin

text \<open>
  The ledger as a state machine: every operation of the store, the delivery log and the
  replay log as a step on the archive and the database, with the file system and the
  clock free.  The main results: every ledger the operations reach verifies, record
  states only move along the documented transitions, a record is sealed only with its
  bundle complete in the archive, and a delivery has one payload.
\<close>

section \<open>The replay log's write\<close>

text \<open>\<open>ReplayLog.append\<close>; the policy as a JSON value beside its canonical text in the row.\<close>

definition log_replay :: "replay_row \<Rightarrow> json \<Rightarrow> string \<Rightarrow> database \<Rightarrow> unit result \<times> database" where
  "log_replay p policy now db =
     write_transaction
       (\<lambda>db. case insert_replay p db of
          (Inl e, db1) \<Rightarrow> (Inl e, db1)
        | (Inr _, db1) \<Rightarrow>
            (case append_event ''replay.logged'' (p_replay_id p) (replay_body p policy) now db1 of
               (Inl e, db2) \<Rightarrow> (Inl e, db2)
             | (Inr _, db2) \<Rightarrow> (Inr (), db2))) db"

section \<open>What a transaction can do\<close>

text \<open>
  A transaction of the program commits one of five changes, each with its event, or
  changes nothing.  \<open>tx b\<close> is the relation between the databases before and after; \<open>b\<close> marks a
  transition to sealed.
\<close>

definition moves :: "string \<Rightarrow> (string \<times> artifact_state list) option" where
  "moves k =
     map_of [(''record.sealed'', (''sealed'', [PENDING])),
             (''record.failed'', (''failed'', [PENDING, FAILED])),
             (''record.invalidated'', (''invalidated'', [PENDING, SEALED]))] k"

lemma moves_state:
  "moves k = Some (s, from) \<Longrightarrow> record_state_of_kind k = Some s \<and> k \<noteq> ''record.created''"
  by (auto simp: moves_def record_state_of_kind_def split: if_splits)

text \<open>A row without its state: what no update may change.\<close>

definition row_core :: "record_row \<Rightarrow> record_row" where
  "row_core r = r\<lparr>r_state := [], r_finalized_at := None, r_error := None\<rparr>"

definition state_update :: "string \<Rightarrow> (record_row \<Rightarrow> record_row) \<Rightarrow> bool" where
  "state_update s upd \<longleftrightarrow> only_state s upd \<and> (\<forall>r. row_core (upd r) = row_core r \<and> r_state (upd r) = s)"

lemma state_update_set [simp]:
  "state_update ''sealed'' (set_sealed now)"
  "state_update ''failed'' (set_failed now err)"
  "state_update ''invalidated'' (set_invalidated now err)"
  unfolding state_update_def
  by (simp_all add: only_state_set) (simp_all add: row_core_def set_sealed_def set_failed_def set_invalidated_def)

inductive tx :: "bool \<Rightarrow> database \<Rightarrow> database \<Rightarrow> bool" where
  tx_none: "tx b db db"
| tx_record: "insert_record r db = (Inr x, db1) \<Longrightarrow> record_body r False = Inr body \<Longrightarrow>
    append_event ''record.created'' (r_record_id r) body now db1 = (Inr ev, db2) \<Longrightarrow>
    column_ok (r_parser_config r) \<Longrightarrow> column_ok (r_run_conditions r) \<Longrightarrow>
    column_manifest_hash (r_artifact_manifest r) = Some (r_artifact_hash r) \<Longrightarrow>
    r_state r = ''pending'' \<Longrightarrow> tx False db db2"
| tx_state: "r \<in> set (db_records db) \<Longrightarrow> r_record_id r = rid \<Longrightarrow> r_state r \<in> set (map state_value from) \<Longrightarrow>
    append_event k rid (JObj kvs) now (update_where rid from upd db) = (Inr ev, db2) \<Longrightarrow>
    moves k = Some (s, from) \<Longrightarrow>
    state_update s upd \<Longrightarrow> json_rep (JObj kvs) \<Longrightarrow> tx (s = ''sealed'') db db2"
| tx_delivery: "insert_delivery d db = (Inr True, db1) \<Longrightarrow>
    append_event ''delivery.opened'' (d_dispatch_id d)
      (delivery_body (d_record_id d) (d_target_kind d) (d_target d)) now db1 = (Inr ev, db2) \<Longrightarrow> tx False db db2"
| tx_event: "insert_delivery_event e db = (Inr x, db1) \<Longrightarrow>
    append_event ''delivery.event'' (e_dispatch_id e) (delivery_event_body e) now db1 = (Inr ev, db2) \<Longrightarrow>
    tx False db db2"
| tx_replay: "insert_replay p db = (Inr x, db1) \<Longrightarrow> json_rep policy \<Longrightarrow>
    append_event ''replay.logged'' (p_replay_id p) (replay_body p policy) now db1 = (Inr ev, db2) \<Longrightarrow> tx False db db2"

text \<open>Some transaction commits.\<close>

definition committed :: "database \<Rightarrow> database \<Rightarrow> bool" where
  "committed db db' \<longleftrightarrow> (\<exists>b. tx b db db')"

lemma tx_ledger_inv:
  assumes "tx b db db'" "ledger_inv db"
  shows "ledger_inv db'"
  using assms
proof (cases rule: tx.cases)
  case tx_none
  with assms show ?thesis by simp
next
  case (tx_record r x db1 body now ev)
  with assms show ?thesis by (intro ledger_inv_insert_record [of db r x db1 body now ev db'])
next
  case (tx_state r rid "from" k kvs now upd ev s)
  then show ?thesis
    using assms(2) moves_state [of k s "from"] unfolding state_update_def by (intro ledger_inv_update [of db r rid "from" k kvs now upd ev db' s]) simp_all
next
  case (tx_delivery d db1 now ev)
  with assms show ?thesis by (intro ledger_inv_insert_delivery [of db d db1 now ev db'])
next
  case (tx_event e x db1 now ev)
  with assms show ?thesis by (intro ledger_inv_insert_event [of db e x db1 now ev db'])
next
  case (tx_replay p x db1 policy now ev)
  with assms show ?thesis by (intro ledger_inv_insert_replay [of db p x db1 policy now ev db'])
qed

text \<open>\<open>_transition\<close> as a transaction, whatever it returns.\<close>

lemma transition_tx:
  assumes "transition rid from upd texts k (JObj kvs) now db = (res, db')"
    and "moves k = Some (s, from)"
    and "state_update s upd" "json_rep (JObj kvs)"
  shows "tx (s = ''sealed'') db db'"
proof -
  let ?block = "\<lambda>db. if \<not> texts_ok (Some rid # texts) then (Inl UnicodeError, db)
          else if \<exists>r \<in> set (db_records db). r_record_id r = rid \<and> r_state r \<in> set (map state_value from)
          then (case append_event k rid (JObj kvs) now (update_where rid from upd db) of
                  (Inl e, db') \<Rightarrow> (Inl e, db')
                | (Inr _, db') \<Rightarrow> (Inr True, db'))
          else (Inr False, db)"
  obtain r db1 where w: "write_transaction ?block db = (r, db1)" by (meson surj_pair)
  have db': "db' = db1" using assms(1) w by (auto simp: transition_def split: sum.splits bool.splits)
  show ?thesis
  proof (cases r)
    case (Inl e)
    have "db1 = db" using w [unfolded Inl] by (rule write_transaction_Inl)
    then show ?thesis by (simp add: db' tx_none)
  next
    case (Inr b)
    then have b: "?block db = (Inr b, db1)" using w by (simp add: write_transaction_Inr)
    show ?thesis
    proof (cases b)
      case True
      obtain res2 db2 where a: "append_event k rid (JObj kvs) now (update_where rid from upd db) = (res2, db2)"
        by (cases "append_event k rid (JObj kvs) now (update_where rid from upd db)")
      have "\<exists>r \<in> set (db_records db). r_record_id r = rid \<and> r_state r \<in> set (map state_value from)"
        using b True by (simp split: if_split_asm)
      moreover obtain ev where "res2 = Inr ev" "db2 = db1"
        using b True by (simp add: a split: if_split_asm sum.split_asm)
      ultimately obtain r where "r \<in> set (db_records db)" "r_record_id r = rid" "r_state r \<in> set (map state_value from)"
        "append_event k rid (JObj kvs) now (update_where rid from upd db) = (Inr ev, db1)"
        using a by blast
      then show ?thesis unfolding db' using assms(2-4) by (rule tx_state)
    next
      case False
      then have "db1 = db" using b by (auto split: if_splits sum.splits prod.splits)
      then show ?thesis by (simp add: db' tx_none)
    qed
  qed
qed

section \<open>The operations are transactions\<close>

lemma insert_pending_tx:
  assumes "insert_pending row now db = (res, db')"
    and "column_ok (r_parser_config row)" "column_ok (r_run_conditions row)"
      "column_manifest_hash (r_artifact_manifest row) = Some (r_artifact_hash row)" "r_state row = ''pending''"
  shows "tx False db db'"
proof (cases res)
  case (Inl e)
  then have "db' = db" using assms(1) write_transaction_Inl by (auto simp: insert_pending_def)
  then show ?thesis by (simp add: tx_none)
next
  case (Inr u)
  then obtain x db1 body ev where "insert_record row db = (Inr x, db1)" "record_body row False = Inr body"
    "append_event ''record.created'' (r_record_id row) body now db1 = (Inr ev, db')"
    using assms(1) by (auto simp: insert_pending_def write_transaction_Inr split: prod.splits sum.splits)
  then show ?thesis using assms(2-5) by (rule tx_record)
qed

text \<open>What a caller can pass: Python floats and dictionaries.\<close>

definition input_ok :: "run_input \<Rightarrow> bool" where
  "input_ok i \<longleftrightarrow>
     (\<forall>j. encode_value (in_parser_config i) = Some j \<longrightarrow> json_rep j) \<and>
     (\<forall>c. in_run_conditions i = Some c \<longrightarrow> json_rep (run_conditions_to_dict c))"

lemma canonical_column_ok:
  assumes "canonical_json j = Inr t" "json_rep j"
  shows "column_ok (Some t)"
proof -
  have "json_ok j" using canonical_json_rep_ok assms by blast
  then have "json_loads t = Some (jsort j)" "json_ok (jsort j)"
    using canonical_json_loads assms(1) json_ok_jsort by blast+
  then show ?thesis by (simp add: column_ok_def json_column_ok_def)
qed

lemma parser_config_column_ok:
  assumes "canonical_parser_config c = Inr t" "\<forall>j. encode_value c = Some j \<longrightarrow> json_rep j"
  shows "column_ok (Some t)"
  using assms canonical_column_ok
  by (auto simp: canonical_parser_config_def split: pyval.splits option.splits sum.splits if_splits)

lemma conditions_column_ok:
  assumes "conditions_json rc = Inr t" "\<forall>c. rc = Some c \<longrightarrow> json_rep (run_conditions_to_dict c)"
  shows "column_ok t"
  using assms canonical_column_ok
  by (cases rc) (auto simp: conditions_json_def map_sum_Inr_iff column_ok_def json_column_ok_def)

lemma manifest_of_column_map: "manifest_of (map (\<lambda>(p, d). (p, JStr d)) m) = Some m"
  by (induction m) auto

lemma manifest_column_hash:
  "sha256_manifest m = Inr h \<Longrightarrow> column_manifest_hash (manifest_column m) = Some h"
  by (simp add: column_manifest_hash_def manifest_column_def manifest_of_column_map)

lemma record_source_extends: "record_source x y s = (r, s') \<Longrightarrow> extends s s'"
  by (auto simp: record_source_def archive_extends split: option.splits if_splits prod.splits sum.splits)

lemma pending_row_tx:
  assumes "insert_pending (pending_row i config conditions sid m h rid now1) now2 db = (r, db')"
    and "canonical_parser_config (in_parser_config i) = Inr config" "conditions_json (in_run_conditions i) = Inr conditions"
    and "sha256_manifest m = Inr h" "input_ok i"
  shows "tx False db db'"
  using assms(1)
proof (rule insert_pending_tx)
  show "column_ok (r_parser_config (pending_row i config conditions sid m h rid now1))"
    using parser_config_column_ok [OF assms(2)] assms(5) by (simp add: pending_row_def input_ok_def)
  show "column_ok (r_run_conditions (pending_row i config conditions sid m h rid now1))"
    using conditions_column_ok [OF assms(3)] assms(5) by (simp add: pending_row_def input_ok_def)
qed (simp_all add: pending_row_def manifest_column_hash [OF assms(4)])

lemma create_pending_tx:
  assumes "create_pending fs i rid now1 now2 st = (res, st')" "input_ok i"
  shows "tx False (lg_db st) (lg_db st') \<and> extends (lg_archive st) (lg_archive st')"
  using assms(1) unfolding create_pending_def Let_def
  by (auto split: if_split_asm sum.split_asm prod.split_asm option.split_asm
      intro: tx_none pending_row_tx [OF _ _ _ _ assms(2)] dest: record_source_extends)

lemma transition_ops_tx:
  "fail_record rid err now1 now2 db = (res, db') \<Longrightarrow> tx False db db'"
  "invalidate rid err now1 now2 db = (res, db') \<Longrightarrow> tx False db db'"
proof -
  have mv: "moves ''record.failed'' = Some (''failed'', [PENDING, FAILED])"
    "moves ''record.invalidated'' = Some (''invalidated'', [PENDING, SEALED])" by (simp_all add: moves_def)
  show "fail_record rid err now1 now2 db = (res, db') \<Longrightarrow> tx False db db'"
    unfolding fail_record_def transitions
    by (auto split: if_split_asm sum.split_asm prod.split_asm intro: tx_none transition_tx [OF _ mv(1) state_update_set(2), simplified])
  show "invalidate rid err now1 now2 db = (res, db') \<Longrightarrow> tx False db db'"
    unfolding invalidate_def transitions
    by (auto split: if_split_asm sum.split_asm prod.split_asm intro: tx_none transition_tx [OF _ mv(2) state_update_set(3), simplified])
qed

lemma tx_of_block:
  assumes "write_transaction block db = (res, db')" "\<And>x. block db = (Inr x, db') \<Longrightarrow> tx False db db'"
  shows "tx False db db'"
  using assms write_transaction_Inl [of block db _ db'] write_transaction_Inr [of block db _ db']
  by (cases res) (auto simp: tx_none)

lemma insert_opened_tx: "insert_opened d now db = (res, db') \<Longrightarrow> tx False db db'"
  unfolding insert_opened_def
  by (erule tx_of_block) (auto simp: insert_delivery_def intro: tx_delivery [where d = d] tx_none
      split: sum.split_asm prod.split_asm bool.split_asm if_split_asm)

lemma open_delivery_tx: "open_delivery rid t uuid now1 now2 db = (res, db') \<Longrightarrow> tx False db db'"
  unfolding open_delivery_def
  by (auto intro: tx_none insert_opened_tx split: sum.split_asm prod.split_asm option.split_asm)

lemma insert_event_tx: "insert_event e now db = (Inr x, db') \<Longrightarrow> tx False db db'"
  unfolding insert_event_def by (auto intro: tx_event split: sum.split_asm prod.split_asm)

lemma log_append_tx: "log_append e now db = (res, db') \<Longrightarrow> tx False db db'"
  unfolding log_append_def
  by (auto intro: tx_of_block insert_event_tx split: sum.split_asm prod.split_asm)

lemma append_intent_tx: "append_intent did cs attempt now1 now2 db = (res, db') \<Longrightarrow> tx False db db'"
  unfolding append_intent_def
  by (erule tx_of_block) (auto intro: insert_event_tx split: sum.split_asm prod.split_asm)

lemma log_replay_tx: "log_replay p policy now db = (res, db') \<Longrightarrow> json_rep policy \<Longrightarrow> tx False db db'"
  unfolding log_replay_def
  by (erule tx_of_block) (auto intro: tx_replay split: sum.split_asm prod.split_asm)

section \<open>The life of a record\<close>

text \<open>The documented transitions, and failing again.\<close>

definition state_move :: "string \<Rightarrow> string \<Rightarrow> bool" where
  "state_move s t \<longleftrightarrow>
     s = t \<or> (s = ''pending'' \<and> t \<in> {''sealed'', ''failed'', ''invalidated''}) \<or>
     (s = ''sealed'' \<and> t = ''invalidated'')"

lemma state_move_trans: "state_move a b \<Longrightarrow> state_move b c \<Longrightarrow> state_move a c"
  unfolding state_move_def by auto

definition row_evolves :: "record_row \<Rightarrow> record_row \<Rightarrow> bool" where
  "row_evolves r r' \<longleftrightarrow> row_core r' = row_core r \<and> state_move (r_state r) (r_state r')"

lemma row_evolves_refl [simp]: "row_evolves r r"
  by (simp add: row_evolves_def state_move_def)

lemma row_evolves_trans: "row_evolves a b \<Longrightarrow> row_evolves b c \<Longrightarrow> row_evolves a c"
  unfolding row_evolves_def using state_move_trans by auto

lemma row_core_fields:
  assumes "row_core r = row_core q"
  shows "r_record_id r = r_record_id q" "r_run_id r = r_run_id q" "r_artifact_hash r = r_artifact_hash q"
    "r_artifact_manifest r = r_artifact_manifest q" "r_source_hash r = r_source_hash q"
    "r_parser_config r = r_parser_config q" "r_artifact_dir r = r_artifact_dir q"
proof -
  have "r_record_id (row_core r) = r_record_id r" "r_run_id (row_core r) = r_run_id r"
    "r_artifact_hash (row_core r) = r_artifact_hash r" "r_artifact_manifest (row_core r) = r_artifact_manifest r"
    "r_source_hash (row_core r) = r_source_hash r" "r_parser_config (row_core r) = r_parser_config r"
    "r_artifact_dir (row_core r) = r_artifact_dir r" for r
    by (simp_all add: row_core_def)
  from this [of r] this [of q] assms
  show "r_record_id r = r_record_id q" "r_run_id r = r_run_id q" "r_artifact_hash r = r_artifact_hash q"
    "r_artifact_manifest r = r_artifact_manifest q" "r_source_hash r = r_source_hash q"
    "r_parser_config r = r_parser_config q" "r_artifact_dir r = r_artifact_dir q"
    by (metis, metis, metis, metis, metis, metis, metis)
qed

text \<open>How the records table changes: a new pending record, or rows that evolve in place.\<close>

definition records_evolve :: "record_row list \<Rightarrow> record_row list \<Rightarrow> bool" where
  "records_evolve rs rs' \<longleftrightarrow> length rs \<le> length rs' \<and> (\<forall>i < length rs. row_evolves (rs ! i) (rs' ! i))"

lemma records_evolve_same [simp]: "records_evolve rs rs"
  by (simp add: records_evolve_def)

lemma records_evolve_trans: "records_evolve a b \<Longrightarrow> records_evolve b c \<Longrightarrow> records_evolve a c"
  unfolding records_evolve_def by (auto intro: row_evolves_trans)

lemma moves_state_move:
  assumes "moves k = Some (s, from)" "r_state r \<in> set (map state_value from)" "state_update s upd"
  shows "row_evolves r (upd r)"
proof -
  have "state_move (r_state r) s"
    using assms(1,2) by (auto simp: moves_def state_move_def split: if_splits)
  then show ?thesis using assms(3) by (simp add: row_evolves_def state_update_def)
qed

lemma tx_records_evolve:
  assumes "tx b db db'"
  shows "records_evolve (db_records db) (db_records db')"
  using assms
proof (cases rule: tx.cases)
  case (tx_record r x db1 body now ev)
  then have "db_records db' = db_records db @ [r]"
    using append_event_frame(1) [OF tx_record(4)] by (auto simp: insert_record_def split: if_splits)
  then show ?thesis by (simp add: records_evolve_def nth_append)
next
  case (tx_state r rid "from" k kvs now upd ev s)
  then have "db_records db' = map (\<lambda>r. if r_record_id r = rid \<and> r_state r \<in> set (map state_value from) then upd r else r)
      (db_records db)"
    using append_event_frame(1) [OF tx_state(5)] by (simp add: update_where_def)
  then show ?thesis using moves_state_move [OF tx_state(6) _ tx_state(7)] by (simp add: records_evolve_def)
next
  case (tx_delivery d db1 now ev)
  then show ?thesis
    using append_event_frame(1) [OF tx_delivery(3)] by (auto simp: insert_delivery_def split: if_splits)
next
  case (tx_event e x db1 now ev)
  then show ?thesis
    using append_event_frame(1) [OF tx_event(3)] by (auto simp: insert_delivery_event_def split: if_splits)
next
  case (tx_replay p x db1 policy now ev)
  then show ?thesis
    using append_event_frame(1) [OF tx_replay(4)] by (auto simp: insert_replay_def split: if_splits)
qed simp

lemma txs_records_evolve: "committed\<^sup>*\<^sup>* db db' \<Longrightarrow> records_evolve (db_records db) (db_records db')"
  by (induction rule: rtranclp_induct) (auto simp: committed_def intro: records_evolve_trans tx_records_evolve)

lemma txs_ledger_inv: "committed\<^sup>*\<^sup>* db db' \<Longrightarrow> ledger_inv db \<Longrightarrow> ledger_inv db'"
  by (induction rule: rtranclp_induct) (auto simp: committed_def intro: tx_ledger_inv)

section \<open>Sealed bundles\<close>

text \<open>The archive holds a whole bundle: its manifest under its digest, and every file.\<close>

definition bundle_complete :: "archive \<Rightarrow> string \<Rightarrow> manifest \<Rightarrow> bool" where
  "bundle_complete s h m \<longleftrightarrow>
     (\<exists>t. read_tree s h = Inr t \<and> map_of t = map_of m) \<and>
     (\<forall>p d. map_of m p = Some d \<longrightarrow> (\<exists>b. read_blob s d = Inr b))"

lemma bundle_complete_extends: "extends s s' \<Longrightarrow> bundle_complete s h m \<Longrightarrow> bundle_complete s' h m"
  unfolding bundle_complete_def using extends_read_tree extends_read_blob by meson

lemma verify_blobs_ok: "verify_blobs s ds = Inr u \<Longrightarrow> d \<in> set ds \<Longrightarrow> \<exists>b. read_blob s d = Inr b"
proof (induction ds)
  case (Cons x ds)
  have "verify_blobs s (x # ds) = (case snd (iter_verified s x) of Inl e \<Rightarrow> Inl e | Inr _ \<Rightarrow> verify_blobs s ds)"
    by (simp add: verify_blobs_def split: sum.split)
  with Cons.prems(1) have "\<exists>v. snd (iter_verified s x) = Inr v" "verify_blobs s ds = Inr u"
    by (auto split: sum.splits)
  then show ?case using Cons.IH Cons.prems(2) by (auto simp: iter_verified_read split: prod.splits)
qed simp

lemma verify_archived_bundle_complete:
  "verify_archived_bundle s h m = Inr u \<Longrightarrow> bundle_complete s h m"
  using verify_blobs_ok [of s "dict_values m" u]
  by (auto simp: verify_archived_bundle_def bundle_complete_def dict_eq_iff dict_values_def
      split: sum.splits if_splits dest!: map_of_SomeD) force+

text \<open>The archive has every file of a bundle, and its manifest unless that is the one that collides.\<close>

definition bundle_collision :: "archive \<Rightarrow> string \<Rightarrow> manifest \<Rightarrow> bool" where
  "bundle_collision s h m \<longleftrightarrow> (\<exists>m'. map_of m' = map_of m \<and> distinct (map fst m') \<and> tree_collision s h m')"

definition bundle_kept :: "archive \<Rightarrow> string \<Rightarrow> manifest \<Rightarrow> bool" where
  "bundle_kept s h m \<longleftrightarrow> bundle_complete s h m \<or> bundle_collision s h m"

lemma bundle_kept_extends: "extends s s' \<Longrightarrow> bundle_kept s h m \<Longrightarrow> bundle_kept s' h m"
  unfolding bundle_kept_def bundle_collision_def
  using bundle_complete_extends tree_collision_extends by blast

lemma archive_bundle_kept:
  assumes "archive_bundle dir ad m h s = (Inr u, s')"
  shows "bundle_kept s' h m"
proof -
  obtain r s1 where ing: "ingest_artifacts dir ad (map (path_div ad) (dict_keys m)) s = (r, s1)"
    by (cases "ingest_artifacts dir ad (map (path_div ad) (dict_keys m)) s")
  show ?thesis
  proof (cases r)
    case (Inl e)
    then have "verify_archived_bundle s1 h m = Inr ()" "s' = s1"
      using assms by (auto simp: archive_bundle_def ing split: if_splits sum.splits)
    then show ?thesis using verify_archived_bundle_complete unfolding bundle_kept_def by blast
  next
    case (Inr stored)
    note st = ingest_artifacts_InrD [OF ing [unfolded Inr]]
    from assms have eq: "map_of stored = map_of m" and put: "put_tree stored s1 = (Inr h, s')"
      by (auto simp: archive_bundle_def ing Inr dict_eq_iff split: if_splits sum.splits prod.splits)
    note t = put_tree_InrD [OF put st(4)]
    obtain c where "read_blob s' h = Inr c" using t(3) by blast
    then have "read_tree s' h = Inr (sort_key fst stored) \<or> bundle_collision s' h m"
      using read_stored_tree [OF t(1,2)] eq st(4) unfolding bundle_collision_def by blast
    moreover have "map_of (sort_key fst stored) = map_of m" using map_of_sort_fst [OF st(4)] eq by simp
    moreover have "\<exists>b. read_blob s' d = Inr b" if d: "map_of m p = Some d" for p d
    proof -
      have "d \<in> set (map snd stored)" using d eq by (metis map_of_SomeD image_set image_eqI snd_conv)
      moreover have "manifest_readable s' stored"
        using manifest_readable_extends [OF put_tree_extends [OF put] st(3)] .
      ultimately show ?thesis unfolding manifest_readable_def by blast
    qed
    ultimately show ?thesis unfolding bundle_kept_def bundle_complete_def by blast
  qed
qed

lemma archive_bundle_extends: "archive_bundle dir ad m h s = (r, s') \<Longrightarrow> extends s s'"
  using extends_trans
  by (auto simp: archive_bundle_def archive_extends split: prod.splits sum.splits if_splits
      dest!: ingest_artifacts_extends put_tree_extends)

section \<open>The whole ledger as a transition system\<close>

text \<open>
  A step of any process: the archive grows; a transaction commits that seals nothing; or
  a seal that read its record at an earlier point, archived the bundle, and commits its
  transition now, with any steps of other processes in between.
\<close>

inductive ledger_step :: "ledger \<Rightarrow> ledger \<Rightarrow> bool" where
  step_archive: "extends (lg_archive st) s' \<Longrightarrow> ledger_step st (st\<lparr>lg_archive := s'\<rparr>)"
| step_tx: "tx False (lg_db st) db' \<Longrightarrow> ledger_step st (st\<lparr>lg_db := db'\<rparr>)"
| step_seal: "get_record rid db0 = Inr r \<Longrightarrow> committed\<^sup>*\<^sup>* db0 (lg_db st) \<Longrightarrow>
    archive_bundle dir ad (ar_artifact_manifest r) (ar_artifact_hash r) s0 = (Inr u, s1) \<Longrightarrow>
    extends s1 (lg_archive st) \<Longrightarrow>
    transition rid [PENDING] (set_sealed now1) [Some now1] ''record.sealed''
      (JObj [(''artifact_hash'', JStr (ar_artifact_hash r))]) now2 (lg_db st) = (res, db') \<Longrightarrow>
    ledger_step st (st\<lparr>lg_db := db'\<rparr>)"

definition sealed_complete :: "ledger \<Rightarrow> bool" where
  "sealed_complete st \<longleftrightarrow>
     (\<forall>r \<in> set (db_records (lg_db st)). r_state r = ''sealed'' \<longrightarrow>
        (\<exists>m. manifest_of_column (r_artifact_manifest r) = Inr m \<and>
             bundle_kept (lg_archive st) (r_artifact_hash r) m))"

definition one_payload :: "database \<Rightarrow> bool" where
  "one_payload db \<longleftrightarrow>
     (\<forall>x \<in> set (db_delivery_events db). \<forall>y \<in> set (db_delivery_events db).
        e_event x = ''intent'' \<and> e_event y = ''intent'' \<and> e_dispatch_id x = e_dispatch_id y \<longrightarrow>
        e_chunks_digest x = e_chunks_digest y \<and> e_planned x = e_planned y \<and>
        e_chunks_digest x \<noteq> None \<and> e_planned x \<noteq> None)"

lemma tx_events:
  assumes "tx b db db'"
  shows "db_delivery_events db' = db_delivery_events db \<or>
    (\<exists>e. \<not> payload_conflict e db \<and> db_delivery_events db' =
       db_delivery_events db @ [e\<lparr>e_event_id := next_event_id (db_delivery_events db)\<rparr>])"
  using assms
proof (cases rule: tx.cases)
  case (tx_event e x db1 now ev)
  then show ?thesis
    using append_event_frame(3) [OF tx_event(3)] by (auto simp: insert_delivery_event_def split: if_splits)
next
  case (tx_record r x db1 body now ev)
  then show ?thesis
    using append_event_frame(3) [OF tx_record(4)] by (auto simp: insert_record_def split: if_splits)
next
  case (tx_state r rid "from" k kvs now upd ev s)
  then show ?thesis using append_event_frame(3) [OF tx_state(5)] by (simp add: update_where_def)
next
  case (tx_delivery d db1 now ev)
  then show ?thesis
    using append_event_frame(3) [OF tx_delivery(3)] by (auto simp: insert_delivery_def split: if_splits)
next
  case (tx_replay p x db1 policy now ev)
  then show ?thesis
    using append_event_frame(3) [OF tx_replay(4)] by (auto simp: insert_replay_def split: if_splits)
qed simp

lemma tx_one_payload:
  assumes "tx b db db'" "one_payload db"
  shows "one_payload db'"
  using tx_events [OF assms(1)]
proof
  assume "\<exists>e. \<not> payload_conflict e db \<and> db_delivery_events db' =
       db_delivery_events db @ [e\<lparr>e_event_id := next_event_id (db_delivery_events db)\<rparr>]"
  then obtain e where e: "\<not> payload_conflict e db" "db_delivery_events db' =
       db_delivery_events db @ [e\<lparr>e_event_id := next_event_id (db_delivery_events db)\<rparr>]" by blast
  let ?e = "e\<lparr>e_event_id := next_event_id (db_delivery_events db)\<rparr>"
  have new: "e_chunks_digest e \<noteq> None \<and> e_planned e \<noteq> None \<and>
      (\<forall>x \<in> set (db_delivery_events db). e_event x = ''intent'' \<and> e_dispatch_id x = e_dispatch_id e \<longrightarrow>
        e_chunks_digest x = e_chunks_digest e \<and> e_planned x = e_planned e)" if "e_event e = ''intent''"
    using that e(1) by (auto simp: payload_conflict_def)
  show ?thesis
    unfolding one_payload_def e(2)
  proof (intro ballI impI)
    fix x y
    assume "x \<in> set (db_delivery_events db @ [?e])" "y \<in> set (db_delivery_events db @ [?e])"
    then have xy: "x \<in> set (db_delivery_events db) \<or> x = ?e" "y \<in> set (db_delivery_events db) \<or> y = ?e" by auto
    assume c: "e_event x = ''intent'' \<and> e_event y = ''intent'' \<and> e_dispatch_id x = e_dispatch_id y"
    show "e_chunks_digest x = e_chunks_digest y \<and> e_planned x = e_planned y \<and>
        e_chunks_digest x \<noteq> None \<and> e_planned x \<noteq> None"
    proof (cases "x = ?e \<or> y = ?e")
      case True
      then have "e_event e = ''intent''" using c by auto
      with new True xy c show ?thesis by (elim disjE) auto
    next
      case False
      with xy have "x \<in> set (db_delivery_events db)" "y \<in> set (db_delivery_events db)" by blast+
      from assms(2) [unfolded one_payload_def, rule_format, OF this c] show ?thesis .
    qed
  qed
next
  assume "db_delivery_events db' = db_delivery_events db"
  then show ?thesis using assms(2) by (simp only: one_payload_def)
qed

text \<open>Sealed rows come from sealed rows, but for a sealing transaction.\<close>

lemma tx_seals_nothing:
  assumes "tx False db db'" "r \<in> set (db_records db')" "r_state r = ''sealed''"
  shows "\<exists>q \<in> set (db_records db). row_core q = row_core r \<and> r_state q = ''sealed''"
  using assms(1)
proof (cases rule: tx.cases)
  case (tx_record q x db1 body now ev)
  then have "db_records db' = db_records db @ [q]"
    using append_event_frame(1) [OF tx_record(3)] by (auto simp: insert_record_def split: if_splits)
  then show ?thesis using assms(2,3) tx_record by auto
next
  case (tx_state q rid "from" k kvs now upd ev s)
  then have "db_records db' = map (\<lambda>r. if r_record_id r = rid \<and> r_state r \<in> set (map state_value from) then upd r else r)
      (db_records db)"
    using append_event_frame(1) [OF tx_state(5)] by (simp add: update_where_def)
  then obtain q where q: "q \<in> set (db_records db)" "r = upd q \<or> r = q"
    using assms(2) by (auto split: if_splits)
  have "r_state (upd q) \<noteq> ''sealed''" using tx_state(1,7) by (simp add: state_update_def)
  then have "r = q" using q(2) assms(3) by auto
  then show ?thesis using q(1) assms(3) by auto
next
  case (tx_delivery d db1 now ev)
  then show ?thesis using assms(2,3)
    using append_event_frame(1) [OF tx_delivery(2)] by (auto simp: insert_delivery_def split: if_splits)
next
  case (tx_event e x db1 now ev)
  then show ?thesis using assms(2,3)
    using append_event_frame(1) [OF tx_event(2)] by (auto simp: insert_delivery_event_def split: if_splits)
next
  case (tx_replay p x db1 policy now ev)
  then show ?thesis using assms(2,3)
    using append_event_frame(1) [OF tx_replay(3)] by (auto simp: insert_replay_def split: if_splits)
qed (use assms in auto)

lemma transition_seals:
  assumes "transition rid [PENDING] (set_sealed now1) ts k body now2 db = (res, db')"
    and "r \<in> set (db_records db')" "r_state r = ''sealed''"
  shows "r_record_id r = rid \<or> r \<in> set (db_records db)"
proof -
  have "db_records db' = db_records db \<or> db_records db' = db_records (update_where rid [PENDING] (set_sealed now1) db)"
    using assms(1) unfolding transition_def write_transaction_def
    by (auto split: if_splits sum.splits prod.splits bool.splits dest!: append_event_frame(1))
  then show ?thesis using assms(2,3) by (auto simp: update_where_def set_sealed_def split: if_splits)
qed

lemma get_recordD:
  assumes "get_record rid db = Inr x"
  shows "\<exists>r \<in> set (db_records db). r_record_id r = rid \<and> ar_artifact_hash x = r_artifact_hash r \<and>
    manifest_of_column (r_artifact_manifest r) = Inr (ar_artifact_manifest x) \<and>
    state_of_value (r_state r) = Inr (ar_state x)"
  using assms
  by (auto simp: get_record_def find_row_def row_to_record_def find_Some_iff split: option.splits sum.splits)

lemma same_id_same_row:
  assumes "keys_ok db" "a \<in> set (db_records db)" "b \<in> set (db_records db)" "r_record_id a = r_record_id b"
  shows "a = b"
  using assms inj_onD [of r_record_id "set (db_records db)" a b] by (simp add: keys_ok_def distinct_map)

lemma committed_rows:
  assumes "committed\<^sup>*\<^sup>* db db'" "r \<in> set (db_records db)"
  shows "\<exists>r' \<in> set (db_records db'). row_core r' = row_core r"
proof -
  obtain i where i: "i < length (db_records db)" "r = db_records db ! i" using assms(2) by (auto simp: in_set_conv_nth)
  with txs_records_evolve [OF assms(1)] have "i < length (db_records db')" "row_core (db_records db' ! i) = row_core r"
    by (auto simp: records_evolve_def row_evolves_def)
  then show ?thesis by auto
qed

definition system_inv :: "ledger \<Rightarrow> bool" where
  "system_inv st \<longleftrightarrow> ledger_inv (lg_db st) \<and> one_payload (lg_db st) \<and>
     sealed_complete st"

lemma ledger_step_db: "ledger_step st st' \<Longrightarrow> \<exists>b. tx b (lg_db st) (lg_db st')"
proof (induction rule: ledger_step.induct)
  case (step_seal rid db0 r st dir ad s0 u s1 now1 now2 res db')
  have "moves ''record.sealed'' = Some (''sealed'', [PENDING])" by (simp add: moves_def)
  from transition_tx [OF step_seal(5) this state_update_set(1)] show ?case by auto
qed (auto intro: tx_none)

lemma ledger_step_sealed:
  assumes "ledger_step st st'" "sealed_complete st" "ledger_inv (lg_db st)"
  shows "sealed_complete st'"
  using assms(1)
proof (cases rule: ledger_step.cases)
  case (step_archive s')
  then show ?thesis using assms(2) bundle_kept_extends unfolding sealed_complete_def by fastforce
next
  case (step_tx db')
  have "sealed_complete st'" if s: "sealed_complete st"
    unfolding sealed_complete_def
  proof (intro ballI impI)
    fix r assume "r \<in> set (db_records (lg_db st'))" "r_state r = ''sealed''"
    then obtain q where "q \<in> set (db_records (lg_db st))" "row_core q = row_core r" "r_state q = ''sealed''"
      using tx_seals_nothing [OF step_tx(2)] step_tx(1) by auto
    then show "\<exists>m. manifest_of_column (r_artifact_manifest r) = Inr m \<and>
        bundle_kept (lg_archive st') (r_artifact_hash r) m"
      using s row_core_fields [of q r] step_tx(1) by (auto simp: sealed_complete_def)
  qed
  with assms(2) show ?thesis by blast
next
  case (step_seal rid db0 x dir ad s0 u s1 now1 now2 res db')
  have "sealed_complete st'"
    if s: "sealed_complete st" and c: "bundle_kept s1 (ar_artifact_hash x) (ar_artifact_manifest x)"
    unfolding sealed_complete_def
  proof (intro ballI impI)
    fix r assume r: "r \<in> set (db_records (lg_db st'))" "r_state r = ''sealed''"
    have inv': "keys_ok (lg_db st')"
      using ledger_step_db [OF assms(1)] assms(3) tx_ledger_inv by (auto simp: ledger_inv_def)
    from r step_seal(1) consider "r_record_id r = rid" | "r \<in> set (db_records (lg_db st))"
      using transition_seals [OF step_seal(6)] by auto
    then show "\<exists>m. manifest_of_column (r_artifact_manifest r) = Inr m \<and>
        bundle_kept (lg_archive st') (r_artifact_hash r) m"
    proof cases
      case 1
      obtain q where q: "q \<in> set (db_records db0)" "r_record_id q = rid" "ar_artifact_hash x = r_artifact_hash q"
        "manifest_of_column (r_artifact_manifest q) = Inr (ar_artifact_manifest x)"
        using get_recordD [OF step_seal(2)] by blast
      have "committed\<^sup>*\<^sup>* db0 (lg_db st')"
        using step_seal(3) ledger_step_db [OF assms(1)] rtranclp.rtrancl_into_rtrancl [of committed]
        unfolding committed_def by blast
      then obtain q' where q': "q' \<in> set (db_records (lg_db st'))" "row_core q' = row_core q"
        using committed_rows [OF _ q(1)] by blast
      then have "q' = r" using same_id_same_row [OF inv' q'(1) r(1)] row_core_fields(1) [OF q'(2)] q(2) 1 by simp
      then have "bundle_kept s1 (r_artifact_hash r) (ar_artifact_manifest x)"
        "manifest_of_column (r_artifact_manifest r) = Inr (ar_artifact_manifest x)"
        using q(3,4) c row_core_fields [OF q'(2)] by simp_all
      then show ?thesis using bundle_kept_extends [OF step_seal(5)] step_seal(1) by simp
    next
      case 2
      then show ?thesis using s r(2) step_seal(1) by (simp add: sealed_complete_def)
    qed
  qed
  with assms(2) archive_bundle_kept [OF step_seal(4)] show ?thesis by blast
qed

lemma reachable_ledger_invariant:
  assumes "ledger_step\<^sup>*\<^sup>* \<lparr>lg_archive = s, lg_db = empty_database v\<rparr> st"
  shows "ledger_verifies None (lg_db st) \<and> one_payload (lg_db st) \<and> sealed_complete st"
proof -
  have "system_inv st"
    using assms
  proof (induction rule: rtranclp_induct)
    case base
    show ?case
      by (simp add: system_inv_def ledger_inv_def empty_database_def keys_ok_def replay_chain_def derived_empty_def
          tables_match_def events_for_def tuples_of_def one_payload_def sealed_complete_def)
  next
    case (step a b)
    then obtain f where t: "tx f (lg_db a) (lg_db b)" using ledger_step_db by blast
    with step show ?case
      using tx_ledger_inv [OF t] tx_one_payload [OF t] ledger_step_sealed by (auto simp: system_inv_def)
  qed
  then show ?thesis using ledger_inv_verifies by (simp add: system_inv_def)
qed

text \<open>
  C1.  Every ledger the program reaches from an empty database - by any interleaving of
  archive operations, transactions and seals of any number of processes - is accepted by
  \<open>verify_ledger\<close>; each delivery in it is bound to one payload; and the archive holds the
  complete bundle of every sealed record - unless what it holds under that record's artifact hash
  is not the canonical manifest but another text with the same SHA-256.
\<close>

theorem reachable_ledger_sound:
  assumes "ledger_step\<^sup>*\<^sup>* \<lparr>lg_archive = s, lg_db = empty_database v\<rparr> st"
  shows "ledger_verifies None (lg_db st) \<and> one_payload (lg_db st) \<and>
    sealed_complete st"
  by (rule reachable_ledger_invariant [OF assms])

end
