(* ===== verification/LedgerWitness.thy ===== *)
theory LedgerWitness
  imports LedgerSafety
begin

text \<open>
  That the store's operations are the steps of \<^theory_text>\<open>LedgerSafety\<close>, what an operation
  returns, and concrete ledgers at which the properties of the ledger apply.
\<close>

section \<open>A concrete record\<close>

definition demo_row :: "string \<Rightarrow> record_row" where
  "demo_row st =
     \<lparr>r_record_id = ''r'', r_run_id = ''run'', r_source_path = None, r_source_id = None,
      r_source_hash = None, r_source_kind = None, r_parser_name = None, r_parser_version = None,
      r_parser_image_digest = None, r_parser_module_sha256 = None, r_parser_config = None,
      r_backend = None, r_artifact_dir = ''d'', r_artifact_manifest = Some (JObj []),
      r_artifact_hash = sha256 [], r_state = st, r_created_at = ''t'', r_finalized_at = None,
      r_error = None, r_legacy_source_hash = None, r_run_conditions = None\<rparr>"

definition demo_body :: json where
  "demo_body =
     JObj [(''run_id'', JStr ''run''), (''artifact_hash'', JStr (sha256 [])), (''source_hash'', JNull),
           (''source_kind'', JNull), (''source_id'', JNull), (''parser'', JNull),
           (''parser_config'', JNull), (''backend'', JNull), (''run_conditions'', JNull)]"

lemma demo_record_body: "record_body (demo_row st) False = Inr demo_body"
  by (simp add: record_body_def demo_row_def demo_body_def loads_column_def parser_obj_def)

lemma utf8_sha256 [simp]: "utf8_ok (sha256 x)"
  using is_digest_sha256 is_digest_utf8 by blast

lemma ascii_literals [simp]:
  "utf8_ok ''r''" "utf8_ok ''run''" "utf8_ok ''t''" "utf8_ok ''d''" "utf8_ok ''pending''" "utf8_ok ''sealed''"
  "utf8_ok ''reason''" "utf8_ok ''x''" "utf8_ok ''record.created''" "utf8_ok ''record.invalidated''"
  by (simp_all add: utf8_ok_ascii)

lemma demo_body_ok: "json_ok demo_body"
  by (simp add: demo_body_def utf8_ok_ascii)

text \<open>On a database with no events, appending an event succeeds.\<close>

lemma first_event:
  assumes "db_events db = []" "json_ok b" "utf8_ok k" "utf8_ok u" "utf8_ok t"
  shows "\<exists>ev db'. append_event k u b t db = (Inr ev, db')"
proof -
  have "append_event k u b t db \<noteq> (Inl SqliteIntegrityError, db)"
    using assms(1) by (auto simp: append_event_def event_hash_def canonical_json_def map_sum_def Let_def
        split: sum.splits if_splits)
  then show ?thesis using append_event_ok [of db b k u t] assms by auto
qed

lemma demo_insert:
  "insert_record (demo_row ''pending'') (empty_database 8) =
     (Inr (), (empty_database 8)\<lparr>db_records := [demo_row ''pending'']\<rparr>)"
  by (simp add: insert_record_def empty_database_def texts_ok_def record_texts_def record_checks_def demo_row_def)

lemma demo_manifest: "column_manifest_hash (Some (JObj [])) = Some (sha256 [])"
  by (simp add: column_manifest_hash_def sha256_manifest_def encode_manifest_def)

lemma demo_created:
  "\<exists>db :: database. tx False (empty_database 8) db \<and> db_records db = [demo_row ''pending'']"
proof -
  let ?db1 = "(empty_database 8)\<lparr>db_records := [demo_row ''pending'']\<rparr>"
  obtain ev db where a: "append_event ''record.created'' ''r'' demo_body ''t'' ?db1 = (Inr ev, db)"
    using first_event [of ?db1 demo_body "''record.created''" "''r''" "''t''"] demo_body_ok
    by (auto simp: empty_database_def)
  have "tx False (empty_database 8) db"
  proof (rule tx_record [OF demo_insert demo_record_body])
    show "append_event ''record.created'' (r_record_id (demo_row ''pending'')) demo_body ''t'' ?db1 = (Inr ev, db)"
      using a by (simp add: demo_row_def)
  qed (simp_all add: demo_row_def column_ok_def json_column_ok_def demo_manifest)
  moreover have "db_records db = [demo_row ''pending'']" using append_event_frame(1) [OF a] by simp
  ultimately show ?thesis by blast
qed

theorem reachable_ledger_sound_witness:
  "\<exists>st :: ledger. db_records (lg_db st) = [demo_row ''pending''] \<and> ledger_verifies None (lg_db st)"
proof -
  obtain db where db: "tx False (empty_database 8) db" "db_records db = [demo_row ''pending'']"
    using demo_created by blast
  let ?st = "\<lparr>lg_archive = (\<lambda>p. None), lg_db = empty_database 8\<rparr>"
  have "ledger_step ?st (?st\<lparr>lg_db := db\<rparr>)" by (rule step_tx) (simp add: db)
  then have "ledger_step\<^sup>*\<^sup>* ?st (?st\<lparr>lg_db := db\<rparr>)" by blast
  from reachable_ledger_sound [OF this] db(2) show ?thesis by (intro exI [of _ "?st\<lparr>lg_db := db\<rparr>"]) simp
qed

theorem verified_record_matches_chain_witness:
  "\<exists>db :: database. db_records db = [demo_row ''pending''] \<and>
     state_set (last (filter (sets_state ''r'') (sort_key ev_seq (db_events db)))) = JStr ''pending''"
proof -
  obtain db where db: "tx False (empty_database 8) db" "db_records db = [demo_row ''pending'']"
    using demo_created by blast
  have "ledger_inv (empty_database 8)"
    by (simp add: ledger_inv_def empty_database_def keys_ok_def replay_chain_def derived_empty_def
        tables_match_def events_for_def tuples_of_def)
  then have v: "ledger_verifies None db" using tx_ledger_inv [OF db(1)] ledger_inv_verifies by blast
  have "distinct (map r_record_id (db_records db))" "demo_row ''pending'' \<in> set (db_records db)"
    using db(2) by simp_all
  from verified_record_matches_chain [OF v this]
  have "state_set (last (filter (sets_state (r_record_id (demo_row ''pending''))) (sort_key ev_seq (db_events db))))
      = JStr (r_state (demo_row ''pending''))" by blast
  then have "state_set (last (filter (sets_state ''r'') (sort_key ev_seq (db_events db)))) = JStr ''pending''"
    by (simp only: demo_row_def record_row.simps)
  with db(2) show ?thesis by blast
qed

section \<open>The operations are steps\<close>

lemma seal_steps:
  assumes "seal fs rid now1 now2 st = (res, st')"
  shows "ledger_step\<^sup>*\<^sup>* st st'"
proof (cases "st' = st")
  case True
  then show ?thesis by simp
next
  case False
  from assms False obtain r where r: "get_record rid (lg_db st) = Inr r"
    by (auto simp: seal_def transitions split: sum.splits)
  let ?dir = "path_of (ar_artifact_dir r)"
  obtain ares s1 where a: "archive_bundle (fs ?dir) ?dir (ar_artifact_manifest r) (ar_artifact_hash r) (lg_archive st) = (ares, s1)"
    by (cases "archive_bundle (fs ?dir) ?dir (ar_artifact_manifest r) (ar_artifact_hash r) (lg_archive st)")
  have s1: "ledger_step st (st\<lparr>lg_archive := s1\<rparr>)" by (rule step_archive [OF archive_bundle_extends [OF a]])
  show ?thesis
  proof (cases ares)
    case (Inl e)
    then have "st' = st\<lparr>lg_archive := s1\<rparr>" using assms False r a by (auto simp: seal_def transitions Let_def split: if_splits)
    then show ?thesis using s1 by blast
  next
    case (Inr u)
    obtain tr db' where t: "transition rid [PENDING] (set_sealed now1) [Some now1] ''record.sealed''
        (JObj [(''artifact_hash'', JStr (ar_artifact_hash r))]) now2 (lg_db st) = (tr, db')"
      by (cases "transition rid [PENDING] (set_sealed now1) [Some now1] ''record.sealed''
        (JObj [(''artifact_hash'', JStr (ar_artifact_hash r))]) now2 (lg_db st)")
    have st': "st' = \<lparr>lg_archive = s1, lg_db = db'\<rparr>"
      using assms False r a t Inr by (auto simp: seal_def transitions Let_def split: if_splits sum.splits)
    have "ledger_step (st\<lparr>lg_archive := s1\<rparr>) (st\<lparr>lg_archive := s1\<rparr>\<lparr>lg_db := db'\<rparr>)"
      using step_seal [of rid "lg_db st" r "st\<lparr>lg_archive := s1\<rparr>" "fs ?dir" ?dir "lg_archive st" u s1 now1 now2 tr db']
        r a t Inr by simp
    moreover have "st\<lparr>lg_archive := s1\<rparr>\<lparr>lg_db := db'\<rparr> = st'" by (simp add: st')
    ultimately show ?thesis using s1 by (simp add: converse_rtranclp_into_rtranclp)
  qed
qed

lemma both_steps:
  assumes "tx False (lg_db st) (lg_db st')" "extends (lg_archive st) (lg_archive st')"
  shows "ledger_step\<^sup>*\<^sup>* st st'"
proof -
  have "ledger_step st (st\<lparr>lg_archive := lg_archive st'\<rparr>)" by (rule step_archive [OF assms(2)])
  moreover have "ledger_step (st\<lparr>lg_archive := lg_archive st'\<rparr>) (st\<lparr>lg_archive := lg_archive st'\<rparr>\<lparr>lg_db := lg_db st'\<rparr>)"
    by (rule step_tx) (simp add: assms(1))
  moreover have "st\<lparr>lg_archive := lg_archive st'\<rparr>\<lparr>lg_db := lg_db st'\<rparr> = st'" by simp
  ultimately show ?thesis by (metis converse_rtranclp_into_rtranclp r_into_rtranclp)
qed

lemma operation_steps:
  assumes "input_ok i" "json_rep policy"
  shows "ledger_step\<^sup>*\<^sup>* st (snd (create_pending fs i rid t1 t2 st))"
    "ledger_step\<^sup>*\<^sup>* st (snd (seal fs rid t1 t2 st))"
    "ledger_step\<^sup>*\<^sup>* st (st\<lparr>lg_db := snd (fail_record rid msg t1 t2 (lg_db st))\<rparr>)"
    "ledger_step\<^sup>*\<^sup>* st (st\<lparr>lg_db := snd (invalidate rid msg t1 t2 (lg_db st))\<rparr>)"
    "ledger_step\<^sup>*\<^sup>* st (st\<lparr>lg_db := snd (open_delivery rid tgt uuid t1 t2 (lg_db st))\<rparr>)"
    "ledger_step\<^sup>*\<^sup>* st (st\<lparr>lg_db := snd (log_append e t1 (lg_db st))\<rparr>)"
    "ledger_step\<^sup>*\<^sup>* st (st\<lparr>lg_db := snd (append_intent did cs att t1 t2 (lg_db st))\<rparr>)"
    "ledger_step\<^sup>*\<^sup>* st (st\<lparr>lg_db := snd (log_replay p policy t1 (lg_db st))\<rparr>)"
proof -
  have one: "ledger_step\<^sup>*\<^sup>* st (st\<lparr>lg_db := db'\<rparr>)" if "tx False (lg_db st) db'" for db'
    using step_tx [OF that] by blast
  show "ledger_step\<^sup>*\<^sup>* st (snd (create_pending fs i rid t1 t2 st))"
    using create_pending_tx [OF surjective_pairing assms(1)] both_steps by blast
  show "ledger_step\<^sup>*\<^sup>* st (snd (seal fs rid t1 t2 st))" by (rule seal_steps [OF surjective_pairing])
  show "ledger_step\<^sup>*\<^sup>* st (st\<lparr>lg_db := snd (fail_record rid msg t1 t2 (lg_db st))\<rparr>)"
    "ledger_step\<^sup>*\<^sup>* st (st\<lparr>lg_db := snd (invalidate rid msg t1 t2 (lg_db st))\<rparr>)"
    by (rule one, rule transition_ops_tx [OF surjective_pairing])+
  show "ledger_step\<^sup>*\<^sup>* st (st\<lparr>lg_db := snd (open_delivery rid tgt uuid t1 t2 (lg_db st))\<rparr>)"
    by (rule one [OF open_delivery_tx [OF surjective_pairing]])
  show "ledger_step\<^sup>*\<^sup>* st (st\<lparr>lg_db := snd (log_append e t1 (lg_db st))\<rparr>)"
    by (rule one [OF log_append_tx [OF surjective_pairing]])
  show "ledger_step\<^sup>*\<^sup>* st (st\<lparr>lg_db := snd (append_intent did cs att t1 t2 (lg_db st))\<rparr>)"
    by (rule one [OF append_intent_tx [OF surjective_pairing]])
  show "ledger_step\<^sup>*\<^sup>* st (st\<lparr>lg_db := snd (log_replay p policy t1 (lg_db st))\<rparr>)"
    by (rule one [OF log_replay_tx [OF surjective_pairing assms(2)]])
qed

text \<open>
  C2.  The model's operations refine the transition system: creating a pending record (from
  a config and conditions that are Python values), sealing, failing, invalidating, opening
  a delivery, appending any event or an intent, and logging a replay each take a ledger to
  one the system reaches, whether they succeed or raise.
\<close>

theorem operations_are_steps:
  assumes "input_ok i" "json_rep policy"
  shows "ledger_step\<^sup>*\<^sup>* st (snd (create_pending fs i rid t1 t2 st)) \<and>
    ledger_step\<^sup>*\<^sup>* st (snd (seal fs rid t1 t2 st)) \<and>
    ledger_step\<^sup>*\<^sup>* st (st\<lparr>lg_db := snd (fail_record rid msg t1 t2 (lg_db st))\<rparr>) \<and>
    ledger_step\<^sup>*\<^sup>* st (st\<lparr>lg_db := snd (invalidate rid msg t1 t2 (lg_db st))\<rparr>) \<and>
    ledger_step\<^sup>*\<^sup>* st (st\<lparr>lg_db := snd (open_delivery rid tgt uuid t1 t2 (lg_db st))\<rparr>) \<and>
    ledger_step\<^sup>*\<^sup>* st (st\<lparr>lg_db := snd (log_append e t1 (lg_db st))\<rparr>) \<and>
    ledger_step\<^sup>*\<^sup>* st (st\<lparr>lg_db := snd (append_intent did cs att t1 t2 (lg_db st))\<rparr>) \<and>
    ledger_step\<^sup>*\<^sup>* st (st\<lparr>lg_db := snd (log_replay p policy t1 (lg_db st))\<rparr>)"
  by (intro conjI operation_steps [OF assms])

theorem operations_are_steps_witness:
  "ledger_step\<^sup>*\<^sup>* \<lparr>lg_archive = (\<lambda>p. None), lg_db = empty_database 8\<rparr>
     \<lparr>lg_archive = (\<lambda>p. None), lg_db = snd (invalidate ''r'' ''why'' ''t'' ''t'' (empty_database 8))\<rparr>"
proof -
  let ?i = "\<lparr>in_run_id = ''run'', in_artifact_dir = path_of ''d'', in_artifact_paths = [path_of ''d/x''],
     in_parser = \<lparr>pi_name = ''p'', pi_version = ''1'', pi_image_digest = None, pi_module_sha256 = None\<rparr>,
     in_parser_config = VDict [(''lang'', VStr ''en'')], in_input_snapshot = None, in_source = None,
     in_backend = None, in_run_conditions = None\<rparr>"
  have "input_ok ?i" "json_rep JNull" by (simp_all add: input_ok_def)
  from operations_are_steps [OF this, where st = "\<lparr>lg_archive = (\<lambda>p. None), lg_db = empty_database 8\<rparr>"]
  show ?thesis by simp
qed

section \<open>The life of a record\<close>

text \<open>
  What processes do to a ledger: each operation of the store and of the delivery and replay
  logs, whether it succeeds or raises; storing in the archive; and the transaction of a seal,
  a failure or an invalidation whose process read the record earlier, when anything may have
  happened to it since.
\<close>

inductive store_op :: "ledger \<Rightarrow> ledger \<Rightarrow> bool" where
  op_archive: "extends (lg_archive st) s \<Longrightarrow> store_op st (st\<lparr>lg_archive := s\<rparr>)"
| op_create: "input_ok i \<Longrightarrow> store_op st (snd (create_pending fs i rid t1 t2 st))"
| op_seal: "store_op st (snd (seal fs rid t1 t2 st))"
| op_fail: "store_op st (st\<lparr>lg_db := snd (fail_record rid msg t1 t2 (lg_db st))\<rparr>)"
| op_invalidate: "store_op st (st\<lparr>lg_db := snd (invalidate rid msg t1 t2 (lg_db st))\<rparr>)"
| op_open: "store_op st (st\<lparr>lg_db := snd (open_delivery rid tgt uuid t1 t2 (lg_db st))\<rparr>)"
| op_log: "store_op st (st\<lparr>lg_db := snd (log_append e t1 (lg_db st))\<rparr>)"
| op_intent: "store_op st (st\<lparr>lg_db := snd (append_intent did cs att t1 t2 (lg_db st))\<rparr>)"
| op_seal_late: "store_op st (st\<lparr>lg_db := snd (seal_transition a rid t1 t2 (lg_db st))\<rparr>)"
| op_fail_late: "store_op st (st\<lparr>lg_db := snd (fail_transition rid msg t1 t2 (lg_db st))\<rparr>)"
| op_invalidate_late: "store_op st (st\<lparr>lg_db := snd (invalidate_transition rid msg t1 t2 (lg_db st))\<rparr>)"
| op_replay: "json_rep policy \<Longrightarrow> store_op st (st\<lparr>lg_db := snd (log_replay p policy t1 (lg_db st))\<rparr>)"

lemma ledger_steps_committed: "ledger_step\<^sup>*\<^sup>* st st' \<Longrightarrow> committed\<^sup>*\<^sup>* (lg_db st) (lg_db st')"
proof (induction rule: rtranclp_induct)
  case (step a b)
  then have "committed (lg_db a) (lg_db b)" using ledger_step_db unfolding committed_def by blast
  then show ?case using step.IH by (rule rtranclp.rtrancl_into_rtrancl [rotated])
qed simp

lemma tx_commits: "\<exists>b. tx b db db' \<Longrightarrow> committed\<^sup>*\<^sup>* db db'"
  unfolding committed_def by blast

lemma late_committed:
  "\<exists>b. tx b db (snd (seal_transition a rid t1 t2 db))"
  "\<exists>b. tx b db (snd (fail_transition rid msg t1 t2 db))"
  "\<exists>b. tx b db (snd (invalidate_transition rid msg t1 t2 db))"
proof -
  have moves: "moves ''record.sealed'' = Some (''sealed'', [PENDING])"
    "moves ''record.failed'' = Some (''failed'', [PENDING, FAILED])"
    "moves ''record.invalidated'' = Some (''invalidated'', [PENDING, SEALED])"
    by (simp_all add: moves_def)
  show "\<exists>b. tx b db (snd (seal_transition a rid t1 t2 db))"
    unfolding transitions by (rule exI, rule transition_tx [OF surjective_pairing moves(1)]) simp_all
  show "\<exists>b. tx b db (snd (fail_transition rid msg t1 t2 db))"
    unfolding transitions by (rule exI, rule transition_tx [OF surjective_pairing moves(2)]) simp_all
  show "\<exists>b. tx b db (snd (invalidate_transition rid msg t1 t2 db))"
    unfolding transitions by (rule exI, rule transition_tx [OF surjective_pairing moves(3)]) simp_all
qed

lemma store_op_committed: "store_op st st' \<Longrightarrow> committed\<^sup>*\<^sup>* (lg_db st) (lg_db st')"
proof (induction rule: store_op.induct)
  case (op_create i st fs rid t1 t2)
  then show ?case using operation_steps(1) [of i JNull] by (intro ledger_steps_committed) simp
next
  case (op_seal st fs rid t1 t2)
  show ?case by (rule ledger_steps_committed [OF seal_steps [OF surjective_pairing]])
next
  case (op_seal_late st a rid t1 t2)
  then show ?case by (simp add: tx_commits [OF late_committed(1)])
next
  case (op_fail_late st rid msg t1 t2)
  then show ?case by (simp add: tx_commits [OF late_committed(2)])
next
  case (op_invalidate_late st rid msg t1 t2)
  then show ?case by (simp add: tx_commits [OF late_committed(3)])
qed (auto intro!: tx_commits exI transition_ops_tx [OF surjective_pairing] open_delivery_tx [OF surjective_pairing]
  log_append_tx [OF surjective_pairing] append_intent_tx [OF surjective_pairing] log_replay_tx [OF surjective_pairing])

lemma store_ops_evolve:
  assumes "store_op\<^sup>*\<^sup>* st st'"
  shows "records_evolve (db_records (lg_db st)) (db_records (lg_db st'))"
proof -
  from assms have "committed\<^sup>*\<^sup>* (lg_db st) (lg_db st')"
    by (induction rule: rtranclp_induct) (auto intro: rtranclp_trans dest: store_op_committed)
  then show ?thesis by (rule txs_records_evolve)
qed

text \<open>
  C24.  The life of a record, over any sequence of the program's operations, whatever record
  each of them names, whether it succeeds or raises, and however its check of the record and its
  transaction are interleaved with other operations: no record disappears, everything but
  its state, its time of finalization and its error stays as it was created, and its state
  stays, or moves from pending to sealed, failed or invalidated, or from sealed to
  invalidated; failed and invalidated are final.
\<close>

theorem record_lifecycle:
  assumes "store_op\<^sup>*\<^sup>* st st'" "r \<in> set (db_records (lg_db st))"
  shows "\<exists>r' \<in> set (db_records (lg_db st')).
    r'\<lparr>r_state := r_state r, r_finalized_at := r_finalized_at r, r_error := r_error r\<rparr> = r \<and>
    (r_state r' = r_state r \<or>
     r_state r = ''pending'' \<and> r_state r' \<in> {''sealed'', ''failed'', ''invalidated''} \<or>
     r_state r = ''sealed'' \<and> r_state r' = ''invalidated'')"
proof -
  obtain n where n: "n < length (db_records (lg_db st))" "r = db_records (lg_db st) ! n"
    using assms(2) by (auto simp: in_set_conv_nth)
  let ?r = "db_records (lg_db st') ! n"
  from store_ops_evolve [OF assms(1)] n have "?r \<in> set (db_records (lg_db st'))" and ev: "row_evolves r ?r"
    by (auto simp: records_evolve_def)
  moreover have "?r\<lparr>r_state := r_state r, r_finalized_at := r_finalized_at r, r_error := r_error r\<rparr> = r"
    using ev by (cases r; cases ?r) (simp add: row_evolves_def row_core_def)
  ultimately show ?thesis by (intro bexI [of _ ?r]) (auto simp: row_evolves_def state_move_def)
qed

text \<open>A sealed record is invalidated, and stays invalidated when sealed again.\<close>

lemma demo_sealed_record: "\<exists>a. get_record ''r'' ((empty_database 8)\<lparr>db_records := [demo_row ''sealed'']\<rparr>) = Inr a \<and> ar_state a = SEALED"
  by (simp add: get_record_def find_row_def demo_row_def row_to_record_def row_parser_def row_kind_def row_config_def
      row_conditions_def manifest_of_column_def state_of_value_def)

lemma demo_invalidated:
  "db_records (snd (invalidate ''r'' ''x'' ''t'' ''t'' ((empty_database 8)\<lparr>db_records := [demo_row ''sealed'']\<rparr>))) =
     [set_invalidated ''t'' ''INVALIDATED: x'' (demo_row ''sealed'')]"
proof -
  let ?db = "(empty_database 8)\<lparr>db_records := [demo_row ''sealed'']\<rparr>"
  let ?db1 = "update_where ''r'' [PENDING, SEALED] (set_invalidated ''t'' ''INVALIDATED: x'') ?db"
  obtain a where a: "get_record ''r'' ?db = Inr a" "ar_state a = SEALED" using demo_sealed_record by blast
  have ok: "json_ok (JObj [(''reason'', JStr ''x'')])" by simp
  obtain ev db where e: "append_event ''record.invalidated'' ''r'' (JObj [(''reason'', JStr ''x'')]) ''t'' ?db1 = (Inr ev, db)"
    using first_event [OF _ ok, of ?db1 "''record.invalidated''" "''r''" "''t''"]
    by (auto simp: update_where_def empty_database_def)
  have "db_records db = [set_invalidated ''t'' ''INVALIDATED: x'' (demo_row ''sealed'')]"
    using append_event_frame(1) [OF e] by (simp add: update_where_def demo_row_def)
  moreover have "transition ''r'' [PENDING, SEALED] (set_invalidated ''t'' (''INVALIDATED: '' @ ''x''))
      [Some ''t'', Some (''INVALIDATED: '' @ ''x'')] ''record.invalidated'' (JObj [(''reason'', JStr ''x'')]) ''t'' ?db = (Inr (), db)"
    using e by (simp add: transition_def write_transaction_def texts_ok_def demo_row_def utf8_ok_ascii)
  ultimately show ?thesis using a by (simp add: invalidate_def transitions)
qed

theorem record_lifecycle_witness:
  "\<exists>st' r'. store_op\<^sup>*\<^sup>* \<lparr>lg_archive = (\<lambda>p. None), lg_db = (empty_database 8)\<lparr>db_records := [demo_row ''sealed'']\<rparr>\<rparr> st' \<and>
     r' \<in> set (db_records (lg_db st')) \<and> r_state r' = ''invalidated'' \<and> r_artifact_hash r' = sha256 []"
proof -
  let ?st = "\<lparr>lg_archive = (\<lambda>p. None), lg_db = (empty_database 8)\<lparr>db_records := [demo_row ''sealed'']\<rparr>\<rparr> :: ledger"
  let ?st1 = "?st\<lparr>lg_db := snd (invalidate ''r'' ''x'' ''t'' ''t'' (lg_db ?st))\<rparr>"
  have op: "store_op\<^sup>*\<^sup>* ?st ?st1" by (rule r_into_rtranclp) (rule op_invalidate)
  have recs: "db_records (lg_db ?st1) = [set_invalidated ''t'' ''INVALIDATED: x'' (demo_row ''sealed'')]"
    using demo_invalidated by simp
  have "demo_row ''sealed'' \<in> set (db_records (lg_db ?st))" by simp
  from record_lifecycle [OF op this] obtain r' where r': "r' \<in> set (db_records (lg_db ?st1))"
    "r'\<lparr>r_state := ''sealed'', r_finalized_at := None, r_error := None\<rparr> = demo_row ''sealed''"
    by (auto simp: demo_row_def)
  have "r_artifact_hash (r'\<lparr>r_state := ''sealed'', r_finalized_at := None, r_error := None\<rparr>) = sha256 []"
    unfolding r'(2) by (simp add: demo_row_def)
  moreover have "r_state r' = ''invalidated''" using r'(1) unfolding recs by (simp add: set_invalidated_def)
  ultimately show ?thesis using op r'(1) by (intro exI [of _ ?st1] exI [of _ r']) simp
qed

end
