(* ===== verification/DeliverySafety.thy ===== *)
theory DeliverySafety
  imports LedgerWitness
begin

text \<open>
  What the delivery log guarantees.  First, a delivery is bound to one payload: chunk lists
  accepted for it, at any two times, are the same list.  Second, what
  \<open>possibly_written\<close> says of the target: writers, removers and crashes are a transition
  system around the log, in which a target holds the data of attempts.
\<close>

section \<open>One payload\<close>

lemma sort_key_snoc:
  assumes "\<forall>y \<in> set xs. f y \<le> f x"
  shows "sort_key f (xs @ [x]) = sort_key f xs @ [x]"
proof (rule properties_for_sort_key)
  show "mset (sort_key f xs @ [x]) = mset (xs @ [x])" by simp
  show "sorted (map f (sort_key f xs @ [x]))" using assms by (simp add: sorted_append)
  show "filter (\<lambda>y. f k = f y) (sort_key f xs @ [x]) = filter (\<lambda>y. f k = f y) (xs @ [x])" for k
    using sort_key_stable [of f "f k" xs] by (simp add: eq_commute)
qed

text \<open>Deliveries only gain events, at the end.\<close>

lemma tx_delivery_events:
  assumes "tx b db db'"
  shows "\<exists>es. delivery_events_of i db' = delivery_events_of i db @ es"
proof -
  have "db_delivery_events db' = db_delivery_events db \<or> (\<exists>e. db_delivery_events db' =
      db_delivery_events db @ [e\<lparr>e_event_id := next_event_id (db_delivery_events db)\<rparr>])"
    using tx_events [OF assms] by blast
  then show ?thesis
  proof
    assume "\<exists>e. db_delivery_events db' =
      db_delivery_events db @ [e\<lparr>e_event_id := next_event_id (db_delivery_events db)\<rparr>]"
    then obtain e where e: "db_delivery_events db' =
      db_delivery_events db @ [e\<lparr>e_event_id := next_event_id (db_delivery_events db)\<rparr>]" by blast
    show ?thesis
      unfolding delivery_events_of_def e sort_key_snoc [OF next_event_id_mono] by simp
  qed (simp add: delivery_events_of_def)
qed

lemma committed_delivery_events:
  "committed\<^sup>*\<^sup>* db db' \<Longrightarrow> \<exists>es. delivery_events_of i db' = delivery_events_of i db @ es"
proof (induction rule: rtranclp_induct)
  case (step a b)
  then obtain es where "delivery_events_of i a = delivery_events_of i db @ es" by blast
  moreover obtain f where "tx f a b" using step by (auto simp: committed_def)
  then obtain fs where "delivery_events_of i b = delivery_events_of i a @ fs"
    using tx_delivery_events by blast
  ultimately show ?case by simp
qed simp

lemma append_intentD:
  assumes "append_intent did cs att t1 t2 db = (Inr x, db')"
  obtains d where "intent_digest did cs db = Inr d"
    "delivery_events_of did db' = delivery_events_of did db
      @ [(intent_row did (length cs) d t1 att)\<lparr>e_event_id := next_event_id (db_delivery_events db)\<rparr>]"
proof -
  from assms obtain d where d: "intent_digest did cs db = Inr d"
    and ins: "insert_event (intent_row did (length cs) d t1 att) t2 db = (Inr (), db')"
    by (auto simp: append_intent_def write_transaction_Inr split: sum.splits prod.splits)
  let ?e = "(intent_row did (length cs) d t1 att)\<lparr>e_event_id := next_event_id (db_delivery_events db)\<rparr>"
  from ins obtain db1 ev where "insert_delivery_event (intent_row did (length cs) d t1 att) db = (Inr (), db1)"
    and a: "append_event ''delivery.event'' did (delivery_event_body (intent_row did (length cs) d t1 att)) t2 db1 = (Inr ev, db')"
    by (auto simp: insert_event_def intent_row_def split: sum.splits prod.splits)
  then have "db_delivery_events db' = db_delivery_events db @ [?e]"
    using append_event_frame(3) [OF a] by (auto simp: insert_delivery_event_def split: if_splits)
  then have "delivery_events_of did db' = delivery_events_of did db @ [?e]"
    unfolding delivery_events_of_def
    using sort_key_snoc [OF next_event_id_mono, of "db_delivery_events db" "intent_row did (length cs) d t1 att"]
    by (simp add: intent_row_def)
  with d that show ?thesis by blast
qed

text \<open>What a payload digest is of.  Equal digests mean equal chunks, or two payloads that collide.\<close>

definition payload_text :: "chunk list \<Rightarrow> string option" where
  "payload_text cs = map_option (\<lambda>bs. cjson (JObj [(''chunks'', JArr bs)])) (chunk_bodies cs)"

definition payload_collision :: "chunk list \<Rightarrow> chunk list \<Rightarrow> bool" where
  "payload_collision cs cs' \<longleftrightarrow> (\<exists>t t'. payload_text cs = Some t \<and> payload_text cs' = Some t' \<and> collision t t')"

lemma chunks_digest_inj:
  assumes "chunks_digest cs = Inr d" "chunks_digest cs' = Inr d"
    and "\<forall>c \<in> set (cs @ cs'). \<forall>j. chunk_body c = Some j \<longrightarrow> json_rep j"
  shows "(\<exists>bs bs'. chunk_bodies cs = Some bs \<and> chunk_bodies cs' = Some bs' \<and> map jsort bs = map jsort bs') \<or>
    payload_collision cs cs'"
proof -
  from assms(1,2) obtain bs bs' t t' where b: "chunk_bodies cs = Some bs" "chunk_bodies cs' = Some bs'"
    and t: "canonical_json (JObj [(''chunks'', JArr bs)]) = Inr t" "canonical_json (JObj [(''chunks'', JArr bs')]) = Inr t'"
    and eq: "sha256 t = sha256 t'"
    by (auto simp: chunks_digest_def map_sum_Inr_iff split: option.splits)
  have rep: "list_all json_rep bs" "list_all json_rep bs'"
    using b assms(3) by (fastforce simp: chunk_bodies_def list_all_iff split: if_splits)+
  have ok: "json_ok (JObj [(''chunks'', JArr bs)])" "json_ok (JObj [(''chunks'', JArr bs')])"
    using canonical_json_rep_ok [OF _ t(1)] canonical_json_rep_ok [OF _ t(2)] rep by simp_all
  show ?thesis
  proof (cases "t = t'")
    case True
    then have "cjson (JObj [(''chunks'', JArr bs)]) = cjson (JObj [(''chunks'', JArr bs')])"
      using t ok by (simp add: canonical_json_ok)
    then have "jsort (JObj [(''chunks'', JArr bs)]) = jsort (JObj [(''chunks'', JArr bs')])"
      using ok cjson_eqD by blast
    then have "map jsort bs = map jsort bs'" by simp
    with b show ?thesis by blast
  next
    case False
    then have "collision t t'" using eq sha256_eqD by blast
    moreover have "payload_text cs = Some t" "payload_text cs' = Some t'"
      using b t ok by (simp_all add: payload_text_def canonical_json_ok)
    ultimately show ?thesis unfolding payload_collision_def by blast
  qed
qed

lemma chunk_body_ids:
  assumes "chunk_body c = Some j" "chunk_body c' = Some j'" "jsort j = jsort j'"
  shows "ch_id c = ch_id c' \<and> ch_content_hash c = ch_content_hash c'"
proof -
  from assms(1,2) obtain t m t' m' where
    j: "j = JObj [(''chunk_id'', JStr (ch_id c)), (''content_hash'', JStr (ch_content_hash c)), (''token_count'', t), (''metadata'', m)]"
    and j': "j' = JObj [(''chunk_id'', JStr (ch_id c')), (''content_hash'', JStr (ch_content_hash c')), (''token_count'', t'), (''metadata'', m')]"
    by (auto simp: chunk_body_def split: option.splits)
  have e: "jsort (jget [(''chunk_id'', JStr (ch_id c)), (''content_hash'', JStr (ch_content_hash c)), (''token_count'', t), (''metadata'', m)] k)
      = jsort (jget [(''chunk_id'', JStr (ch_id c')), (''content_hash'', JStr (ch_content_hash c')), (''token_count'', t'), (''metadata'', m')] k)" for k
    using assms(3) unfolding j j' by (intro map_of_eq_of_jsort) simp_all
  from e [of "''chunk_id''"] e [of "''content_hash''"] show ?thesis by (simp add: jget_simps)
qed

text \<open>
  C6.  A delivery has one payload.  If a delivery's first intent was accepted for the chunks
  \<open>cs\<close> and, after any further transactions, another intent of the same delivery is accepted
  for \<open>cs'\<close>, then \<open>cs'\<close> has as many chunks, with the same ids, content hashes, token counts
  and metadata in the same order - or the canonical texts of the two payloads are different and
  have the same SHA-256.
\<close>

theorem delivery_has_one_payload:
  assumes "append_intent did cs a t1 t2 db = (Inr x, db1)" "committed\<^sup>*\<^sup>* db1 db2"
    and "append_intent did cs' b t3 t4 db2 = (Inr y, db3)"
    and "\<forall>e \<in> set (delivery_events_of did db). e_event e \<noteq> ''intent''"
    and "\<forall>c \<in> set (cs @ cs'). \<forall>j. chunk_body c = Some j \<longrightarrow> json_rep j"
  shows "length cs' = length cs \<and>
    ((map ch_id cs' = map ch_id cs \<and> map ch_content_hash cs' = map ch_content_hash cs \<and>
      map (\<lambda>c. jsort (the (chunk_body c))) cs' = map (\<lambda>c. jsort (the (chunk_body c))) cs) \<or>
     payload_collision cs cs')"
proof -
  obtain d where d: "intent_digest did cs db = Inr d" and ev1: "delivery_events_of did db1 = delivery_events_of did db
      @ [(intent_row did (length cs) d t1 a)\<lparr>e_event_id := next_event_id (db_delivery_events db)\<rparr>]"
    using append_intentD [OF assms(1)] by blast
  have none: "filter (\<lambda>e. e_event e = ''intent'') (delivery_events_of did db) = []"
    using assms(4) by (simp add: filter_empty_conv)
  then have d1: "chunks_digest cs = Inr d" using d by (simp add: intent_digest_def)
  obtain es where ev2: "delivery_events_of did db2 = delivery_events_of did db1 @ es"
    using committed_delivery_events [OF assms(2)] by blast
  obtain d' where d': "intent_digest did cs' db2 = Inr d'" using append_intentD [OF assms(3)] by blast
  have fst: "\<exists>rest. filter (\<lambda>e. e_event e = ''intent'') (delivery_events_of did db2) =
      (intent_row did (length cs) d t1 a)\<lparr>e_event_id := next_event_id (db_delivery_events db)\<rparr> # rest"
    unfolding ev2 ev1 using none by (simp add: intent_row_def)
  then have len: "length cs' = length cs" and pm: "payload_matches (Some d) cs' = Inr True"
    using d' by (auto simp: intent_digest_def intent_row_def split: if_splits sum.splits bool.splits)
  have pre: "starts_with DIGEST_PREFIX d"
    using d1 by (auto simp: chunks_digest_def map_sum_Inr_iff starts_with_def split: option.splits)
  then have "chunks_digest cs' = Inr d" using pm by (auto simp: payload_matches_def map_sum_Inr_iff)
  from chunks_digest_inj [OF d1 this assms(5)] show ?thesis
  proof
    assume "\<exists>bs bs'. chunk_bodies cs = Some bs \<and> chunk_bodies cs' = Some bs' \<and> map jsort bs = map jsort bs'"
    then have all: "\<forall>c \<in> set (cs @ cs'). chunk_body c \<noteq> None"
      and eq: "map (\<lambda>c. jsort (the (chunk_body c))) cs' = map (\<lambda>c. jsort (the (chunk_body c))) cs"
      by (auto simp: chunk_bodies_def comp_def split: if_splits)
    have "ch_id (cs' ! i) = ch_id (cs ! i) \<and> ch_content_hash (cs' ! i) = ch_content_hash (cs ! i)"
      if i: "i < length cs" for i
    proof -
      have "jsort (the (chunk_body (cs' ! i))) = jsort (the (chunk_body (cs ! i)))"
        using arg_cong [OF eq, of "\<lambda>l. l ! i"] i len by simp
      moreover have "chunk_body (cs' ! i) \<noteq> None" "chunk_body (cs ! i) \<noteq> None" using all i len by simp_all
      ultimately show ?thesis
        using chunk_body_ids [of "cs' ! i" "the (chunk_body (cs' ! i))" "cs ! i" "the (chunk_body (cs ! i))"] by simp
    qed
    then have "map ch_id cs' = map ch_id cs" "map ch_content_hash cs' = map ch_content_hash cs"
      using len by (auto intro!: nth_equalityI)
    with len eq show ?thesis by blast
  qed (use len in blast)
qed

section \<open>What the target may hold\<close>

text \<open>
  The log, the attempts whose writer may still be writing, the attempts whose data the
  target holds, and how many removals have returned without their receipt.
\<close>

record target_state =
  ts_log :: "delivery_event_row list"
  ts_active :: "string set"
  ts_holds :: "string set"
  ts_owed :: nat

definition attempt_ids :: "delivery_event_row list \<Rightarrow> string set" where
  "attempt_ids es = {a. \<exists>e \<in> set es. e_attempt_id e = Some a}"

definition outcome_of :: "string \<Rightarrow> delivery_event_row \<Rightarrow> bool" where
  "outcome_of a e \<longleftrightarrow> e_attempt_id e = Some a \<and> (e_event e = ''receipt'' \<or> e_event e = ''failure'')"

text \<open>
  An attempt logs its intent, under an id of its own, before its writer runs; the writer
  may write while it runs; then the attempt logs its outcome, a failure with \<open>done = 0\<close>
  only if the writer wrote nothing, or crashes.  A removal takes out what the target holds
  when it runs, and its receipt is logged later, or it crashes.
\<close>

inductive target_step :: "target_state \<Rightarrow> target_state \<Rightarrow> bool" where
  ts_intent: "e_event e = ''intent'' \<Longrightarrow> e_attempt_id e = Some a \<Longrightarrow> a \<notin> attempt_ids (ts_log s) \<Longrightarrow>
    target_step s (s\<lparr>ts_log := ts_log s @ [e], ts_active := insert a (ts_active s)\<rparr>)"
| ts_write: "a \<in> ts_active s \<Longrightarrow> target_step s (s\<lparr>ts_holds := insert a (ts_holds s)\<rparr>)"
| ts_receipt: "a \<in> ts_active s \<Longrightarrow> e_event e = ''receipt'' \<Longrightarrow> e_attempt_id e = Some a \<Longrightarrow>
    target_step s (s\<lparr>ts_log := ts_log s @ [e], ts_active := ts_active s - {a}\<rparr>)"
| ts_failure: "a \<in> ts_active s \<Longrightarrow> e_event e = ''failure'' \<Longrightarrow> e_attempt_id e = Some a \<Longrightarrow>
    (e_done e = Some 0 \<Longrightarrow> a \<notin> ts_holds s) \<Longrightarrow>
    target_step s (s\<lparr>ts_log := ts_log s @ [e], ts_active := ts_active s - {a}\<rparr>)"
| ts_unwritten: "e_event e = ''failure'' \<Longrightarrow> e_done e = Some 0 \<Longrightarrow> e_attempt_id e = Some a \<Longrightarrow>
    a \<notin> attempt_ids (ts_log s) \<Longrightarrow> target_step s (s\<lparr>ts_log := ts_log s @ [e]\<rparr>)"
| ts_crash: "target_step s (s\<lparr>ts_active := ts_active s - {a}\<rparr>)"
| ts_note: "e_event e = ''removal_intent'' \<or> e_event e = ''removal_failure'' \<Longrightarrow> e_attempt_id e = None \<Longrightarrow>
    target_step s (s\<lparr>ts_log := ts_log s @ [e]\<rparr>)"
| ts_remove: "target_step s (s\<lparr>ts_holds := {}, ts_owed := Suc (ts_owed s)\<rparr>)"
| ts_removed: "ts_owed s = Suc n \<Longrightarrow> e_event e = ''removal_receipt'' \<Longrightarrow> e_attempt_id e = None \<Longrightarrow>
    target_step s (s\<lparr>ts_log := ts_log s @ [e], ts_owed := n\<rparr>)"

text \<open>
  The proviso: when a removal's receipt is logged, no attempt whose data the target holds
  has logged its outcome, so no write concluded between the removal and its receipt.
\<close>

definition orderly :: "target_state \<Rightarrow> target_state \<Rightarrow> bool" where
  "orderly s s' \<longleftrightarrow> target_step s s' \<and>
     (ts_owed s' < ts_owed s \<longrightarrow> (\<forall>a \<in> ts_holds s. \<forall>e \<in> set (ts_log s). \<not> outcome_of a e))"

definition idle_target :: target_state where
  "idle_target = \<lparr>ts_log = [], ts_active = {}, ts_holds = {}, ts_owed = 0\<rparr>"

lemma scan_events_snoc: "scan_events (es @ [e]) = scan_event e (scan_events es)"
  by (simp add: scan_events_def)

definition target_inv :: "target_state \<Rightarrow> bool" where
  "target_inv s \<longleftrightarrow>
     (\<forall>a \<in> ts_active s. a \<in> set (ws_outstanding (scan_events (ts_log s)))) \<and>
     (\<forall>a \<in> ts_holds s. a \<in> set (ws_outstanding (scan_events (ts_log s))) \<or> ws_written (scan_events (ts_log s))) \<and>
     (\<forall>a \<in> ts_active s \<union> ts_holds s. a \<in> attempt_ids (ts_log s)) \<and>
     (\<forall>a \<in> ts_holds s. a \<in> set (ws_outstanding (scan_events (ts_log s))) \<or> (\<exists>e \<in> set (ts_log s). outcome_of a e))"

lemma attempt_ids_snoc:
  "attempt_ids (es @ [e]) = attempt_ids es \<union> (case e_attempt_id e of None \<Rightarrow> {} | Some a \<Rightarrow> {a})"
  by (auto simp: attempt_ids_def split: option.splits)

lemma orderly_inv:
  assumes "orderly s s'" "target_inv s"
  shows "target_inv s'"
proof -
  have step: "target_step s s'" using assms(1) by (simp add: orderly_def)
  show ?thesis
    using step
  proof (cases rule: target_step.cases)
    case (ts_removed n e)
    then have "\<forall>a \<in> ts_holds s. \<forall>e \<in> set (ts_log s). \<not> outcome_of a e"
      using assms(1) by (auto simp: orderly_def)
    then have "\<forall>a \<in> ts_holds s. a \<in> set (ws_outstanding (scan_events (ts_log s)))"
      using assms(2) unfolding target_inv_def by blast
    then show ?thesis using assms(2) ts_removed
      by (auto simp: target_inv_def scan_events_snoc scan_event_def attempt_ids_snoc)
  qed (use assms(2) in \<open>auto simp: target_inv_def scan_events_snoc scan_event_def attempt_ids_snoc outcome_of_def Let_def\<close>)
qed

text \<open>
  C22.  What the delivery log says of a target is safe: as long as no write concludes
  between a removal and its receipt, a target that holds data of any attempt is one
  \<open>possibly_written\<close> reports, through any number of overlapping attempts, crashes, failed
  and partial writes and removals.
\<close>

theorem possibly_written_sound:
  assumes "orderly\<^sup>*\<^sup>* idle_target s" "ts_holds s \<noteq> {}"
  shows "possibly_written (ts_log s)"
proof -
  have "target_inv s"
    using assms(1)
  proof (induction rule: rtranclp_induct)
    case base
    show ?case by (simp add: idle_target_def target_inv_def)
  next
    case (step s t)
    show ?case by (rule orderly_inv [OF step(2) step(3)])
  qed
  then show ?thesis
    using assms(2) unfolding target_inv_def possibly_written_def Let_def by fastforce
qed

text \<open>
  C23.  Without that proviso the log is not safe: an attempt's intent is logged, a removal
  runs, the attempt's data lands and its receipt is logged, and only then the removal's
  receipt; the log now says the target holds nothing, and it holds the attempt's data.
\<close>

theorem removal_receipt_races_write:
  "\<exists>s. target_step\<^sup>*\<^sup>* idle_target s \<and> ts_holds s \<noteq> {} \<and> \<not> possibly_written (ts_log s)"
proof -
  let ?e = "\<lambda>k dn a. event_row_of ''d'' k None dn None ''t'' a"
  let ?s1 = "idle_target\<lparr>ts_log := [?e ''intent'' None (Some ''a'')], ts_active := {''a''}\<rparr>"
  let ?s2 = "?s1\<lparr>ts_log := [?e ''intent'' None (Some ''a''), ?e ''removal_intent'' None None]\<rparr>"
  let ?s3 = "?s2\<lparr>ts_owed := 1\<rparr>"
  let ?s4 = "?s3\<lparr>ts_holds := {''a''}\<rparr>"
  let ?s5 = "?s4\<lparr>ts_log := [?e ''intent'' None (Some ''a''), ?e ''removal_intent'' None None,
     ?e ''receipt'' (Some 1) (Some ''a'')], ts_active := {}\<rparr>"
  let ?s6 = "?s5\<lparr>ts_log := [?e ''intent'' None (Some ''a''), ?e ''removal_intent'' None None,
     ?e ''receipt'' (Some 1) (Some ''a''), ?e ''removal_receipt'' (Some 0) None], ts_owed := 0\<rparr>"
  have "target_step idle_target ?s1"
    using ts_intent [of "?e ''intent'' None (Some ''a'')" "''a''" idle_target]
    by (simp add: event_row_of_def idle_target_def attempt_ids_def)
  moreover have "target_step ?s1 ?s2"
    using ts_note [of "?e ''removal_intent'' None None" ?s1] by (simp add: event_row_of_def)
  moreover have "target_step ?s2 ?s3" using ts_remove [of ?s2] by (simp add: idle_target_def)
  moreover have "target_step ?s3 ?s4" using ts_write [of "''a''" ?s3] by (simp add: idle_target_def)
  moreover have "target_step ?s4 ?s5"
    using ts_receipt [of "''a''" ?s4 "?e ''receipt'' (Some 1) (Some ''a'')"] by (simp add: event_row_of_def)
  moreover have "target_step ?s5 ?s6"
    using ts_removed [of ?s5 0 "?e ''removal_receipt'' (Some 0) None"] by (simp add: event_row_of_def)
  ultimately have "target_step\<^sup>*\<^sup>* idle_target ?s6" by (meson converse_rtranclp_into_rtranclp rtranclp.rtrancl_refl)
  moreover have "\<not> possibly_written (ts_log ?s6)"
    by (simp add: possibly_written_def scan_events_def scan_event_def event_row_of_def)
  ultimately show ?thesis by (intro exI [of _ ?s6]) simp
qed

theorem possibly_written_sound_witness:
  "possibly_written [event_row_of ''d'' ''intent'' (Some 1) None None ''t'' (Some ''a'')]"
proof -
  let ?e = "event_row_of ''d'' ''intent'' (Some 1) None None ''t'' (Some ''a'')"
  let ?s1 = "idle_target\<lparr>ts_log := [?e], ts_active := {''a''}\<rparr>"
  have "target_step idle_target ?s1"
    using ts_intent [of ?e "''a''" idle_target]
    by (simp add: event_row_of_def idle_target_def attempt_ids_def)
  then have "orderly idle_target ?s1" by (simp add: orderly_def idle_target_def)
  moreover have "target_step ?s1 (?s1\<lparr>ts_holds := {''a''}\<rparr>)"
    using ts_write [of "''a''" ?s1] by (simp add: idle_target_def)
  then have "orderly ?s1 (?s1\<lparr>ts_holds := {''a''}\<rparr>)" by (simp add: orderly_def)
  ultimately have "orderly\<^sup>*\<^sup>* idle_target (?s1\<lparr>ts_holds := {''a''}\<rparr>)" by (rule converse_rtranclp_into_rtranclp [OF _ r_into_rtranclp])
  from possibly_written_sound [OF this] show ?thesis by simp
qed

section \<open>A concrete delivery\<close>

definition demo_chunk :: chunk where
  "demo_chunk =
     \<lparr>ch_id = ''c'', ch_content = ''x'', ch_content_hash = sha256 ''x'', ch_token_count = VInt 1,
      ch_metadata = VDict []\<rparr>"

definition demo_dispatch :: database where
  "demo_dispatch = (empty_database 8)
     \<lparr>db_records := [demo_row ''sealed''],
      db_deliveries := [\<lparr>d_dispatch_id = ''d'', d_record_id = ''r'', d_target_kind = ''T'', d_target = ''{}'',
                         d_created_at = ''t''\<rparr>]\<rparr>"

definition demo_digest :: string where
  "demo_digest = DIGEST_PREFIX @ sha256 (cjson (JObj [(''chunks'', JArr
     [JObj [(''chunk_id'', JStr ''c''), (''content_hash'', JStr (sha256 ''x'')), (''token_count'', JInt 1), (''metadata'', JObj [])]])]))"

lemma demo_chunk_body: "chunk_body demo_chunk = Some (JObj [(''chunk_id'', JStr ''c''),
    (''content_hash'', JStr (sha256 ''x'')), (''token_count'', JInt 1), (''metadata'', JObj [])])"
  by (simp add: chunk_body_def demo_chunk_def)

lemma demo_chunks_digest: "chunks_digest [demo_chunk] = Inr demo_digest"
proof -
  have "json_ok (JObj [(''chunks'', JArr [JObj [(''chunk_id'', JStr ''c''),
    (''content_hash'', JStr (sha256 ''x'')), (''token_count'', JInt 1), (''metadata'', JObj [])]])])"
    by (simp add: utf8_ok_ascii)
  then show ?thesis
    by (simp add: chunks_digest_def chunk_bodies_def demo_chunk_body canonical_json_ok demo_digest_def)
qed

lemma utf8_demo_digest: "utf8_ok demo_digest"
  by (simp add: demo_digest_def DIGEST_PREFIX_def)

definition demo_intent_row :: delivery_event_row where
  "demo_intent_row = intent_row ''d'' 1 demo_digest ''t'' ''a''"

lemma demo_intent_row_fold [simp]: "intent_row ''d'' (Suc 0) demo_digest ''t'' ''a'' = demo_intent_row"
  by (simp add: demo_intent_row_def)

lemma demo_event_body_ok: "json_ok (delivery_event_body demo_intent_row)"
  by (simp add: delivery_event_body_def demo_intent_row_def intent_row_def utf8_demo_digest utf8_ok_ascii)

lemma demo_insert_event:
  assumes "db_deliveries db = db_deliveries demo_dispatch" "\<not> payload_conflict demo_intent_row db"
  shows "insert_delivery_event demo_intent_row db = (Inr (), db\<lparr>db_delivery_events :=
    db_delivery_events db @ [demo_intent_row\<lparr>e_event_id := next_event_id (db_delivery_events db)\<rparr>]\<rparr>)"
  using assms
  by (simp add: insert_delivery_event_def demo_dispatch_def delivery_event_names_def texts_ok_def utf8_demo_digest utf8_ok_ascii)
    (simp add: demo_intent_row_def intent_row_def texts_ok_def utf8_demo_digest utf8_ok_ascii)

lemma demo_intent:
  assumes "db_deliveries db = db_deliveries demo_dispatch" "\<not> payload_conflict demo_intent_row db"
    and "intent_digest ''d'' [demo_chunk] db = Inr demo_digest"
    and "append_event ''delivery.event'' ''d'' (delivery_event_body demo_intent_row) ''t''
      (db\<lparr>db_delivery_events := db_delivery_events db @
        [demo_intent_row\<lparr>e_event_id := next_event_id (db_delivery_events db)\<rparr>]\<rparr>) = (Inr ev, db')"
  shows "append_intent ''d'' [demo_chunk] ''a'' ''t'' ''t'' db = (Inr ''a'', db')"
proof -
  have d: "e_dispatch_id demo_intent_row = ''d''" by (simp add: demo_intent_row_def intent_row_def)
  show ?thesis
    unfolding append_intent_def write_transaction_Inr
    by (simp add: assms(3) insert_event_def demo_insert_event [OF assms(1,2)] d assms(4))
qed

text \<open>The delivery's first intent is accepted, and accepted again with the same chunks.\<close>

theorem delivery_has_one_payload_witness:
  "\<exists>db1. append_intent ''d'' [demo_chunk] ''a'' ''t'' ''t'' demo_dispatch = (Inr ''a'', db1) \<and>
     ((\<exists>db3. append_intent ''d'' [demo_chunk] ''a'' ''t'' ''t'' db1 = (Inr ''a'', db3) \<and> map ch_id [demo_chunk] = [''c'']) \<or>
      append_collides ''delivery.event'' ''d'' (delivery_event_body demo_intent_row) ''t'' db1)"
proof -
  let ?e0 = "demo_intent_row\<lparr>e_event_id := 1\<rparr>"
  let ?k = "''delivery.event''" and ?b = "delivery_event_body demo_intent_row"
  have evs: "db_delivery_events demo_dispatch = []" "db_events demo_dispatch = []"
    by (simp_all add: demo_dispatch_def empty_database_def)
  have utf: "utf8_ok ?k" "utf8_ok ''d''" "utf8_ok ''t''" by (simp_all add: utf8_ok_ascii)
  let ?db0 = "demo_dispatch\<lparr>db_delivery_events := [?e0]\<rparr>"
  obtain ev db1 where a: "append_event ?k ''d'' ?b ''t'' ?db0 = (Inr ev, db1)"
    using first_event [of ?db0 ?b ?k "''d''" "''t''"] demo_event_body_ok utf evs by auto
  have nid: "next_event_id [] = 1" by (simp add: next_event_id_def)
  have i1: "append_intent ''d'' [demo_chunk] ''a'' ''t'' ''t'' demo_dispatch = (Inr ''a'', db1)"
  proof (rule demo_intent)
    show "\<not> payload_conflict demo_intent_row demo_dispatch"
      by (simp add: payload_conflict_def evs demo_intent_row_def intent_row_def)
    show "intent_digest ''d'' [demo_chunk] demo_dispatch = Inr demo_digest"
      by (simp add: intent_digest_def delivery_events_of_def evs demo_chunks_digest)
  qed (use a evs nid in simp_all)
  have c1: "chain_ok GENESIS 1 (db_events db1)" "db_events db1 = [ev]"
    using append_event_chain(1,2) [OF _ a] evs by simp_all
  have ev1: "db_delivery_events db1 = [?e0]" "db_deliveries db1 = db_deliveries demo_dispatch"
    using append_event_frame [OF a] by simp_all
  have d1: "delivery_events_of ''d'' db1 = [?e0]"
    by (simp add: delivery_events_of_def ev1 demo_intent_row_def intent_row_def)
  have pc: "\<not> payload_conflict demo_intent_row db1"
    by (simp add: payload_conflict_def ev1 demo_intent_row_def intent_row_def)
  have dg: "intent_digest ''d'' [demo_chunk] db1 = Inr demo_digest"
    by (simp add: intent_digest_def d1) (simp add: demo_intent_row_def intent_row_def payload_matches_def
        demo_chunks_digest demo_digest_def starts_with_def)
  let ?db2 = "db1\<lparr>db_delivery_events := db_delivery_events db1 @
        [demo_intent_row\<lparr>e_event_id := next_event_id (db_delivery_events db1)\<rparr>]\<rparr>"
  have utfh: "\<forall>r \<in> set (db_events ?db2). utf8_ok (ev_hash r)"
  proof -
    have "row_hash ev = Inr (ev_hash ev)" using c1 by simp
    then show ?thesis using c1(2) by (auto simp: row_hash_def event_hash_def map_sum_Inr_iff)
  qed
  consider ev2 db3 where "append_event ?k ''d'' ?b ''t'' ?db2 = (Inr ev2, db3)"
    | "append_event ?k ''d'' ?b ''t'' ?db2 = (Inl SqliteIntegrityError, ?db2)"
    using append_event_ok [of ?db2 ?b ?k "''d''" "''t''"] c1 demo_event_body_ok utf utfh by auto
  then show ?thesis
  proof cases
    case (1 ev2 db3)
    then have i2: "append_intent ''d'' [demo_chunk] ''a'' ''t'' ''t'' db1 = (Inr ''a'', db3)"
      using demo_intent [OF ev1(2) pc dg] by blast
    have "\<forall>c \<in> set ([demo_chunk] @ [demo_chunk]). \<forall>j. chunk_body c = Some j \<longrightarrow> json_rep j"
      by (simp add: demo_chunk_body)
    from delivery_has_one_payload [OF i1 rtranclp.rtrancl_refl i2 _ this] i1 i2 show ?thesis
      by (auto simp: delivery_events_of_def evs demo_chunk_def)
  next
    case 2
    then have "append_collides ?k ''d'' ?b ''t'' ?db2" using append_event_integrity [of ?db2] c1(1) by simp
    then have "append_collides ?k ''d'' ?b ''t'' db1" using append_collides_same [of ?db2 db1] by simp
    then show ?thesis using i1 by blast
  qed
qed

end
