(* ===== verification/Dispatcher.thy ===== *)
theory Dispatcher
  imports DeliverySafety
begin

text \<open>
  The dispatcher (\<open>stele/contracts/dispatcher.py\<close>): from a sealed record to a target, and
  from an invalidated record to the removal of what it wrote.  The adapter and the target
  writers are parameters; each takes and returns the whole system, so whatever other
  processes do to the ledger while one of them runs is part of it.  UUIDs, times and the
  texts of exceptions (\<open>repr\<close>) are parameters too.
\<close>

section \<open>Adapters, writers, results\<close>

record 'w system =
  sy_ledger :: ledger
  sy_world :: 'w

text \<open>A registered target type: its constructor from stored fields, and its writer.\<close>

record 'w writer =
  wr_build :: "json \<Rightarrow> target result"
  wr_write :: "chunk list \<Rightarrow> target \<Rightarrow> string \<Rightarrow> 'w system \<Rightarrow> unit result \<times> 'w system"
  wr_remove :: "target \<Rightarrow> string \<Rightarrow> 'w system \<Rightarrow> int option result \<times> 'w system"

type_synonym 'w adapter = "sealed_bundle \<Rightarrow> 'w system \<Rightarrow> chunk list result \<times> 'w system"

text \<open>\<open>_target_writers\<close>, by type name: the program keys it by the type itself.\<close>

type_synonym 'w registry = "(string, 'w writer) dict"

record env =
  en_uuid :: "nat \<Rightarrow> string"
  en_time :: "nat \<Rightarrow> string"
  en_repr :: "exn \<Rightarrow> string"

record dispatch_result =
  rs_dispatch_id :: string
  rs_record_id :: string
  rs_target :: target
  rs_submitted :: "int option"
  rs_written :: "int option"
  rs_success :: bool
  rs_error :: "string option"
  rs_already :: bool

record removal_result =
  rm_dispatch_id :: string
  rm_removed :: bool
  rm_chunks :: "int option"
  rm_error :: "string option"

abbreviation sy_db :: "'w system \<Rightarrow> database" where
  "sy_db sys \<equiv> lg_db (sy_ledger sys)"

definition with_db :: "'w system \<Rightarrow> database \<Rightarrow> 'w system" where
  "with_db sys db = sys\<lparr>sy_ledger := (sy_ledger sys)\<lparr>lg_db := db\<rparr>\<rparr>"

lemma with_db_simps [simp]:
  "sy_db (with_db sys db) = db" "lg_archive (sy_ledger (with_db sys db)) = lg_archive (sy_ledger sys)"
  "sy_world (with_db sys db) = sy_world sys" "with_db sys (sy_db sys) = sys"
  by (simp_all add: with_db_def)

definition register_target :: "string \<Rightarrow> 'w writer \<Rightarrow> 'w registry \<Rightarrow> 'w registry" where
  "register_target kind w reg = AList.update kind w reg"

definition target_type :: "target \<Rightarrow> string" where
  "target_type t = (case t of Target kind _ \<Rightarrow> kind | NotDataclass \<Rightarrow> [])"

definition writer_for :: "'w registry \<Rightarrow> string \<Rightarrow> 'w writer result" where
  "writer_for reg kind = (case map_of reg kind of None \<Rightarrow> Inl UnregisteredTargetError | Some w \<Rightarrow> Inr w)"

text \<open>\<open>_result\<close>.\<close>

definition refused_result :: "delivery \<Rightarrow> target \<Rightarrow> string \<Rightarrow> dispatch_result" where
  "refused_result d t msg =
     \<lparr>rs_dispatch_id = dl_dispatch_id d, rs_record_id = dl_record_id d, rs_target = t,
      rs_submitted = Some 0, rs_written = Some 0, rs_success = False, rs_error = Some msg,
      rs_already = False\<rparr>"

definition delivery_result :: "delivery \<Rightarrow> target \<Rightarrow> bool \<Rightarrow> dispatch_result" where
  "delivery_result d t already =
     (let es = dl_events d; ok = (delivery_status_of es = DELIVERED) in
      \<lparr>rs_dispatch_id = dl_dispatch_id d, rs_record_id = dl_record_id d, rs_target = t,
       rs_submitted = delivery_planned es,
       rs_written =
         (case find (\<lambda>e. e_event e = ''receipt'' \<or> e_event e = ''failure'') (rev es) of
            None \<Rightarrow> None | Some e \<Rightarrow> e_done e),
       rs_success = ok, rs_error = (if ok then None else last_error es), rs_already = already\<rparr>)"

section \<open>Removing\<close>

definition log_event ::
  "env \<Rightarrow> nat \<Rightarrow> delivery_event_row \<Rightarrow> 'w system \<Rightarrow> unit result \<times> 'w system" where
  "log_event env n e sys =
     (case log_append (e\<lparr>e_at := en_time env n\<rparr>) (en_time env (Suc n)) (sy_db sys) of
        (r, db) \<Rightarrow> (r, with_db sys db))"

definition removal_failed ::
  "env \<Rightarrow> nat \<Rightarrow> string \<Rightarrow> exn \<Rightarrow> 'w system \<Rightarrow> removal_result result \<times> 'w system" where
  "removal_failed env n did x sys =
     (case log_event env n (event_row_of did ''removal_failure'' None None (Some (en_repr env x)) [] None) sys of
        (Inl e, sys') \<Rightarrow> (Inl e, sys')
      | (Inr _, sys') \<Rightarrow>
          (Inr \<lparr>rm_dispatch_id = did, rm_removed = False, rm_chunks = None, rm_error = Some (en_repr env x)\<rparr>, sys'))"

text \<open>\<open>_remove\<close>; a \<open>BaseException\<close> that is not an \<open>Exception\<close> leaves the process at once.\<close>

definition remove_delivery ::
  "'w registry \<Rightarrow> env \<Rightarrow> nat \<Rightarrow> delivery \<Rightarrow> 'w system \<Rightarrow> removal_result result \<times> 'w system" where
  "remove_delivery reg env n d sys =
     (let did = dl_dispatch_id d in
      case (case writer_for reg (dl_target_kind d) of
              Inl e \<Rightarrow> Inl e
            | Inr w \<Rightarrow> map_sum id (\<lambda>t. (w, t)) (wr_build w (dl_target d))) of
        Inl x \<Rightarrow> if is_exception x then removal_failed env n did x sys else (Inl x, sys)
      | Inr (w, t) \<Rightarrow>
          (case log_event env n (event_row_of did ''removal_intent'' (delivery_planned (dl_events d)) None None [] None) sys of
             (Inl e, sys1) \<Rightarrow> (Inl e, sys1)
           | (Inr _, sys1) \<Rightarrow>
               (case wr_remove w t did sys1 of
                  (Inl x, sys2) \<Rightarrow>
                    if is_exception x then removal_failed env (n + 2) did x sys2 else (Inl x, sys2)
                | (Inr k, sys2) \<Rightarrow>
                    (case log_event env (n + 2) (event_row_of did ''removal_receipt'' None k None [] None) sys2 of
                       (Inl e, sys3) \<Rightarrow> (Inl e, sys3)
                     | (Inr _, sys3) \<Rightarrow>
                         (Inr \<lparr>rm_dispatch_id = did, rm_removed = True, rm_chunks = k, rm_error = None\<rparr>, sys3)))))"

fun remove_all ::
  "'w registry \<Rightarrow> env \<Rightarrow> nat \<Rightarrow> delivery list \<Rightarrow> 'w system \<Rightarrow> removal_result list result \<times> 'w system" where
  "remove_all reg env n [] sys = (Inr [], sys)"
| "remove_all reg env n (d # ds) sys =
     (if \<not> possibly_written (dl_events d) then remove_all reg env n ds sys
      else case remove_delivery reg env n d sys of
        (Inl e, sys') \<Rightarrow> (Inl e, sys')
      | (Inr r, sys') \<Rightarrow>
          (case remove_all reg env (n + 4) ds sys' of
             (Inl e, sys'') \<Rightarrow> (Inl e, sys'')
           | (Inr rs, sys'') \<Rightarrow> (Inr (r # rs), sys'')))"

definition retract ::
  "'w registry \<Rightarrow> env \<Rightarrow> nat \<Rightarrow> string \<Rightarrow> 'w system \<Rightarrow> removal_result list result \<times> 'w system" where
  "retract reg env n rid sys =
     (case get_record rid (sy_db sys) of
        Inl e \<Rightarrow> (Inl e, sys)
      | Inr r \<Rightarrow>
          if ar_state r \<noteq> INVALIDATED then (Inl ValueError, sys)
          else case deliveries_for_record rid (sy_db sys) of
            Inl e \<Rightarrow> (Inl e, sys)
          | Inr ds \<Rightarrow> remove_all reg env n ds sys)"

definition invalidate_and_retract ::
  "'w registry \<Rightarrow> env \<Rightarrow> string \<Rightarrow> string \<Rightarrow> 'w system \<Rightarrow> removal_result list result \<times> 'w system" where
  "invalidate_and_retract reg env rid reason sys =
     (case get_record rid (sy_db sys) of
        Inl e \<Rightarrow> (Inl e, sys)
      | Inr r \<Rightarrow>
          if ar_state r = INVALIDATED then retract reg env 0 rid sys
          else (case invalidate rid reason (en_time env 0) (en_time env 1) (sy_db sys) of
                  (Inl e, db) \<Rightarrow> (Inl e, with_db sys db)
                | (Inr _, db) \<Rightarrow> retract reg env 2 rid (with_db sys db)))"

fun retract_each ::
  "'w registry \<Rightarrow> env \<Rightarrow> nat \<Rightarrow> artifact_record list \<Rightarrow> 'w system \<Rightarrow> removal_result list result \<times> 'w system" where
  "retract_each reg env n [] sys = (Inr [], sys)"
| "retract_each reg env n (r # rs) sys =
     (case retract reg env n (ar_record_id r) sys of
        (Inl e, sys') \<Rightarrow> (Inl e, sys')
      | (Inr xs, sys') \<Rightarrow>
          (case retract_each reg env (n + 4 * length xs) rs sys' of
             (Inl e, sys'') \<Rightarrow> (Inl e, sys'')
           | (Inr ys, sys'') \<Rightarrow> (Inr (xs @ ys), sys'')))"

definition retract_invalidated ::
  "'w registry \<Rightarrow> env \<Rightarrow> 'w system \<Rightarrow> removal_result list result \<times> 'w system" where
  "retract_invalidated reg env sys =
     (case list_by_states [INVALIDATED] (sy_db sys) of
        Inl e \<Rightarrow> (Inl e, sys)
      | Inr rs \<Rightarrow> retract_each reg env 0 rs sys)"

section \<open>Dispatching\<close>

text \<open>The last \<open>return\<close>: \<open>self._result(self._log.get(dispatch_id), target)\<close>.\<close>

definition current_result :: "string \<Rightarrow> target \<Rightarrow> 'w system \<Rightarrow> dispatch_result result \<times> 'w system" where
  "current_result did t sys =
     (map_sum id (\<lambda>d. delivery_result d t False) (get_delivery did (sy_db sys)), sys)"

text \<open>After the write: an invalidation that raced it is caught up on.\<close>

definition conclude ::
  "'w registry \<Rightarrow> env \<Rightarrow> string \<Rightarrow> string \<Rightarrow> target \<Rightarrow> 'w system \<Rightarrow> dispatch_result result \<times> 'w system" where
  "conclude reg env rid did t sys =
     (case get_record rid (sy_db sys) of
        Inl e \<Rightarrow> (Inl e, sys)
      | Inr r \<Rightarrow>
          if ar_state r = INVALIDATED
          then (case retract reg env 8 rid sys of
                  (Inl e, sys') \<Rightarrow> (Inl e, sys')
                | (Inr _, sys') \<Rightarrow> current_result did t sys')
          else current_result did t sys)"

definition partial_done :: "exn \<Rightarrow> int option" where
  "partial_done x = (case x of PartialWriteError n \<Rightarrow> Some n | _ \<Rightarrow> None)"

definition write_and_log ::
  "'w registry \<Rightarrow> env \<Rightarrow> string \<Rightarrow> string \<Rightarrow> target \<Rightarrow> 'w writer \<Rightarrow> chunk list \<Rightarrow> string \<Rightarrow>
   'w system \<Rightarrow> dispatch_result result \<times> 'w system" where
  "write_and_log reg env rid did t w chunks attempt sys =
     (case wr_write w chunks t did sys of
        (Inl x, sys1) \<Rightarrow>
          if \<not> is_exception x then (Inl x, sys1)
          else (case log_event env 6 (event_row_of did ''failure'' None (partial_done x)
                        (Some (en_repr env x)) [] (Some attempt)) sys1 of
                  (Inl e, sys2) \<Rightarrow> (Inl e, sys2)
                | (Inr _, sys2) \<Rightarrow> conclude reg env rid did t sys2)
      | (Inr _, sys1) \<Rightarrow>
          (case log_event env 6 (event_row_of did ''receipt'' None (Some (int (length chunks))) None []
                  (Some attempt)) sys1 of
             (Inl e, sys2) \<Rightarrow> (Inl e, sys2)
           | (Inr _, sys2) \<Rightarrow> conclude reg env rid did t sys2))"

text \<open>The adapter's output, validated, and the writer for the target.\<close>

definition prepare ::
  "'w registry \<Rightarrow> 'w adapter \<Rightarrow> artifact_record \<Rightarrow> target \<Rightarrow> 'w system \<Rightarrow>
   (chunk list \<times> 'w writer) result \<times> 'w system" where
  "prepare reg adapter live t sys =
     (case adapter (bundle_from_record live (lg_archive (sy_ledger sys))) sys of
        (Inl e, sys1) \<Rightarrow> (Inl e, sys1)
      | (Inr chunks, sys1) \<Rightarrow>
          (case validate_chunks chunks of
             Inl e \<Rightarrow> (Inl e, sys1)
           | Inr _ \<Rightarrow> (map_sum id (\<lambda>w. (chunks, w)) (writer_for reg (target_type t)), sys1)))"

definition deliver ::
  "'w registry \<Rightarrow> env \<Rightarrow> 'w adapter \<Rightarrow> artifact_record \<Rightarrow> target \<Rightarrow> string \<Rightarrow> 'w system \<Rightarrow>
   dispatch_result result \<times> 'w system" where
  "deliver reg env adapter live t did sys =
     (case prepare reg adapter live t sys of
        (Inl x, sys1) \<Rightarrow>
          if \<not> is_exception x then (Inl x, sys1)
          else (case append_unwritten_failure did (en_repr env x) (en_uuid env 1) (en_time env 2) (en_time env 3)
                       (sy_db sys1) of
                  (Inl e, db) \<Rightarrow> (Inl e, with_db sys1 db)
                | (Inr _, db) \<Rightarrow> current_result did t (with_db sys1 db))
      | (Inr (chunks, w), sys1) \<Rightarrow>
          (case append_intent did chunks (en_uuid env 2) (en_time env 4) (en_time env 5) (sy_db sys1) of
             (Inl x, db) \<Rightarrow>
               if x = PayloadConflictError
               then (map_sum id (\<lambda>d. refused_result d t (en_repr env x)) (get_delivery did db), with_db sys1 db)
               else (Inl x, with_db sys1 db)
           | (Inr attempt, db) \<Rightarrow>
               write_and_log reg env (ar_record_id live) did t w chunks attempt (with_db sys1 db)))"

definition dispatch ::
  "'w registry \<Rightarrow> env \<Rightarrow> 'w adapter \<Rightarrow> string \<Rightarrow> target \<Rightarrow> 'w system \<Rightarrow> dispatch_result result \<times> 'w system" where
  "dispatch reg env adapter rid t sys =
     (case get_record rid (sy_db sys) of
        Inl e \<Rightarrow> (Inl e, sys)
      | Inr live \<Rightarrow>
          if ar_state live \<noteq> SEALED then (Inl DispatchRefusedError, sys)
          else case verify_archived_bundle (lg_archive (sy_ledger sys)) (ar_artifact_hash live)
                      (ar_artifact_manifest live) of
            Inl e \<Rightarrow>
              (Inl (if is_archive_error e \<or> e = ArtifactDriftError then DispatchRefusedError else e), sys)
          | Inr _ \<Rightarrow>
              (case open_delivery rid t (en_uuid env 0) (en_time env 0) (en_time env 1) (sy_db sys) of
                 (Inl e, db) \<Rightarrow> (Inl e, with_db sys db)
               | (Inr did, db) \<Rightarrow>
                   (case get_delivery did db of
                      Inl e \<Rightarrow> (Inl e, with_db sys db)
                    | Inr d \<Rightarrow>
                        if delivery_status_of (dl_events d) = DELIVERED
                        then (Inr (delivery_result d t True), with_db sys db)
                        else deliver reg env adapter live t did (with_db sys db))))"


section \<open>What dispatching and retracting can do to the ledger\<close>

text \<open>
  The contract between the dispatcher and the delivery log: a relation on ledgers that the
  three operations of the log it calls stay in.  Whatever keeps to it in the adapter and
  the writers is kept to by the dispatcher.
\<close>

locale log_relation =
  fixes R :: "ledger \<Rightarrow> ledger \<Rightarrow> bool"
  assumes R_refl: "R a a"
    and R_trans: "R a b \<Longrightarrow> R b c \<Longrightarrow> R a c"
    and R_open: "open_delivery rid t uuid t1 t2 (lg_db st) = (r1, db') \<Longrightarrow> R st (st\<lparr>lg_db := db'\<rparr>)"
    and R_append: "log_append e t3 (lg_db st) = (r2, db') \<Longrightarrow> R st (st\<lparr>lg_db := db'\<rparr>)"
    and R_intent: "append_intent did cs att t4 t5 (lg_db st) = (r3, db') \<Longrightarrow> R st (st\<lparr>lg_db := db'\<rparr>)"

text \<open>The adapter, and every registered writer, keep to the relation.\<close>

definition adapter_in :: "(ledger \<Rightarrow> ledger \<Rightarrow> bool) \<Rightarrow> 'w adapter \<Rightarrow> bool" where
  "adapter_in R ad \<longleftrightarrow> (\<forall>b sys. R (sy_ledger sys) (sy_ledger (snd (ad b sys))))"

definition writers_in :: "(ledger \<Rightarrow> ledger \<Rightarrow> bool) \<Rightarrow> 'w registry \<Rightarrow> bool" where
  "writers_in R reg \<longleftrightarrow>
     (\<forall>w \<in> snd ` set reg. \<forall>cs t did sys.
        R (sy_ledger sys) (sy_ledger (snd (wr_write w cs t did sys))) \<and>
        R (sy_ledger sys) (sy_ledger (snd (wr_remove w t did sys))))"

lemma writer_for_in: "writer_for reg k = Inr w \<Longrightarrow> w \<in> snd ` set reg"
  by (auto simp: writer_for_def split: option.splits dest!: map_of_SomeD intro: rev_image_eqI)

context log_relation
begin

lemma R_with_db: "R (sy_ledger sys) ((sy_ledger sys)\<lparr>lg_db := db'\<rparr>) \<Longrightarrow> R (sy_ledger sys) (sy_ledger (with_db sys db'))"
  by (simp add: with_db_def)

lemma log_event_R: "log_event env n e sys = (r, sys') \<Longrightarrow> R (sy_ledger sys) (sy_ledger sys')"
  by (auto simp: log_event_def split: prod.splits intro: R_with_db R_append)

lemma removal_failed_R: "removal_failed env n did x sys = (r, sys') \<Longrightarrow> R (sy_ledger sys) (sy_ledger sys')"
  by (auto simp: removal_failed_def split: prod.splits sum.splits intro: log_event_R)

lemma remove_delivery_R:
  assumes "remove_delivery reg env n d sys = (r, sys')" "writers_in R reg"
  shows "R (sy_ledger sys) (sy_ledger sys')"
proof (cases "writer_for reg (dl_target_kind d)")
  case (Inl x)
  then show ?thesis using assms(1) by (auto simp: remove_delivery_def Let_def R_refl removal_failed_R split: if_splits)
next
  case (Inr w)
  show ?thesis
  proof (cases "wr_build w (dl_target d)")
    case (Inl x)
    then show ?thesis using assms(1) \<open>writer_for reg (dl_target_kind d) = Inr w\<close>
      by (auto simp: remove_delivery_def Let_def R_refl removal_failed_R split: if_splits)
  next
    case b: (Inr t)
    let ?did = "dl_dispatch_id d"
    let ?e = "event_row_of ?did ''removal_intent'' (delivery_planned (dl_events d)) None None [] None"
    obtain r1 sys1 where l: "log_event env n ?e sys = (r1, sys1)" by (cases "log_event env n ?e sys")
    obtain r2 sys2 where rm: "wr_remove w t ?did sys1 = (r2, sys2)" by (cases "wr_remove w t ?did sys1")
    have "R (sy_ledger sys1) (sy_ledger sys2)"
      using assms(2) writer_for_in [OF Inr] rm unfolding writers_in_def by (metis snd_conv)
    note two = R_trans [OF log_event_R [OF l] this]
    show ?thesis
      using assms(1) Inr b l rm log_event_R [OF l] two R_trans [OF two removal_failed_R] R_trans [OF two log_event_R]
      by (auto simp: remove_delivery_def Let_def split: sum.splits prod.splits if_splits)
  qed
qed

lemma remove_all_R:
  assumes "writers_in R reg"
  shows "remove_all reg env n ds sys = (r, sys') \<Longrightarrow> R (sy_ledger sys) (sy_ledger sys')"
proof (induction ds arbitrary: n sys r sys')
  case (Cons d ds)
  obtain r1 sys1 where d: "remove_delivery reg env n d sys = (r1, sys1)" by (cases "remove_delivery reg env n d sys")
  obtain r2 sys2 where ds: "remove_all reg env (n + 4) ds sys1 = (r2, sys2)" by (cases "remove_all reg env (n + 4) ds sys1")
  note one = remove_delivery_R [OF d assms]
  show ?case
    using Cons.prems d ds one Cons.IH [of n sys] R_trans [OF one Cons.IH [OF ds]]
    by (simp split: if_splits sum.splits)
qed (simp add: R_refl)

lemma retract_R:
  "retract reg env n rid sys = (r, sys') \<Longrightarrow> writers_in R reg \<Longrightarrow> R (sy_ledger sys) (sy_ledger sys')"
  unfolding retract_def by (auto simp: R_refl split: sum.splits if_splits dest: remove_all_R)

lemma conclude_R:
  "conclude reg env rid did t sys = (r, sys') \<Longrightarrow> writers_in R reg \<Longrightarrow> R (sy_ledger sys) (sy_ledger sys')"
  unfolding conclude_def current_result_def
  by (auto simp: R_refl split: sum.splits if_splits prod.splits dest: retract_R)

lemma write_and_log_R:
  assumes "write_and_log reg env rid did t w cs a sys = (r, sys')" "writers_in R reg" "w \<in> snd ` set reg"
  shows "R (sy_ledger sys) (sy_ledger sys')"
proof -
  have w: "R (sy_ledger s) (sy_ledger s')" if "wr_write w cs t did s = (u, s')" for s u s'
    using assms(2,3) that unfolding writers_in_def by (metis snd_conv)
  show ?thesis
    using assms(1) unfolding write_and_log_def
    by (auto split: sum.splits prod.splits if_splits
        intro: w R_trans [OF w log_event_R] R_trans [OF w R_trans [OF log_event_R conclude_R [OF _ assms(2)]]])
qed

lemma prepare_R:
  "prepare reg ad live t sys = (r, sys') \<Longrightarrow> adapter_in R ad \<Longrightarrow> R (sy_ledger sys) (sy_ledger sys')"
  unfolding prepare_def adapter_in_def by (auto split: prod.splits sum.splits) (metis snd_conv)+

lemma prepare_writer: "prepare reg ad live t sys = (Inr (cs, w), sys') \<Longrightarrow> w \<in> snd ` set reg"
  by (auto simp: prepare_def map_sum_Inr_iff split: prod.splits sum.splits dest: writer_for_in)

lemma deliver_R:
  assumes "deliver reg env ad live t did sys = (r, sys')" "adapter_in R ad" "writers_in R reg"
  shows "R (sy_ledger sys) (sy_ledger sys')"
proof -
  obtain p sys1 where p: "prepare reg ad live t sys = (p, sys1)" by (cases "prepare reg ad live t sys")
  note one = prepare_R [OF p assms(2)]
  show ?thesis
  proof (cases p)
    case (Inl x)
    then show ?thesis
      using assms(1) p one unfolding deliver_def append_unwritten_failure_def current_result_def
      by (auto split: prod.splits sum.splits if_splits intro: R_trans [OF one R_with_db] R_append)
  next
    case (Inr cw)
    obtain cs w where cw: "cw = (cs, w)" by (cases cw)
    obtain q db where q: "append_intent did cs (en_uuid env 2) (en_time env 4) (en_time env 5) (sy_db sys1) = (q, db)"
      by (cases "append_intent did cs (en_uuid env 2) (en_time env 4) (en_time env 5) (sy_db sys1)")
    note two = R_trans [OF one R_with_db [OF R_intent [OF q]]]
    have w: "w \<in> snd ` set reg" using p Inr cw prepare_writer by blast
    show ?thesis
      using assms(1) p Inr cw q two R_trans [OF two write_and_log_R [OF _ assms(3) w]]
      by (auto simp: deliver_def split: sum.splits if_splits)
  qed
qed

lemma dispatch_R:
  assumes "adapter_in R ad" "writers_in R reg"
  shows "R (sy_ledger sys) (sy_ledger (snd (dispatch reg env ad rid t sys)))"
proof -
  obtain o1 db where o: "open_delivery rid t (en_uuid env 0) (en_time env 0) (en_time env 1) (sy_db sys) = (o1, db)"
    by (cases "open_delivery rid t (en_uuid env 0) (en_time env 0) (en_time env 1) (sy_db sys)")
  note one = R_with_db [OF R_open [OF o]]
  have "R (sy_ledger sys) (sy_ledger (snd (deliver reg env ad live t did (with_db sys db))))" for live did
    using R_trans [OF one deliver_R [OF _ assms]] by (metis prod.collapse)
  then show ?thesis using o one by (simp add: dispatch_def R_refl split: sum.split)
qed

end

text \<open>The steps of the ledger are such a relation, and so is keeping the records as they are.\<close>

lemma tx_steps: "tx False (lg_db st) db' \<Longrightarrow> ledger_step\<^sup>*\<^sup>* st (st\<lparr>lg_db := db'\<rparr>)"
  using step_tx by blast

interpretation steps: log_relation "ledger_step\<^sup>*\<^sup>*"
  by unfold_locales (auto intro: tx_steps open_delivery_tx log_append_tx append_intent_tx rtranclp_trans)

definition same_records :: "ledger \<Rightarrow> ledger \<Rightarrow> bool" where
  "same_records a b \<longleftrightarrow> db_records (lg_db b) = db_records (lg_db a) \<and> lg_archive b = lg_archive a"

lemma insert_event_records [frame_simps]: "insert_event e now db = (r, db') \<Longrightarrow> db_records db' = db_records db"
  by (auto simp: insert_event_def insert_delivery_event_def dest!: append_event_frame(1) split: prod.splits sum.splits if_splits)

lemma write_transaction_frame:
  assumes "write_transaction f db = (r, db')" "\<And>x db1. f db = (Inr x, db1) \<Longrightarrow> g db1 = g db"
  shows "g db' = g db"
  using assms by (cases r) (auto simp: write_transaction_Inr dest: write_transaction_Inl)

lemma log_append_records: "log_append e now db = (r, db') \<Longrightarrow> db_records db' = db_records db"
  by (auto simp: log_append_def dest: insert_event_records elim: write_transaction_frame [where g = db_records] split: prod.splits sum.splits)

lemma append_intent_records: "append_intent did cs a t1 t2 db = (r, db') \<Longrightarrow> db_records db' = db_records db"
  unfolding append_intent_def
  by (erule write_transaction_frame) (auto split: sum.splits prod.splits dest: insert_event_records)

lemma insert_delivery_records: "insert_delivery d db = (r, db1) \<Longrightarrow> db_records db1 = db_records db"
  by (auto simp: insert_delivery_def split: if_splits)

lemma insert_opened_records: "insert_opened d now db = (r, db') \<Longrightarrow> db_records db' = db_records db"
  unfolding insert_opened_def
  by (erule write_transaction_frame)
    (auto split: sum.splits prod.splits bool.splits dest!: append_event_frame(1) insert_delivery_records)

lemma open_delivery_records: "open_delivery rid t uuid now1 now2 db = (r, db') \<Longrightarrow> db_records db' = db_records db"
  by (auto simp: open_delivery_def split: sum.splits prod.splits option.splits dest: insert_opened_records)

interpretation records: log_relation same_records
  by unfold_locales (auto simp: same_records_def log_append_records append_intent_records open_delivery_records)

text \<open>
  Adapter and target failures never change a record's ledger state: whatever dispatch
  returns or raises, and whatever the adapter and the writer did or raised, every record and
  the archive are as before, if the adapter and the writers themselves left them alone.
\<close>

theorem dispatch_keeps_records:
  assumes "adapter_in same_records ad" "writers_in same_records reg"
  shows "db_records (sy_db (snd (dispatch reg env ad rid t sys))) = db_records (sy_db sys) \<and>
    lg_archive (sy_ledger (snd (dispatch reg env ad rid t sys))) = lg_archive (sy_ledger sys)"
  using records.dispatch_R [OF assms, of sys env rid t] by (simp add: same_records_def)

definition demo_env :: env where
  "demo_env = \<lparr>en_uuid = (\<lambda>n. ''a''), en_time = (\<lambda>n. ''t''), en_repr = (\<lambda>x. ''x'')\<rparr>"

theorem dispatch_keeps_records_witness:
  "db_records (sy_db (snd (dispatch [] demo_env (\<lambda>b s. (Inl ValueError, s)) ''r'' NotDataclass
      \<lparr>sy_ledger = \<lparr>lg_archive = (\<lambda>p. None), lg_db = demo_dispatch\<rparr>, sy_world = ()\<rparr>))) = [demo_row ''sealed'']"
proof -
  let ?ad = "\<lambda>b s. (Inl ValueError, s :: unit system)"
  let ?s = "\<lparr>sy_ledger = \<lparr>lg_archive = (\<lambda>p. None), lg_db = demo_dispatch\<rparr>, sy_world = ()\<rparr>"
  have "adapter_in same_records ?ad" "writers_in same_records []"
    by (simp_all add: adapter_in_def writers_in_def same_records_def)
  from dispatch_keeps_records [OF this, of demo_env "''r''" NotDataclass ?s] show ?thesis by (simp add: demo_dispatch_def)
qed

text \<open>
  Dispatching, retracting, and invalidating with retraction only take steps of the ledger's
  transition system, if the adapter and the writers do; so what holds of every reachable ledger -
  the chain verifies, each delivery has one payload, each sealed record's bundle is complete -
  holds after any number of them, interleaved or failing at any point.
\<close>

theorem dispatcher_takes_steps:
  assumes "adapter_in ledger_step\<^sup>*\<^sup>* ad" "writers_in ledger_step\<^sup>*\<^sup>* reg"
  shows "ledger_step\<^sup>*\<^sup>* (sy_ledger sys) (sy_ledger (snd (dispatch reg env ad rid t sys))) \<and>
    ledger_step\<^sup>*\<^sup>* (sy_ledger sys) (sy_ledger (snd (retract reg env n rid sys))) \<and>
    ledger_step\<^sup>*\<^sup>* (sy_ledger sys) (sy_ledger (snd (invalidate_and_retract reg env rid reason sys)))"
proof (intro conjI)
  have r: "ledger_step\<^sup>*\<^sup>* (sy_ledger s) (sy_ledger (snd (retract reg env n rid s)))" for s n
    using steps.retract_R [OF _ assms(2)] by (metis prod.collapse)
  then show "ledger_step\<^sup>*\<^sup>* (sy_ledger sys) (sy_ledger (snd (retract reg env n rid sys)))" .
  obtain x db where i: "invalidate rid reason (en_time env 0) (en_time env 1) (sy_db sys) = (x, db)"
    by (cases "invalidate rid reason (en_time env 0) (en_time env 1) (sy_db sys)")
  have "ledger_step\<^sup>*\<^sup>* (sy_ledger sys) (sy_ledger (with_db sys db))"
    using tx_steps [OF transition_ops_tx(2) [OF i]] by (simp add: with_db_def)
  then show "ledger_step\<^sup>*\<^sup>* (sy_ledger sys) (sy_ledger (snd (invalidate_and_retract reg env rid reason sys)))"
    using r i rtranclp_trans [OF _ r] by (simp add: invalidate_and_retract_def split: sum.split)
qed (rule steps.dispatch_R [OF assms])

theorem dispatcher_takes_steps_witness:
  "ledger_step\<^sup>*\<^sup>* \<lparr>lg_archive = (\<lambda>p. None), lg_db = demo_dispatch\<rparr>
     (sy_ledger (snd (invalidate_and_retract [] demo_env ''r'' ''x''
        \<lparr>sy_ledger = \<lparr>lg_archive = (\<lambda>p. None), lg_db = demo_dispatch\<rparr>, sy_world = ()\<rparr>)))"
proof -
  let ?ad = "\<lambda>b s. (Inl ValueError, s :: unit system)"
  let ?s = "\<lparr>sy_ledger = \<lparr>lg_archive = (\<lambda>p. None), lg_db = demo_dispatch\<rparr>, sy_world = ()\<rparr>"
  have "adapter_in ledger_step\<^sup>*\<^sup>* ?ad" "writers_in ledger_step\<^sup>*\<^sup>* []"
    by (simp_all add: adapter_in_def writers_in_def)
  from dispatcher_takes_steps [OF this, of ?s] show ?thesis by simp
qed

section \<open>When a writer is called\<close>

text \<open>
  A writer that runs only when \<open>P\<close> holds of its call, and otherwise does \<open>f\<close>, which is
  arbitrary: if replacing every writer by its guarded copy changes nothing, no writer is
  ever called outside \<open>P\<close>.
\<close>

definition guard_writer ::
  "(chunk list \<Rightarrow> string \<Rightarrow> 'w system \<Rightarrow> bool) \<Rightarrow> ('w system \<Rightarrow> unit result \<times> 'w system) \<Rightarrow> 'w writer \<Rightarrow> 'w writer" where
  "guard_writer P f w = w\<lparr>wr_write := (\<lambda>cs t did s. if P cs did s then wr_write w cs t did s else f s)\<rparr>"

definition guard_writers ::
  "(chunk list \<Rightarrow> string \<Rightarrow> 'w system \<Rightarrow> bool) \<Rightarrow> ('w system \<Rightarrow> unit result \<times> 'w system) \<Rightarrow> 'w registry \<Rightarrow> 'w registry" where
  "guard_writers P f reg = map (\<lambda>(k, w). (k, guard_writer P f w)) reg"

text \<open>The last thing the delivery's log says is the intent to write these chunks.\<close>

definition announced :: "string \<Rightarrow> chunk list \<Rightarrow> database \<Rightarrow> bool" where
  "announced did cs db \<longleftrightarrow>
     (\<exists>es e. delivery_events_of did db = es @ [e] \<and> e_event e = ''intent'' \<and>
        e_planned e = Some (int (length cs)) \<and> payload_matches (e_chunks_digest e) cs = Inr True)"

text \<open>The record is sealed and its bundle in the archive passes verification.\<close>

definition intact_record :: "string \<Rightarrow> 'w system \<Rightarrow> bool" where
  "intact_record rid sys \<longleftrightarrow>
     (\<exists>r. get_record rid (sy_db sys) = Inr r \<and> ar_state r = SEALED \<and>
        verify_archived_bundle (lg_archive (sy_ledger sys)) (ar_artifact_hash r) (ar_artifact_manifest r) = Inr ())"

lemma map_of_guard: "map_of (guard_writers P f reg) k = map_option (guard_writer P f) (map_of reg k)"
  by (induction reg) (auto simp: guard_writers_def)

lemma writer_for_guard: "writer_for (guard_writers P f reg) k = map_sum id (guard_writer P f) (writer_for reg k)"
  by (simp add: writer_for_def map_of_guard split: option.split)

lemma guard_writer_simps [simp]:
  "wr_build (guard_writer P f w) = wr_build w" "wr_remove (guard_writer P f w) = wr_remove w"
  "wr_write (guard_writer P f w) cs t did s = (if P cs did s then wr_write w cs t did s else f s)"
  by (simp_all add: guard_writer_def)

lemma remove_delivery_guard: "remove_delivery (guard_writers P f reg) env n d s = remove_delivery reg env n d s"
proof (cases "writer_for reg (dl_target_kind d)")
  case (Inr w)
  then show ?thesis by (cases "wr_build w (dl_target d)") (simp_all add: remove_delivery_def writer_for_guard Let_def split: sum.split prod.split)
qed (simp add: remove_delivery_def writer_for_guard)

lemma remove_all_guard: "remove_all (guard_writers P f reg) env n ds s = remove_all reg env n ds s"
  by (induction ds arbitrary: n s) (simp_all add: remove_delivery_guard split: prod.split sum.split)

lemma retract_guard: "retract (guard_writers P f reg) env n rid s = retract reg env n rid s"
  unfolding retract_def remove_all_guard ..

lemma conclude_guard: "conclude (guard_writers P f reg) env rid did t s = conclude reg env rid did t s"
  unfolding conclude_def retract_guard ..

lemma write_and_log_guard:
  "P cs did s \<Longrightarrow> write_and_log (guard_writers P f reg) env rid did t (guard_writer P f w) cs a s =
     write_and_log reg env rid did t w cs a s"
  unfolding write_and_log_def conclude_guard guard_writer_simps by simp

lemma prepare_guard:
  "prepare (guard_writers P f reg) ad live t s =
     (case prepare reg ad live t s of
        (Inl e, s') \<Rightarrow> (Inl e, s') | (Inr (cs, w), s') \<Rightarrow> (Inr (cs, guard_writer P f w), s'))"
  by (cases "writer_for reg (target_type t)") (simp_all add: prepare_def writer_for_guard split: prod.split sum.split)

lemma prepare_valid: "prepare reg ad live t s = (Inr (cs, w), s') \<Longrightarrow> validate_chunks cs = Inr ()"
  by (auto simp: prepare_def map_sum_Inr_iff split: prod.splits sum.splits)

lemma append_intent_announced:
  assumes "append_intent did cs a t1 t2 db = (Inr x, db')"
  shows "announced did cs db'"
proof -
  obtain d where d: "intent_digest did cs db = Inr d" and ev: "delivery_events_of did db' = delivery_events_of did db
      @ [(intent_row did (length cs) d t1 a)\<lparr>e_event_id := next_event_id (db_delivery_events db)\<rparr>]"
    using append_intentD [OF assms] by blast
  have "payload_matches (Some d) cs = Inr True"
  proof (cases "filter (\<lambda>e. e_event e = ''intent'') (delivery_events_of did db)")
    case Nil
    then have "chunks_digest cs = Inr d" using d by (simp add: intent_digest_def)
    then show ?thesis by (auto simp: payload_matches_def chunks_digest_def map_sum_Inr_iff starts_with_def split: option.splits)
  next
    case (Cons e es)
    then have "payload_matches (e_chunks_digest e) cs = Inr True" "d = the (e_chunks_digest e)"
      using d by (auto simp: intent_digest_def split: if_splits sum.splits bool.splits)
    then show ?thesis by (cases "e_chunks_digest e") (simp_all add: payload_matches_def)
  qed
  then show ?thesis unfolding announced_def ev by (simp add: intent_row_def)
qed

text \<open>
  C4.  A target writer is only ever called for a record that is sealed with an intact bundle, with
  chunks that pass validation, and after the delivery's log announces exactly these chunks: its
  last event is an intent with their number and payload digest.  Nothing else a writer could do
  on other calls, however arbitrary, makes a difference to what dispatch does.
\<close>

theorem writer_called_only_announced:
  "dispatch (guard_writers (\<lambda>cs did s. intact_record rid sys \<and> validate_chunks cs = Inr () \<and> announced did cs (sy_db s)) f reg)
     env ad rid t sys = dispatch reg env ad rid t sys"
proof -
  let ?P = "\<lambda>cs did s. intact_record rid sys \<and> validate_chunks cs = Inr () \<and> announced did cs (sy_db s)"
  have "deliver (guard_writers ?P f reg) env ad live t did s = deliver reg env ad live t did s"
    if i: "intact_record rid sys" for live did s
  proof (cases "prepare reg ad live t s")
    case (Pair p s1)
    show ?thesis
    proof (cases p)
      case (Inl e)
      then show ?thesis using Pair by (simp add: deliver_def prepare_guard)
    next
      case (Inr cw)
      obtain cs w where cw: "cw = (cs, w)" by (cases cw)
      have v: "validate_chunks cs = Inr ()" using Pair Inr cw prepare_valid by blast
      have "write_and_log (guard_writers ?P f reg) env r did t (guard_writer ?P f w) cs a (with_db s1 db) =
          write_and_log reg env r did t w cs a (with_db s1 db)"
        if "append_intent did cs (en_uuid env 2) (en_time env 4) (en_time env 5) (sy_db s1) = (Inr a, db)" for a db r
        using i v append_intent_announced [OF that] by (intro write_and_log_guard) simp
      then show ?thesis using Pair Inr cw by (simp add: deliver_def prepare_guard split: prod.split sum.split)
    qed
  qed
  then show ?thesis by (auto simp: dispatch_def intact_record_def split: sum.split prod.split)
qed

section \<open>What dispatching logs\<close>

text \<open>An adapter and writers that leave the ledger to the dispatcher; their own effects are on the world.\<close>

definition quiet :: "('w \<Rightarrow> 'a \<times> 'w) \<Rightarrow> 'w system \<Rightarrow> 'a \<times> 'w system" where
  "quiet f sys = (case f (sy_world sys) of (r, w) \<Rightarrow> (r, sys\<lparr>sy_world := w\<rparr>))"

lemma quiet_ledger [frame_simps]: "quiet f sys = (r, sys') \<Longrightarrow> sy_ledger sys' = sy_ledger sys"
  by (auto simp: quiet_def split: prod.splits)

definition quiet_writer ::
  "(json \<Rightarrow> target result) \<Rightarrow> (chunk list \<Rightarrow> target \<Rightarrow> string \<Rightarrow> 'w \<Rightarrow> unit result \<times> 'w) \<Rightarrow>
   (target \<Rightarrow> string \<Rightarrow> 'w \<Rightarrow> int option result \<times> 'w) \<Rightarrow> 'w writer" where
  "quiet_writer b wr rm =
     \<lparr>wr_build = b, wr_write = (\<lambda>cs t did. quiet (wr cs t did)), wr_remove = (\<lambda>t did. quiet (rm t did))\<rparr>"

text \<open>
  What one call adds to the delivery's log, and the result it then returns: nothing, for a
  delivered delivery or another payload; a failure with nothing done, when nothing was
  written; an intent with its outcome otherwise.
\<close>

definition call_outcome :: "delivery_event_row list \<Rightarrow> dispatch_result \<Rightarrow> bool" where
  "call_outcome es r \<longleftrightarrow>
     (es = [] \<and> (rs_already r \<or> (\<not> rs_success r \<and> rs_written r = Some 0))) \<or>
     (\<exists>e. es = [e] \<and> e_event e = ''failure'' \<and> e_done e = Some 0 \<and> \<not> rs_success r) \<or>
     (\<exists>i e. es = [i, e] \<and> e_event i = ''intent'' \<and> e_attempt_id e = e_attempt_id i \<and> e_attempt_id i \<noteq> None \<and>
        rs_written r = e_done e \<and>
        ((e_event e = ''receipt'' \<and> e_done e = e_planned i \<and> rs_success r) \<or>
         (e_event e = ''failure'' \<and> \<not> rs_success r)))"

lemma log_append_delivery:
  assumes "log_append e now db = (Inr u, db')"
  shows "delivery_events_of did db' = delivery_events_of did db @
    (if e_dispatch_id e = did then [e\<lparr>e_event_id := next_event_id (db_delivery_events db)\<rparr>] else [])"
proof -
  have "insert_event e now db = (Inr u, db')"
    using assms by (auto simp: log_append_def write_transaction_Inr split: prod.splits sum.splits)
  then have "db_delivery_events db' = db_delivery_events db @ [e\<lparr>e_event_id := next_event_id (db_delivery_events db)\<rparr>]"
    by (auto simp: insert_event_def insert_delivery_event_def dest!: append_event_frame(3) split: prod.splits sum.splits if_splits)
  then show ?thesis
    unfolding delivery_events_of_def using sort_key_snoc [OF next_event_id_mono, of "db_delivery_events db" e] by simp
qed

lemma open_delivery_events:
  assumes "open_delivery rid t uuid now1 now2 db = (r, db')"
  shows "delivery_events_of did db' = delivery_events_of did db"
proof -
  have ins: "insert_delivery d db = (b, db1) \<Longrightarrow> db_delivery_events db1 = db_delivery_events db" for d b db1
    by (auto simp: insert_delivery_def split: if_splits)
  have "insert_opened d now db = (x, db1) \<Longrightarrow> db_delivery_events db1 = db_delivery_events db" for d now x db1
    unfolding insert_opened_def
    by (erule write_transaction_frame) (auto split: sum.splits prod.splits bool.splits dest!: append_event_frame(3) ins)
  then have "db_delivery_events db' = db_delivery_events db"
    using assms by (auto simp: open_delivery_def split: sum.splits prod.splits option.splits)
  then show ?thesis by (simp add: delivery_events_of_def)
qed

lemma get_delivery_events:
  "get_delivery did db = Inr d \<Longrightarrow> dl_events d = delivery_events_of did db \<and> dl_dispatch_id d = did"
  by (auto simp: get_delivery_def row_delivery_of_def find_Some_iff split: option.splits)

lemma quiet_write_and_log:
  assumes w: "write_and_log reg env rid did t w cs a s = (Inr r, s')" "w = quiet_writer b wr rm"
    and live: "get_record rid (sy_db s) = Inr live" "ar_state live = SEALED"
    and ev: "delivery_events_of did (sy_db s) = es @ [i]" "e_event i = ''intent''"
      "e_planned i = Some (int (length cs))" "e_attempt_id i = Some a"
  shows "rs_dispatch_id r = did \<and>
    (\<exists>e. delivery_events_of did (sy_db s') = es @ [i, e] \<and> call_outcome [i, e] r)"
proof -
  obtain q s1 where q: "wr_write w cs t did s = (q, s1)" by (cases "wr_write w cs t did s")
  then have l: "sy_ledger s1 = sy_ledger s" unfolding w(2) quiet_writer_def by (auto dest: quiet_ledger)
  let ?fin = "\<lambda>e s2. log_event env 6 e s1 = (Inr (), s2) \<and> conclude reg env rid did t s2 = (Inr r, s')"
  have fin: "rs_dispatch_id r = did \<and> (\<exists>f. delivery_events_of did (sy_db s') = es @ [i, f] \<and>
      e_event f = e_event e \<and> e_done f = e_done e \<and> e_attempt_id f = e_attempt_id e \<and> rs_written r = e_done e \<and>
      rs_success r = (e_event e = ''receipt''))"
    if e: "?fin e s2" "e_dispatch_id e = did" "e_event e = ''receipt'' \<or> e_event e = ''failure''" for e s2
  proof -
    have a: "log_append (e\<lparr>e_at := en_time env 6\<rparr>) (en_time env 7) (sy_db s) = (Inr (), sy_db s2)"
      using e(1) l by (auto simp: log_event_def split: prod.splits)
    let ?f = "e\<lparr>e_at := en_time env 6, e_event_id := next_event_id (db_delivery_events (sy_db s))\<rparr>"
    have d2: "delivery_events_of did (sy_db s2) = es @ [i, ?f]"
      using log_append_delivery [OF a, of did] ev(1) e(2) by simp
    have "get_record rid (sy_db s2) = Inr live"
      using live(1) log_append_records [OF a] by (simp add: get_record_def find_row_def)
    then have "s' = s2" "\<exists>d. get_delivery did (sy_db s2) = Inr d \<and> r = delivery_result d t False"
      using e(1) live(2) by (auto simp: conclude_def current_result_def map_sum_Inr_iff)
    then obtain d where d: "s' = s2" "get_delivery did (sy_db s2) = Inr d" "r = delivery_result d t False" by blast
    have de: "dl_events d = es @ [i, ?f]" "dl_dispatch_id d = did" using get_delivery_events [OF d(2)] d2 by simp_all
    have "rs_written r = e_done e" "rs_success r = (e_event e = ''receipt'')"
      using e(3) by (auto simp: d(3) delivery_result_def Let_def de delivery_status_of_def status_of_event_def)
    then show ?thesis using d2 d(1) de(2) by (simp add: d(3) delivery_result_def Let_def)
  qed
  show ?thesis
  proof (cases q)
    case (Inl x)
    let ?e = "event_row_of did ''failure'' None (partial_done x) (Some (en_repr env x)) [] (Some a)"
    obtain s2 where "?fin ?e s2" using w(1) q Inl by (auto simp: write_and_log_def split: if_splits sum.splits prod.splits)
    from fin [OF this] ev show ?thesis by (auto simp: event_row_of_def call_outcome_def)
  next
    case (Inr u)
    let ?e = "event_row_of did ''receipt'' None (Some (int (length cs))) None [] (Some a)"
    obtain s2 where "?fin ?e s2" using w(1) q Inr by (auto simp: write_and_log_def split: if_splits sum.splits prod.splits)
    from fin [OF this] ev show ?thesis by (auto simp: event_row_of_def call_outcome_def)
  qed
qed

lemma quiet_prepare_ledger:
  "prepare reg (\<lambda>b. quiet (ad b)) live t s = (p, s1) \<Longrightarrow> sy_ledger s1 = sy_ledger s"
  by (auto simp: prepare_def dest: quiet_ledger split: prod.splits sum.splits)

lemma quiet_deliver:
  assumes d: "deliver reg env (\<lambda>b. quiet (ad b)) live t did s = (Inr r, s')"
    and reg: "\<forall>w \<in> snd ` set reg. \<exists>b wr rm. w = quiet_writer b wr rm"
    and live: "get_record (ar_record_id live) (sy_db s) = Inr live" "ar_state live = SEALED"
  shows "rs_dispatch_id r = did \<and>
    (\<exists>es. delivery_events_of did (sy_db s') = delivery_events_of did (sy_db s) @ es \<and> call_outcome es r)"
proof -
  obtain p s1 where p: "prepare reg (\<lambda>b. quiet (ad b)) live t s = (p, s1)" by (cases "prepare reg (\<lambda>b. quiet (ad b)) live t s")
  note l = quiet_prepare_ledger [OF p]
  show ?thesis
  proof (cases p)
    case (Inl x)
    let ?e = "event_row_of did ''failure'' None (Some 0) (Some (en_repr env x)) (en_time env 2) (Some (en_uuid env 1))"
    from d p Inl l obtain db dl where a: "log_append ?e (en_time env 3) (sy_db s) = (Inr (), db)"
      and g: "get_delivery did db = Inr dl" "r = delivery_result dl t False" "s' = with_db s1 db"
      by (auto simp: deliver_def append_unwritten_failure_def current_result_def map_sum_Inr_iff split: if_splits sum.splits prod.splits)
    let ?f = "?e\<lparr>e_event_id := next_event_id (db_delivery_events (sy_db s))\<rparr>"
    have ev: "delivery_events_of did db = delivery_events_of did (sy_db s) @ [?f]"
      using log_append_delivery [OF a, of did] by (simp add: event_row_of_def)
    have de: "dl_events dl = delivery_events_of did (sy_db s) @ [?f]" "dl_dispatch_id dl = did"
      using get_delivery_events [OF g(1)] ev by simp_all
    have "\<not> rs_success r" "rs_dispatch_id r = did"
      by (simp_all add: g(2) delivery_result_def Let_def de delivery_status_of_def status_of_event_def event_row_of_def)
    then have "call_outcome [?f] r" by (simp add: call_outcome_def event_row_of_def)
    then show ?thesis using ev g(3) \<open>rs_dispatch_id r = did\<close> by auto
  next
    case (Inr cw)
    obtain cs w where cw: "cw = (cs, w)" by (cases cw)
    have "w \<in> snd ` set reg" using p Inr cw by (auto simp: prepare_def map_sum_Inr_iff split: prod.splits sum.splits dest: writer_for_in)
    with reg obtain b wr rm where w: "w = quiet_writer b wr rm" by blast
    obtain q db where q: "append_intent did cs (en_uuid env 2) (en_time env 4) (en_time env 5) (sy_db s) = (q, db)"
      by (cases "append_intent did cs (en_uuid env 2) (en_time env 4) (en_time env 5) (sy_db s)")
    have recs: "db_records db = db_records (sy_db s)" by (rule append_intent_records [OF q])
    show ?thesis
    proof (cases q)
      case (Inl x)
      then have db: "db = sy_db s" using q write_transaction_Inl by (auto simp: append_intent_def)
      have "s' = with_db s1 db \<and> (\<exists>dl. get_delivery did db = Inr dl \<and> r = refused_result dl t (en_repr env x))"
        using d p \<open>p = Inr cw\<close> cw q Inl l by (auto simp: deliver_def map_sum_Inr_iff split: if_splits)
      then show ?thesis using db get_delivery_events by (auto simp: refused_result_def call_outcome_def)
    next
      case (Inr a)
      then obtain dg where ev: "delivery_events_of did db = delivery_events_of did (sy_db s)
          @ [(intent_row did (length cs) dg (en_time env 4) (en_uuid env 2))\<lparr>e_event_id := next_event_id (db_delivery_events (sy_db s))\<rparr>]"
        using append_intentD q by blast
      have a: "a = en_uuid env 2" using q Inr by (auto simp: append_intent_def write_transaction_Inr split: sum.splits prod.splits)
      have wl: "write_and_log reg env (ar_record_id live) did t w cs a (with_db s1 db) = (Inr r, s')"
        using d p \<open>p = Inr cw\<close> cw q Inr l by (auto simp: deliver_def split: if_splits)
      have "get_record (ar_record_id live) (sy_db (with_db s1 db)) = Inr live"
        using live(1) recs by (simp add: get_record_def find_row_def)
      from quiet_write_and_log [OF wl w this live(2)] ev a show ?thesis
        by (simp add: intent_row_def) (metis append.assoc append_Cons append_Nil)
    qed
  qed
qed

definition quiet_registry ::
  "(string, (json \<Rightarrow> target result) \<times> (chunk list \<Rightarrow> target \<Rightarrow> string \<Rightarrow> 'w \<Rightarrow> unit result \<times> 'w) \<times>
    (target \<Rightarrow> string \<Rightarrow> 'w \<Rightarrow> int option result \<times> 'w)) dict \<Rightarrow> 'w registry" where
  "quiet_registry reg = map (\<lambda>(k, b, wr, rm). (k, quiet_writer b wr rm)) reg"


section \<open>What retracting does\<close>

text \<open>As for writing: a remover that runs only when \<open>P\<close> holds of its call, and otherwise does \<open>f\<close>.\<close>

definition guard_remover ::
  "(string \<Rightarrow> 'w system \<Rightarrow> bool) \<Rightarrow> ('w system \<Rightarrow> int option result \<times> 'w system) \<Rightarrow> 'w writer \<Rightarrow> 'w writer" where
  "guard_remover P f w = w\<lparr>wr_remove := (\<lambda>t did s. if P did s then wr_remove w t did s else f s)\<rparr>"

definition guard_removers ::
  "(string \<Rightarrow> 'w system \<Rightarrow> bool) \<Rightarrow> ('w system \<Rightarrow> int option result \<times> 'w system) \<Rightarrow> 'w registry \<Rightarrow> 'w registry" where
  "guard_removers P f reg = map (\<lambda>(k, w). (k, guard_remover P f w)) reg"

text \<open>
  A delivery that may be removed: one of an invalidated record, whose log does not prove that the
  target holds nothing of it.
\<close>

definition removable :: "string \<Rightarrow> database \<Rightarrow> string \<Rightarrow> bool" where
  "removable rid db did \<longleftrightarrow>
     (case (get_record rid db, deliveries_for_record rid db) of
        (Inr r, Inr ds) \<Rightarrow> ar_state r = INVALIDATED \<and> (\<exists>d \<in> set ds. dl_dispatch_id d = did \<and> possibly_written (dl_events d))
      | _ \<Rightarrow> False)"

definition removal_announced :: "string \<Rightarrow> database \<Rightarrow> bool" where
  "removal_announced did db \<longleftrightarrow>
     (case rev (delivery_events_of did db) of [] \<Rightarrow> False | e # es \<Rightarrow> e_event e = ''removal_intent'')"

lemma writer_for_removers: "writer_for (guard_removers P f reg) k = map_sum id (guard_remover P f) (writer_for reg k)"
proof -
  have "map_of (guard_removers P f reg) k = map_option (guard_remover P f) (map_of reg k)"
    by (induction reg) (auto simp: guard_removers_def)
  then show ?thesis by (simp add: writer_for_def split: option.split)
qed

lemma log_event_ends:
  assumes "log_event env n e sys = (Inr u, sys')"
  shows "delivery_events_of did (sy_db sys') = delivery_events_of did (sy_db sys) @
    (if e_dispatch_id e = did
     then [e\<lparr>e_at := en_time env n, e_event_id := next_event_id (db_delivery_events (sy_db sys))\<rparr>] else [])"
    "sy_world sys' = sy_world sys"
proof -
  from assms obtain db where db: "log_append (e\<lparr>e_at := en_time env n\<rparr>) (en_time env (Suc n)) (sy_db sys) = (Inr u, db)"
    "sys' = with_db sys db"
    by (auto simp: log_event_def split: prod.splits)
  then show "delivery_events_of did (sy_db sys') = delivery_events_of did (sy_db sys) @
      (if e_dispatch_id e = did
       then [e\<lparr>e_at := en_time env n, e_event_id := next_event_id (db_delivery_events (sy_db sys))\<rparr>] else [])"
    "sy_world sys' = sy_world sys"
    using log_append_delivery [OF db(1), of did] by simp_all
qed

lemma remove_delivery_removers:
  assumes "\<And>s. removal_announced (dl_dispatch_id d) (sy_db s) \<Longrightarrow> P (dl_dispatch_id d) s"
  shows "remove_delivery (guard_removers P f reg) env n d s = remove_delivery reg env n d s"
proof (cases "writer_for reg (dl_target_kind d)")
  case (Inr w)
  have announced: "P (dl_dispatch_id d) s1"
    if "log_event env n (event_row_of (dl_dispatch_id d) ''removal_intent'' p dn er tm at') s = (Inr u, s1)" for p dn er tm at' u s1
    by (rule assms) (simp add: removal_announced_def log_event_ends(1) [OF that] event_row_of_def)
  have w: "wr_build (guard_remover P f w) = wr_build w"
    "P (dl_dispatch_id d) s1 \<Longrightarrow> wr_remove (guard_remover P f w) t (dl_dispatch_id d) s1 = wr_remove w t (dl_dispatch_id d) s1" for t s1
    by (simp_all add: guard_remover_def)
  show ?thesis
    using Inr announced
    by (cases "wr_build w (dl_target d)") (auto simp: remove_delivery_def writer_for_removers Let_def w split: sum.split prod.split)
qed (simp add: remove_delivery_def writer_for_removers)

lemma remove_all_removers:
  assumes "\<And>d s. d \<in> set ds \<Longrightarrow> possibly_written (dl_events d) \<Longrightarrow> removal_announced (dl_dispatch_id d) (sy_db s) \<Longrightarrow>
    P (dl_dispatch_id d) s"
  shows "remove_all (guard_removers P f reg) env n ds s = remove_all reg env n ds s"
  using assms
proof (induction ds arbitrary: n s)
  case (Cons d ds)
  have "remove_delivery (guard_removers P f reg) env n d s = remove_delivery reg env n d s" if "possibly_written (dl_events d)"
    by (rule remove_delivery_removers) (use Cons.prems that in simp)
  moreover have "remove_all (guard_removers P f reg) env k ds s' = remove_all reg env k ds s'" for k s'
    by (rule Cons.IH) (use Cons.prems in simp)
  ultimately show ?case by (simp split: prod.split sum.split)
qed simp

lemma retract_removers:
  "retract (guard_removers (\<lambda>did s. removable rid (sy_db sys) did \<and> removal_announced did (sy_db s)) f reg) env n rid sys =
   retract reg env n rid sys"
  unfolding retract_def by (auto simp: removable_def intro!: remove_all_removers split: sum.split)

text \<open>
  What a removal tells, of a target whose remover left the ledger alone.  \<open>es\<close> is what was logged,
  \<open>r\<close> the result, and the world went from \<open>w\<close> to \<open>w'\<close>.  Without a writer, or a target built
  from the stored fields, nothing is called and the failure is logged; otherwise an intent,
  and a receipt exactly when the remover returned.
\<close>

definition tells_failure :: "env \<Rightarrow> exn \<Rightarrow> removal_result \<Rightarrow> delivery_event_row \<Rightarrow> bool" where
  "tells_failure env x r e \<longleftrightarrow>
     e_event e = ''removal_failure'' \<and> e_error e = Some (en_repr env x) \<and> \<not> rm_removed r \<and> rm_chunks r = None \<and>
     rm_error r = Some (en_repr env x)"

definition tells_receipt :: "int option \<Rightarrow> removal_result \<Rightarrow> delivery_event_row \<Rightarrow> bool" where
  "tells_receipt k r e \<longleftrightarrow>
     e_event e = ''removal_receipt'' \<and> e_done e = k \<and> rm_removed r \<and> rm_chunks r = k \<and> rm_error r = None"

type_synonym 'w quiet_targets =
  "(string, (json \<Rightarrow> target result) \<times> (chunk list \<Rightarrow> target \<Rightarrow> string \<Rightarrow> 'w \<Rightarrow> unit result \<times> 'w) \<times>
    (target \<Rightarrow> string \<Rightarrow> 'w \<Rightarrow> int option result \<times> 'w)) dict"

definition remover_of :: "'w quiet_targets \<Rightarrow> delivery \<Rightarrow> ('w \<Rightarrow> int option result \<times> 'w) result" where
  "remover_of reg d =
     (case map_of reg (dl_target_kind d) of
        None \<Rightarrow> Inl UnregisteredTargetError
      | Some (b, wr, rm) \<Rightarrow> map_sum id (\<lambda>t. rm t (dl_dispatch_id d)) (b (dl_target d)))"

definition removal_told ::
  "'w quiet_targets \<Rightarrow> env \<Rightarrow> delivery \<Rightarrow> 'w \<Rightarrow> removal_result \<Rightarrow> delivery_event_row list \<Rightarrow> 'w \<Rightarrow> bool" where
  "removal_told reg env d w r es w' \<longleftrightarrow>
     rm_dispatch_id r = dl_dispatch_id d \<and>
     (case remover_of reg d of
        Inl x \<Rightarrow> w' = w \<and> (\<exists>e. es = [e] \<and> tells_failure env x r e)
      | Inr remove \<Rightarrow>
          (\<exists>i e. es = [i, e] \<and> e_event i = ''removal_intent'' \<and>
             (case remove w of
                (Inl x, w1) \<Rightarrow> w' = w1 \<and> tells_failure env x r e
              | (Inr k, w1) \<Rightarrow> w' = w1 \<and> tells_receipt k r e)))"

fun removals_told ::
  "'w quiet_targets \<Rightarrow> env \<Rightarrow> database \<Rightarrow> database \<Rightarrow> delivery list \<Rightarrow> removal_result list \<Rightarrow> 'w \<Rightarrow> 'w \<Rightarrow> bool" where
  "removals_told reg env db db' [] [] w w' = (w' = w)"
| "removals_told reg env db db' (d # ds) (r # rs) w w' =
     (\<exists>es w1. delivery_events_of (dl_dispatch_id d) db' = delivery_events_of (dl_dispatch_id d) db @ es \<and>
        removal_told reg env d w r es w1 \<and> removals_told reg env db db' ds rs w1 w')"
| "removals_told reg env db db' _ _ w w' = False"

lemma removals_told_cong:
  "(\<And>d. d \<in> set ds \<Longrightarrow> delivery_events_of (dl_dispatch_id d) db1 = delivery_events_of (dl_dispatch_id d) db) \<Longrightarrow>
   removals_told reg env db1 db' ds rs w w' = removals_told reg env db db' ds rs w w'"
  by (induction reg env db db' ds rs w w' rule: removals_told.induct) auto

lemma quiet_map_of: "map_of (quiet_registry reg) k = map_option (\<lambda>(b, wr, rm). quiet_writer b wr rm) (map_of reg k)"
  by (induction reg) (auto simp: quiet_registry_def)

lemma removal_failed_tells:
  assumes "removal_failed env n did x sys = (Inr r, sys')"
  shows "\<exists>e. (\<forall>k. delivery_events_of k (sy_db sys') = delivery_events_of k (sy_db sys) @ (if k = did then [e] else [])) \<and>
    tells_failure env x r e \<and> rm_dispatch_id r = did \<and> sy_world sys' = sy_world sys"
proof -
  let ?e = "event_row_of did ''removal_failure'' None None (Some (en_repr env x)) [] None"
  have l: "log_event env n ?e sys = (Inr (), sys')" and r: "r = \<lparr>rm_dispatch_id = did, rm_removed = False,
      rm_chunks = None, rm_error = Some (en_repr env x)\<rparr>"
    using assms by (auto simp: removal_failed_def split: prod.splits sum.splits)
  show ?thesis
    by (intro exI [of _ "?e\<lparr>e_at := en_time env n, e_event_id := next_event_id (db_delivery_events (sy_db sys))\<rparr>"])
      (auto simp: log_event_ends [OF l] r tells_failure_def event_row_of_def)
qed

lemma quiet_remove:
  assumes "remove_delivery (quiet_registry reg) env n d s = (Inr r, s')"
  shows "\<exists>es. (\<forall>k. delivery_events_of k (sy_db s') = delivery_events_of k (sy_db s) @ (if k = dl_dispatch_id d then es else [])) \<and>
    removal_told reg env d (sy_world s) r es (sy_world s')"
proof (cases "remover_of reg d")
  case (Inl x)
  then have "removal_failed env n (dl_dispatch_id d) x s = (Inr r, s')"
    using assms by (auto simp: remover_of_def remove_delivery_def writer_for_def quiet_map_of quiet_writer_def Let_def map_sum_def
        split: option.splits sum.splits if_splits prod.splits)
  then show ?thesis using removal_failed_tells Inl by (fastforce simp: removal_told_def)
next
  case (Inr remove)
  then obtain b wr rm t where reg: "map_of reg (dl_target_kind d) = Some (b, wr, rm)" "b (dl_target d) = Inr t"
    "remove = rm t (dl_dispatch_id d)"
    by (auto simp: remover_of_def map_sum_Inr_iff split: option.splits)
  let ?did = "dl_dispatch_id d"
  let ?i = "event_row_of ?did ''removal_intent'' (delivery_planned (dl_events d)) None None [] None"
  have w: "writer_for (quiet_registry reg) (dl_target_kind d) = Inr (quiet_writer b wr rm)" "wr_build (quiet_writer b wr rm) = b"
    using reg(1) by (simp_all add: writer_for_def quiet_map_of quiet_writer_def)
  obtain q1 s1 where l1: "log_event env n ?i s = (q1, s1)" by (cases "log_event env n ?i s")
  then have "q1 = Inr ()" using assms w reg(2) by (cases q1) (simp_all add: remove_delivery_def Let_def)
  with l1 have l: "log_event env n ?i s = (Inr (), s1)" by simp
  let ?i' = "?i\<lparr>e_at := en_time env n, e_event_id := next_event_id (db_delivery_events (sy_db s))\<rparr>"
  obtain q w1 where q: "remove (sy_world s) = (q, w1)" by (cases "remove (sy_world s)")
  let ?s2 = "s1\<lparr>sy_world := w1\<rparr>"
  have call: "wr_remove (quiet_writer b wr rm) t ?did s1 = (q, ?s2)"
    using q log_event_ends(2) [OF l] by (simp add: quiet_writer_def quiet_def reg(3))
  have step: "(case q of Inl x \<Rightarrow> if is_exception x then removal_failed env (n + 2) ?did x ?s2 else (Inl x, ?s2)
      | Inr k \<Rightarrow> (case log_event env (n + 2) (event_row_of ?did ''removal_receipt'' None k None [] None) ?s2 of
          (Inl e, s3) \<Rightarrow> (Inl e, s3)
        | (Inr _, s3) \<Rightarrow> (Inr \<lparr>rm_dispatch_id = ?did, rm_removed = True, rm_chunks = k, rm_error = None\<rparr>, s3))) = (Inr r, s')"
    using assms w reg(2) l call by (simp add: remove_delivery_def Let_def)
  show ?thesis
  proof (cases q)
    case (Inl x)
    then have "removal_failed env (n + 2) ?did x ?s2 = (Inr r, s')"
      using step by (simp split: if_splits)
    from removal_failed_tells [OF this] obtain e where
      "\<forall>k. delivery_events_of k (sy_db s') = delivery_events_of k (sy_db s1) @ (if k = ?did then [e] else [])"
      "tells_failure env x r e" "rm_dispatch_id r = ?did" "sy_world s' = w1" by auto
    then show ?thesis
      using Inr q Inl log_event_ends(1) [OF l] by (intro exI [of _ "[?i', e]"]) (auto simp: removal_told_def event_row_of_def)
  next
    case k: (Inr k)
    let ?e = "event_row_of ?did ''removal_receipt'' None k None [] None"
    have e: "log_event env (n + 2) ?e ?s2 = (Inr (), s')"
      and r: "r = \<lparr>rm_dispatch_id = ?did, rm_removed = True, rm_chunks = k, rm_error = None\<rparr>"
      using step k by (auto split: sum.splits prod.splits)
    let ?e' = "?e\<lparr>e_at := en_time env (n + 2), e_event_id := next_event_id (db_delivery_events (sy_db ?s2))\<rparr>"
    show ?thesis
      using Inr q k log_event_ends(1) [OF l] log_event_ends [OF e] r
      by (intro exI [of _ "[?i', ?e']"]) (auto simp: removal_told_def tells_receipt_def event_row_of_def)
  qed
qed

lemma quiet_remove_all:
  "remove_all (quiet_registry reg) env n ds s = (Inr rs, s') \<Longrightarrow> distinct (map dl_dispatch_id ds) \<Longrightarrow>
   removals_told reg env (sy_db s) (sy_db s') (filter (\<lambda>d. possibly_written (dl_events d)) ds) rs (sy_world s) (sy_world s') \<and>
   (\<forall>k. k \<notin> dl_dispatch_id ` set (filter (\<lambda>d. possibly_written (dl_events d)) ds) \<longrightarrow>
      delivery_events_of k (sy_db s') = delivery_events_of k (sy_db s))"
proof (induction ds arbitrary: n s rs)
  case (Cons d ds)
  show ?case
  proof (cases "possibly_written (dl_events d)")
    case False
    then show ?thesis using Cons.prems Cons.IH [of n s rs] by simp
  next
    case True
    then obtain r s1 rs' where r: "remove_delivery (quiet_registry reg) env n d s = (Inr r, s1)"
      "remove_all (quiet_registry reg) env (n + 4) ds s1 = (Inr rs', s')" "rs = r # rs'"
      using Cons.prems(1) by (auto split: sum.splits prod.splits)
    obtain es where es: "\<And>k. delivery_events_of k (sy_db s1) = delivery_events_of k (sy_db s) @ (if k = dl_dispatch_id d then es else [])"
      "removal_told reg env d (sy_world s) r es (sy_world s1)"
      using quiet_remove [OF r(1)] by blast
    have fresh: "dl_dispatch_id x \<noteq> dl_dispatch_id d" if "x \<in> set ds" for x
      using Cons.prems(2) imageI [OF that, of dl_dispatch_id] by auto
    note tail = Cons.IH [OF r(2)]
    let ?ds = "filter (\<lambda>d. possibly_written (dl_events d)) ds"
    have "removals_told reg env (sy_db s) (sy_db s') ?ds rs' (sy_world s1) (sy_world s')"
    proof -
      have "removals_told reg env (sy_db s1) (sy_db s') ?ds rs' (sy_world s1) (sy_world s')" using tail Cons.prems(2) by simp
      then show ?thesis
        by (subst (asm) removals_told_cong [of ?ds "sy_db s1" "sy_db s"]) (use es(1) fresh in auto)
    qed
    moreover have "delivery_events_of (dl_dispatch_id d) (sy_db s') = delivery_events_of (dl_dispatch_id d) (sy_db s) @ es"
      using tail Cons.prems(2) es(1) by auto
    moreover have "delivery_events_of k (sy_db s') = delivery_events_of k (sy_db s)"
      if "k \<noteq> dl_dispatch_id d" "k \<notin> dl_dispatch_id ` set ?ds" for k
      using tail Cons.prems(2) es(1) that by simp
    ultimately have "removals_told reg env (sy_db s) (sy_db s') (d # ?ds) (r # rs') (sy_world s) (sy_world s')"
      "\<forall>k. k \<notin> dl_dispatch_id ` set (d # ?ds) \<longrightarrow> delivery_events_of k (sy_db s') = delivery_events_of k (sy_db s)"
      using es(2) by auto
    then show ?thesis using True r(3) by simp
  qed
qed simp

lemma rows_to_deliveries_ids:
  "rows_to_deliveries rows db = Inr ds \<Longrightarrow> map dl_dispatch_id ds = map d_dispatch_id rows"
proof (induction rows arbitrary: ds)
  case (Cons x rows)
  then show ?case by (auto simp: row_delivery_of_def split: sum.splits option.splits)
qed simp

lemma deliveries_for_record_distinct:
  assumes "deliveries_for_record rid db = Inr ds" "distinct (map d_dispatch_id (db_deliveries db))"
  shows "distinct (map dl_dispatch_id ds)"
proof -
  have "mset (map d_dispatch_id (ordered_deliveries db)) = mset (map d_dispatch_id (db_deliveries db))"
    by (simp add: ordered_deliveries_def)
  then have "distinct (map d_dispatch_id (ordered_deliveries db))"
    using assms(2) by (metis mset_eq_imp_distinct_iff)
  then have "distinct (map d_dispatch_id (filter (\<lambda>d. d_record_id d = rid) (ordered_deliveries db)))"
    by (rule distinct_map_filter)
  then show ?thesis using assms(1) by (simp add: deliveries_for_record_def rows_to_deliveries_ids)
qed

text \<open>
  C3.  Retracting removes what an invalidated record delivered, and says what it did.  A remover
  is only ever called for an invalidated record, for a delivery of it whose log does not prove
  that the target holds nothing of it, and after that log announces the removal - whatever it
  could do on other calls makes no difference.  A record that is not there, or not invalidated,
  is refused with nothing called and nothing changed.  Otherwise, when removers leave the ledger
  alone and no error stops it, retracting goes through exactly the deliveries that may have
  been written, in order, each once: the log of each grows by an intent and a receipt with the
  count when its remover returned, by an intent and a failure when it raised, and by a failure
  alone when there was nothing to call; its result says the same; and the log of no other
  delivery changes.
\<close>

theorem retract_logs_outcome:
  assumes "distinct (map d_dispatch_id (db_deliveries (sy_db sys)))"
    "retract (quiet_registry reg) env n rid sys = (res, sys')"
  shows "retract (guard_removers (\<lambda>did s. removable rid (sy_db sys) did \<and> removal_announced did (sy_db s)) f any) env n rid sys =
      retract any env n rid sys \<and>
    (case get_record rid (sy_db sys) of
       Inl e \<Rightarrow> res = Inl e \<and> sys' = sys
     | Inr live \<Rightarrow>
         if ar_state live \<noteq> INVALIDATED then res = Inl ValueError \<and> sys' = sys
         else (case deliveries_for_record rid (sy_db sys) of
                 Inl e \<Rightarrow> res = Inl e \<and> sys' = sys
               | Inr ds \<Rightarrow>
                   (case res of
                      Inl e \<Rightarrow> True
                    | Inr rs \<Rightarrow>
                        removals_told reg env (sy_db sys) (sy_db sys') (filter (\<lambda>d. possibly_written (dl_events d)) ds) rs
                          (sy_world sys) (sy_world sys') \<and>
                        (\<forall>k. k \<notin> dl_dispatch_id ` set (filter (\<lambda>d. possibly_written (dl_events d)) ds) \<longrightarrow>
                           delivery_events_of k (sy_db sys') = delivery_events_of k (sy_db sys)))))"
proof (rule conjI [OF retract_removers])
  have told: "removals_told reg env (sy_db sys) (sy_db sys') (filter (\<lambda>d. possibly_written (dl_events d)) ds) rs
        (sy_world sys) (sy_world sys') \<and>
      (\<forall>k. k \<notin> dl_dispatch_id ` set (filter (\<lambda>d. possibly_written (dl_events d)) ds) \<longrightarrow>
         delivery_events_of k (sy_db sys') = delivery_events_of k (sy_db sys))"
    if "deliveries_for_record rid (sy_db sys) = Inr ds" "remove_all (quiet_registry reg) env n ds sys = (Inr rs, sys')" for ds rs
    using quiet_remove_all [OF that(2) deliveries_for_record_distinct [OF that(1) assms(1)]] .
  show "case get_record rid (sy_db sys) of
       Inl e \<Rightarrow> res = Inl e \<and> sys' = sys
     | Inr live \<Rightarrow>
         if ar_state live \<noteq> INVALIDATED then res = Inl ValueError \<and> sys' = sys
         else (case deliveries_for_record rid (sy_db sys) of
                 Inl e \<Rightarrow> res = Inl e \<and> sys' = sys
               | Inr ds \<Rightarrow>
                   (case res of
                      Inl e \<Rightarrow> True
                    | Inr rs \<Rightarrow>
                        removals_told reg env (sy_db sys) (sy_db sys') (filter (\<lambda>d. possibly_written (dl_events d)) ds) rs
                          (sy_world sys) (sy_world sys') \<and>
                        (\<forall>k. k \<notin> dl_dispatch_id ` set (filter (\<lambda>d. possibly_written (dl_events d)) ds) \<longrightarrow>
                           delivery_events_of k (sy_db sys') = delivery_events_of k (sy_db sys))))"
  proof (cases "get_record rid (sy_db sys)")
    case (Inr live)
    show ?thesis
    proof (cases "ar_state live = INVALIDATED")
      case True
      show ?thesis
      proof (cases "deliveries_for_record rid (sy_db sys)")
        case ds: (Inr ds)
        then have "remove_all (quiet_registry reg) env n ds sys = (res, sys')" using assms(2) Inr True by (simp add: retract_def)
        then show ?thesis using told [OF ds] unfolding Inr ds True sum.case simp_thms if_False
          by (cases res) (simp only: sum.case, simp only: sum.case, blast)
      qed (use assms(2) Inr True in \<open>simp add: retract_def\<close>)
    qed (use assms(2) Inr in \<open>simp add: retract_def\<close>)
  qed (use assms(2) in \<open>simp add: retract_def\<close>)
qed

definition demo_store :: archive where
  "demo_store p = (if p = sharded ''blobs'' (sha256 []) then Some (Stored []) else None)"

lemma demo_bundle_intact: "verify_archived_bundle demo_store (sha256 []) [] = Inr ()"
proof -
  have "read_blob demo_store (sha256 []) = Inr []"
    by (simp add: read_blob_def blob_path_def check_digest_def is_digest_sha256 read_file_def demo_store_def)
  then show ?thesis
    by (simp add: verify_archived_bundle_def read_tree_def decode_tree_def dict_eq_def dict_values_def verify_blobs_def)
qed

theorem bundle_read_verified_witness:
  "\<exists>r. ar_artifact_manifest r = [(''p'', sha256 [])] \<and> bundle_read (bundle_from_record r demo_store) ''p'' = Inr []"
proof -
  obtain live where live: "row_to_record (demo_row ''sealed'') = Inr live"
    by (simp add: row_to_record_def row_parser_def row_kind_def row_config_def row_conditions_def demo_row_def
        manifest_of_column_def state_of_value_def)
  let ?r = "live\<lparr>ar_artifact_manifest := [(''p'', sha256 [])]\<rparr>"
  have b: "bundle_read (bundle_from_record ?r demo_store) ''p'' = Inr []"
    by (simp add: bundle_read_def bundle_from_record_def read_blob_def blob_path_def check_digest_def
        is_digest_sha256 read_file_def demo_store_def)
  from bundle_read_verified [OF this] b show ?thesis by (intro exI [of _ ?r]) simp
qed

definition demo_system :: "unit system" where
  "demo_system = \<lparr>sy_ledger = \<lparr>lg_archive = demo_store, lg_db = demo_dispatch\<rparr>, sy_world = ()\<rparr>"

lemma demo_open: "open_delivery ''r'' (Target ''T'' []) ''a'' ''t'' ''t'' demo_dispatch = (Inr ''d'', demo_dispatch)"
proof -
  have c: "canonical_json (JObj []) = Inr ''{}''" using canonical_json_ok [of "JObj []"] by (simp add: cjson_def)
  let ?d = "\<lparr>d_dispatch_id = ''a'', d_record_id = ''r'', d_target_kind = ''T'', d_target = ''{}'', d_created_at = ''t''\<rparr>"
  have i: "insert_delivery ?d demo_dispatch = (Inr False, demo_dispatch)"
    by (simp add: insert_delivery_def demo_dispatch_def texts_ok_def utf8_ok_ascii)
  show ?thesis
    unfolding open_delivery_def encode_target_def insert_opened_def write_transaction_def
    by (simp add: c i) (simp add: demo_dispatch_def)
qed

lemma demo_get: "get_delivery ''d'' db = Inr \<lparr>dl_dispatch_id = ''d'', dl_record_id = ''r'', dl_target_kind = ''T'',
    dl_target = JObj [], dl_created_at = ''t'', dl_events = delivery_events_of ''d'' db\<rparr>"
  if "db_deliveries db = db_deliveries demo_dispatch" for db :: database
  using that cjson_roundtrip [of "JObj []"] by (simp add: cjson_def get_delivery_def row_delivery_of_def demo_dispatch_def)

lemma demo_record: "get_record ''r'' demo_dispatch = row_to_record (demo_row ''sealed'')"
  by (simp add: get_record_def find_row_def demo_dispatch_def) (simp add: demo_row_def)

lemma demo_live: "\<exists>live. row_to_record (demo_row ''sealed'') = Inr live \<and> ar_record_id live = ''r'' \<and> ar_state live = SEALED \<and>
    ar_artifact_hash live = sha256 [] \<and> ar_artifact_manifest live = []"
  by (simp add: row_to_record_def row_parser_def row_kind_def row_config_def row_conditions_def demo_row_def
      manifest_of_column_def state_of_value_def)


text \<open>An invalidated record with a write announced to a target type that is registered no more.\<close>

definition demo_announced :: delivery_event_row where
  "demo_announced = (event_row_of ''d'' ''intent'' (Some 1) None None ''t'' (Some ''a''))\<lparr>e_event_id := 1\<rparr>"

definition demo_retraction :: database where
  "demo_retraction = demo_dispatch\<lparr>db_records := [demo_row ''invalidated''], db_delivery_events := [demo_announced]\<rparr>"

definition demo_retracting :: "unit system" where
  "demo_retracting = \<lparr>sy_ledger = \<lparr>lg_archive = demo_store, lg_db = demo_retraction\<rparr>, sy_world = ()\<rparr>"

definition demo_delivery :: delivery where
  "demo_delivery = \<lparr>dl_dispatch_id = ''d'', dl_record_id = ''r'', dl_target_kind = ''T'',
     dl_target = JObj [], dl_created_at = ''t'', dl_events = [demo_announced]\<rparr>"

lemma demo_retraction_simps:
  "db_deliveries demo_retraction = db_deliveries demo_dispatch" "delivery_events_of ''d'' demo_retraction = [demo_announced]"
  "possibly_written [demo_announced]"
  by (simp_all add: demo_retraction_def delivery_events_of_def demo_announced_def event_row_of_def possibly_written_def
      scan_events_def scan_event_def Let_def)

lemma demo_invalidated_record: "\<exists>r. get_record ''r'' demo_retraction = Inr r \<and> ar_state r = INVALIDATED"
  by (simp add: get_record_def find_row_def demo_retraction_def demo_row_def row_to_record_def row_parser_def row_kind_def
      row_config_def row_conditions_def manifest_of_column_def state_of_value_def)

lemma demo_deliveries: "deliveries_for_record ''r'' demo_retraction = Inr [demo_delivery]"
proof -
  have "row_delivery_of \<lparr>d_dispatch_id = ''d'', d_record_id = ''r'', d_target_kind = ''T'', d_target = ''{}'', d_created_at = ''t''\<rparr>
      demo_retraction = Inr demo_delivery"
    using cjson_roundtrip [of "JObj []"] demo_retraction_simps
    by (simp add: cjson_def row_delivery_of_def demo_delivery_def)
  then show ?thesis
    by (simp add: deliveries_for_record_def ordered_deliveries_def demo_retraction_simps demo_dispatch_def)
qed

lemma demo_removal_logged:
  "\<exists>db. log_append (event_row_of ''d'' ''removal_failure'' None None (Some ''x'') ''t'' None) ''t'' demo_retraction = (Inr (), db)"
proof -
  let ?row = "event_row_of ''d'' ''removal_failure'' None None (Some ''x'') ''t'' None"
  let ?db1 = "demo_retraction\<lparr>db_delivery_events := [demo_announced, ?row\<lparr>e_event_id := 2\<rparr>]\<rparr>"
  have events: "db_delivery_events demo_retraction = [demo_announced]" "db_events demo_retraction = []"
    by (simp_all add: demo_retraction_def demo_dispatch_def empty_database_def)
  have body: "json_ok (delivery_event_body ?row)"
    by (simp add: delivery_event_body_def event_row_of_def utf8_ok_ascii)
  obtain ev db2 where a: "append_event ''delivery.event'' ''d'' (delivery_event_body ?row) ''t'' ?db1 = (Inr ev, db2)"
    using first_event [of ?db1 "delivery_event_body ?row" "''delivery.event''" "''d''" "''t''"] body events
    by (auto simp: utf8_ok_ascii)
  have "insert_delivery_event ?row demo_retraction = (Inr (), ?db1)"
    by (simp add: insert_delivery_event_def events next_event_id_def payload_conflict_def delivery_event_names_def)
      (simp add: event_row_of_def texts_ok_def demo_retraction_def demo_dispatch_def demo_announced_def utf8_ok_ascii)
  moreover have "e_dispatch_id ?row = ''d''" by (simp add: event_row_of_def)
  ultimately show ?thesis by (simp add: log_append_def write_transaction_def insert_event_def a)
qed

theorem retract_logs_outcome_witness:
  "\<exists>r s e. retract (quiet_registry []) demo_env 0 ''r'' demo_retracting = (Inr [r], s) \<and>
     delivery_events_of ''d'' (sy_db s) = [demo_announced, e] \<and> e_event e = ''removal_failure'' \<and> \<not> rm_removed r"
proof -
  obtain live where live: "get_record ''r'' demo_retraction = Inr live" "ar_state live = INVALIDATED"
    using demo_invalidated_record by blast
  obtain db where db: "log_append (event_row_of ''d'' ''removal_failure'' None None (Some ''x'') ''t'' None) ''t'' demo_retraction = (Inr (), db)"
    using demo_removal_logged by blast
  have dbs: "sy_db demo_retracting = demo_retraction" by (simp add: demo_retracting_def)
  have row: "(event_row_of ''d'' ''removal_failure'' None None (Some ''x'') [] None)\<lparr>e_at := ''t''\<rparr> =
      event_row_of ''d'' ''removal_failure'' None None (Some ''x'') ''t'' None"
    by (simp add: event_row_of_def)
  obtain r s where rs: "retract (quiet_registry []) demo_env 0 ''r'' demo_retracting = (Inr [r], s)"
    using live demo_deliveries demo_retraction_simps(3) db
    by (simp add: retract_def dbs demo_delivery_def remove_delivery_def writer_for_def quiet_registry_def removal_failed_def
        log_event_def demo_env_def row)
  have "distinct (map d_dispatch_id (db_deliveries (sy_db demo_retracting)))"
    by (simp add: dbs demo_retraction_simps demo_dispatch_def)
  from retract_logs_outcome [OF this rs, where f = "\<lambda>s. (Inl ValueError, s)" and any = "[]"]
  have "\<exists>e. delivery_events_of ''d'' (sy_db s) = [demo_announced, e] \<and> tells_failure demo_env UnregisteredTargetError r e"
    using live demo_deliveries demo_retraction_simps(2,3)
    by (auto simp: dbs demo_delivery_def removal_told_def remover_of_def)
  with rs show ?thesis by (auto simp: tells_failure_def)
qed

end
