(* ===== verification/Transaction.thy ===== *)
theory Transaction
  imports Dispatcher Containment
begin

text \<open>
  The pending-to-sealed protocol (\<open>stele/ledger/transaction.py\<close>): a finished sandbox run
  becomes a pending record, the caller's block runs, and the record is sealed, or failed
  when anything raised.  The block is a parameter that takes and returns the whole
  system; the file system is what it is at the two times the store reads it.
\<close>

section \<open>Checking a run against what is claimed of it\<close>

text \<open>\<open>dataclasses.replace\<close> constructs the identity anew, so it is validated again.\<close>

definition measured_parser_identity :: "parser_identity \<Rightarrow> sandbox_result \<Rightarrow> parser_identity result" where
  "measured_parser_identity p r =
     (if pi_image_digest p \<noteq> None \<and> pi_image_digest p \<noteq> sr_image_digest r then Inl ProvenanceError
      else if pi_module_sha256 p \<noteq> None \<and> pi_module_sha256 p \<noteq> sr_module_sha256 r then Inl ProvenanceError
      else check_identity (p\<lparr>pi_image_digest := sr_image_digest r, pi_module_sha256 := sr_module_sha256 r\<rparr>))"

definition check_input :: "sandbox_result \<Rightarrow> unit result" where
  "check_input r =
     (case sr_input_sha256 r of
        None \<Rightarrow> if sr_input_snapshot r \<noteq> None then Inl ProvenanceError else Inr ()
      | Some h \<Rightarrow>
          (case sr_input_snapshot r of
             None \<Rightarrow> Inl ProvenanceError
           | Some snap \<Rightarrow> if snap_digest snap \<noteq> h then Inl ProvenanceError else Inr ()))"

text \<open>\<open>bool(value)\<close>.\<close>

fun truthy :: "pyval \<Rightarrow> bool" where
  "truthy VNull = False"
| "truthy (VBool b) = b"
| "truthy (VInt i) = (i \<noteq> 0)"
| "truthy (VFloat x) = (x \<noteq> PNum 0 \<and> x \<noteq> PNegZero)"
| "truthy (VStr s) = (s \<noteq> [])"
| "truthy (VList vs) = (vs \<noteq> [])"
| "truthy (VTuple vs) = (vs \<noteq> [])"
| "truthy (VDict kvs) = (kvs \<noteq> [])"
| "truthy VOtherKeys = True"
| "truthy VOther = True"

text \<open>\<open>float(i)\<close> of an integer.\<close>

definition int_to_float :: "int \<Rightarrow> pyfloat result" where
  "int_to_float i = (case round64 (of_int i) of PInf _ \<Rightarrow> Inl (OtherError ''OverflowError'') | x \<Rightarrow> Inr x)"

definition same_limit :: "pyval \<Rightarrow> pyval \<Rightarrow> bool result" where
  "same_limit stated applied =
     (case stated of
        VFloat x \<Rightarrow>
          (case applied of
             VFloat y \<Rightarrow> Inr (float_eq y x)
           | VInt i \<Rightarrow> map_sum id (\<lambda>y. float_eq y x) (int_to_float i)
           | _ \<Rightarrow> Inr False)
      | _ \<Rightarrow> Inr (stated = applied))"

text \<open>\<open>_APPLIED_LIMITS\<close>: each stated condition with the key the backend reports it under.\<close>

definition stated_limits :: "run_conditions \<Rightarrow> (string \<times> pyval option) list" where
  "stated_limits rc =
     [(''memory'', map_option VStr (rc_memory rc)),
      (''cpus'', map_option VFloat (rc_cpus rc)),
      (''pids'', map_option VInt (rc_pids_limit rc)),
      (''timeout_seconds'', map_option VInt (rc_timeout_seconds rc))]"

text \<open>The device is confirmed: the backend used it, or reports no GPU and none was claimed.\<close>

definition device_ok :: "run_conditions \<Rightarrow> (string \<times> pyval) list \<Rightarrow> bool" where
  "device_ok rc applied =
     (case map_of applied ''gpu'' of
        Some g \<Rightarrow> (if truthy g then ''gpu'' else ''cpu'') = rc_device rc
      | None \<Rightarrow> rc_device rc \<noteq> ''gpu'')"

text \<open>The loop over the limits: whether any of them is a problem.\<close>

fun limit_problems :: "(string \<times> pyval option) list \<Rightarrow> (string \<times> pyval) list \<Rightarrow> bool result" where
  "limit_problems [] applied = Inr False"
| "limit_problems ((key, None) # rest) applied = limit_problems rest applied"
| "limit_problems ((key, Some stated) # rest) applied =
     (case map_of applied key of
        None \<Rightarrow> map_sum id (\<lambda>_. True) (limit_problems rest applied)
      | Some a \<Rightarrow>
          (case same_limit stated a of
             Inl e \<Rightarrow> Inl e
           | Inr same \<Rightarrow> map_sum id (\<lambda>p. \<not> same \<or> p) (limit_problems rest applied)))"

definition check_conditions :: "sandbox_result \<Rightarrow> run_conditions option \<Rightarrow> unit result" where
  "check_conditions r rc =
     (case rc of
        None \<Rightarrow> Inr ()
      | Some c \<Rightarrow>
          (let applied = (case sr_telemetry r of None \<Rightarrow> [] | Some t \<Rightarrow> tm_limits t) in
           case limit_problems (stated_limits c) applied of
             Inl e \<Rightarrow> Inl e
           | Inr p \<Rightarrow> if p \<or> \<not> device_ok c applied then Inl ProvenanceError else Inr ()))"

section \<open>The transaction\<close>

text \<open>\<open>_fail_quietly\<close>: what \<open>fail\<close> raises is swallowed.\<close>

definition fail_quietly :: "env \<Rightarrow> nat \<Rightarrow> string \<Rightarrow> exn \<Rightarrow> 'w system \<Rightarrow> 'w system" where
  "fail_quietly env n rid x sys =
     with_db sys (snd (fail_record rid (en_repr env x) (en_time env n) (en_time env (Suc n)) (sy_db sys)))"

definition state_or_none :: "string \<Rightarrow> database \<Rightarrow> artifact_state option" where
  "state_or_none rid db = (case get_record rid db of Inl e \<Rightarrow> None | Inr r \<Rightarrow> Some (ar_state r))"

definition with_ledger :: "'w system \<Rightarrow> ledger \<Rightarrow> 'w system" where
  "with_ledger sys st = sys\<lparr>sy_ledger := st\<rparr>"

text \<open>The context manager's exit: sealing, or failing the record.\<close>

definition seal_or_fail :: "env \<Rightarrow> file_system \<Rightarrow> string \<Rightarrow> 'w system \<Rightarrow> unit result \<times> 'w system" where
  "seal_or_fail env fs rid sys =
     (case seal fs rid (en_time env 4) (en_time env 5) (sy_ledger sys) of
        (Inr _, st) \<Rightarrow> (Inr (), with_ledger sys st)
      | (Inl x, st) \<Rightarrow>
          if is_exception x \<and> state_or_none rid (lg_db st) = Some SEALED then (Inr (), with_ledger sys st)
          else (Inl x, fail_quietly env 6 rid x (with_ledger sys st)))"

definition run_input_of ::
  "sandbox_result \<Rightarrow> parser_identity \<Rightarrow> pyval \<Rightarrow> source option \<Rightarrow> run_conditions option \<Rightarrow> run_input" where
  "run_input_of r identity config src rc =
     \<lparr>in_run_id = sr_run_id r, in_artifact_dir = sr_artifact_dir r, in_artifact_paths = sr_artifact_paths r,
      in_parser = identity, in_parser_config = config, in_input_snapshot = sr_input_snapshot r,
      in_source = src, in_backend = sr_backend r, in_run_conditions = rc\<rparr>"

text \<open>The checks on entry, and the measured identity.\<close>

definition admit ::
  "sandbox_result \<Rightarrow> parser_identity \<Rightarrow> run_conditions option \<Rightarrow> parser_identity result" where
  "admit r parser rc =
     (if \<not> succeeded r \<or> \<not> produced_artifacts r then Inl SandboxFailedError
      else case check_input r of Inl e \<Rightarrow> Inl e | Inr _ \<Rightarrow>
      (case check_conditions r rc of Inl e \<Rightarrow> Inl e | Inr _ \<Rightarrow> measured_parser_identity parser r))"

definition ledger_transaction ::
  "env \<Rightarrow> file_system \<Rightarrow> file_system \<Rightarrow> sandbox_result \<Rightarrow> parser_identity \<Rightarrow> pyval \<Rightarrow> source option \<Rightarrow>
   run_conditions option \<Rightarrow> (artifact_record \<Rightarrow> 'w system \<Rightarrow> unit result \<times> 'w system) \<Rightarrow> 'w system \<Rightarrow>
   artifact_record result \<times> 'w system" where
  "ledger_transaction env fs fs' r parser config src rc block sys =
     (case admit r parser rc of
        Inl e \<Rightarrow> (Inl e, sys)
      | Inr identity \<Rightarrow>
          (case create_pending fs (run_input_of r identity config src rc) (en_uuid env 0) (en_time env 0)
                  (en_time env 1) (sy_ledger sys) of
             (Inl e, st) \<Rightarrow> (Inl e, with_ledger sys st)
           | (Inr record, st) \<Rightarrow>
               if sr_bundle_digest r \<noteq> None \<and> sr_bundle_digest r \<noteq> Some (ar_artifact_hash record)
               then (Inl ProvenanceError,
                     fail_quietly env 2 (ar_record_id record) ProvenanceError (with_ledger sys st))
               else (case block record (with_ledger sys st) of
                       (Inl x, sys1) \<Rightarrow> (Inl x, fail_quietly env 2 (ar_record_id record) x sys1)
                     | (Inr _, sys1) \<Rightarrow>
                         (case seal_or_fail env fs' (ar_record_id record) sys1 of
                            (Inl x, sys2) \<Rightarrow> (Inl x, sys2)
                          | (Inr _, sys2) \<Rightarrow> (Inr record, sys2)))))"

definition record_run ::
  "env \<Rightarrow> file_system \<Rightarrow> file_system \<Rightarrow> sandbox_result \<Rightarrow> parser_identity \<Rightarrow> pyval \<Rightarrow> source option \<Rightarrow>
   run_conditions option \<Rightarrow> 'w system \<Rightarrow> artifact_record result \<times> 'w system" where
  "record_run env fs fs' r parser config src rc sys =
     (case ledger_transaction env fs fs' r parser config src rc (\<lambda>_ s. (Inr (), s)) sys of
        (Inl e, sys') \<Rightarrow> (Inl e, sys')
      | (Inr record, sys') \<Rightarrow> (get_record (ar_record_id record) (sy_db sys'), sys'))"

section \<open>Lemmas\<close>

text \<open>A condition is confirmed: not stated, or reported with the same value.\<close>

definition limit_confirmed :: "(string \<times> pyval) list \<Rightarrow> string \<times> pyval option \<Rightarrow> bool" where
  "limit_confirmed applied c =
     (case c of
        (key, None) \<Rightarrow> True
      | (key, Some stated) \<Rightarrow> (\<exists>a. map_of applied key = Some a \<and> same_limit stated a = Inr True))"

lemma limit_problems_False:
  "limit_problems cs applied = Inr False \<longleftrightarrow> (\<forall>c \<in> set cs. limit_confirmed applied c)"
proof (induction cs applied rule: limit_problems.induct)
  case (3 key stated rest applied)
  show ?case
  proof (cases "map_of applied key")
    case (Some a)
    have "map_sum id ((\<or>) (\<not> same)) x = Inr False \<longleftrightarrow> same \<and> x = Inr False" for same and x :: "bool result"
      by (auto simp: map_sum_Inr_iff)
    then show ?thesis using 3 Some by (cases "same_limit stated a") (simp_all add: limit_confirmed_def)
  qed (auto simp: limit_confirmed_def map_sum_Inr_iff)
qed (simp_all add: limit_confirmed_def)

text \<open>
  Stated run conditions are accepted exactly when the backend confirms all of them: the device
  is the one it used (or no GPU is claimed and none reported), and every stated limit is
  reported as applied with the same value - for the float limit, an equal number; a limit the
  backend does not report is refused.
\<close>

theorem conditions_confirmed_exact:
  "check_conditions r (Some c) = Inr () \<longleftrightarrow>
   (let applied = (case sr_telemetry r of None \<Rightarrow> [] | Some t \<Rightarrow> tm_limits t) in
    device_ok c applied \<and> (\<forall>l \<in> set (stated_limits c). limit_confirmed applied l))"
  unfolding check_conditions_def Let_def limit_problems_False [symmetric]
  by (auto split: sum.splits)

lemma measured_parser_identityD:
  "measured_parser_identity p r = Inr q \<Longrightarrow>
   q = p\<lparr>pi_image_digest := sr_image_digest r, pi_module_sha256 := sr_module_sha256 r\<rparr>"
  by (auto simp: measured_parser_identity_def split: if_splits dest: check_identity_Inr)

lemma check_inputD: "check_input r = Inr () \<Longrightarrow> map_option snap_digest (sr_input_snapshot r) = sr_input_sha256 r"
  by (auto simp: check_input_def split: option.splits if_splits)

section \<open>Run conditions round trip\<close>

definition valid_conditions :: "run_conditions \<Rightarrow> bool" where
  "valid_conditions c \<longleftrightarrow> (\<exists>d m cp p t. make_run_conditions d m cp p t = Inr c)"

text \<open>The float of a positive integer is positive.\<close>

lemma bit_len_bound: "0 < n \<Longrightarrow> 2 ^ bit_len n \<le> 2 * n"
proof (induction n rule: bit_len.induct)
  case (1 n)
  show ?case
  proof (cases "n div 2 = 0")
    case True
    then have "n = 1" using 1 by simp
    then show ?thesis by (simp add: bit_len_1)
  next
    case False
    then have "2 ^ bit_len (n div 2) \<le> 2 * (n div 2)" using 1 by auto
    then show ?thesis using 1 by (subst bit_len.simps) simp
  qed
qed

lemma round64_pos:
  assumes "0 < i"
  shows "(\<exists>b. round64 (of_int i) = PInf b) \<or> \<not> not_positive (round64 (of_int i))"
proof -
  let ?a = "of_int i :: rat"
  define e0 where "e0 = int (bit_len (nat i)) - int (bit_len 1)"
  define e where "e = (if ?a < pow_z 2 e0 then e0 - 1 else e0)"
  define k where "k = max (e - 52) (- 1074)"
  define q where "q = of_int (round_even (?a / pow_z 2 k)) * pow_z 2 k"
  have a: "1 \<le> ?a" using assms by simp
  have bl: "bit_len (nat i) \<noteq> 0" using assms by (subst bit_len.simps) simp
  have "pow_z 2 e0 \<le> ?a"
  proof -
    have "2 ^ bit_len (nat i) \<le> 2 * nat i" by (rule bit_len_bound) (use assms in simp)
    then have "(2::rat) ^ bit_len (nat i) \<le> 2 * ?a"
      using assms by (metis (mono_tags) of_nat_le_iff of_nat_mult of_nat_numeral of_nat_power of_nat_nat of_int_of_nat_eq less_imp_le)
    moreover have "(2::rat) ^ bit_len (nat i) = 2 * 2 ^ nat e0"
      using bl by (simp add: e0_def bit_len_1 power_eq_if [of _ "bit_len (nat i)"] nat_diff_distrib)
    ultimately show ?thesis using bl by (simp add: pow_z_def e0_def bit_len_1)
  qed
  then have e: "e = e0" by (simp add: e_def)
  have kp: "0 < pow_z 2 k" by (simp add: pow_z_def)
  have mono: "pow_z 2 x \<le> pow_z (2::rat) y" if "x \<le> y" for x y
    using that by (auto simp: pow_z_def field_simps power_increasing simp flip: power_add intro: order_trans [OF _ one_le_power])
  have "pow_z 2 k \<le> ?a"
  proof (cases "e - 52 \<le> - 1074")
    case True
    then have "pow_z 2 k \<le> pow_z 2 0" unfolding k_def by (intro mono) simp
    then show ?thesis using a by (simp add: pow_z_def)
  next
    case False
    then have "pow_z 2 k \<le> pow_z 2 e0" unfolding k_def e by (intro mono) simp
    then show ?thesis using \<open>pow_z 2 e0 \<le> ?a\<close> by simp
  qed
  then have "1 \<le> ?a / pow_z 2 k" using kp by simp
  then have "1 \<le> round_even (?a / pow_z 2 k)" by (auto simp: round_even_def Let_def le_floor_iff)
  then have q: "0 < q" using kp by (simp add: q_def)
  have "round64 ?a = (if 2 ^ 1024 \<le> q then PInf (?a < 0)
              else if q = 0 then (if ?a < 0 then PNegZero else PNum 0)
              else PNum (if ?a < 0 then - q else q))"
  proof -
    have "quotient_of ?a = (i, 1)" "\<bar>?a\<bar> = ?a" "(?a = 0) = False" using assms by (simp_all add: quotient_of_int)
    then show ?thesis unfolding q_def k_def e_def e0_def round64_def Let_def by (simp only: prod.case if_False nat_one_as_int [symmetric] nat_1 One_nat_def)
  qed
  then show ?thesis using q assms by (simp add: not_positive_def del: power_numeral)
qed

lemma valid_conditionsD:
  assumes "valid_conditions c"
  shows "rc_device c = ''cpu'' \<or> rc_device c = ''gpu''"
    "check_memory (opt_str (rc_memory c)) = Inr (rc_memory c)"
    "check_cpus (case rc_cpus c of None \<Rightarrow> JNull | Some x \<Rightarrow> JFloat x) = Inr (rc_cpus c)"
    "check_positive_int (opt_int (rc_pids_limit c)) = Inr (rc_pids_limit c)"
    "check_positive_int (opt_int (rc_timeout_seconds c)) = Inr (rc_timeout_seconds c)"
proof -
  obtain d m cp p t where c: "make_run_conditions d m cp p t = Inr c" using assms by (auto simp: valid_conditions_def)
  have mem: "check_memory m = Inr x \<Longrightarrow> check_memory (opt_str x) = Inr x" for x
    by (auto simp: check_memory_def split: json.splits if_splits)
  have pos: "check_positive_int v = Inr x \<Longrightarrow> check_positive_int (opt_int x) = Inr x" for v x
    by (auto simp: check_positive_int_def split: json.splits if_splits)
  have r64: "\<exists>z. y = Some z \<and> \<not> not_positive z"
    if "0 < i" "(case round64 (of_int i) of PInf _ \<Rightarrow> Inl (OtherError ''OverflowError'') | x \<Rightarrow> Inr (Some x)) = Inr y" for i y
    using round64_pos [OF that(1)] that(2) by (cases "round64 (rat_of_int i)") auto
  have cpu: "check_cpus cp = Inr x \<Longrightarrow> check_cpus (case x of None \<Rightarrow> JNull | Some x \<Rightarrow> JFloat x) = Inr x" for x
  proof (cases cp)
    case (JInt i)
    moreover assume "check_cpus cp = Inr x"
    ultimately have "0 < i" "\<exists>z. x = Some z \<and> \<not> not_positive z"
      using r64 [of i x] by (auto simp: check_cpus_def split: if_splits)
    then show ?thesis by (auto simp: check_cpus_def)
  qed (auto simp: check_cpus_def split: if_splits)
  show "rc_device c = ''cpu'' \<or> rc_device c = ''gpu''" "check_memory (opt_str (rc_memory c)) = Inr (rc_memory c)"
    "check_cpus (case rc_cpus c of None \<Rightarrow> JNull | Some x \<Rightarrow> JFloat x) = Inr (rc_cpus c)"
    "check_positive_int (opt_int (rc_pids_limit c)) = Inr (rc_pids_limit c)"
    "check_positive_int (opt_int (rc_timeout_seconds c)) = Inr (rc_timeout_seconds c)"
    using c mem pos cpu by (auto simp: make_run_conditions_def split: if_splits sum.splits json.splits)
qed

lemma conditions_read_back:
  assumes "valid_conditions c" "json_rep (run_conditions_to_dict c)" "conditions_json (Some c) = Inr (Some t)"
  shows "\<exists>j. json_loads t = Some j \<and> run_conditions_from_dict j = Inr c"
proof -
  note v = valid_conditionsD [OF assms(1)]
  define cpus where "cpus = (case rc_cpus c of None \<Rightarrow> JNull | Some x \<Rightarrow> JFloat x)"
  define kvs where "kvs = [(''device'', JStr (rc_device c)), (''memory'', opt_str (rc_memory c)), (''cpus'', cpus),
      (''pids_limit'', opt_int (rc_pids_limit c)), (''timeout_seconds'', opt_int (rc_timeout_seconds c))]"
  have d: "run_conditions_to_dict c = JObj kvs" by (simp add: run_conditions_to_dict_def kvs_def cpus_def)
  have t: "canonical_json (JObj kvs) = Inr t" using assms(3) d by (simp add: conditions_json_def map_sum_Inr_iff)
  obtain b where b: "json_loads t = Some (JObj b)" "map_of b = map_option jsort \<circ> map_of kvs"
    "\<And>k. jget b k = jsort (jget kvs k)" by (rule loads_body [OF assms(2) [unfolded d] t]) blast
  have js: "jsort cpus = cpus" by (simp add: cpus_def split: option.split)
  have dom: "set (map fst b) = set condition_fields"
  proof -
    have "set (map fst b) = dom (map_of b)" by (simp add: dom_map_of_conv_image_fst)
    also have "\<dots> = set (map fst kvs)" by (simp add: b(2) dom_map_of_conv_image_fst dom_def [symmetric] del: map_of.simps)
    finally show ?thesis by (simp add: kvs_def condition_fields_def)
  qed
  have "map_of b ''device'' = Some (JStr (rc_device c))" by (simp add: b(2) kvs_def)
  moreover have "jget b ''memory'' = opt_str (rc_memory c)" "jget b ''cpus'' = cpus"
    "jget b ''pids_limit'' = opt_int (rc_pids_limit c)" "jget b ''timeout_seconds'' = opt_int (rc_timeout_seconds c)"
    by (simp_all add: b(3) kvs_def jget_simps js)
  ultimately have "run_conditions_from_dict (JObj b) =
      make_run_conditions (JStr (rc_device c)) (opt_str (rc_memory c)) cpus (opt_int (rc_pids_limit c)) (opt_int (rc_timeout_seconds c))"
    using dom by (simp add: run_conditions_from_dict_def)
  also have "\<dots> = Inr c" using v by (auto simp: make_run_conditions_def cpus_def)
  finally show ?thesis using b(1) by blast
qed

text \<open>
  The conditions of a run survive the ledger: what the column stores for conditions their
  constructor accepts reads back as the same conditions, whatever mix of limits is stated.
\<close>

theorem run_conditions_roundtrip:
  assumes "valid_conditions c" "json_rep (run_conditions_to_dict c)" "conditions_json (Some c) = Inr (Some t)"
  shows "\<exists>j. json_loads t = Some j \<and> run_conditions_from_dict j = Inr c"
  using assms by (rule conditions_read_back)

theorem run_conditions_roundtrip_witness:
  "\<exists>c t j. rc_device c = ''gpu'' \<and> rc_pids_limit c = Some 64 \<and> conditions_json (Some c) = Inr (Some t) \<and>
     json_loads t = Some j \<and> run_conditions_from_dict j = Inr c"
proof -
  let ?c = "\<lparr>rc_device = ''gpu'', rc_memory = None, rc_cpus = None, rc_pids_limit = Some 64, rc_timeout_seconds = Some 30\<rparr>"
  have v: "valid_conditions ?c" unfolding valid_conditions_def
    by (rule exI [of _ "JStr ''gpu''"], rule exI [of _ JNull], rule exI [of _ JNull], rule exI [of _ "JInt 64"], rule exI [of _ "JInt 30"])
      (simp add: make_run_conditions_def check_memory_def check_cpus_def check_positive_int_def)
  have r: "json_rep (run_conditions_to_dict ?c)" "json_ok (run_conditions_to_dict ?c)"
    by (simp_all add: run_conditions_to_dict_def utf8_ok_ascii)
  have c: "conditions_json (Some ?c) = Inr (Some (cjson (run_conditions_to_dict ?c)))"
    using canonical_json_ok [OF r(2)] by (simp add: conditions_json_def)
  from run_conditions_roundtrip [OF v r(1) c] c show ?thesis
    by (intro exI [of _ ?c] exI [of _ "cjson (run_conditions_to_dict ?c)"]) auto
qed

section \<open>From run to sealed record\<close>

lemma row_kind_pending:
  "row_kind (pending_row i config conditions sid m h rid now) = Inr (map_option snap_kind (in_input_snapshot i))"
proof (cases "in_input_snapshot i")
  case (Some x)
  have "kind_value (snap_kind x) \<noteq> []" by (cases "snap_kind x") simp_all
  then show ?thesis using Some by (simp add: row_kind_def pending_row_def)
qed (simp add: row_kind_def pending_row_def)

text \<open>What the store reads back of the row it inserted.\<close>

lemma pending_row_record:
  assumes "canonical_parser_config (in_parser_config i) = Inr config" "conditions_json (in_run_conditions i) = Inr conditions"
    and "\<And>c. in_run_conditions i = Some c \<Longrightarrow> valid_conditions c \<and> json_rep (run_conditions_to_dict c)"
    and "check_identity (in_parser i) = Inr (in_parser i)"
  shows "\<exists>j. row_to_record (pending_row i config conditions sid m h rid now) = Inr
    \<lparr>ar_record_id = rid, ar_run_id = in_run_id i, ar_source_path = map_option src_locator (in_source i),
     ar_source_hash = map_option snap_digest (in_input_snapshot i), ar_source_kind = map_option snap_kind (in_input_snapshot i),
     ar_source_id = sid, ar_parser = Some (in_parser i), ar_parser_config = Some j, ar_backend = in_backend i,
     ar_artifact_dir = as_posix (in_artifact_dir i), ar_artifact_manifest = m, ar_artifact_hash = h, ar_state = PENDING,
     ar_created_at = now, ar_finalized_at = None, ar_error = None, ar_legacy_source_hash = None,
     ar_run_conditions = in_run_conditions i\<rparr>"
proof -
  let ?r = "pending_row i config conditions sid m h rid now"
  obtain j where "json_loads config = Some j"
    using assms(1) by (auto simp: canonical_parser_config_def split: pyval.splits option.splits sum.splits if_splits)
  then have 1: "row_config ?r = Inr (Some j)" by (simp add: row_config_def pending_row_def)
  have 2: "row_conditions ?r = Inr (in_run_conditions i)"
  proof (cases "in_run_conditions i")
    case None
    then show ?thesis using assms(2) by (simp add: row_conditions_def pending_row_def conditions_json_def)
  next
    case (Some c)
    with assms(2) obtain t where t: "conditions = Some t" "conditions_json (Some c) = Inr (Some t)"
      by (auto simp: conditions_json_def map_sum_Inr_iff)
    have "\<exists>j. json_loads t = Some j \<and> run_conditions_from_dict j = Inr c"
      using conditions_read_back assms(3) [OF Some] t(2) by blast
    then show ?thesis using t(1) Some by (auto simp: row_conditions_def pending_row_def)
  qed
  have 3: "row_parser ?r = Inr (Some (in_parser i))" using assms(4) by (cases "in_parser i") (simp add: row_parser_def pending_row_def)
  have 4: "manifest_of_column (r_artifact_manifest ?r) = Inr m"
    by (simp add: pending_row_def manifest_of_column_def manifest_column_def manifest_of_column_map)
  have 5: "state_of_value (r_state ?r) = Inr PENDING" by (simp add: pending_row_def state_of_value_def)
  have "\<exists>j. row_config ?r = Inr (Some j)" using 1 by blast
  then show ?thesis
    unfolding row_to_record_def 2 3 4 5 row_kind_pending by (auto simp: pending_row_def)
qed

text \<open>Creating a pending record inserts one row, which reads back; or it changes no record.\<close>

definition inserted_row ::
  "run_input \<Rightarrow> string \<Rightarrow> ledger \<Rightarrow> ledger \<Rightarrow> artifact_record \<Rightarrow> record_row \<Rightarrow> bool" where
  "inserted_row i rid st st' a row \<longleftrightarrow>
     db_records (lg_db st') = db_records (lg_db st) @ [row] \<and> rid \<notin> r_record_id ` set (db_records (lg_db st)) \<and>
     r_record_id row = rid \<and> r_state row = ''pending'' \<and> row_to_record row = Inr a \<and>
     ar_record_id a = rid \<and> ar_state a = PENDING \<and> ar_run_id a = in_run_id i \<and>
     ar_source_hash a = map_option snap_digest (in_input_snapshot i) \<and> ar_parser a = Some (in_parser i) \<and>
     ar_backend a = in_backend i \<and> ar_run_conditions a = in_run_conditions i"

lemma find_appended:
  assumes "rid \<notin> r_record_id ` set rs" "r_record_id row = rid"
  shows "find (\<lambda>r. r_record_id r = rid) (rs @ [row]) = Some row"
proof -
  have "find (\<lambda>r. r_record_id r = rid) rs = None" using assms(1) by (auto simp: find_None_iff)
  then show ?thesis using assms(2) by (induction rs) (auto split: if_splits)
qed

lemma insert_pending_row:
  assumes "insert_pending row now db = (Inr u, db')"
  shows "db_records db' = db_records db @ [row] \<and> r_record_id row \<notin> r_record_id ` set (db_records db)"
proof -
  from assms obtain x db1 body ev where i: "insert_record row db = (Inr x, db1)"
    and a: "append_event ''record.created'' (r_record_id row) body now db1 = (Inr ev, db')"
    by (auto simp: insert_pending_def write_transaction_Inr split: prod.splits sum.splits)
  then show ?thesis using append_event_frame(1) [OF a] by (auto simp: insert_record_def split: if_splits)
qed

lemma create_pending_cases:
  assumes "create_pending fs i rid now1 now2 st = (res, st')"
  obtains (refused) e where "res = Inl e" "lg_db st' = lg_db st"
  | (insert) config conditions sid m h q db' where
    "canonical_parser_config (in_parser_config i) = Inr config" "conditions_json (in_run_conditions i) = Inr conditions"
    "insert_pending (pending_row i config conditions sid m h rid now1) now2 (lg_db st) = (q, db')"
    "lg_db st' = db'" "case q of Inl x \<Rightarrow> \<exists>e. res = Inl e | Inr u \<Rightarrow> res = get_record rid db'"
  using assms unfolding create_pending_def Let_def
  by (auto split: if_split_asm sum.split_asm prod.split_asm option.split_asm)

lemma create_pending_row:
  assumes "create_pending fs i rid now1 now2 st = (res, st')"
    and "\<And>c. in_run_conditions i = Some c \<Longrightarrow> valid_conditions c \<and> json_rep (run_conditions_to_dict c)"
    and "check_identity (in_parser i) = Inr (in_parser i)"
  shows "case res of Inl e \<Rightarrow> db_records (lg_db st') = db_records (lg_db st)
    | Inr a \<Rightarrow> \<exists>row. inserted_row i rid st st' a row"
  using assms(1)
proof (cases rule: create_pending_cases)
  case (insert config conditions sid m h q db')
  let ?row = "pending_row i config conditions sid m h rid now1"
  show ?thesis
  proof (cases q)
    case (Inl x)
    then have "db' = lg_db st" using insert(3) write_transaction_Inl by (auto simp: insert_pending_def)
    then show ?thesis using insert(4,5) Inl by auto
  next
    case (Inr u)
    have rid: "r_record_id ?row = rid" "r_state ?row = ''pending''" by (simp_all add: pending_row_def)
    note ins = insert_pending_row [OF insert(3) [unfolded Inr]]
    obtain j where row: "row_to_record ?row = Inr
      \<lparr>ar_record_id = rid, ar_run_id = in_run_id i, ar_source_path = map_option src_locator (in_source i),
       ar_source_hash = map_option snap_digest (in_input_snapshot i), ar_source_kind = map_option snap_kind (in_input_snapshot i),
       ar_source_id = sid, ar_parser = Some (in_parser i), ar_parser_config = Some j, ar_backend = in_backend i,
       ar_artifact_dir = as_posix (in_artifact_dir i), ar_artifact_manifest = m, ar_artifact_hash = h, ar_state = PENDING,
       ar_created_at = now1, ar_finalized_at = None, ar_error = None, ar_legacy_source_hash = None,
       ar_run_conditions = in_run_conditions i\<rparr>"
      using pending_row_record [OF insert(1,2) assms(2,3)] by blast
    have "find (\<lambda>r. r_record_id r = rid) (db_records db') = Some ?row"
      using ins rid find_appended [of rid "db_records (lg_db st)" ?row] by auto
    then have "res = row_to_record ?row" using insert(5) Inr by (simp add: get_record_def find_row_def)
    moreover have "inserted_row i rid st st' a ?row" if "row_to_record ?row = Inr a" for a
      using ins rid insert(4) row that by (auto simp: inserted_row_def)
    ultimately show ?thesis using row by auto
  qed
qed simp

text \<open>The one row with a record id.\<close>

definition sole_row :: "string \<Rightarrow> database \<Rightarrow> record_row \<Rightarrow> bool" where
  "sole_row rid db row \<longleftrightarrow> filter (\<lambda>r. r_record_id r = rid) (db_records db) = [row]"

lemma filter_find: "filter P xs = [x] \<Longrightarrow> find P xs = Some x"
  by (induction xs) (auto split: if_splits)

lemma sole_row_get: "sole_row rid db row \<Longrightarrow> get_record rid db = row_to_record row"
  using filter_find [of "\<lambda>r. r_record_id r = rid" "db_records db" row]
  by (simp add: sole_row_def get_record_def find_row_def)

lemma inserted_sole: "inserted_row i rid st st' a row \<Longrightarrow> sole_row rid (lg_db st') row"
  by (auto simp: inserted_row_def sole_row_def filter_empty_conv) (metis image_eqI)

lemma filter_update:
  assumes "\<And>r. r_record_id (upd r) = r_record_id r"
  shows "filter (\<lambda>r. r_record_id r = rid) (map (\<lambda>r. if r_record_id r = rid \<and> P r then upd r else r) rs) =
    map (\<lambda>r. if P r then upd r else r) (filter (\<lambda>r. r_record_id r = rid) rs)"
  using assms by (induction rs) auto

lemma transition_Inl: "transition rid from upd texts k body now db = (Inl e, db') \<Longrightarrow> db' = db"
  by (auto simp: transition_def write_transaction_def split: if_split_asm sum.split_asm prod.split_asm bool.split_asm)

lemma transition_sole:
  assumes "transition rid from upd texts k body now db = (Inr u, db')" "sole_row rid db row"
    and "\<And>r. r_record_id (upd r) = r_record_id r"
  shows "sole_row rid db' (upd row)"
proof -
  obtain r ev where r: "r \<in> set (db_records db)" "r_record_id r = rid" "r_state r \<in> set (map state_value from)"
    and a: "append_event k rid body now (update_where rid from upd db) = (Inr ev, db')"
    using assms(1) by (auto simp: transition_def write_transaction_def split: if_split_asm sum.split_asm prod.split_asm bool.split_asm)
  have "r \<in> set (filter (\<lambda>r. r_record_id r = rid) (db_records db))" using r by simp
  then have "r \<in> set [row]" using assms(2) by (simp only: sole_row_def)
  then have "r = row" by simp
  then have "sole_row rid (update_where rid from upd db) (upd row)"
    using assms(2) r(3) filter_update [OF assms(3), of rid "\<lambda>r. r_state r \<in> set (map state_value from)" "db_records db"]
    by (simp add: sole_row_def update_where_def)
  then show ?thesis using append_event_frame(1) [OF a] by (simp add: sole_row_def)
qed

lemma row_to_record_state:
  assumes "row_to_record row = Inr a"
  shows "row_to_record (set_sealed t row) = Inr (a\<lparr>ar_state := SEALED, ar_finalized_at := Some t\<rparr>)"
    "\<exists>b. row_to_record (set_failed t x row) = Inr b \<and> ar_state b = FAILED"
proof -
  have "row_parser (set_sealed t row) = row_parser row" "row_parser (set_failed t x row) = row_parser row"
    "row_kind (set_sealed t row) = row_kind row" "row_kind (set_failed t x row) = row_kind row"
    "row_config (set_sealed t row) = row_config row" "row_config (set_failed t x row) = row_config row"
    "row_conditions (set_sealed t row) = row_conditions row" "row_conditions (set_failed t x row) = row_conditions row"
    by (simp_all add: row_parser_def row_kind_def row_config_def row_conditions_def set_sealed_def set_failed_def split: option.split)
  note same = this
  show "row_to_record (set_sealed t row) = Inr (a\<lparr>ar_state := SEALED, ar_finalized_at := Some t\<rparr>)"
    using assms unfolding row_to_record_def same
    by (auto simp: set_sealed_def state_of_value_def split: sum.splits)
  show "\<exists>b. row_to_record (set_failed t x row) = Inr b \<and> ar_state b = FAILED"
    using assms unfolding row_to_record_def same
    by (auto simp: set_failed_def state_of_value_def split: sum.splits)
qed

lemma seal_sole:
  assumes "seal fs rid t1 t2 st = (res, st')" "sole_row rid (lg_db st) row" "row_to_record row = Inr a" "ar_state a = PENDING"
  shows "(\<exists>e. res = Inl e \<and> lg_db st' = lg_db st) \<or>
    (res = Inr (a\<lparr>ar_state := SEALED, ar_finalized_at := Some t1\<rparr>) \<and> sole_row rid (lg_db st') (set_sealed t1 row) \<and>
     bundle_kept (lg_archive st') (ar_artifact_hash a) (ar_artifact_manifest a))"
proof -
  have g: "get_record rid (lg_db st) = Inr a" using sole_row_get [OF assms(2)] assms(3) by simp
  let ?dir = "path_of (ar_artifact_dir a)"
  obtain q s1 where q: "archive_bundle (fs ?dir) ?dir (ar_artifact_manifest a) (ar_artifact_hash a) (lg_archive st) = (q, s1)"
    by (cases "archive_bundle (fs ?dir) ?dir (ar_artifact_manifest a) (ar_artifact_hash a) (lg_archive st)")
  let ?body = "JObj [(''artifact_hash'', JStr (ar_artifact_hash a))]"
  obtain tr db' where tr: "transition rid [PENDING] (set_sealed t1) [Some t1] ''record.sealed'' ?body t2 (lg_db st) = (tr, db')"
    by (cases "transition rid [PENDING] (set_sealed t1) [Some t1] ''record.sealed'' ?body t2 (lg_db st)")
  show ?thesis
  proof (cases q)
    case (Inl e)
    then show ?thesis using assms(1,4) g q by (auto simp: seal_def transitions Let_def)
  next
    case (Inr u)
    note c = archive_bundle_kept [OF q [unfolded Inr]]
    show ?thesis
    proof (cases tr)
      case (Inl e)
      then show ?thesis using assms(1,4) g q tr \<open>q = Inr u\<close> transition_Inl [OF tr [unfolded Inl]] by (auto simp: seal_def transitions Let_def)
    next
      case (Inr v)
      have "sole_row rid db' (set_sealed t1 row)"
        using transition_sole [OF tr [unfolded Inr] assms(2)] by (simp add: set_sealed_def)
      then show ?thesis
        using assms(1,4) g q tr \<open>q = Inr u\<close> Inr c row_to_record_state(1) [OF assms(3)]
        by (auto simp: seal_def transitions Let_def sole_row_get)
    qed
  qed
qed

lemma append_event_succeeds:
  assumes "chain_ok GENESIS 1 (db_events db)" "json_ok b" "utf8_ok k" "utf8_ok u" "utf8_ok t"
  shows "(\<exists>ev db'. append_event k u b t db = (Inr ev, db')) \<or>
    append_event k u b t db = (Inl SqliteIntegrityError, db) \<and> append_collides k u b t db"
proof -
  have "\<forall>r \<in> set (db_events db). utf8_ok (ev_hash r)"
  proof
    fix r assume "r \<in> set (db_events db)"
    then obtain i where "i < length (db_events db)" "r = db_events db ! i" by (auto simp: in_set_conv_nth)
    then have "row_hash r = Inr (ev_hash r)" using chain_ok_nth_hash [OF assms(1)] by simp
    then show "utf8_ok (ev_hash r)" by (auto simp: row_hash_def event_hash_def map_sum_Inr_iff)
  qed
  from append_event_ok [OF assms this] show ?thesis using append_event_integrity [OF assms(1)] by blast
qed

lemma fail_record_sole:
  assumes "sole_row rid db row" "r_state row = ''pending''" "row_to_record row = Inr a"
    and "chain_ok GENESIS 1 (db_events db)" "utf8_ok rid" "utf8_ok err" "utf8_ok t1" "utf8_ok t2"
  shows "sole_row rid (snd (fail_record rid err t1 t2 db)) (set_failed t1 err row) \<or>
    snd (fail_record rid err t1 t2 db) = db \<and> append_collides ''record.failed'' rid (JObj [(''error'', JStr err)]) t2 db"
proof -
  let ?db1 = "update_where rid [PENDING, FAILED] (set_failed t1 err) db"
  have st: "ar_state a = PENDING" using assms(2,3) by (auto simp: row_to_record_def state_of_value_def split: sum.splits)
  have ch: "chain_ok GENESIS 1 (db_events ?db1)" using assms(4) by (simp add: update_where_def)
  have u: "utf8_ok ''record.failed''" "json_ok (JObj [(''error'', JStr err)])" using assms(6) by (simp_all add: utf8_ok_ascii)
  have ex: "\<exists>r \<in> set (db_records db). r_record_id r = rid \<and> r_state r \<in> set (map state_value [PENDING, FAILED])"
  proof -
    have "row \<in> set (filter (\<lambda>r. r_record_id r = rid) (db_records db))" using assms(1) by (simp only: sole_row_def list.set_intros)
    then show ?thesis using assms(2) by (intro bexI [of _ row]) auto
  qed
  from append_event_succeeds [OF ch u(2,1) assms(5,8)] show ?thesis
  proof
    assume "\<exists>ev db'. append_event ''record.failed'' rid (JObj [(''error'', JStr err)]) t2 ?db1 = (Inr ev, db')"
    then obtain ev db' where a: "append_event ''record.failed'' rid (JObj [(''error'', JStr err)]) t2 ?db1 = (Inr ev, db')" by blast
    have "texts_ok [Some rid, Some t1, Some err]" using assms(5-7) by (simp add: texts_ok_def)
    then have tr: "transition rid [PENDING, FAILED] (set_failed t1 err) [Some t1, Some err] ''record.failed''
        (JObj [(''error'', JStr err)]) t2 db = (Inr (), db')"
      unfolding transition_def write_transaction_def using ex a by simp
    have "sole_row rid db' (set_failed t1 err row)"
      by (rule transition_sole [OF tr assms(1)]) (simp add: set_failed_def)
    then show ?thesis
      using sole_row_get [OF assms(1)] assms(3) st tr by (simp add: fail_record_def transitions split: sum.split)
  next
    let ?b = "JObj [(''error'', JStr err)]"
    assume a: "append_event ''record.failed'' rid ?b t2 ?db1 = (Inl SqliteIntegrityError, ?db1) \<and>
      append_collides ''record.failed'' rid ?b t2 ?db1"
    have "texts_ok [Some rid, Some t1, Some err]" using assms(5-7) by (simp add: texts_ok_def)
    then have "transition rid [PENDING, FAILED] (set_failed t1 err) [Some t1, Some err] ''record.failed'' ?b t2 db
        = (Inl SqliteIntegrityError, db)"
      unfolding transition_def write_transaction_def using ex a by simp
    moreover have "append_collides ''record.failed'' rid ?b t2 db"
      using a append_collides_same [of ?db1 db] by (simp add: update_where_def)
    ultimately show ?thesis
      using sole_row_get [OF assms(1)] assms(3) st by (simp add: fail_record_def transitions)
  qed
qed

text \<open>The texts the environment supplies can be stored.\<close>

definition env_ok :: "env \<Rightarrow> bool" where
  "env_ok env \<longleftrightarrow> (\<forall>n. utf8_ok (en_uuid env n) \<and> utf8_ok (en_time env n)) \<and> (\<forall>x. utf8_ok (en_repr env x))"

text \<open>What a record says of its run is what the run reported.\<close>

definition vouched :: "sandbox_result \<Rightarrow> parser_identity \<Rightarrow> run_conditions option \<Rightarrow> artifact_record \<Rightarrow> bool" where
  "vouched r parser rc b \<longleftrightarrow>
     succeeded r \<and> produced_artifacts r \<and> check_conditions r rc = Inr () \<and>
     ar_run_id b = sr_run_id r \<and> ar_source_hash b = sr_input_sha256 r \<and> ar_backend b = sr_backend r \<and>
     ar_parser b = Some (parser\<lparr>pi_image_digest := sr_image_digest r, pi_module_sha256 := sr_module_sha256 r\<rparr>) \<and>
     ar_run_conditions b = rc \<and> (sr_bundle_digest r = None \<or> sr_bundle_digest r = Some (ar_artifact_hash b))"

lemma admitD:
  assumes "admit r parser rc = Inr identity"
  shows "succeeded r \<and> produced_artifacts r \<and> check_conditions r rc = Inr () \<and>
    map_option snap_digest (sr_input_snapshot r) = sr_input_sha256 r \<and> check_identity identity = Inr identity \<and>
    identity = parser\<lparr>pi_image_digest := sr_image_digest r, pi_module_sha256 := sr_module_sha256 r\<rparr>"
  using assms check_inputD check_identity_Inr
  by (auto simp: admit_def measured_parser_identity_def split: if_splits sum.splits)

text \<open>
  The event that would log a failure - at one of the two points where the transaction does it -
  has the hash of another event of the chain.
\<close>

definition failure_collides :: "env \<Rightarrow> string \<Rightarrow> exn \<Rightarrow> database \<Rightarrow> bool" where
  "failure_collides env rid e db \<longleftrightarrow>
     (\<exists>n \<in> {3, 7}. append_collides ''record.failed'' rid (JObj [(''error'', JStr (en_repr env e))]) (en_time env n) db)"

lemma fail_quietly_sole:
  assumes "sole_row rid (sy_db sys) row" "r_state row = ''pending''" "row_to_record row = Inr a"
    and "chain_ok GENESIS 1 (db_events (sy_db sys))" "utf8_ok rid" "env_ok env"
    and "n \<in> {2, 6}"
  shows "(\<exists>b. get_record rid (sy_db (fail_quietly env n rid x sys)) = Inr b \<and> ar_state b = FAILED) \<or>
    failure_collides env rid x (sy_db (fail_quietly env n rid x sys))"
proof -
  let ?db' = "snd (fail_record rid (en_repr env x) (en_time env n) (en_time env (Suc n)) (sy_db sys))"
  have "sole_row rid ?db' (set_failed (en_time env n) (en_repr env x) row) \<or> ?db' = sy_db sys \<and>
      append_collides ''record.failed'' rid (JObj [(''error'', JStr (en_repr env x))]) (en_time env (Suc n)) (sy_db sys)"
    using assms by (intro fail_record_sole) (auto simp: env_ok_def)
  then show ?thesis
  proof
    assume "sole_row rid ?db' (set_failed (en_time env n) (en_repr env x) row)"
    from sole_row_get [OF this] row_to_record_state(2) [OF assms(3)] show ?thesis by (simp add: fail_quietly_def)
  qed (use assms(7) in \<open>auto simp: fail_quietly_def failure_collides_def\<close>)
qed

lemma seal_or_fail_outcome:
  assumes "seal_or_fail env fs rid sys = (res, sys')"
    and "sole_row rid (sy_db sys) row" "r_state row = ''pending''" "row_to_record row = Inr a"
    and "chain_ok GENESIS 1 (db_events (sy_db sys))" "utf8_ok rid" "env_ok env"
  shows "case res of
      Inl e \<Rightarrow> (\<exists>b. get_record rid (sy_db sys') = Inr b \<and> ar_state b = FAILED) \<or> failure_collides env rid e (sy_db sys')
    | Inr u \<Rightarrow> get_record rid (sy_db sys') = Inr (a\<lparr>ar_state := SEALED, ar_finalized_at := Some (en_time env 4)\<rparr>) \<and>
        bundle_kept (lg_archive (sy_ledger sys')) (ar_artifact_hash a) (ar_artifact_manifest a)"
proof -
  obtain q st where q: "seal fs rid (en_time env 4) (en_time env 5) (sy_ledger sys) = (q, st)"
    by (cases "seal fs rid (en_time env 4) (en_time env 5) (sy_ledger sys)")
  have pend: "ar_state a = PENDING" using assms(3,4) by (auto simp: row_to_record_def state_of_value_def split: sum.splits)
  from seal_sole [OF q assms(2,4) pend] show ?thesis
  proof
    assume "\<exists>e. q = Inl e \<and> lg_db st = sy_db sys"
    then obtain e where e: "q = Inl e" "lg_db st = sy_db sys" by blast
    have "state_or_none rid (lg_db st) = Some PENDING"
      using e(2) sole_row_get [OF assms(2)] assms(4) pend by (simp add: state_or_none_def)
    then have "res = Inl e" "sys' = fail_quietly env 6 rid e (with_ledger sys st)"
      using assms(1) q e(1) by (simp_all add: seal_or_fail_def)
    moreover have "sole_row rid (sy_db (with_ledger sys st)) row" "chain_ok GENESIS 1 (db_events (sy_db (with_ledger sys st)))"
      using assms(2,5) e(2) by (simp_all add: with_ledger_def)
    ultimately show ?thesis using fail_quietly_sole [of rid "with_ledger sys st" row a env 6 e] assms(3,4,6,7) by simp
  next
    assume "q = Inr (a\<lparr>ar_state := SEALED, ar_finalized_at := Some (en_time env 4)\<rparr>) \<and>
      sole_row rid (lg_db st) (set_sealed (en_time env 4) row) \<and>
      bundle_kept (lg_archive st) (ar_artifact_hash a) (ar_artifact_manifest a)"
    then show ?thesis
      using assms(1) q sole_row_get row_to_record_state(1) [OF assms(4)]
      by (auto simp: seal_or_fail_def with_ledger_def)
  qed
qed

lemma transaction_outcome:
  assumes "ledger_inv (sy_db sys)" "env_ok env" "input_ok (run_input_of r parser config src rc)"
    and "\<forall>c. rc = Some c \<longrightarrow> valid_conditions c"
  shows "case ledger_transaction env fs fs' r parser config src rc (\<lambda>a. quiet (blk a)) sys of
      (Inl e, sys') \<Rightarrow> db_records (sy_db sys') = db_records (sy_db sys) \<or>
        (\<exists>b. get_record (en_uuid env 0) (sy_db sys') = Inr b \<and> ar_state b = FAILED) \<or>
        failure_collides env (en_uuid env 0) e (sy_db sys')
    | (Inr a, sys') \<Rightarrow> \<exists>b. get_record (en_uuid env 0) (sy_db sys') = Inr b \<and> ar_state b = SEALED \<and> vouched r parser rc b \<and>
        bundle_kept (lg_archive (sy_ledger sys')) (ar_artifact_hash b) (ar_artifact_manifest b)"
proof (cases "admit r parser rc")
  case (Inl e)
  then show ?thesis by (simp add: ledger_transaction_def)
next
  case (Inr identity)
  note ad = admitD [OF Inr]
  let ?i = "run_input_of r identity config src rc" and ?rid = "en_uuid env 0"
  obtain q st where q: "create_pending fs ?i ?rid (en_time env 0) (en_time env 1) (sy_ledger sys) = (q, st)"
    by (cases "create_pending fs ?i ?rid (en_time env 0) (en_time env 1) (sy_ledger sys)")
  have ok: "input_ok ?i" using assms(3) by (simp add: input_ok_def run_input_of_def)
  have inv: "chain_ok GENESIS 1 (db_events (lg_db st))"
    using tx_ledger_inv create_pending_tx [OF q ok] assms(1) unfolding ledger_inv_def by blast
  have row: "case q of Inl e \<Rightarrow> db_records (lg_db st) = db_records (sy_db sys)
      | Inr a \<Rightarrow> \<exists>row. inserted_row ?i ?rid (sy_ledger sys) st a row"
  proof (rule create_pending_row [OF q])
    have "check_identity identity = Inr identity" using ad by blast
    then show "check_identity (in_parser ?i) = Inr (in_parser ?i)" by (simp add: run_input_of_def)
  qed (use assms(3,4) in \<open>simp add: run_input_of_def input_ok_def\<close>)
  show ?thesis
  proof (cases q)
    case (Inl e)
    then show ?thesis using q row \<open>admit r parser rc = Inr identity\<close> by (simp add: ledger_transaction_def with_ledger_def)
  next
    case a: (Inr a)
    then obtain row where ins: "inserted_row ?i ?rid (sy_ledger sys) st a row" using row by auto
    note sole = inserted_sole [OF ins]
    have r: "r_state row = ''pending''" "row_to_record row = Inr a" "ar_record_id a = ?rid" "utf8_ok ?rid"
      using ins assms(2) by (simp_all add: inserted_row_def env_ok_def)
    have fails: "(\<exists>b. get_record ?rid (sy_db (fail_quietly env 2 ?rid x s)) = Inr b \<and> ar_state b = FAILED) \<or>
        failure_collides env ?rid x (sy_db (fail_quietly env 2 ?rid x s))"
      if "sy_ledger s = st" for x and s :: "'a system"
      using fail_quietly_sole [of ?rid s row a env 2 x] sole r inv assms(2) that by simp
    let ?bad = "sr_bundle_digest r \<noteq> None \<and> sr_bundle_digest r \<noteq> Some (ar_artifact_hash a)"
    obtain p s1 where p: "quiet (blk a) (with_ledger sys st) = (p, s1)" by (cases "quiet (blk a) (with_ledger sys st)")
    then have s1: "sy_ledger s1 = st" using quiet_ledger [of "blk a" "with_ledger sys st" p s1] by (simp add: with_ledger_def)
    show ?thesis
    proof (cases "?bad \<or> (\<exists>x. p = Inl x)")
      case True
      have "ledger_transaction env fs fs' r parser config src rc (\<lambda>a. quiet (blk a)) sys =
          (if ?bad then (Inl ProvenanceError, fail_quietly env 2 ?rid ProvenanceError (with_ledger sys st))
           else case p of Inl x \<Rightarrow> (Inl x, fail_quietly env 2 ?rid x s1)
             | Inr _ \<Rightarrow> (case seal_or_fail env fs' ?rid s1 of (Inl x, s2) \<Rightarrow> (Inl x, s2) | (Inr _, s2) \<Rightarrow> (Inr a, s2)))"
        using q a p r(3) \<open>admit r parser rc = Inr identity\<close>
        unfolding ledger_transaction_def by (simp split: sum.split)
      with True have "\<exists>x s. ledger_transaction env fs fs' r parser config src rc (\<lambda>a. quiet (blk a)) sys =
          (Inl x, fail_quietly env 2 ?rid x s) \<and> sy_ledger s = st"
        using s1 by (cases ?bad) (auto simp: with_ledger_def)
      then show ?thesis using fails by auto
    next
      case False
      obtain f s2 where f: "seal_or_fail env fs' ?rid s1 = (f, s2)" by (cases "seal_or_fail env fs' ?rid s1")
      have t: "ledger_transaction env fs fs' r parser config src rc (\<lambda>a. quiet (blk a)) sys =
          (case f of Inl x \<Rightarrow> (Inl x, s2) | Inr u \<Rightarrow> (Inr a, s2))"
        using q a p False r(3) f \<open>admit r parser rc = Inr identity\<close>
        by (auto simp: ledger_transaction_def split: sum.splits)
      have v: "vouched r parser rc (a\<lparr>ar_state := SEALED, ar_finalized_at := Some (en_time env 4)\<rparr>)"
        using ins ad False by (auto simp: vouched_def inserted_row_def run_input_of_def)
      have "case f of
          Inl e \<Rightarrow> (\<exists>b. get_record ?rid (sy_db s2) = Inr b \<and> ar_state b = FAILED) \<or> failure_collides env ?rid e (sy_db s2)
        | Inr u \<Rightarrow> get_record ?rid (sy_db s2) = Inr (a\<lparr>ar_state := SEALED, ar_finalized_at := Some (en_time env 4)\<rparr>) \<and>
            bundle_kept (lg_archive (sy_ledger s2)) (ar_artifact_hash a) (ar_artifact_manifest a)"
        using seal_or_fail_outcome [OF f _ r(1,2) _ r(4) assms(2)] sole inv s1 by simp
      then show ?thesis using t v by (cases f) auto
    qed
  qed
qed

text \<open>
  C7.  A run becomes a sealed record or leaves none that could be taken for one.  On a consistent
  ledger, with a block that leaves the ledger alone: if the transaction raises - a refused
  run, a failing block, even a keyboard interrupt, or a seal that fails - either no record was
  added or the new record is failed, never pending; if it returns, the record is sealed, its
  provenance (input, parser digests, backend, conditions, bundle) is the one the run measured,
  and the archive holds its bundle (\<open>bundle_kept\<close>: complete, or its manifest is one that collides).
  The one escape is a failure whose event has the hash of another event of the chain.
\<close>

theorem transaction_seals_or_fails:
  assumes "ledger_inv (sy_db sys)" "env_ok env" "input_ok (run_input_of r parser config src rc)"
    and "\<forall>c. rc = Some c \<longrightarrow> valid_conditions c"
  shows "case ledger_transaction env fs fs' r parser config src rc (\<lambda>a. quiet (blk a)) sys of
      (Inl e, sys') \<Rightarrow> db_records (sy_db sys') = db_records (sy_db sys) \<or>
        (\<exists>b. get_record (en_uuid env 0) (sy_db sys') = Inr b \<and> ar_state b = FAILED) \<or>
        failure_collides env (en_uuid env 0) e (sy_db sys')
    | (Inr a, sys') \<Rightarrow> \<exists>b. get_record (en_uuid env 0) (sy_db sys') = Inr b \<and> ar_state b = SEALED \<and> vouched r parser rc b \<and>
        bundle_kept (lg_archive (sy_ledger sys')) (ar_artifact_hash b) (ar_artifact_manifest b)"
  using assms by (rule transaction_outcome)

text \<open>A run whose image is not the one claimed: nothing is recorded.\<close>

theorem transaction_seals_or_fails_witness:
  "db_records (sy_db (snd (ledger_transaction demo_env (\<lambda>p. None) (\<lambda>p. None)
      \<lparr>sr_run_id = ''run'', sr_exit_code = 0, sr_stdout = [], sr_stderr = [], sr_artifact_paths = [path_of ''d/x''],
       sr_artifact_dir = path_of ''d'', sr_wall_time = PNum 0, sr_timed_out = False, sr_input_sha256 = None,
       sr_backend = None, sr_image_digest = None, sr_module_sha256 = None, sr_hardening = [], sr_violation = None,
       sr_input_snapshot = None, sr_artifact_digests = [], sr_bundle_digest = None, sr_telemetry = None,
       sr_failure = None\<rparr>
      \<lparr>pi_name = ''p'', pi_version = ''1'', pi_image_digest = Some ''x'', pi_module_sha256 = None\<rparr>
      (VDict []) None None (\<lambda>a. quiet (\<lambda>w. (Inl KeyboardInterrupt, w)))
      \<lparr>sy_ledger = \<lparr>lg_archive = demo_store, lg_db = empty_database 8\<rparr>, sy_world = ()\<rparr>))) = []"
  (is "db_records (sy_db (snd (ledger_transaction _ ?fs _ ?r ?p ?c None None (\<lambda>a. quiet (?blk a)) ?s))) = []")
proof -
  have inv: "ledger_inv (sy_db ?s)"
    by (simp add: ledger_inv_def empty_database_def keys_ok_def replay_chain_def derived_empty_def
        tables_match_def events_for_def tuples_of_def)
  have env: "env_ok demo_env" by (simp add: env_ok_def demo_env_def utf8_ok_ascii)
  have inp: "input_ok (run_input_of ?r ?p ?c None None)" by (simp add: input_ok_def run_input_of_def)
  have t: "\<exists>e. ledger_transaction demo_env ?fs ?fs ?r ?p ?c None None (\<lambda>a. quiet (?blk a)) ?s = (Inl e, ?s)"
    by (simp add: ledger_transaction_def admit_def succeeded_def produced_artifacts_def check_input_def check_conditions_def
        measured_parser_identity_def)
  from transaction_seals_or_fails [OF inv env inp, of ?fs ?fs "?blk"] t show ?thesis
    by (auto simp: get_record_def find_row_def empty_database_def)
qed

end
