(* ===== verification/Validation.thy ===== *)
theory Validation
  imports Dispatcher
begin

text \<open>
  Validation, planning, views and bulk invalidation (\<open>stele/replay/models.py\<close>,
  \<open>validator.py\<close>, \<open>planner.py\<close>, \<open>views.py\<close>, \<open>invalidation.py\<close>): which sealed records
  still have their evidence, and what becomes of those that do not.  \<open>repr\<close> of a list of
  texts, which the summaries of a result contain, is a parameter.
\<close>

section \<open>Data\<close>

datatype invalidation_reason =
  DRIFT_DETECTED | SOURCE_CHANGED | PARSER_UPDATED | DATA_QUALITY | MANUAL | REPLAY_DIVERGED

fun reason_value :: "invalidation_reason \<Rightarrow> string" where
  "reason_value DRIFT_DETECTED = ''drift_detected''"
| "reason_value SOURCE_CHANGED = ''source_changed''"
| "reason_value PARSER_UPDATED = ''parser_updated''"
| "reason_value DATA_QUALITY = ''data_quality''"
| "reason_value MANUAL = ''manual''"
| "reason_value REPLAY_DIVERGED = ''replay_diverged''"

datatype validation_status = STATUS_OK | STATUS_ARCHIVED | STATUS_DRIFT | STATUS_MISSING

record validation_result =
  vr_record_id :: string
  vr_status :: validation_status
  vr_drifted :: "string list"
  vr_missing :: "string list"
  vr_archived :: "string list"

definition result_intact :: "validation_result \<Rightarrow> bool" where
  "result_intact v \<longleftrightarrow> vr_status v = STATUS_OK \<or> vr_status v = STATUS_ARCHIVED"

definition drift_summary :: "(string list \<Rightarrow> string) \<Rightarrow> validation_result \<Rightarrow> string" where
  "drift_summary show v =
     (if vr_status v = STATUS_OK then ''ok''
      else joins ''; ''
        ((if vr_archived v \<noteq> [] then [''archived_only='' @ show (vr_archived v)] else []) @
         (if vr_missing v \<noteq> [] then [''missing='' @ show (vr_missing v)] else []) @
         (if vr_drifted v \<noteq> [] then [''drift='' @ show (vr_drifted v)] else [])))"

record candidate =
  cd_record :: artifact_record
  cd_validation :: validation_result

definition candidate_intact :: "candidate \<Rightarrow> bool" where
  "candidate_intact c = result_intact (cd_validation c)"

text \<open>A \<open>ValidationPlan\<close> is its candidates.\<close>

type_synonym plan = "candidate list"

definition plan_intact :: "plan \<Rightarrow> candidate list" where
  "plan_intact p = filter candidate_intact p"

definition plan_drifted :: "plan \<Rightarrow> candidate list" where
  "plan_drifted p = filter (\<lambda>c. vr_status (cd_validation c) = STATUS_DRIFT) p"

definition plan_missing :: "plan \<Rightarrow> candidate list" where
  "plan_missing p = filter (\<lambda>c. vr_status (cd_validation c) = STATUS_MISSING) p"

definition plan_summary :: "plan \<Rightarrow> string" where
  "plan_summary p =
     ''ValidationPlan: total='' @ show_nat (length p) @ '' intact='' @ show_nat (length (plan_intact p))
     @ '' drifted='' @ show_nat (length (plan_drifted p)) @ '' missing='' @ show_nat (length (plan_missing p))"

section \<open>Validating one record\<close>

text \<open>\<open>_verified_in_archive\<close>.\<close>

definition verified_in_archive :: "archive \<Rightarrow> string \<Rightarrow> bool result" where
  "verified_in_archive archive digest =
     (case snd (iter_verified archive digest) of
        Inr _ \<Rightarrow> Inr True
      | Inl e \<Rightarrow> if is_archive_error e then Inr False else Inl e)"

datatype file_verdict = Matches | Archived | Drifted | Absent

text \<open>One iteration of the loop; \<open>dir\<close> is what \<open>artifact_dir\<close> names on disk.\<close>

definition file_verdict_of ::
  "node option \<Rightarrow> archive option \<Rightarrow> string \<Rightarrow> string \<Rightarrow> file_verdict result" where
  "file_verdict_of dir archive rel expected =
     (case sha256_file_beneath dir (path_of rel) of
        Inr h \<Rightarrow> Inr (if h \<noteq> expected then Drifted else Matches)
      | Inl e \<Rightarrow>
          if e = FileNotFoundError then
            (case archive of
               None \<Rightarrow> Inr Absent
             | Some s \<Rightarrow>
                 (case verified_in_archive s expected of
                    Inl x \<Rightarrow> Inl x
                  | Inr ok \<Rightarrow> Inr (if ok then Archived else Absent)))
          else if e = UnsafeFileError then Inr Drifted
          else Inl e)"

fun file_verdicts :: "node option \<Rightarrow> archive option \<Rightarrow> manifest \<Rightarrow> (string \<times> file_verdict) list result" where
  "file_verdicts dir archive [] = Inr []"
| "file_verdicts dir archive ((p, d) # m) =
     (case file_verdict_of dir archive p d of
        Inl e \<Rightarrow> Inl e
      | Inr v \<Rightarrow> map_sum id (\<lambda>vs. (p, v) # vs) (file_verdicts dir archive m))"

definition files_with :: "file_verdict \<Rightarrow> (string \<times> file_verdict) list \<Rightarrow> string list" where
  "files_with v vs = sort (map fst (filter (\<lambda>(p, w). w = v) vs))"

definition validate_artifact :: "file_system \<Rightarrow> artifact_record \<Rightarrow> archive option \<Rightarrow> validation_result result" where
  "validate_artifact fs r archive =
     map_sum id
       (\<lambda>vs. \<lparr>vr_record_id = ar_record_id r,
              vr_status =
                (if files_with Absent vs \<noteq> [] then STATUS_MISSING
                 else if files_with Drifted vs \<noteq> [] then STATUS_DRIFT
                 else if files_with Archived vs \<noteq> [] then STATUS_ARCHIVED else STATUS_OK),
              vr_drifted = files_with Drifted vs, vr_missing = files_with Absent vs,
              vr_archived = files_with Archived vs\<rparr>)
       (file_verdicts (fs (path_of (ar_artifact_dir r))) archive (ar_artifact_manifest r))"

section \<open>Planning\<close>

fun candidates_of :: "file_system \<Rightarrow> archive \<Rightarrow> artifact_record list \<Rightarrow> candidate list result" where
  "candidates_of fs s [] = Inr []"
| "candidates_of fs s (r # rs) =
     (case validate_artifact fs r (Some s) of
        Inl e \<Rightarrow> Inl e
      | Inr v \<Rightarrow> map_sum id (\<lambda>cs. \<lparr>cd_record = r, cd_validation = v\<rparr> # cs) (candidates_of fs s rs))"

definition plan_validation ::
  "file_system \<Rightarrow> bool \<Rightarrow> string option \<Rightarrow> string option \<Rightarrow> ledger \<Rightarrow> plan result" where
  "plan_validation fs include_invalidated run_id src_path st =
     (case list_by_states (if include_invalidated then [SEALED, INVALIDATED] else [SEALED]) (lg_db st) of
        Inl e \<Rightarrow> Inl e
      | Inr records \<Rightarrow>
          (let rs1 = (case run_id of None \<Rightarrow> records | Some i \<Rightarrow> filter (\<lambda>r. ar_run_id r = i) records);
               rs2 = (case src_path of None \<Rightarrow> rs1 | Some p \<Rightarrow> filter (\<lambda>r. ar_source_path r = Some p) rs1)
           in candidates_of fs (lg_archive st) rs2))"

section \<open>Views\<close>

definition view_all :: "database \<Rightarrow> artifact_record list result" where
  "view_all = list_by_states [PENDING, SEALED, FAILED, INVALIDATED]"

definition view_pending :: "database \<Rightarrow> artifact_record list result" where
  "view_pending = list_by_states [PENDING]"

definition view_sealed :: "database \<Rightarrow> artifact_record list result" where
  "view_sealed = list_by_states [SEALED]"

definition view_invalidated_or_failed :: "database \<Rightarrow> artifact_record list result" where
  "view_invalidated_or_failed = list_by_states [INVALIDATED, FAILED]"

section \<open>Invalidating\<close>

text \<open>The em dash between the reason and the note, in UTF-8.\<close>

definition em_dash :: string where
  "em_dash = '' '' @ [CHR 0xE2, CHR 0x80, CHR 0x94] @ '' ''"

definition invalidate_record ::
  "(nat \<Rightarrow> string) \<Rightarrow> nat \<Rightarrow> string \<Rightarrow> invalidation_reason \<Rightarrow> string \<Rightarrow> database \<Rightarrow> artifact_record result \<times> database" where
  "invalidate_record clock n rid reason note db =
     invalidate rid (if note \<noteq> [] then reason_value reason @ em_dash @ note else reason_value reason)
       (clock n) (clock (Suc n)) db"

fun invalidate_each ::
  "(nat \<Rightarrow> string) \<Rightarrow> nat \<Rightarrow> (string \<times> invalidation_reason \<times> string) list \<Rightarrow> database \<Rightarrow>
   artifact_record list result \<times> database" where
  "invalidate_each clock n [] db = (Inr [], db)"
| "invalidate_each clock n ((rid, reason, note) # rest) db =
     (case invalidate_record clock n rid reason note db of
        (Inl e, db1) \<Rightarrow> (Inl e, db1)
      | (Inr r, db1) \<Rightarrow>
          (case invalidate_each clock (n + 2) rest db1 of
             (Inl e, db2) \<Rightarrow> (Inl e, db2)
           | (Inr rs, db2) \<Rightarrow> (Inr (r # rs), db2)))"

definition invalidate_by_source_hash ::
  "(nat \<Rightarrow> string) \<Rightarrow> string \<Rightarrow> invalidation_reason \<Rightarrow> string \<Rightarrow> database \<Rightarrow> artifact_record list result \<times> database" where
  "invalidate_by_source_hash clock h reason note db =
     (case find_by_source_hash h db of
        Inl e \<Rightarrow> (Inl e, db)
      | Inr rs \<Rightarrow>
          invalidate_each clock 0
            (map (\<lambda>r. (ar_record_id r, reason, note))
               (filter (\<lambda>r. ar_state r = SEALED \<or> ar_state r = PENDING) rs)) db)"

text \<open>What \<open>auto_invalidate_drifted\<close> invalidates, with which reason and note.\<close>

definition drift_targets ::
  "(string list \<Rightarrow> string) \<Rightarrow> string \<Rightarrow> plan \<Rightarrow> (string \<times> invalidation_reason \<times> string) list" where
  "drift_targets show note p =
     map (\<lambda>c. (ar_record_id (cd_record c),
               if vr_status (cd_validation c) = STATUS_DRIFT \<or> vr_status (cd_validation c) = STATUS_MISSING
               then DRIFT_DETECTED else MANUAL,
               note @ '': '' @ drift_summary show (cd_validation c)))
       (filter (\<lambda>c. \<not> candidate_intact c \<and> ar_state (cd_record c) \<noteq> INVALIDATED) p)"

definition auto_invalidate_drifted ::
  "(nat \<Rightarrow> string) \<Rightarrow> (string list \<Rightarrow> string) \<Rightarrow> string \<Rightarrow> plan \<Rightarrow> database \<Rightarrow> artifact_record list result \<times> database" where
  "auto_invalidate_drifted clock show note p db = invalidate_each clock 0 (drift_targets show note p) db"

section \<open>What a validation says\<close>

lemma set_files_with: "set (files_with v vs) = {p. (p, v) \<in> set vs}"
  by (auto simp: files_with_def image_iff)

lemma files_with_empty: "files_with v vs = [] \<longleftrightarrow> (\<forall>(p, w) \<in> set vs. w \<noteq> v)"
  unfolding set_empty [symmetric] set_files_with by auto

lemma map_sum_Inl_iff: "map_sum id f r = Inl e \<longleftrightarrow> r = Inl e"
  by (cases r) auto

lemma file_verdicts_Inl:
  "file_verdicts dir s m = Inl e \<Longrightarrow> list_ex (\<lambda>(p, d). file_verdict_of dir s p d = Inl e) m"
  by (induction m) (auto simp: map_sum_Inl_iff split: sum.splits)

lemma file_verdictsD:
  "file_verdicts dir s m = Inr vs \<Longrightarrow>
   map fst vs = map fst m \<and> list_all2 (\<lambda>(p, d) (q, v). p = q \<and> file_verdict_of dir s p d = Inr v) m vs"
  by (induction m arbitrary: vs) (auto simp: map_sum_Inr_iff split: sum.splits)

text \<open>On disk as recorded; or gone from disk, with the digest's bytes in the archive.\<close>

definition file_on_disk :: "node option \<Rightarrow> string \<Rightarrow> string \<Rightarrow> bool" where
  "file_on_disk dir p d \<longleftrightarrow> sha256_file_beneath dir (path_of p) = Inr d"

definition file_archived :: "node option \<Rightarrow> archive \<Rightarrow> string \<Rightarrow> string \<Rightarrow> bool" where
  "file_archived dir s p d \<longleftrightarrow>
     sha256_file_beneath dir (path_of p) = Inl FileNotFoundError \<and> (\<exists>b. read_blob s d = Inr b)"

lemma verified_in_archive_iff: "verified_in_archive s d = Inr True \<longleftrightarrow> (\<exists>b. read_blob s d = Inr b)"
  by (auto simp: verified_in_archive_def iter_verified_def read_blob_def concat_CHUNK split: sum.splits if_splits)

lemma verdict_matches: "file_verdict_of dir s p d = Inr Matches \<longleftrightarrow> file_on_disk dir p d"
  by (auto simp: file_verdict_of_def file_on_disk_def split: sum.splits option.splits if_splits)

lemma verdict_archived: "file_verdict_of dir (Some s) p d = Inr Archived \<longleftrightarrow> file_archived dir s p d"
  using verified_in_archive_iff [of s d]
  by (auto simp: file_verdict_of_def file_archived_def split: sum.splits option.splits if_splits)

lemma list_all2_verdicts:
  assumes "list_all2 (\<lambda>(p, d) (q, v). p = q \<and> Q p d = Inr v) m vs"
  shows "(\<forall>(q, v) \<in> set vs. P v) \<longleftrightarrow> list_all (\<lambda>(p, d). \<exists>v. Q p d = Inr v \<and> P v) m"
  using assms
proof (induction m vs rule: list_all2_induct)
  case (Cons x xs y ys)
  then show ?case by (cases x; cases y) auto
qed simp

lemma file_verdicts_member:
  "file_verdicts dir s m = Inr vs \<Longrightarrow> (p, v) \<in> set vs \<Longrightarrow> \<exists>d. (p, d) \<in> set m \<and> file_verdict_of dir s p d = Inr v"
proof (induction m arbitrary: vs)
  case (Cons x m)
  obtain q c where x: "x = (q, c)" by (cases x)
  from Cons.prems(1) x obtain w ws where "file_verdict_of dir s q c = Inr w" "file_verdicts dir s m = Inr ws" "vs = (q, w) # ws"
    by (auto simp: map_sum_Inr_iff split: sum.splits)
  with Cons.IH [of ws] Cons.prems(2) x show ?case by auto
qed simp

lemma none_of:
  "list_all (\<lambda>(p, d). \<exists>v. Q p d = Inr v) m \<Longrightarrow>
   list_all (\<lambda>(p, d). \<exists>v. Q p d = Inr v \<and> v \<noteq> c) m \<longleftrightarrow> \<not> list_ex (\<lambda>(p, d). Q p d = Inr c) m"
  by (induction m) auto

text \<open>
  What validating a record establishes, when it returns: it is intact exactly when every file
  of its manifest is on disk with its recorded hash, or gone from disk while the archive holds
  its bytes; it is \<open>ok\<close> exactly when every file is on disk with its hash; and it is \<open>missing\<close>
  exactly when some file is in neither place.
\<close>

theorem validation_exact:
  "case validate_artifact fs r (Some s) of
     Inl e \<Rightarrow> list_ex (\<lambda>(p, d). file_verdict_of (fs (path_of (ar_artifact_dir r))) (Some s) p d = Inl e)
       (ar_artifact_manifest r)
   | Inr v \<Rightarrow>
       (let dir = fs (path_of (ar_artifact_dir r)); m = ar_artifact_manifest r in
        vr_record_id v = ar_record_id r \<and>
        (result_intact v \<longleftrightarrow> list_all (\<lambda>(p, d). file_on_disk dir p d \<or> file_archived dir s p d) m) \<and>
        (vr_status v = STATUS_OK \<longleftrightarrow> list_all (\<lambda>(p, d). file_on_disk dir p d) m) \<and>
        (vr_status v = STATUS_MISSING \<longleftrightarrow>
           list_ex (\<lambda>(p, d). file_verdict_of dir (Some s) p d = Inr Absent) m))"
proof (cases "validate_artifact fs r (Some s)")
  case (Inl e)
  then show ?thesis using file_verdicts_Inl by (auto simp: validate_artifact_def map_sum_Inl_iff)
next
  case (Inr v)
  let ?dir = "fs (path_of (ar_artifact_dir r))" and ?m = "ar_artifact_manifest r"
  obtain vs where vs: "file_verdicts ?dir (Some s) ?m = Inr vs"
    and v: "vr_record_id v = ar_record_id r" "vr_status v =
                (if files_with Absent vs \<noteq> [] then STATUS_MISSING
                 else if files_with Drifted vs \<noteq> [] then STATUS_DRIFT
                 else if files_with Archived vs \<noteq> [] then STATUS_ARCHIVED else STATUS_OK)"
    using Inr by (auto simp: validate_artifact_def map_sum_Inr_iff)
  have l: "list_all2 (\<lambda>(p, d) (q, v). p = q \<and> file_verdict_of ?dir (Some s) p d = Inr v) ?m vs"
    using file_verdictsD [OF vs] by blast
  have q: "(\<forall>(q, v) \<in> set vs. P v) \<longleftrightarrow> list_all (\<lambda>(p, d). \<exists>v. file_verdict_of ?dir (Some s) p d = Inr v \<and> P v) ?m" for P
    by (rule list_all2_verdicts [OF l])
  have cases: "w = Matches \<longleftrightarrow> w \<noteq> Absent \<and> w \<noteq> Drifted \<and> w \<noteq> Archived"
    "w = Matches \<or> w = Archived \<longleftrightarrow> w \<noteq> Absent \<and> w \<noteq> Drifted" for w by (cases w; simp)+
  have ok: "vr_status v = STATUS_OK \<longleftrightarrow> (\<forall>(q, v) \<in> set vs. v = Matches)"
    unfolding v(2) cases(1) split_beta ball_conj_distrib files_with_empty by simp
  have intact: "result_intact v \<longleftrightarrow> (\<forall>(q, v) \<in> set vs. v = Matches \<or> v = Archived)"
    unfolding result_intact_def v(2) cases(2) split_beta ball_conj_distrib files_with_empty by simp
  have missing: "vr_status v \<noteq> STATUS_MISSING \<longleftrightarrow> (\<forall>(q, v) \<in> set vs. v \<noteq> Absent)"
    unfolding v(2) by (simp add: files_with_empty)
  have all: "list_all (\<lambda>(p, d). \<exists>v. file_verdict_of ?dir (Some s) p d = Inr v) ?m"
    using q [of "\<lambda>v. True"] by simp
  have m: "vr_status v \<noteq> STATUS_MISSING \<longleftrightarrow> \<not> list_ex (\<lambda>(p, d). file_verdict_of ?dir (Some s) p d = Inr Absent) ?m"
    unfolding missing q by (rule none_of [OF all])
  have e: "(\<exists>v. f = Inr v \<and> v = c) \<longleftrightarrow> f = Inr c" "(\<exists>v. f = Inr v \<and> (v = c \<or> v = c')) \<longleftrightarrow> f = Inr c \<or> f = Inr c'"
    for f :: "file_verdict result" and c c' by auto
  have i: "result_intact v \<longleftrightarrow> list_all (\<lambda>(p, d). file_on_disk ?dir p d \<or> file_archived ?dir s p d) ?m"
    unfolding intact q e verdict_matches verdict_archived ..
  have o: "vr_status v = STATUS_OK \<longleftrightarrow> list_all (\<lambda>(p, d). file_on_disk ?dir p d) ?m"
    unfolding ok q e verdict_matches ..
  show ?thesis unfolding Inr sum.case Let_def using v(1) i o m by blast
qed

text \<open>
  A sealed record whose bundle is complete in the archive is never reported missing: whatever
  is gone from its working directory is archived.
\<close>

theorem complete_bundle_never_missing:
  assumes "bundle_complete s (ar_artifact_hash r) (ar_artifact_manifest r)"
    and "distinct (map fst (ar_artifact_manifest r))"
    and "validate_artifact fs r (Some s) = Inr v"
  shows "vr_status v \<noteq> STATUS_MISSING \<and> vr_missing v = []"
proof -
  let ?dir = "fs (path_of (ar_artifact_dir r))" and ?m = "ar_artifact_manifest r"
  obtain vs where vs: "file_verdicts ?dir (Some s) ?m = Inr vs" and mv: "vr_missing v = files_with Absent vs"
    "vr_status v = STATUS_MISSING \<longleftrightarrow> files_with Absent vs \<noteq> []"
    using assms(3) by (auto simp: validate_artifact_def map_sum_Inr_iff)
  have "file_verdict_of ?dir (Some s) p d \<noteq> Inr Absent" if "(p, d) \<in> set ?m" for p d
  proof -
    have "\<exists>b. read_blob s d = Inr b" using assms(1,2) that by (auto simp: bundle_complete_def)
    then have "verified_in_archive s d = Inr True" by (simp add: verified_in_archive_iff)
    then show ?thesis by (simp add: file_verdict_of_def split: sum.split)
  qed
  then have "files_with Absent vs = []"
    using file_verdicts_member [OF vs] by (fastforce simp: files_with_empty)
  with mv show ?thesis by simp
qed

section \<open>Invalidating what a plan found\<close>

text \<open>What invalidating the records \<open>T\<close> does to a row.\<close>

definition row_withdrawn :: "string set \<Rightarrow> record_row \<Rightarrow> record_row \<Rightarrow> bool" where
  "row_withdrawn T r r' \<longleftrightarrow>
     row_core r' = row_core r \<and> (r_record_id r \<notin> T \<longrightarrow> r' = r) \<and>
     (r_record_id r \<in> T \<longrightarrow> r_state r' \<noteq> ''sealed'')"

lemma row_withdrawn_keys: "row_withdrawn T r r' \<Longrightarrow> r_created_at r' = r_created_at r \<and> r_record_id r' = r_record_id r"
proof -
  assume "row_withdrawn T r r'"
  then have c: "row_core r' = row_core r" by (simp add: row_withdrawn_def)
  have "r_created_at (row_core x) = r_created_at x" for x by (simp add: row_core_def)
  then have "r_created_at r' = r_created_at r" using c by metis
  then show ?thesis using row_core_fields(1) [OF c] by simp
qed

lemma invalidate_rows:
  assumes "invalidate rid note t1 t2 db = (Inr a, db')"
  shows "list_all2 (row_withdrawn {rid}) (db_records db) (db_records db')"
proof -
  let ?upd = "set_invalidated t1 (''INVALIDATED: '' @ note)"
  obtain r0 u where tr: "transition rid [PENDING, SEALED] ?upd [Some t1, Some (''INVALIDATED: '' @ note)]
      ''record.invalidated'' (JObj [(''reason'', JStr note)]) t2 db = (Inr u, db')"
    using assms by (auto simp: invalidate_def transitions split: sum.split_asm prod.split_asm if_split_asm)
  obtain ev where ev: "append_event ''record.invalidated'' rid (JObj [(''reason'', JStr note)]) t2
      (update_where rid [PENDING, SEALED] ?upd db) = (Inr ev, db')"
    using tr by (auto simp: transition_def write_transaction_def split: if_split_asm sum.split_asm prod.split_asm bool.split_asm)
  have "db_records db' = db_records (update_where rid [PENDING, SEALED] ?upd db)"
    by (rule append_event_frame(1) [OF ev])
  then show ?thesis
    by (auto simp: update_where_def list_all2_map2 row_withdrawn_def set_invalidated_def row_core_def intro!: list_all2_refl)
qed

lemma row_withdrawn_trans:
  "row_withdrawn S a b \<Longrightarrow> row_withdrawn T b c \<Longrightarrow> row_withdrawn (S \<union> T) a c"
  using row_withdrawn_keys [of S a b] unfolding row_withdrawn_def by auto

lemma invalidate_each_rows:
  "invalidate_each clock n ts db = (Inr rs, db') \<Longrightarrow>
   list_all2 (row_withdrawn (fst ` set ts)) (db_records db) (db_records db')"
proof (induction clock n ts db arbitrary: rs db' rule: invalidate_each.induct)
  case (1 clock n db)
  then show ?case by (auto simp: row_withdrawn_def intro!: list_all2_refl)
next
  case (2 clock n rid reason nt rest db)
  from 2(2) obtain a db1 rs1 where i: "invalidate_record clock n rid reason nt db = (Inr a, db1)"
    and e: "invalidate_each clock (n + 2) rest db1 = (Inr rs1, db')"
    by (auto split: prod.split_asm sum.split_asm)
  have "list_all2 (row_withdrawn {rid}) (db_records db) (db_records db1)"
    using i invalidate_rows by (auto simp: invalidate_record_def)
  from list_all2_trans [OF _ this 2(1) [OF i [symmetric] refl e]]
  have "list_all2 (row_withdrawn ({rid} \<union> fst ` set rest)) (db_records db) (db_records db')"
    using row_withdrawn_trans by blast
  then show ?case by simp
qed

lemma insort_list_all2:
  assumes "list_all2 R xs ys" "R x y" "\<And>x y. R x y \<Longrightarrow> k y = k x"
  shows "list_all2 R (insort_key k x xs) (insort_key k y ys)"
  using assms(1)
proof (induction xs ys rule: list_all2_induct)
  case (Cons a xs b ys)
  have "k y = k x" "k b = k a" using assms(2,3) Cons by blast+
  then show ?case using Cons assms(2) by simp
qed (simp add: assms(2))

lemma sort_list_all2:
  assumes "list_all2 R xs ys" "\<And>x y. R x y \<Longrightarrow> k y = k x"
  shows "list_all2 R (sort_key k xs) (sort_key k ys)"
  using assms(1)
proof (induction xs ys rule: list_all2_induct)
  case (Cons x xs y ys)
  then show ?case using insort_list_all2 [of R "sort_key k xs" "sort_key k ys" x y k] assms(2) by (simp add: sort_key_def)
qed simp

lemma withdrawn_filter:
  "list_all2 (row_withdrawn T) xs ys \<Longrightarrow>
   filter (\<lambda>r. r_state r = ''sealed'') ys = filter (\<lambda>r. r_record_id r \<notin> T) (filter (\<lambda>r. r_state r = ''sealed'') xs)"
  by (induction xs ys rule: list_all2_induct) (auto simp: row_withdrawn_def)

lemma row_to_record_id: "row_to_record r = Inr a \<Longrightarrow> ar_record_id a = r_record_id r \<and> state_of_value (r_state r) = Inr (ar_state a)"
  by (auto simp: row_to_record_def split: sum.splits)

lemma rows_to_records_filter:
  "rows_to_records rs = Inr as \<Longrightarrow>
   rows_to_records (filter (\<lambda>r. P (r_record_id r)) rs) = Inr (filter (\<lambda>a. P (ar_record_id a)) as)"
  by (induction rs arbitrary: as) (auto simp: row_to_record_id split: sum.splits)

lemma rows_to_records_map:
  "rows_to_records rs = Inr as \<Longrightarrow> map ar_record_id as = map r_record_id rs \<and>
    (\<forall>a \<in> set as. \<exists>r \<in> set rs. row_to_record r = Inr a)"
  by (induction rs arbitrary: as) (auto simp: row_to_record_id split: sum.splits)

lemma candidates_of_filter:
  "candidates_of fs s as = Inr cs \<Longrightarrow>
   candidates_of fs s (filter P as) = Inr (filter (\<lambda>c. P (cd_record c)) cs) \<and> map cd_record cs = as"
  by (induction as arbitrary: cs) (auto simp: map_sum_Inr_iff split: sum.splits)

lemma list_sealed: "list_by_states [SEALED] db =
    rows_to_records (filter (\<lambda>r. r_state r = ''sealed'') (sort_key r_created_at (sort_key r_record_id (db_records db))))"
  by (simp add: list_by_states_def select_records_def)

text \<open>
  Invalidating what a plan found drifted or missing leaves exactly the intact part of it: if
  every invalidation succeeds, planning again over the same files and archive returns the
  intact candidates of the first plan, the same validations in the same order, and no others.
\<close>

theorem replan_is_intact:
  assumes "distinct (map r_record_id (db_records (lg_db st)))"
    and "plan_validation fs False None None st = Inr p"
    and "auto_invalidate_drifted clock show note p (lg_db st) = (Inr rs, db')"
  shows "plan_validation fs False None None (st\<lparr>lg_db := db'\<rparr>) = Inr (plan_intact p)"
proof -
  define T where "T = fst ` set (drift_targets show note p)"
  let ?ord = "\<lambda>db. sort_key r_created_at (sort_key r_record_id (db_records db))"
  let ?sealed = "filter (\<lambda>r. r_state r = ''sealed'') (?ord (lg_db st))"
  obtain as where as: "rows_to_records ?sealed = Inr as" and cs: "candidates_of fs (lg_archive st) as = Inr p"
    using assms(2) by (auto simp: plan_validation_def list_sealed split: sum.splits)
  have "list_all2 (row_withdrawn T) (db_records (lg_db st)) (db_records db')"
    using invalidate_each_rows assms(3) by (simp add: auto_invalidate_drifted_def T_def)
  then have "list_all2 (row_withdrawn T) (?ord (lg_db st)) (?ord db')"
    using row_withdrawn_keys by (intro sort_list_all2) blast+
  then have "filter (\<lambda>r. r_state r = ''sealed'') (?ord db') = filter (\<lambda>r. r_record_id r \<notin> T) ?sealed"
    by (rule withdrawn_filter)
  then have "list_by_states [SEALED] db' = Inr (filter (\<lambda>a. ar_record_id a \<notin> T) as)"
    using rows_to_records_filter [OF as, of "\<lambda>i. i \<notin> T"] by (simp add: list_sealed)
  then have re: "plan_validation fs False None None (st\<lparr>lg_db := db'\<rparr>) =
      Inr (filter (\<lambda>c. ar_record_id (cd_record c) \<notin> T) p)"
    using candidates_of_filter [OF cs, of "\<lambda>a. ar_record_id a \<notin> T"] by (simp add: plan_validation_def)
  have recs: "map cd_record p = as" using candidates_of_filter [OF cs] by blast
  have sealed: "ar_state (cd_record c) = SEALED" if c: "c \<in> set p" for c
  proof -
    have "cd_record c \<in> set as" using c recs by force
    then obtain r where "r \<in> set ?sealed" "row_to_record r = Inr (cd_record c)" using rows_to_records_map [OF as] by blast
    then have "state_of_value (r_state r) = Inr (ar_state (cd_record c))" and s: "r_state r = ''sealed''"
      using row_to_record_id by (blast, simp)
    then show ?thesis unfolding s by (simp add: state_of_value_def)
  qed
  have "distinct (map (\<lambda>c. ar_record_id (cd_record c)) p)"
  proof -
    have "map (\<lambda>c. ar_record_id (cd_record c)) p = map r_record_id ?sealed"
      using conjunct1 [OF rows_to_records_map [OF as]] unfolding recs [symmetric] by (simp add: comp_def)
    moreover have "distinct (map r_record_id (?ord (lg_db st)))"
      using assms(1) by (simp add: distinct_map)
    ultimately show ?thesis by (simp add: distinct_map_filter)
  qed
  then have inj: "c = c'" if "c \<in> set p" "c' \<in> set p" "ar_record_id (cd_record c) = ar_record_id (cd_record c')" for c c'
    using that inj_onD [of "\<lambda>c. ar_record_id (cd_record c)" "set p" c c'] by (simp add: distinct_map)
  have T: "T = (\<lambda>c. ar_record_id (cd_record c)) ` {c \<in> set p. \<not> candidate_intact c}"
  proof -
    have "filter (\<lambda>c. \<not> candidate_intact c \<and> ar_state (cd_record c) \<noteq> INVALIDATED) p = filter (\<lambda>c. \<not> candidate_intact c) p"
      by (rule filter_cong [OF refl]) (use sealed in auto)
    then show ?thesis unfolding T_def drift_targets_def by (simp add: image_image)
  qed
  have "filter (\<lambda>c. ar_record_id (cd_record c) \<notin> T) p = plan_intact p"
    unfolding plan_intact_def by (rule filter_cong [OF refl]) (use inj in \<open>auto simp: T\<close>)
  with re show ?thesis by simp
qed

section \<open>A record whose file is gone\<close>

definition lost_row :: record_row where
  "lost_row = (demo_row ''sealed'')\<lparr>r_artifact_manifest := Some (JObj [(''p'', JStr (sha256 []))])\<rparr>"

lemma lost_record: "\<exists>r. row_to_record lost_row = Inr r \<and> ar_record_id r = ''r'' \<and> ar_state r = SEALED \<and>
    ar_artifact_manifest r = [(''p'', sha256 [])]"
  by (simp add: row_to_record_def row_parser_def row_kind_def row_config_def row_conditions_def lost_row_def demo_row_def
      manifest_of_column_def state_of_value_def)

lemma lost_verdict: "file_verdict_of None (Some (\<lambda>p. None)) ''p'' (sha256 []) = Inr Absent"
proof -
  have "sha256_file_beneath None (path_of ''p'') = Inl FileNotFoundError"
    by (simp add: sha256_file_beneath_def open_regular_file_beneath_def check_relative_def path_of_def unsafe_parts_def starts_with_def)
  moreover have "verified_in_archive (\<lambda>p. None) (sha256 []) = Inr False"
    by (simp add: verified_in_archive_def iter_verified_def blob_path_def check_digest_def is_digest_sha256 read_file_def)
  ultimately show ?thesis by (simp add: file_verdict_of_def)
qed

theorem complete_bundle_never_missing_witness:
  "\<exists>r v. row_to_record (demo_row ''sealed'') = Inr r \<and> validate_artifact (\<lambda>p. None) r (Some demo_store) = Inr v \<and>
     vr_status v \<noteq> STATUS_MISSING"
proof -
  obtain r where r: "row_to_record (demo_row ''sealed'') = Inr r" "ar_artifact_hash r = sha256 []" "ar_artifact_manifest r = []"
    using demo_live by blast
  have b: "read_blob demo_store (sha256 []) = Inr []"
    by (simp add: read_blob_def blob_path_def check_digest_def is_digest_sha256 read_file_def demo_store_def)
  have "bundle_complete demo_store (ar_artifact_hash r) (ar_artifact_manifest r)"
    by (simp add: r bundle_complete_def read_tree_def decode_tree_def b)
  moreover obtain v where "validate_artifact (\<lambda>p. None) r (Some demo_store) = Inr v"
    by (simp add: validate_artifact_def r)
  ultimately show ?thesis using complete_bundle_never_missing r by force
qed

text \<open>The plan finds the record missing; after the invalidation the plan is empty.\<close>

theorem replan_is_intact_witness:
  "\<exists>p db'. plan_validation (\<lambda>p. None) False None None \<lparr>lg_archive = (\<lambda>p. None), lg_db = (empty_database 8)\<lparr>db_records := [lost_row]\<rparr>\<rparr> = Inr p \<and>
     length p = 1 \<and>
     plan_validation (\<lambda>p. None) False None None \<lparr>lg_archive = (\<lambda>p. None), lg_db = db'\<rparr> = Inr []"
proof -
  let ?db = "(empty_database 8)\<lparr>db_records := [lost_row]\<rparr>"
  let ?st = "\<lparr>lg_archive = (\<lambda>p. None), lg_db = ?db\<rparr>"
  let ?show = "\<lambda>l. ''[]''" and ?clock = "\<lambda>n. ''t''"
  obtain r where r: "row_to_record lost_row = Inr r" "ar_record_id r = ''r''" "ar_state r = SEALED"
    "ar_artifact_manifest r = [(''p'', sha256 [])]" using lost_record by blast
  have sealed: "r_state lost_row = ''sealed''" "r_record_id lost_row = ''r''" by (simp_all add: lost_row_def demo_row_def)
  let ?v = "\<lparr>vr_record_id = ''r'', vr_status = STATUS_MISSING, vr_drifted = [], vr_missing = [''p''], vr_archived = []\<rparr>"
  let ?c = "\<lparr>cd_record = r, cd_validation = ?v\<rparr>"
  have v: "validate_artifact (\<lambda>p. None) r (Some (\<lambda>p. None)) = Inr ?v"
    by (simp add: validate_artifact_def r lost_verdict files_with_def)
  have plan: "plan_validation (\<lambda>p. None) False None None ?st = Inr [?c]"
    by (simp add: plan_validation_def list_sealed sealed r(1) v)
  define nt where "nt = ''x: '' @ drift_summary ?show ?v"
  define reason where "reason = reason_value DRIFT_DETECTED @ em_dash @ nt"
  define err where "err = ''INVALIDATED: '' @ reason"
  have targets: "drift_targets ?show ''x'' [?c] = [(''r'', DRIFT_DETECTED, nt)]"
    by (simp add: drift_targets_def candidate_intact_def result_intact_def r nt_def)
  have nt: "nt = ''x: missing=[]''" by (simp add: nt_def drift_summary_def)
  have utf: "utf8_ok reason" by (simp add: reason_def em_dash_def nt utf8_ok_3 utf8_ok_ascii cont_byte_def)
  have utf2: "utf8_ok err" unfolding err_def by (rule utf8_ok_append [OF _ utf]) (simp add: utf8_ok_ascii)
  let ?upd = "set_invalidated ''t'' err"
  let ?db1 = "update_where ''r'' [PENDING, SEALED] ?upd ?db"
  obtain ev db' where a: "append_event ''record.invalidated'' ''r'' (JObj [(''reason'', JStr reason)]) ''t'' ?db1 = (Inr ev, db')"
    using first_event [of ?db1 "JObj [(''reason'', JStr reason)]" "''record.invalidated''" "''r''" "''t''"] utf
    by (auto simp: update_where_def empty_database_def utf8_ok_ascii)
  have state: "r_state (?upd lost_row) = ''invalidated''" by (simp add: set_invalidated_def)
  obtain b where b: "get_record ''r'' db' = Inr b"
  proof -
    have "db_records db' = [?upd lost_row]"
      using append_event_frame(1) [OF a] by (simp add: update_where_def sealed)
    moreover have "\<exists>b. row_to_record (?upd lost_row) = Inr b"
      by (simp add: row_to_record_def row_parser_def row_kind_def row_config_def row_conditions_def lost_row_def demo_row_def
          set_invalidated_def manifest_of_column_def state_of_value_def)
    ultimately show ?thesis using that by (auto simp: get_record_def find_row_def set_invalidated_def sealed)
  qed
  have "texts_ok [Some ''r'', Some ''t'', Some err]"
    using utf2 by (simp add: texts_ok_def utf8_ok_ascii)
  then have tr: "transition ''r'' [PENDING, SEALED] ?upd [Some ''t'', Some err] ''record.invalidated''
      (JObj [(''reason'', JStr reason)]) ''t'' ?db = (Inr (), db')"
    unfolding transition_def write_transaction_def using a by (simp add: sealed)
  have g: "get_record ''r'' ?db = Inr r" by (simp add: get_record_def find_row_def sealed r(1))
  have inv: "invalidate ''r'' reason ''t'' ''t'' ?db = (Inr b, db')"
    unfolding invalidate_def transitions g sum.case r(3) err_def [symmetric] by (simp add: tr b)
  have "invalidate_record ?clock 0 ''r'' DRIFT_DETECTED nt ?db = (Inr b, db')"
    unfolding invalidate_record_def reason_def [symmetric] using inv by (simp add: nt)
  then have auto: "auto_invalidate_drifted ?clock ?show ''x'' [?c] ?db = (Inr [b], db')"
    unfolding auto_invalidate_drifted_def targets by simp
  have "plan_intact [?c] = []" by (simp add: plan_intact_def candidate_intact_def result_intact_def)
  moreover have "distinct (map r_record_id (db_records (lg_db ?st)))" by simp
  ultimately show ?thesis using replan_is_intact [of ?st "\<lambda>p. None" "[?c]" ?clock ?show "''x''" "[b]" db'] plan auto
    by (intro exI [of _ "[?c]"] exI [of _ db']) simp
qed

end
