(* ===== verification/ReplayPolicy.thy ===== *)
theory ReplayPolicy
  imports Transaction Validation
begin

text \<open>
  The comparison policy of replay (\<open>stele/replay/policy.py\<close>): when the output of a second
  run counts as equivalent to the recorded one.  What a finding says is a datatype; the
  text it is written as, which contains \<open>repr\<close>s of values, is not modelled.
\<close>

section \<open>Reading JSON files\<close>

text \<open>\<open>json.loads\<close> on bytes: \<open>detect_encoding\<close> and a decoder with \<open>surrogatepass\<close>.\<close>

datatype encoding = Utf8 | Utf8Sig | Utf16 bool | Utf32 bool | Utf16Bom | Utf32Bom

definition byte_at :: "string \<Rightarrow> nat \<Rightarrow> nat" where
  "byte_at b i = (if i < length b then code (b ! i) else 0)"

definition detect_encoding :: "string \<Rightarrow> encoding" where
  "detect_encoding b =
     (if starts_with [CHR 0x00, CHR 0x00, CHR 0xFE, CHR 0xFF] b \<or> starts_with [CHR 0xFF, CHR 0xFE, CHR 0x00, CHR 0x00] b
      then Utf32Bom
      else if starts_with [CHR 0xFE, CHR 0xFF] b \<or> starts_with [CHR 0xFF, CHR 0xFE] b then Utf16Bom
      else if starts_with [CHR 0xEF, CHR 0xBB, CHR 0xBF] b then Utf8Sig
      else if 4 \<le> length b then
        (if byte_at b 0 = 0 then (if byte_at b 1 \<noteq> 0 then Utf16 False else Utf32 False)
         else if byte_at b 1 = 0 then (if byte_at b 2 \<noteq> 0 \<or> byte_at b 3 \<noteq> 0 then Utf16 True else Utf32 True)
         else Utf8)
      else if length b = 2 then
        (if byte_at b 0 = 0 then Utf16 False else if byte_at b 1 = 0 then Utf16 True else Utf8)
      else Utf8)"

text \<open>\<open>decode("utf-8", "surrogatepass")\<close> succeeds: as \<^const>\<open>utf8_ok\<close>, surrogates let through.\<close>

fun utf8_pass :: "string \<Rightarrow> bool" where
  "utf8_pass [] = True"
| "utf8_pass (a # xs) =
     (let n = code a in
      if n < 128 then utf8_pass xs
      else if 194 \<le> n \<and> n \<le> 223 then
        (case xs of b # ys \<Rightarrow> cont_byte b \<and> utf8_pass ys | _ \<Rightarrow> False)
      else if 224 \<le> n \<and> n \<le> 239 then
        (case xs of b # c # ys \<Rightarrow> cont_byte b \<and> cont_byte c \<and> (n = 224 \<longrightarrow> 160 \<le> code b) \<and> utf8_pass ys
         | _ \<Rightarrow> False)
      else if 240 \<le> n \<and> n \<le> 244 then
        (case xs of b # c # d # ys \<Rightarrow> cont_byte b \<and> cont_byte c \<and> cont_byte d
            \<and> (n = 240 \<longrightarrow> 144 \<le> code b) \<and> (n = 244 \<longrightarrow> code b \<le> 143) \<and> utf8_pass ys
         | _ \<Rightarrow> False)
      else False)"

text \<open>The 16- and 32-bit units of a byte string, little-endian or not.\<close>

fun units16 :: "bool \<Rightarrow> string \<Rightarrow> nat list option" where
  "units16 le [] = Some []"
| "units16 le [a] = None"
| "units16 le (a # b # xs) =
     map_option (\<lambda>us. (if le then code a + 256 * code b else 256 * code a + code b) # us) (units16 le xs)"

fun units32 :: "bool \<Rightarrow> string \<Rightarrow> nat list option" where
  "units32 le [] = Some []"
| "units32 le (a # b # c # d # xs) =
     map_option (\<lambda>us. (if le then code a + 256 * (code b + 256 * (code c + 256 * code d))
                       else code d + 256 * (code c + 256 * (code b + 256 * code a))) # us) (units32 le xs)"
| "units32 le _ = None"

fun join_surrogates :: "nat list \<Rightarrow> nat list" where
  "join_surrogates (u # v # us) =
     (if 55296 \<le> u \<and> u \<le> 56319 \<and> 56320 \<le> v \<and> v \<le> 57343
      then (65536 + (u - 55296) * 1024 + (v - 56320)) # join_surrogates us
      else u # join_surrogates (v # us))"
| "join_surrogates us = us"

definition decode_units :: "nat list option \<Rightarrow> string option" where
  "decode_units us =
     (case us of None \<Rightarrow> None
      | Some ns \<Rightarrow> if \<forall>n \<in> set ns. n < 1114112 then Some (concat (map utf8_enc ns)) else None)"

definition decode_bytes :: "string \<Rightarrow> string option" where
  "decode_bytes b =
     (case detect_encoding b of
        Utf8 \<Rightarrow> if utf8_pass b then Some b else None
      | Utf8Sig \<Rightarrow> if utf8_pass (drop 3 b) then Some (drop 3 b) else None
      | Utf16 le \<Rightarrow> decode_units (map_option join_surrogates (units16 le b))
      | Utf32 le \<Rightarrow> decode_units (units32 le b)
      | Utf16Bom \<Rightarrow> decode_units (map_option join_surrogates (units16 (byte_at b 0 = 255) (drop 2 b)))
      | Utf32Bom \<Rightarrow> decode_units (units32 (byte_at b 0 = 255) (drop 4 b)))"

definition loads_bytes :: "string \<Rightarrow> json option" where
  "loads_bytes b = (case decode_bytes b of None \<Rightarrow> None | Some s \<Rightarrow> json_loads s)"

text \<open>\<open>str.splitlines()\<close> and the test \<open>line.strip()\<close>.\<close>

definition line_end :: "string \<Rightarrow> nat" where
  "line_end s =
     (if starts_with [CHR 0x0D, CHR 0x0A] s \<or> starts_with [CHR 0xC2, CHR 0x85] s then 2
      else if starts_with [CHR 0xE2, CHR 0x80, CHR 0xA8] s \<or> starts_with [CHR 0xE2, CHR 0x80, CHR 0xA9] s then 3
      else case s of [] \<Rightarrow> 0 | c # _ \<Rightarrow> if code c \<in> {10, 11, 12, 13, 28, 29, 30 :: nat} then 1 else 0)"

function split_lines :: "string \<Rightarrow> string \<Rightarrow> string list" where
  "split_lines cur s =
     (case s of
        [] \<Rightarrow> if cur = [] then [] else [cur]
      | c # cs \<Rightarrow>
          if line_end s = 0 then split_lines (cur @ [c]) cs
          else cur # split_lines [] (drop (line_end s) s))"
  by pat_completeness auto
termination
  by (relation "measure (\<lambda>(cur, s). length s)") auto

declare split_lines.simps [simp del]

definition is_blank :: "string \<Rightarrow> bool" where
  "is_blank s \<longleftrightarrow> list_all space_cp (code_points s)"

fun loads_all :: "string list \<Rightarrow> json list option" where
  "loads_all [] = Some []"
| "loads_all (l # ls) =
     (case (json_loads l, loads_all ls) of (Some j, Some js) \<Rightarrow> Some (j # js) | _ \<Rightarrow> None)"

definition loads_lines :: "string \<Rightarrow> json list option" where
  "loads_lines b =
     (if utf8_ok b then loads_all (filter (\<lambda>l. \<not> is_blank l) (split_lines [] b)) else None)"

section \<open>Numbers within a tolerance\<close>

record tolerance =
  tol_rel :: pyfloat
  tol_abs :: pyfloat

definition negative :: "pyfloat \<Rightarrow> bool" where
  "negative x = (case x of PNum r \<Rightarrow> r < 0 | PInf neg \<Rightarrow> neg | _ \<Rightarrow> False)"

definition make_tolerance :: "pyfloat \<Rightarrow> pyfloat \<Rightarrow> tolerance result" where
  "make_tolerance rel ab =
     (if negative rel \<or> negative ab then Inl ValueError else Inr \<lparr>tol_rel = rel, tol_abs = ab\<rparr>)"

definition float_num :: "pyfloat \<Rightarrow> rat" where
  "float_num x = (case x of PNum r \<Rightarrow> r | _ \<Rightarrow> 0)"

definition is_inf :: "pyfloat \<Rightarrow> bool" where
  "is_inf x = (case x of PInf _ \<Rightarrow> True | _ \<Rightarrow> False)"

definition float_le :: "pyfloat \<Rightarrow> pyfloat \<Rightarrow> bool" where
  "float_le x y =
     (case (x, y) of
        (PNaN, _) \<Rightarrow> False | (_, PNaN) \<Rightarrow> False
      | (PInf True, _) \<Rightarrow> True | (_, PInf False) \<Rightarrow> True
      | (PInf False, _) \<Rightarrow> False | (_, PInf True) \<Rightarrow> False
      | _ \<Rightarrow> float_num x \<le> float_num y)"

text \<open>\<open>fabs(t * x)\<close> and \<open>fabs(y - x)\<close> in binary64; \<open>x\<close> and \<open>y\<close> are not infinite.\<close>

definition scaled :: "pyfloat \<Rightarrow> pyfloat \<Rightarrow> pyfloat" where
  "scaled t x =
     (if t = PNaN \<or> x = PNaN then PNaN
      else if is_inf t then (if float_num x = 0 then PNaN else PInf False)
      else round64 \<bar>float_num t * float_num x\<bar>)"

definition distance :: "pyfloat \<Rightarrow> pyfloat \<Rightarrow> pyfloat" where
  "distance x y = (if x = PNaN \<or> y = PNaN then PNaN else round64 \<bar>float_num y - float_num x\<bar>)"

text \<open>\<open>math.isclose(x, y, rel_tol=..., abs_tol=...)\<close>.\<close>

definition isclose :: "tolerance \<Rightarrow> pyfloat \<Rightarrow> pyfloat \<Rightarrow> bool" where
  "isclose tol x y \<longleftrightarrow>
     float_eq x y \<or>
     (\<not> is_inf x \<and> \<not> is_inf y \<and>
      (float_le (distance x y) (scaled (tol_rel tol) y) \<or> float_le (distance x y) (scaled (tol_rel tol) x) \<or>
       float_le (distance x y) (tol_abs tol)))"

section \<open>The comparison\<close>

record policy =
  po_rel :: pyfloat
  po_abs :: pyfloat
  po_ignore :: "string list"
  po_keys :: "(string, tolerance) dict"

definition make_policy :: "pyfloat \<Rightarrow> pyfloat \<Rightarrow> string list \<Rightarrow> (string, tolerance) dict \<Rightarrow> policy result" where
  "make_policy rel ab ignore keys =
     (if negative rel \<or> negative ab then Inl ValueError
      else Inr \<lparr>po_rel = rel, po_abs = ab, po_ignore = ignore, po_keys = keys\<rparr>)"

definition default_tolerance :: "policy \<Rightarrow> tolerance" where
  "default_tolerance po = \<lparr>tol_rel = po_rel po, tol_abs = po_abs po\<rparr>"

definition describe_tolerance :: "tolerance \<Rightarrow> json" where
  "describe_tolerance t = JObj [(''rel_tol'', JFloat (tol_rel t)), (''abs_tol'', JFloat (tol_abs t))]"

definition describe :: "policy \<Rightarrow> json" where
  "describe po =
     JObj [(''name'', JStr ''json-tolerance''), (''version'', JInt 2), (''rel_tol'', JFloat (po_rel po)),
           (''abs_tol'', JFloat (po_abs po)), (''ignore_keys'', JArr (map JStr (sort (remdups (po_ignore po))))),
           (''key_tolerances'', JObj (map (\<lambda>(k, t). (k, describe_tolerance t)) (sort_key fst (po_keys po))))]"

datatype finding =
    MissingFromReplay string
  | NotInRecord string
  | BytesDiffer string
  | NotJson string
  | KeyOneSide string
  | LengthDiffers nat nat string
  | BeyondTolerance json json tolerance string
  | ValuesDiffer json json string

text \<open>The findings of a loop's iterations, or the first exception.\<close>

fun collect :: "'a list result list \<Rightarrow> 'a list result" where
  "collect [] = Inr []"
| "collect (r # rs) = (case r of Inl e \<Rightarrow> Inl e | Inr xs \<Rightarrow> map_sum id (\<lambda>ys. xs @ ys) (collect rs))"

definition as_float :: "json \<Rightarrow> pyfloat result" where
  "as_float j =
     (case j of JFloat x \<Rightarrow> Inr x | JInt i \<Rightarrow> int_to_float i | _ \<Rightarrow> Inl TypeError)"

definition is_number :: "json \<Rightarrow> bool" where
  "is_number j = (case j of JInt _ \<Rightarrow> True | JFloat _ \<Rightarrow> True | _ \<Rightarrow> False)"

definition is_float :: "json \<Rightarrow> bool" where
  "is_float j = (case j of JFloat _ \<Rightarrow> True | _ \<Rightarrow> False)"

text \<open>The last two branches of \<open>_walk\<close>: two values that are not both objects or both lists.\<close>

definition compare_leaves :: "json \<Rightarrow> json \<Rightarrow> string \<Rightarrow> tolerance \<Rightarrow> finding list result" where
  "compare_leaves a b loc tol =
     (if is_number a \<and> is_number b \<and> (is_float a \<or> is_float b) then
        (case as_float a of Inl e \<Rightarrow> Inl e | Inr x \<Rightarrow>
        (case as_float b of Inl e \<Rightarrow> Inl e | Inr y \<Rightarrow>
           Inr (if isclose tol x y then [] else [BeyondTolerance a b tol loc])))
      else Inr (if a \<noteq> b then [ValuesDiffer a b loc] else []))"

text \<open>The keys of an object that are not ignored.\<close>

definition kept_keys :: "string list \<Rightarrow> (string \<times> json) list \<Rightarrow> string list" where
  "kept_keys ignore kvs = filter (\<lambda>k. k \<notin> set ignore) (map fst kvs)"

definition one_sided :: "string list \<Rightarrow> string list \<Rightarrow> string list" where
  "one_sided xs ys = sort (remdups (filter (\<lambda>k. k \<notin> set ys) xs @ filter (\<lambda>k. k \<notin> set xs) ys))"

definition shared :: "string list \<Rightarrow> string list \<Rightarrow> string list" where
  "shared xs ys = sort (remdups (filter (\<lambda>k. k \<in> set ys) xs))"

lemma size_jget: "(k, w) \<in> set kvs \<Longrightarrow> size (jget kvs k) < Suc (size_list (size_prod (\<lambda>x. 0) size) kvs)"
proof -
  assume "(k, w) \<in> set kvs"
  then obtain v where "map_of kvs k = Some v" using map_of_eq_None_iff [of kvs k] by force
  then have "(k, v) \<in> set kvs" "jget kvs k = v" by (auto simp: jget_def dest: map_of_SomeD)
  then show ?thesis using size_list_estimation' [of "(k, v)" kvs "size v" "size_prod (\<lambda>x. 0) size"] by simp
qed

lemma size_zip_left: "(x, y) \<in> set (zip xs ys) \<Longrightarrow> size x < Suc (size_list size xs)"
  using set_zip_leftD size_list_estimation' [of x xs "size x" size] by fastforce

lemma set_shared [simp]: "set (shared xs ys) = set xs \<inter> set ys"
  by (auto simp: shared_def)

lemma set_one_sided [simp]: "set (one_sided xs ys) = (set xs - set ys) \<union> (set ys - set xs)"
  by (auto simp: one_sided_def)

lemma set_kept [simp]: "set (kept_keys ignore kvs) = fst ` set kvs - set ignore"
  by (auto simp: kept_keys_def)

text \<open>\<open>_walk\<close>: its findings, in order.\<close>

function walk :: "policy \<Rightarrow> json \<Rightarrow> json \<Rightarrow> string \<Rightarrow> tolerance \<Rightarrow> finding list result" where
  "walk po a b loc tol =
     (case (a, b) of
        (JObj as, JObj bs) \<Rightarrow>
          (let ka = kept_keys (po_ignore po) as; kb = kept_keys (po_ignore po) bs in
           map_sum id (\<lambda>fs. map (\<lambda>k. KeyOneSide (loc @ ''/'' @ k)) (one_sided ka kb) @ fs)
             (collect (map (\<lambda>k. walk po (jget as k) (jget bs k) (loc @ ''/'' @ k)
                (case map_of (po_keys po) k of None \<Rightarrow> tol | Some t \<Rightarrow> t)) (shared ka kb))))
      | (JArr xs, JArr ys) \<Rightarrow>
          if length xs \<noteq> length ys then Inr [LengthDiffers (length xs) (length ys) loc]
          else collect (map (\<lambda>((x, y), i). walk po x y (loc @ ''['' @ show_nat i @ '']'') tol)
                 (zip (zip xs ys) [0..<length xs]))
      | _ \<Rightarrow> compare_leaves a b loc tol)"
  by pat_completeness auto
termination
  by (relation "measure (\<lambda>(po, a, b, loc, tol). size a)")
    (auto simp: size_jget dest!: set_zip_leftD [of "(_, _)"] intro: size_zip_left)

declare walk.simps [simp del]

definition compare_json :: "policy \<Rightarrow> string \<Rightarrow> string \<Rightarrow> string \<Rightarrow> finding list result" where
  "compare_json po path a b =
     (if ends_with ''.jsonl'' path then
        (case (loads_lines a, loads_lines b) of
           (Some xs, Some ys) \<Rightarrow> walk po (JArr xs) (JArr ys) path (default_tolerance po)
         | _ \<Rightarrow> Inr [NotJson path])
      else
        (case (loads_bytes a, loads_bytes b) of
           (Some x, Some y) \<Rightarrow> walk po x y path (default_tolerance po)
         | _ \<Rightarrow> Inr [NotJson path]))"

text \<open>One path both manifests have.\<close>

definition compare_path :: "policy \<Rightarrow> archive \<Rightarrow> string \<Rightarrow> string \<Rightarrow> string \<Rightarrow> finding list result" where
  "compare_path po s path d e =
     (if d = e then Inr []
      else if ends_with ''.json'' path \<or> ends_with ''.jsonl'' path then
        (case read_blob s d of Inl x \<Rightarrow> Inl x | Inr a \<Rightarrow>
        (case read_blob s e of Inl x \<Rightarrow> Inl x | Inr b \<Rightarrow> compare_json po path a b))
      else Inr [BytesDiffer path])"

definition digest_of :: "manifest \<Rightarrow> string \<Rightarrow> string" where
  "digest_of m p = (case map_of m p of None \<Rightarrow> [] | Some d \<Rightarrow> d)"

text \<open>\<open>sorted(set(xs) - set(ys))\<close>.\<close>

definition only_in :: "string list \<Rightarrow> string list \<Rightarrow> string list" where
  "only_in xs ys = sort (remdups (filter (\<lambda>p. p \<notin> set ys) xs))"

definition compare_bundles :: "policy \<Rightarrow> manifest \<Rightarrow> manifest \<Rightarrow> archive \<Rightarrow> finding list result" where
  "compare_bundles po recorded replayed s =
     map_sum id
       (\<lambda>fs. map MissingFromReplay (only_in (map fst recorded) (map fst replayed)) @
             map NotInRecord (only_in (map fst replayed) (map fst recorded)) @ fs)
       (collect (map (\<lambda>p. compare_path po s p (digest_of recorded p) (digest_of replayed p))
          (shared (map fst recorded) (map fst replayed))))"

section \<open>What is accepted\<close>

lemma collect_nil: "collect rs = Inr [] \<longleftrightarrow> (\<forall>r \<in> set rs. r = Inr [])"
  by (induction rs) (auto simp: map_sum_Inr_iff split: sum.splits)

lemma float_eq_sym: "float_eq x y = float_eq y x"
  by (cases x; cases y) auto

lemma isclose_sym: "isclose tol x y = isclose tol y x"
proof -
  have "distance x y = distance y x" by (auto simp: distance_def abs_minus_commute)
  then show ?thesis using float_eq_sym [of x y] by (auto simp: isclose_def)
qed

lemma compare_leaves_sym: "compare_leaves a b loc tol = Inr [] \<longleftrightarrow> compare_leaves b a loc tol = Inr []"
  using isclose_sym by (auto simp: compare_leaves_def split: sum.splits)

lemma one_sided_sym: "one_sided xs ys = [] \<longleftrightarrow> one_sided ys xs = []"
  unfolding set_empty [symmetric] set_one_sided by auto

lemma walk_obj:
  "walk po (JObj as) (JObj bs) loc tol = Inr [] \<longleftrightarrow>
     one_sided (kept_keys (po_ignore po) as) (kept_keys (po_ignore po) bs) = [] \<and>
     (\<forall>k \<in> set (kept_keys (po_ignore po) as) \<inter> set (kept_keys (po_ignore po) bs).
        walk po (jget as k) (jget bs k) (loc @ ''/'' @ k)
          (case map_of (po_keys po) k of None \<Rightarrow> tol | Some t \<Rightarrow> t) = Inr [])"
  by (subst walk.simps) (auto simp: Let_def map_sum_Inr_iff collect_nil simp del: set_kept)

lemma indexed_zip:
  "length xs = length ys \<Longrightarrow> zip (zip xs ys) [0..<length xs] = map (\<lambda>i. ((xs ! i, ys ! i), i)) [0..<length xs]"
  by (rule nth_equalityI) simp_all

lemma walk_arr:
  "walk po (JArr xs) (JArr ys) loc tol = Inr [] \<longleftrightarrow>
     length xs = length ys \<and>
     (\<forall>i < length xs. walk po (xs ! i) (ys ! i) (loc @ ''['' @ show_nat i @ '']'') tol = Inr [])"
proof -
  have "set (zip (zip xs ys) [0..<length xs]) = {((xs ! i, ys ! i), i) | i. i < length xs}" if "length xs = length ys"
    unfolding indexed_zip [OF that] by auto
  then show ?thesis by (subst walk.simps) (auto simp: collect_nil)
qed

lemma walk_other:
  "\<not> (\<exists>as bs. a = JObj as \<and> b = JObj bs) \<Longrightarrow> \<not> (\<exists>xs ys. a = JArr xs \<and> b = JArr ys) \<Longrightarrow>
   walk po a b loc tol = compare_leaves a b loc tol"
  by (subst walk.simps) (auto split: json.splits)

lemma walk_sym: "walk po a b loc tol = Inr [] \<longleftrightarrow> walk po b a loc tol = Inr []"
proof (induction po a b loc tol rule: walk.induct)
  case (1 po a b loc tol)
  consider (obj) as bs where "a = JObj as" "b = JObj bs" | (arr) xs ys where "a = JArr xs" "b = JArr ys"
    | (other) "\<not> (\<exists>as bs. a = JObj as \<and> b = JObj bs)" "\<not> (\<exists>xs ys. a = JArr xs \<and> b = JArr ys)" by blast
  then show ?case
  proof cases
    case obj
    have "walk po (jget as k) (jget bs k) (loc @ ''/'' @ k) (case map_of (po_keys po) k of None \<Rightarrow> tol | Some t \<Rightarrow> t) = Inr [] \<longleftrightarrow>
        walk po (jget bs k) (jget as k) (loc @ ''/'' @ k) (case map_of (po_keys po) k of None \<Rightarrow> tol | Some t \<Rightarrow> t) = Inr []"
      if "k \<in> set (kept_keys (po_ignore po) as) \<inter> set (kept_keys (po_ignore po) bs)" for k
      using 1(2) [OF refl obj refl refl] that by simp
    then show ?thesis unfolding obj walk_obj using one_sided_sym by (simp del: set_kept) blast
  next
    case arr
    have "walk po (xs ! i) (ys ! i) (loc @ ''['' @ show_nat i @ '']'') tol = Inr [] \<longleftrightarrow>
        walk po (ys ! i) (xs ! i) (loc @ ''['' @ show_nat i @ '']'') tol = Inr []"
      if "i < length xs" "length xs = length ys" for i
    proof -
      have "((xs ! i, ys ! i), i) \<in> set (zip (zip xs ys) [0..<length xs])" using that unfolding indexed_zip [OF that(2)] by auto
      from 1(1) [OF refl arr _ this refl refl] that show ?thesis by simp
    qed
    then show ?thesis unfolding arr walk_arr by metis
  next
    case other
    have "walk po a b loc tol = compare_leaves a b loc tol" "walk po b a loc tol = compare_leaves b a loc tol"
      using other by (intro walk_other; blast)+
    then show ?thesis using compare_leaves_sym by simp
  qed
qed

text \<open>The parsed values of a JSON file a policy compares.\<close>

definition comparable :: "string \<Rightarrow> string \<Rightarrow> json option" where
  "comparable path b = (if ends_with ''.jsonl'' path then map_option JArr (loads_lines b) else loads_bytes b)"

definition json_path :: "string \<Rightarrow> bool" where
  "json_path path \<longleftrightarrow> ends_with ''.json'' path \<or> ends_with ''.jsonl'' path"

definition paths_agree :: "policy \<Rightarrow> archive \<Rightarrow> string \<Rightarrow> string \<Rightarrow> string \<Rightarrow> bool" where
  "paths_agree po s path d e \<longleftrightarrow>
     d = e \<or>
     (json_path path \<and>
      (\<exists>a b x y. read_blob s d = Inr a \<and> read_blob s e = Inr b \<and> comparable path a = Some x \<and> comparable path b = Some y \<and>
         walk po x y path (default_tolerance po) = Inr []))"

lemma compare_json_nil:
  "compare_json po path a b = Inr [] \<longleftrightarrow>
   (\<exists>x y. comparable path a = Some x \<and> comparable path b = Some y \<and> walk po x y path (default_tolerance po) = Inr [])"
  by (auto simp: compare_json_def comparable_def split: option.splits)

lemma compare_path_nil: "compare_path po s p d e = Inr [] \<longleftrightarrow> paths_agree po s p d e"
  by (auto simp: compare_path_def paths_agree_def json_path_def compare_json_nil split: sum.splits)

lemma only_in_nil: "only_in xs ys = [] \<longleftrightarrow> set xs \<subseteq> set ys"
  unfolding set_empty [symmetric] by (auto simp: only_in_def)

lemma compare_bundles_nil:
  "compare_bundles po m n s = Inr [] \<longleftrightarrow>
   set (map fst m) = set (map fst n) \<and>
   (\<forall>p \<in> set (map fst m) \<inter> set (map fst n). paths_agree po s p (digest_of m p) (digest_of n p))"
  unfolding compare_bundles_def map_sum_Inr_iff
  by (auto simp: collect_nil compare_path_nil only_in_nil)

lemma paths_agree_sym: "paths_agree po s p d e \<longleftrightarrow> paths_agree po s p e d"
  unfolding paths_agree_def using walk_sym by blast

text \<open>
  What a replay is accepted as equivalent by: exactly when both bundles have the same paths and
  every path has the same digest in both, or is a JSON file whose two archived contents
  parse and the structural walk finds nothing.  In particular a file that is not JSON must be
  byte-identical.
\<close>

theorem policy_accepts_exact:
  "compare_bundles po m n s = Inr [] \<longleftrightarrow>
   set (map fst m) = set (map fst n) \<and>
   list_all (\<lambda>p. paths_agree po s p (digest_of m p) (digest_of n p)) (map fst m)"
  unfolding compare_bundles_nil by (auto simp: list_all_iff)

text \<open>
  The policy treats the record and the replay alike: it accepts one against the other exactly
  when it accepts them exchanged, for every tolerance, set of ignored keys and JSON content,
  in the rounded arithmetic of \<open>math.isclose\<close>.
\<close>

theorem policy_symmetric:
  "compare_bundles po m n s = Inr [] \<longleftrightarrow> compare_bundles po n m s = Inr []"
  unfolding compare_bundles_nil using paths_agree_sym by blast

text \<open>A value without NaN is within any tolerance of itself.\<close>

fun nan_free :: "json \<Rightarrow> bool" where
  "nan_free (JFloat x) = (x \<noteq> PNaN)"
| "nan_free (JArr vs) = list_all nan_free vs"
| "nan_free (JObj kvs) = list_all (\<lambda>(k, v). nan_free v) kvs"
| "nan_free _ = True"

lemma float_eq_self: "x \<noteq> PNaN \<Longrightarrow> float_eq x x"
  by (cases x) auto

lemma walk_self: "nan_free a \<Longrightarrow> walk po a a loc tol = Inr []"
proof (induction a arbitrary: loc tol)
  case (JArr xs)
  then show ?case unfolding walk_arr by (simp add: list_all_iff)
next
  case (JObj kvs)
  have "walk po (jget kvs k) (jget kvs k) l t = Inr []" if "k \<in> fst ` set kvs" for k l t
  proof -
    obtain v where "map_of kvs k = Some v" using \<open>k \<in> fst ` set kvs\<close> map_of_eq_None_iff [of kvs k] by auto
    then have "(k, v) \<in> set kvs" "jget kvs k = v" by (auto simp: jget_def dest: map_of_SomeD)
    then show ?thesis using JObj(1) [of "(k, v)" v] JObj(2) by (auto simp: list_all_iff)
  qed
  moreover have "one_sided ks ks = []" for ks unfolding set_empty [symmetric] by simp
  ultimately show ?case unfolding walk_obj by auto
qed (auto simp: walk_other compare_leaves_def as_float_def is_float_def is_number_def isclose_def float_eq_self)

end
