(* ===== verification/PyText.thy ===== *)
theory PyText
  imports Transaction ReplayPolicy
begin

text \<open>
  Texts and parsed JSON as Python sees them: truth, iteration and \<open>get\<close> of a JSON value,
  stripping and slicing a text by characters, decimal formatting.
\<close>

section \<open>Parsed values\<close>

fun truthy :: "json \<Rightarrow> bool" where
  "truthy JNull = False"
| "truthy (JBool b) = b"
| "truthy (JInt n) = (n \<noteq> 0)"
| "truthy (JFloat x) = (x \<notin> {PNum 0, PNegZero})"
| "truthy (JStr s) = (s \<noteq> [])"
| "truthy (JArr xs) = (xs \<noteq> [])"
| "truthy (JObj kvs) = (kvs \<noteq> [])"

definition or_else :: "json \<Rightarrow> json \<Rightarrow> json" where
  "or_else x d = (if truthy x then x else d)"

text \<open>\<open>x.get(k, d)\<close>.\<close>

definition json_get :: "string \<Rightarrow> json \<Rightarrow> json \<Rightarrow> json result" where
  "json_get k d x =
     (case x of JObj kvs \<Rightarrow> Inr (case map_of kvs k of None \<Rightarrow> d | Some v \<Rightarrow> v) | _ \<Rightarrow> Inl AttributeError)"

text \<open>Iterating; the elements of a string are its characters.\<close>

definition json_iter :: "json \<Rightarrow> json list result" where
  "json_iter x =
     (case x of
        JArr xs \<Rightarrow> Inr xs
      | JStr s \<Rightarrow> Inr (map (\<lambda>n. JStr (utf8_enc n)) (code_points s))
      | JObj kvs \<Rightarrow> Inr (map (\<lambda>(k, v). JStr k) kvs)
      | _ \<Rightarrow> Inl TypeError)"

definition hashable :: "json \<Rightarrow> bool" where
  "hashable x \<longleftrightarrow> (case x of JArr xs \<Rightarrow> False | JObj kvs \<Rightarrow> False | _ \<Rightarrow> True)"

definition json_set :: "json \<Rightarrow> json list result" where
  "json_set x =
     (case json_iter x of
        Inl e \<Rightarrow> Inl e
      | Inr xs \<Rightarrow> if list_all hashable xs then Inr xs else Inl TypeError)"

section \<open>Texts\<close>

text \<open>\<open>str.strip()\<close> and a prefix, by characters.\<close>

definition strip_text :: "string \<Rightarrow> string" where
  "strip_text s = concat (map utf8_enc (rev (dropWhile space_cp (rev (dropWhile space_cp (code_points s))))))"

definition take_chars :: "nat \<Rightarrow> string \<Rightarrow> string" where
  "take_chars n s = concat (map utf8_enc (take n (code_points s)))"

text \<open>\<open>f"{i:06d}"\<close>: zeros go between the sign and the digits.\<close>

definition pad_left :: "nat \<Rightarrow> string \<Rightarrow> string" where
  "pad_left n s = replicate (n - length s) (CHR ''0'') @ s"

definition pad_int :: "nat \<Rightarrow> int \<Rightarrow> string" where
  "pad_int n i = (if i < 0 then CHR ''-'' # pad_left (n - 1) (show_nat (nat (- i))) else pad_left n (show_nat (nat i)))"

end
