(* ===== verification/Oci.thy ===== *)
theory Oci
  imports Processes PyText
begin

text \<open>
  The container backend (\<open>OciBackend\<close> of \<open>stele/containment/oci.py\<close>): what an engine says of
  itself, probing it, the command line of a run, reading its exit, and proving a timed-out
  container gone.  The engine is a parameter: what its commands print, and how it reads its
  command line.
\<close>

section \<open>The engine\<close>

definition DEFAULT_OCI_IMAGE :: string where
  "DEFAULT_OCI_IMAGE =
     ''docker.io/library/python:3.12-slim'' @
     ''@sha256:2f17fc044b579bab302c2e8054d3a686e2cb9a83de48e70534b94cd8ebbe06a9''"

definition ENGINES :: "string list" where
  "ENGINES = [''podman'', ''docker'']"

definition GPU_CAPABLE_RUNTIMES :: "string list" where
  "GPU_CAPABLE_RUNTIMES = [''runc'', ''crun'']"

definition NOBODY :: int where "NOBODY = 65534"

definition LIMIT_CONTROLLERS :: "string list" where
  "LIMIT_CONTROLLERS = [''memory'', ''pids'', ''cpu'']"

record engine_info =
  ei_kind :: string
  ei_os_type :: string
  ei_rootless :: bool
  ei_seccomp :: bool
  ei_runtimes :: "json list"
  ei_resource_limits :: bool
  ei_gpu_flags :: "string list"

text \<open>
  The host: what a command prints as JSON (an error is a string, as \<open>_run_json\<close> returns it),
  the search path, whether a CDI file of the host names an NVIDIA GPU, and Python's texts.
\<close>

record oci_host =
  oh_json :: "string list \<Rightarrow> json"
  oh_which :: "string \<Rightarrow> string option"
  oh_cdi :: bool
  oh_str :: "json \<Rightarrow> string"
  oh_repr :: "string \<Rightarrow> string"

definition py_str :: "oci_host \<Rightarrow> json \<Rightarrow> string" where
  "py_str h x = (case x of JStr s \<Rightarrow> s | _ \<Rightarrow> oh_str h x)"

definition gpu_device :: "string list" where
  "gpu_device = [''--device'', ''nvidia.com/gpu=all'']"

definition podman_info :: "oci_host \<Rightarrow> json \<Rightarrow> engine_info result" where
  "podman_info h raw =
     (case json_get ''host'' JNull raw of Inl e \<Rightarrow> Inl e | Inr x \<Rightarrow>
      let host = or_else x (JObj []) in
      (case json_get ''security'' JNull host of Inl e \<Rightarrow> Inl e | Inr x \<Rightarrow>
      let security = or_else x (JObj []) in
      (case json_get ''ociRuntime'' JNull host of Inl e \<Rightarrow> Inl e | Inr x \<Rightarrow>
      (case json_get ''name'' JNull (or_else x (JObj [])) of Inl e \<Rightarrow> Inl e | Inr runtime \<Rightarrow>
      (case json_get ''os'' (JStr []) host of Inl e \<Rightarrow> Inl e | Inr os \<Rightarrow>
      (case json_get ''rootless'' JNull security of Inl e \<Rightarrow> Inl e | Inr rootless \<Rightarrow>
      (case json_get ''seccompEnabled'' JNull security of Inl e \<Rightarrow> Inl e | Inr seccomp \<Rightarrow>
      (if truthy runtime \<and> \<not> hashable runtime then Inl TypeError else
      (case json_get ''cgroupControllers'' JNull host of Inl e \<Rightarrow> Inl e | Inr x \<Rightarrow>
      (case json_set (or_else x (JArr [])) of Inl e \<Rightarrow> Inl e | Inr controllers \<Rightarrow>
         Inr \<lparr>ei_kind = ''podman'', ei_os_type = py_str h os, ei_rootless = truthy rootless, ei_seccomp = truthy seccomp,
              ei_runtimes = (if truthy runtime then [runtime] else []),
              ei_resource_limits = list_all (\<lambda>c. JStr c \<in> set controllers) LIMIT_CONTROLLERS,
              ei_gpu_flags = (if oh_cdi h then gpu_device else [])\<rparr>))))))))))"

definition docker_info :: "oci_host \<Rightarrow> json \<Rightarrow> engine_info result" where
  "docker_info h raw =
     (case json_get ''SecurityOptions'' JNull raw of Inl e \<Rightarrow> Inl e | Inr x \<Rightarrow>
      (case json_iter (or_else x (JArr [])) of Inl e \<Rightarrow> Inl e | Inr os \<Rightarrow>
      let options = map (py_str h) os in
      (case json_get ''Runtimes'' JNull raw of Inl e \<Rightarrow> Inl e | Inr x \<Rightarrow>
      (case or_else x (JObj []) of
         JObj kvs \<Rightarrow>
           (case json_get ''DiscoveredDevices'' JNull raw of Inl e \<Rightarrow> Inl e | Inr x \<Rightarrow>
            (case json_iter (or_else x (JArr [])) of Inl e \<Rightarrow> Inl e | Inr ds \<Rightarrow>
              let runtimes = map fst kvs;
                  cdi_gpu = list_ex (\<lambda>d. case d of
                      JObj m \<Rightarrow> starts_with ''nvidia.com/gpu'' (py_str h (case map_of m ''ID'' of None \<Rightarrow> JStr [] | Some v \<Rightarrow> v))
                    | _ \<Rightarrow> False) ds;
                  has = (\<lambda>k. case json_get k JNull raw of Inl e \<Rightarrow> False | Inr v \<Rightarrow> truthy v) in
              (case json_get ''OSType'' (JStr []) raw of Inl e \<Rightarrow> Inl e | Inr os \<Rightarrow>
                 Inr \<lparr>ei_kind = ''docker'', ei_os_type = py_str h os,
                      ei_rootless = (''name=rootless'' \<in> set options),
                      ei_seccomp = list_ex (\<lambda>o'. starts_with ''name=seccomp'' o' \<and> \<not> sublist ''profile=unconfined'' o') options,
                      ei_runtimes = map JStr runtimes,
                      ei_resource_limits = list_all has [''MemoryLimit'', ''PidsLimit'', ''CpuCfsQuota''],
                      ei_gpu_flags = (if cdi_gpu then gpu_device
                                      else if ''nvidia'' \<in> set runtimes then [''--gpus'', ''all''] else [])\<rparr>)))
       | _ \<Rightarrow> Inl AttributeError))))"

text \<open>\<open>parse_engine_info\<close>, of a dictionary.\<close>

definition parse_engine_info :: "oci_host \<Rightarrow> json \<Rightarrow> engine_info result" where
  "parse_engine_info h raw =
     (case raw of
        JObj kvs \<Rightarrow> if ''host'' \<in> set (dict_keys kvs) then podman_info h raw else docker_info h raw
      | _ \<Rightarrow> Inl TypeError)"

section \<open>Probing\<close>

record probe =
  pb_engine :: "string option"
  pb_info :: "engine_info option"
  pb_image_id :: "string option"
  pb_image_digest :: "string option"
  pb_problem :: "string option"

definition no_probe :: probe where
  "no_probe = \<lparr>pb_engine = None, pb_info = None, pb_image_id = None, pb_image_digest = None, pb_problem = None\<rparr>"

record oci_backend =
  oc_image :: string
  oc_engine :: "string option"
  oc_runtime :: string
  oc_gpu :: bool
  oc_memory :: string
  oc_cpus :: pyfloat
  oc_pids_limit :: int
  oc_tmpfs_size :: string
  oc_output_limit :: int

text \<open>\<open>__init__\<close>.\<close>

definition make_oci :: "oci_backend \<Rightarrow> oci_backend result" where
  "make_oci c = (case oc_engine c of None \<Rightarrow> Inr c | Some e \<Rightarrow> if e \<in> set ENGINES then Inr c else Inl ValueError)"

definition oci_name :: "oci_backend \<Rightarrow> string" where
  "oci_name c = ''oci-'' @ oc_runtime c @ (if oc_gpu c then ''-gpu'' else [])"

text \<open>\<open>_DIGEST_RE.search(s)\<close>; the dollar sign also matches before a final line feed.\<close>

definition digest_suffix :: "string \<Rightarrow> string option" where
  "digest_suffix s =
     (let t = (if s \<noteq> [] \<and> last s = CHR 0x0A then butlast s else s);
          u = drop (length t - 72) t in
      if 72 \<le> length t \<and> take 8 u = ''@sha256:'' \<and> is_digest (drop 8 u) then Some (tl u) else None)"

definition image_digest_of :: "oci_host \<Rightarrow> string \<Rightarrow> json list \<Rightarrow> string \<Rightarrow> string" where
  "image_digest_of h ref repo_digests image_id =
     (case digest_suffix ref of
        Some d \<Rightarrow> d
      | None \<Rightarrow>
          (case List.map_filter (\<lambda>e. digest_suffix (py_str h e)) repo_digests of
             d # ds \<Rightarrow> d
           | [] \<Rightarrow> if starts_with ''sha256:'' image_id then image_id else ''sha256:'' @ image_id))"

definition find_engines :: "oci_host \<Rightarrow> oci_backend \<Rightarrow> string list" where
  "find_engines h c =
     filter (\<lambda>p. p \<noteq> []) (List.map_filter (oh_which h)
       (case oc_engine c of Some e \<Rightarrow> if e \<noteq> [] then [e] else ENGINES | None \<Rightarrow> ENGINES))"

definition runtime_known :: "oci_host \<Rightarrow> oci_backend \<Rightarrow> engine_info \<Rightarrow> bool" where
  "runtime_known h c i \<longleftrightarrow>
     (if JStr (oc_runtime c) \<in> set (ei_runtimes i) then True
      else ei_kind i = ''podman'' \<and> oh_which h (oc_runtime c) \<noteq> None)"

definition gpu_problem :: "oci_backend \<Rightarrow> engine_info \<Rightarrow> string option" where
  "gpu_problem c i =
     (if oc_runtime c \<notin> set GPU_CAPABLE_RUNTIMES
      then Some (''no usable GPU under '' @ oc_runtime c @ '': gVisor GPU support (nvproxy) '' @
                 ''cannot be verified, so GPU and gVisor are not combined'')
      else if ei_gpu_flags i = []
      then Some (''no usable GPU: the container engine exposes no NVIDIA GPU '' @
                 ''(no CDI nvidia.com/gpu device or nvidia runtime)'')
      else None)"

definition probe_image :: "oci_host \<Rightarrow> oci_backend \<Rightarrow> string \<Rightarrow> engine_info \<Rightarrow> probe result" where
  "probe_image h c engine i =
     (let absent = Inr (no_probe\<lparr>pb_engine := Some engine, pb_info := Some i,
            pb_problem := Some (''image '' @ oc_image c @ '' is not present locally; fetch it in the '' @
              ''trusted acquisition step (`'' @ engine @ '' pull '' @ oc_image c @ ''`)'' @ em_dash @
              ''Stele never pulls at run time'')\<rparr>)
      in case oh_json h [engine, ''image'', ''inspect'', oc_image c] of
           JArr (x # xs) \<Rightarrow>
             let r = (case x of JObj kvs \<Rightarrow> x | _ \<Rightarrow> JObj []) in
             (case json_get ''Id'' JNull r of Inl e \<Rightarrow> Inl e | Inr id1 \<Rightarrow>
             (case json_get ''ID'' JNull r of Inl e \<Rightarrow> Inl e | Inr id2 \<Rightarrow>
                let image_id = py_str h (or_else id1 (or_else id2 (JStr []))) in
                if image_id = []
                then Inr (no_probe\<lparr>pb_engine := Some engine, pb_info := Some i,
                       pb_problem := Some (''`'' @ engine @ '' image inspect` reported no image id'')\<rparr>)
                else (case json_get ''RepoDigests'' JNull r of Inl e \<Rightarrow> Inl e | Inr ds \<Rightarrow>
                     (case json_iter (or_else ds (JArr [])) of
                        Inl e \<Rightarrow> if digest_suffix (oc_image c) = None then Inl e
                                 else Inr (no_probe\<lparr>pb_engine := Some engine, pb_info := Some i, pb_image_id := Some image_id,
                                        pb_image_digest := Some (image_digest_of h (oc_image c) [] image_id)\<rparr>)
                      | Inr rs \<Rightarrow> Inr (no_probe\<lparr>pb_engine := Some engine, pb_info := Some i, pb_image_id := Some image_id,
                                     pb_image_digest := Some (image_digest_of h (oc_image c) rs image_id)\<rparr>)))))
         | _ \<Rightarrow> absent)"

definition probe_engine :: "oci_host \<Rightarrow> oci_backend \<Rightarrow> string \<Rightarrow> probe result" where
  "probe_engine h c engine =
     (let bad = (\<lambda>i m. Inr (no_probe\<lparr>pb_engine := Some engine, pb_info := i, pb_problem := Some m\<rparr>))
      in case oh_json h [engine, ''info'', ''--format'', ''{{json .}}''] of
           JStr m \<Rightarrow> bad None (''`'' @ engine @ '' info` failed: '' @ m)
         | JObj kvs \<Rightarrow>
             (case parse_engine_info h (JObj kvs) of
                Inl e \<Rightarrow> Inl e
              | Inr i \<Rightarrow>
                  if ei_os_type i \<noteq> ''linux''
                  then bad (Some i) (engine @ '' runs '' @ (if ei_os_type i = [] then ''non-Linux'' else ei_os_type i) @
                         '' containers; Stele parsers need a Linux container engine'')
                  else if ei_kind i = ''docker'' \<and> ei_rootless i
                  then bad (Some i) (''rootless Docker maps container users to subordinate uids, so '' @
                         ''output ownership cannot be preserved; use rootless Podman instead'')
                  else if \<not> runtime_known h c i
                  then bad (Some i) (''OCI runtime '' @ oh_repr h (oc_runtime c) @ '' is not configured in '' @ engine @
                         '' (available: '' @
                         (let known = joins '', '' (sort (map (py_str h) (ei_runtimes i))) in
                          if known = [] then ''none reported'' else known) @
                         ''); Stele will not substitute another runtime'')
                  else (case (if oc_gpu c then gpu_problem c i else None) of
                          Some m \<Rightarrow> bad (Some i) m
                        | None \<Rightarrow> probe_image h c engine i))
         | _ \<Rightarrow> bad None (''`'' @ engine @ '' info` returned unexpected output''))"

text \<open>The loop of \<open>_run_probe\<close>: engines in order, until one has no problem.\<close>

fun probe_engines :: "oci_host \<Rightarrow> oci_backend \<Rightarrow> string list \<Rightarrow> probe list \<Rightarrow> probe list result" where
  "probe_engines h c [] ps = Inr ps"
| "probe_engines h c (e # es) ps =
     (if ps \<noteq> [] \<and> pb_problem (last ps) = None then Inr ps
      else case probe_engine h c e of Inl x \<Rightarrow> Inl x | Inr p \<Rightarrow> probe_engines h c es (ps @ [p]))"

definition run_probe :: "oci_host \<Rightarrow> oci_backend \<Rightarrow> probe result" where
  "run_probe h c =
     (case find_engines h c of
        [] \<Rightarrow> Inr (no_probe\<lparr>pb_problem := Some (''no container engine found ('' @
                (case oc_engine c of Some e \<Rightarrow> if e \<noteq> [] then e else joins '' or '' ENGINES | None \<Rightarrow> joins '' or '' ENGINES) @
                '' not on PATH)'')\<rparr>)
      | engines \<Rightarrow>
          (case probe_engines h c engines [] of
             Inl x \<Rightarrow> Inl x
           | Inr ps \<Rightarrow>
               if pb_problem (last ps) = None \<or> length ps = 1 then Inr (last ps)
               else Inr ((hd ps)\<lparr>pb_problem := Some (joins ''; '' (map (\<lambda>p.
                      path_name (path_of (case pb_engine p of None \<Rightarrow> ''?'' | Some e \<Rightarrow> if e = [] then ''?'' else e)) @ '': '' @
                      (case pb_problem p of None \<Rightarrow> ''None'' | Some m \<Rightarrow> m)) ps))\<rparr>)))"

section \<open>The backend's claims\<close>

text \<open>The probe is cached: \<open>pr\<close> is its result.\<close>

definition oci_available :: "probe \<Rightarrow> bool" where
  "oci_available pr \<longleftrightarrow> pb_problem pr = None"

definition oci_capabilities :: "oci_backend \<Rightarrow> probe \<Rightarrow> capability set" where
  "oci_capabilities c pr =
     {FILESYSTEM_ISOLATION, NETWORK_ISOLATION, HOST_PROCESS, NATIVE_LIBS}
     \<union> (if oc_gpu c \<and> oc_runtime c \<in> set GPU_CAPABLE_RUNTIMES then {GPU} else {})
     \<union> (case pb_info pr of
          None \<Rightarrow> {}
        | Some i \<Rightarrow>
            if pb_problem pr = None
            then (if oc_runtime c = ''runsc'' \<or> ei_seccomp i then {SYSCALL_FILTER} else {})
                 \<union> (if ei_resource_limits i then {RESOURCE_LIMITS} else {})
            else {})"

definition oci_unavailable_reason :: "oci_backend \<Rightarrow> probe \<Rightarrow> string" where
  "oci_unavailable_reason c pr =
     ''OCI container backend ('' @ oci_name c @ ''): '' @
     (case pb_problem pr of None \<Rightarrow> ''available'' | Some m \<Rightarrow> if m = [] then ''available'' else m)"

section \<open>The command line\<close>

text \<open>\<open>_bind\<close>.\<close>

definition mount_breaking :: "char set" where
  "mount_breaking = {CHR '','', CHR 0x22, CHR 0x0A, CHR 0x0D, nul}"

definition bind_fields :: "string \<Rightarrow> string \<Rightarrow> bool \<Rightarrow> string list" where
  "bind_fields src dst readonly =
     [''type=bind'', ''source='' @ src, ''target='' @ dst] @ (if readonly then [''readonly''] else [])"

definition bind_value :: "string \<Rightarrow> string \<Rightarrow> bool \<Rightarrow> string result" where
  "bind_value src dst readonly =
     (let fields = bind_fields src dst readonly in
      if list_ex (\<lambda>f. list_ex (\<lambda>ch. ch \<in> mount_breaking) f) fields then Inl ValueError
      else Inr (joins '','' fields))"

text \<open>\<open>_ENV_KEY_RE.match(key)\<close>, with the dollar sign's line feed.\<close>

definition env_start :: "char \<Rightarrow> bool" where
  "env_start c \<longleftrightarrow> (CHR ''A'' \<le> c \<and> c \<le> CHR ''Z'') \<or> (CHR ''a'' \<le> c \<and> c \<le> CHR ''z'') \<or> c = CHR ''_''"

definition env_char :: "char \<Rightarrow> bool" where
  "env_char c \<longleftrightarrow> env_start c \<or> (CHR ''0'' \<le> c \<and> c \<le> CHR ''9'')"

definition env_key_ok :: "string \<Rightarrow> bool" where
  "env_key_ok key \<longleftrightarrow>
     (case key of
        [] \<Rightarrow> False
      | c # cs \<Rightarrow> env_start c \<and> (let rest = dropWhile env_char cs in rest = [] \<or> rest = [CHR 0x0A]))"

fun all_results :: "'a result list \<Rightarrow> 'a list result" where
  "all_results [] = Inr []"
| "all_results (r # rs) = (case r of Inl e \<Rightarrow> Inl e | Inr x \<Rightarrow> map_sum id (\<lambda>xs. x # xs) (all_results rs))"

text \<open>The mounts of a run in order: host path, path in the container, and whether read-only.\<close>

definition oci_mounts :: "sandbox_config \<Rightarrow> (string \<times> string \<times> bool) list" where
  "oci_mounts cf =
     [(as_posix (cf_artifact_dir cf), SANDBOX_OUTPUT, False)]
     @ (case cf_input_path cf of None \<Rightarrow> [] | Some p \<Rightarrow> [(as_posix p, input_dest p, True)])
     @ (case cf_script_path cf of None \<Rightarrow> [] | Some p \<Rightarrow> [(as_posix p, SANDBOX_SCRIPT, True)])
     @ map (\<lambda>(src, dst). (src, dst, True)) (cf_ro_binds cf)"

definition oci_environment :: "sandbox_config \<Rightarrow> (string, string) dict" where
  "oci_environment cf =
     fold (\<lambda>(k, v). AList.update k v) (cf_env cf)
       ((''STELE_OUTPUT_DIR'', SANDBOX_OUTPUT)
        # (case cf_input_path cf of None \<Rightarrow> [] | Some p \<Rightarrow> [(''STELE_INPUT_PATH'', input_dest p)]))"

definition oci_fixed :: "oci_backend \<Rightarrow> engine_info \<Rightarrow> sandbox_config \<Rightarrow> string \<Rightarrow> (int \<times> int) option \<Rightarrow> string list" where
  "oci_fixed c i cf container_name user =
     [''--rm'', ''--name'', container_name, ''--pull'', ''never'', ''--runtime'', oc_runtime c,
      ''--network'', ''none'', ''--read-only'', ''--cap-drop'', ''ALL'', ''--security-opt'', ''no-new-privileges'',
      ''--ipc'', ''private'',
      ''--memory'', oc_memory c, ''--memory-swap'', oc_memory c, ''--cpus'', float_repr (oc_cpus c),
      ''--pids-limit'', show_int (oc_pids_limit c)]
     @ (if ei_kind i = ''podman''
        then [''--read-only-tmpfs=false''] @ [''--timeout'', show_int (max 1 (cf_timeout cf))] else [])
     @ (case user of
          None \<Rightarrow> [''--userns'', ''keep-id'']
        | Some (u, g) \<Rightarrow> [''--user'', show_int u @ '':'' @ show_int g])
     @ (if oc_gpu c then ei_gpu_flags i else [])
     @ concat (map (\<lambda>p. [''--tmpfs'', p @ '':rw,nosuid,nodev,size='' @ oc_tmpfs_size c @ '',mode=1777''])
                 (''/tmp'' # EPHEMERAL_TMPFS))"

definition oci_build_argv ::
  "oci_backend \<Rightarrow> probe \<Rightarrow> sandbox_config \<Rightarrow> string \<Rightarrow> (int \<times> int) option \<Rightarrow> string list result" where
  "oci_build_argv c pr cf container_name user =
     (case (pb_problem pr, pb_info pr, pb_engine pr) of
        (None, Some i, Some engine) \<Rightarrow>
          if cf_command cf = [] then Inl ValueError
          else (case all_results (map (\<lambda>(src, dst, ro). bind_value src dst ro) (oci_mounts cf)) of
                  Inl e \<Rightarrow> Inl e
                | Inr binds \<Rightarrow>
                    if list_all (\<lambda>(k, v). env_key_ok k) (oci_environment cf)
                    then Inr ([engine, ''run'']
                           @ oci_fixed c i cf container_name user
                           @ concat (map (\<lambda>b. [''--mount'', b]) binds)
                           @ concat (map (\<lambda>(k, v). [''--env'', k @ ''='' @ v]) (oci_environment cf))
                           @ [''--workdir'', SANDBOX_OUTPUT]
                           @ [''--entrypoint'', hd (cf_command cf),
                              (case pb_image_id pr of None \<Rightarrow> oc_image c | Some d \<Rightarrow> if d = [] then oc_image c else d)]
                           @ tl (cf_command cf))
                    else Inl ValueError)
      | _ \<Rightarrow> Inl SandboxUnavailableError)"

section \<open>Ending a run\<close>

text \<open>What a command of the engine gave: it could not be run, or its status and error output.\<close>

datatype engine_answer = CouldNotRun string | Answered int string

text \<open>\<open>_tail\<close>.\<close>

definition last_of_lines :: "string \<Rightarrow> string" where
  "last_of_lines text = (case split_lines [] (strip_text text) of [] \<Rightarrow> ''no output'' | ls \<Rightarrow> last ls)"

definition container_absent :: "string \<Rightarrow> engine_answer \<Rightarrow> bool \<times> string" where
  "container_absent engine a =
     (case a of
        CouldNotRun m \<Rightarrow> (False, engine @ '' container inspect failed: '' @ m)
      | Answered status err \<Rightarrow>
          if status = 0 then (False, ''the container still exists'')
          else if sublist ''no such'' (lower err) then (True, [])
          else (False, engine @ '' container inspect exited '' @ show_int status @ '': '' @ last_of_lines err))"

definition removal_report :: "string \<Rightarrow> engine_answer \<Rightarrow> string" where
  "removal_report engine a =
     (case a of
        CouldNotRun m \<Rightarrow> engine @ '' rm failed: '' @ m
      | Answered status err \<Rightarrow>
          if status \<noteq> 0 then engine @ '' rm exited '' @ show_int status @ '': '' @ last_of_lines err
          else ''removal reported success'')"

text \<open>\<open>_force_remove\<close>: each attempt's answers to \<open>rm\<close> and to \<open>container inspect\<close>.\<close>

fun force_remove :: "string \<Rightarrow> (engine_answer \<times> engine_answer) list \<Rightarrow> string \<Rightarrow> string option" where
  "force_remove engine [] problem = Some problem"
| "force_remove engine ((rm, inspect) # rest) problem =
     (case container_absent engine inspect of
        (True, why) \<Rightarrow> None
      | (False, why) \<Rightarrow> force_remove engine rest (removal_report engine rm @ ''; '' @ why))"

definition REMOVE_ATTEMPTS :: nat where "REMOVE_ATTEMPTS = 3"

definition ENGINE_ERRORS :: "(int \<times> string) list" where
  "ENGINE_ERRORS =
     [(125, ''the container engine could not run the container''),
      (126, ''the parser command could not be executed in the image''),
      (127, ''the parser command was not found in the image'')]"

definition SIGKILL_EXIT :: int where "SIGKILL_EXIT = 128 + 9"

text \<open>\<open>_last_line\<close>: 300 characters of the last line that is not blank.\<close>

definition last_line :: "string \<Rightarrow> string" where
  "last_line text =
     (case filter (\<lambda>l. l \<noteq> []) (map strip_text (split_lines [] text)) of [] \<Rightarrow> [] | ls \<Rightarrow> take_chars 300 (last ls))"

text \<open>\<open>wall >= timeout - 0.5\<close>; the difference is exact for every timeout below 2 to the 52.\<close>

definition wall_reached :: "pyfloat \<Rightarrow> int \<Rightarrow> bool" where
  "wall_reached wall timeout =
     (case wall of
        PNum q \<Rightarrow> q \<ge> of_int timeout - 1 / 2
      | PNegZero \<Rightarrow> 0 \<ge> (of_int timeout - 1 / 2 :: rat)
      | PInf neg \<Rightarrow> \<not> neg
      | PNaN \<Rightarrow> False)"

definition oci_classify :: "oci_backend \<Rightarrow> int \<Rightarrow> string \<Rightarrow> pyfloat \<Rightarrow> int \<Rightarrow> bool \<Rightarrow> run_failure option" where
  "oci_classify c status stderr wall timeout timed_out =
     (if timed_out then Some (timeout_failure timeout status ''the container was force-removed'')
      else if status = 0 then None
      else if status = SIGKILL_EXIT \<and> wall_reached wall timeout
      then Some (timeout_failure timeout status ''the engine killed the container'')
      else if status = SIGKILL_EXIT
      then Some \<lparr>rf_reason = OUT_OF_MEMORY, rf_detail = ''killed by SIGKILL at the '' @ oc_memory c @ '' container memory limit'',
                 rf_exit_code = Some status, rf_signal = Some 9\<rparr>
      else case map_of ENGINE_ERRORS status of
        Some m \<Rightarrow>
          Some \<lparr>rf_reason = ENGINE_ERROR,
                rf_detail = m @ (let l = last_line stderr in if l = [] then [] else '': '' @ l),
                rf_exit_code = Some status, rf_signal = None\<rparr>
      | None \<Rightarrow>
          if 128 < status \<and> status \<le> 128 + 64 then Some (signal_failure (status - 128) status [])
          else Some (exit_status_failure status))"

definition oci_outcome ::
  "oci_backend \<Rightarrow> probe \<Rightarrow> string \<Rightarrow> int \<Rightarrow> pyfloat \<Rightarrow> int \<Rightarrow> bounded_run \<Rightarrow> bool \<Rightarrow> execution_outcome" where
  "oci_outcome c pr engine status wall timeout r timed_out =
     \<lparr>xo_exit_code = status, xo_stdout = br_stdout r, xo_stderr = br_stderr r, xo_wall_time = wall,
      xo_timed_out = timed_out, xo_image_digest = pb_image_digest pr, xo_module_sha256 = None, xo_hardening = [],
      xo_violation = None, xo_cpu_time = None, xo_peak_memory = None,
      xo_runtime = Some (path_name (path_of engine) @ ''/'' @ oc_runtime c),
      xo_limits = [(''timeout_seconds'', VInt timeout), (''memory'', VStr (oc_memory c)), (''cpus'', VFloat (oc_cpus c)),
        (''pids'', VInt (oc_pids_limit c)), (''tmpfs'', VStr (oc_tmpfs_size c)), (''gpu'', VBool (oc_gpu c)),
        (''output_bytes'', VInt (oc_output_limit c))],
      xo_counters = [], xo_failure = oci_classify c status (br_stderr r) wall timeout timed_out\<rparr>"

definition ContainmentCleanupError :: exn where
  "ContainmentCleanupError = OtherError ''ContainmentCleanupError''"

text \<open>
  \<open>_run_in\<close>: \<open>got\<close> is what running the engine gave (and, for a \<open>FileNotFoundError\<close>, whether
  the engine itself was missing), \<open>answers\<close> its answers while a timed-out container is removed.
\<close>

definition oci_run_in ::
  "oci_backend \<Rightarrow> probe \<Rightarrow> string \<Rightarrow> int \<Rightarrow> pyfloat \<Rightarrow> bounded_run result \<times> bool \<Rightarrow>
   (engine_answer \<times> engine_answer) list \<Rightarrow> execution_outcome result" where
  "oci_run_in c pr engine timeout wall got answers =
     (case got of
        (Inl e, missing) \<Rightarrow> Inl (if e = FileNotFoundError \<and> missing then SandboxUnavailableError else e)
      | (Inr r, missing) \<Rightarrow>
          if br_timed_out r
          then (case force_remove engine (take REMOVE_ATTEMPTS answers) ''not attempted'' of
                  Some problem \<Rightarrow> Inl ContainmentCleanupError
                | None \<Rightarrow> Inr (oci_outcome c pr engine (-1) wall timeout r True))
          else Inr (oci_outcome c pr engine (br_returncode r) wall timeout r False))"

text \<open>\<open>_host_ids\<close> is the argument \<open>ids\<close>; \<open>None\<close> is rootless Podman's keep-id.\<close>

definition oci_user :: "engine_info \<Rightarrow> int \<times> int \<Rightarrow> (int \<times> int) option" where
  "oci_user i ids =
     (if ei_kind i = ''podman'' \<and> ei_rootless i then None
      else if fst ids = 0 then Some (NOBODY, NOBODY)
      else Some ids)"

definition oci_execute ::
  "oci_backend \<Rightarrow> probe \<Rightarrow> int \<times> int \<Rightarrow> string \<Rightarrow> pyfloat \<Rightarrow> (string list \<Rightarrow> bounded_run result \<times> bool) \<Rightarrow>
   (engine_answer \<times> engine_answer) list \<Rightarrow> sandbox_config \<Rightarrow> execution_outcome result" where
  "oci_execute c pr ids uuid wall run answers cf =
     (case (pb_problem pr, pb_engine pr, pb_info pr) of
        (None, Some engine, Some i) \<Rightarrow>
          (case oci_build_argv c pr cf (''stele-'' @ uuid) (oci_user i ids) of
             Inl e \<Rightarrow> Inl e
           | Inr argv \<Rightarrow> oci_run_in c pr engine (cf_timeout cf) wall (run argv) answers)
      | _ \<Rightarrow> Inl SandboxUnavailableError)"

section \<open>Root's handoff\<close>

text \<open>
  \<open>_RootHandoff\<close>: who owns each path.  The walks that do not follow links are arguments: of the
  input before the run, of the output directory after it.
\<close>

type_synonym owners = "string \<Rightarrow> (int \<times> int) option"

definition lchown :: "string \<Rightarrow> int \<times> int \<Rightarrow> owners \<Rightarrow> owners result" where
  "lchown p ug m = (case m p of None \<Rightarrow> Inl FileNotFoundError | Some _ \<Rightarrow> Inr (m(p \<mapsto> ug)))"

fun give_input :: "string list \<Rightarrow> (string, int \<times> int) dict \<Rightarrow> owners \<Rightarrow> ((string, int \<times> int) dict \<times> owners) result" where
  "give_input [] saved m = Inr (saved, m)"
| "give_input (p # ps) saved m =
     (case m p of
        None \<Rightarrow> Inl FileNotFoundError
      | Some ug \<Rightarrow> give_input ps (AList.update p ug saved) (m(p \<mapsto> (NOBODY, NOBODY))))"

definition handoff_give :: "string \<Rightarrow> string list \<Rightarrow> owners \<Rightarrow> ((string, int \<times> int) dict \<times> owners) result" where
  "handoff_give output inputs m =
     (case lchown output (NOBODY, NOBODY) m of Inl e \<Rightarrow> Inl e | Inr m' \<Rightarrow> give_input inputs [] m')"

fun own_all :: "string list \<Rightarrow> int \<times> int \<Rightarrow> owners \<Rightarrow> owners result" where
  "own_all [] ug m = Inr m"
| "own_all (p # ps) ug m = (case lchown p ug m of Inl e \<Rightarrow> Inl e | Inr m' \<Rightarrow> own_all ps ug m')"

definition give_back :: "(string, int \<times> int) dict \<Rightarrow> owners \<Rightarrow> owners" where
  "give_back saved m = fold (\<lambda>(p, ug) m. case lchown p ug m of Inl e \<Rightarrow> m | Inr m' \<Rightarrow> m') saved m"

definition handoff_take_back :: "string list \<Rightarrow> int \<times> int \<Rightarrow> (string, int \<times> int) dict \<Rightarrow> owners \<Rightarrow> owners result" where
  "handoff_take_back outputs owner saved m = map_sum id (give_back saved) (own_all outputs owner m)"

end
