(* ===== verification/OciSafety.thy ===== *)
theory OciSafety
  imports Oci
begin

text \<open>
  What the container backend promises: its command line, read by the engine, is exactly the
  sandbox's; what a timeout reported as stopped means; ownership is given back.
\<close>

section \<open>Mounts cannot be forged\<close>

lemma bind_value_fields: "bind_value src dst ro = Inr v \<Longrightarrow> split_on (CHR '','') v = bind_fields src dst ro"
proof -
  let ?fs = "bind_fields src dst ro"
  assume "bind_value src dst ro = Inr v"
  then have v: "v = joins [CHR '',''] ?fs" and ok: "\<not> list_ex (\<lambda>f. list_ex (\<lambda>ch. ch \<in> mount_breaking) f) ?fs"
    by (simp_all add: bind_value_def Let_def split: if_split_asm)
  from ok have "\<forall>w \<in> set ?fs. CHR '','' \<notin> set w" unfolding list_ex_iff mount_breaking_def by blast
  then show ?thesis unfolding v by (rule split_on_joins [rotated]) (simp add: bind_fields_def)
qed

lemma all_results_Inr: "all_results rs = Inr xs \<longleftrightarrow> rs = map Inr xs"
  by (induction rs arbitrary: xs) (auto simp: map_sum_Inr_iff split: sum.splits)

text \<open>What the engine reads; its documented numbers of values.\<close>

definition engine_values :: "(string \<times> nat) list" where
  "engine_values =
     [(''--rm'', 0), (''--name'', 1), (''--pull'', 1), (''--runtime'', 1), (''--network'', 1), (''--read-only'', 0),
      (''--cap-drop'', 1), (''--security-opt'', 1), (''--ipc'', 1), (''--memory'', 1), (''--memory-swap'', 1), (''--cpus'', 1),
      (''--pids-limit'', 1), (''--read-only-tmpfs=false'', 0), (''--timeout'', 1), (''--userns'', 1), (''--user'', 1),
      (''--device'', 1), (''--gpus'', 1), (''--tmpfs'', 1), (''--mount'', 1), (''--env'', 1), (''--workdir'', 1),
      (''--entrypoint'', 1)]"

text \<open>Options end at the first argument that is none: the image.\<close>

definition image_ends :: "string list \<Rightarrow> string list option" where
  "image_ends args = (case args of [] \<Rightarrow> None | x # cmd \<Rightarrow> if starts_with ''-'' x then None else Some args)"

definition gpu_options :: "string list \<Rightarrow> option_values list" where
  "gpu_options flags = (case flags of [x, v] \<Rightarrow> [(x, [v])] | _ \<Rightarrow> [])"

definition oci_options ::
  "oci_backend \<Rightarrow> engine_info \<Rightarrow> sandbox_config \<Rightarrow> string \<Rightarrow> (int \<times> int) option \<Rightarrow> string list \<Rightarrow> option_values list" where
  "oci_options c i cf container_name user binds =
     [(''--rm'', []), (''--name'', [container_name]), (''--pull'', [''never'']), (''--runtime'', [oc_runtime c]),
      (''--network'', [''none'']), (''--read-only'', []), (''--cap-drop'', [''ALL'']),
      (''--security-opt'', [''no-new-privileges'']), (''--ipc'', [''private'']),
      (''--memory'', [oc_memory c]), (''--memory-swap'', [oc_memory c]), (''--cpus'', [float_repr (oc_cpus c)]),
      (''--pids-limit'', [show_int (oc_pids_limit c)])]
     @ (if ei_kind i = ''podman''
        then [(''--read-only-tmpfs=false'', []), (''--timeout'', [show_int (max 1 (cf_timeout cf))])] else [])
     @ (case user of
          None \<Rightarrow> [(''--userns'', [''keep-id''])]
        | Some (u, g) \<Rightarrow> [(''--user'', [show_int u @ '':'' @ show_int g])])
     @ (if oc_gpu c then gpu_options (ei_gpu_flags i) else [])
     @ map (\<lambda>p. (''--tmpfs'', [p @ '':rw,nosuid,nodev,size='' @ oc_tmpfs_size c @ '',mode=1777''])) (''/tmp'' # EPHEMERAL_TMPFS)
     @ map (\<lambda>b. (''--mount'', [b])) binds
     @ map (\<lambda>(k, v). (''--env'', [k @ ''='' @ v])) (oci_environment cf)
     @ [(''--workdir'', [SANDBOX_OUTPUT]), (''--entrypoint'', [hd (cf_command cf)])]"

text \<open>The flags \<open>parse_engine_info\<close> can give.\<close>

definition gpu_flags_ok :: "string list \<Rightarrow> bool" where
  "gpu_flags_ok flags \<longleftrightarrow> flags = [] \<or> flags = gpu_device \<or> flags = [''--gpus'', ''all'']"

lemma gpu_options_rendered: "gpu_flags_ok flags \<Longrightarrow> rendered (gpu_options flags) = flags"
  by (auto simp: gpu_flags_ok_def gpu_options_def gpu_device_def)

lemma podman_gpu: "podman_info h raw = Inr i \<Longrightarrow> gpu_flags_ok (ei_gpu_flags i)"
  unfolding podman_info_def Let_def by (auto simp: gpu_flags_ok_def split: sum.split_asm if_split_asm)

lemma docker_gpu: "docker_info h raw = Inr i \<Longrightarrow> gpu_flags_ok (ei_gpu_flags i)"
  unfolding docker_info_def Let_def
  by (auto simp: gpu_flags_ok_def split: sum.split_asm json.split_asm if_split_asm)

lemma parse_engine_info_gpu: "parse_engine_info h raw = Inr i \<Longrightarrow> gpu_flags_ok (ei_gpu_flags i)"
  by (auto simp: parse_engine_info_def podman_gpu docker_gpu split: json.split_asm if_split_asm)

text \<open>What probing found is what an engine said.\<close>

lemma probe_engine_info:
  assumes "probe_engine h c e = Inr p" "pb_info p = Some i"
  shows "gpu_flags_ok (ei_gpu_flags i)"
proof (cases "oh_json h [e, ''info'', ''--format'', ''{{json .}}'']")
  case (JObj kvs)
  show ?thesis
  proof (cases "parse_engine_info h (JObj kvs)")
    case (Inr i')
    have "pb_info q = Some i'" if "probe_image h c e i' = Inr q" for q
      using that by (auto simp: probe_image_def Let_def no_probe_def split: json.split_asm list.split_asm sum.split_asm if_split_asm)
    then have "i = i'" using assms JObj Inr
      by (auto simp: probe_engine_def Let_def no_probe_def split: if_split_asm option.split_asm)
    then show ?thesis using parse_engine_info_gpu [OF Inr] by simp
  qed (use assms JObj in \<open>simp add: probe_engine_def Let_def\<close>)
qed (use assms in \<open>auto simp: probe_engine_def Let_def no_probe_def\<close>)

lemma probe_engines_all:
  assumes "\<And>e p. probe_engine h c e = Inr p \<Longrightarrow> P p"
  shows "probe_engines h c es ps = Inr qs \<Longrightarrow> list_all P ps \<Longrightarrow> list_all P qs"
proof (induction es arbitrary: ps)
  case (Cons e es)
  show ?case
  proof (cases "ps \<noteq> [] \<and> pb_problem (last ps) = None")
    case False
    then obtain p where p: "probe_engine h c e = Inr p" "probe_engines h c es (ps @ [p]) = Inr qs"
      using Cons.prems by (auto split: sum.split_asm)
    show ?thesis by (rule Cons.IH [OF p(2)]) (use Cons.prems assms [OF p(1)] in simp)
  qed (use Cons.prems in simp)
qed simp

lemma probe_engines_nonempty: "probe_engines h c es ps = Inr qs \<Longrightarrow> es \<noteq> [] \<or> ps \<noteq> [] \<Longrightarrow> qs \<noteq> []"
  by (induction es arbitrary: ps) (auto split: if_splits sum.splits)

lemma run_probe_info:
  assumes "run_probe h c = Inr pr" "pb_info pr = Some i"
  shows "gpu_flags_ok (ei_gpu_flags i)"
proof (cases "find_engines h c")
  case Nil
  then show ?thesis using assms by (auto simp: run_probe_def no_probe_def)
next
  case (Cons e es)
  then obtain ps where ps: "probe_engines h c (e # es) [] = Inr ps"
    and pr: "pr = last ps \<or> (\<exists>m. pr = (hd ps)\<lparr>pb_problem := m\<rparr>)"
    using assms(1) by (auto simp: run_probe_def split: sum.split_asm if_split_asm)
  have "ps \<noteq> []" using probe_engines_nonempty [OF ps] by simp
  moreover have "list_all (\<lambda>p. \<forall>i. pb_info p = Some i \<longrightarrow> gpu_flags_ok (ei_gpu_flags i)) ps"
    by (rule probe_engines_all [OF _ ps]) (auto dest: probe_engine_info)
  ultimately have "\<forall>i. pb_info (hd ps) = Some i \<longrightarrow> gpu_flags_ok (ei_gpu_flags i)" "\<forall>i. pb_info (last ps) = Some i \<longrightarrow> gpu_flags_ok (ei_gpu_flags i)"
    unfolding list_all_iff by (blast intro: hd_in_set last_in_set)+
  then show ?thesis using pr assms(2) by auto
qed

definition image_of :: "oci_backend \<Rightarrow> probe \<Rightarrow> string" where
  "image_of c pr = (case pb_image_id pr of None \<Rightarrow> oc_image c | Some d \<Rightarrow> if d = [] then oc_image c else d)"

lemma oci_build_argv_options:
  assumes "oci_build_argv c pr cf name user = Inr argv" "pb_info pr = Some i" "gpu_flags_ok (ei_gpu_flags i)"
  shows "\<exists>engine binds. pb_engine pr = Some engine \<and> pb_problem pr = None \<and> cf_command cf \<noteq> [] \<and>
    map (\<lambda>(src, dst, ro). bind_value src dst ro) (oci_mounts cf) = map Inr binds \<and>
    list_all (\<lambda>(k, v). env_key_ok k) (oci_environment cf) \<and>
    argv = engine # ''run'' # rendered (oci_options c i cf name user binds) @ image_of c pr # tl (cf_command cf)"
proof -
  from assms(1,2) obtain engine binds where e: "pb_engine pr = Some engine" "pb_problem pr = None" "cf_command cf \<noteq> []"
      "all_results (map (\<lambda>(src, dst, ro). bind_value src dst ro) (oci_mounts cf)) = Inr binds"
      "list_all (\<lambda>(k, v). env_key_ok k) (oci_environment cf)"
    and argv: "argv = [engine, ''run''] @ oci_fixed c i cf name user @ concat (map (\<lambda>b. [''--mount'', b]) binds)
      @ concat (map (\<lambda>(k, v). [''--env'', k @ ''='' @ v]) (oci_environment cf)) @ [''--workdir'', SANDBOX_OUTPUT]
      @ [''--entrypoint'', hd (cf_command cf), image_of c pr] @ tl (cf_command cf)"
    by (auto simp: oci_build_argv_def image_of_def split: option.split_asm sum.split_asm if_split_asm)
  have env: "rendered (map (\<lambda>(k, v). (''--env'', [k @ ''='' @ v])) xs) = concat (map (\<lambda>(k, v). [''--env'', k @ ''='' @ v]) xs)" for xs
    by (induction xs) auto
  have "rendered (if oc_gpu c then gpu_options (ei_gpu_flags i) else []) = (if oc_gpu c then ei_gpu_flags i else [])"
    using gpu_options_rendered [OF assms(3)] by simp
  then have "argv = engine # ''run'' # rendered (oci_options c i cf name user binds) @ image_of c pr # tl (cf_command cf)"
    unfolding argv oci_options_def oci_fixed_def rendered_simps(3) env
    by (simp add: rendered_map split: option.split prod.split)
  then show ?thesis using e by (simp add: all_results_Inr)
qed

lemma engine_arity:
  "map_of engine_values ''--rm'' = Some 0"
  "map_of engine_values ''--name'' = Some (Suc 0)"
  "map_of engine_values ''--pull'' = Some (Suc 0)"
  "map_of engine_values ''--runtime'' = Some (Suc 0)"
  "map_of engine_values ''--network'' = Some (Suc 0)"
  "map_of engine_values ''--read-only'' = Some 0"
  "map_of engine_values ''--cap-drop'' = Some (Suc 0)"
  "map_of engine_values ''--security-opt'' = Some (Suc 0)"
  "map_of engine_values ''--ipc'' = Some (Suc 0)"
  "map_of engine_values ''--memory'' = Some (Suc 0)"
  "map_of engine_values ''--memory-swap'' = Some (Suc 0)"
  "map_of engine_values ''--cpus'' = Some (Suc 0)"
  "map_of engine_values ''--pids-limit'' = Some (Suc 0)"
  "map_of engine_values ''--read-only-tmpfs=false'' = Some 0"
  "map_of engine_values ''--timeout'' = Some (Suc 0)"
  "map_of engine_values ''--userns'' = Some (Suc 0)"
  "map_of engine_values ''--user'' = Some (Suc 0)"
  "map_of engine_values ''--device'' = Some (Suc 0)"
  "map_of engine_values ''--gpus'' = Some (Suc 0)"
  "map_of engine_values ''--tmpfs'' = Some (Suc 0)"
  "map_of engine_values ''--mount'' = Some (Suc 0)"
  "map_of engine_values ''--env'' = Some (Suc 0)"
  "map_of engine_values ''--workdir'' = Some (Suc 0)"
  "map_of engine_values ''--entrypoint'' = Some (Suc 0)"
  by (simp_all add: engine_values_def)

lemma oci_options_arity:
  assumes "gpu_flags_ok (ei_gpu_flags i)"
  shows "list_all (\<lambda>(x, vs). map_of engine_values x = Some (length vs)) (oci_options c i cf name user binds)"
proof -
  let ?ok = "\<lambda>(x, vs). map_of engine_values x = Some (length (vs :: string list))"
  have "list_all ?ok (gpu_options (ei_gpu_flags i))"
    using assms by (auto simp: gpu_flags_ok_def gpu_options_def gpu_device_def engine_arity)
  moreover have "list_all ?ok (map (\<lambda>p. (''--tmpfs'', [f p])) ps)" "list_all ?ok (map (\<lambda>p. (''--mount'', [p])) ps)" for f ps
    by (simp_all add: list_all_iff engine_arity)
  moreover have "list_all ?ok (map (\<lambda>(k, v). (''--env'', [k @ ''='' @ v])) kvs)" for kvs
    by (auto simp: list_all_iff engine_arity)
  ultimately show ?thesis
    unfolding oci_options_def list_all_append by (auto simp add: engine_arity simp del: append_Cons append_Nil split: option.split)
qed

text \<open>How an environment entry is read: up to the first equals sign.\<close>

definition read_env :: "string \<Rightarrow> string \<times> string" where
  "read_env s = (takeWhile (\<lambda>c. c \<noteq> CHR ''='') s, tl (dropWhile (\<lambda>c. c \<noteq> CHR ''='') s))"

lemma env_key_no_equals: "env_key_ok k \<Longrightarrow> CHR ''='' \<notin> set k"
proof
  assume k: "env_key_ok k" and eq: "CHR ''='' \<in> set k"
  from k obtain c cs where cs: "k = c # cs" "env_start c" "dropWhile env_char cs = [] \<or> dropWhile env_char cs = [CHR 0x0A]"
    by (auto simp: env_key_ok_def Let_def split: list.splits)
  have "\<not> env_start (CHR ''='')" "\<not> env_char (CHR ''='')" by (simp_all add: env_start_def env_char_def)
  then have "CHR ''='' \<notin> set (takeWhile env_char cs)" "CHR ''='' \<noteq> c" using cs(2) by (auto dest: set_takeWhileD)
  moreover have "set cs = set (takeWhile env_char cs) \<union> set (dropWhile env_char cs)"
    by (metis set_append takeWhile_dropWhile_id)
  moreover have "CHR ''='' \<notin> set (dropWhile env_char cs)"
    using cs(3) by (elim disjE) (simp_all only: list.set, simp_all)
  ultimately show False using eq cs(1) by auto
qed

lemma read_env_entry: "env_key_ok k \<Longrightarrow> read_env (k @ ''='' @ v) = (k, v)"
proof -
  assume "env_key_ok k"
  then have "\<forall>c \<in> set k. c \<noteq> CHR ''=''" using env_key_no_equals by blast
  then show ?thesis by (simp add: read_env_def takeWhile_append2 dropWhile_append2)
qed

section \<open>The command line cannot be widened\<close>

lemma rendered_distinct:
  "filter (\<lambda>(x, vs). x = n) (map (\<lambda>a. (n', g a)) ps) = (if n' = n then map (\<lambda>a. (n', g a)) ps else [])"
  "filter (\<lambda>(x, vs). x = n) (map (\<lambda>(a, b). (n', h a b)) qs) = (if n' = n then map (\<lambda>(a, b). (n', h a b)) qs else [])"
  by (induction ps) (simp_all, induction qs, auto)

text \<open>What holds of the options that are read, whatever the configuration is.\<close>

definition oci_confine :: "oci_backend \<Rightarrow> engine_info \<Rightarrow> sandbox_config \<Rightarrow> option_values list \<Rightarrow> bool" where
  "oci_confine c i cf os \<longleftrightarrow>
     (let given = (\<lambda>n. map (\<lambda>(x, vs). concat vs) (filter (\<lambda>(x, vs). x = n) os));
          mounts = map (split_on (CHR '','')) (given ''--mount'')
      in list_all (\<lambda>(x, vs). x \<in> set (map fst engine_values)) os \<and>
         given ''--pull'' = [''never''] \<and> given ''--runtime'' = [oc_runtime c] \<and> given ''--network'' = [''none''] \<and>
         given ''--read-only'' = [[]] \<and> given ''--cap-drop'' = [''ALL''] \<and>
         given ''--security-opt'' = [''no-new-privileges''] \<and> given ''--ipc'' = [''private''] \<and>
         given ''--memory'' = [oc_memory c] \<and> given ''--memory-swap'' = [oc_memory c] \<and>
         given ''--pids-limit'' = [show_int (oc_pids_limit c)] \<and>
         (if oc_gpu c then True else given ''--device'' = [] \<and> given ''--gpus'' = []) \<and>
         mounts = map (\<lambda>(src, dst, ro). bind_fields src dst ro) (oci_mounts cf) \<and>
         filter (\<lambda>fs. ''readonly'' \<notin> set fs) mounts =
           [bind_fields (as_posix (cf_artifact_dir cf)) SANDBOX_OUTPUT False] \<and>
         map read_env (given ''--env'') = oci_environment cf \<and>
         given ''--entrypoint'' = [hd (cf_command cf)])"


lemma entry_names:
  "gpu_flags_ok flags \<Longrightarrow> n \<notin> {''--device'', ''--gpus''} \<Longrightarrow> filter (\<lambda>(x, vs). x = n) (gpu_options flags) = []"
  by (auto simp: gpu_flags_ok_def gpu_options_def gpu_device_def)

lemmas option_filters = oci_options_def rendered_distinct

lemma oci_options_one:
  fixes c i cf name user binds
  assumes "gpu_flags_ok (ei_gpu_flags i)"
  defines "os \<equiv> oci_options c i cf name user binds"
  shows "filter (\<lambda>(x, vs). x = ''--pull'') os = [(''--pull'', [''never''])]"
    "filter (\<lambda>(x, vs). x = ''--runtime'') os = [(''--runtime'', [oc_runtime c])]"
    "filter (\<lambda>(x, vs). x = ''--network'') os = [(''--network'', [''none''])]"
    "filter (\<lambda>(x, vs). x = ''--read-only'') os = [(''--read-only'', [])]"
    "filter (\<lambda>(x, vs). x = ''--cap-drop'') os = [(''--cap-drop'', [''ALL''])]"
    "filter (\<lambda>(x, vs). x = ''--security-opt'') os = [(''--security-opt'', [''no-new-privileges''])]"
    "filter (\<lambda>(x, vs). x = ''--ipc'') os = [(''--ipc'', [''private''])]"
    "filter (\<lambda>(x, vs). x = ''--memory'') os = [(''--memory'', [oc_memory c])]"
    "filter (\<lambda>(x, vs). x = ''--memory-swap'') os = [(''--memory-swap'', [oc_memory c])]"
    "filter (\<lambda>(x, vs). x = ''--pids-limit'') os = [(''--pids-limit'', [show_int (oc_pids_limit c)])]"
    "filter (\<lambda>(x, vs). x = ''--entrypoint'') os = [(''--entrypoint'', [hd (cf_command cf)])]"
    "filter (\<lambda>(x, vs). x = ''--mount'') os = map (\<lambda>b. (''--mount'', [b])) binds"
    "filter (\<lambda>(x, vs). x = ''--env'') os = map (\<lambda>(k, v). (''--env'', [k @ ''='' @ v])) (oci_environment cf)"
    "\<not> oc_gpu c \<Longrightarrow> filter (\<lambda>(x, vs). x = ''--device'') os = []"
    "\<not> oc_gpu c \<Longrightarrow> filter (\<lambda>(x, vs). x = ''--gpus'') os = []"
  unfolding os_def oci_options_def filter_append by (simp_all add: rendered_distinct entry_names [OF assms(1)] split: option.split)

lemma bind_fields_readonly: "''readonly'' \<in> set (bind_fields src dst ro) \<longleftrightarrow> ro"
  by (simp add: bind_fields_def)

lemma oci_mounts_writable:
  "filter (\<lambda>(src, dst, ro). \<not> ro) (oci_mounts cf) = [(as_posix (cf_artifact_dir cf), SANDBOX_OUTPUT, False)]"
  by (auto simp: oci_mounts_def filter_empty_conv split: option.split)

lemma oci_options_confine:
  assumes gpu: "gpu_flags_ok (ei_gpu_flags i)"
    and binds: "map (\<lambda>(src, dst, ro). bind_value src dst ro) (oci_mounts cf) = map Inr binds"
    and env: "list_all (\<lambda>(k, v). env_key_ok k) (oci_environment cf)"
  shows "oci_confine c i cf (oci_options c i cf name user binds)"
proof -
  have split: "map (split_on (CHR '','')) binds = map (\<lambda>(src, dst, ro). bind_fields src dst ro) ms"
    if "map (\<lambda>(src, dst, ro). bind_value src dst ro) ms = map Inr binds" for ms
    using that by (induction ms arbitrary: binds) (auto simp: Cons_eq_map_conv bind_value_fields)
  have writable: "filter (\<lambda>fs. ''readonly'' \<notin> set fs) (map (\<lambda>(src, dst, ro). bind_fields src dst ro) ms)
      = map (\<lambda>(src, dst, ro). bind_fields src dst ro) (filter (\<lambda>(src, dst, ro). \<not> ro) ms)" for ms
    by (induction ms) (auto simp: bind_fields_readonly)
  have entries: "map read_env (map (\<lambda>(x, vs). concat vs) (map (\<lambda>(k, v). (''--env'', [k @ ''='' @ v])) kvs)) = kvs"
    if "list_all (\<lambda>(k, v). env_key_ok k) kvs" for kvs
    using that by (induction kvs) (auto simp: read_env_entry [simplified])
  have one: "map (\<lambda>(x, vs). concat vs) (map (\<lambda>b. (''--mount'', [b])) binds) = binds" by (induction binds) auto
  have "list_all (\<lambda>(x, vs). x \<in> set (map fst engine_values)) (oci_options c i cf name user binds)"
    using oci_options_arity [OF gpu, of c cf name user binds]
    by (force simp: list_all_iff dest!: bspec map_of_SomeD)
  then show ?thesis
    unfolding oci_confine_def Let_def oci_options_one [OF gpu] one split [OF binds] entries [OF env] writable oci_mounts_writable
    using oci_options_one(14, 15) [OF gpu] by simp
qed

text \<open>A reader with the engine's laws.\<close>

function read_engine :: "string list \<Rightarrow> option_values list \<Rightarrow> (option_values list \<times> string list) option" where
  "read_engine [] os = None"
| "read_engine (x # args) os =
     (if \<not> starts_with ''-'' x then Some (os, x # args)
      else case map_of engine_values x of
        None \<Rightarrow> None
      | Some n \<Rightarrow> if length args < n then None else read_engine (drop n args) (gather x (take n args) os))"
  by pat_completeness auto
termination
  by (relation "measure (\<lambda>(args, os). length args)") auto

lemma engine_values_dash: "map_of engine_values x = Some n \<Longrightarrow> starts_with ''-'' x"
  by (auto simp: engine_values_def starts_with_def split: if_split_asm)

interpretation engine_options: option_reader "map_of engine_values" image_ends gather read_engine
  by unfold_locales (auto simp: image_ends_def engine_values_dash split: list.splits if_split_asm)

text \<open>
  C18.  No string of a configuration can widen a container.  For a backend whose engine was probed,
  an engine that reads its options as documented reads exactly the sandbox's from the command
  line, whatever the paths, binds, environment and command hold: the network is off, the root is
  read-only, every capability is dropped, the limits and the runtime are the configured ones, a
  device is given only to a GPU backend, each mount has exactly its own fields with the artifact
  directory alone writable, each environment entry is its own, and what follows is the image and
  the parser's arguments.
\<close>

theorem oci_argv_confines:
  assumes "option_reader (map_of engine_values) image_ends gather read"
    and "run_probe h c = Inr pr"
    and "\<not> starts_with ''-'' (image_of c pr)"
  shows "case oci_build_argv c pr cf name user of
      Inl e \<Rightarrow> True
    | Inr argv \<Rightarrow>
        (case (pb_engine pr, pb_info pr, argv) of
           (Some engine, Some i, program # action # args) \<Rightarrow>
             program = engine \<and> action = ''run'' \<and>
             (case read args [] of
                None \<Rightarrow> False
              | Some (os, rest) \<Rightarrow> oci_confine c i cf os \<and> rest = image_of c pr # tl (cf_command cf))
         | _ \<Rightarrow> False)"
proof (cases "oci_build_argv c pr cf name user")
  case (Inr argv)
  then obtain i where i: "pb_info pr = Some i"
    by (auto simp: oci_build_argv_def split: option.split_asm prod.split_asm)
  have gpu: "gpu_flags_ok (ei_gpu_flags i)" by (rule run_probe_info [OF assms(2) i])
  obtain engine binds where e: "pb_engine pr = Some engine"
      "map (\<lambda>(src, dst, ro). bind_value src dst ro) (oci_mounts cf) = map Inr binds"
      "list_all (\<lambda>(k, v). env_key_ok k) (oci_environment cf)"
    and argv: "argv = engine # ''run'' # rendered (oci_options c i cf name user binds) @ image_of c pr # tl (cf_command cf)"
    using oci_build_argv_options [OF Inr i gpu] by blast
  have "read (rendered (oci_options c i cf name user binds) @ image_of c pr # tl (cf_command cf)) [] =
      Some (oci_options c i cf name user binds, image_of c pr # tl (cf_command cf))"
    using option_reader.read_rendered [OF assms(1) oci_options_arity [OF gpu], of "image_of c pr # tl (cf_command cf)"] assms(3)
    by (simp add: rendered_def fold_gather image_ends_def)
  then show ?thesis using Inr i e(1) oci_options_confine [OF gpu e(2,3)] by (simp add: argv)
qed simp

section \<open>A timed-out container\<close>

text \<open>
  The engine, in a state of type \<open>'e\<close>: what \<open>container inspect\<close> answers, whether there is a
  container of the run's name, and whether the command reaches the engine at all.  An engine
  that is reached prints a container that exists and exits 0; of one that does not it exits
  with an error that says there is no such container.  Of an engine that is not reached only
  this is known: the command does not succeed.
\<close>

locale container_engine =
  fixes inspect :: "'e \<Rightarrow> engine_answer"
    and has_container :: "'e \<Rightarrow> bool"
    and reached :: "'e \<Rightarrow> bool"
  assumes inspect_there: "reached s \<Longrightarrow> has_container s \<Longrightarrow> \<exists>err. inspect s = Answered 0 err"
    and inspect_gone: "reached s \<Longrightarrow> \<not> has_container s \<Longrightarrow>
      \<exists>status err. inspect s = Answered status err \<and> status \<noteq> 0 \<and> sublist ''no such container'' (lower err)"
    and inspect_unreached: "\<not> reached s \<Longrightarrow> inspect s \<noteq> Answered 0 err"

text \<open>An error of an engine that is not reached, whose text the code takes for the engine's report.\<close>

definition misleading :: "engine_answer \<Rightarrow> bool" where
  "misleading a = (case a of CouldNotRun m \<Rightarrow> False | Answered status err \<Rightarrow> sublist ''no such'' (lower err))"

definition taken_for_gone :: "('e \<Rightarrow> engine_answer) \<Rightarrow> ('e \<Rightarrow> bool) \<Rightarrow> ('e \<Rightarrow> bool) \<Rightarrow> 'e \<Rightarrow> bool" where
  "taken_for_gone inspect has_container reached s = (if reached s then \<not> has_container s else misleading (inspect s))"

lemma no_such_container: "sublist ''no such container'' text \<Longrightarrow> sublist ''no such'' text"
  by (rule sublist_order.order_trans [of _ "''no such container''"]) (simp_all add: sublist_code)

context container_engine
begin

lemma absent_iff: "fst (container_absent engine (inspect s)) \<longleftrightarrow> taken_for_gone inspect has_container reached s"
proof -
  consider "reached s" "has_container s" | "reached s" "\<not> has_container s" | "\<not> reached s" by blast
  then show ?thesis
  proof cases
    case 1
    then show ?thesis using inspect_there [of s] by (auto simp: taken_for_gone_def container_absent_def)
  next
    case 2
    then show ?thesis
      using inspect_gone [of s] no_such_container by (auto simp: taken_for_gone_def container_absent_def)
  next
    case 3
    then show ?thesis
      using inspect_unreached [OF 3]
      by (auto simp: taken_for_gone_def misleading_def container_absent_def split: engine_answer.split)
  qed
qed

lemma force_remove_iff:
  "force_remove engine (map (\<lambda>(rm, s). (rm, inspect s)) attempts) problem = None \<longleftrightarrow>
   list_ex (\<lambda>(rm, s). taken_for_gone inspect has_container reached s) attempts"
proof (induction attempts arbitrary: problem)
  case (Cons a attempts)
  obtain rm s where a: "a = (rm, s)" by (cases a)
  obtain absent why where "container_absent engine (inspect s) = (absent, why)"
    by (cases "container_absent engine (inspect s)")
  then show ?case using Cons.IH absent_iff [of engine s] by (cases absent) (simp_all add: a)
qed simp

end

lemma oci_outcome_fields:
  "xo_timed_out (oci_outcome c pr engine status wall timeout r t) = t"
  "xo_failure (oci_outcome c pr engine status wall timeout r t) = oci_classify c status (br_stderr r) wall timeout t"
  "xo_exit_code (oci_outcome c pr engine status wall timeout r t) = status"
  by (simp_all add: oci_outcome_def)

text \<open>
  C19.  What a timeout reported as stopped means.  The engine is any whose
  \<open>container inspect\<close>, when it is reached, exits 0 exactly for a container there is and
  otherwise names no such container; between the attempts anything may happen to it.  When the
  engine's run times out, the run is reported as stopped exactly when at one of the first three
  inspections a reached engine had no container of that name, or an engine that was not
  reached failed with a text that contains the words \<open>no such\<close>; in every other case it ends
  in \<open>ContainmentCleanupError\<close>, whatever \<open>rm\<close> claimed.  So as long as the engine is reached, a
  container reported as stopped was gone, and one that stayed is never reported as stopped.
  When the run does not time out no removal is attempted, and the outcome is a success exactly
  for exit status 0.
\<close>

theorem oci_timeout_proven_gone:
  assumes "container_engine inspect has_container reached"
  shows "case got of
     (Inl e, missing) \<Rightarrow>
       oci_run_in c pr engine timeout wall got (map (\<lambda>(rm, s). (rm, inspect s)) attempts) =
         Inl (if e = FileNotFoundError \<and> missing then SandboxUnavailableError else e)
   | (Inr r, missing) \<Rightarrow>
       (case oci_run_in c pr engine timeout wall got (map (\<lambda>(rm, s). (rm, inspect s)) attempts) of
          Inr x \<Rightarrow>
            if br_timed_out r
            then list_ex (\<lambda>(rm, s). if reached s then \<not> has_container s else misleading (inspect s)) (take 3 attempts) \<and>
                 xo_timed_out x \<and> xo_failure x = Some (timeout_failure timeout (-1) ''the container was force-removed'')
            else \<not> xo_timed_out x \<and> xo_exit_code x = br_returncode r \<and> (xo_failure x = None \<longleftrightarrow> br_returncode r = 0)
        | Inl e \<Rightarrow>
            br_timed_out r \<and> e = ContainmentCleanupError \<and>
            list_all (\<lambda>(rm, s). if reached s then has_container s else \<not> misleading (inspect s)) (take 3 attempts))"
proof -
  have classify: "oci_classify c status stderr wall timeout False = None \<longleftrightarrow> status = 0" for status stderr
    by (auto simp: oci_classify_def Let_def split: option.split)
  have timed: "oci_classify c status stderr wall timeout True = Some (timeout_failure timeout status ''the container was force-removed'')"
    for status stderr
    by (simp add: oci_classify_def)
  have kept: "list_all (\<lambda>(rm, s). if reached s then has_container s else \<not> misleading (inspect s)) as \<longleftrightarrow>
      \<not> list_ex (\<lambda>(rm, s). if reached s then \<not> has_container s else misleading (inspect s)) as" for as :: "(engine_answer \<times> 'a) list"
    by (auto simp: list_all_iff list_ex_iff split: if_splits)
  note removed = container_engine.force_remove_iff [OF assms, of engine "take 3 attempts", unfolded taken_for_gone_def]
  obtain res missing where got: "got = (res, missing)" by (cases got)
  show ?thesis
  proof (cases res)
    case (Inr r)
    show ?thesis
      using removed [of "''not attempted''"] unfolding kept
      by (cases "force_remove engine (map (\<lambda>(rm, s). (rm, inspect s)) (take 3 attempts)) ''not attempted''")
        (simp_all add: got Inr oci_run_in_def REMOVE_ATTEMPTS_def oci_outcome_fields classify timed take_map)
  qed (simp add: got oci_run_in_def)
qed

text \<open>An engine with these laws: its container is there or gone, or its socket is.\<close>

datatype demo_engine = There | Gone | Down

definition socket_error :: string where
  "socket_error = ''dial unix /var/run/docker.sock: connect: no such file or directory''"

fun demo_inspect :: "demo_engine \<Rightarrow> engine_answer" where
  "demo_inspect There = Answered 0 []"
| "demo_inspect Gone = Answered 1 ''Error response from daemon: No such container: stele-0''"
| "demo_inspect Down = Answered 1 socket_error"

interpretation demo_docker: container_engine demo_inspect "\<lambda>s. s = There" "\<lambda>s. s \<noteq> Down"
proof unfold_locales
  show "\<exists>status err. demo_inspect s = Answered status err \<and> status \<noteq> 0 \<and> sublist ''no such container'' (lower err)"
    if "s \<noteq> Down" "s \<noteq> There" for s
  proof -
    have "sublist ''no such container'' (lower ''Error response from daemon: No such container: stele-0'')" by code_simp
    then show ?thesis using that by (cases s) auto
  qed
qed auto

text \<open>
  But an unreachable engine is taken for an absent container.  When the engine's socket is
  gone, its error - no such file or directory - contains the words looked for, so the removal
  is reported as proven although the engine said nothing of the container.
\<close>

theorem unreachable_engine_counts_as_removed:
  "container_absent ''docker'' (Answered 1 socket_error) = (True, []) \<and>
   force_remove ''docker'' [(CouldNotRun ''timed out'', Answered 1 socket_error)] ''not attempted'' = None"
  by (simp add: container_absent_def) code_simp

text \<open>A hostile environment entry and path stay what they are.\<close>

definition demo_engine_info :: json where
  "demo_engine_info =
     JObj [(''host'', JObj [(''os'', JStr ''linux''), (''ociRuntime'', JObj [(''name'', JStr ''crun'')]),
        (''security'', JObj [(''rootless'', JBool True), (''seccompEnabled'', JBool True)]),
        (''cgroupControllers'', JArr [JStr ''cpu'', JStr ''memory'', JStr ''pids''])])]"

definition demo_oci_host :: oci_host where
  "demo_oci_host =
     \<lparr>oh_json = (\<lambda>argv. if tl argv = [''info'', ''--format'', ''{{json .}}''] then demo_engine_info
                    else JArr [JObj [(''Id'', JStr ''sha256:ab'')]]),
      oh_which = (\<lambda>p. if p = ''podman'' then Some ''/usr/bin/podman'' else None), oh_cdi = False,
      oh_str = (\<lambda>x. []), oh_repr = id\<rparr>"

definition demo_oci :: oci_backend where
  "demo_oci = \<lparr>oc_image = ''img'', oc_engine = None, oc_runtime = ''crun'', oc_gpu = False, oc_memory = ''2g'', oc_cpus = PInf False,
     oc_pids_limit = 256, oc_tmpfs_size = ''64m'', oc_output_limit = 100\<rparr>"

definition demo_probe :: probe where
  "demo_probe = \<lparr>pb_engine = Some ''/usr/bin/podman'',
     pb_info = Some \<lparr>ei_kind = ''podman'', ei_os_type = ''linux'', ei_rootless = True, ei_seccomp = True,
       ei_runtimes = [JStr ''crun''], ei_resource_limits = True, ei_gpu_flags = []\<rparr>,
     pb_image_id = Some ''sha256:ab'', pb_image_digest = Some ''sha256:ab'', pb_problem = None\<rparr>"

lemma demo_probe: "run_probe demo_oci_host demo_oci = Inr demo_probe"
  by code_simp

text \<open>A container that goes with the second attempt, and one that stays.\<close>

definition demo_timed_out :: bounded_run where
  "demo_timed_out = \<lparr>br_returncode = 0, br_stdout = [], br_stderr = [], br_timed_out = True, br_stdout_truncated = False,
     br_stderr_truncated = False\<rparr>"

theorem oci_timeout_proven_gone_witness:
  "(case oci_run_in demo_oci demo_probe ''docker'' 300 (PNum 300) (Inr demo_timed_out, False)
           (map (\<lambda>(rm, s). (rm, demo_inspect s)) (replicate 3 (Answered 0 [], There))) of
      Inl e \<Rightarrow> e = ContainmentCleanupError | Inr x \<Rightarrow> False) \<and>
   (case oci_run_in demo_oci demo_probe ''docker'' 300 (PNum 300) (Inr demo_timed_out, False)
           (map (\<lambda>(rm, s). (rm, demo_inspect s)) [(Answered 0 [], There), (Answered 0 [], Gone), (Answered 0 [], Gone)]) of
      Inl e \<Rightarrow> False | Inr x \<Rightarrow> xo_timed_out x)"
  using oci_timeout_proven_gone [OF demo_docker.container_engine_axioms, where got = "(Inr demo_timed_out, False)" and c = demo_oci
      and pr = demo_probe and engine = "''docker''" and timeout = 300 and wall = "PNum 300" and attempts = "replicate 3 (Answered 0 [], There)"]
    oci_timeout_proven_gone [OF demo_docker.container_engine_axioms, where got = "(Inr demo_timed_out, False)" and c = demo_oci
      and pr = demo_probe and engine = "''docker''" and timeout = 300 and wall = "PNum 300" and attempts = "[(Answered 0 [], There), (Answered 0 [], Gone), (Answered 0 [], Gone)]"]
  by (simp add: demo_timed_out_def numeral_3_eq_3 split: sum.splits)

theorem oci_argv_confines_witness:
  "case oci_build_argv demo_oci demo_probe (demo_config\<lparr>cf_env := [(''A'', ''b --privileged'')]\<rparr>) ''stele-0'' None of
     Inl e \<Rightarrow> False
   | Inr (program # action # args) \<Rightarrow>
       (case read_engine args [] of None \<Rightarrow> False | Some (os, rest) \<Rightarrow> rest = [''sha256:ab''])
   | Inr _ \<Rightarrow> False"
proof -
  let ?cf = "demo_config\<lparr>cf_env := [(''A'', ''b --privileged'')]\<rparr>"
  have image: "image_of demo_oci demo_probe = ''sha256:ab''" by code_simp
  have dash: "\<not> starts_with ''-'' (image_of demo_oci demo_probe)" by code_simp
  obtain engine i where "pb_engine demo_probe = Some engine" "pb_info demo_probe = Some i" by (simp add: demo_probe_def)
  have "tl (cf_command ?cf) = []" by (simp add: demo_config_def)
  moreover note \<open>pb_engine demo_probe = Some engine\<close> \<open>pb_info demo_probe = Some i\<close>
  moreover have "case oci_build_argv demo_oci demo_probe ?cf ''stele-0'' None of Inl e \<Rightarrow> False | Inr argv \<Rightarrow> True"
    by code_simp
  ultimately show ?thesis
    using oci_argv_confines [OF engine_options.option_reader_axioms demo_probe dash, of ?cf "''stele-0''" None]
    by (auto simp: image split: sum.splits list.splits option.splits)
qed

section \<open>Ownership\<close>

lemma give_input_owners:
  "give_input ps saved m = Inr (saved', m') \<Longrightarrow> distinct ps \<Longrightarrow> set ps \<inter> fst ` set saved = {} \<Longrightarrow>
   list_all (\<lambda>p. m p \<noteq> None) ps \<and> saved' = saved @ map (\<lambda>p. (p, the (m p))) ps \<and>
   m' = (\<lambda>p. if p \<in> set ps then Some (NOBODY, NOBODY) else m p)"
proof (induction ps arbitrary: saved m)
  case (Cons p ps)
  then obtain ug where ug: "m p = Some ug" by (auto split: option.split_asm)
  let ?m = "m(p \<mapsto> (NOBODY, NOBODY))"
  have "AList.update p ug saved = saved @ [(p, ug)]" using Cons.prems(3) by (intro update_fresh) auto
  then have "give_input ps (saved @ [(p, ug)]) ?m = Inr (saved', m')" using Cons.prems(1) ug by simp
  from Cons.IH [OF this] Cons.prems(2,3)
  have "list_all (\<lambda>q. ?m q \<noteq> None) ps \<and> saved' = (saved @ [(p, ug)]) @ map (\<lambda>q. (q, the (?m q))) ps \<and>
    m' = (\<lambda>q. if q \<in> set ps then Some (NOBODY, NOBODY) else ?m q)"
    by (simp del: fun_upd_apply)
  then have IH: "list_all (\<lambda>q. ?m q \<noteq> None) ps" "saved' = (saved @ [(p, ug)]) @ map (\<lambda>q. (q, the (?m q))) ps"
    "m' = (\<lambda>q. if q \<in> set ps then Some (NOBODY, NOBODY) else ?m q)"
    by (simp_all only:)
  have same: "?m q = m q" if "q \<in> set ps" for q using that Cons.prems(2) by auto
  then have "map (\<lambda>q. (q, the (?m q))) ps = map (\<lambda>q. (q, the (m q))) ps" by (intro map_cong) auto
  moreover have "list_all (\<lambda>q. m q \<noteq> None) ps" using IH(1) same by (simp add: list_all_iff)
  ultimately show ?case using IH(2,3) ug by (auto simp: fun_eq_iff)
qed auto

lemma own_all_owners:
  "own_all ps ug m = Inr m' \<Longrightarrow> m' = (\<lambda>p. if p \<in> set ps then Some ug else m p)"
  by (induction ps arbitrary: m) (auto simp: lchown_def fun_eq_iff split: option.split_asm sum.split_asm)

lemma give_back_owners:
  "give_back (map (\<lambda>p. (p, f p)) ps) m = (\<lambda>p. if p \<in> set ps \<and> m p \<noteq> None then Some (f p) else m p)"
  by (induction ps arbitrary: m) (auto simp: give_back_def lchown_def fun_eq_iff split: option.split)

text \<open>
  Running as root, ownership is handed over for the run alone.  During the run the output
  directory and the whole staged input, and nothing else, belong to nobody.  Whatever the run then
  does, taking back gives every input path that still exists its own owner again, every path
  found below the output directory the directory's owner, and changes no other path.
\<close>

theorem handoff_restores:
  "if distinct (output # inputs)
   then (case handoff_give output inputs m of
           Inl e \<Rightarrow> True
         | Inr (saved, during) \<Rightarrow>
             (\<forall>p. during p = (if p \<in> set (output # inputs) then Some (NOBODY, NOBODY) else m p)) \<and>
             (case handoff_take_back outputs owner saved after of
                Inl e \<Rightarrow> True
              | Inr restored \<Rightarrow>
                  \<forall>p. restored p =
                    (if p \<in> set inputs \<and> (case after p of None \<Rightarrow> p \<in> set outputs | Some ug \<Rightarrow> True) then m p
                     else if p \<in> set outputs then Some owner else after p)))
   else True"
proof (cases "handoff_give output inputs m")
  case (Inr r)
  obtain saved during where r: "r = (saved, during)" by (cases r)
  show ?thesis
  proof (cases "distinct (output # inputs)")
    case d: True
    have give: "give_input inputs [] (m(output \<mapsto> (NOBODY, NOBODY))) = Inr (saved, during)"
      using Inr by (auto simp: handoff_give_def lchown_def r split: option.split_asm)
    have same: "(m(output \<mapsto> (NOBODY, NOBODY))) p = m p" if "p \<in> set inputs" for p using that d by auto
    have all: "list_all (\<lambda>p. (m(output \<mapsto> (NOBODY, NOBODY))) p \<noteq> None) inputs \<and>
        saved = [] @ map (\<lambda>p. (p, the ((m(output \<mapsto> (NOBODY, NOBODY))) p))) inputs \<and>
        during = (\<lambda>p. if p \<in> set inputs then Some (NOBODY, NOBODY) else (m(output \<mapsto> (NOBODY, NOBODY))) p)"
      by (rule give_input_owners [OF give]) (use d in auto)
    have g: "list_all (\<lambda>p. m p \<noteq> None) inputs" "saved = map (\<lambda>p. (p, the (m p))) inputs"
      "during = (\<lambda>p. if p \<in> set inputs then Some (NOBODY, NOBODY) else (m(output \<mapsto> (NOBODY, NOBODY))) p)"
      using all same by (simp_all add: list_all_iff del: fun_upd_apply)
    have during: "\<forall>p. during p = (if p \<in> set (output # inputs) then Some (NOBODY, NOBODY) else m p)"
      by (simp add: g(3))
    show ?thesis
    proof (cases "handoff_take_back outputs owner saved after")
      case rest: (Inr restored)
      then obtain own where own: "own_all outputs owner after = Inr own" "restored = give_back saved own"
        by (cases "own_all outputs owner after") (auto simp: handoff_take_back_def)
      have "restored p = (if p \<in> set inputs \<and> (case after p of None \<Rightarrow> p \<in> set outputs | Some ug \<Rightarrow> True) then m p
                     else if p \<in> set outputs then Some owner else after p)" for p
        using g(1) unfolding own(2) g(2) give_back_owners own_all_owners [OF own(1)] by (auto simp: list_all_iff split: option.split)
      then have "\<forall>p. restored p = (if p \<in> set inputs \<and> (case after p of None \<Rightarrow> p \<in> set outputs | Some ug \<Rightarrow> True) then m p
                     else if p \<in> set outputs then Some owner else after p)" by (rule allI)
      then show ?thesis using during unfolding Inr r rest sum.case prod.case if_P [OF d] by (rule conjI [rotated])
    qed (use d Inr during in \<open>simp add: r\<close>)
  qed (simp only: if_False)
qed simp

section \<open>What a clean probe establishes\<close>

definition probe_sound :: "oci_host \<Rightarrow> oci_backend \<Rightarrow> probe \<Rightarrow> bool" where
  "probe_sound h c pr \<longleftrightarrow>
     (if pb_problem pr = None
      then (case (pb_engine pr, pb_info pr, pb_image_id pr, pb_image_digest pr) of
              (Some engine, Some i, Some image_id, Some digest) \<Rightarrow>
                engine \<in> set (find_engines h c) \<and> ei_os_type i = ''linux'' \<and> \<not> (ei_kind i = ''docker'' \<and> ei_rootless i) \<and>
                runtime_known h c i \<and>
                (if oc_gpu c then oc_runtime c \<in> set GPU_CAPABLE_RUNTIMES \<and> ei_gpu_flags i \<noteq> [] else True) \<and>
                image_id \<noteq> [] \<and> (case digest_suffix (oc_image c) of None \<Rightarrow> True | Some d \<Rightarrow> digest = d)
            | _ \<Rightarrow> False)
      else True)"

lemma probe_sound_problem: "pb_problem pr = Some m \<Longrightarrow> probe_sound h c pr"
  by (simp add: probe_sound_def)

lemma probe_image_found:
  assumes "probe_image h c engine i = Inr p" "pb_problem p = None"
  shows "\<exists>rs image_id. image_id \<noteq> [] \<and> p = no_probe\<lparr>pb_engine := Some engine, pb_info := Some i, pb_image_id := Some image_id,
    pb_image_digest := Some (image_digest_of h (oc_image c) rs image_id)\<rparr>"
proof -
  obtain x xs where x: "oh_json h [engine, ''image'', ''inspect'', oc_image c] = JArr (x # xs)"
    using assms by (cases "oh_json h [engine, ''image'', ''inspect'', oc_image c]")
      (auto simp: probe_image_def Let_def split: list.split_asm)
  define r where "r = (case x of JObj kvs \<Rightarrow> x | _ \<Rightarrow> JObj [])"
  obtain id1 id2 where "json_get ''Id'' JNull r = Inr id1" "json_get ''ID'' JNull r = Inr id2"
    using assms(1) unfolding probe_image_def Let_def x json.case list.case r_def [symmetric] by (auto split: sum.split_asm)
  moreover define image_id where "image_id = py_str h (or_else id1 (or_else id2 (JStr [])))"
  ultimately show ?thesis
    using assms unfolding probe_image_def Let_def x json.case list.case r_def [symmetric]
    by (auto simp: image_id_def [symmetric] split: sum.split_asm if_split_asm)
qed

lemma probe_image_sound:
  assumes "probe_image h c engine i = Inr p" "engine \<in> set (find_engines h c)" "ei_os_type i = ''linux''"
    "\<not> (ei_kind i = ''docker'' \<and> ei_rootless i)" "runtime_known h c i" "(if oc_gpu c then gpu_problem c i else None) = None"
  shows "probe_sound h c p"
proof -
  have gpu: "if oc_gpu c then oc_runtime c \<in> set GPU_CAPABLE_RUNTIMES \<and> ei_gpu_flags i \<noteq> [] else True"
    using assms(6) by (auto simp: gpu_problem_def split: if_split_asm)
  have digest: "case digest_suffix (oc_image c) of None \<Rightarrow> True | Some d \<Rightarrow> image_digest_of h (oc_image c) rs image_id = d" for rs image_id
    by (simp add: image_digest_of_def split: option.split)
  show ?thesis
  proof (cases "pb_problem p")
    case None
    then obtain rs image_id where "p = no_probe\<lparr>pb_engine := Some engine, pb_info := Some i, pb_image_id := Some image_id,
        pb_image_digest := Some (image_digest_of h (oc_image c) rs image_id)\<rparr>" "image_id \<noteq> []"
      using probe_image_found [OF assms(1)] by blast
    then show ?thesis using assms(2-5) gpu digest [of rs image_id] by (simp add: probe_sound_def no_probe_def)
  qed (rule probe_sound_problem)
qed

lemma probe_engine_sound:
  assumes "probe_engine h c engine = Inr p" "engine \<in> set (find_engines h c)"
  shows "probe_sound h c p"
proof (cases "pb_problem p")
  case None
  with assms(1) obtain i where i: "probe_image h c engine i = Inr p" "ei_os_type i = ''linux''"
      "\<not> (ei_kind i = ''docker'' \<and> ei_rootless i)" "runtime_known h c i" "(if oc_gpu c then gpu_problem c i else None) = None"
    unfolding probe_engine_def Let_def
    by (auto simp: no_probe_def split: json.split_asm sum.split_asm if_split_asm option.split_asm)
  show ?thesis by (rule probe_image_sound [OF i(1) assms(2) i(2-5)])
qed (rule probe_sound_problem)

lemma probe_engines_sound:
  "probe_engines h c es ps = Inr qs \<Longrightarrow> set es \<subseteq> set (find_engines h c) \<Longrightarrow> list_all (probe_sound h c) ps \<Longrightarrow>
   list_all (probe_sound h c) qs"
  by (induction es arbitrary: ps) (auto simp: probe_engine_sound split: if_split_asm sum.split_asm)

text \<open>
  A container backend that calls itself available has everything its runs rely on.  Whatever
  the engines print, a probe without a problem names an engine found on the path, running Linux
  containers and not rootless Docker, whose configured runtime is known - none is substituted - a
  GPU device and a runtime that can use it if a GPU is asked for, and a local image, whose
  recorded digest is the one the image was pinned to if it was pinned.
\<close>

theorem oci_probe_sound:
  "case run_probe h c of Inl e \<Rightarrow> True | Inr pr \<Rightarrow> probe_sound h c pr"
proof (cases "find_engines h c")
  case Nil
  then show ?thesis by (simp add: run_probe_def no_probe_def probe_sound_def)
next
  case (Cons e es)
  show ?thesis
  proof (cases "probe_engines h c (e # es) []")
    case (Inr ps)
    have "list_all (probe_sound h c) ps" using probe_engines_sound [OF Inr] Cons by simp
    moreover have "ps \<noteq> []" using probe_engines_nonempty [OF Inr] by simp
    ultimately have "probe_sound h c (last ps)" unfolding list_all_iff by (blast intro: last_in_set)
    then show ?thesis using Cons Inr by (simp add: run_probe_def probe_sound_problem del: probe_engines.simps)
  qed (use Cons in \<open>simp add: run_probe_def\<close>)
qed

end
