(* ===== verification/Contract.thy ===== *)
theory Contract
  imports PyText
begin

text \<open>
  The extraction contract (\<open>stele/extraction/contract.py\<close>): units of content, each anchored in the
  bytes it came from, and their canonical serialization.  Arguments of the constructors are JSON
  values, as the strict parser passes them.  The main result: an extraction has exactly one
  byte representation, and it parses to nothing else.
\<close>

definition ExtractionFormatError :: exn where
  "ExtractionFormatError = OtherError ''ExtractionFormatError''"

definition SCHEMA :: string where "SCHEMA = ''stele.extraction''"
definition SCHEMA_VERSION :: int where "SCHEMA_VERSION = 1"

definition KINDS :: "string list" where
  "KINDS = [''heading'', ''paragraph'', ''list'', ''table'', ''code'', ''formula'',
            ''figure'', ''caption'', ''message'', ''other'']"

section \<open>Anchors\<close>

datatype place = Bytes int int | Pointer string string

record content_anchor =
  an_artifact :: string
  an_digest :: string
  an_place :: place

text \<open>\<open>Anchor.__post_init__\<close>; a range is a pair of arguments.\<close>

definition make_anchor :: "json \<Rightarrow> json \<Rightarrow> (json \<times> json) option \<Rightarrow> json \<Rightarrow> json \<Rightarrow> content_anchor result" where
  "make_anchor artifact digest rng pointer render =
     (case (artifact, digest) of
        (JStr a, JStr d) \<Rightarrow>
          if a = [] \<or> \<not> is_digest d then Inl ExtractionFormatError
          else if (rng = None) = (pointer = JNull) then Inl ExtractionFormatError
          else (case rng of
             Some (JInt s, JInt e) \<Rightarrow>
               if 0 \<le> s \<and> s \<le> e \<and> render = JNull
               then Inr \<lparr>an_artifact = a, an_digest = d, an_place = Bytes s e\<rparr>
               else Inl ExtractionFormatError
           | Some _ \<Rightarrow> Inl ExtractionFormatError
           | None \<Rightarrow>
               (case (pointer, render) of
                  (JStr p, JStr r) \<Rightarrow>
                    if (p = [] \<or> starts_with ''/'' p) \<and> r \<noteq> []
                    then Inr \<lparr>an_artifact = a, an_digest = d, an_place = Pointer p r\<rparr>
                    else Inl ExtractionFormatError
                | _ \<Rightarrow> Inl ExtractionFormatError))
      | _ \<Rightarrow> Inl ExtractionFormatError)"

definition anchor_to_json :: "content_anchor \<Rightarrow> json" where
  "anchor_to_json a =
     JObj ([(''artifact'', JStr (an_artifact a)), (''digest'', JStr (an_digest a))]
       @ (case an_place a of
            Bytes s e \<Rightarrow> [(''range'', JArr [JInt s, JInt e])]
          | Pointer p r \<Rightarrow> [(''pointer'', JStr p), (''render'', JStr r)]))"

definition anchor_from_json :: "json \<Rightarrow> content_anchor result" where
  "anchor_from_json obj =
     (case obj of
        JObj kvs \<Rightarrow>
          if \<not> set (map fst kvs) \<subseteq> {''artifact'', ''digest'', ''range'', ''pointer'', ''render''}
          then Inl ExtractionFormatError
          else (case jget kvs ''range'' of
             JNull \<Rightarrow> make_anchor (jget kvs ''artifact'') (jget kvs ''digest'') None
                        (jget kvs ''pointer'') (jget kvs ''render'')
           | JArr [s, e] \<Rightarrow> make_anchor (jget kvs ''artifact'') (jget kvs ''digest'') (Some (s, e))
                        (jget kvs ''pointer'') (jget kvs ''render'')
           | _ \<Rightarrow> Inl ExtractionFormatError)
      | _ \<Rightarrow> Inl ExtractionFormatError)"

section \<open>Units\<close>

record unit_of_content =
  un_id :: string
  un_kind :: string
  un_text :: string
  un_order :: int
  un_anchor :: content_anchor
  un_page :: "int option"
  un_bbox :: "pyfloat list option"
  un_level :: "int option"
  un_parent :: json
  un_attributes :: "(string \<times> json) list"

text \<open>\<open>page\<close> and \<open>level\<close>: null or a non-negative int.\<close>

definition count_arg :: "json \<Rightarrow> int option result" where
  "count_arg v =
     (case v of JNull \<Rightarrow> Inr None
      | JInt n \<Rightarrow> if n < 0 then Inl ExtractionFormatError else Inr (Some n)
      | _ \<Rightarrow> Inl ExtractionFormatError)"

text \<open>\<open>bbox\<close>: four numbers, made floats; an int too large for a float raises.\<close>

fun to_float :: "json \<Rightarrow> pyfloat result" where
  "to_float (JInt n) = int_to_float n"
| "to_float (JFloat x) = Inr x"
| "to_float _ = Inl TypeError"

fun to_floats :: "json list \<Rightarrow> pyfloat list result" where
  "to_floats [] = Inr []"
| "to_floats (v # vs) =
     (case to_float v of Inl e \<Rightarrow> Inl e | Inr x \<Rightarrow> map_sum id (\<lambda>xs. x # xs) (to_floats vs))"

definition bbox_number :: "json \<Rightarrow> bool" where
  "bbox_number v = (case v of JInt n \<Rightarrow> True | JFloat x \<Rightarrow> True | _ \<Rightarrow> False)"

definition bbox_arg :: "json \<Rightarrow> pyfloat list option result" where
  "bbox_arg v =
     (case v of
        JNull \<Rightarrow> Inr None
      | JArr vs \<Rightarrow>
          if length vs = 4 \<and> list_all bbox_number vs then map_sum id Some (to_floats vs)
          else Inl ExtractionFormatError
      | _ \<Rightarrow> Inl ExtractionFormatError)"

text \<open>
  \<open>Unit.__post_init__\<close>.  Testing whether a list or dictionary is a kind raises \<open>TypeError\<close>.
  The parent is checked by the extraction.
\<close>

definition make_unit ::
  "json \<Rightarrow> json \<Rightarrow> json \<Rightarrow> json \<Rightarrow> content_anchor \<Rightarrow> json \<Rightarrow> json \<Rightarrow> json \<Rightarrow> json \<Rightarrow> json \<Rightarrow> unit_of_content result" where
  "make_unit uid kind txt order anchor page bbox level parent attributes =
     (case uid of
        JStr i \<Rightarrow>
          if i = [] then Inl ExtractionFormatError
          else (case kind of
             JStr k \<Rightarrow>
               if k \<notin> set KINDS then Inl ExtractionFormatError
               else (case (txt, order) of
                  (JStr t, JInt n) \<Rightarrow>
                    if t = [] \<or> n < 0 then Inl ExtractionFormatError
                    else (case count_arg page of Inl e \<Rightarrow> Inl e | Inr pg \<Rightarrow>
                         (case bbox_arg bbox of Inl e \<Rightarrow> Inl e | Inr bb \<Rightarrow>
                         (case count_arg level of Inl e \<Rightarrow> Inl e | Inr lv \<Rightarrow>
                         (case attributes of
                            JObj att \<Rightarrow>
                              (case canonical_json (JObj att) of
                                 Inl e \<Rightarrow> Inl ExtractionFormatError
                               | Inr _ \<Rightarrow>
                                   Inr \<lparr>un_id = i, un_kind = k, un_text = t, un_order = n, un_anchor = anchor,
                                        un_page = pg, un_bbox = bb, un_level = lv, un_parent = parent,
                                        un_attributes = att\<rparr>)
                          | _ \<Rightarrow> Inl ExtractionFormatError))))
                | _ \<Rightarrow> Inl ExtractionFormatError)
           | JArr _ \<Rightarrow> Inl TypeError
           | JObj _ \<Rightarrow> Inl TypeError
           | _ \<Rightarrow> Inl ExtractionFormatError)
      | _ \<Rightarrow> Inl ExtractionFormatError)"

definition unit_fields :: "string list" where
  "unit_fields = [''id'', ''kind'', ''text'', ''order'', ''page'', ''bbox'', ''level'', ''parent'', ''anchor'', ''attributes'']"

definition unit_obj :: "unit_of_content \<Rightarrow> (string \<times> json) list" where
  "unit_obj u =
     [(''id'', JStr (un_id u)), (''kind'', JStr (un_kind u)), (''text'', JStr (un_text u)), (''order'', JInt (un_order u)),
      (''page'', opt_int (un_page u)),
      (''bbox'', case un_bbox u of None \<Rightarrow> JNull | Some xs \<Rightarrow> JArr (map JFloat xs)),
      (''level'', opt_int (un_level u)), (''parent'', un_parent u),
      (''anchor'', anchor_to_json (un_anchor u)), (''attributes'', JObj (un_attributes u))]"

definition unit_to_json :: "unit_of_content \<Rightarrow> json" where
  "unit_to_json u = JObj (unit_obj u)"

definition unit_from_json :: "json \<Rightarrow> unit_of_content result" where
  "unit_from_json obj =
     (case obj of
        JObj kvs \<Rightarrow>
          if set (map fst kvs) \<noteq> set unit_fields then Inl ExtractionFormatError
          else (case anchor_from_json (jget kvs ''anchor'') of
             Inl e \<Rightarrow> Inl e
           | Inr a \<Rightarrow> make_unit (jget kvs ''id'') (jget kvs ''kind'') (jget kvs ''text'') (jget kvs ''order'') a
                        (jget kvs ''page'') (jget kvs ''bbox'') (jget kvs ''level'') (jget kvs ''parent'') (jget kvs ''attributes''))
      | _ \<Rightarrow> Inl ExtractionFormatError)"

section \<open>Extractions\<close>

text \<open>A parser or normalizer, by name and version.\<close>

type_synonym tool = "string \<times> string"

definition tool_json :: "tool \<Rightarrow> json" where
  "tool_json t = JObj [(''name'', JStr (fst t)), (''version'', JStr (snd t))]"

definition tool_arg :: "json \<Rightarrow> tool result" where
  "tool_arg v =
     (case v of
        JObj kvs \<Rightarrow>
          if set (map fst kvs) \<noteq> {''name'', ''version''} then Inl ExtractionFormatError
          else (case (jget kvs ''name'', jget kvs ''version'') of
                  (JStr n, JStr w) \<Rightarrow> Inr (n, w)
                | _ \<Rightarrow> Inl ExtractionFormatError)
      | _ \<Rightarrow> Inl ExtractionFormatError)"

record extraction =
  ex_record_id :: string
  ex_artifact_hash :: string
  ex_source_hash :: "string option"
  ex_parser :: tool
  ex_normalizer :: tool
  ex_units :: "unit_of_content list"

text \<open>A parent is an earlier unit.\<close>

definition parent_ok :: "unit_of_content list \<Rightarrow> unit_of_content \<Rightarrow> bool" where
  "parent_ok us u =
     (case un_parent u of
        JNull \<Rightarrow> True
      | JStr p \<Rightarrow> (case map_of (dict_of (map (\<lambda>u. (un_id u, un_order u)) us)) p of None \<Rightarrow> False | Some n \<Rightarrow> n < un_order u)
      | _ \<Rightarrow> False)"

definition units_ok :: "unit_of_content list \<Rightarrow> bool" where
  "units_ok us \<longleftrightarrow>
     distinct (map un_id us) \<and> map un_order us = map int [0..<length us] \<and> list_all (parent_ok us) us"

definition make_extraction ::
  "json \<Rightarrow> json \<Rightarrow> json \<Rightarrow> json \<Rightarrow> json \<Rightarrow> unit_of_content list \<Rightarrow> extraction result" where
  "make_extraction record_id artifact_hash source_hash parser normalizer us =
     (case (record_id, artifact_hash) of
        (JStr r, JStr h) \<Rightarrow>
          if r = [] \<or> \<not> is_digest h then Inl ExtractionFormatError
          else if source_hash \<noteq> JNull \<and> \<not> is_digest_json source_hash then Inl ExtractionFormatError
          else (case tool_arg parser of Inl e \<Rightarrow> Inl e | Inr p \<Rightarrow>
               (case tool_arg normalizer of Inl e \<Rightarrow> Inl e | Inr n \<Rightarrow>
                  if units_ok us
                  then Inr \<lparr>ex_record_id = r, ex_artifact_hash = h,
                            ex_source_hash = (case source_hash of JStr s \<Rightarrow> Some s | _ \<Rightarrow> None),
                            ex_parser = p, ex_normalizer = n, ex_units = us\<rparr>
                  else Inl ExtractionFormatError))
      | _ \<Rightarrow> Inl ExtractionFormatError)"

definition extraction_fields :: "string list" where
  "extraction_fields = [''schema'', ''schema_version'', ''record_id'', ''artifact_hash'', ''source_hash'',
     ''parser'', ''normalizer'', ''units'']"

definition extraction_obj :: "extraction \<Rightarrow> (string \<times> json) list" where
  "extraction_obj x =
     [(''schema'', JStr SCHEMA), (''schema_version'', JInt SCHEMA_VERSION),
      (''record_id'', JStr (ex_record_id x)), (''artifact_hash'', JStr (ex_artifact_hash x)),
      (''source_hash'', opt_str (ex_source_hash x)), (''parser'', tool_json (ex_parser x)),
      (''normalizer'', tool_json (ex_normalizer x)), (''units'', JArr (map unit_to_json (ex_units x)))]"

definition extraction_to_canonical :: "extraction \<Rightarrow> string result" where
  "extraction_to_canonical x = canonical_json (JObj (extraction_obj x))"

fun units_from_json :: "json list \<Rightarrow> unit_of_content list result" where
  "units_from_json [] = Inr []"
| "units_from_json (v # vs) =
     (case unit_from_json v of Inl e \<Rightarrow> Inl e | Inr u \<Rightarrow> map_sum id (\<lambda>us. u # us) (units_from_json vs))"

definition extraction_from_canonical :: "string \<Rightarrow> extraction result" where
  "extraction_from_canonical data =
     (if \<not> utf8_ok data then Inl ExtractionFormatError
      else case json_loads data of
        Some (JObj obj) \<Rightarrow>
          if set (map fst obj) \<noteq> set extraction_fields then Inl ExtractionFormatError
          else if \<not> py_eq (jget obj ''schema'') (JStr SCHEMA) \<or> \<not> py_eq (jget obj ''schema_version'') (JInt SCHEMA_VERSION)
          then Inl ExtractionFormatError
          else (case jget obj ''units'' of
             JArr vs \<Rightarrow>
               (case units_from_json vs of
                  Inl e \<Rightarrow> Inl e
                | Inr us \<Rightarrow>
                    (case make_extraction (jget obj ''record_id'') (jget obj ''artifact_hash'') (jget obj ''source_hash'')
                            (jget obj ''parser'') (jget obj ''normalizer'') us of
                       Inl e \<Rightarrow> Inl e
                     | Inr x \<Rightarrow>
                         (case extraction_to_canonical x of
                            Inl e \<Rightarrow> Inl e
                          | Inr c \<Rightarrow> if c \<noteq> data then Inl ExtractionFormatError else Inr x)))
           | _ \<Rightarrow> Inl ExtractionFormatError)
      | _ \<Rightarrow> Inl ExtractionFormatError)"

text \<open>\<open>number_units\<close>: a unit but for its id and order, which are added here.\<close>

record draft =
  dr_kind :: string
  dr_text :: string
  dr_level :: "int option"
  dr_parent :: "string option"
  dr_anchor :: content_anchor
  dr_attributes :: "(string \<times> json) list"

definition unit_id :: "nat \<Rightarrow> string" where
  "unit_id n = CHR ''u'' # pad_left 6 (show_nat n)"

fun number_from :: "nat \<Rightarrow> draft list \<Rightarrow> unit_of_content list result" where
  "number_from n [] = Inr []"
| "number_from n (d # ds) =
     (case make_unit (JStr (unit_id (Suc n))) (JStr (dr_kind d)) (JStr (dr_text d)) (JInt (int n)) (dr_anchor d)
             JNull JNull (opt_int (dr_level d)) (opt_str (dr_parent d)) (JObj (dr_attributes d)) of
        Inl e \<Rightarrow> Inl e
      | Inr u \<Rightarrow> map_sum id (\<lambda>us. u # us) (number_from (Suc n) ds))"

definition number_units :: "draft list \<Rightarrow> unit_of_content list result" where
  "number_units = number_from 0"

section \<open>One representation\<close>

definition anchor_ok :: "content_anchor \<Rightarrow> bool" where
  "anchor_ok a \<longleftrightarrow>
     an_artifact a \<noteq> [] \<and> is_digest (an_digest a) \<and>
     (case an_place a of
        Bytes s e \<Rightarrow> 0 \<le> s \<and> s \<le> e
      | Pointer p r \<Rightarrow> (p = [] \<or> starts_with ''/'' p) \<and> r \<noteq> [])"

definition count_ok :: "int option \<Rightarrow> bool" where
  "count_ok n = (case n of None \<Rightarrow> True | Some i \<Rightarrow> 0 \<le> i)"

definition unit_ok :: "unit_of_content \<Rightarrow> bool" where
  "unit_ok u \<longleftrightarrow>
     un_id u \<noteq> [] \<and> un_kind u \<in> set KINDS \<and> un_text u \<noteq> [] \<and> 0 \<le> un_order u \<and> anchor_ok (un_anchor u) \<and>
     count_ok (un_page u) \<and> count_ok (un_level u) \<and>
     (case un_bbox u of None \<Rightarrow> True | Some xs \<Rightarrow> length xs = 4)"

text \<open>The attributes as an object with sorted keys, as parsing canonical bytes gives them.\<close>

definition sorted_attributes :: "unit_of_content \<Rightarrow> (string \<times> json) list" where
  "sorted_attributes u = sort_key fst (map (\<lambda>(k, v). (k, jsort v)) (un_attributes u))"

definition extraction_ok :: "extraction \<Rightarrow> bool" where
  "extraction_ok x \<longleftrightarrow>
     ex_record_id x \<noteq> [] \<and> is_digest (ex_artifact_hash x) \<and>
     (case ex_source_hash x of None \<Rightarrow> True | Some h \<Rightarrow> is_digest h) \<and>
     units_ok (ex_units x) \<and> list_all unit_ok (ex_units x) \<and>
     list_all (\<lambda>u. sorted_attributes u = un_attributes u) (ex_units x)"

lemma make_anchor_ok: "make_anchor a d r p n = Inr x \<Longrightarrow> anchor_ok x"
  by (auto simp: make_anchor_def anchor_ok_def split: json.split_asm if_split_asm option.split_asm)

lemma anchor_from_json_ok: "anchor_from_json v = Inr a \<Longrightarrow> anchor_ok a"
  by (auto simp: anchor_from_json_def split: json.split_asm if_split_asm list.split_asm dest: make_anchor_ok)

lemma count_arg_ok: "count_arg v = Inr n \<Longrightarrow> count_ok n"
  by (auto simp: count_arg_def count_ok_def split: json.split_asm if_split_asm)

lemma length_to_floats: "to_floats vs = Inr xs \<Longrightarrow> length xs = length vs"
  by (induction vs arbitrary: xs) (auto simp: map_sum_Inr_iff split: sum.split_asm)

lemma bbox_arg_ok: "bbox_arg v = Inr b \<Longrightarrow> (case b of None \<Rightarrow> True | Some xs \<Rightarrow> length xs = 4)"
  by (auto simp: bbox_arg_def map_sum_Inr_iff dest!: length_to_floats split: json.split_asm if_split_asm)

lemma make_unit_ok: "make_unit i k t n a p b l par att = Inr u \<Longrightarrow> anchor_ok a \<Longrightarrow> unit_ok u"
  unfolding make_unit_def
  by (auto simp: unit_ok_def count_arg_ok bbox_arg_ok split: json.split_asm if_split_asm sum.split_asm)

lemma unit_from_json_ok: "unit_from_json v = Inr u \<Longrightarrow> unit_ok u"
  by (auto simp: unit_from_json_def split: json.split_asm if_split_asm sum.split_asm
      dest: make_unit_ok anchor_from_json_ok)

lemma units_from_json_ok: "units_from_json vs = Inr us \<Longrightarrow> list_all unit_ok us"
  by (induction vs arbitrary: us) (auto simp: map_sum_Inr_iff split: sum.split_asm dest: unit_from_json_ok)

lemma make_extractionD:
  "make_extraction r h s p n us = Inr x \<Longrightarrow>
   ex_record_id x \<noteq> [] \<and> is_digest (ex_artifact_hash x) \<and>
   (case ex_source_hash x of None \<Rightarrow> True | Some h \<Rightarrow> is_digest h) \<and> units_ok us \<and> ex_units x = us"
  unfolding make_extraction_def
  by (auto simp: is_digest_json_def split: json.split_asm if_split_asm sum.split_asm)

lemma to_floats_map: "to_floats (map JFloat xs) = Inr xs"
  by (induction xs) auto

lemma jsort_scalars [simp]:
  "jsort (opt_int n) = opt_int n" "jsort (opt_str t) = opt_str t"
  by (auto simp: opt_int_def opt_str_def split: option.split)

lemma jsort_obj: "jsort (JObj kvs) = JObj (sort_key fst (map (\<lambda>(k, v). (k, jsort v)) kvs))"
  by simp

lemma keys_sorted: "fst ` set (sort_key fst (map (\<lambda>(k, v). (k, jsort v)) kvs)) = fst ` set kvs"
  by (auto simp: image_image split_beta)

lemma anchor_roundtrip:
  assumes "anchor_ok a"
  shows "anchor_from_json (jsort (anchor_to_json a)) = Inr a"
proof (cases "an_place a")
  case (Bytes s e)
  have "distinct (map fst [(''artifact'', JStr (an_artifact a)), (''digest'', JStr (an_digest a)), (''range'', JArr [JInt s, JInt e])])"
    by simp
  from jget_sorted [OF this] show ?thesis
    using assms Bytes unfolding anchor_to_json_def anchor_from_json_def jsort_obj json.case set_map keys_sorted
    by (auto simp: make_anchor_def anchor_ok_def)
next
  case (Pointer p r)
  have "distinct (map fst [(''artifact'', JStr (an_artifact a)), (''digest'', JStr (an_digest a)), (''pointer'', JStr p), (''render'', JStr r)])"
    by simp
  from jget_sorted [OF this] show ?thesis
    using assms Pointer unfolding anchor_to_json_def anchor_from_json_def jsort_obj json.case set_map keys_sorted
    by (auto simp: make_anchor_def anchor_ok_def)
qed

lemma tool_roundtrip: "tool_arg (jsort (tool_json t)) = Inr t"
proof -
  have "distinct (map fst [(''name'', JStr (fst t)), (''version'', JStr (snd t))])" by simp
  from jget_sorted [OF this] show ?thesis
    unfolding tool_json_def tool_arg_def jsort_obj json.case set_map keys_sorted by auto
qed

lemma count_roundtrip: "count_ok n \<Longrightarrow> count_arg (opt_int n) = Inr n"
  by (auto simp: count_ok_def count_arg_def opt_int_def split: option.split)

lemma unit_roundtrip:
  assumes "unit_ok u" "un_parent u = opt_str p" "json_ok (unit_to_json u)"
  shows "unit_from_json (jsort (unit_to_json u)) = Inr (u\<lparr>un_attributes := sorted_attributes u\<rparr>)"
proof -
  have d: "distinct (map fst (unit_obj u))" by (simp add: unit_obj_def)
  have keys: "fst ` set (unit_obj u) = set unit_fields" by (auto simp: unit_obj_def unit_fields_def)
  have get: "jget (unit_obj u) ''id'' = JStr (un_id u)" "jget (unit_obj u) ''kind'' = JStr (un_kind u)"
    "jget (unit_obj u) ''text'' = JStr (un_text u)" "jget (unit_obj u) ''order'' = JInt (un_order u)"
    "jget (unit_obj u) ''page'' = opt_int (un_page u)" "jget (unit_obj u) ''level'' = opt_int (un_level u)"
    "jget (unit_obj u) ''bbox'' = (case un_bbox u of None \<Rightarrow> JNull | Some xs \<Rightarrow> JArr (map JFloat xs))"
    "jget (unit_obj u) ''parent'' = opt_str p" "jget (unit_obj u) ''anchor'' = anchor_to_json (un_anchor u)"
    "jget (unit_obj u) ''attributes'' = JObj (un_attributes u)"
    by (simp_all add: unit_obj_def assms(2))
  have bbox: "bbox_arg (jsort (case un_bbox u of None \<Rightarrow> JNull | Some xs \<Rightarrow> JArr (map JFloat xs))) = Inr (un_bbox u)"
    using assms(1) by (auto simp: unit_ok_def bbox_arg_def to_floats_map comp_def bbox_number_def list_all_iff split: option.split)
  have "json_ok (JObj (un_attributes u))" using assms(3) by (simp add: unit_to_json_def unit_obj_def)
  then have "canonical_json (jsort (JObj (un_attributes u))) = Inr (cjson (jsort (JObj (un_attributes u))))"
    by (intro canonical_json_ok json_ok_jsort)
  then have att: "canonical_json (JObj (sorted_attributes u)) = Inr (cjson (JObj (sorted_attributes u)))"
    by (simp add: sorted_attributes_def)
  have "jsort (JObj (un_attributes u)) = JObj (sorted_attributes u)" by (simp add: sorted_attributes_def)
  then show ?thesis
    unfolding unit_to_json_def unit_from_json_def jsort_obj json.case set_map keys_sorted keys jget_sorted [OF d] get
    using assms(1,2) att
    by (simp add: anchor_roundtrip make_unit_def count_roundtrip bbox unit_ok_def)
qed

lemma units_roundtrip:
  assumes "list_all unit_ok us" "list_all (\<lambda>u. \<exists>p. un_parent u = opt_str p) us" "list_all json_ok (map unit_to_json us)"
  shows "units_from_json (map jsort (map unit_to_json us)) = Inr (map (\<lambda>u. u\<lparr>un_attributes := sorted_attributes u\<rparr>) us)"
  using assms by (induction us) (auto simp: unit_roundtrip)

lemma parent_ok_str: "parent_ok us u \<Longrightarrow> \<exists>p. un_parent u = opt_str p"
  by (auto simp: parent_ok_def opt_str_def split: json.split_asm intro: exI [of _ None] exI [of _ "Some p" for p])

lemma extraction_loads:
  assumes "json_ok (JObj (extraction_obj x))"
  shows "\<exists>obj. json_loads (cjson (JObj (extraction_obj x))) = Some (JObj obj) \<and>
    set (map fst obj) = set extraction_fields \<and> (\<forall>k. jget obj k = jsort (jget (extraction_obj x) k))"
proof -
  have d: "distinct (map fst (extraction_obj x))" by (simp add: extraction_obj_def)
  have "fst ` set (extraction_obj x) = set extraction_fields" by (auto simp: extraction_obj_def extraction_fields_def)
  then show ?thesis
    using cjson_roundtrip [OF assms] jget_sorted [OF d] keys_sorted [of "extraction_obj x"] by (simp add: jsort_obj del: set_sort)
qed

lemma extraction_get:
  "jget (extraction_obj x) ''schema'' = JStr SCHEMA" "jget (extraction_obj x) ''schema_version'' = JInt SCHEMA_VERSION"
  "jget (extraction_obj x) ''record_id'' = JStr (ex_record_id x)" "jget (extraction_obj x) ''artifact_hash'' = JStr (ex_artifact_hash x)"
  "jget (extraction_obj x) ''source_hash'' = opt_str (ex_source_hash x)"
  "jget (extraction_obj x) ''parser'' = tool_json (ex_parser x)" "jget (extraction_obj x) ''normalizer'' = tool_json (ex_normalizer x)"
  "jget (extraction_obj x) ''units'' = JArr (map unit_to_json (ex_units x))"
  by (simp_all add: extraction_obj_def)

text \<open>The parsed units are the printed ones, their attributes sorted.\<close>

lemma parsed_units:
  assumes "json_ok (JObj (extraction_obj x))" "list_all unit_ok (ex_units x)" "units_ok (ex_units x)"
  shows "units_from_json (map jsort (map unit_to_json (ex_units x))) =
    Inr (map (\<lambda>u. u\<lparr>un_attributes := sorted_attributes u\<rparr>) (ex_units x))"
proof (rule units_roundtrip [OF assms(2)])
  show "list_all (\<lambda>u. \<exists>p. un_parent u = opt_str p) (ex_units x)"
    using assms(3) parent_ok_str unfolding units_ok_def list_all_iff by blast
  show "list_all json_ok (map unit_to_json (ex_units x))"
    using assms(1) by (simp add: extraction_obj_def)
qed

lemma map_fixed: "us = map f us \<Longrightarrow> u \<in> set us \<Longrightarrow> f u = u"
  by (induction us) auto

lemma extraction_from_canonicalD:
  assumes "extraction_from_canonical data = Inr x"
  shows "\<exists>obj vs. json_loads data = Some (JObj obj) \<and> jget obj ''units'' = JArr vs \<and> units_from_json vs = Inr (ex_units x) \<and>
    extraction_to_canonical x = Inr data \<and> ex_record_id x \<noteq> [] \<and> is_digest (ex_artifact_hash x) \<and>
    (case ex_source_hash x of None \<Rightarrow> True | Some h \<Rightarrow> is_digest h) \<and> units_ok (ex_units x)"
  using assms unfolding extraction_from_canonical_def
  by (fastforce dest: make_extractionD split: option.split_asm json.split_asm sum.split_asm if_split_asm)

text \<open>
  C36.  One extraction, one byte string.  Parsing is strict: bytes parse to an extraction exactly when
  the extraction is well formed - digests, known kinds, ordered units with distinct ids and
  earlier parents, anchors that are a range or a pointer - and the bytes are its canonical
  serialization.  A version of \<open>true\<close> or \<open>1.0\<close>, unknown fields, other spacing or key order
  are all refused.  (Floats are ones that print and read back, as Python's do, and attributes
  are compared with sorted keys.)
\<close>

theorem extraction_parse_exact:
  assumes "json_ok (JObj (extraction_obj x))"
  shows "extraction_from_canonical data = Inr x \<longleftrightarrow> extraction_ok x \<and> data = cjson (JObj (extraction_obj x))"
proof
  assume parse: "extraction_from_canonical data = Inr x"
  then obtain obj vs where p: "json_loads data = Some (JObj obj)" "jget obj ''units'' = JArr vs" "units_from_json vs = Inr (ex_units x)"
      "extraction_to_canonical x = Inr data" and ok: "ex_record_id x \<noteq> []" "is_digest (ex_artifact_hash x)"
      "case ex_source_hash x of None \<Rightarrow> True | Some h \<Rightarrow> is_digest h" "units_ok (ex_units x)"
    using extraction_from_canonicalD by blast
  have units: "list_all unit_ok (ex_units x)" by (rule units_from_json_ok [OF p(3)])
  have data: "data = cjson (JObj (extraction_obj x))"
    using p(4) canonical_json_ok [OF assms] by (simp add: extraction_to_canonical_def)
  have "vs = map jsort (map unit_to_json (ex_units x))"
    using extraction_loads [OF assms] p(1,2) by (auto simp: data extraction_get)
  then have "ex_units x = map (\<lambda>u. u\<lparr>un_attributes := sorted_attributes u\<rparr>) (ex_units x)"
    using p(3) parsed_units [OF assms units ok(4)] by simp
  then have "u\<lparr>un_attributes := sorted_attributes u\<rparr> = u" if "u \<in> set (ex_units x)" for u
    using that by (rule map_fixed)
  then have "sorted_attributes u = un_attributes u" if "u \<in> set (ex_units x)" for u
    using that by (cases u) (metis unit_of_content.select_convs(10) unit_of_content.update_convs(10))
  then have "list_all (\<lambda>u. sorted_attributes u = un_attributes u) (ex_units x)" by (simp add: list_all_iff)
  then show "extraction_ok x \<and> data = cjson (JObj (extraction_obj x))"
    using ok units data by (simp add: extraction_ok_def)
next
  assume x: "extraction_ok x \<and> data = cjson (JObj (extraction_obj x))"
  then have ok: "extraction_ok x" and data: "data = cjson (JObj (extraction_obj x))" by auto
  obtain obj where obj: "json_loads data = Some (JObj obj)" "set (map fst obj) = set extraction_fields"
      "\<And>k. jget obj k = jsort (jget (extraction_obj x) k)"
    using extraction_loads [OF assms] data by blast
  have "map (\<lambda>u. u\<lparr>un_attributes := sorted_attributes u\<rparr>) (ex_units x) = ex_units x"
    using ok by (intro map_idI) (auto simp: extraction_ok_def list_all_iff)
  then have units: "units_from_json (map jsort (map unit_to_json (ex_units x))) = Inr (ex_units x)"
    using parsed_units [OF assms] ok by (simp add: extraction_ok_def)
  have "make_extraction (JStr (ex_record_id x)) (JStr (ex_artifact_hash x)) (opt_str (ex_source_hash x))
      (jsort (tool_json (ex_parser x))) (jsort (tool_json (ex_normalizer x))) (ex_units x) = Inr x"
    using ok by (auto simp: make_extraction_def extraction_ok_def tool_roundtrip opt_str_def is_digest_json_def split: option.split)
  then show "extraction_from_canonical data = Inr x"
    unfolding extraction_from_canonical_def obj(1) option.case json.case obj(3) extraction_get
    using obj(2) units utf8_cjson [OF assms] canonical_json_ok [OF assms] data
    by (simp add: extraction_to_canonical_def py_eq_def)
qed

definition demo_unit :: unit_of_content where
  "demo_unit = \<lparr>un_id = ''u000001'', un_kind = ''paragraph'', un_text = ''Hi'', un_order = 0,
     un_anchor = \<lparr>an_artifact = ''document.md'', an_digest = sha256 ''Hi'', an_place = Bytes 0 2\<rparr>,
     un_page = None, un_bbox = None, un_level = None, un_parent = JNull, un_attributes = []\<rparr>"

definition demo_extraction :: extraction where
  "demo_extraction = \<lparr>ex_record_id = ''r'', ex_artifact_hash = sha256 ''t'', ex_source_hash = None,
     ex_parser = (''marker'', ''1''), ex_normalizer = (''markdown'', ''1''), ex_units = [demo_unit]\<rparr>"

lemma demo_extraction_ok: "json_ok (JObj (extraction_obj demo_extraction))" "extraction_ok demo_extraction"
proof -
  show "json_ok (JObj (extraction_obj demo_extraction))"
    by (simp add: demo_extraction_def demo_unit_def extraction_obj_def unit_to_json_def unit_obj_def anchor_to_json_def
        tool_json_def opt_int_def SCHEMA_def is_digest_utf8)
  have "[0..<Suc 0] = [0]" by simp
  then show "extraction_ok demo_extraction"
    by (simp add: demo_extraction_def demo_unit_def extraction_ok_def units_ok_def parent_ok_def unit_ok_def KINDS_def
        anchor_ok_def count_ok_def sorted_attributes_def)
qed

theorem extraction_parse_exact_witness:
  "extraction_from_canonical (cjson (JObj (extraction_obj demo_extraction))) = Inr demo_extraction"
  using extraction_parse_exact [OF demo_extraction_ok(1), of "cjson (JObj (extraction_obj demo_extraction))"] demo_extraction_ok(2)
  by simp

end
