(* ===== verification/Markdown.thy ===== *)
theory Markdown
  imports Contract
begin

text \<open>
  Markdown as the normalizer splits it (\<open>stele/extraction/normalizers.py\<close>): the lines of a document,
  the patterns that recognize them, and its blocks as byte ranges.  The main result: the blocks are
  disjoint and in order, and hold every byte of the document that is not white space.
\<close>

section \<open>Lines and patterns\<close>

definition CR :: char where "CR = CHR 0x0D"
definition LF :: char where "LF = CHR 0x0A"

definition line_char :: "char \<Rightarrow> bool" where
  "line_char c \<longleftrightarrow> c \<noteq> CR \<and> c \<noteq> LF"

text \<open>\<open>bytes.splitlines(keepends=True)\<close>: each line and its ending.\<close>

function byte_lines :: "string \<Rightarrow> (string \<times> string) list" where
  "byte_lines s =
     (if s = [] then []
      else let body = takeWhile line_char s in
        (case dropWhile line_char s of
           [] \<Rightarrow> [(body, [])]
         | a # rest \<Rightarrow>
             (case rest of
                b # later \<Rightarrow> if a = CR \<and> b = LF then (body, [CR, LF]) # byte_lines later else (body, [a]) # byte_lines rest
              | [] \<Rightarrow> [(body, [a])])))"
  by pat_completeness auto
termination
proof (relation "measure length")
  fix s body a rest b and later :: string
  assume "dropWhile line_char s = a # rest"
  then have "length rest < length s" by (metis length_Cons length_dropWhile_le less_eq_Suc_le)
  then show "(rest, s) \<in> measure length" by simp
  assume "rest = b # later"
  with \<open>length rest < length s\<close> show "(later, s) \<in> measure length" by simp
qed simp

declare byte_lines.simps [simp del]

text \<open>\<open>bytes.strip()\<close> removes these.\<close>

definition solid :: "char \<Rightarrow> bool" where
  "solid c \<longleftrightarrow> c \<notin> {CHR '' '', CHR 0x09, LF, CHR 0x0B, CHR 0x0C, CR}"

definition blank :: "string \<Rightarrow> bool" where
  "blank s \<longleftrightarrow> \<not> list_ex solid s"

definition strip_bytes :: "string \<Rightarrow> string" where
  "strip_bytes s = rev (dropWhile (\<lambda>c. \<not> solid c) (rev (dropWhile (\<lambda>c. \<not> solid c) s)))"

definition space_or_tab :: "char \<Rightarrow> bool" where
  "space_or_tab c \<longleftrightarrow> c = CHR '' '' \<or> c = CHR 0x09"

text \<open>After at most three spaces.\<close>

definition unindent :: "string \<Rightarrow> string option" where
  "unindent s = (if length (takeWhile (\<lambda>c. c = CHR '' '') s) \<le> 3 then Some (dropWhile (\<lambda>c. c = CHR '' '') s) else None)"

definition run_of :: "char \<Rightarrow> string \<Rightarrow> string" where
  "run_of c s = takeWhile (\<lambda>d. d = c) s"

text \<open>\<open>_FENCE\<close>: the run of backquotes or tildes and what follows it.\<close>

definition fence_match :: "string \<Rightarrow> (string \<times> string) option" where
  "fence_match body =
     (case unindent body of
        None \<Rightarrow> None
      | Some s \<Rightarrow>
          let q = run_of (CHR 0x60) s; t = run_of (CHR ''~'') s in
          if 3 \<le> length q then Some (q, drop (length q) s)
          else if 3 \<le> length t then Some (t, drop (length t) s)
          else None)"

text \<open>\<open>_ATX\<close>: the number of hashes.\<close>

definition atx_match :: "string \<Rightarrow> nat option" where
  "atx_match line =
     (case unindent line of
        None \<Rightarrow> None
      | Some s \<Rightarrow>
          let n = length (run_of (CHR ''#'') s) in
          if 1 \<le> n \<and> n \<le> 6 \<and> (case drop n s of [] \<Rightarrow> True | c # _ \<Rightarrow> space_or_tab c) then Some n else None)"

text \<open>\<open>_SETEXT\<close>: the underline's character.\<close>

definition setext_match :: "string \<Rightarrow> char option" where
  "setext_match line =
     (case unindent line of
        Some (c # s) \<Rightarrow>
          if (c = CHR ''='' \<or> c = CHR ''-'') \<and> list_all space_or_tab (dropWhile (\<lambda>d. d = c) s) then Some c else None
      | _ \<Rightarrow> None)"

text \<open>\<open>_LIST\<close>.\<close>

definition list_match :: "string \<Rightarrow> bool" where
  "list_match line =
     (case dropWhile space_or_tab line of
        [] \<Rightarrow> False
      | c # s \<Rightarrow>
          if c \<in> {CHR ''-'', CHR ''*'', CHR ''+''}
          then (case s of [] \<Rightarrow> False | d # _ \<Rightarrow> space_or_tab d)
          else (let digits = takeWhile is_dec (c # s) in
            1 \<le> length digits \<and> length digits \<le> 9 \<and>
            (case drop (length digits) (c # s) of
               p # d # _ \<Rightarrow> (p = CHR ''.'' \<or> p = CHR '')'') \<and> space_or_tab d
             | _ \<Rightarrow> False)))"

definition word_char :: "char \<Rightarrow> bool" where
  "word_char c \<longleftrightarrow> is_dec c \<or> (CHR ''A'' \<le> c \<and> c \<le> CHR ''Z'') \<or> (CHR ''a'' \<le> c \<and> c \<le> CHR ''z'') \<or> c = CHR ''_''"

definition ascii_lower :: "char \<Rightarrow> char" where
  "ascii_lower c = (if CHR ''A'' \<le> c \<and> c \<le> CHR ''Z'' then char_of (of_char c + 32 :: nat) else c)"

text \<open>\<open>_TABLE\<close>, in either case, up to a word boundary.\<close>

definition table_match :: "string \<Rightarrow> bool" where
  "table_match line =
     (let s = dropWhile space_or_tab line in
      starts_with ''|'' s \<or>
      (map ascii_lower (take 6 s) = ''<table'' \<and> (case drop 6 s of [] \<Rightarrow> True | c # _ \<Rightarrow> \<not> word_char c)))"

section \<open>Blocks\<close>

definition slice :: "nat \<Rightarrow> nat \<Rightarrow> 'a list \<Rightarrow> 'a list" where
  "slice s e xs = take (e - s) (drop s xs)"

record scan =
  sc_blocks :: "(nat \<times> nat) list"
  sc_start :: "nat option"
  sc_end :: nat
  sc_lines :: nat
  sc_fence :: "string option"
  sc_pos :: nat

definition scan_start :: scan where
  "scan_start = \<lparr>sc_blocks = [], sc_start = None, sc_end = 0, sc_lines = 0, sc_fence = None, sc_pos = 0\<rparr>"

text \<open>\<open>close()\<close>.\<close>

definition close_block :: "scan \<Rightarrow> scan" where
  "close_block st =
     st\<lparr>sc_blocks := (case sc_start st of None \<Rightarrow> sc_blocks st | Some s \<Rightarrow> sc_blocks st @ [(s, sc_end st)]),
        sc_start := None, sc_lines := 0\<rparr>"

definition first_line :: "string \<Rightarrow> string" where
  "first_line s = (case byte_lines s of [] \<Rightarrow> [] | (body, ending) # _ \<Rightarrow> body)"

text \<open>One line of the loop, without the final \<open>pos += len(line)\<close>.\<close>

definition scan_body :: "string \<Rightarrow> string \<Rightarrow> scan \<Rightarrow> scan" where
  "scan_body data body st =
     (let line_stop = sc_pos st + length body in
      case sc_fence st of
        Some fence \<Rightarrow>
          let st' = st\<lparr>sc_end := line_stop\<rparr> in
          (case fence_match body of
             Some (g, rest) \<Rightarrow>
               if take 1 g = take 1 fence \<and> length fence \<le> length g \<and> blank rest
               then close_block (st'\<lparr>sc_fence := None\<rparr>) else st'
           | None \<Rightarrow> st')
      | None \<Rightarrow>
          if blank body then close_block st
          else (case fence_match body of
             Some (g, rest) \<Rightarrow>
               (close_block st)\<lparr>sc_start := Some (sc_pos st), sc_end := line_stop, sc_fence := Some g\<rparr>
           | None \<Rightarrow>
               if atx_match body \<noteq> None
               then close_block ((close_block st)\<lparr>sc_start := Some (sc_pos st), sc_end := line_stop\<rparr>)
               else (let start = (case sc_start st of None \<Rightarrow> sc_pos st | Some s \<Rightarrow> s);
                         st' = st\<lparr>sc_start := Some start, sc_end := line_stop, sc_lines := Suc (sc_lines st)\<rparr>
                     in if sc_lines st' = 2 \<and> setext_match body \<noteq> None \<and> \<not> list_match (first_line (slice start line_stop data))
                        then close_block st' else st')))"

definition scan_line :: "string \<Rightarrow> string \<times> string \<Rightarrow> scan \<Rightarrow> scan" where
  "scan_line data l st =
     (let st' = scan_body data (fst l) st in st'\<lparr>sc_pos := sc_pos st + length (fst l) + length (snd l)\<rparr>)"

definition markdown_blocks :: "string \<Rightarrow> (nat \<times> nat) list" where
  "markdown_blocks data = sc_blocks (close_block (fold (scan_line data) (byte_lines data) scan_start))"

text \<open>The kind of a block, and its level if it is a heading.\<close>

definition markdown_kind :: "string \<Rightarrow> string \<times> nat option" where
  "markdown_kind block =
     (let lines = map fst (byte_lines block); first = hd lines; stripped = strip_bytes block in
      case atx_match first of
        Some n \<Rightarrow> (''heading'', Some n)
      | None \<Rightarrow>
          (case (if length lines = 2 \<and> \<not> list_match first then setext_match (lines ! 1) else None) of
             Some c \<Rightarrow> (''heading'', Some (if c = CHR ''='' then 1 else 2))
           | None \<Rightarrow>
               if fence_match first \<noteq> None then (''code'', None)
               else if table_match first then (''table'', None)
               else if list_match first then (''list'', None)
               else if starts_with ''$$'' stripped then (''formula'', None)
               else if starts_with ''!['' stripped \<and> LF \<notin> set stripped then (''figure'', None)
               else (''paragraph'', None)))"

section \<open>Every byte that is not white space is in exactly one block\<close>

lemma byte_lines_whole: "concat (map (\<lambda>(body, ending). body @ ending) (byte_lines s)) = s"
proof (induction s rule: byte_lines.induct)
  case (1 s)
  have split: "takeWhile line_char s @ dropWhile line_char s = s" by simp
  show ?case
  proof (cases "dropWhile line_char s")
    case Nil
    with split have "takeWhile line_char s = s" by simp
    then show ?thesis by (subst byte_lines.simps) (simp add: Let_def Nil)
  next
    case (Cons a rest)
    then have ne: "s \<noteq> []" by auto
    show ?thesis using 1 Cons ne split by (subst byte_lines.simps) (auto simp: Let_def split: list.split)
  qed
qed

lemma byte_lines_endings: "list_all (\<lambda>(body, ending). blank ending) (byte_lines s)"
proof (induction s rule: byte_lines.induct)
  case (1 s)
  have "blank [a]" if "dropWhile line_char s = a # rest" for a rest
    using hd_dropWhile [of line_char s] that by (auto simp: line_char_def blank_def solid_def)
  moreover have "blank [CR, LF]" "blank []" by (simp_all add: blank_def solid_def)
  ultimately show ?case using 1 by (subst byte_lines.simps) (auto simp: Let_def split: list.split)
qed

lemma filter_blank: "filter solid s = [] \<longleftrightarrow> blank s"
  by (auto simp: blank_def list_ex_iff filter_empty_conv)

lemma slice_split: "s \<le> p \<Longrightarrow> p \<le> q \<Longrightarrow> slice s q xs = slice s p xs @ slice p q xs"
proof -
  assume "s \<le> p" "p \<le> q"
  then have "take (q - s) (drop s xs) = take (p - s) (drop s xs) @ take (q - p) (drop (p - s) (drop s xs))"
    by (metis add_diff_cancel_left' le_add_diff_inverse le_add_diff_inverse2 diff_add_assoc2 take_add)
  then show ?thesis using \<open>s \<le> p\<close> by (simp add: slice_def)
qed

lemma slice_0: "slice 0 p xs = take p xs"
  by (simp add: slice_def)

lemma take_slice: "p \<le> q \<Longrightarrow> take q xs = take p xs @ slice p q xs"
  using slice_split [of 0 p q xs] by (simp add: slice_0)

text \<open>Ranges in order, none empty.\<close>

fun ordered_from :: "nat \<Rightarrow> (nat \<times> nat) list \<Rightarrow> bool" where
  "ordered_from p [] = True"
| "ordered_from p ((s, e) # bs) = (p \<le> s \<and> s < e \<and> ordered_from e bs)"

definition last_end :: "(nat \<times> nat) list \<Rightarrow> nat" where
  "last_end bs = (if bs = [] then 0 else snd (last bs))"

lemma ordered_snoc: "ordered_from p (bs @ [(s, e)]) \<longleftrightarrow> ordered_from p bs \<and> (if bs = [] then p else snd (last bs)) \<le> s \<and> s < e"
  by (induction p bs rule: ordered_from.induct) auto

definition block_content :: "string \<Rightarrow> (nat \<times> nat) list \<Rightarrow> string" where
  "block_content data bs = concat (map (\<lambda>(s, e). filter solid (slice s e data)) bs)"

text \<open>The scan after the first \<open>p\<close> bytes.\<close>

definition scanned :: "string \<Rightarrow> nat \<Rightarrow> scan \<Rightarrow> bool" where
  "scanned data p st \<longleftrightarrow>
     p \<le> length data \<and> ordered_from 0 (sc_blocks st) \<and> last_end (sc_blocks st) \<le> p \<and>
     (case sc_start st of
        None \<Rightarrow> filter solid (take p data) = block_content data (sc_blocks st)
      | Some s \<Rightarrow>
          last_end (sc_blocks st) \<le> s \<and> s < sc_end st \<and> sc_end st \<le> p \<and>
          filter solid (take s data) = block_content data (sc_blocks st) \<and> blank (slice (sc_end st) p data))"

lemma scanned_close: "scanned data p st \<Longrightarrow> scanned data p (close_block st)"
proof (cases "sc_start st")
  case (Some s)
  assume sc: "scanned data p st"
  then have s: "s < sc_end st" "sc_end st \<le> p" by (simp_all add: scanned_def Some)
  have "filter solid (take p data) = filter solid (take s data) @ filter solid (slice s (sc_end st) data)"
    using sc s filter_blank by (simp add: scanned_def Some take_slice [of s p] slice_split [of s "sc_end st" p])
  then show ?thesis using sc Some
    by (auto simp: scanned_def close_block_def ordered_snoc last_end_def block_content_def)
qed (simp add: scanned_def close_block_def)

lemma scanned_blank: "scanned data p st \<Longrightarrow> p \<le> q \<Longrightarrow> q \<le> length data \<Longrightarrow> blank (slice p q data) \<Longrightarrow> scanned data q st"
  by (auto simp: scanned_def take_slice [of p q] slice_split [of "sc_end st" p q] filter_blank simp flip: filter_blank split: option.splits)

lemma scanned_begin:
  "scanned data p st \<Longrightarrow> sc_start st = None \<Longrightarrow> p < q \<Longrightarrow> q \<le> length data \<Longrightarrow>
   sc_blocks st' = sc_blocks st \<Longrightarrow> sc_start st' = Some p \<Longrightarrow> sc_end st' = q \<Longrightarrow> scanned data q st'"
  by (simp add: scanned_def slice_def blank_def)

lemma scanned_grow:
  "scanned data p st \<Longrightarrow> sc_start st = Some s \<Longrightarrow> p \<le> q \<Longrightarrow> q \<le> length data \<Longrightarrow>
   sc_blocks st' = sc_blocks st \<Longrightarrow> sc_start st' = Some s \<Longrightarrow> sc_end st' = q \<Longrightarrow> scanned data q st'"
  by (simp add: scanned_def slice_def blank_def)

lemma close_simps [simp]: "sc_start (close_block st) = None" "sc_fence (close_block st) = sc_fence st" "sc_pos (close_block st) = sc_pos st"
  by (simp_all add: close_block_def)

lemma scanned_update [simp]:
  "scanned data p (st\<lparr>sc_fence := f\<rparr>) = scanned data p st" "scanned data p (st\<lparr>sc_pos := n\<rparr>) = scanned data p st"
  by (cases "sc_start st"; simp add: scanned_def)+

text \<open>An open fence has an open block.\<close>

definition fence_open :: "scan \<Rightarrow> bool" where
  "fence_open st \<longleftrightarrow> (sc_fence st \<noteq> None \<longrightarrow> sc_start st \<noteq> None)"

lemma scan_body_scanned:
  assumes st: "scanned data p st" "fence_open st" "sc_pos st = p"
    and body: "slice p (p + length body) data = body" "p + length body \<le> length data"
  shows "scanned data (p + length body) (scan_body data body st) \<and> fence_open (scan_body data body st)"
proof -
  let ?q = "p + length body"
  show ?thesis
  proof (cases "sc_fence st")
    case (Some fence)
    then obtain s where s: "sc_start st = Some s" using st(2) by (auto simp: fence_open_def)
    have grown: "scanned data ?q (st\<lparr>sc_end := ?q\<rparr>)"
      by (rule scanned_grow [OF st(1) s _ body(2)]) (simp_all add: s)
    have "scanned data ?q (close_block (st\<lparr>sc_end := ?q, sc_fence := None\<rparr>))"
      using scanned_close [of data ?q "st\<lparr>sc_end := ?q, sc_fence := None\<rparr>"] grown by simp
    then show ?thesis using grown Some s st(3)
      by (auto simp: scan_body_def Let_def fence_open_def split: option.split)
  next
    case None
    have closed: "scanned data p (close_block st)" by (rule scanned_close [OF st(1)])
    show ?thesis
    proof (cases "blank body")
      case True
      have "scanned data ?q (close_block st)" by (rule scanned_blank [OF closed _ body(2)]) (simp_all add: body(1) True)
      then show ?thesis using None True by (simp add: scan_body_def Let_def fence_open_def)
    next
      case nb: False
      then have lt: "p < ?q" by (cases body) (simp_all add: blank_def)
      have begun: "scanned data ?q ((close_block st)\<lparr>sc_start := Some p, sc_end := ?q\<rparr>)"
        by (rule scanned_begin [OF closed _ lt body(2)]) simp_all
      have ends: "scanned data ?q (close_block ((close_block st)\<lparr>sc_start := Some p, sc_end := ?q\<rparr>))"
        by (rule scanned_close [OF begun])
      define start where "start = (case sc_start st of None \<Rightarrow> p | Some s \<Rightarrow> s)"
      define st' where "st' = st\<lparr>sc_start := Some start, sc_end := ?q, sc_lines := Suc (sc_lines st)\<rparr>"
      have para: "scanned data ?q st'"
      proof (cases "sc_start st")
        case n: None
        show ?thesis by (rule scanned_begin [OF st(1) n lt body(2)]) (simp_all add: st'_def start_def n)
      next
        case (Some s)
        show ?thesis by (rule scanned_grow [OF st(1) Some _ body(2)]) (simp_all add: st'_def start_def Some)
      qed
      have "scan_body data body st = close_block st' \<or> scan_body data body st = st' \<or>
          scan_body data body st = close_block ((close_block st)\<lparr>sc_start := Some p, sc_end := ?q\<rparr>) \<or>
          (\<exists>g. scan_body data body st = (close_block st)\<lparr>sc_start := Some p, sc_end := ?q, sc_fence := Some g\<rparr>)"
        using None nb by (auto simp: scan_body_def Let_def st(3) st'_def start_def split: option.split)
      moreover have "sc_fence st' = None" by (simp add: st'_def None)
      ultimately show ?thesis using para scanned_close [OF para] begun ends None
        by (auto simp: fence_open_def st'_def)
    qed
  qed
qed

lemma scan_lines_scanned:
  "scanned data p st \<Longrightarrow> fence_open st \<Longrightarrow> sc_pos st = p \<Longrightarrow> drop p data = concat (map (\<lambda>(b, e). b @ e) ls) \<Longrightarrow>
   list_all (\<lambda>(b, e). blank e) ls \<Longrightarrow> scanned data (length data) (fold (scan_line data) ls st)"
proof (induction ls arbitrary: p st)
  case Nil
  then have "p = length data" by (auto simp: scanned_def)
  then show ?case using Nil by simp
next
  case (Cons l ls)
  obtain body ending where l: "l = (body, ending)" by (cases l)
  let ?q = "p + length body" and ?r = "p + length body + length ending"
  have d: "drop p data = body @ ending @ concat (map (\<lambda>(b, e). b @ e) ls)" using Cons.prems(4) by (simp add: l)
  have "length data - p = length (body @ ending @ concat (map (\<lambda>(b, e). b @ e) ls))" using arg_cong [OF d, of length] by simp
  moreover have "p \<le> length data" using Cons.prems(1) by (simp add: scanned_def)
  ultimately have r: "?r \<le> length data" by simp
  have d1: "drop ?q data = ending @ concat (map (\<lambda>(b, e). b @ e) ls)"
    using arg_cong [OF d, of "drop (length body)"] by (simp add: add.commute)
  have rest: "drop ?r data = concat (map (\<lambda>(b, e). b @ e) ls)"
    using arg_cong [OF d1, of "drop (length ending)"] by (simp add: add.commute add.left_commute)
  have body: "slice p ?q data = body" and ending: "slice ?q ?r data = ending"
    using d d1 by (simp_all add: slice_def)
  have s: "scanned data ?q (scan_body data body st)" "fence_open (scan_body data body st)"
    using scan_body_scanned [OF Cons.prems(1-3) body] r by simp_all
  have "scanned data ?r (scan_body data body st)"
    by (rule scanned_blank [OF s(1) _ r]) (use Cons.prems(5) ending l in auto)
  moreover have "sc_pos (scan_line data l st) = ?r" using Cons.prems(3) by (simp add: scan_line_def Let_def l)
  moreover have "fence_open (scan_line data l st)" using s(2) by (simp add: scan_line_def Let_def l fence_open_def)
  ultimately show ?case
    using Cons.IH [of ?r "scan_line data l st"] rest Cons.prems(5) by (simp add: scan_line_def Let_def l)
qed

lemma blocks_scanned: "scanned data (length data) (close_block (fold (scan_line data) (byte_lines data) scan_start))"
  using scan_lines_scanned [of data 0 scan_start "byte_lines data"] byte_lines_whole [of data] byte_lines_endings [of data]
  by (intro scanned_close) (simp add: scanned_def scan_start_def fence_open_def last_end_def block_content_def)

text \<open>
  C34.  Splitting Markdown loses nothing and repeats nothing.  For any bytes the blocks are ranges in
  order, none empty, disjoint and within the document, and what they hold, white space aside,
  is the document, white space aside: every other byte is in exactly one block, whatever
  fences, headings, underlines and line endings there are.
\<close>

theorem markdown_blocks_partition:
  "ordered_from 0 (markdown_blocks data) \<and> last_end (markdown_blocks data) \<le> length data \<and>
   concat (map (\<lambda>(s, e). filter solid (slice s e data)) (markdown_blocks data)) = filter solid data"
  using blocks_scanned [of data] by (simp add: markdown_blocks_def scanned_def block_content_def)

lemma ordered_bounds_aux: "ordered_from p bs \<Longrightarrow> (s, e) \<in> set bs \<Longrightarrow> p \<le> e"
  by (induction p bs rule: ordered_from.induct) auto

lemma ordered_bounds: "ordered_from p bs \<Longrightarrow> (s, e) \<in> set bs \<Longrightarrow> p \<le> s \<and> s < e \<and> e \<le> snd (last bs)"
proof (induction p bs rule: ordered_from.induct)
  case (2 p s' e' bs)
  show ?case
  proof (cases "(s, e) \<in> set bs")
    case True
    then show ?thesis using 2 by auto
  next
    case False
    then have se: "s = s'" "e = e'" using 2 by auto
    show ?thesis
    proof (cases "bs = []")
      case ne: False
      then have "(fst (last bs), snd (last bs)) \<in> set bs" by simp
      moreover have "ordered_from e' bs" using 2 by simp
      ultimately have "e' \<le> snd (last bs)" by (rule ordered_bounds_aux [rotated])
      then show ?thesis using 2 se ne by simp
    qed (use 2 se in simp)
  qed
qed simp

end
