(* ===== verification/ChatGPT.thy ===== *)
theory ChatGPT
  imports PyText
begin

text \<open>
  The ChatGPT export adapter (\<open>stele/adapters/chatgpt.py\<close>): the text of a message, the tree of
  a conversation, and the chunks of an export.  The main result: a conversation that is accepted
  gives exactly one chunk for every node with content, on every branch.
\<close>

definition SPLITTER :: string where "SPLITTER = ''chatgpt-export-split''"
definition INDEX :: string where "INDEX = ''index.jsonl''"

definition MalformedExportError :: exn where
  "MalformedExportError = OtherError ''MalformedExportError''"

text \<open>Python's text of a value that is not a \<open>str\<close>, and the number a \<open>str\<close> is to \<open>int()\<close>.\<close>

record texts =
  tx_str :: "json \<Rightarrow> string"
  tx_int :: "string \<Rightarrow> int option"

definition str_of :: "texts \<Rightarrow> json \<Rightarrow> string" where
  "str_of py v = (case v of JStr s \<Rightarrow> s | _ \<Rightarrow> tx_str py v)"

section \<open>The text of a message\<close>

text \<open>\<open>_part_reference\<close>.\<close>

definition part_reference :: "texts \<Rightarrow> (string \<times> json) list \<Rightarrow> string" where
  "part_reference py part =
     (let kind = or_else (jget part ''content_type'') (JStr ''attachment'');
          pointer = or_else (jget part ''asset_pointer'') (or_else (jget part ''name'') (JStr []))
      in case jget part ''text'' of
           JStr t \<Rightarrow> if t \<noteq> [] then t
             else ''['' @ str_of py kind @ (if truthy pointer then '': '' @ str_of py pointer else []) @ '']''
         | _ \<Rightarrow> ''['' @ str_of py kind @ (if truthy pointer then '': '' @ str_of py pointer else []) @ '']'')"

text \<open>The pieces of each content type; a piece may be any value until they are joined.\<close>

definition part_piece :: "texts \<Rightarrow> json \<Rightarrow> json list" where
  "part_piece py part =
     (case part of
        JStr s \<Rightarrow> if s \<noteq> [] then [part] else []
      | JObj kvs \<Rightarrow> [JStr (part_reference py kvs)]
      | _ \<Rightarrow> [])"

definition thought_piece :: "texts \<Rightarrow> json \<Rightarrow> json list" where
  "thought_piece py thought =
     (case thought of
        JObj kvs \<Rightarrow>
          [JStr (joins [CHR 0x0A] (map (\<lambda>k. str_of py (jget kvs k))
             (filter (\<lambda>k. truthy (jget kvs k)) [''summary'', ''content''])))]
      | _ \<Rightarrow> [])"

definition pieces_of :: "texts \<Rightarrow> (string \<times> json) list \<Rightarrow> json list result" where
  "pieces_of py content =
     (case jget content ''parts'' of
        JArr parts \<Rightarrow> Inr (concat (map (part_piece py) parts))
      | _ \<Rightarrow>
          (let kind = jget content ''content_type'' in
           if kind = JStr ''code'' then Inr [or_else (jget content ''text'') (JStr [])]
           else if kind = JStr ''user_editable_context''
           then Inr (map (\<lambda>k. JStr (str_of py (jget content k)))
                  (filter (\<lambda>k. truthy (jget content k)) [''user_profile'', ''user_instructions'']))
           else if kind = JStr ''thoughts''
           then map_sum id (\<lambda>ts. concat (map (thought_piece py) ts)) (json_iter (or_else (jget content ''thoughts'') (JArr [])))
           else Inr (concat (map (\<lambda>k. case jget content k of JStr s \<Rightarrow> if s \<noteq> [] then [JStr s] else [] | _ \<Rightarrow> [])
                  [''text'', ''result'', ''content'', ''summary'']))))"

definition is_text :: "json \<Rightarrow> bool" where
  "is_text v = (case v of JStr s \<Rightarrow> True | _ \<Rightarrow> False)"

text \<open>\<open>_render\<close>.\<close>

definition render :: "texts \<Rightarrow> (string \<times> json) list \<Rightarrow> string result" where
  "render py message =
     (case jget message ''content'' of
        JObj content \<Rightarrow>
          (case pieces_of py content of
             Inl e \<Rightarrow> Inl e
           | Inr ps \<Rightarrow>
               let kept = filter truthy ps in
               if list_all is_text kept
               then Inr (strip_text (joins [CHR 0x0A, CHR 0x0A] (map (str_of py) kept)))
               else Inl TypeError)
      | _ \<Rightarrow> Inr [])"

section \<open>The tree of a conversation\<close>

type_synonym mapping = "(string \<times> json) list"

definition in_mapping :: "mapping \<Rightarrow> json \<Rightarrow> bool" where
  "in_mapping m v = (case v of JStr s \<Rightarrow> s \<in> set (map fst m) | _ \<Rightarrow> False)"

text \<open>\<open>_children\<close>; a \<open>children\<close> field that is no list was refused before.\<close>

definition children :: "mapping \<Rightarrow> json \<Rightarrow> string list" where
  "children m node =
     (case node of
        JObj kvs \<Rightarrow>
          (case jget kvs ''children'' of
             JArr ks \<Rightarrow> concat (map (\<lambda>k. case k of JStr s \<Rightarrow> if s \<in> set (map fst m) then [s] else [] | _ \<Rightarrow> []) ks)
           | _ \<Rightarrow> [])
      | _ \<Rightarrow> [])"

definition children_of :: "mapping \<Rightarrow> string \<Rightarrow> string list" where
  "children_of m n = (case map_of m n of None \<Rightarrow> [] | Some node \<Rightarrow> children m node)"

definition node_parent :: "json \<Rightarrow> json" where
  "node_parent node = (case node of JObj kvs \<Rightarrow> jget kvs ''parent'' | _ \<Rightarrow> JNull)"

definition sibling_count :: "mapping \<Rightarrow> json \<Rightarrow> int" where
  "sibling_count m parent =
     (case parent of
        JStr p \<Rightarrow>
          (case map_of m p of
             Some (JObj kvs) \<Rightarrow> int (length (children m (JObj kvs)))
           | _ \<Rightarrow> 1)
      | _ \<Rightarrow> 1)"

lemma fewer_unseen:
  assumes "n \<in> set ks" "n \<notin> set seen"
  shows "length (filter (\<lambda>k. k \<notin> set (n # seen)) ks) < length (filter (\<lambda>k. k \<notin> set seen) ks)"
proof -
  have "filter (\<lambda>k. k \<notin> set (n # seen)) ks = filter (\<lambda>k. k \<noteq> n) (filter (\<lambda>k. k \<notin> set seen) ks)"
    by (auto intro: filter_cong)
  moreover have "length (filter (\<lambda>k. k \<noteq> n) (filter (\<lambda>k. k \<notin> set seen) ks)) < length (filter (\<lambda>k. k \<notin> set seen) ks)"
    by (rule length_filter_less [of n]) (use assms in auto)
  ultimately show ?thesis by simp
qed

lemma map_of_in: "map_of m n = Some v \<Longrightarrow> n \<in> set (map fst m)"
  by (metis domI dom_map_of_conv_image_fst set_map)

definition unseen :: "(string \<times> 'a) list \<Rightarrow> string list \<Rightarrow> nat" where
  "unseen m seen = length (filter (\<lambda>k. k \<notin> set seen) (map fst m))"

lemma unseen_less: "map_of m n = Some v \<Longrightarrow> n \<notin> set seen \<Longrightarrow> unseen m (n # seen) < unseen m seen"
  unfolding unseen_def by (rule fewer_unseen [OF map_of_in])

text \<open>\<open>_ancestors\<close>.\<close>

function ancestors :: "mapping \<Rightarrow> json \<Rightarrow> string list \<Rightarrow> string list" where
  "ancestors m v seen =
     (case v of
        JStr n \<Rightarrow>
          (case map_of m n of
             None \<Rightarrow> seen
           | Some node \<Rightarrow> if n \<in> set seen then seen else ancestors m (node_parent node) (n # seen))
      | _ \<Rightarrow> seen)"
  by pat_completeness auto
termination
  by (relation "measure (\<lambda>(m, v, seen). unseen m seen)") (auto simp: unseen_less)

declare ancestors.simps [simp del]

section \<open>The chunks of a conversation\<close>

fun value_of :: "json \<Rightarrow> pyval" where
  "value_of JNull = VNull"
| "value_of (JBool b) = VBool b"
| "value_of (JInt n) = VInt n"
| "value_of (JFloat x) = VFloat x"
| "value_of (JStr s) = VStr s"
| "value_of (JArr vs) = VList (map value_of vs)"
| "value_of (JObj kvs) = VDict (map (\<lambda>(k, v). (k, value_of v)) kvs)"

record index_entry =
  ie_path :: string
  ie_index :: int
  ie_offset :: int
  ie_length :: int

definition base_metadata :: "(string \<times> json) list \<Rightarrow> mapping \<Rightarrow> string \<Rightarrow> index_entry \<Rightarrow> string \<Rightarrow> (string \<times> pyval) list" where
  "base_metadata conversation m conv_id entry record_id =
     [(''source'', VStr ''chatgpt-export''), (''stele_record_id'', VStr record_id),
      (''conversation_id'', VStr conv_id), (''conversation_title'', value_of (jget conversation ''title'')),
      (''conversation_create_time'', value_of (jget conversation ''create_time'')),
      (''conversation_update_time'', value_of (jget conversation ''update_time'')),
      (''export_file'', VStr (ie_path entry)), (''export_offset'', VInt (ie_offset entry)),
      (''export_length'', VInt (ie_length entry)), (''node_count'', VInt (int (length m))),
      (''branch_count'', VInt (int (length (filter (\<lambda>n. children_of m n = []) (map fst m)))))]"

text \<open>A node as the loop takes it: its fields, its message, and its text.\<close>

definition node_fields :: "json \<Rightarrow> (string \<times> json) list" where
  "node_fields node = (case node of JObj kvs \<Rightarrow> kvs | _ \<Rightarrow> [])"

definition node_text :: "texts \<Rightarrow> json \<Rightarrow> string result" where
  "node_text py node =
     (case jget (node_fields node) ''message'' of JObj message \<Rightarrow> render py message | _ \<Rightarrow> Inr [])"

record visit =
  vi_node :: string
  vi_parent :: "string option"
  vi_depth :: nat
  vi_sibling :: nat

definition node_metadata ::
  "mapping \<Rightarrow> string list \<Rightarrow> visit \<Rightarrow> (string \<times> json) list \<Rightarrow> (string \<times> json) list \<Rightarrow> (string \<times> json) list \<Rightarrow>
   (string \<times> pyval) list" where
  "node_metadata m branch v node message author =
     (let kids = children_of m (vi_node v) in
      [(''node_id'', VStr (vi_node v)), (''message_id'', value_of (jget message ''id'')),
       (''parent_node_id'', case vi_parent v of None \<Rightarrow> VNull | Some p \<Rightarrow> VStr p),
       (''raw_parent_id'', value_of (jget node ''parent'')), (''depth'', VInt (int (vi_depth v))),
       (''sibling_index'', VInt (int (vi_sibling v))),
       (''sibling_count'', VInt (sibling_count m (jget node ''parent''))),
       (''child_count'', VInt (int (length kids))), (''is_leaf'', VBool (kids = [])),
       (''on_current_branch'', VBool (vi_node v \<in> set branch)),
       (''role'', value_of (jget author ''role'')), (''author_name'', value_of (jget author ''name'')),
       (''recipient'', value_of (jget message ''recipient'')),
       (''content_type'', value_of (jget (node_fields (jget message ''content'')) ''content_type'')),
       (''create_time'', value_of (jget message ''create_time''))])"

text \<open>The chunk of a node with text; an author that is no object has no \<open>get\<close>.\<close>

definition node_chunk ::
  "mapping \<Rightarrow> (string \<times> pyval) list \<Rightarrow> string list \<Rightarrow> string \<Rightarrow> visit \<Rightarrow> (string \<times> json) list \<Rightarrow> string \<Rightarrow> chunk result" where
  "node_chunk m base branch conv_id v node content =
     (let message = node_fields (jget node ''message'') in
      case or_else (jget message ''author'') (JObj []) of
        JObj author \<Rightarrow>
          make_chunk (conv_id @ '':'' @ vi_node v) content (base @ node_metadata m branch v node message author)
      | _ \<Rightarrow> Inl AttributeError)"

text \<open>
  The loop: \<open>stack\<close> has its top first.  The chunks it yields before it raises are lost with the
  exception, as every caller collects them all first.
\<close>

definition push_children :: "mapping \<Rightarrow> string \<Rightarrow> string option \<Rightarrow> nat \<Rightarrow> visit list \<Rightarrow> visit list" where
  "push_children m n emitted d stack =
     map (\<lambda>(i, k). \<lparr>vi_node = k, vi_parent = emitted, vi_depth = d, vi_sibling = i\<rparr>)
       (enumerate 0 (children_of m n)) @ stack"

function traverse ::
  "texts \<Rightarrow> mapping \<Rightarrow> (string \<times> pyval) list \<Rightarrow> string list \<Rightarrow> string \<Rightarrow> string list \<Rightarrow> visit list \<Rightarrow> (chunk list \<times> string list) result" where
  "traverse py m base branch conv_id visited [] = Inr ([], visited)"
| "traverse py m base branch conv_id visited (v # stack) =
     (let n = vi_node v in
      if n \<in> set visited then Inl MalformedExportError
      else case map_of m n of
        None \<Rightarrow> Inl KeyError
      | Some node \<Rightarrow>
          (case node_text py node of
             Inl e \<Rightarrow> Inl e
           | Inr content \<Rightarrow>
               if content = []
               then traverse py m base branch conv_id (n # visited) (push_children m n (vi_parent v) (Suc (vi_depth v)) stack)
               else (case node_chunk m base branch conv_id v (node_fields node) content of
                 Inl e \<Rightarrow> Inl e
               | Inr c \<Rightarrow>
                   map_sum id (\<lambda>(cs, seen). (c # cs, seen))
                     (traverse py m base branch conv_id (n # visited) (push_children m n (Some n) (Suc (vi_depth v)) stack)))))"
  by pat_completeness auto
termination
  by (relation "measure (\<lambda>(py, m, base, branch, conv_id, visited, stack). unseen m visited)") (auto simp: unseen_less)

definition root_nodes :: "mapping \<Rightarrow> string list" where
  "root_nodes m = map fst (filter (\<lambda>(n, node). (case node of JObj kvs \<Rightarrow> \<not> in_mapping m (jget kvs ''parent'') | _ \<Rightarrow> True)) m)"

definition children_lists :: "mapping \<Rightarrow> bool" where
  "children_lists m \<longleftrightarrow>
     list_all (\<lambda>(n, node). case node of
         JObj kvs \<Rightarrow> (case jget kvs ''children'' of JNull \<Rightarrow> True | JArr ks \<Rightarrow> True | _ \<Rightarrow> False)
       | _ \<Rightarrow> True) m"

text \<open>\<open>_conversation_chunks\<close>; the roots are in export order as the mapping is.\<close>

definition conversation_chunks ::
  "texts \<Rightarrow> (string \<times> json) list \<Rightarrow> string \<Rightarrow> index_entry \<Rightarrow> string \<Rightarrow> chunk list result" where
  "conversation_chunks py conversation conv_id entry record_id =
     (case (case jget conversation ''mapping'' of JNull \<Rightarrow> JObj [] | v \<Rightarrow> v) of
        JObj m \<Rightarrow>
          if \<not> children_lists m then Inl MalformedExportError
          else (let current = jget conversation ''current_node'' in
            if current \<noteq> JNull \<and> \<not> in_mapping m current then Inl MalformedExportError
            else (case traverse py m (base_metadata conversation m conv_id entry record_id) (ancestors m current []) conv_id []
                     (map (\<lambda>(i, r). \<lparr>vi_node = r, vi_parent = None, vi_depth = 0, vi_sibling = i\<rparr>) (enumerate 0 (root_nodes m))) of
               Inl e \<Rightarrow> Inl e
             | Inr (cs, visited) \<Rightarrow>
                 if set (map fst m) \<subseteq> set visited then Inr cs else Inl MalformedExportError))
      | _ \<Rightarrow> Inl MalformedExportError)"

section \<open>The chunks of an export\<close>

text \<open>\<open>int()\<close> of a parsed value: a float is truncated, and an infinite one raises \<open>OverflowError\<close>.\<close>

definition int_of :: "texts \<Rightarrow> json \<Rightarrow> int result" where
  "int_of py v =
     (case v of
        JInt n \<Rightarrow> Inr n
      | JBool b \<Rightarrow> Inr (if b then 1 else 0)
      | JFloat x \<Rightarrow>
          (case x of PNum q \<Rightarrow> Inr (if q < 0 then - \<lfloor>- q\<rfloor> else \<lfloor>q\<rfloor>) | PNegZero \<Rightarrow> Inr 0
           | PInf _ \<Rightarrow> Inl (OtherError ''OverflowError'') | PNaN \<Rightarrow> Inl ValueError)
      | JStr s \<Rightarrow> (case tx_int py s of None \<Rightarrow> Inl ValueError | Some n \<Rightarrow> Inr n)
      | _ \<Rightarrow> Inl TypeError)"

text \<open>What \<open>_index\<close> catches.\<close>

definition index_fault :: "exn \<Rightarrow> bool" where
  "index_fault e \<longleftrightarrow> is_value_error e \<or> e = KeyError \<or> e = TypeError"

definition int_field :: "texts \<Rightarrow> (string \<times> json) list \<Rightarrow> string \<Rightarrow> int result" where
  "int_field py kvs k = (case map_of kvs k of None \<Rightarrow> Inl KeyError | Some v \<Rightarrow> int_of py v)"

text \<open>One line of \<open>_index\<close>.\<close>

definition index_line :: "texts \<Rightarrow> manifest \<Rightarrow> string \<Rightarrow> index_entry result" where
  "index_line py manifest line =
     (let parsed =
        (case json_loads line of
           Some (JObj kvs) \<Rightarrow>
             (case map_of kvs ''path'' of None \<Rightarrow> Inl KeyError | Some path \<Rightarrow>
             (case int_field py kvs ''index'' of Inl e \<Rightarrow> Inl e | Inr i \<Rightarrow>
             (case int_field py kvs ''offset'' of Inl e \<Rightarrow> Inl e | Inr off \<Rightarrow>
             (case int_field py kvs ''length'' of Inl e \<Rightarrow> Inl e | Inr len \<Rightarrow> Inr (path, i, off, len)))))
         | Some _ \<Rightarrow> Inl TypeError
         | None \<Rightarrow> Inl ValueError)
      in case parsed of
           Inl e \<Rightarrow> if index_fault e then Inl MalformedExportError else Inl e
         | Inr (JStr p, i, off, len) \<Rightarrow>
             if p \<in> set (dict_keys manifest)
             then Inr \<lparr>ie_path = p, ie_index = i, ie_offset = off, ie_length = len\<rparr>
             else Inl MalformedExportError
         | Inr (v, _) \<Rightarrow> if hashable v then Inl MalformedExportError else Inl TypeError)"

text \<open>The conversation's own id, or one from its index.\<close>

definition conversation_id_of :: "texts \<Rightarrow> (string \<times> json) list \<Rightarrow> index_entry \<Rightarrow> string" where
  "conversation_id_of py conversation entry =
     str_of py (or_else (jget conversation ''conversation_id'') (or_else (jget conversation ''id'')
       (JStr (''conversation-'' @ pad_int 6 (ie_index entry)))))"

definition count_seen :: "string \<Rightarrow> (string, nat) dict \<Rightarrow> nat" where
  "count_seen cid seen = (case map_of seen cid of None \<Rightarrow> 0 | Some n \<Rightarrow> n)"

definition distinct_id :: "string \<Rightarrow> nat \<Rightarrow> string" where
  "distinct_id cid n = (if n > 1 then cid @ ''#'' @ show_nat n else cid)"

definition read_conversation :: "sealed_bundle \<Rightarrow> index_entry \<Rightarrow> (string \<times> json) list result" where
  "read_conversation b entry =
     (case bundle_read b (ie_path entry) of
        Inl e \<Rightarrow> Inl e
      | Inr raw \<Rightarrow>
          (case loads_bytes raw of
             Some (JObj conversation) \<Rightarrow> Inr conversation
           | _ \<Rightarrow> Inl MalformedExportError))"

fun export_chunks :: "texts \<Rightarrow> sealed_bundle \<Rightarrow> (string, nat) dict \<Rightarrow> string list \<Rightarrow> chunk list result" where
  "export_chunks py b seen [] = Inr []"
| "export_chunks py b seen (line # lines) =
     (case index_line py (sb_manifest b) line of Inl e \<Rightarrow> Inl e | Inr entry \<Rightarrow>
     (case read_conversation b entry of Inl e \<Rightarrow> Inl e | Inr conversation \<Rightarrow>
        let cid = conversation_id_of py conversation entry;
            n = Suc (count_seen cid seen)
        in case conversation_chunks py conversation (distinct_id cid n) entry (sb_record_id b) of
             Inl e \<Rightarrow> Inl e
           | Inr cs \<Rightarrow> map_sum id (\<lambda>ds. cs @ ds) (export_chunks py b (AList.update cid n seen) lines)))"

text \<open>\<open>transform\<close>.\<close>

definition chatgpt_transform :: "texts \<Rightarrow> sealed_bundle \<Rightarrow> chunk list result" where
  "chatgpt_transform py b =
     (if (case sb_parser b of None \<Rightarrow> False | Some p \<Rightarrow> pi_name p \<noteq> SPLITTER) then Inl MalformedExportError
      else if INDEX \<notin> set (dict_keys (sb_manifest b)) then Inl MalformedExportError
      else case bundle_read_text b INDEX of
        Inl e \<Rightarrow> Inl e
      | Inr content \<Rightarrow> export_chunks py b [] (split_lines [] content))"

section \<open>No branch is lost\<close>

definition mapping_of :: "(string \<times> json) list \<Rightarrow> mapping" where
  "mapping_of conversation = (case jget conversation ''mapping'' of JObj m \<Rightarrow> m | _ \<Rightarrow> [])"

text \<open>The id and content of a node's chunk.\<close>

definition node_piece :: "texts \<Rightarrow> string \<Rightarrow> string \<times> json \<Rightarrow> (string \<times> string) list" where
  "node_piece py conv_id p =
     (case node_text py (snd p) of
        Inr content \<Rightarrow> if content = [] then [] else [(conv_id @ '':'' @ fst p, content)]
      | Inl e \<Rightarrow> [])"

lemma make_chunk_fields:
  "make_chunk cid content md = Inr c \<Longrightarrow> ch_id c = cid \<and> ch_content c = content \<and> ch_metadata c = VDict md"
  by (auto simp: make_chunk_def split: if_split_asm)

lemma node_chunk_fields:
  assumes "node_chunk m base branch conv_id v node content = Inr c"
  shows "ch_id c = conv_id @ '':'' @ vi_node v" "ch_content c = content"
    "\<exists>message author. ch_metadata c = VDict (base @ node_metadata m branch v node message author)"
  using assms unfolding node_chunk_def Let_def by (auto split: json.split_asm dest: make_chunk_fields)

lemma traverse_pieces:
  "traverse py m base branch conv_id visited stack = Inr (cs, seen) \<Longrightarrow>
   \<exists>new. seen = new @ visited \<and> (distinct visited \<longrightarrow> distinct seen) \<and> set new \<subseteq> set (map fst m) \<and>
     map (\<lambda>c. (ch_id c, ch_content c)) cs = concat (map (\<lambda>n. node_piece py conv_id (n, the (map_of m n))) (rev new))"
proof (induction py m base branch conv_id visited stack arbitrary: cs seen rule: traverse.induct)
  case (2 py m base branch conv_id visited v stack)
  let ?n = "vi_node v"
  obtain node content where n: "?n \<notin> set visited" "map_of m ?n = Some node" "node_text py node = Inr content"
    using "2.prems" by (auto simp: Let_def split: if_split_asm option.split_asm sum.split_asm)
  have key: "?n \<in> set (map fst m)" using n(2) by (rule map_of_in)
  show ?case
  proof (cases "content = []")
    case True
    have t: "traverse py m base branch conv_id (?n # visited) (push_children m ?n (vi_parent v) (Suc (vi_depth v)) stack) = Inr (cs, seen)"
      using "2.prems" n True by (simp add: Let_def)
    obtain new where new: "seen = new @ ?n # visited" "distinct (?n # visited) \<longrightarrow> distinct seen" "set new \<subseteq> set (map fst m)"
      "map (\<lambda>c. (ch_id c, ch_content c)) cs = concat (map (\<lambda>n. node_piece py conv_id (n, the (map_of m n))) (rev new))"
      using "2.IH"(1) [OF refl n(1) n(2) n(3) True t] by blast
    then show ?thesis using n key True by (intro exI [of _ "new @ [?n]"]) (simp add: node_piece_def)
  next
    case False
    obtain c where c: "node_chunk m base branch conv_id v (node_fields node) content = Inr c"
      using "2.prems" n False by (auto simp: Let_def split: sum.split_asm)
    obtain ds where t: "traverse py m base branch conv_id (?n # visited) (push_children m ?n (Some ?n) (Suc (vi_depth v)) stack) = Inr (ds, seen)"
      and cs: "cs = c # ds"
      using "2.prems" n False c by (auto simp: Let_def map_sum_Inr_iff)
    obtain new where new: "seen = new @ ?n # visited" "distinct (?n # visited) \<longrightarrow> distinct seen" "set new \<subseteq> set (map fst m)"
      "map (\<lambda>c. (ch_id c, ch_content c)) ds = concat (map (\<lambda>n. node_piece py conv_id (n, the (map_of m n))) (rev new))"
      using "2.IH"(2) [OF refl n(1) n(2) n(3) False c t] by blast
    then show ?thesis using n key False node_chunk_fields [OF c] cs
      by (intro exI [of _ "new @ [?n]"]) (simp add: node_piece_def)
  qed
qed simp

text \<open>The node of a chunk and the node it names as its parent.\<close>

definition metadata_field :: "chunk \<Rightarrow> string \<Rightarrow> pyval" where
  "metadata_field c k = (case ch_metadata c of VDict kvs \<Rightarrow> (case map_of kvs k of None \<Rightarrow> VNull | Some v \<Rightarrow> v) | _ \<Rightarrow> VNull)"

text \<open>Every parent is the node of an earlier chunk.\<close>

fun parents_earlier :: "string set \<Rightarrow> chunk list \<Rightarrow> bool" where
  "parents_earlier given [] = True"
| "parents_earlier given (c # cs) =
     (case (metadata_field c ''node_id'', metadata_field c ''parent_node_id'') of
        (VStr n, VNull) \<Rightarrow> parents_earlier (insert n given) cs
      | (VStr n, VStr p) \<Rightarrow> p \<in> given \<and> parents_earlier (insert n given) cs
      | _ \<Rightarrow> False)"

lemma node_chunk_metadata:
  assumes "node_chunk m (base_metadata cv m conv_id entry rid) branch conv_id v node content = Inr c"
  shows "metadata_field c ''node_id'' = VStr (vi_node v)"
    "metadata_field c ''parent_node_id'' = (case vi_parent v of None \<Rightarrow> VNull | Some p \<Rightarrow> VStr p)"
    "metadata_field c ''conversation_id'' = VStr conv_id" "metadata_field c ''export_file'' = VStr (ie_path entry)"
proof -
  obtain message author where "ch_metadata c = VDict (base_metadata cv m conv_id entry rid @ node_metadata m branch v node message author)"
    using node_chunk_fields(3) [OF assms] by blast
  then show "metadata_field c ''node_id'' = VStr (vi_node v)"
    "metadata_field c ''parent_node_id'' = (case vi_parent v of None \<Rightarrow> VNull | Some p \<Rightarrow> VStr p)"
    "metadata_field c ''conversation_id'' = VStr conv_id" "metadata_field c ''export_file'' = VStr (ie_path entry)"
    by (simp_all add: metadata_field_def base_metadata_def node_metadata_def Let_def)
qed

definition stack_parents :: "string set \<Rightarrow> visit list \<Rightarrow> bool" where
  "stack_parents given = list_all (\<lambda>v. case vi_parent v of None \<Rightarrow> True | Some p \<Rightarrow> p \<in> given)"

lemma stack_parents_push:
  "stack_parents given stack \<Longrightarrow> (case parent of None \<Rightarrow> True | Some p \<Rightarrow> p \<in> given) \<Longrightarrow>
   stack_parents given (push_children m n parent d stack)"
  by (auto simp: stack_parents_def push_children_def list_all_iff split: option.splits)

lemma stack_parents_mono: "stack_parents given stack \<Longrightarrow> stack_parents (insert n given) stack"
  by (auto simp: stack_parents_def list_all_iff split: option.splits)

lemma traverse_parents:
  "traverse py m (base_metadata cv m conv_id entry rid) branch conv_id visited stack = Inr (cs, seen) \<Longrightarrow>
   stack_parents given stack \<Longrightarrow> parents_earlier given cs"
proof (induction py m "base_metadata cv m conv_id entry rid" branch conv_id visited stack
    arbitrary: cs seen given rule: traverse.induct)
  case (2 py m branch conv_id visited v stack)
  let ?n = "vi_node v"
  obtain node content where n: "?n \<notin> set visited" "map_of m ?n = Some node" "node_text py node = Inr content"
    using "2.prems" by (auto simp: Let_def split: if_split_asm option.split_asm sum.split_asm)
  have v: "case vi_parent v of None \<Rightarrow> True | Some p \<Rightarrow> p \<in> given" and rest: "stack_parents given stack"
    using "2.prems"(2) by (simp_all add: stack_parents_def)
  show ?case
  proof (cases "content = []")
    case True
    have t: "traverse py m (base_metadata cv m conv_id entry rid) branch conv_id (?n # visited)
        (push_children m ?n (vi_parent v) (Suc (vi_depth v)) stack) = Inr (cs, seen)"
      using "2.prems" n True by (simp add: Let_def)
    show ?thesis by (rule "2.hyps"(1) [OF refl n(1) n(2) n(3) True t stack_parents_push [OF rest v]])
  next
    case False
    obtain c where c: "node_chunk m (base_metadata cv m conv_id entry rid) branch conv_id v (node_fields node) content = Inr c"
      using "2.prems" n False by (auto simp: Let_def split: sum.split_asm)
    obtain ds where t: "traverse py m (base_metadata cv m conv_id entry rid) branch conv_id (?n # visited)
        (push_children m ?n (Some ?n) (Suc (vi_depth v)) stack) = Inr (ds, seen)" and cs: "cs = c # ds"
      using "2.prems" n False c by (auto simp: Let_def map_sum_Inr_iff)
    have "parents_earlier (insert ?n given) ds"
      by (rule "2.hyps"(2) [OF refl n(1) n(2) n(3) False c t stack_parents_push [OF stack_parents_mono [OF rest]]]) simp
    then show ?thesis using v by (simp add: cs node_chunk_metadata [OF c] split: option.splits)
  qed
qed simp

lemma map_of_distinct_map:
  "distinct (map fst m) \<Longrightarrow> map (\<lambda>n. f (n, the (map_of m n))) (map fst m) = map f m"
  by (auto simp: map_of_is_SomeI)

lemma mset_concat_cong: "mset xs = mset ys \<Longrightarrow> mset (concat (map f xs)) = mset (concat (map f ys))"
  by (simp add: mset_concat comp_def flip: sum_mset_sum_list)

lemma conversation_chunksD:
  assumes "conversation_chunks py conversation conv_id entry rid = Inr cs" "distinct (map fst (mapping_of conversation))"
  shows "mset (map (\<lambda>c. (ch_id c, ch_content c)) cs) = mset (concat (map (node_piece py conv_id) (mapping_of conversation)))"
    "parents_earlier {} cs"
proof -
  let ?m = "mapping_of conversation"
  let ?stack = "map (\<lambda>(i, r). \<lparr>vi_node = r, vi_parent = None, vi_depth = 0, vi_sibling = i\<rparr>) (enumerate 0 (root_nodes ?m))"
  obtain branch visited where t: "traverse py ?m (base_metadata conversation ?m conv_id entry rid) branch conv_id [] ?stack = Inr (cs, visited)"
    and all: "set (map fst ?m) \<subseteq> set visited"
    using assms(1) unfolding conversation_chunks_def mapping_of_def
    by (auto simp: Let_def split: json.split_asm if_split_asm sum.split_asm)
  obtain new where new: "visited = new @ []" "distinct visited" "set new \<subseteq> set (map fst ?m)"
    "map (\<lambda>c. (ch_id c, ch_content c)) cs = concat (map (\<lambda>n. node_piece py conv_id (n, the (map_of ?m n))) (rev new))"
    using traverse_pieces [OF t] by auto
  have "mset (rev new) = mset (map fst ?m)"
    using new(1-3) all assms(2) by (intro set_eq_iff_mset_eq_distinct [THEN iffD1]) auto
  then have "mset (concat (map (\<lambda>n. node_piece py conv_id (n, the (map_of ?m n))) (rev new)))
      = mset (concat (map (\<lambda>n. node_piece py conv_id (n, the (map_of ?m n))) (map fst ?m)))"
    by (rule mset_concat_cong)
  then show "mset (map (\<lambda>c. (ch_id c, ch_content c)) cs) = mset (concat (map (node_piece py conv_id) ?m))"
    unfolding new(4) map_of_distinct_map [OF assms(2), of "node_piece py conv_id"] .
  show "parents_earlier {} cs"
    by (rule traverse_parents [OF t]) (auto simp: stack_parents_def list_all_iff)
qed

text \<open>
  C35.  No branch of a conversation is lost.  When a conversation is accepted, its chunks are exactly
  one per node of its mapping whose message has text - whichever branch the node is on, and in
  spite of a depth-first walk over children that may dangle - with that text; and every
  chunk names as its parent the node of a chunk that comes before it, or none.
\<close>

theorem conversation_keeps_every_branch:
  "case conversation_chunks py conversation conv_id entry record_id of
     Inl e \<Rightarrow> True
   | Inr cs \<Rightarrow>
       if distinct (map fst (mapping_of conversation))
       then mset (map (\<lambda>c. (ch_id c, ch_content c)) cs) =
              mset (concat (map (node_piece py conv_id) (mapping_of conversation))) \<and>
            parents_earlier {} cs
       else True"
  using conversation_chunksD [of py conversation conv_id entry record_id] by (auto split: sum.split)

text \<open>
  Two conversations can be given one id: of three with the ids \<open>a\<close>, \<open>a\<close> and \<open>a#2\<close>, the second and
  the third are named alike, since the id made for the copy is not itself counted as seen.
\<close>

lemma conversation_ids_collide:
  "distinct_id ''a'' (Suc (count_seen ''a'' [(''a'', 1)])) = distinct_id ''a#2'' (Suc (count_seen ''a#2'' [(''a'', 2)]))"
  by (simp add: distinct_id_def count_seen_def) code_simp

end
