(* ===== verification/Normalize.thy ===== *)
theory Normalize
  imports Markdown ChatGPT
begin

text \<open>
  The normalizers (\<open>stele/extraction/normalizers.py\<close>): from a sealed bundle to its extraction, by
  the parser that wrote the bundle; and JSON pointers to what they quote.
\<close>

definition NormalizeError :: exn where
  "NormalizeError = OtherError ''NormalizeError''"

definition PARSER_MANIFEST :: string where "PARSER_MANIFEST = ''stele-parser.json''"
definition DEFAULT_MARKDOWN :: string where "DEFAULT_MARKDOWN = ''document.md''"

definition MARKDOWN_PARSERS :: "string list" where
  "MARKDOWN_PARSERS = [''mineru'', ''marker'', ''docling'']"

definition MARKDOWN_NORMALIZER :: tool where "MARKDOWN_NORMALIZER = (''markdown'', ''1'')"
definition CHATGPT_NORMALIZER :: tool where "CHATGPT_NORMALIZER = (''chatgpt'', ''1'')"
definition CHATGPT_RENDERER :: string where "CHATGPT_RENDERER = ''chatgpt-message''"

section \<open>Choosing a normalizer\<close>

datatype normalizer = Normalize_markdown | Normalize_chatgpt

definition normalizer_for :: "sealed_bundle \<Rightarrow> normalizer result" where
  "normalizer_for b =
     (case sb_parser b of
        None \<Rightarrow> Inl NormalizeError
      | Some p \<Rightarrow>
          if pi_name p \<in> set MARKDOWN_PARSERS then Inr Normalize_markdown
          else if pi_name p = SPLITTER then Inr Normalize_chatgpt
          else Inl NormalizeError)"

definition normalizer_id :: "sealed_bundle \<Rightarrow> tool result" where
  "normalizer_id b =
     (case normalizer_for b of
        Inl e \<Rightarrow> Inl e
      | Inr Normalize_markdown \<Rightarrow> Inr MARKDOWN_NORMALIZER
      | Inr Normalize_chatgpt \<Rightarrow> Inr CHATGPT_NORMALIZER)"

definition parser_id :: "sealed_bundle \<Rightarrow> tool" where
  "parser_id b = (case sb_parser b of None \<Rightarrow> (''unknown'', ''unknown'') | Some p \<Rightarrow> (pi_name p, pi_version p))"

text \<open>\<open>_extraction\<close>.\<close>

definition extraction_of :: "sealed_bundle \<Rightarrow> tool \<Rightarrow> draft list \<Rightarrow> extraction result" where
  "extraction_of b normalizer drafts =
     (case number_units drafts of
        Inl e \<Rightarrow> Inl e
      | Inr us \<Rightarrow>
          make_extraction (JStr (sb_record_id b)) (JStr (sb_artifact_hash b)) (opt_str (sb_source_hash b))
            (tool_json (parser_id b)) (tool_json normalizer) us)"

section \<open>Markdown\<close>

text \<open>\<open>markdown_path\<close>; a digest that is not one is a \<open>ValueError\<close> too.\<close>

definition default_path :: "sealed_bundle \<Rightarrow> string result" where
  "default_path b =
     (if DEFAULT_MARKDOWN \<in> set (dict_keys (sb_manifest b)) then Inr DEFAULT_MARKDOWN else Inl NormalizeError)"

definition markdown_path :: "sealed_bundle \<Rightarrow> string result" where
  "markdown_path b =
     (if PARSER_MANIFEST \<in> set (dict_keys (sb_manifest b))
      then (case bundle_read b PARSER_MANIFEST of
         Inl e \<Rightarrow> if is_value_error e then Inl NormalizeError else Inl e
       | Inr raw \<Rightarrow>
           (case loads_bytes raw of
              Some (JObj kvs) \<Rightarrow>
                (case or_else (jget kvs ''outputs'') (JObj []) of
                   JObj outputs \<Rightarrow>
                     (case jget outputs ''markdown'' of
                        JNull \<Rightarrow> default_path b
                      | JStr path \<Rightarrow> if path \<in> set (dict_keys (sb_manifest b)) then Inr path else Inl NormalizeError
                      | _ \<Rightarrow> Inl NormalizeError)
                 | _ \<Rightarrow> default_path b)
            | _ \<Rightarrow> Inl NormalizeError))
      else default_path b)"

text \<open>
  The loop over the blocks.  \<open>headings\<close> are the open sections, the innermost first; \<open>n\<close> units
  were made so far.
\<close>

definition open_sections :: "nat option \<Rightarrow> (nat \<times> string) list \<Rightarrow> (nat \<times> string) list" where
  "open_sections level headings =
     (case level of None \<Rightarrow> headings | Some l \<Rightarrow> dropWhile (\<lambda>(k, u). l \<le> k) headings)"

fun markdown_drafts ::
  "string \<Rightarrow> string \<Rightarrow> string \<Rightarrow> nat \<Rightarrow> (nat \<times> string) list \<Rightarrow> (nat \<times> nat) list \<Rightarrow> draft list result" where
  "markdown_drafts path digest data n headings [] = Inr []"
| "markdown_drafts path digest data n headings ((s, e) # bs) =
     (let block = slice s e data in
      if \<not> utf8_ok block then Inl NormalizeError
      else let (kind, level) = markdown_kind block;
               sections = open_sections level headings;
               parent = (case sections of [] \<Rightarrow> None | (l, u) # _ \<Rightarrow> Some u);
               opened = (case level of None \<Rightarrow> sections | Some l \<Rightarrow> (l, unit_id (Suc n)) # sections)
      in case make_anchor (JStr path) (JStr digest) (Some (JInt (int s), JInt (int e))) JNull JNull of
           Inl x \<Rightarrow> Inl x
         | Inr a \<Rightarrow>
             map_sum id (\<lambda>ds. \<lparr>dr_kind = kind, dr_text = block, dr_level = map_option int level, dr_parent = parent,
                               dr_anchor = a, dr_attributes = []\<rparr> # ds)
               (markdown_drafts path digest data (Suc n) opened bs))"

definition normalize_markdown :: "sealed_bundle \<Rightarrow> extraction result" where
  "normalize_markdown b =
     (case markdown_path b of
        Inl e \<Rightarrow> Inl e
      | Inr path \<Rightarrow>
          (case bundle_read b path of
             Inl e \<Rightarrow> Inl e
           | Inr data \<Rightarrow>
               (case map_of (sb_manifest b) path of
                  None \<Rightarrow> Inl KeyError
                | Some digest \<Rightarrow>
                    (case markdown_drafts path digest data 0 [] (markdown_blocks data) of
                       Inl e \<Rightarrow> Inl e
                     | Inr ds \<Rightarrow> extraction_of b MARKDOWN_NORMALIZER ds))))"

section \<open>ChatGPT\<close>

text \<open>\<open>json_pointer\<close>.\<close>

definition escape_token :: "string \<Rightarrow> string" where
  "escape_token t = concat (map (\<lambda>c. if c = CHR ''/'' then ''~1'' else [c]) (concat (map (\<lambda>c. if c = CHR ''~'' then ''~0'' else [c]) t)))"

definition json_pointer :: "string list \<Rightarrow> string" where
  "json_pointer tokens = concat (map (\<lambda>t. CHR ''/'' # escape_token t) tokens)"

definition CHATGPT_ATTRIBUTES :: "string list" where
  "CHATGPT_ATTRIBUTES =
     [''conversation_id'', ''conversation_title'', ''node_id'', ''message_id'', ''role'', ''author_name'', ''recipient'',
      ''content_type'', ''create_time'', ''depth'', ''sibling_index'', ''sibling_count'', ''is_leaf'', ''on_current_branch'']"

text \<open>What is not JSON makes the attributes invalid; nothing in a conversation's metadata is.\<close>

fun chunk_attributes :: "chunk \<Rightarrow> string list \<Rightarrow> (string \<times> json) list result" where
  "chunk_attributes c [] = Inr []"
| "chunk_attributes c (k # ks) =
     (case metadata_field c k of
        VNull \<Rightarrow> chunk_attributes c ks
      | v \<Rightarrow> (case encode_value v of
           None \<Rightarrow> Inl ExtractionFormatError
         | Some j \<Rightarrow> map_sum id (\<lambda>kvs. (k, j) # kvs) (chunk_attributes c ks)))"

definition text_field :: "chunk \<Rightarrow> string \<Rightarrow> string result" where
  "text_field c k = (case metadata_field c k of VStr s \<Rightarrow> Inr s | _ \<Rightarrow> Inl TypeError)"

text \<open>One unit; \<open>units\<close> is \<open>unit_of\<close>, which has the unit itself.\<close>

definition chatgpt_draft :: "manifest \<Rightarrow> ((string \<times> string) \<times> string) list \<Rightarrow> chunk \<Rightarrow> draft result" where
  "chatgpt_draft manifest units c =
     (case text_field c ''conversation_id'' of Inl e \<Rightarrow> Inl e | Inr conv \<Rightarrow>
     (case text_field c ''node_id'' of Inl e \<Rightarrow> Inl e | Inr n \<Rightarrow>
     (case text_field c ''export_file'' of Inl e \<Rightarrow> Inl e | Inr artifact \<Rightarrow>
     (case (case metadata_field c ''parent_node_id'' of
              VStr p \<Rightarrow> (case map_of units (conv, p) of None \<Rightarrow> Inl KeyError | Some u \<Rightarrow> Inr (Some u))
            | VNull \<Rightarrow> Inr None
            | _ \<Rightarrow> Inl KeyError) of Inl e \<Rightarrow> Inl e | Inr parent \<Rightarrow>
     (case map_of manifest artifact of None \<Rightarrow> Inl KeyError | Some digest \<Rightarrow>
     (case make_anchor (JStr artifact) (JStr digest) None
             (JStr (json_pointer [''mapping'', n, ''message''])) (JStr CHATGPT_RENDERER) of Inl e \<Rightarrow> Inl e | Inr a \<Rightarrow>
     (case chunk_attributes c CHATGPT_ATTRIBUTES of Inl e \<Rightarrow> Inl e | Inr att \<Rightarrow>
        Inr \<lparr>dr_kind = ''message'', dr_text = ch_content c, dr_level = None, dr_parent = parent, dr_anchor = a,
             dr_attributes = att\<rparr>)))))))"

fun chatgpt_drafts :: "manifest \<Rightarrow> ((string \<times> string) \<times> string) list \<Rightarrow> nat \<Rightarrow> chunk list \<Rightarrow> draft list result" where
  "chatgpt_drafts manifest units n [] = Inr []"
| "chatgpt_drafts manifest units n (c # cs) =
     (case (text_field c ''conversation_id'', text_field c ''node_id'') of
        (Inr conv, Inr node) \<Rightarrow>
          (let units' = AList.update (conv, node) (unit_id (Suc n)) units in
           case chatgpt_draft manifest units' c of
             Inl e \<Rightarrow> Inl e
           | Inr d \<Rightarrow> map_sum id (\<lambda>ds. d # ds) (chatgpt_drafts manifest units' (Suc n) cs))
      | _ \<Rightarrow> Inl TypeError)"

definition normalize_chatgpt :: "texts \<Rightarrow> sealed_bundle \<Rightarrow> extraction result" where
  "normalize_chatgpt py b =
     (case chatgpt_transform py b of
        Inl e \<Rightarrow> Inl e
      | Inr cs \<Rightarrow>
          (case chatgpt_drafts (sb_manifest b) [] 0 cs of
             Inl e \<Rightarrow> Inl e
           | Inr ds \<Rightarrow>
               (case extraction_of b CHATGPT_NORMALIZER ds of
                  Inl e \<Rightarrow> if e = ExtractionFormatError then Inl NormalizeError else Inl e
                | Inr x \<Rightarrow> Inr x)))"

definition normalize :: "texts \<Rightarrow> sealed_bundle \<Rightarrow> extraction result" where
  "normalize py b =
     (case normalizer_for b of
        Inl e \<Rightarrow> Inl e
      | Inr Normalize_markdown \<Rightarrow> normalize_markdown b
      | Inr Normalize_chatgpt \<Rightarrow> normalize_chatgpt py b)"

section \<open>Pointers\<close>

text \<open>\<open>token.replace("~1", "/").replace("~0", "~")\<close>.\<close>

fun replace_pair :: "char \<Rightarrow> char \<Rightarrow> char \<Rightarrow> string \<Rightarrow> string" where
  "replace_pair a b c (x # y # s) = (if x = a \<and> y = b then c # replace_pair a b c s else x # replace_pair a b c (y # s))"
| "replace_pair a b c s = s"

definition unescape_token :: "string \<Rightarrow> string" where
  "unescape_token t = replace_pair (CHR ''~'') (CHR ''0'') (CHR ''~'') (replace_pair (CHR ''~'') (CHR ''1'') (CHR ''/'') t)"

lemma replace_pair_skip: "x \<noteq> a \<Longrightarrow> replace_pair a b c (x # s) = x # replace_pair a b c s"
  by (cases s) auto

lemma escape_token_Cons:
  "escape_token (c # t) = (if c = CHR ''~'' then ''~0'' else if c = CHR ''/'' then ''~1'' else [c]) @ escape_token t"
  by (simp add: escape_token_def)

lemma unescape_slashes:
  "replace_pair (CHR ''~'') (CHR ''1'') (CHR ''/'') (escape_token t) = concat (map (\<lambda>c. if c = CHR ''~'' then ''~0'' else [c]) t)"
proof (induction t)
  case (Cons c t)
  show ?case
  proof (cases "c = CHR ''~''")
    case True
    then show ?thesis using Cons by (simp add: escape_token_Cons replace_pair_skip)
  next
    case False
    then show ?thesis using Cons by (simp add: escape_token_Cons replace_pair_skip)
  qed
qed (simp add: escape_token_def)

lemma unescape_tildes:
  "replace_pair (CHR ''~'') (CHR ''0'') (CHR ''~'') (concat (map (\<lambda>c. if c = CHR ''~'' then ''~0'' else [c]) t)) = t"
  by (induction t) (simp_all add: replace_pair_skip)

lemma unescape_escape: "unescape_token (escape_token t) = t"
  by (simp add: unescape_token_def unescape_slashes unescape_tildes)

lemma escape_no_slash: "CHR ''/'' \<notin> set (escape_token t)"
  by (auto simp: escape_token_def)

end
