(* ===== verification/Refs.thy ===== *)
theory Refs
  imports Normalize Processes
begin

text \<open>
  References to evidence (\<open>stele/identity/refs.py\<close>): their types, their one spelling, and the strict
  parser.  The main result: formatting and parsing are inverse to each other on well-formed
  references, and nothing else parses.
\<close>

definition RefFormatError :: exn where
  "RefFormatError = OtherError ''RefFormatError''"

definition PREFIX :: string where "PREFIX = ''stele:''"

datatype ref =
    Source_ref string
  | Snapshot_ref snapshot_kind string
  | Record_ref string string
  | Observation_ref string string
  | Anchor_ref string string content_anchor
  | Event_ref int string

section \<open>Checks and texts\<close>

definition alnum :: "char \<Rightarrow> bool" where
  "alnum c \<longleftrightarrow> is_dec c \<or> (CHR ''A'' \<le> c \<and> c \<le> CHR ''Z'') \<or> (CHR ''a'' \<le> c \<and> c \<le> CHR ''z'')"

text \<open>\<open>_RECORD_ID.fullmatch\<close>.\<close>

definition is_record_id :: "string \<Rightarrow> bool" where
  "is_record_id s =
     (case s of [] \<Rightarrow> False
      | c # cs \<Rightarrow> alnum c \<and> list_all (\<lambda>d. alnum d \<or> d \<in> {CHR ''.'', CHR ''_'', CHR ''-''}) cs)"

text \<open>\<open>partition\<close> and \<open>rpartition\<close> at a character: what is before and after it.\<close>

definition partition_at :: "char \<Rightarrow> string \<Rightarrow> (string \<times> string) option" where
  "partition_at c s =
     (case dropWhile (\<lambda>d. d \<noteq> c) s of [] \<Rightarrow> None | _ # rest \<Rightarrow> Some (takeWhile (\<lambda>d. d \<noteq> c) s, rest))"

definition rpartition_at :: "char \<Rightarrow> string \<Rightarrow> (string \<times> string) option" where
  "rpartition_at c s = map_option (\<lambda>(a, b). (rev b, rev a)) (partition_at c (rev s))"

text \<open>\<open>partition\<close> at a text.\<close>

fun partition_text :: "string \<Rightarrow> string \<Rightarrow> (string \<times> string) option" where
  "partition_text sep [] = (if sep = [] then Some ([], []) else None)"
| "partition_text sep (c # s) =
     (if starts_with sep (c # s) then Some ([], drop (length sep) (c # s))
      else map_option (\<lambda>(a, b). (c # a, b)) (partition_text sep s))"

text \<open>\<open>_split_at\<close>.\<close>

definition split_at :: "string \<Rightarrow> (string \<times> string) result" where
  "split_at s = (case rpartition_at (CHR ''@'') s of None \<Rightarrow> Inl RefFormatError | Some p \<Rightarrow> Inr p)"

text \<open>
  \<open>_uint\<close>, and the text of an integer.  CPython converts at most 4300 decimal digits (its default
  limit, \<open>sys.int_info\<close>); beyond it \<open>int\<close> and \<open>str\<close> raise a plain \<open>ValueError\<close>.
\<close>

definition MAX_STR_DIGITS :: nat where "MAX_STR_DIGITS = 4300"

definition uint_text :: "string \<Rightarrow> int result" where
  "uint_text s =
     (if s = [] \<or> \<not> list_all is_dec s \<or> (s \<noteq> ''0'' \<and> hd s = CHR ''0'') then Inl RefFormatError
      else if MAX_STR_DIGITS < length s then Inl ValueError
      else Inr (int (read_nat s)))"

definition int_str :: "int \<Rightarrow> string result" where
  "int_str n =
     (if MAX_STR_DIGITS < length (show_nat (nat \<bar>n\<bar>)) then Inl ValueError else Inr (show_int n))"

section \<open>Percent encoding\<close>

text \<open>\<open>quote(s, safe)\<close>, byte for byte.\<close>

definition upper_hex :: "nat \<Rightarrow> char" where
  "upper_hex n = (if n < 10 then char_of (48 + n) else char_of (55 + n))"

definition quote_char :: "char set \<Rightarrow> char \<Rightarrow> string" where
  "quote_char safe c =
     (if alnum c \<or> c \<in> {CHR ''_'', CHR ''.'', CHR ''-'', CHR ''~''} \<or> c \<in> safe then [c]
      else [CHR ''%'', upper_hex (code c div 16), upper_hex (code c mod 16)])"

definition quote_text :: "char set \<Rightarrow> string \<Rightarrow> string" where
  "quote_text safe s = concat (map (quote_char safe) s)"

text \<open>\<open>unquote_to_bytes\<close>.\<close>

fun unquote_bytes :: "string \<Rightarrow> string" where
  "unquote_bytes (p # a # b # s) =
     (case (if p = CHR ''%'' then hex_val a else None, hex_val b) of
        (Some x, Some y) \<Rightarrow> char_of (16 * x + y) # unquote_bytes s
      | _ \<Rightarrow> p # unquote_bytes (a # b # s))"
| "unquote_bytes s = s"

text \<open>\<open>unquote\<close>: each run of ASCII characters is decoded on its own, invalid bytes replaced.\<close>

function unquote_text :: "string \<Rightarrow> string" where
  "unquote_text s =
     (if s = [] then []
      else if code (hd s) < (128 :: nat)
      then decode_replace (unquote_bytes (takeWhile (\<lambda>c. code c < (128 :: nat)) s))
        @ unquote_text (dropWhile (\<lambda>c. code c < (128 :: nat)) s)
      else takeWhile (\<lambda>c. \<not> code c < (128 :: nat)) s @ unquote_text (dropWhile (\<lambda>c. \<not> code c < (128 :: nat)) s))"
  by pat_completeness auto
termination
proof (relation "measure length")
  fix s :: string
  assume s: "s \<noteq> []" 
  then obtain c cs where c: "s = c # cs" by (cases s) auto
  show "(dropWhile (\<lambda>c. code c < (128 :: nat)) s, s) \<in> measure length" if "code (hd s) < (128 :: nat)"
    using that length_dropWhile_le [of "\<lambda>c. code c < (128 :: nat)" cs] by (simp add: c)
  show "(dropWhile (\<lambda>c. \<not> code c < (128 :: nat)) s, s) \<in> measure length" if "\<not> code (hd s) < (128 :: nat)"
    using that length_dropWhile_le [of "\<lambda>c. \<not> code c < (128 :: nat)" cs] by (simp add: c)
qed simp

declare unquote_text.simps [simp del]

section \<open>The one spelling\<close>

text \<open>What \<open>__post_init__\<close> checks; an anchor was checked when it was made.\<close>

definition check_ref :: "ref \<Rightarrow> ref result" where
  "check_ref r =
     (let ok =
        (case r of
           Source_ref sid \<Rightarrow> is_digest sid
         | Snapshot_ref k d \<Rightarrow> is_digest d
         | Record_ref rid h \<Rightarrow> is_record_id rid \<and> is_digest h
         | Observation_ref rid d \<Rightarrow> is_record_id rid \<and> is_digest d
         | Anchor_ref rid h a \<Rightarrow> is_record_id rid \<and> is_digest h
         | Event_ref n h \<Rightarrow> 1 \<le> n \<and> is_digest h)
      in if ok then Inr r else Inl RefFormatError)"

definition fragment :: "place \<Rightarrow> string result" where
  "fragment p =
     (case p of
        Bytes s e \<Rightarrow>
          (case int_str s of Inl x \<Rightarrow> Inl x | Inr i \<Rightarrow>
          (case int_str e of Inl x \<Rightarrow> Inl x | Inr j \<Rightarrow> Inr (''bytes='' @ i @ ''-'' @ j)))
      | Pointer ptr name \<Rightarrow>
          (if utf8_ok ptr \<and> utf8_ok name
           then Inr (''pointer='' @ quote_text {CHR ''/''} ptr @ ''&render='' @ quote_text {} name)
           else Inl UnicodeError))"

text \<open>\<open>str(ref)\<close>; quoting a text with a lone surrogate raises.\<close>

definition anchor_str :: "string \<Rightarrow> string \<Rightarrow> content_anchor \<Rightarrow> string result" where
  "anchor_str rid h a =
     (case fragment (an_place a) of Inl x \<Rightarrow> Inl x | Inr f \<Rightarrow>
      if utf8_ok (an_artifact a)
      then Inr (PREFIX @ ''anchor:'' @ rid @ ''@'' @ h @ ''/'' @ quote_text {CHR ''/''} (an_artifact a) @ ''@''
             @ an_digest a @ ''#'' @ f)
      else Inl UnicodeError)"

definition ref_str :: "ref \<Rightarrow> string result" where
  "ref_str r =
     (case r of
        Source_ref sid \<Rightarrow> Inr (PREFIX @ ''source:'' @ sid)
      | Snapshot_ref k d \<Rightarrow> Inr (PREFIX @ ''snapshot:'' @ kind_value k @ '':'' @ d)
      | Record_ref rid h \<Rightarrow> Inr (PREFIX @ ''record:'' @ rid @ ''@'' @ h)
      | Observation_ref rid d \<Rightarrow> Inr (PREFIX @ ''observation:'' @ rid @ ''@'' @ d)
      | Anchor_ref rid h a \<Rightarrow> anchor_str rid h a
      | Event_ref n h \<Rightarrow> map_sum id (\<lambda>i. PREFIX @ ''event:'' @ i @ ''@'' @ h) (int_str n))"

section \<open>Parsing\<close>

text \<open>The anchor of a fragment.  \<open>except ExtractionFormatError\<close> makes its errors format errors.\<close>

definition parse_fragment :: "string \<Rightarrow> string \<Rightarrow> string \<Rightarrow> content_anchor result" where
  "parse_fragment artifact digest frag =
     (let made =
        (if starts_with ''bytes='' frag
         then (case partition_at (CHR ''-'') (drop 6 frag) of
                 None \<Rightarrow> Inl RefFormatError
               | Some (s, e) \<Rightarrow>
                   (case uint_text s of Inl x \<Rightarrow> Inl x | Inr i \<Rightarrow>
                   (case uint_text e of Inl x \<Rightarrow> Inl x | Inr j \<Rightarrow>
                      make_anchor (JStr (unquote_text artifact)) (JStr digest) (Some (JInt i, JInt j)) JNull JNull)))
         else if starts_with ''pointer='' frag
         then (case partition_text ''&render='' (drop 8 frag) of
                 None \<Rightarrow> Inl RefFormatError
               | Some (p, name) \<Rightarrow>
                   make_anchor (JStr (unquote_text artifact)) (JStr digest) None (JStr (unquote_text p)) (JStr (unquote_text name)))
         else Inl RefFormatError)
      in case made of Inl x \<Rightarrow> Inl (if x = ExtractionFormatError then RefFormatError else x) | Inr a \<Rightarrow> Inr a)"

definition parse_anchor :: "string \<Rightarrow> ref result" where
  "parse_anchor rest =
     (case partition_at (CHR ''#'') rest of None \<Rightarrow> Inl RefFormatError | Some (location, frag) \<Rightarrow>
     (case partition_at (CHR ''/'') location of None \<Rightarrow> Inl RefFormatError | Some (record_part, artifact_part) \<Rightarrow>
     (case split_at record_part of Inl x \<Rightarrow> Inl x | Inr (rid, h) \<Rightarrow>
     (case check_ref (Record_ref rid h) of Inl x \<Rightarrow> Inl x | Inr _ \<Rightarrow>
     (case split_at artifact_part of Inl x \<Rightarrow> Inl x | Inr (artifact, digest) \<Rightarrow>
     (case parse_fragment artifact digest frag of Inl x \<Rightarrow> Inl x | Inr a \<Rightarrow> Inr (Anchor_ref rid h a)))))))"

definition parse_kind :: "string \<Rightarrow> string \<Rightarrow> ref result" where
  "parse_kind kind rest =
     (if kind = ''source'' then check_ref (Source_ref rest)
      else if kind = ''snapshot''
      then (case partition_at (CHR '':'') rest of
              None \<Rightarrow> Inl RefFormatError
            | Some (k, d) \<Rightarrow>
                (case kind_of_value k of Inl _ \<Rightarrow> Inl RefFormatError | Inr sk \<Rightarrow> check_ref (Snapshot_ref sk d)))
      else if kind = ''record'' then (case split_at rest of Inl x \<Rightarrow> Inl x | Inr (rid, h) \<Rightarrow> check_ref (Record_ref rid h))
      else if kind = ''observation'' then (case split_at rest of Inl x \<Rightarrow> Inl x | Inr (rid, d) \<Rightarrow> check_ref (Observation_ref rid d))
      else if kind = ''anchor'' then parse_anchor rest
      else if kind = ''event''
      then (case split_at rest of Inl x \<Rightarrow> Inl x | Inr (n, h) \<Rightarrow>
           (case uint_text n of Inl x \<Rightarrow> Inl x | Inr i \<Rightarrow> check_ref (Event_ref i h)))
      else Inl RefFormatError)"

definition parse_ref :: "string \<Rightarrow> ref result" where
  "parse_ref text =
     (if \<not> starts_with PREFIX text then Inl RefFormatError
      else (case partition_at (CHR '':'') (drop (length PREFIX) text) of
              None \<Rightarrow> Inl RefFormatError
            | Some (kind, rest) \<Rightarrow>
                (case parse_kind kind rest of
                   Inl x \<Rightarrow> Inl x
                 | Inr r \<Rightarrow> (case ref_str r of Inl x \<Rightarrow> Inl x | Inr s \<Rightarrow> if s \<noteq> text then Inl RefFormatError else Inr r))))"

section \<open>References of existing objects\<close>

record observation =
  ob_record_id :: string
  ob_source_id :: "string option"
  ob_kind :: snapshot_kind
  ob_digest :: string
  ob_observed_at :: string

definition record_ref :: "artifact_record \<Rightarrow> ref result" where
  "record_ref r = check_ref (Record_ref (ar_record_id r) (ar_artifact_hash r))"

text \<open>
  \<open>observation_of\<close>; the record's time of creation is ISO 8601, as timestamps are texts here.
\<close>

definition observation_of :: "artifact_record \<Rightarrow> observation result" where
  "observation_of r =
     (case (ar_source_hash r, ar_source_kind r) of
        (Some h, Some k) \<Rightarrow>
          (case check_ref (Snapshot_ref k h) of Inl x \<Rightarrow> Inl x | Inr _ \<Rightarrow>
             if is_record_id (ar_record_id r) \<and> (case ar_source_id r of None \<Rightarrow> True | Some s \<Rightarrow> is_digest s)
             then Inr \<lparr>ob_record_id = ar_record_id r, ob_source_id = ar_source_id r, ob_kind = k, ob_digest = h,
                       ob_observed_at = ar_created_at r\<rparr>
             else Inl RefFormatError)
      | _ \<Rightarrow> Inl ValueError)"

definition observation_obj :: "observation \<Rightarrow> (string \<times> json) list" where
  "observation_obj ob =
     [(''schema'', JStr ''stele.observation''), (''schema_version'', JInt 1), (''record_id'', JStr (ob_record_id ob)),
      (''source_id'', opt_str (ob_source_id ob)),
      (''snapshot'', JObj [(''kind'', JStr (kind_value (ob_kind ob))), (''digest'', JStr (ob_digest ob))]),
      (''observed_at'', JStr (ob_observed_at ob))]"

definition observation_digest :: "observation \<Rightarrow> string result" where
  "observation_digest ob = map_sum id sha256 (canonical_json (JObj (observation_obj ob)))"

definition observation_ref :: "observation \<Rightarrow> ref result" where
  "observation_ref ob =
     (case observation_digest ob of Inl x \<Rightarrow> Inl x | Inr d \<Rightarrow> check_ref (Observation_ref (ob_record_id ob) d))"

definition anchor_ref :: "extraction \<Rightarrow> unit_of_content \<Rightarrow> ref result" where
  "anchor_ref x u = check_ref (Anchor_ref (ex_record_id x) (ex_artifact_hash x) (un_anchor u))"

definition event_ref :: "event_row \<Rightarrow> ref result" where
  "event_ref e = check_ref (Event_ref (ev_seq e) (ev_hash e))"

section \<open>Formatting and parsing are inverse\<close>

definition ref_ok :: "ref \<Rightarrow> bool" where
  "ref_ok r \<longleftrightarrow> check_ref r = Inr r \<and> (case r of Anchor_ref rid h a \<Rightarrow> anchor_ok a | _ \<Rightarrow> True)"

lemma partition_at_first: "c \<notin> set a \<Longrightarrow> partition_at c (a @ c # b) = Some (a, b)"
  unfolding partition_at_def by (subst dropWhile_append2, blast, subst takeWhile_append2, blast) simp

lemma rpartition_at_last: "c \<notin> set b \<Longrightarrow> rpartition_at c (a @ c # b) = Some (a, b)"
  using partition_at_first [of c "rev b" "rev a"] by (simp add: rpartition_at_def)

lemma split_at_last: "CHR ''@'' \<notin> set b \<Longrightarrow> split_at (a @ CHR ''@'' # b) = Inr (a, b)"
  by (simp add: split_at_def rpartition_at_last)

lemma partition_text_first:
  "sep = c # t \<Longrightarrow> c \<notin> set a \<Longrightarrow> partition_text sep (a @ sep @ b) = Some (a, b)"
  by (induction a) (auto simp: starts_with_def)

lemma not_alnum [simp]:
  "\<not> alnum (CHR ''@'')" "\<not> alnum (CHR ''#'')" "\<not> alnum (CHR ''/'')" "\<not> alnum (CHR '':'')" "\<not> alnum (CHR ''&'')"
  "\<not> alnum (CHR ''%'')" "\<not> alnum (CHR ''-'')" "\<not> is_dec (CHR ''-'')" "\<not> is_dec (CHR ''@'')" "\<not> is_dec (CHR ''#'')"
  by (simp_all add: alnum_def is_dec_def)

lemma digest_chars: "is_digest d \<Longrightarrow> c \<in> set d \<Longrightarrow> is_hex c"
  by (auto simp: is_digest_def list_all_iff)

lemma not_hex [simp]:
  "\<not> is_hex (CHR ''@'')" "\<not> is_hex (CHR ''#'')" "\<not> is_hex (CHR ''/'')" "\<not> is_hex (CHR '':'')"
  by (simp_all add: is_hex_def)

lemma record_id_chars: "is_record_id s \<Longrightarrow> c \<in> set s \<Longrightarrow> alnum c \<or> c \<in> {CHR ''.'', CHR ''_'', CHR ''-''}"
  by (cases s) (auto simp: is_record_id_def list_all_iff)

lemma separators:
  "is_digest d \<Longrightarrow> CHR ''@'' \<notin> set d" "is_digest d \<Longrightarrow> CHR ''#'' \<notin> set d" "is_digest d \<Longrightarrow> CHR ''/'' \<notin> set d"
  "is_record_id r \<Longrightarrow> CHR ''@'' \<notin> set r" "is_record_id r \<Longrightarrow> CHR ''#'' \<notin> set r" "is_record_id r \<Longrightarrow> CHR ''/'' \<notin> set r"
  using digest_chars record_id_chars by fastforce+

lemma uint_show: "0 \<le> n \<Longrightarrow> int_str n = Inr i \<Longrightarrow> i = show_int n \<and> uint_text i = Inr n"
proof -
  assume n: "0 \<le> n" and i: "int_str n = Inr i"
  then have sh: "i = show_nat (nat n)" "length i \<le> MAX_STR_DIGITS" "i = show_int n"
    by (auto simp: int_str_def show_int_def split: if_split_asm)
  have "show_nat (nat n) = ''0'' \<or> hd (show_nat (nat n)) \<noteq> CHR ''0''"
    using hd_show_nat [of "nat n"] show_nat_small [of "nat n"] by (cases "nat n = 0") (auto simp: dec_digit_def)
  moreover have "list_all is_dec (show_nat (nat n))" using show_nat_dec by (auto simp: list_all_iff)
  ultimately show ?thesis using n sh by (auto simp: uint_text_def show_nat_nonempty read_show_nat)
qed

lemma show_int_chars: "0 \<le> n \<Longrightarrow> c \<in> set (show_int n) \<Longrightarrow> is_dec c"
  by (auto simp: show_int_def dest: show_nat_dec)

lemma upper_hex_val: "n < 16 \<Longrightarrow> hex_val (upper_hex n) = Some n"
  by (auto simp: upper_hex_def hex_val_def Let_def)

lemma upper_hex_alnum: "n < 16 \<Longrightarrow> alnum (upper_hex n)"
  by (auto simp: upper_hex_def alnum_def is_dec_def less_eq_char_def)

lemma nibbles: "code c div 16 < (16 :: nat)" "code c mod 16 < (16 :: nat)"
  using nat_of_char_less_256 [of c] by (simp_all add: div_less_iff_less_mult)

lemma quote_chars: "c \<in> set (quote_text safe s) \<Longrightarrow> alnum c \<or> c \<in> {CHR ''_'', CHR ''.'', CHR ''-'', CHR ''~'', CHR ''%''} \<or> c \<in> safe"
  by (auto simp: quote_text_def quote_char_def upper_hex_alnum nibbles split: if_split_asm)

lemma unquote_literal: "p \<noteq> CHR ''%'' \<Longrightarrow> unquote_bytes (p # s) = p # unquote_bytes s"
  by (cases s; cases "tl s") (auto split: option.split)

lemma unquote_quote_char: "CHR ''%'' \<notin> safe \<Longrightarrow> unquote_bytes (quote_char safe c @ s) = c # unquote_bytes s"
proof (cases "quote_char safe c = [c]")
  case True
  moreover assume "CHR ''%'' \<notin> safe"
  ultimately have "c \<noteq> CHR ''%''" by (auto simp: quote_char_def split: if_split_asm)
  then show ?thesis using True by (simp add: unquote_literal)
next
  case False
  then have "quote_char safe c = [CHR ''%'', upper_hex (code c div 16), upper_hex (code c mod 16)]"
    by (auto simp: quote_char_def split: if_split_asm)
  moreover note nibbles [of c]
  moreover have "char_of (16 * (code c div 16) + code c mod 16 :: nat) = c" by (simp del: of_char_mod_256)
  ultimately show ?thesis by (simp add: upper_hex_val)
qed

lemma unquote_quote_bytes: "CHR ''%'' \<notin> safe \<Longrightarrow> unquote_bytes (quote_text safe s) = s"
  by (induction s) (simp_all add: quote_text_def unquote_quote_char)

lemma unquote_quote:
  assumes "utf8_ok s" "safe \<subseteq> {CHR ''/''}"
  shows "unquote_text (quote_text safe s) = s"
proof -
  let ?q = "quote_text safe s"
  have ascii: "code c < (128 :: nat)" if "c \<in> set ?q" for c
  proof -
    have "alnum c \<Longrightarrow> code c < (128 :: nat)" by (auto simp: alnum_def is_dec_def less_eq_char_def)
    then show ?thesis using quote_chars [OF that] assms(2) by auto
  qed
  have "unquote_bytes ?q = s" by (rule unquote_quote_bytes) (use assms(2) in auto)
  then show ?thesis
  proof (cases "?q = []")
    case False
    have whole: "takeWhile (\<lambda>c. code c < (128 :: nat)) ?q = ?q" "dropWhile (\<lambda>c. code c < (128 :: nat)) ?q = []"
      using ascii by simp_all
    have "code (hd ?q) < (128 :: nat)" using False ascii by simp
    then have "unquote_text ?q = decode_replace (unquote_bytes ?q) @ unquote_text []"
      by (subst unquote_text.simps) (simp only: False if_True if_False whole)
    then show ?thesis using \<open>unquote_bytes ?q = s\<close> decode_replace_valid [OF assms(1)] by (simp add: unquote_text.simps [of "[]"])
  qed (simp add: unquote_text.simps [of "[]"])
qed

lemma make_anchor_bytes:
  "anchor_ok \<lparr>an_artifact = a, an_digest = d, an_place = Bytes s e\<rparr> \<Longrightarrow>
   make_anchor (JStr a) (JStr d) (Some (JInt s, JInt e)) JNull JNull = Inr \<lparr>an_artifact = a, an_digest = d, an_place = Bytes s e\<rparr>"
  by (simp add: make_anchor_def anchor_ok_def)

lemma make_anchor_pointer:
  "anchor_ok \<lparr>an_artifact = a, an_digest = d, an_place = Pointer p r\<rparr> \<Longrightarrow>
   make_anchor (JStr a) (JStr d) None (JStr p) (JStr r) = Inr \<lparr>an_artifact = a, an_digest = d, an_place = Pointer p r\<rparr>"
  by (simp add: make_anchor_def anchor_ok_def)

lemma parse_fragment_ok: "parse_fragment artifact digest frag = Inr a \<Longrightarrow> anchor_ok a"
  by (auto simp: parse_fragment_def Let_def intro: make_anchor_ok split: sum.split_asm if_split_asm option.split_asm prod.split_asm)

lemma check_ref_Inr: "check_ref r = Inr r' \<Longrightarrow> r' = r \<and> check_ref r = Inr r"
  by (simp add: check_ref_def Let_def split: if_split_asm)

lemma parse_anchor_ok: "parse_anchor rest = Inr r \<Longrightarrow> ref_ok r"
  by (auto simp: parse_anchor_def ref_ok_def check_ref_def Let_def dest: parse_fragment_ok
      split: sum.split_asm if_split_asm option.split_asm prod.split_asm)

lemma check_ref_ok: "check_ref r = Inr r' \<Longrightarrow> (case r of Anchor_ref rid h a \<Rightarrow> False | _ \<Rightarrow> True) \<Longrightarrow> ref_ok r'"
  using check_ref_Inr [of r r'] by (auto simp: ref_ok_def split: ref.splits)

lemma parse_kind_ok: "parse_kind kind rest = Inr r \<Longrightarrow> ref_ok r"
  unfolding parse_kind_def
  by (simp split: if_split_asm sum.split_asm option.split_asm prod.split_asm;
      (erule parse_anchor_ok | (erule check_ref_ok, simp)))

lemma partition_kind: "CHR '':'' \<notin> set kind \<Longrightarrow> partition_at (CHR '':'') (kind @ '':'' @ rest) = Some (kind, rest)"
  using partition_at_first by simp

lemma parse_prefixed:
  assumes "CHR '':'' \<notin> set kind" "parse_kind kind rest = Inr r" "ref_str r = Inr (PREFIX @ kind @ '':'' @ rest)"
  shows "parse_ref (PREFIX @ kind @ '':'' @ rest) = Inr r"
  using assms partition_kind [OF assms(1)] by (simp add: parse_ref_def starts_with_def)

lemma quoted_free:
  "c \<in> {CHR ''@'', CHR ''#'', CHR ''&''} \<Longrightarrow> safe \<subseteq> {CHR ''/''} \<Longrightarrow> c \<notin> set (quote_text safe s)"
  using quote_chars [of c safe s] by auto

lemma parse_fragment_bytes:
  assumes "anchor_ok a" "utf8_ok (an_artifact a)" "an_place a = Bytes i j" "fragment (an_place a) = Inr f"
  shows "parse_fragment (quote_text {CHR ''/''} (an_artifact a)) (an_digest a) f = Inr a"
proof -
  have ij: "0 \<le> i" "0 \<le> j" using assms by (simp_all add: anchor_ok_def)
  obtain s e where se: "int_str i = Inr s" "int_str j = Inr e" "f = ''bytes='' @ s @ ''-'' @ e"
    using assms(3,4) by (auto simp: fragment_def split: sum.split_asm)
  have ns: "uint_text s = Inr i" "uint_text e = Inr j" "s = show_int i"
    using uint_show [OF ij(1) se(1)] uint_show [OF ij(2) se(2)] by auto
  have "CHR ''-'' \<notin> set s" using ns(3) show_int_chars [OF ij(1)] by fastforce
  then have "partition_at (CHR ''-'') (drop 6 f) = Some (s, e)" by (simp add: se partition_at_first)
  moreover have "starts_with ''bytes='' f" by (simp add: se starts_with_def)
  moreover have "make_anchor (JStr (an_artifact a)) (JStr (an_digest a)) (Some (JInt i, JInt j)) JNull JNull = Inr a"
    using make_anchor_bytes [of "an_artifact a" "an_digest a" i j] assms(1,3) by (cases a) simp
  ultimately show ?thesis using ns(1,2) assms(2) by (simp add: parse_fragment_def unquote_quote)
qed

lemma parse_fragment_pointer:
  assumes "anchor_ok a" "utf8_ok (an_artifact a)" "an_place a = Pointer p r" "fragment (an_place a) = Inr f"
  shows "parse_fragment (quote_text {CHR ''/''} (an_artifact a)) (an_digest a) f = Inr a"
proof -
  have f: "utf8_ok p" "utf8_ok r" "f = ''pointer='' @ quote_text {CHR ''/''} p @ ''&render='' @ quote_text {} r"
    using assms(3,4) by (auto simp: fragment_def split: if_split_asm)
  have "CHR ''&'' \<notin> set (quote_text {CHR ''/''} p)" by (rule quoted_free) auto
  then have "partition_text ''&render='' (drop 8 f) = Some (quote_text {CHR ''/''} p, quote_text {} r)"
    using partition_text_first [of "''&render=''" "CHR ''&''" "''render=''" "quote_text {CHR ''/''} p" "quote_text {} r"] by (simp add: f)
  moreover have "starts_with ''pointer='' f" "\<not> starts_with ''bytes='' f" by (simp_all add: f starts_with_def)
  moreover have "make_anchor (JStr (an_artifact a)) (JStr (an_digest a)) None (JStr p) (JStr r) = Inr a"
    using make_anchor_pointer [of "an_artifact a" "an_digest a" p r] assms(1,3) by (cases a) simp
  ultimately show ?thesis using f assms(2) by (simp add: parse_fragment_def unquote_quote)
qed

lemma parse_anchor_str:
  assumes ok: "is_record_id rid" "is_digest h" "anchor_ok a" and s: "anchor_str rid h a = Inr s"
  shows "\<exists>rest. s = PREFIX @ ''anchor'' @ '':'' @ rest \<and> parse_anchor rest = Inr (Anchor_ref rid h a)"
proof -
  let ?q = "quote_text {CHR ''/''} (an_artifact a)"
  obtain f where f: "fragment (an_place a) = Inr f" and u: "utf8_ok (an_artifact a)"
    and sf: "s = PREFIX @ ''anchor:'' @ rid @ ''@'' @ h @ ''/'' @ ?q @ ''@'' @ an_digest a @ ''#'' @ f"
    using s by (auto simp: anchor_str_def split: sum.split_asm if_split_asm)
  have d: "is_digest (an_digest a)" using ok(3) by (simp add: anchor_ok_def)
  have q: "CHR ''@'' \<notin> set ?q" "CHR ''#'' \<notin> set ?q" by (rule quoted_free; auto)+
  have p1: "partition_at (CHR ''#'') ((rid @ ''@'' @ h @ ''/'' @ ?q @ ''@'' @ an_digest a) @ CHR ''#'' # f)
      = Some (rid @ ''@'' @ h @ ''/'' @ ?q @ ''@'' @ an_digest a, f)"
    by (rule partition_at_first) (use separators ok d q in auto)
  have p2: "partition_at (CHR ''/'') ((rid @ ''@'' @ h) @ CHR ''/'' # ?q @ ''@'' @ an_digest a) = Some (rid @ ''@'' @ h, ?q @ ''@'' @ an_digest a)"
    by (rule partition_at_first) (use separators ok in auto)
  have p3: "split_at (rid @ CHR ''@'' # h) = Inr (rid, h)" "split_at (?q @ CHR ''@'' # an_digest a) = Inr (?q, an_digest a)"
    using separators ok d by (simp_all add: split_at_last)
  have p4: "parse_fragment ?q (an_digest a) f = Inr a"
    using parse_fragment_bytes [OF ok(3) u _ f] parse_fragment_pointer [OF ok(3) u _ f] by (cases "an_place a") auto
  have "check_ref (Record_ref rid h) = Inr (Record_ref rid h)" using ok by (simp add: check_ref_def)
  then have "parse_anchor (rid @ ''@'' @ h @ ''/'' @ ?q @ ''@'' @ an_digest a @ ''#'' @ f) = Inr (Anchor_ref rid h a)"
    using p1 p2 p3 p4 by (simp add: parse_anchor_def)
  then show ?thesis using sf by auto
qed

lemma parse_ref_str:
  assumes "ref_ok r" "ref_str r = Inr s"
  shows "parse_ref s = Inr r"
proof -
  have check: "check_ref r = Inr r" using assms(1) by (simp add: ref_ok_def)
  have "\<exists>kind rest. CHR '':'' \<notin> set kind \<and> s = PREFIX @ kind @ '':'' @ rest \<and> parse_kind kind rest = Inr r"
  proof (cases r)
    case (Source_ref d)
    then show ?thesis using assms(2) check
      by (intro exI [of _ "''source''"] exI [of _ d]) (auto simp: ref_str_def parse_kind_def)
  next
    case (Snapshot_ref k d)
    moreover have "partition_at (CHR '':'') (kind_value k @ CHR '':'' # d) = Some (kind_value k, d)"
      by (rule partition_at_first) (cases k; simp)
    ultimately show ?thesis using assms(2) check
      by (intro exI [of _ "''snapshot''"] exI [of _ "kind_value k @ '':'' @ d"])
        (auto simp: ref_str_def parse_kind_def kind_of_kind_value)
  next
    case (Record_ref rid h)
    then have "is_digest h" using check by (auto simp: check_ref_def split: if_split_asm)
    then have "split_at (rid @ CHR ''@'' # h) = Inr (rid, h)" using separators by (simp add: split_at_last)
    then show ?thesis using assms(2) check Record_ref
      by (intro exI [of _ "''record''"] exI [of _ "rid @ ''@'' @ h"]) (auto simp: ref_str_def parse_kind_def)
  next
    case (Observation_ref rid h)
    then have "is_digest h" using check by (auto simp: check_ref_def split: if_split_asm)
    then have "split_at (rid @ CHR ''@'' # h) = Inr (rid, h)" using separators by (simp add: split_at_last)
    then show ?thesis using assms(2) check Observation_ref
      by (intro exI [of _ "''observation''"] exI [of _ "rid @ ''@'' @ h"]) (auto simp: ref_str_def parse_kind_def)
  next
    case (Anchor_ref rid h a)
    then have "is_record_id rid" "is_digest h" "anchor_ok a"
      using check assms(1) by (auto simp: check_ref_def ref_ok_def split: if_split_asm)
    moreover have "anchor_str rid h a = Inr s" using assms(2) Anchor_ref by (simp add: ref_str_def)
    ultimately obtain rest where rest: "s = PREFIX @ ''anchor'' @ '':'' @ rest" "parse_anchor rest = Inr r"
      using parse_anchor_str [of rid h a s] Anchor_ref by blast
    then show ?thesis by (intro exI [of _ "''anchor''"] exI [of _ rest]) (auto simp: parse_kind_def)
  next
    case (Event_ref n h)
    then have nh: "0 \<le> n" "is_digest h" using check by (auto simp: check_ref_def split: if_split_asm)
    obtain i where i: "int_str n = Inr i" "s = PREFIX @ ''event:'' @ i @ ''@'' @ h"
      using assms(2) Event_ref by (auto simp: ref_str_def split: sum.split_asm) (cases "int_str n"; auto)
    have "split_at (i @ CHR ''@'' # h) = Inr (i, h)" using separators nh by (simp add: split_at_last)
    moreover have "uint_text i = Inr n" using uint_show [OF nh(1) i(1)] by blast
    ultimately show ?thesis using i check Event_ref
      by (intro exI [of _ "''event''"] exI [of _ "i @ ''@'' @ h"]) (auto simp: parse_kind_def)
  qed
  then show ?thesis using parse_prefixed assms(2) by metis
qed

lemma parse_ref_sound: "parse_ref s = Inr r \<Longrightarrow> ref_ok r \<and> ref_str r = Inr s"
  by (auto simp: parse_ref_def intro: parse_kind_ok split: if_split_asm option.split_asm prod.split_asm sum.split_asm)

text \<open>
  C37. A reference has one spelling: a text parses to a reference exactly when the reference is well
  formed and formatting it gives that very text, byte for byte.
\<close>

theorem ref_parse_exact: "parse_ref s = Inr r \<longleftrightarrow> ref_ok r \<and> ref_str r = Inr s"
  using parse_ref_str parse_ref_sound by blast

end
