(* ===== verification/Resolver.thy ===== *)
theory Resolver
  imports Normalize
begin

text \<open>
  The trusted resolver (\<open>stele/extraction/resolver.py\<close>): what an anchor says according to the
  evidence, and the check of an extraction against it.  The main results: the resolver's cache
  does not show; the check accepts exactly the extractions whose every unit quotes its evidence;
  and what the normalizers make always passes it.
\<close>

definition ResolutionError :: exn where
  "ResolutionError = OtherError ''ResolutionError''"

section \<open>Renderers and pointers\<close>

definition render_json_string :: "json \<Rightarrow> string result" where
  "render_json_string v = (case v of JStr s \<Rightarrow> Inr s | _ \<Rightarrow> Inl ResolutionError)"

definition render_chatgpt :: "texts \<Rightarrow> json \<Rightarrow> string result" where
  "render_chatgpt py v = (case v of JObj kvs \<Rightarrow> render py kvs | _ \<Rightarrow> Inl ResolutionError)"

text \<open>\<open>RENDERERS.get(name)\<close>.\<close>

definition renderer :: "texts \<Rightarrow> string \<Rightarrow> (json \<Rightarrow> string result) option" where
  "renderer py name =
     (if name = ''json-string'' then Some render_json_string
      else if name = CHATGPT_RENDERER then Some (render_chatgpt py)
      else None)"

fun descend :: "json \<Rightarrow> string list \<Rightarrow> json result" where
  "descend v [] = Inr v"
| "descend v (raw # tokens) =
     (let token = unescape_token raw in
      case v of
        JObj kvs \<Rightarrow> (case map_of kvs token of None \<Rightarrow> Inl ResolutionError | Some w \<Rightarrow> descend w tokens)
      | JArr vs \<Rightarrow>
          if token = [] \<or> \<not> list_all is_dec token \<or> (token \<noteq> ''0'' \<and> starts_with ''0'' token) then Inl ResolutionError
          else if read_nat token < length vs then descend (vs ! read_nat token) tokens
          else Inl ResolutionError
      | _ \<Rightarrow> Inl ResolutionError)"

definition resolve_pointer :: "json \<Rightarrow> string \<Rightarrow> json result" where
  "resolve_pointer doc pointer = (if pointer = [] then Inr doc else descend doc (split_on (CHR ''/'') (tl pointer)))"

section \<open>Resolving against a bundle\<close>

record artifact_cache =
  ac_digest :: "string option"
  ac_data :: string
  ac_parsed :: "json option"

definition empty_cache :: artifact_cache where
  "empty_cache = \<lparr>ac_digest = None, ac_data = [], ac_parsed = None\<rparr>"

text \<open>\<open>_bytes\<close> and \<open>_json\<close>: what they give, and the cache after them.\<close>

definition cached_bytes :: "sealed_bundle \<Rightarrow> content_anchor \<Rightarrow> artifact_cache \<Rightarrow> string result \<times> artifact_cache" where
  "cached_bytes b a c =
     (case map_of (sb_manifest b) (an_artifact a) of
        None \<Rightarrow> (Inl ResolutionError, c)
      | Some digest \<Rightarrow>
          if digest \<noteq> an_digest a then (Inl ResolutionError, c)
          else if ac_digest c = Some digest then (Inr (ac_data c), c)
          else (case bundle_read b (an_artifact a) of
             Inl e \<Rightarrow> (Inl (if is_archive_error e then ResolutionError else e), c)
           | Inr data \<Rightarrow> (Inr data, \<lparr>ac_digest = Some digest, ac_data = data, ac_parsed = None\<rparr>)))"

definition cached_json :: "sealed_bundle \<Rightarrow> content_anchor \<Rightarrow> artifact_cache \<Rightarrow> json result \<times> artifact_cache" where
  "cached_json b a c =
     (case cached_bytes b a c of
        (Inl e, c') \<Rightarrow> (Inl e, c')
      | (Inr data, c') \<Rightarrow>
          (case ac_parsed c' of
             Some v \<Rightarrow> (Inr v, c')
           | None \<Rightarrow>
               (case loads_bytes data of
                  None \<Rightarrow> (Inl ResolutionError, c')
                | Some v \<Rightarrow> (Inr v, c'\<lparr>ac_parsed := Some v\<rparr>))))"

definition cut :: "int \<Rightarrow> int \<Rightarrow> string \<Rightarrow> string result" where
  "cut s e data =
     (if e > int (length data) then Inl ResolutionError
      else let t = slice (nat s) (nat e) data in if utf8_ok t then Inr t else Inl ResolutionError)"

definition resolve_anchor :: "texts \<Rightarrow> sealed_bundle \<Rightarrow> content_anchor \<Rightarrow> artifact_cache \<Rightarrow> string result \<times> artifact_cache" where
  "resolve_anchor py b a c =
     (case an_place a of
        Bytes s e \<Rightarrow>
          (case cached_bytes b a c of
             (Inl x, c') \<Rightarrow> (Inl x, c')
           | (Inr data, c') \<Rightarrow> (cut s e data, c'))
      | Pointer p name \<Rightarrow>
          (case renderer py name of
             None \<Rightarrow> (Inl ResolutionError, c)
           | Some r \<Rightarrow>
               (case cached_json b a c of
                  (Inl x, c') \<Rightarrow> (Inl x, c')
                | (Inr doc, c') \<Rightarrow> ((case resolve_pointer doc p of Inl x \<Rightarrow> Inl x | Inr v \<Rightarrow> r v), c'))))"

section \<open>Checking an extraction\<close>

datatype extraction_problem =
    WrongRecord | WrongArtifactHash | WrongSource | WrongParser | NoNormalizer | WrongNormalizer
  | Unresolved string
  | TextDiffers string

definition identity_problems :: "sealed_bundle \<Rightarrow> extraction \<Rightarrow> extraction_problem list result" where
  "identity_problems b x =
     (let ps = (if ex_record_id x \<noteq> sb_record_id b then [WrongRecord] else [])
            @ (if ex_artifact_hash x \<noteq> sb_artifact_hash b then [WrongArtifactHash] else [])
            @ (if ex_source_hash x \<noteq> sb_source_hash b then [WrongSource] else [])
            @ (if ex_parser x \<noteq> parser_id b then [WrongParser] else [])
      in case normalizer_id b of
           Inl e \<Rightarrow> if e = NormalizeError then Inr (ps @ [NoNormalizer]) else Inl e
         | Inr n \<Rightarrow> Inr (ps @ (if ex_normalizer x \<noteq> n then [WrongNormalizer] else [])))"

fun verify_units :: "texts \<Rightarrow> sealed_bundle \<Rightarrow> unit_of_content list \<Rightarrow> artifact_cache \<Rightarrow> extraction_problem list result" where
  "verify_units py b [] c = Inr []"
| "verify_units py b (u # us) c =
     (case resolve_anchor py b (un_anchor u) c of
        (Inl e, c') \<Rightarrow>
          if e = ResolutionError then map_sum id (\<lambda>ps. Unresolved (un_id u) # ps) (verify_units py b us c') else Inl e
      | (Inr t, c') \<Rightarrow>
          map_sum id (\<lambda>ps. (if t \<noteq> un_text u then [TextDiffers (un_id u)] else []) @ ps) (verify_units py b us c'))"

text \<open>\<open>BundleResolver.verify\<close>, of a resolver just made.\<close>

definition bundle_verify :: "texts \<Rightarrow> sealed_bundle \<Rightarrow> extraction \<Rightarrow> extraction_problem list result" where
  "bundle_verify py b x =
     (case identity_problems b x of
        Inl e \<Rightarrow> Inl e
      | Inr ps \<Rightarrow> if ps \<noteq> [] then Inr ps else verify_units py b (ex_units x) empty_cache)"

section \<open>Against the live ledger\<close>

definition allowed_states :: "bool \<Rightarrow> artifact_state list" where
  "allowed_states allow_invalidated = SEALED # (if allow_invalidated then [INVALIDATED] else [])"

definition resolver_bundle :: "bool \<Rightarrow> ledger \<Rightarrow> string \<Rightarrow> sealed_bundle result" where
  "resolver_bundle allow_invalidated l rid =
     (case get_record rid (lg_db l) of
        Inl e \<Rightarrow> Inl (if e = RecordNotFoundError then ResolutionError else e)
      | Inr r \<Rightarrow>
          if ar_state r \<in> set (allowed_states allow_invalidated) then Inr (bundle_from_record r (lg_archive l))
          else Inl ResolutionError)"

definition resolver_resolve :: "texts \<Rightarrow> bool \<Rightarrow> ledger \<Rightarrow> string \<Rightarrow> content_anchor \<Rightarrow> string result" where
  "resolver_resolve py allow_invalidated l rid a =
     (case resolver_bundle allow_invalidated l rid of
        Inl e \<Rightarrow> Inl e
      | Inr b \<Rightarrow> fst (resolve_anchor py b a empty_cache))"

text \<open>\<open>verify\<close>: a record that may not be read is the one problem.\<close>

definition resolver_verify :: "texts \<Rightarrow> bool \<Rightarrow> ledger \<Rightarrow> extraction \<Rightarrow> extraction_problem list result" where
  "resolver_verify py allow_invalidated l x =
     (case resolver_bundle allow_invalidated l (ex_record_id x) of
        Inl e \<Rightarrow> if e = ResolutionError then Inr [WrongRecord] else Inl e
      | Inr b \<Rightarrow> bundle_verify py b x)"

section \<open>The cache does not show\<close>

text \<open>What an anchor says, read afresh from the evidence.\<close>

definition anchor_bytes :: "sealed_bundle \<Rightarrow> content_anchor \<Rightarrow> string result" where
  "anchor_bytes b a =
     (case map_of (sb_manifest b) (an_artifact a) of
        None \<Rightarrow> Inl ResolutionError
      | Some digest \<Rightarrow>
          if digest \<noteq> an_digest a then Inl ResolutionError
          else (case read_blob (sb_archive b) digest of
                  Inl e \<Rightarrow> Inl (if is_archive_error e then ResolutionError else e)
                | Inr data \<Rightarrow> Inr data))"

definition anchor_text :: "texts \<Rightarrow> sealed_bundle \<Rightarrow> content_anchor \<Rightarrow> string result" where
  "anchor_text py b a =
     (case an_place a of
        Bytes s e \<Rightarrow> (case anchor_bytes b a of Inl x \<Rightarrow> Inl x | Inr data \<Rightarrow> cut s e data)
      | Pointer p name \<Rightarrow>
          (case renderer py name of
             None \<Rightarrow> Inl ResolutionError
           | Some r \<Rightarrow>
               (case anchor_bytes b a of
                  Inl x \<Rightarrow> Inl x
                | Inr data \<Rightarrow>
                    (case loads_bytes data of
                       None \<Rightarrow> Inl ResolutionError
                     | Some doc \<Rightarrow> (case resolve_pointer doc p of Inl x \<Rightarrow> Inl x | Inr v \<Rightarrow> r v)))))"

definition cache_ok :: "sealed_bundle \<Rightarrow> artifact_cache \<Rightarrow> bool" where
  "cache_ok b c \<longleftrightarrow>
     (case ac_digest c of
        None \<Rightarrow> True
      | Some d \<Rightarrow>
          read_blob (sb_archive b) d = Inr (ac_data c) \<and>
          (case ac_parsed c of None \<Rightarrow> True | Some v \<Rightarrow> loads_bytes (ac_data c) = Some v))"

lemma cached_bytes_ok:
  assumes "cache_ok b c" "cached_bytes b a c = (r, c')"
  shows "r = anchor_bytes b a \<and> cache_ok b c' \<and>
    (case r of Inl e \<Rightarrow> True | Inr data \<Rightarrow> ac_data c' = data \<and> (\<exists>d. ac_digest c' = Some d))"
proof (cases "read_blob (sb_archive b) (an_digest a)")
  case (Inl e)
  show ?thesis using assms
    by (auto simp: Inl cached_bytes_def anchor_bytes_def cache_ok_def bundle_read_def split: option.split_asm if_split_asm)
next
  case (Inr data)
  show ?thesis using assms
    by (auto simp: Inr cached_bytes_def anchor_bytes_def cache_ok_def bundle_read_def split: option.split_asm if_split_asm)
qed

lemma cached_json_ok:
  assumes "cache_ok b c" "cached_json b a c = (r, c')"
  shows "cache_ok b c' \<and> r = (case anchor_bytes b a of Inl x \<Rightarrow> Inl x
    | Inr data \<Rightarrow> (case loads_bytes data of None \<Rightarrow> Inl ResolutionError | Some doc \<Rightarrow> Inr doc))"
proof -
  obtain q d where q: "cached_bytes b a c = (q, d)" by (cases "cached_bytes b a c")
  from cached_bytes_ok [OF assms(1) q] assms(2) show ?thesis
    by (auto simp: cached_json_def q cache_ok_def split: sum.split_asm option.split_asm sum.split option.split)
qed

lemma resolve_anchor_ok:
  assumes "cache_ok b c"
  shows "fst (resolve_anchor py b a c) = anchor_text py b a \<and> cache_ok b (snd (resolve_anchor py b a c))"
proof (cases "an_place a")
  case (Bytes s e)
  obtain q d where q: "cached_bytes b a c = (q, d)" by (cases "cached_bytes b a c")
  from cached_bytes_ok [OF assms q] show ?thesis
    by (auto simp: resolve_anchor_def anchor_text_def Bytes q split: sum.split)
next
  case (Pointer p name)
  obtain q d where q: "cached_json b a c = (q, d)" by (cases "cached_json b a c")
  from cached_json_ok [OF assms q] assms show ?thesis
    by (auto simp: resolve_anchor_def anchor_text_def Pointer q split: sum.split option.split sum.split_asm option.split_asm)
qed

text \<open>The check of the units, without a cache.\<close>

fun quote_problems :: "texts \<Rightarrow> sealed_bundle \<Rightarrow> unit_of_content list \<Rightarrow> extraction_problem list result" where
  "quote_problems py b [] = Inr []"
| "quote_problems py b (u # us) =
     (case anchor_text py b (un_anchor u) of
        Inl e \<Rightarrow> if e = ResolutionError then map_sum id (\<lambda>ps. Unresolved (un_id u) # ps) (quote_problems py b us) else Inl e
      | Inr t \<Rightarrow>
          map_sum id (\<lambda>ps. (if t \<noteq> un_text u then [TextDiffers (un_id u)] else []) @ ps) (quote_problems py b us))"

lemma verify_units_uncached: "cache_ok b c \<Longrightarrow> verify_units py b us c = quote_problems py b us"
proof (induction us arbitrary: c)
  case (Cons u us)
  obtain r c' where r: "resolve_anchor py b (un_anchor u) c = (r, c')" by (cases "resolve_anchor py b (un_anchor u) c")
  have "r = anchor_text py b (un_anchor u)" "cache_ok b c'"
    using resolve_anchor_ok [OF Cons.prems, of py "un_anchor u"] by (simp_all add: r)
  then show ?case using Cons.IH [of c'] by (auto simp: r split: sum.split)
qed simp

lemma cache_ok_empty: "cache_ok b empty_cache"
  by (simp add: cache_ok_def empty_cache_def)

text \<open>
  C33.  The resolver's cache does not show.  Checking the units of an extraction one after another,
  keeping the last artifact read and its parse, gives for every list of units what reading each
  anchor afresh from the evidence gives, problems and exceptions alike.
\<close>

theorem resolver_cache_transparent:
  "verify_units py b us empty_cache = quote_problems py b us"
  by (rule verify_units_uncached [OF cache_ok_empty])

section \<open>What passes the check\<close>

lemma quote_problems_none:
  "quote_problems py b us = Inr [] \<longleftrightarrow> list_all (\<lambda>u. anchor_text py b (un_anchor u) = Inr (un_text u)) us"
  by (induction us) (auto simp: map_sum_Inr_iff split: sum.split)

text \<open>
  An extraction verifies exactly when it quotes its evidence.  The check finds nothing if and
  only if the extraction names the record, its output tree, its input, its parser and the
  normalizer registered for that parser, and the text of every unit is, to the byte, what its
  anchor says in the archived bytes, which hash to their sealed digest.
\<close>

theorem bundle_verify_exact:
  "bundle_verify py b x = Inr [] \<longleftrightarrow>
   ex_record_id x = sb_record_id b \<and> ex_artifact_hash x = sb_artifact_hash b \<and> ex_source_hash x = sb_source_hash b \<and>
   ex_parser x = parser_id b \<and> normalizer_id b = Inr (ex_normalizer x) \<and>
   list_all (\<lambda>u. anchor_text py b (un_anchor u) = Inr (un_text u)) (ex_units x)"
  unfolding bundle_verify_def identity_problems_def verify_units_uncached [OF cache_ok_empty]
  by (auto simp: Let_def quote_problems_none split: sum.split if_split_asm)

section \<open>The normalizers quote their evidence\<close>

lemma number_from_quotes:
  "number_from n ds = Inr us \<Longrightarrow> list_all (\<lambda>d. anchor_text py b (dr_anchor d) = Inr (dr_text d)) ds \<Longrightarrow>
   list_all (\<lambda>u. anchor_text py b (un_anchor u) = Inr (un_text u)) us"
proof (induction ds arbitrary: n us)
  case (Cons d ds)
  obtain u us' where u: "make_unit (JStr (unit_id (Suc n))) (JStr (dr_kind d)) (JStr (dr_text d)) (JInt (int n)) (dr_anchor d)
             JNull JNull (opt_int (dr_level d)) (opt_str (dr_parent d)) (JObj (dr_attributes d)) = Inr u"
    and us: "number_from (Suc n) ds = Inr us'" "us = u # us'"
    using Cons.prems(1) by (auto simp: map_sum_Inr_iff split: sum.split_asm)
  have "un_anchor u = dr_anchor d" "un_text u = dr_text d"
    using u by (auto simp: make_unit_def split: if_split_asm sum.split_asm)
  then show ?case using Cons us by simp
qed simp

lemma extraction_of_verifies:
  assumes "extraction_of b n ds = Inr x" "normalizer_id b = Inr n"
    and "list_all (\<lambda>d. anchor_text py b (dr_anchor d) = Inr (dr_text d)) ds"
  shows "bundle_verify py b x = Inr []"
proof -
  obtain us where us: "number_units ds = Inr us"
    and x: "make_extraction (JStr (sb_record_id b)) (JStr (sb_artifact_hash b)) (opt_str (sb_source_hash b))
            (tool_json (parser_id b)) (tool_json n) us = Inr x"
    using assms(1) by (auto simp: extraction_of_def split: sum.split_asm)
  have "tool_arg (tool_json t) = Inr t" for t by (auto simp: tool_arg_def tool_json_def)
  then have "ex_record_id x = sb_record_id b" "ex_artifact_hash x = sb_artifact_hash b" "ex_source_hash x = sb_source_hash b"
    "ex_parser x = parser_id b" "ex_normalizer x = n" "ex_units x = us"
    using x by (auto simp: make_extraction_def opt_str_def split: if_split_asm option.split_asm)
  then show ?thesis
    using assms(2) number_from_quotes [OF us [unfolded number_units_def] assms(3)]
    by (simp add: bundle_verify_exact)
qed

lemma markdown_drafts_Cons:
  assumes "markdown_drafts path digest data n hs ((s, e) # bs) = Inr ds"
  shows "\<exists>hs' d ds'. ds = d # ds' \<and> dr_text d = slice s e data \<and> utf8_ok (slice s e data) \<and>
    make_anchor (JStr path) (JStr digest) (Some (JInt (int s), JInt (int e))) JNull JNull = Inr (dr_anchor d) \<and>
    markdown_drafts path digest data (Suc n) hs' bs = Inr ds'"
  using assms by (auto simp: Let_def map_sum_Inr_iff split: if_split_asm prod.split_asm sum.split_asm)

lemma markdown_drafts_quote:
  assumes "bundle_read b path = Inr data" "map_of (sb_manifest b) path = Some digest"
  shows "markdown_drafts path digest data n hs bs = Inr ds \<Longrightarrow> list_all (\<lambda>(s, e). e \<le> length data) bs \<Longrightarrow>
    list_all (\<lambda>d. anchor_text py b (dr_anchor d) = Inr (dr_text d)) ds"
proof (induction bs arbitrary: n hs ds)
  case (Cons r bs)
  obtain s e where r: "r = (s, e)" by (cases r)
  obtain hs' d ds' where d: "ds = d # ds'" "dr_text d = slice s e data" "utf8_ok (slice s e data)"
      "make_anchor (JStr path) (JStr digest) (Some (JInt (int s), JInt (int e))) JNull JNull = Inr (dr_anchor d)"
      "markdown_drafts path digest data (Suc n) hs' bs = Inr ds'"
    using markdown_drafts_Cons [OF Cons.prems(1) [unfolded r]] by blast
  have "dr_anchor d = \<lparr>an_artifact = path, an_digest = digest, an_place = Bytes (int s) (int e)\<rparr>"
    using d(4) by (auto simp: make_anchor_def split: if_split_asm)
  moreover have "e \<le> length data" using Cons.prems(2) r by simp
  ultimately have "anchor_text py b (dr_anchor d) = Inr (dr_text d)"
    using assms d(2,3) by (simp add: anchor_text_def anchor_bytes_def bundle_read_def cut_def Let_def)
  then show ?case using Cons.IH [OF d(5)] Cons.prems(2) by (simp add: d(1) r)
qed simp

lemma blocks_bounded: "list_all (\<lambda>(s, e). e \<le> length data) (markdown_blocks data)"
proof -
  have o: "ordered_from 0 (markdown_blocks data)" "last_end (markdown_blocks data) \<le> length data"
    using blocks_scanned [of data] by (simp_all add: markdown_blocks_def scanned_def)
  have "e \<le> length data" if "(s, e) \<in> set (markdown_blocks data)" for s e
    using ordered_bounds [OF o(1) that] o(2) that by (auto simp: last_end_def split: if_split_asm)
  then show ?thesis by (auto simp: list_all_iff)
qed

lemma normalize_markdown_verifies:
  assumes "normalize_markdown b = Inr x" "normalizer_id b = Inr MARKDOWN_NORMALIZER"
  shows "bundle_verify py b x = Inr []"
proof -
  obtain path data digest ds where "bundle_read b path = Inr data" "map_of (sb_manifest b) path = Some digest"
      and ds: "markdown_drafts path digest data 0 [] (markdown_blocks data) = Inr ds" "extraction_of b MARKDOWN_NORMALIZER ds = Inr x"
    using assms(1) by (auto simp: normalize_markdown_def split: sum.split_asm option.split_asm)
  then have "list_all (\<lambda>d. anchor_text py b (dr_anchor d) = Inr (dr_text d)) ds"
    using markdown_drafts_quote blocks_bounded by blast
  then show ?thesis by (rule extraction_of_verifies [OF ds(2) assms(2)])
qed

text \<open>Where the content of a chunk of an export comes from.\<close>

definition chunk_quotes :: "texts \<Rightarrow> sealed_bundle \<Rightarrow> chunk \<Rightarrow> bool" where
  "chunk_quotes py b c \<longleftrightarrow>
     (\<exists>path raw conversation m n node.
        metadata_field c ''export_file'' = VStr path \<and> metadata_field c ''node_id'' = VStr n \<and>
        bundle_read b path = Inr raw \<and> loads_bytes raw = Some (JObj conversation) \<and>
        jget conversation ''mapping'' = JObj m \<and> map_of m n = Some node \<and>
        node_text py node = Inr (ch_content c) \<and> ch_content c \<noteq> [] \<and> utf8_ok (ch_content c))"

lemma traverse_quotes:
  "traverse py m (base_metadata cv m conv_id entry rid) branch conv_id visited stack = Inr (cs, seen) \<Longrightarrow>
   list_all (\<lambda>c. metadata_field c ''export_file'' = VStr (ie_path entry) \<and>
     (\<exists>n node. metadata_field c ''node_id'' = VStr n \<and> map_of m n = Some node \<and> node_text py node = Inr (ch_content c) \<and>
        ch_content c \<noteq> [] \<and> utf8_ok (ch_content c))) cs"
proof (induction py m "base_metadata cv m conv_id entry rid" branch conv_id visited stack arbitrary: cs seen rule: traverse.induct)
  case (2 py m branch conv_id visited v stack)
  let ?n = "vi_node v"
  obtain node content where n: "?n \<notin> set visited" "map_of m ?n = Some node" "node_text py node = Inr content"
    using "2.prems" by (auto simp: Let_def split: if_split_asm option.split_asm sum.split_asm)
  show ?case
  proof (cases "content = []")
    case True
    have "traverse py m (base_metadata cv m conv_id entry rid) branch conv_id (?n # visited)
        (push_children m ?n (vi_parent v) (Suc (vi_depth v)) stack) = Inr (cs, seen)"
      using "2.prems" n True by (simp add: Let_def)
    then show ?thesis by (rule "2.hyps"(1) [OF refl n(1) n(2) n(3) True])
  next
    case False
    obtain c where c: "node_chunk m (base_metadata cv m conv_id entry rid) branch conv_id v (node_fields node) content = Inr c"
      using "2.prems" n False by (auto simp: Let_def split: sum.split_asm)
    obtain ds where t: "traverse py m (base_metadata cv m conv_id entry rid) branch conv_id (?n # visited)
        (push_children m ?n (Some ?n) (Suc (vi_depth v)) stack) = Inr (ds, seen)" and cs: "cs = c # ds"
      using "2.prems" n False c by (auto simp: Let_def map_sum_Inr_iff)
    have "utf8_ok content"
      using c by (auto simp: node_chunk_def Let_def make_chunk_def split: json.split_asm if_split_asm)
    then show ?thesis
      using "2.hyps"(2) [OF refl n(1) n(2) n(3) False c t] n False node_chunk_fields(2) [OF c] node_chunk_metadata [OF c]
      by (simp add: cs)
  qed
qed simp

lemma conversation_quotes:
  assumes "conversation_chunks py conversation conv_id entry rid = Inr cs" "read_conversation b entry = Inr conversation"
  shows "list_all (chunk_quotes py b) cs"
proof -
  obtain raw where raw: "bundle_read b (ie_path entry) = Inr raw" "loads_bytes raw = Some (JObj conversation)"
    using assms(2) by (auto simp: read_conversation_def split: sum.split_asm option.split_asm json.split_asm)
  show ?thesis
  proof (cases "jget conversation ''mapping''")
    case JNull
    then have "cs = []" using assms(1)
      by (auto simp: conversation_chunks_def Let_def root_nodes_def children_lists_def split: if_split_asm)
    then show ?thesis by simp
  next
    case (JObj m)
    obtain branch visited stack where
      "traverse py m (base_metadata conversation m conv_id entry rid) branch conv_id [] stack = Inr (cs, visited)"
      using assms(1) unfolding conversation_chunks_def by (auto simp: JObj Let_def split: if_split_asm sum.split_asm)
    from traverse_quotes [OF this] show ?thesis
      using raw JObj by (auto simp: list_all_iff chunk_quotes_def)
  qed (use assms(1) in \<open>simp_all add: conversation_chunks_def\<close>)
qed

lemma export_quotes: "export_chunks py b seen lines = Inr cs \<Longrightarrow> list_all (chunk_quotes py b) cs"
  by (induction py b seen lines arbitrary: cs rule: export_chunks.induct)
    (auto simp: Let_def map_sum_Inr_iff conversation_quotes split: sum.split_asm)

lemma transform_quotes: "chatgpt_transform py b = Inr cs \<Longrightarrow> list_all (chunk_quotes py b) cs"
  by (auto simp: chatgpt_transform_def export_quotes split: if_split_asm sum.split_asm)

lemma pointer_tokens:
  "split_on (CHR ''/'') (tl (json_pointer (t # ts))) = map escape_token (t # ts)"
proof -
  have "json_pointer (t # ts) = CHR ''/'' # joins ''/'' (map escape_token (t # ts))" for t
    by (induction ts arbitrary: t) (simp_all add: json_pointer_def)
  then show ?thesis
    using escape_no_slash by (simp del: list.map add: split_on_joins)
qed

text \<open>A pointer made from member names leads to the member.\<close>

lemma message_pointer:
  assumes "jget conversation ''mapping'' = JObj m" "map_of m n = Some node" "jget (node_fields node) ''message'' = JObj message"
  shows "resolve_pointer (JObj conversation) (json_pointer [''mapping'', n, ''message'']) = Inr (JObj message)"
proof -
  have "json_pointer [''mapping'', n, ''message''] \<noteq> []" by (simp add: json_pointer_def)
  moreover have "map_of conversation ''mapping'' = Some (JObj m)" using assms(1) by (auto simp: jget_def split: option.split_asm)
  moreover obtain kvs where "node = JObj kvs" "map_of kvs ''message'' = Some (JObj message)"
    using assms(3) by (cases node) (auto simp: node_fields_def jget_def split: option.split_asm)
  ultimately show ?thesis
    using assms(2) unfolding resolve_pointer_def pointer_tokens by (simp add: unescape_escape Let_def)
qed

lemma chatgpt_draft_quotes:
  assumes "chatgpt_draft (sb_manifest b) units c = Inr d" "chunk_quotes py b c"
  shows "anchor_text py b (dr_anchor d) = Inr (dr_text d)"
proof -
  obtain path raw conversation m n node where
    q: "metadata_field c ''export_file'' = VStr path" "metadata_field c ''node_id'' = VStr n"
      "bundle_read b path = Inr raw" "loads_bytes raw = Some (JObj conversation)"
      "jget conversation ''mapping'' = JObj m" "map_of m n = Some node"
      "node_text py node = Inr (ch_content c)" "ch_content c \<noteq> []"
    using assms(2) unfolding chunk_quotes_def by blast
  obtain digest where d: "map_of (sb_manifest b) path = Some digest" "dr_text d = ch_content c"
      "make_anchor (JStr path) (JStr digest) None (JStr (json_pointer [''mapping'', n, ''message''])) (JStr CHATGPT_RENDERER) = Inr (dr_anchor d)"
    using assms(1) q(1,2) unfolding chatgpt_draft_def text_field_def by (auto split: sum.split_asm option.split_asm)
  have a: "dr_anchor d = \<lparr>an_artifact = path, an_digest = digest,
      an_place = Pointer (json_pointer [''mapping'', n, ''message'']) CHATGPT_RENDERER\<rparr>"
    using d(3) by (auto simp: make_anchor_def split: if_split_asm)
  obtain message where msg: "jget (node_fields node) ''message'' = JObj message" "render py message = Inr (ch_content c)"
    using q(7,8) by (auto simp: node_text_def split: json.split_asm)
  have "renderer py CHATGPT_RENDERER = Some (render_chatgpt py)" by (simp add: renderer_def CHATGPT_RENDERER_def)
  then show ?thesis
    using q(3,4) d(1,2) message_pointer [OF q(5,6) msg(1)] msg(2)
    by (simp add: a anchor_text_def anchor_bytes_def bundle_read_def render_chatgpt_def)
qed

lemma chatgpt_drafts_quote:
  "chatgpt_drafts (sb_manifest b) units n cs = Inr ds \<Longrightarrow> list_all (chunk_quotes py b) cs \<Longrightarrow>
   list_all (\<lambda>d. anchor_text py b (dr_anchor d) = Inr (dr_text d)) ds"
proof (induction cs arbitrary: units n ds)
  case (Cons c cs)
  then show ?case
    by (auto simp: Let_def map_sum_Inr_iff chatgpt_draft_quotes split: sum.split_asm)
qed simp

lemma normalize_verifies:
  assumes "normalize py b = Inr x"
  shows "bundle_verify py b x = Inr []"
proof (cases "normalizer_for b")
  case (Inr n)
  show ?thesis
  proof (cases n)
    case Normalize_markdown
    then show ?thesis
      using assms Inr by (intro normalize_markdown_verifies) (simp_all add: normalize_def normalizer_id_def)
  next
    case Normalize_chatgpt
    then obtain cs ds where "chatgpt_transform py b = Inr cs" "chatgpt_drafts (sb_manifest b) [] 0 cs = Inr ds"
        and x: "extraction_of b CHATGPT_NORMALIZER ds = Inr x"
      using assms Inr by (auto simp: normalize_def normalize_chatgpt_def split: sum.split_asm if_split_asm)
    then have "list_all (\<lambda>d. anchor_text py b (dr_anchor d) = Inr (dr_text d)) ds"
      using transform_quotes chatgpt_drafts_quote by blast
    then show ?thesis
      using Normalize_chatgpt Inr by (intro extraction_of_verifies [OF x]) (simp add: normalizer_id_def)
  qed
qed (use assms in \<open>simp add: normalize_def\<close>)

text \<open>
  C32.  What a normalizer makes, the resolver accepts.  Whatever a sealed Markdown or ChatGPT bundle
  holds, an extraction the registered normalizer returns for it passes the resolver's check
  against the same bundle: every block's byte range and every message's pointer resolves to
  the text of its unit.
\<close>

theorem normalized_extraction_verifies:
  "case normalize py b of Inl e \<Rightarrow> True | Inr x \<Rightarrow> bundle_verify py b x = Inr []"
  using normalize_verifies by (auto split: sum.split)

end
