(* ===== verification/Identity.thy ===== *)
theory Identity
  imports Refs Resolver LedgerWitness
begin

text \<open>
  Resolving references (\<open>stele/identity/resolver.py\<close>): what each reference names, according to the
  ledger and its archive.  The main results: a reference that resolves twice - in two ledgers, or
  in one at two times - names the same evidence; and in every ledger the program reaches, each
  event and each sealed record can be cited by its reference.
\<close>

definition ResolveError :: exn where
  "ResolveError = OtherError ''ResolveError''"

datatype evidence =
    Source_found source
  | Snapshot_found snapshot
  | Record_found artifact_record
  | Observation_found observation
  | Text_found string
  | Event_found event_row json

text \<open>\<open>raise ResolveError(f"{ref}: ...")\<close>: making the message formats the reference.\<close>

definition refuse :: "ref \<Rightarrow> 'a result" where
  "refuse r = (case ref_str r of Inl x \<Rightarrow> Inl x | Inr _ \<Rightarrow> Inl ResolveError)"

definition refuse_when :: "(exn \<Rightarrow> bool) \<Rightarrow> ref \<Rightarrow> 'a result \<Rightarrow> 'a result" where
  "refuse_when caught r res = (case res of Inl e \<Rightarrow> if caught e then refuse r else Inl e | Inr x \<Rightarrow> Inr x)"

section \<open>One method per reference type\<close>

definition resolve_source :: "ledger \<Rightarrow> string \<Rightarrow> source result" where
  "resolve_source l sid = refuse_when is_archive_error (Source_ref sid) (get_source (lg_archive l) sid)"

definition resolve_snapshot :: "ledger \<Rightarrow> snapshot_kind \<Rightarrow> string \<Rightarrow> snapshot result" where
  "resolve_snapshot l k d =
     refuse_when is_archive_error (Snapshot_ref k d)
       (case get_snapshot (lg_archive l) d k of Inl e \<Rightarrow> Inl e | Inr snap \<Rightarrow>
       (case check_snapshot_content (lg_archive l) snap of Inl e \<Rightarrow> Inl e | Inr _ \<Rightarrow> Inr snap))"

definition ref_record :: "ledger \<Rightarrow> string \<Rightarrow> ref \<Rightarrow> artifact_record result" where
  "ref_record l rid r = refuse_when (\<lambda>e. e = RecordNotFoundError) r (get_record rid (lg_db l))"

definition resolve_record :: "bool \<Rightarrow> ledger \<Rightarrow> string \<Rightarrow> string \<Rightarrow> artifact_record result" where
  "resolve_record allow_invalidated l rid h =
     (let r = Record_ref rid h in
      case ref_record l rid r of Inl e \<Rightarrow> Inl e | Inr a \<Rightarrow>
        if ar_state a \<notin> set (allowed_states allow_invalidated) then refuse r
        else if ar_artifact_hash a \<noteq> h then refuse r
        else (case refuse_when is_archive_error r (read_tree (lg_archive l) (ar_artifact_hash a)) of
                Inl e \<Rightarrow> Inl e
              | Inr tree \<Rightarrow> if \<not> dict_eq tree (ar_artifact_manifest a) then refuse r else Inr a))"

definition resolve_observation :: "ledger \<Rightarrow> string \<Rightarrow> string \<Rightarrow> observation result" where
  "resolve_observation l rid d =
     (let r = Observation_ref rid d in
      case ref_record l rid r of Inl e \<Rightarrow> Inl e | Inr a \<Rightarrow>
      (case refuse_when (\<lambda>e. True) r (observation_of a) of Inl e \<Rightarrow> Inl e | Inr ob \<Rightarrow>
      (case observation_digest ob of Inl e \<Rightarrow> Inl e | Inr od \<Rightarrow>
         if od \<noteq> d then refuse r
         else (case resolve_snapshot l (ob_kind ob) (ob_digest ob) of Inl e \<Rightarrow> Inl e | Inr _ \<Rightarrow>
              (case ob_source_id ob of
                 None \<Rightarrow> Inr ob
               | Some sid \<Rightarrow> (case resolve_source l sid of Inl e \<Rightarrow> Inl e | Inr _ \<Rightarrow> Inr ob))))))"

definition resolve_anchor_ref :: "texts \<Rightarrow> bool \<Rightarrow> ledger \<Rightarrow> string \<Rightarrow> string \<Rightarrow> content_anchor \<Rightarrow> string result" where
  "resolve_anchor_ref py allow_invalidated l rid h a =
     (case resolve_record allow_invalidated l rid h of Inl e \<Rightarrow> Inl e | Inr r \<Rightarrow>
        refuse_when (\<lambda>e. e = ResolutionError) (Anchor_ref rid h a)
          (fst (resolve_anchor py (bundle_from_record r (lg_archive l)) a empty_cache)))"

text \<open>
  The whole chain is verified with the event as anchor; then the first event from its number on is
  read, and only that one's body parsed.
\<close>

definition resolve_event :: "ledger \<Rightarrow> int \<Rightarrow> string \<Rightarrow> (event_row \<times> json) result" where
  "resolve_event l n h =
     (let r = Event_ref n h in
      case verify (Some (n, h)) (lg_db l) of Inl e \<Rightarrow> Inl e | Inr report \<Rightarrow>
        if cr_problems report \<noteq> [] then refuse r
        else (case filter (\<lambda>q. n - 1 < ev_seq q) (sort_key ev_seq (db_events (lg_db l))) of
                [] \<Rightarrow> refuse r
              | q # _ \<Rightarrow>
                  (case json_loads (ev_body q) of
                     None \<Rightarrow> Inl ValueError
                   | Some b \<Rightarrow> if (ev_seq q, ev_hash q) \<noteq> (n, h) then refuse r else Inr (q, b))))"

definition resolve_ref :: "texts \<Rightarrow> bool \<Rightarrow> ledger \<Rightarrow> ref \<Rightarrow> evidence result" where
  "resolve_ref py allow_invalidated l r =
     (case r of
        Source_ref sid \<Rightarrow> map_sum id Source_found (resolve_source l sid)
      | Snapshot_ref k d \<Rightarrow> map_sum id Snapshot_found (resolve_snapshot l k d)
      | Record_ref rid h \<Rightarrow> map_sum id Record_found (resolve_record allow_invalidated l rid h)
      | Observation_ref rid d \<Rightarrow> map_sum id Observation_found (resolve_observation l rid d)
      | Anchor_ref rid h a \<Rightarrow> map_sum id Text_found (resolve_anchor_ref py allow_invalidated l rid h a)
      | Event_ref n h \<Rightarrow> map_sum id (\<lambda>(q, b). Event_found q b) (resolve_event l n h))"

text \<open>\<open>resolve\<close> of a string, and \<open>check\<close>: whether there is a problem.\<close>

definition resolve_text :: "texts \<Rightarrow> bool \<Rightarrow> ledger \<Rightarrow> string \<Rightarrow> evidence result" where
  "resolve_text py allow_invalidated l s =
     (case parse_ref s of
        Inl e \<Rightarrow> Inl (if e = RefFormatError then ResolveError else e)
      | Inr r \<Rightarrow> resolve_ref py allow_invalidated l r)"

definition check_text :: "texts \<Rightarrow> bool \<Rightarrow> ledger \<Rightarrow> string \<Rightarrow> bool result" where
  "check_text py allow_invalidated l s =
     (case resolve_text py allow_invalidated l s of
        Inl e \<Rightarrow> if e = ResolveError then Inr False else Inl e
      | Inr _ \<Rightarrow> Inr True)"

section \<open>A reference names one thing\<close>

lemma refuse_Inr [simp]: "refuse r \<noteq> Inr x"
  by (simp add: refuse_def split: sum.split)

lemma refuse_when_Inr [simp]: "refuse_when c r res = Inr x \<longleftrightarrow> res = Inr x"
  by (simp add: refuse_when_def split: sum.split)

text \<open>
  What two archives have under one digest - as a blob or as a source record - are two texts with
  the same SHA-256.
\<close>

definition store_collision :: "archive \<Rightarrow> archive \<Rightarrow> bool" where
  "store_collision s s' \<longleftrightarrow>
     (\<exists>d a b. collision a b \<and> sha256 a = d \<and>
        (read_blob s d = Inr a \<and> read_blob s' d = Inr b \<or>
         read_file s (source_path d) = Inr a \<and> read_file s' (source_path d) = Inr b))"

text \<open>The canonical texts of two observations collide.\<close>

definition observation_collision :: "observation \<Rightarrow> observation \<Rightarrow> bool" where
  "observation_collision a b \<longleftrightarrow> collision (cjson (JObj (observation_obj a))) (cjson (JObj (observation_obj b)))"

text \<open>
  The evidence is the same.  A record is referenced with its output, which is all that has to be
  equal of two records: their state, for one, changes.
\<close>

definition same_evidence :: "evidence \<Rightarrow> evidence \<Rightarrow> bool" where
  "same_evidence x y =
     (case (x, y) of
        (Record_found a, Record_found b) \<Rightarrow>
          ar_record_id a = ar_record_id b \<and> ar_artifact_hash a = ar_artifact_hash b \<and>
          map_of (ar_artifact_manifest a) = map_of (ar_artifact_manifest b)
      | (Observation_found a, Observation_found b) \<Rightarrow> a = b \<or> observation_collision a b
      | _ \<Rightarrow> x = y)"

lemma blobs_agree:
  "read_blob s d = Inr a \<Longrightarrow> read_blob s' d = Inr b \<Longrightarrow> a = b \<or> store_collision s s'"
  using read_blob_digest [of s d a] read_blob_digest [of s' d b] unfolding store_collision_def collision_def by metis

lemma read_trees_agree:
  assumes "read_tree s d = Inr a" "read_tree s' d = Inr b"
  shows "a = b \<or> store_collision s s'"
proof -
  obtain x y where "read_blob s d = Inr x" "decode_tree x = Inr a" "read_blob s' d = Inr y" "decode_tree y = Inr b"
    using assms by (auto simp: read_tree_def split: sum.split_asm)
  then show ?thesis using blobs_agree [of s d x s' y] by auto
qed

lemma get_sourceD:
  assumes "get_source s i = Inr a"
  shows "\<exists>x. read_file s (source_path i) = Inr x \<and> sha256 x = i \<and> source_from_canonical x = Inr a"
proof -
  obtain x where x: "read_file s (source_path i) = Inr x" "sha256 x = i"
    using assms by (auto simp: get_source_def check_digest_def split: sum.split_asm if_split_asm)
  show ?thesis
  proof (cases "source_from_canonical x")
    case (Inl e)
    then show ?thesis using assms x by (cases e) (simp_all add: get_source_def check_digest_def split: if_split_asm)
  qed (use assms x in \<open>auto simp: get_source_def check_digest_def split: if_split_asm\<close>)
qed

lemma get_snapshotD:
  assumes "get_snapshot s d k = Inr x"
  shows "snap_kind x = k \<and> snap_digest x = d \<and> snapshot_ok x"
proof -
  obtain t where t: "read_file s (snapshot_path k d) = Inr t"
    using assms by (auto simp: get_snapshot_def check_digest_def split: sum.split_asm if_split_asm)
  show ?thesis
  proof (cases "snapshot_from_canonical t")
    case (Inl e)
    then show ?thesis using assms t by (cases e) (simp_all add: get_snapshot_def check_digest_def split: if_split_asm)
  next
    case (Inr y)
    then show ?thesis using assms t snapshot_from_canonicalD [OF Inr]
      by (auto simp: get_snapshot_def check_digest_def split: if_split_asm)
  qed
qed

lemma sources_agree:
  assumes "get_source s i = Inr a" "get_source s' i = Inr b"
  shows "a = b \<or> store_collision s s'"
proof -
  obtain x y where x: "read_file s (source_path i) = Inr x" "sha256 x = i" "source_from_canonical x = Inr a"
    and y: "read_file s' (source_path i) = Inr y" "sha256 y = i" "source_from_canonical y = Inr b"
    using get_sourceD [OF assms(1)] get_sourceD [OF assms(2)] by blast
  show ?thesis
  proof (cases "x = y")
    case False
    then have "store_collision s s'"
      unfolding store_collision_def collision_def using x(1,2) y(1,2) by (intro exI [of _ i] exI [of _ x] exI [of _ y]) simp
    then show ?thesis by (rule disjI2)
  qed (use x(3) y(3) in simp)
qed

lemma all_blobs_agree:
  "map (read_blob s) ds = map Inr as \<Longrightarrow> map (read_blob s') ds = map Inr bs \<Longrightarrow> as = bs \<or> store_collision s s'"
proof (induction ds arbitrary: as bs)
  case (Cons d ds)
  then show ?case using blobs_agree [of s d _ s'] by (cases as; cases bs) auto
qed simp

lemma snapshots_agree:
  assumes "get_snapshot s d k = Inr x" "check_snapshot_content s x = Inr ()"
    and "get_snapshot s' d k = Inr y" "check_snapshot_content s' y = Inr ()"
  shows "x = y \<or> store_collision s s'"
proof (rule disjCI)
  assume nc: "\<not> store_collision s s'"
  note xd = get_snapshotD [OF assms(1)] and yd = get_snapshotD [OF assms(3)]
  note xc = check_snapshot_content_iff [OF assms(2)] and yc = check_snapshot_content_iff [OF assms(4)]
  show "x = y"
  proof (cases k)
    case FILE
    obtain a b where "read_blob s d = Inr a" "int (length a) = snap_size x" "read_blob s' d = Inr b" "int (length b) = snap_size y"
      using xc yc xd yd FILE by (auto simp: snapshot_content_def)
    then have "snap_size x = snap_size y" using blobs_agree [of s d a s' b] nc by auto
    then show ?thesis using xd yd FILE by (simp add: snapshot_ok_def)
  next
    case TREE
    obtain m as n bs where m: "read_tree s d = Inr m" "map (read_blob s) (map snd m) = map Inr as"
        "int (length (concat as)) = snap_size x" "int (length m) = snap_file_count x"
      and n: "read_tree s' d = Inr n" "map (read_blob s') (map snd n) = map Inr bs"
        "int (length (concat bs)) = snap_size y" "int (length n) = snap_file_count y"
      using xc yc xd yd TREE by (auto simp: snapshot_content_def)
    have "m = n" using read_trees_agree [OF m(1) n(1)] nc by blast
    then have "as = bs" using all_blobs_agree [OF m(2), of s' bs] n(2) nc by simp
    then show ?thesis using m n \<open>m = n\<close> xd yd by simp
  qed
qed


lemma observation_obj_inj:
  assumes "jsort (JObj (observation_obj a)) = jsort (JObj (observation_obj b))"
  shows "a = b"
proof -
  have e: "jsort (jget (observation_obj a) k) = jsort (jget (observation_obj b) k)" for k
    by (intro map_of_eq_of_jsort assms) (simp_all add: observation_obj_def)
  have "jsort (jget [(''kind'', JStr (kind_value (ob_kind a))), (''digest'', JStr (ob_digest a))] k)
      = jsort (jget [(''kind'', JStr (kind_value (ob_kind b))), (''digest'', JStr (ob_digest b))] k)" for k
    using e [of "''snapshot''"] by (intro map_of_eq_of_jsort) (simp_all add: observation_obj_def jget_simps)
  from this [of "''kind''"] this [of "''digest''"] e [of "''record_id''"] e [of "''source_id''"] e [of "''observed_at''"]
  show ?thesis
    by (cases a; cases b) (auto simp: observation_obj_def jget_simps opt_str_def split: option.splits
        dest: arg_cong [where f = kind_of_value])
qed

lemma observations_agree:
  assumes "observation_digest a = Inr d" "observation_digest b = Inr d"
  shows "a = b \<or> observation_collision a b"
proof -
  have ok: "json_ok (JObj (observation_obj a))" "json_ok (JObj (observation_obj b))"
    and eq: "sha256 (cjson (JObj (observation_obj a))) = sha256 (cjson (JObj (observation_obj b)))"
    using assms by (auto simp: observation_digest_def canonical_json_def observation_obj_def map_sum_Inr_iff opt_str_def
        split: if_split_asm option.split)
  from sha256_eqD [OF eq] show ?thesis
    using cjson_eqD [OF _ ok] observation_obj_inj unfolding observation_collision_def by blast
qed


text \<open>What an anchor says depends on the bytes of its artifact alone.\<close>

lemma anchor_texts_agree:
  assumes "anchor_text py b a = Inr s" "anchor_text py c a = Inr t"
  shows "s = t \<or> store_collision (sb_archive b) (sb_archive c)"
proof -
  have bytes: "x = y \<or> store_collision (sb_archive b) (sb_archive c)"
    if "anchor_bytes b a = Inr x" "anchor_bytes c a = Inr y" for x y
    using that blobs_agree [of "sb_archive b" "an_digest a" x "sb_archive c" y]
    by (auto simp: anchor_bytes_def split: option.split_asm if_split_asm sum.split_asm)
  obtain x y where xy: "anchor_bytes b a = Inr x" "anchor_bytes c a = Inr y"
    using assms by (auto simp: anchor_text_def split: place.split_asm option.split_asm sum.split_asm)
  then show ?thesis using bytes [OF xy] assms by (auto simp: anchor_text_def split: place.split_asm option.split_asm)
qed

text \<open>An event that resolves is at its place in an intact chain.\<close>

lemma resolve_eventD:
  assumes "resolve_event l n h = Inr (q, b)"
  defines "es \<equiv> sort_key ev_seq (db_events (lg_db l))"
  shows "chain_ok GENESIS 1 es \<and> 1 \<le> n \<and> nat n - 1 < length es \<and> es ! (nat n - 1) = q \<and> ev_hash q = h \<and>
    json_loads (ev_body q) = Some b"
proof -
  have ok: "chain_verifies (Some (n, h)) (lg_db l)" and b: "json_loads (ev_body q) = Some b" and q: "ev_seq q = n" "ev_hash q = h"
    and f: "\<exists>rest. filter (\<lambda>q. n - 1 < ev_seq q) es = q # rest"
    using assms(1) unfolding es_def
    by (auto simp: resolve_event_def chain_verifies_def Let_def split: sum.split_asm if_split_asm list.split_asm option.split_asm)
  have ch: "chain_ok GENESIS 1 es" using ok unfolding es_def by (simp add: chain_verifies_exact)
  obtain rest where "filter (\<lambda>q. n - 1 < ev_seq q) es = q # rest" using f by blast
  then have "q \<in> set (filter (\<lambda>q. n - 1 < ev_seq q) es)" by simp
  then have "q \<in> set es" by simp
  then obtain i where i: "i < length es" "es ! i = q" by (auto simp: in_set_conv_nth)
  then have n: "n = 1 + int i" using chain_ok_nth [OF ch i(1)] q by simp
  then have "nat n - 1 = i" by simp
  then show ?thesis using i ch b q n by simp
qed

lemma events_agree:
  assumes "resolve_event l n h = Inr (q, b)" "resolve_event l' n h = Inr (q', b')"
  defines "es \<equiv> sort_key ev_seq (db_events (lg_db l))" and "es' \<equiv> sort_key ev_seq (db_events (lg_db l'))"
  shows "(take (nat n) es = take (nat n) es' \<and> q = q' \<and> b = b') \<or> (\<exists>i < nat n. event_collision (es ! i) (es' ! i))"
proof -
  let ?k = "nat n - 1"
  note d = resolve_eventD [OF assms(1)] and d' = resolve_eventD [OF assms(2)]
  have k: "Suc ?k = nat n" using d by simp
  from d d' have "take (Suc ?k) es = take (Suc ?k) es' \<or> (\<exists>i \<le> ?k. event_collision (es ! i) (es' ! i))"
    unfolding es_def es'_def by (intro chain_same_prefix) auto
  then show ?thesis
  proof
    assume t: "take (Suc ?k) es = take (Suc ?k) es'"
    then have "es ! ?k = es' ! ?k" by (metis lessI nth_take)
    then have "q = q'" using d d' by (simp add: es_def es'_def)
    then show ?thesis using t d d' k by simp
  next
    assume "\<exists>i \<le> ?k. event_collision (es ! i) (es' ! i)"
    then show ?thesis using k by (metis less_Suc_eq_le)
  qed
qed

lemma resolve_recordD:
  assumes "resolve_record allow l rid h = Inr a"
  shows "get_record rid (lg_db l) = Inr a \<and> ar_state a \<in> set (allowed_states allow) \<and> ar_artifact_hash a = h \<and>
    (\<exists>t. read_tree (lg_archive l) h = Inr t \<and> map_of t = map_of (ar_artifact_manifest a))"
  using assms by (auto simp: resolve_record_def ref_record_def Let_def dict_eq_iff split: sum.split_asm if_split_asm)

lemma resolve_anchor_refD:
  assumes "resolve_anchor_ref py allow l rid h a = Inr t"
  shows "\<exists>r. anchor_text py (bundle_from_record r (lg_archive l)) a = Inr t"
  using assms resolve_anchor_ok [OF cache_ok_empty]
  by (auto simp: resolve_anchor_ref_def split: sum.split_asm)

lemma resolve_observationD:
  assumes "resolve_observation l rid d = Inr ob"
  shows "observation_digest ob = Inr d"
  using assms by (auto simp: resolve_observation_def ref_record_def Let_def split: sum.split_asm if_split_asm option.split_asm)

lemma resolve_snapshotD:
  "resolve_snapshot l k d = Inr x \<Longrightarrow>
   get_snapshot (lg_archive l) d k = Inr x \<and> check_snapshot_content (lg_archive l) x = Inr ()"
  by (auto simp: resolve_snapshot_def split: sum.split_asm)

lemma bundle_archive [simp]: "sb_archive (bundle_from_record r s) = s"
  by (simp add: bundle_from_record_def)

text \<open>
  C30. A reference names one thing.  If it resolves twice - in one ledger at two times or in two
  ledgers, whatever else differs between them - it gives the same evidence: the same source,
  snapshot, text or observation, the same output of the same record; and for an event the same
  event after the same history.  Else the two texts that gave the different answers, both read
  from the evidence, have the same SHA-256.
\<close>

theorem reference_names_one_thing:
  assumes "resolve_ref py allow l r = Inr x" "resolve_ref py allow' l' r = Inr y"
  shows "case r of
      Event_ref n h \<Rightarrow>
        (let es = sort_key ev_seq (db_events (lg_db l)); es' = sort_key ev_seq (db_events (lg_db l'))
         in take (nat n) es = take (nat n) es' \<and> same_evidence x y \<or> (\<exists>i < nat n. event_collision (es ! i) (es' ! i)))
    | _ \<Rightarrow> same_evidence x y \<or> store_collision (lg_archive l) (lg_archive l')"
proof (cases r)
  case (Source_ref sid)
  then show ?thesis using assms sources_agree [of "lg_archive l" sid _ "lg_archive l'"]
    by (auto simp: resolve_ref_def map_sum_Inr_iff resolve_source_def same_evidence_def)
next
  case (Snapshot_ref k d)
  then obtain a b where "resolve_snapshot l k d = Inr a" "resolve_snapshot l' k d = Inr b" "x = Snapshot_found a" "y = Snapshot_found b"
    using assms by (auto simp: resolve_ref_def map_sum_Inr_iff)
  then show ?thesis using resolve_snapshotD [of l k d a] resolve_snapshotD [of l' k d b] Snapshot_ref
      snapshots_agree [of "lg_archive l" d k a "lg_archive l'" b] by (auto simp: same_evidence_def)
next
  case (Record_ref rid h)
  then obtain a b where ab: "resolve_record allow l rid h = Inr a" "resolve_record allow' l' rid h = Inr b" "x = Record_found a" "y = Record_found b"
    using assms by (auto simp: resolve_ref_def map_sum_Inr_iff)
  note d = resolve_recordD [OF ab(1)] and d' = resolve_recordD [OF ab(2)]
  obtain t t' where "read_tree (lg_archive l) h = Inr t" "map_of t = map_of (ar_artifact_manifest a)"
    "read_tree (lg_archive l') h = Inr t'" "map_of t' = map_of (ar_artifact_manifest b)" using d d' by blast
  then have "map_of (ar_artifact_manifest a) = map_of (ar_artifact_manifest b) \<or> store_collision (lg_archive l) (lg_archive l')"
    using read_trees_agree by metis
  then show ?thesis using d d' found_record_id [of rid _ a] found_record_id [of rid _ b] ab Record_ref by (auto simp: same_evidence_def)
next
  case (Observation_ref rid d)
  then obtain a b where ab: "resolve_observation l rid d = Inr a" "resolve_observation l' rid d = Inr b" "x = Observation_found a" "y = Observation_found b"
    using assms by (auto simp: resolve_ref_def map_sum_Inr_iff)
  then show ?thesis using observations_agree [OF resolve_observationD resolve_observationD] Observation_ref by (simp add: same_evidence_def)
next
  case (Anchor_ref rid h a)
  then obtain s t where st: "resolve_anchor_ref py allow l rid h a = Inr s" "resolve_anchor_ref py allow' l' rid h a = Inr t" "x = Text_found s" "y = Text_found t"
    using assms by (auto simp: resolve_ref_def map_sum_Inr_iff)
  obtain b c where "anchor_text py (bundle_from_record b (lg_archive l)) a = Inr s"
    "anchor_text py (bundle_from_record c (lg_archive l')) a = Inr t"
    using resolve_anchor_refD [OF st(1)] resolve_anchor_refD [OF st(2)] by blast
  from anchor_texts_agree [OF this] st Anchor_ref show ?thesis by (auto simp: same_evidence_def)
next
  case (Event_ref n h)
  then obtain q b q' b' where e: "resolve_event l n h = Inr (q, b)" "resolve_event l' n h = Inr (q', b')" "x = Event_found q b" "y = Event_found q' b'"
    using assms by (auto simp: resolve_ref_def map_sum_Inr_iff)
  from events_agree [OF e(1,2)] e(3,4) Event_ref show ?thesis by (auto simp: same_evidence_def Let_def)
qed


section \<open>What the ledger holds can be cited\<close>

lemma replayed_bodies:
  "snd (fold replay_event rs (d, ps)) = [] \<Longrightarrow> ps = [] \<and> (\<forall>r \<in> set rs. json_loads (ev_body r) \<noteq> None)"
proof (induction rs arbitrary: d ps)
  case (Cons r rs)
  obtain d' ps' where r: "replay_event r (d, ps) = (d', ps')" by (cases "replay_event r (d, ps)")
  then have "ps' = [] \<and> (\<forall>r \<in> set rs. json_loads (ev_body r) \<noteq> None)" using Cons.IH [of d' ps'] Cons.prems by simp
  then show ?case using r by (auto simp: replay_event_def split: option.split_asm)
qed simp

lemma event_resolves:
  assumes v: "ledger_verifies None (lg_db l)" and ev: "ev \<in> set (db_events (lg_db l))"
  shows "event_ref ev = Inr (Event_ref (ev_seq ev) (ev_hash ev)) \<and>
    (\<exists>b. resolve_event l (ev_seq ev) (ev_hash ev) = Inr (ev, b))"
proof -
  let ?es = "sort_key ev_seq (db_events (lg_db l))"
  have ch: "chain_ok GENESIS 1 ?es" and lp: "ledger_problems (lg_db l) = []"
    using ledger_verifies_parts [OF v] by (auto simp: chain_verifies_exact)
  obtain i where i: "i < length ?es" "?es ! i = ev" using ev by (metis in_set_conv_nth set_sort)
  have seq: "ev_seq ev = 1 + int i" using chain_ok_nth [OF ch i(1)] i(2) by simp
  have dg: "is_digest (ev_hash ev)"
    using chain_ok_nth_hash [OF ch i(1)] i(2) by (auto simp: row_hash_def event_hash_def map_sum_Inr_iff)
  have "json_loads (ev_body ev) \<noteq> None"
    using no_problemsD(1) [OF lp] replayed_bodies ev unfolding replay_chain_def by fastforce
  then obtain b where b: "json_loads (ev_body ev) = Some b" by auto
  have split: "?es = take i ?es @ ev # drop (Suc i) ?es" using id_take_nth_drop [OF i(1)] i(2) by simp
  have "filter (\<lambda>q. ev_seq ev - 1 < ev_seq q) (take i ?es) = []"
  proof (rule filter_False, rule ballI)
    fix q assume "q \<in> set (take i ?es)"
    then obtain j where "j < i" "q = ?es ! j" by (auto simp: in_set_conv_nth)
    then show "\<not> ev_seq ev - 1 < ev_seq q" using chain_ok_nth [OF ch, of j] i(1) seq by simp
  qed
  then have f: "filter (\<lambda>q. ev_seq ev - 1 < ev_seq q) ?es = ev # filter (\<lambda>q. ev_seq ev - 1 < ev_seq q) (drop (Suc i) ?es)"
    by (subst split) simp
  have "chain_verifies (Some (ev_seq ev, ev_hash ev)) (lg_db l)" using ch ev by (auto simp: chain_verifies_exact)
  then obtain report where "verify (Some (ev_seq ev, ev_hash ev)) (lg_db l) = Inr report" "cr_problems report = []"
    by (auto simp: chain_verifies_def split: sum.split_asm)
  then have "resolve_event l (ev_seq ev) (ev_hash ev) = Inr (ev, b)" using f b by (simp add: resolve_event_def)
  then show ?thesis using dg seq by (simp add: event_ref_def check_ref_def)
qed

lemma record_resolves:
  assumes "get_record rid (lg_db l) = Inr a" "ar_state a = SEALED" "is_record_id rid"
    and k: "bundle_kept (lg_archive l) (ar_artifact_hash a) (ar_artifact_manifest a)"
  shows "record_ref a = Inr (Record_ref rid (ar_artifact_hash a)) \<and>
    (resolve_record allow l rid (ar_artifact_hash a) = Inr a \<or>
     bundle_collision (lg_archive l) (ar_artifact_hash a) (ar_artifact_manifest a))"
proof -
  have id: "ar_record_id a = rid" using found_record_id [OF assms(1)] .
  obtain x where "sha256 x = ar_artifact_hash a"
    using k by (auto simp: bundle_kept_def bundle_complete_def bundle_collision_def tree_collision_def read_tree_def
        dest!: read_blob_digest split: sum.split_asm)
  then have "is_digest (ar_artifact_hash a)" using is_digest_sha256 [of x] by simp
  moreover have "ar_state a \<in> set (allowed_states allow)" using assms(2) by (simp add: allowed_states_def)
  ultimately show ?thesis using assms id
    by (auto simp: record_ref_def check_ref_def resolve_record_def ref_record_def bundle_kept_def bundle_complete_def dict_eq_iff
        refuse_when_def)
qed

lemma sealed_kept:
  assumes "sealed_complete st" "get_record rid (lg_db st) = Inr a" "ar_state a = SEALED"
  shows "bundle_kept (lg_archive st) (ar_artifact_hash a) (ar_artifact_manifest a)"
proof -
  obtain r where r: "r \<in> set (db_records (lg_db st))" "ar_artifact_hash a = r_artifact_hash r"
    "manifest_of_column (r_artifact_manifest r) = Inr (ar_artifact_manifest a)" "state_of_value (r_state r) = Inr (ar_state a)"
    using get_recordD [OF assms(2)] by blast
  have "r_state r = ''sealed''" using r(4) assms(3) by (auto simp: state_of_value_def split: if_split_asm)
  then show ?thesis using assms(1) r by (auto simp: sealed_complete_def)
qed

text \<open>
  C31. Everything the ledger vouches for can be cited.  In every ledger the program reaches, by any
  interleaving of any processes: the reference of each event resolves to that event; and the
  reference of each sealed record whose id can be written in one resolves to that record - unless
  its manifest and what the archive has under its digest collide.
\<close>

theorem reachable_evidence_resolves:
  assumes "ledger_step\<^sup>*\<^sup>* \<lparr>lg_archive = s, lg_db = empty_database v\<rparr> st"
  shows "(\<forall>ev \<in> set (db_events (lg_db st)).
      \<exists>r b. event_ref ev = Inr r \<and> resolve_ref py allow st r = Inr (Event_found ev b)) \<and>
    (\<forall>rid a. get_record rid (lg_db st) = Inr a \<and> ar_state a = SEALED \<and> is_record_id rid \<longrightarrow>
      (\<exists>r. record_ref a = Inr r \<and>
         (resolve_ref py allow st r = Inr (Record_found a) \<or>
          bundle_collision (lg_archive st) (ar_artifact_hash a) (ar_artifact_manifest a))))"
proof -
  note sound = reachable_ledger_invariant [OF assms]
  have "\<exists>r b. event_ref ev = Inr r \<and> resolve_ref py allow st r = Inr (Event_found ev b)"
    if evs: "ev \<in> set (db_events (lg_db st))" for ev
  proof -
    obtain b where "event_ref ev = Inr (Event_ref (ev_seq ev) (ev_hash ev))" "resolve_event st (ev_seq ev) (ev_hash ev) = Inr (ev, b)"
      using event_resolves [OF conjunct1 [OF sound] evs] by blast
    then show ?thesis by (intro exI [of _ "Event_ref (ev_seq ev) (ev_hash ev)"] exI [of _ b]) (simp add: resolve_ref_def)
  qed
  moreover have "\<exists>r. record_ref a = Inr r \<and> (resolve_ref py allow st r = Inr (Record_found a) \<or>
      bundle_collision (lg_archive st) (ar_artifact_hash a) (ar_artifact_manifest a))"
    if "get_record rid (lg_db st) = Inr a" "ar_state a = SEALED" "is_record_id rid" for rid a
    using record_resolves [OF that sealed_kept [OF _ that(1,2)], of allow] sound
    by (intro exI [of _ "Record_ref rid (ar_artifact_hash a)"]) (auto simp: resolve_ref_def)
  ultimately show ?thesis by blast
qed


definition demo_texts :: texts where
  "demo_texts = \<lparr>tx_str = (\<lambda>v. []), tx_int = (\<lambda>s. None)\<rparr>"

lemma demo_reachable:
  "\<exists>(db :: database) ev. ledger_step\<^sup>*\<^sup>* \<lparr>lg_archive = (\<lambda>p. None), lg_db = empty_database 8\<rparr> \<lparr>lg_archive = (\<lambda>p. None), lg_db = db\<rparr> \<and>
     ev \<in> set (db_events db)"
proof -
  obtain db where db: "tx False (empty_database 8) db" "db_records db = [demo_row ''pending'']"
    using demo_created by blast
  let ?st = "\<lparr>lg_archive = (\<lambda>p. None), lg_db = empty_database 8\<rparr>"
  have "ledger_step ?st (?st\<lparr>lg_db := db\<rparr>)" by (rule step_tx) (simp add: db)
  then have r: "ledger_step\<^sup>*\<^sup>* ?st (?st\<lparr>lg_db := db\<rparr>)" by blast
  then have "ledger_verifies None db" using reachable_ledger_invariant [OF r] by simp
  then have "filter (sets_state ''r'') (sort_key ev_seq (db_events db)) \<noteq> []"
    using verified_record_parts(1) [of None db "demo_row ''pending''"] db(2) by (simp add: demo_row_def)
  then obtain ev where "ev \<in> set (db_events db)" by (metis filter.simps(1) length_0_conv length_sort list.set_intros(1) neq_Nil_conv)
  with r show ?thesis by auto
qed

theorem reachable_evidence_resolves_witness:
  "\<exists>(st :: ledger) ev r b. ev \<in> set (db_events (lg_db st)) \<and> event_ref ev = Inr r \<and>
     resolve_ref demo_texts False st r = Inr (Event_found ev b)"
proof -
  obtain db ev where r: "ledger_step\<^sup>*\<^sup>* \<lparr>lg_archive = (\<lambda>p. None), lg_db = empty_database 8\<rparr> \<lparr>lg_archive = (\<lambda>p. None), lg_db = db\<rparr>"
    and ev: "ev \<in> set (db_events db)" using demo_reachable by blast
  from reachable_evidence_resolves [OF r, of demo_texts False] ev show ?thesis
    by (intro exI [of _ "\<lparr>lg_archive = (\<lambda>p. None), lg_db = db\<rparr>"]) auto
qed

text \<open>One event, resolved in two ledgers with different archives.\<close>

theorem reference_names_one_thing_witness:
  "\<exists>(st :: ledger) r x. resolve_ref demo_texts False st r = Inr x \<and>
     resolve_ref demo_texts True (st\<lparr>lg_archive := (\<lambda>p. Some (Stored ''x''))\<rparr>) r = Inr x \<and> same_evidence x x"
proof -
  obtain db ev where r: "ledger_step\<^sup>*\<^sup>* \<lparr>lg_archive = (\<lambda>p. None), lg_db = empty_database 8\<rparr> \<lparr>lg_archive = (\<lambda>p. None), lg_db = db\<rparr>"
    and ev: "ev \<in> set (db_events db)" using demo_reachable by blast
  let ?l = "\<lparr>lg_archive = (\<lambda>p. None), lg_db = db\<rparr>"
  let ?l' = "\<lparr>lg_archive = (\<lambda>p. Some (Stored ''x'')), lg_db = db\<rparr>" and ?r = "Event_ref (ev_seq ev) (ev_hash ev)"
  have "ledger_verifies None db" using reachable_ledger_invariant [OF r] by simp
  then obtain b where b: "resolve_event ?l (ev_seq ev) (ev_hash ev) = Inr (ev, b)"
    using event_resolves [of ?l ev] ev by auto
  moreover have "resolve_event ?l' n h = resolve_event ?l n h" for n h
    unfolding resolve_event_def ledger.select_convs ..
  ultimately have b': "resolve_event ?l' (ev_seq ev) (ev_hash ev) = Inr (ev, b)" by simp
  have x: "resolve_ref demo_texts False ?l ?r = Inr (Event_found ev b)" "resolve_ref demo_texts True ?l' ?r = Inr (Event_found ev b)"
    using b b' by (simp_all add: resolve_ref_def)
  from reference_names_one_thing [OF x] have "same_evidence (Event_found ev b) (Event_found ev b)"
    by (simp add: Let_def event_collision_def collision_def)
  with x show ?thesis by (intro exI [of _ ?l] exI [of _ ?r] exI [of _ "Event_found ev b"]) simp
qed

end
