(* ===== verification/ReplayEngine.thy ===== *)
theory ReplayEngine
  imports ReplayPolicy Runner
begin

text \<open>
  Replaying a record (\<open>stele/replay/engine.py\<close>, \<open>parsers.py\<close>): its parser is run again, at
  its recorded identity and on its recorded input, and the new output is compared with the
  sealed one.  The outcome is one of five, is logged, and only a divergence leads to
  invalidation.  Parser specifications are records of the functions a deployment supplies;
  the texts of exceptions, UUIDs, times and the platform's name are parameters.
\<close>

section \<open>Parser specifications\<close>

text \<open>A \<open>ComparisonPolicy\<close>; \<open>cp_compare\<close> gives \<open>accepted\<close> and \<open>findings\<close>.\<close>

record comparison_policy =
  cp_describe :: json
  cp_compare :: "manifest \<Rightarrow> manifest \<Rightarrow> archive \<Rightarrow> (bool \<times> string list) result"

text \<open>\<open>JsonTolerancePolicy\<close>, with the texts of its findings a parameter.\<close>

definition json_policy :: "(finding \<Rightarrow> string) \<Rightarrow> policy \<Rightarrow> comparison_policy" where
  "json_policy show po =
     \<lparr>cp_describe = describe po,
      cp_compare = (\<lambda>m n s. map_sum id (\<lambda>fs. (fs = [], map show fs)) (compare_bundles po m n s))\<rparr>"

record base_spec =
  sp_name :: string
  sp_version :: string
  sp_requirements :: parser_requirements
  sp_build :: "path option \<Rightarrow> path \<Rightarrow> json \<Rightarrow> sandbox_config result"
  sp_module_path :: "path option"
  sp_policy :: "comparison_policy option"
  sp_backend :: "(parser_identity option \<Rightarrow> backend result) option"

text \<open>The specification \<open>with_conditions\<close> returns is used instead; it is not asked again.\<close>

record parser_spec = base_spec +
  sp_with_conditions :: "(run_conditions option \<Rightarrow> base_spec result) option"

definition spec_identity :: "string \<Rightarrow> string \<Rightarrow> parser_identity" where
  "spec_identity name version =
     \<lparr>pi_name = name, pi_version = version, pi_image_digest = None, pi_module_sha256 = None\<rparr>"

text \<open>\<open>__post_init__\<close>.\<close>

definition make_spec :: "parser_spec \<Rightarrow> parser_spec result" where
  "make_spec sp = map_sum id (\<lambda>_. sp) (check_identity (spec_identity (sp_name sp) (sp_version sp)))"

definition deterministic :: "'a base_spec_scheme \<Rightarrow> bool" where
  "deterministic sp \<longleftrightarrow> rq_deterministic (sp_requirements sp)"

type_synonym catalog = "(string \<times> string, parser_spec) dict"

definition register_spec :: "parser_spec \<Rightarrow> catalog \<Rightarrow> catalog result" where
  "register_spec sp c =
     (if (sp_name sp, sp_version sp) \<in> set (dict_keys c) then Inl ValueError
      else Inr (AList.update (sp_name sp, sp_version sp) sp c))"

fun make_catalog :: "parser_spec list \<Rightarrow> catalog \<Rightarrow> catalog result" where
  "make_catalog [] c = Inr c"
| "make_catalog (sp # sps) c = (case register_spec sp c of Inl e \<Rightarrow> Inl e | Inr c' \<Rightarrow> make_catalog sps c')"

definition get_spec :: "string \<Rightarrow> string \<Rightarrow> catalog \<Rightarrow> parser_spec option" where
  "get_spec name version c = map_of c (name, version)"

text \<open>
  The host a replay runs on: its registered backends, its file system, its WebAssembly text
  compiler, whether a directory of it can hold a name, and the texts of exceptions.
\<close>

record host =
  ho_backends :: "backend list"
  ho_fs :: file_system
  ho_read :: "path \<Rightarrow> string result"
  ho_wat2wasm :: "string \<Rightarrow> string result"
  ho_link_dir :: "string \<Rightarrow> bool"
  ho_holds :: "string \<Rightarrow> bool"
  ho_str :: "exn \<Rightarrow> string"
  ho_platform :: string

text \<open>\<open>load_wasm_module\<close> and \<open>wasm_module_sha256\<close> (\<open>stele/containment/wasm.py\<close>).\<close>

definition load_wasm_module :: "host \<Rightarrow> path \<Rightarrow> string result" where
  "load_wasm_module h p =
     (case ho_read h p of
        Inl e \<Rightarrow> Inl e
      | Inr raw \<Rightarrow>
          if starts_with (nul # ''asm'') raw then Inr raw
          else if \<not> utf8_ok raw then Inl UnicodeError else ho_wat2wasm h raw)"

definition wasm_module_sha256 :: "host \<Rightarrow> path \<Rightarrow> string result" where
  "wasm_module_sha256 h p = map_sum id sha256 (load_wasm_module h p)"

text \<open>
  \<open>run_parser\<close>: \<open>fs\<close> is what the run finds on disk.  The directory the specification names for
  the output is looked at before and after.
\<close>

definition run_parser ::
  "host \<Rightarrow> string \<Rightarrow> path \<Rightarrow> file_system \<Rightarrow> 'a base_spec_scheme \<Rightarrow> path \<Rightarrow> json \<Rightarrow> path option \<Rightarrow> archive option \<Rightarrow>
   parser_identity option \<Rightarrow> sandbox_result result \<times> places" where
  "run_parser h run_id staging fs sp artifact_dir config input_path store identity =
     (case sp_build sp input_path artifact_dir config of
        Inl e \<Rightarrow> (Inl e, \<lparr>pl_output = None, pl_store = store\<rparr>)
      | Inr cf \<Rightarrow>
          (let out = fs (cf_artifact_dir cf);
               input = (case cf_input_path cf of None \<Rightarrow> None | Some p \<Rightarrow> fs p) in
           case (case sp_backend sp of None \<Rightarrow> Inr (ho_backends h) | Some f \<Rightarrow> map_sum id (\<lambda>b. [b]) (f identity)) of
             Inl e \<Rightarrow> (Inl e, \<lparr>pl_output = out, pl_store = store\<rparr>)
           | Inr bs \<Rightarrow>
               run_in_sandbox run_id staging (ho_link_dir h) bs cf (sp_requirements sp) input out
                 \<lparr>pl_output = out, pl_store = store\<rparr>))"

section \<open>Replay results and their log\<close>

datatype replay_outcome = REPRODUCED | EQUIVALENT | DIVERGED | UNREPLAYABLE | REPLAY_FAILED

fun outcome_value :: "replay_outcome \<Rightarrow> string" where
  "outcome_value REPRODUCED = ''reproduced''"
| "outcome_value EQUIVALENT = ''equivalent''"
| "outcome_value DIVERGED = ''diverged''"
| "outcome_value UNREPLAYABLE = ''unreplayable''"
| "outcome_value REPLAY_FAILED = ''failed''"

definition outcome_of_value :: "string \<Rightarrow> replay_outcome result" where
  "outcome_of_value s =
     (case find (\<lambda>x. outcome_value x = s) [REPRODUCED, EQUIVALENT, DIVERGED, UNREPLAYABLE, REPLAY_FAILED] of
        None \<Rightarrow> Inl ValueError | Some x \<Rightarrow> Inr x)"

record replay_result =
  rp_replay_id :: string
  rp_record_id :: string
  rp_outcome :: replay_outcome
  rp_reason :: string
  rp_run_id :: "string option"
  rp_artifact_hash :: "string option"
  rp_differences :: "string list"
  rp_policy :: "json option"
  rp_backend :: "string option"
  rp_platform :: string
  rp_at :: string

text \<open>\<open>ReplayLog.append\<close>: the row, or what canonicalizing the policy raises.\<close>

definition row_of_result :: "replay_result \<Rightarrow> replay_row result" where
  "row_of_result r =
     map_sum id
       (\<lambda>policy. \<lparr>p_replay_id = rp_replay_id r, p_record_id = rp_record_id r, p_outcome = outcome_value (rp_outcome r),
          p_reason = rp_reason r, p_replay_run_id = rp_run_id r, p_replay_artifact_hash = rp_artifact_hash r,
          p_differences = rp_differences r, p_policy = policy, p_backend = rp_backend r,
          p_platform = rp_platform r, p_replayed_at = rp_at r\<rparr>)
       (case rp_policy r of None \<Rightarrow> Inr None | Some j \<Rightarrow> map_sum id Some (canonical_json j))"

definition replay_append :: "replay_result \<Rightarrow> string \<Rightarrow> database \<Rightarrow> unit result \<times> database" where
  "replay_append r now db =
     (case row_of_result r of
        Inl e \<Rightarrow> (Inl e, db)
      | Inr p \<Rightarrow> log_replay p (case rp_policy r of None \<Rightarrow> JNull | Some j \<Rightarrow> j) now db)"

text \<open>\<open>_row_to_result\<close>.\<close>

definition row_to_result :: "replay_row \<Rightarrow> replay_result result" where
  "row_to_result p =
     (case outcome_of_value (p_outcome p) of
        Inl e \<Rightarrow> Inl e
      | Inr x \<Rightarrow>
          map_sum id
            (\<lambda>policy. \<lparr>rp_replay_id = p_replay_id p, rp_record_id = p_record_id p, rp_outcome = x, rp_reason = p_reason p,
               rp_run_id = p_replay_run_id p, rp_artifact_hash = p_replay_artifact_hash p,
               rp_differences = p_differences p, rp_policy = policy, rp_backend = p_backend p,
               rp_platform = p_platform p, rp_at = p_replayed_at p\<rparr>)
            (case p_policy p of
               None \<Rightarrow> Inr None
             | Some t \<Rightarrow> (case json_loads t of None \<Rightarrow> Inl ValueError | Some j \<Rightarrow> Inr (Some j))))"

fun rows_to_results :: "replay_row list \<Rightarrow> replay_result list result" where
  "rows_to_results [] = Inr []"
| "rows_to_results (p # ps) =
     (case row_to_result p of Inl e \<Rightarrow> Inl e | Inr r \<Rightarrow> map_sum id (\<lambda>rs. r # rs) (rows_to_results ps))"

text \<open>\<open>_select\<close>: ordered by \<open>replayed_at, replay_id\<close>.\<close>

definition select_replays :: "(replay_row \<Rightarrow> bool) \<Rightarrow> database \<Rightarrow> replay_result list result" where
  "select_replays P db = rows_to_results (sort_key p_replayed_at (sort_key p_replay_id (filter P (db_replays db))))"

definition replays_for_record :: "string \<Rightarrow> database \<Rightarrow> replay_result list result" where
  "replays_for_record rid = select_replays (\<lambda>p. p_record_id p = rid)"

definition replays_with_outcome :: "replay_outcome \<Rightarrow> database \<Rightarrow> replay_result list result" where
  "replays_with_outcome x = select_replays (\<lambda>p. p_outcome p = outcome_value x)"

definition all_replays :: "database \<Rightarrow> replay_result list result" where
  "all_replays = select_replays (\<lambda>p. True)"

section \<open>Replaying\<close>

text \<open>A step of a replay: it goes on, it finds the record unreplayable (\<open>_Unreplayable\<close>), or it raises.\<close>

datatype 'a attempt = Going 'a | Unreplayable string | Raising exn

definition ellipsis :: string where
  "ellipsis = [CHR 0xE2, CHR 0x80, CHR 0xA6]"

text \<open>\<open>except (...) as exc: raise _Unreplayable(...)\<close>.\<close>

definition catching :: "(exn \<Rightarrow> bool) \<Rightarrow> (exn \<Rightarrow> string) \<Rightarrow> 'a result \<Rightarrow> 'a attempt" where
  "catching caught msg r =
     (case r of Inr x \<Rightarrow> Going x | Inl e \<Rightarrow> if caught e then Unreplayable (msg e) else Raising e)"

definition is_import_error :: "exn \<Rightarrow> bool" where
  "is_import_error x \<longleftrightarrow> x = OtherError ''ImportError'' \<or> x = OtherError ''ModuleNotFoundError''"

text \<open>The part of \<open>_spec\<close> on the Wasm module.\<close>

definition check_module :: "host \<Rightarrow> 'a base_spec_scheme \<Rightarrow> parser_identity \<Rightarrow> unit attempt" where
  "check_module h sp parser =
     (case pi_module_sha256 parser of
        None \<Rightarrow> Going ()
      | Some wanted \<Rightarrow>
          (case (case sp_module_path sp of
                   None \<Rightarrow> Going None
                 | Some p \<Rightarrow>
                     catching (\<lambda>e. is_os_error e \<or> is_value_error e \<or> is_import_error e)
                       (\<lambda>e. ''Wasm module unavailable: '' @ ho_str h e)
                       (map_sum id Some (wasm_module_sha256 h p))) of
             Unreplayable m \<Rightarrow> Unreplayable m
           | Raising e \<Rightarrow> Raising e
           | Going available \<Rightarrow>
               if available = Some wanted then Going ()
               else Unreplayable
                 (''Wasm module '' @ take 12 wanted @ ellipsis @ '' is unavailable (the catalog's module is '' @
                  (case available of None \<Rightarrow> ''not set'' | Some a \<Rightarrow> take 12 a @ ellipsis) @ '')'')))"

text \<open>The specification for the recorded conditions.\<close>

definition conditioned :: "host \<Rightarrow> parser_spec \<Rightarrow> run_conditions option \<Rightarrow> base_spec attempt" where
  "conditioned h sp rc =
     (case sp_with_conditions sp of
        None \<Rightarrow> Going (base_spec.truncate sp)
      | Some f \<Rightarrow> catching is_value_error (\<lambda>e. ''cannot run the parser as recorded: '' @ ho_str h e) (f rc))"

definition replay_spec :: "host \<Rightarrow> catalog \<Rightarrow> artifact_record \<Rightarrow> base_spec attempt" where
  "replay_spec h c r =
     (case ar_parser r of
        None \<Rightarrow> Unreplayable ''the record has no parser identity (migrated from a pre-#12 ledger)''
      | Some parser \<Rightarrow>
          (case get_spec (pi_name parser) (pi_version parser) c of
             None \<Rightarrow> Unreplayable (''parser '' @ pi_name parser @ '' '' @ pi_version parser @ '' is not in the catalog'')
           | Some sp0 \<Rightarrow>
               (case conditioned h sp0 (ar_run_conditions r) of
                  Unreplayable m \<Rightarrow> Unreplayable m
                | Raising e \<Rightarrow> Raising e
                | Going sp \<Rightarrow>
                    if \<not> deterministic sp \<and> sp_policy sp = None
                    then Unreplayable
                      (''parser '' @ pi_name parser @ '' '' @ pi_version parser @
                       '' is not deterministic and has no comparison policy, so no replay of it can be judged'')
                    else (case check_module h sp parser of
                            Unreplayable m \<Rightarrow> Unreplayable m | Raising e \<Rightarrow> Raising e | Going _ \<Rightarrow> Going sp))))"

text \<open>\<open>_input_name\<close>.\<close>

definition unportable :: "char set" where
  "unportable = set [CHR ''<'', CHR ''>'', CHR '':'', CHR 0x22, CHR ''/'', CHR 0x5C, CHR ''|'', CHR ''?'', CHR ''*'']"

definition dot_or_space :: "char \<Rightarrow> bool" where
  "dot_or_space c \<longleftrightarrow> c = CHR ''.'' \<or> c = CHR '' ''"

definition input_name :: "string option \<Rightarrow> string" where
  "input_name src =
     (let name = (case src of None \<Rightarrow> [] | Some p \<Rightarrow> path_name (path_of p)) in
      if name = [] \<or> name = ''.'' \<or> name = ''..'' \<or> (\<exists>c \<in> set name. c \<in> unportable)
         \<or> dot_or_space (hd name) \<or> dot_or_space (last name)
      then ''input'' else name)"

text \<open>
  \<open>_input\<close>: the destination and what was written there, in a fresh directory; a name the host
  cannot hold makes writing it fail.
\<close>

definition replay_input :: "host \<Rightarrow> path \<Rightarrow> artifact_record \<Rightarrow> archive \<Rightarrow> (path \<times> node) option attempt" where
  "replay_input h work r s =
     (case ar_source_hash r of
        None \<Rightarrow> Going None
      | Some digest \<Rightarrow>
          (let name = input_name (ar_source_path r); destination = path_join work [''input'', name] in
           catching (\<lambda>e. is_archive_error e \<or> is_os_error e \<or> is_value_error e)
             (\<lambda>e. ''input Snapshot '' @ take 12 digest @ ellipsis @ '' is unavailable: '' @ ho_str h e)
             (case ar_source_kind r of
                None \<Rightarrow> Inl ValueError
              | Some kind \<Rightarrow>
                  (case get_snapshot s digest kind of
                     Inl e \<Rightarrow> Inl e
                   | Inr snap \<Rightarrow>
                       if \<not> ho_holds h name then Inl OSError
                       else (case materialize_snapshot s snap None of
                               (Inl e, _) \<Rightarrow> Inl e
                             | (Inr _, None) \<Rightarrow> Inr None
                             | (Inr _, Some n) \<Rightarrow> Inr (Some (destination, n)))))))"

definition differing_paths :: "manifest \<Rightarrow> manifest \<Rightarrow> string list" where
  "differing_paths recorded replayed =
     filter (\<lambda>p. map_of recorded p \<noteq> map_of replayed p) (sort (remdups (map fst recorded @ map fst replayed)))"

text \<open>What a replay is judged: the outcome, its reason, the differences and the policy.\<close>

type_synonym judgement = "replay_outcome \<times> string \<times> string list \<times> json option"

definition judge :: "base_spec \<Rightarrow> manifest \<Rightarrow> manifest \<Rightarrow> archive \<Rightarrow> judgement result" where
  "judge sp recorded replayed s =
     (let differing = differing_paths recorded replayed in
      if differing = [] \<and> deterministic sp
      then Inr (REPRODUCED, ''byte-identical output from a deterministic replay'', [], None)
      else case sp_policy sp of
        Some po \<Rightarrow>
          map_sum id
            (\<lambda>(accepted, findings).
               if accepted
               then (EQUIVALENT, ''accepted by the comparison policy; not proof of reproduction'', differing, Some (cp_describe po))
               else (DIVERGED, ''outside the comparison policy'', findings, Some (cp_describe po)))
            (cp_compare po recorded replayed s)
      | None \<Rightarrow>
          Inr (DIVERGED, show_nat (length differing) @ '' artifact(s) differ from a deterministic parser's record'',
               differing, None))"

text \<open>The checks of the run that was made, and its judgement.\<close>

definition same_digest :: "string \<Rightarrow> string option \<Rightarrow> string option \<Rightarrow> unit attempt" where
  "same_digest field recorded measured =
     (case recorded of
        None \<Rightarrow> Going ()
      | Some d \<Rightarrow>
          if measured = recorded then Going ()
          else Unreplayable
            (''parser identity unavailable: recorded '' @ field @ '' '' @ d @ '', the replay ran '' @
             (case measured of None \<Rightarrow> ''None'' | Some m \<Rightarrow> m)))"

definition show_bool :: "bool \<Rightarrow> string" where
  "show_bool b = (if b then ''True'' else ''False'')"

definition judge_run ::
  "base_spec \<Rightarrow> artifact_record \<Rightarrow> parser_identity \<Rightarrow> sandbox_result \<Rightarrow> archive \<Rightarrow> judgement attempt" where
  "judge_run sp r parser run s =
     (case same_digest ''image_digest'' (pi_image_digest parser) (sr_image_digest run) of
        Unreplayable m \<Rightarrow> Unreplayable m
      | Raising e \<Rightarrow> Raising e
      | Going _ \<Rightarrow>
     (case same_digest ''module_sha256'' (pi_module_sha256 parser) (sr_module_sha256 run) of
        Unreplayable m \<Rightarrow> Unreplayable m
      | Raising e \<Rightarrow> Raising e
      | Going _ \<Rightarrow>
          if sr_input_sha256 run \<noteq> ar_source_hash r
          then Unreplayable ''the materialized input does not hash to the recorded Snapshot''
          else if \<not> succeeded run
          then Going (REPLAY_FAILED, ''the replay run failed (exit code '' @ show_int (sr_exit_code run) @ '', timed out: '' @
                      show_bool (sr_timed_out run) @ ''); no output was compared'', [], None)
          else (case judge sp (ar_artifact_manifest r) (sr_artifact_digests run) s of Inl e \<Rightarrow> Raising e | Inr j \<Rightarrow> Going j)))"

text \<open>
  \<open>_execute\<close> up to the run: the configuration is built once to see that it can be, and the run
  then goes the way a first run does.
\<close>

definition config_or_empty :: "json option \<Rightarrow> json" where
  "config_or_empty c = (case c of None \<Rightarrow> JObj [] | Some j \<Rightarrow> j)"

definition replay_run ::
  "host \<Rightarrow> string \<Rightarrow> path \<Rightarrow> path \<Rightarrow> base_spec \<Rightarrow> artifact_record \<Rightarrow> archive \<Rightarrow> sandbox_result attempt \<times> archive" where
  "replay_run h run_id staging work sp r s =
     (case replay_input h work r s of
        Unreplayable m \<Rightarrow> (Unreplayable m, s)
      | Raising e \<Rightarrow> (Raising e, s)
      | Going input \<Rightarrow>
          (let input_path = map_option fst input; output = path_join work [''output''];
               config = config_or_empty (ar_parser_config r);
               fs = (\<lambda>p. if map_option fst input = Some p then map_option snd input
                         else if p = output then None else ho_fs h p);
               no_backend = (\<lambda>e. ''no capable backend: '' @ ho_str h e);
               refused = (\<lambda>e. is_value_error e \<or> e = TypeError \<or> e = KeyError) in
           case sp_build sp input_path output config of
             Inl e \<Rightarrow>
               (if refused e then Unreplayable (''cannot run the parser as recorded: '' @ ho_str h e)
                else if is_unsupported e then Unreplayable (no_backend e) else Raising e, s)
           | Inr _ \<Rightarrow>
               (case run_parser h run_id staging fs sp output config input_path (Some s) (ar_parser r) of
                  (res, pl) \<Rightarrow>
                    (catching is_unsupported no_backend res, case pl_store pl of None \<Rightarrow> s | Some s' \<Rightarrow> s'))))"

text \<open>\<open>_result\<close>; \<open>run\<close> is there once a run was made.\<close>

definition replay_result_of ::
  "host \<Rightarrow> string \<Rightarrow> string \<Rightarrow> artifact_record \<Rightarrow> sandbox_result option \<Rightarrow> judgement \<Rightarrow> replay_result" where
  "replay_result_of h replay_id now r run j =
     (case j of (x, reason, differences, policy) \<Rightarrow>
        \<lparr>rp_replay_id = replay_id, rp_record_id = ar_record_id r, rp_outcome = x, rp_reason = reason,
         rp_run_id = map_option sr_run_id run,
         rp_artifact_hash = (case run of None \<Rightarrow> None | Some q \<Rightarrow> sr_bundle_digest q),
         rp_differences = differences, rp_policy = policy,
         rp_backend = (case run of None \<Rightarrow> None | Some q \<Rightarrow> sr_backend q),
         rp_platform = ho_platform h, rp_at = now\<rparr>)"

definition unreplayable_as :: "string \<Rightarrow> judgement" where
  "unreplayable_as m = (UNREPLAYABLE, m, [], None)"

text \<open>\<open>_Replay.run\<close>.\<close>

definition run_replay ::
  "host \<Rightarrow> env \<Rightarrow> path \<Rightarrow> path \<Rightarrow> catalog \<Rightarrow> artifact_record \<Rightarrow> archive \<Rightarrow> replay_result result \<times> archive" where
  "run_replay h env staging work c r s =
     (let result = replay_result_of h (en_uuid env 0) (en_time env 0) r in
      case replay_spec h c r of
        Unreplayable m \<Rightarrow> (Inr (result None (unreplayable_as m)), s)
      | Raising e \<Rightarrow> (Inl e, s)
      | Going sp \<Rightarrow>
          (case replay_run h (en_uuid env 1) staging work sp r s of
             (Unreplayable m, s') \<Rightarrow> (Inr (result None (unreplayable_as m)), s')
           | (Raising e, s') \<Rightarrow> (Inl e, s')
           | (Going run, s') \<Rightarrow>
               (case judge_run sp r (the (ar_parser r)) run s' of
                  Unreplayable m \<Rightarrow> (Inr (result (Some run) (unreplayable_as m)), s')
                | Raising e \<Rightarrow> (Inl e, s')
                | Going j \<Rightarrow> (Inr (result (Some run) j), s'))))"

definition replay_record ::
  "host \<Rightarrow> env \<Rightarrow> path \<Rightarrow> path \<Rightarrow> catalog \<Rightarrow> string \<Rightarrow> ledger \<Rightarrow> replay_result result \<times> ledger" where
  "replay_record h env staging work c rid st =
     (case get_record rid (lg_db st) of
        Inl e \<Rightarrow> (Inl e, st)
      | Inr live \<Rightarrow>
          if ar_state live \<noteq> SEALED \<and> ar_state live \<noteq> INVALIDATED then (Inl ValueError, st)
          else (case run_replay h env staging work c live (lg_archive st) of
                  (Inl e, s') \<Rightarrow> (Inl e, st\<lparr>lg_archive := s'\<rparr>)
                | (Inr result, s') \<Rightarrow>
                    (case replay_append result (en_time env 1) (lg_db st) of
                       (Inl e, db) \<Rightarrow> (Inl e, \<lparr>lg_archive = s', lg_db = db\<rparr>)
                     | (Inr _, db) \<Rightarrow> (Inr result, \<lparr>lg_archive = s', lg_db = db\<rparr>))))"

fun replay_records ::
  "host \<Rightarrow> (nat \<Rightarrow> env) \<Rightarrow> path \<Rightarrow> path \<Rightarrow> catalog \<Rightarrow> string list \<Rightarrow> ledger \<Rightarrow> replay_result list result \<times> ledger" where
  "replay_records h envs staging work c [] st = (Inr [], st)"
| "replay_records h envs staging work c (rid # rids) st =
     (case replay_record h (envs 0) staging work c rid st of
        (Inl e, st') \<Rightarrow> (Inl e, st')
      | (Inr r, st') \<Rightarrow>
          (case replay_records h (\<lambda>n. envs (Suc n)) staging work c rids st' of
             (Inl e, st'') \<Rightarrow> (Inl e, st'')
           | (Inr rs, st'') \<Rightarrow> (Inr (r # rs), st'')))"

fun invalidate_diverged ::
  "'w registry \<Rightarrow> (nat \<Rightarrow> env) \<Rightarrow> replay_result list \<Rightarrow> 'w system \<Rightarrow> removal_result list result \<times> 'w system" where
  "invalidate_diverged reg envs [] sys = (Inr [], sys)"
| "invalidate_diverged reg envs (r # rs) sys =
     (if rp_outcome r = DIVERGED then
        (case invalidate_and_retract reg (envs 0) (rp_record_id r)
                (reason_value REPLAY_DIVERGED @ em_dash @ ''replay '' @ rp_replay_id r @ '': '' @ rp_reason r) sys of
           (Inl e, sys') \<Rightarrow> (Inl e, sys')
         | (Inr xs, sys') \<Rightarrow>
             (case invalidate_diverged reg (\<lambda>n. envs (Suc n)) rs sys' of
                (Inl e, sys'') \<Rightarrow> (Inl e, sys'')
              | (Inr ys, sys'') \<Rightarrow> (Inr (xs @ ys), sys'')))
      else invalidate_diverged reg (\<lambda>n. envs (Suc n)) rs sys)"

section \<open>What an outcome means\<close>

lemma catching_simps:
  "catching P m r = Going x \<longleftrightarrow> r = Inr x"
  "catching P m r = Raising e \<longleftrightarrow> r = Inl e \<and> \<not> P e"
  by (auto simp: catching_def split: sum.splits if_splits)

lemma same_digest_Going: "same_digest f d m = Going u \<longleftrightarrow> (case d of None \<Rightarrow> True | Some x \<Rightarrow> m = Some x)"
  by (auto simp: same_digest_def split: option.splits if_splits)

lemma differing_paths_empty: "differing_paths m n = [] \<longleftrightarrow> map_of m = map_of n"
proof
  assume "differing_paths m n = []"
  then have same: "map_of m p = map_of n p" if "p \<in> fst ` set m \<union> fst ` set n" for p
    using that by (auto simp: differing_paths_def filter_empty_conv)
  show "map_of m = map_of n"
  proof
    fix p
    show "map_of m p = map_of n p"
    proof (cases "p \<in> fst ` set m \<union> fst ` set n")
      case False
      then show ?thesis by (simp add: map_of_eq_None_iff [THEN iffD2])
    qed (rule same)
  qed
qed (simp add: differing_paths_def)

text \<open>The backend a specification is run on: the first that can, of its own or of the host's.\<close>

definition chosen_backend :: "host \<Rightarrow> 'a base_spec_scheme \<Rightarrow> parser_identity option \<Rightarrow> backend option" where
  "chosen_backend h sp identity =
     (case (case sp_backend sp of None \<Rightarrow> Inr (ho_backends h) | Some f \<Rightarrow> map_sum id (\<lambda>b. [b]) (f identity)) of
        Inl e \<Rightarrow> None
      | Inr bs \<Rightarrow> (case select_backend (sp_requirements sp) bs of Inl e \<Rightarrow> None | Inr b \<Rightarrow> Some b))"

text \<open>A run at the recorded image and module, on the recorded input.\<close>

definition as_recorded :: "artifact_record \<Rightarrow> sandbox_result \<Rightarrow> bool" where
  "as_recorded r run \<longleftrightarrow>
     sr_input_sha256 run = ar_source_hash r \<and>
     (case ar_parser r of
        None \<Rightarrow> False
      | Some parser \<Rightarrow>
          (case pi_image_digest parser of None \<Rightarrow> True | Some d \<Rightarrow> sr_image_digest run = Some d) \<and>
          (case pi_module_sha256 parser of None \<Rightarrow> True | Some d \<Rightarrow> sr_module_sha256 run = Some d))"

text \<open>
  What is so of the run behind a replay: it was made on the chosen backend, which was available and
  has the capabilities the specification requires, at the recorded image and module, on the
  recorded input; the result names it; and when it succeeded, the store holds every file of
  its output.
\<close>

definition replayed_by ::
  "host \<Rightarrow> artifact_record \<Rightarrow> archive \<Rightarrow> replay_result \<Rightarrow> base_spec \<Rightarrow> sandbox_result \<Rightarrow> bool" where
  "replayed_by h r s q sp run \<longleftrightarrow>
     (case chosen_backend h sp (ar_parser r) of
        None \<Rightarrow> False
      | Some b \<Rightarrow> sr_backend run = Some (bk_name b) \<and> bk_available b \<and>
          required_capabilities (sp_requirements sp) \<subseteq> bk_capabilities b) \<and>
     as_recorded r run \<and>
     rp_run_id q = Some (sr_run_id run) \<and> rp_artifact_hash q = sr_bundle_digest run \<and> rp_backend q = sr_backend run \<and>
     (succeeded run \<longrightarrow> manifest_readable s (sr_artifact_digests run))"

text \<open>What each outcome says of that run.\<close>

definition outcome_holds :: "artifact_record \<Rightarrow> archive \<Rightarrow> replay_result \<Rightarrow> base_spec \<Rightarrow> sandbox_result \<Rightarrow> bool" where
  "outcome_holds r s q sp run \<longleftrightarrow>
     (case rp_outcome q of
        REPRODUCED \<Rightarrow> succeeded run \<and> deterministic sp \<and> map_of (sr_artifact_digests run) = map_of (ar_artifact_manifest r)
      | EQUIVALENT \<Rightarrow> succeeded run \<and>
          (\<exists>po fs. sp_policy sp = Some po \<and> cp_compare po (ar_artifact_manifest r) (sr_artifact_digests run) s = Inr (True, fs))
      | DIVERGED \<Rightarrow> succeeded run \<and>
          (case sp_policy sp of
             None \<Rightarrow> deterministic sp \<and> map_of (sr_artifact_digests run) \<noteq> map_of (ar_artifact_manifest r)
           | Some po \<Rightarrow> cp_compare po (ar_artifact_manifest r) (sr_artifact_digests run) s = Inr (False, rp_differences q))
      | REPLAY_FAILED \<Rightarrow> \<not> succeeded run
      | UNREPLAYABLE \<Rightarrow> True)"

lemma store_outputs_readable:
  assumes "store_outputs dir out ps (Some t) = (Inr (m, b), s')"
  shows "\<exists>s. s' = Some s \<and> manifest_readable s m"
proof -
  from assms obtain t1 s d where ing: "ingest_artifacts out dir ps t = (Inr m, t1)" and tree: "put_tree m t1 = (Inr d, s)"
    and "s' = Some s"
    by (auto simp: store_outputs_def split: sum.splits prod.splits)
  then show ?thesis
    using manifest_readable_extends [OF put_tree_extends [OF tree] ingest_artifacts_InrD(3) [OF ing]] by blast
qed

lemma run_readable:
  assumes "run_in_sandbox rid staging ld bs cf req input followed pl = (Inr run, pl')" "pl_store pl = Some s"
  shows "\<exists>s' (b :: backend). pl_store pl' = Some s' \<and> extends s s' \<and> select_backend req bs = Inr b \<and> sr_backend run = Some (bk_name b) \<and> bk_available b \<and>
    required_capabilities req \<subseteq> bk_capabilities b \<and> (succeeded run \<longrightarrow> manifest_readable s' (sr_artifact_digests run))"
proof -
  from run_InrD [OF assms(1)] obtain b :: backend and p :: prepared and t x out where
    b: "select_backend req bs = Inr b" and p: "prepare_input staging cf input (Some s) = (Inr p, t)" and
    f: "finish_run rid ld cf (bk_name b) (followed = None) p x \<lparr>pl_output = out, pl_store = t\<rparr> = (Inr run, pl')"
    unfolding assms(2) by blast
  obtain s' where s': "pl_store pl' = Some s'" "extends s s'" using run_extends [OF assms(1)] assms(2) by auto
  obtain t' where t': "t = Some t'" using prepare_input_extends [OF p] by auto
  have "manifest_readable s' (sr_artifact_digests run)" if "succeeded run"
  proof -
    have "sr_failure run = None" using that by (simp add: succeeded_def)
    then show ?thesis using finish_run_InrD [OF f] store_outputs_readable s'(1) t' by fastforce
  qed
  then show ?thesis using s' b select_backend_Inr [OF b] finish_run_InrD [OF f] by blast
qed

lemma run_parser_extends:
  assumes "run_parser h rid staging fs sp dir config ip (Some s) ident = (res, pl)"
  shows "\<exists>s'. pl_store pl = Some s' \<and> extends s s'"
  using assms by (auto simp: run_parser_def Let_def extends_refl split: sum.splits dest!: run_extends)

lemma run_parser_readable:
  assumes "run_parser h rid staging fs sp dir config ip (Some s) ident = (Inr run, pl)"
  shows "\<exists>s' (b :: backend). pl_store pl = Some s' \<and> extends s s' \<and> chosen_backend h sp ident = Some b \<and> sr_backend run = Some (bk_name b) \<and> bk_available b \<and>
    required_capabilities (sp_requirements sp) \<subseteq> bk_capabilities b \<and>
    (succeeded run \<longrightarrow> manifest_readable s' (sr_artifact_digests run))"
proof -
  from assms obtain cf bs pl0 where cf: "sp_build sp ip dir config = Inr cf"
    and bs: "(case sp_backend sp of None \<Rightarrow> Inr (ho_backends h) | Some f \<Rightarrow> map_sum id (\<lambda>b. [b]) (f ident)) = Inr bs"
    and run: "run_in_sandbox rid staging (ho_link_dir h) bs cf (sp_requirements sp)
      (case cf_input_path cf of None \<Rightarrow> None | Some p \<Rightarrow> fs p) (fs (cf_artifact_dir cf)) pl0 = (Inr run, pl)"
    and pl0: "pl_store pl0 = Some s"
    by (auto simp: run_parser_def Let_def split: sum.splits)
  from run_readable [OF run pl0] show ?thesis by (auto simp: chosen_backend_def bs)
qed

lemma replay_run_extends:
  assumes "replay_run h rid staging work sp r s = (a, s')"
  shows "extends s s'"
  using assms by (auto simp: replay_run_def Let_def extends_refl split: attempt.splits sum.splits prod.splits option.splits
      dest!: run_parser_extends)

lemma replay_run_Going:
  assumes "replay_run h rid staging work sp r s = (Going run, s')"
  shows "\<exists>b :: backend. chosen_backend h sp (ar_parser r) = Some b \<and> sr_backend run = Some (bk_name b) \<and> bk_available b \<and>
    required_capabilities (sp_requirements sp) \<subseteq> bk_capabilities b \<and>
    (succeeded run \<longrightarrow> manifest_readable s' (sr_artifact_digests run))"
  using assms by (auto simp: replay_run_def Let_def catching_simps split: attempt.splits sum.splits prod.splits if_splits
      dest!: run_parser_readable)

lemma judge_means:
  assumes "judge sp m n s = Inr (x, reason, ds, po)"
  shows "case x of
      REPRODUCED \<Rightarrow> deterministic sp \<and> map_of n = map_of m
    | EQUIVALENT \<Rightarrow> \<exists>po fs. sp_policy sp = Some po \<and> cp_compare po m n s = Inr (True, fs)
    | DIVERGED \<Rightarrow> (case sp_policy sp of
          None \<Rightarrow> \<not> (map_of n = map_of m \<and> deterministic sp)
        | Some po \<Rightarrow> cp_compare po m n s = Inr (False, ds))
    | _ \<Rightarrow> False"
    "po = None \<or> (\<exists>p. sp_policy sp = Some p \<and> po = Some (cp_describe p))"
  using assms by (auto simp: judge_def Let_def differing_paths_empty map_sum_Inr_iff split: if_splits option.splits)

lemma replay_spec_Going:
  "replay_spec h c r = Going sp \<Longrightarrow> \<exists>parser. ar_parser r = Some parser \<and> (sp_policy sp = None \<longrightarrow> deterministic sp)"
  by (auto simp: replay_spec_def split: option.splits attempt.splits if_splits)

text \<open>What a judgement of a run says: the checks it passed, and that its outcome holds.\<close>

lemma judge_run_recorded:
  assumes "ar_parser r = Some parser"
  shows "judge_run sp r parser run s = Going j \<Longrightarrow> as_recorded r run"
    "judge_run sp r parser run s = Unreplayable m \<Longrightarrow> \<not> as_recorded r run"
proof -
  have same: "same_digest f d m = Unreplayable t \<longleftrightarrow> t =
      ''parser identity unavailable: recorded '' @ f @ '' '' @ the d @ '', the replay ran '' @ (case m of None \<Rightarrow> ''None'' | Some x \<Rightarrow> x) \<and>
      \<not> (case d of None \<Rightarrow> True | Some x \<Rightarrow> m = Some x)" "same_digest f d m \<noteq> Raising e" for f d m t e
    by (auto simp: same_digest_def split: option.splits if_splits)
  show "judge_run sp r parser run s = Going j \<Longrightarrow> as_recorded r run"
    using assms by (auto simp: judge_run_def same_digest_Going as_recorded_def split: attempt.splits if_splits)
  show "judge_run sp r parser run s = Unreplayable m \<Longrightarrow> \<not> as_recorded r run"
    using assms by (auto simp: judge_run_def same as_recorded_def split: attempt.splits if_splits sum.splits)
qed

lemma judge_run_replayable:
  assumes "judge_run sp r parser run s = Going (x, reason, ds, po)"
  shows "x \<noteq> UNREPLAYABLE"
  using assms judge_means(1) by (fastforce simp: judge_run_def split: attempt.splits if_splits sum.splits)

lemma judge_run_outcome:
  assumes "judge_run sp r parser run s = Going (x, reason, ds, po)" "sp_policy sp = None \<longrightarrow> deterministic sp"
    "rp_outcome q = x" "rp_differences q = ds"
  shows "outcome_holds r s q sp run"
proof -
  have out: "x = REPLAY_FAILED \<and> \<not> succeeded run \<or>
      succeeded run \<and> judge sp (ar_artifact_manifest r) (sr_artifact_digests run) s = Inr (x, reason, ds, po)"
    using assms(1) by (auto simp: judge_run_def split: attempt.splits if_splits sum.splits)
  show ?thesis
  proof (cases "succeeded run")
    case True
    then have "judge sp (ar_artifact_manifest r) (sr_artifact_digests run) s = Inr (x, reason, ds, po)" using out by simp
    from judge_means(1) [OF this] show ?thesis
      using assms(2-4) True by (cases x; cases "sp_policy sp") (simp_all add: outcome_holds_def)
  next
    case False
    then show ?thesis using out assms(3) by (auto simp: outcome_holds_def)
  qed
qed

lemma reproduced_deterministic:
  assumes "replayed_by h r s q sp run" "outcome_holds r s q sp run" "rp_outcome q = REPRODUCED"
  shows "\<exists>b. chosen_backend h sp (ar_parser r) = Some b \<and> DETERMINISTIC \<in> bk_capabilities b"
  using assms required_mono(4) by (auto simp: replayed_by_def outcome_holds_def deterministic_def split: option.splits)

text \<open>
  C8.  What a replay's outcome says is true of the run it made, and no outcome says more.  Unless
  the outcome is UNREPLAYABLE the specification for the record was found and its run was made,
  on the backend chosen for it, at the recorded image and module and on the recorded input;
  the result carries that run's id, backend and output hash; and the archive holds what a
  successful run wrote.  REPRODUCED: this run succeeded, the specification requires a
  deterministic backend and the chosen one is, and it gave exactly the recorded files with the
  recorded hashes.  EQUIVALENT: it succeeded and the comparison policy accepted its output.
  DIVERGED: it succeeded and the policy rejected its output, or, without a policy, some file of
  a deterministic parser differs.  FAILED: it did not succeed.  UNREPLAYABLE: no specification
  was found, or no run could be made, or the run was not at the recorded image and module or
  not on the recorded input.
\<close>

theorem replay_outcome_means:
  "case run_replay h env staging work c r s of (res, s') \<Rightarrow>
     extends s s' \<and>
     (case res of
        Inl e \<Rightarrow> True
      | Inr q \<Rightarrow> rp_record_id q = ar_record_id r \<and>
          (case replay_spec h c r of
             Going sp \<Rightarrow>
               (case replay_run h (en_uuid env 1) staging work sp r s of
                  (Going run, s2) \<Rightarrow> s2 = s' \<and>
                    (if rp_outcome q = UNREPLAYABLE then \<not> as_recorded r run
                     else replayed_by h r s' q sp run \<and> outcome_holds r s' q sp run \<and>
                       (if rp_outcome q = REPRODUCED
                        then (case chosen_backend h sp (ar_parser r) of None \<Rightarrow> False | Some b \<Rightarrow> DETERMINISTIC \<in> bk_capabilities b)
                        else True))
                | (Unreplayable m, s2) \<Rightarrow> rp_outcome q = UNREPLAYABLE
                | (Raising e, s2) \<Rightarrow> False)
           | Unreplayable m \<Rightarrow> rp_outcome q = UNREPLAYABLE
           | Raising e \<Rightarrow> False))"
proof (cases "replay_spec h c r")
  case (Going sp)
  obtain a s' where a: "replay_run h (en_uuid env 1) staging work sp r s = (a, s')"
    by (cases "replay_run h (en_uuid env 1) staging work sp r s")
  note ext = replay_run_extends [OF a]
  show ?thesis
  proof (cases a)
    case run: (Going run)
    obtain parser where parser: "ar_parser r = Some parser" "sp_policy sp = None \<longrightarrow> deterministic sp"
      using replay_spec_Going [OF Going] by (elim exE conjE) (rule that)
    show ?thesis
    proof (cases "judge_run sp r parser run s'")
      case j: (Going j)
      obtain x reason ds po where x: "j = (x, reason, ds, po)" by (cases j)
      define q where "q = replay_result_of h (en_uuid env 0) (en_time env 0) r (Some run) j"
      have q: "run_replay h env staging work c r s = (Inr q, s')"
        using Going a run j parser by (simp add: run_replay_def q_def)
      have rb: "replayed_by h r s' q sp run"
        using replay_run_Going [OF a [unfolded run]] judge_run_recorded(1) [OF parser(1) j]
        by (auto simp: replayed_by_def q_def replay_result_of_def x)
      have oh: "outcome_holds r s' q sp run"
        by (rule judge_run_outcome [OF j [unfolded x] parser(2)]) (simp_all add: q_def replay_result_of_def x)
      have "rp_record_id q = ar_record_id r" by (simp add: q_def replay_result_of_def x)
      then show ?thesis
        using ext rb oh reproduced_deterministic [OF rb oh] judge_run_replayable [OF j [unfolded x]] unfolding q
        by (auto simp: Going a [unfolded One_nat_def] run q_def replay_result_of_def x)
    qed (use Going a run ext parser judge_run_recorded(2) [OF parser(1)]
         in \<open>simp_all add: run_replay_def replay_result_of_def unreplayable_as_def\<close>)
  qed (use Going a ext in \<open>simp_all add: run_replay_def replay_result_of_def unreplayable_as_def\<close>)
qed (simp_all add: run_replay_def replay_result_of_def unreplayable_as_def extends_refl)

section \<open>Identical output never diverges\<close>

lemma compare_bundles_same:
  assumes "map_of m = map_of n"
  shows "compare_bundles po m n s = Inr []"
proof -
  have "fst ` set m = fst ` set n" using assms by (metis dom_map_of_conv_image_fst)
  then show ?thesis by (simp add: compare_bundles_nil paths_agree_def digest_of_def assms)
qed

text \<open>
  Identical output is never judged a divergence: when a replay's files and hashes are the
  recorded ones, and the parser is deterministic or judged by a JSON tolerance policy -
  whatever its tolerances and ignored keys - judging raises nothing and the outcome is
  REPRODUCED for a deterministic parser and EQUIVALENT otherwise.
\<close>

theorem identical_output_never_diverges:
  assumes "map_of m = map_of n" "if deterministic sp then True else sp_policy sp = Some (json_policy show po)"
  shows "\<exists>reason pol. judge sp m n s = Inr (if deterministic sp then REPRODUCED else EQUIVALENT, reason, [], pol)"
proof -
  have d: "differing_paths m n = []" using assms(1) by (simp add: differing_paths_empty)
  then show ?thesis
    using assms(2) compare_bundles_same [OF assms(1)] by (simp add: judge_def Let_def json_policy_def split: if_splits)
qed

section \<open>The log of replays\<close>

lemma outcome_roundtrip: "outcome_of_value (outcome_value x) = Inr x"
  by (cases x) (simp_all add: outcome_of_value_def)

lemma outcome_value_valid: "outcome_value x \<in> set replay_outcomes"
  by (cases x) (simp_all add: replay_outcomes_def)

text \<open>What is logged reads back as it was, the policy's members sorted.\<close>

lemma row_roundtrip:
  assumes "row_of_result q = Inr p" "case rp_policy q of None \<Rightarrow> True | Some j \<Rightarrow> json_rep j"
  shows "row_to_result p = Inr (q\<lparr>rp_policy := map_option jsort (rp_policy q)\<rparr>)"
proof (cases "rp_policy q")
  case None
  then show ?thesis using assms(1) by (auto simp: row_of_result_def row_to_result_def outcome_roundtrip)
next
  case (Some j)
  then obtain t where t: "canonical_json j = Inr t" using assms(1) by (auto simp: row_of_result_def map_sum_Inr_iff)
  then have "json_loads t = Some (jsort j)" using canonical_json_loads canonical_json_rep_ok assms(2) Some by auto
  then show ?thesis using assms(1) Some t by (auto simp: row_of_result_def row_to_result_def outcome_roundtrip)
qed

lemma log_replay_frame:
  assumes "log_replay p policy now db = (Inr u, db')"
  shows "db_records db' = db_records db" "db_deliveries db' = db_deliveries db"
    "db_delivery_events db' = db_delivery_events db" "db_replays db' = db_replays db @ [p]"
proof -
  from assms obtain ev db1 where ins: "insert_replay p db = (Inr (), db1)"
    and ev: "append_event ''replay.logged'' (p_replay_id p) (replay_body p policy) now db1 = (Inr ev, db')"
    unfolding log_replay_def write_transaction_Inr by (auto split: prod.splits sum.splits)
  note f = append_event_frame [OF ev]
  have "db1 = db\<lparr>db_replays := db_replays db @ [p]\<rparr>" using ins by (auto simp: insert_replay_def split: if_splits)
  then show "db_records db' = db_records db" "db_deliveries db' = db_deliveries db"
    "db_delivery_events db' = db_delivery_events db" "db_replays db' = db_replays db @ [p]"
    using f by simp_all
qed

lemma replay_append_frame:
  assumes "replay_append q now db = (res, db')" "case rp_policy q of None \<Rightarrow> True | Some j \<Rightarrow> json_rep j"
  shows "tx False db db' \<and>
    (case res of
       Inl e \<Rightarrow> db' = db
     | Inr u \<Rightarrow> db_records db' = db_records db \<and> db_deliveries db' = db_deliveries db \<and>
         db_delivery_events db' = db_delivery_events db \<and>
         (\<exists>p. db_replays db' = db_replays db @ [p] \<and> p_record_id p = rp_record_id q \<and>
            row_to_result p = Inr (q\<lparr>rp_policy := map_option jsort (rp_policy q)\<rparr>)))"
proof (cases "row_of_result q")
  case (Inl e)
  then show ?thesis using assms(1) by (auto simp: replay_append_def intro: tx_none)
next
  case (Inr p)
  let ?policy = "case rp_policy q of None \<Rightarrow> JNull | Some j \<Rightarrow> j"
  have l: "log_replay p ?policy now db = (res, db')" using assms(1) Inr by (simp add: replay_append_def)
  have rep: "json_rep ?policy" using assms(2) by (simp split: option.splits)
  have pid: "p_record_id p = rp_record_id q" using Inr by (auto simp: row_of_result_def map_sum_Inr_iff)
  show ?thesis
  proof (cases res)
    case (Inl e)
    then have "db' = db" using l write_transaction_Inl by (auto simp: log_replay_def)
    then show ?thesis using log_replay_tx [OF l rep] Inl by simp
  next
    case u: (Inr u)
    show ?thesis
      using log_replay_tx [OF l rep] log_replay_frame [OF l [unfolded u]] row_roundtrip [OF Inr assms(2)] pid u by simp
  qed
qed

text \<open>A policy a deployment supplies describes itself with JSON that Python can hold.\<close>

definition described :: "host \<Rightarrow> catalog \<Rightarrow> bool" where
  "described h c \<longleftrightarrow> (\<forall>r sp po. replay_spec h c r = Going sp \<longrightarrow> sp_policy sp = Some po \<longrightarrow> json_rep (cp_describe po))"

lemma run_replay_policy:
  assumes "run_replay h env staging work c r s = (Inr q, s')" "described h c"
  shows "rp_record_id q = ar_record_id r \<and> (case rp_policy q of None \<Rightarrow> True | Some j \<Rightarrow> json_rep j)"
proof (cases "replay_spec h c r")
  case (Going sp)
  have "po = None \<or> (\<exists>p. sp_policy sp = Some p \<and> po = Some (cp_describe p))"
    if "judge_run sp r parser run t = Going (x, reason, ds, po)" for parser run t x reason ds po
    using that by (auto simp: judge_run_def dest!: judge_means(2) split: attempt.splits if_splits sum.splits)
  then have "case po of None \<Rightarrow> True | Some j \<Rightarrow> json_rep j"
    if "judge_run sp r parser run t = Going (x, reason, ds, po)" for parser run t x reason ds po
    using that assms(2) Going unfolding described_def by (fastforce split: option.splits)
  then show ?thesis
    using assms(1) Going
    by (auto simp: run_replay_def Let_def replay_result_of_def unreplayable_as_def split: attempt.splits prod.splits)
qed (use assms(1) in \<open>auto simp: run_replay_def Let_def replay_result_of_def unreplayable_as_def\<close>)

lemma run_replay_extends: "run_replay h env staging work c r s = (res, s') \<Longrightarrow> extends s s'"
  by (auto simp: run_replay_def Let_def extends_refl split: attempt.splits prod.splits dest: replay_run_extends)

lemma get_record_id: "get_record rid db = Inr live \<Longrightarrow> ar_record_id live = rid"
  by (auto simp: get_record_def find_row_def find_Some_iff row_to_record_def split: option.splits sum.splits)

text \<open>
  Replaying changes nothing but the archive and the log.  A replay of a record only takes
  steps of the ledger's transition system; the records, deliveries and delivery histories are
  as before, sealed evidence included; and exactly one row is added to the replay log, which
  reads back as the result returned (the policy's members sorted) - or, when the replay raises,
  nothing is added to the database at all.
\<close>

theorem replay_record_logs:
  assumes "described h c"
  shows "case replay_record h env staging work c rid st of (res, st') \<Rightarrow>
    ledger_step\<^sup>*\<^sup>* st st' \<and> extends (lg_archive st) (lg_archive st') \<and>
    (case res of
       Inl e \<Rightarrow> lg_db st' = lg_db st
     | Inr q \<Rightarrow>
         db_records (lg_db st') = db_records (lg_db st) \<and> db_deliveries (lg_db st') = db_deliveries (lg_db st) \<and>
         db_delivery_events (lg_db st') = db_delivery_events (lg_db st) \<and>
         (\<exists>p. db_replays (lg_db st') = db_replays (lg_db st) @ [p] \<and> p_record_id p = rid \<and>
            row_to_result p = Inr (q\<lparr>rp_policy := map_option jsort (rp_policy q)\<rparr>)))"
proof (cases "get_record rid (lg_db st)")
  case (Inl e)
  then show ?thesis by (simp add: replay_record_def extends_refl)
next
  case (Inr live)
  show ?thesis
  proof (cases "ar_state live \<noteq> SEALED \<and> ar_state live \<noteq> INVALIDATED")
    case True
    then show ?thesis using Inr by (simp add: replay_record_def extends_refl)
  next
    case False
    obtain a s' where a: "run_replay h env staging work c live (lg_archive st) = (a, s')"
      by (cases "run_replay h env staging work c live (lg_archive st)")
    note ext = run_replay_extends [OF a]
    have one: "ledger_step\<^sup>*\<^sup>* st (st\<lparr>lg_archive := s'\<rparr>)" using step_archive [OF ext] by blast
    show ?thesis
    proof (cases a)
      case e: (Inl e)
      then show ?thesis using Inr False a one ext by (simp add: replay_record_def)
    next
      case q: (Inr q)
      note pol = run_replay_policy [OF a [unfolded q] assms]
      have id: "ar_record_id live = rid" by (rule get_record_id [OF Inr])
      obtain b db where b: "replay_append q (en_time env 1) (lg_db st) = (b, db)"
        by (cases "replay_append q (en_time env 1) (lg_db st)")
      note fr = replay_append_frame [OF b conjunct2 [OF pol]]
      have "ledger_step\<^sup>*\<^sup>* (st\<lparr>lg_archive := s'\<rparr>) \<lparr>lg_archive = s', lg_db = db\<rparr>"
        using tx_steps [of "st\<lparr>lg_archive := s'\<rparr>" db] fr by (cases st) simp
      with one have steps: "ledger_step\<^sup>*\<^sup>* st \<lparr>lg_archive = s', lg_db = db\<rparr>" by (rule rtranclp_trans)
      show ?thesis
        using Inr False a q b steps ext fr pol id by (cases b) (simp_all add: replay_record_def)
    qed
  qed
qed
section \<open>What a divergence invalidates\<close>

text \<open>What invalidating records may do to a row: nothing, or, to a pending or sealed row of theirs, just that.\<close>

definition row_touched :: "string set \<Rightarrow> record_row \<Rightarrow> record_row \<Rightarrow> bool" where
  "row_touched D r r' \<longleftrightarrow>
     r' = r \<or>
     r_record_id r \<in> D \<and> row_core r' = row_core r \<and> r_state r \<in> {''pending'', ''sealed''} \<and> r_state r' = ''invalidated''"

lemma row_touched_id: "row_touched D r r' \<Longrightarrow> r_record_id r' = r_record_id r"
  unfolding row_touched_def by (metis row_core_fields(1))

lemma row_touched_trans: "row_touched D a b \<Longrightarrow> row_touched E b c \<Longrightarrow> row_touched (D \<union> E) a c"
  using row_touched_id [of D a b] by (auto simp: row_touched_def)

lemma invalidate_touches:
  assumes "invalidate rid m t1 t2 db = (x, db')"
  shows "list_all2 (row_touched {rid}) (db_records db) (db_records db')"
proof (cases "db_records db' = db_records db")
  case True
  then show ?thesis by (auto simp: row_touched_def intro!: list_all2_refl)
next
  case False
  let ?upd = "set_invalidated t1 (''INVALIDATED: '' @ m)"
  obtain u where tr: "transition rid [PENDING, SEALED] ?upd [Some t1, Some (''INVALIDATED: '' @ m)]
      ''record.invalidated'' (JObj [(''reason'', JStr m)]) t2 db = (u, db')"
    using assms False by (auto simp: invalidate_def transitions split: sum.split_asm prod.split_asm if_split_asm)
  then obtain ev where ev: "append_event ''record.invalidated'' rid (JObj [(''reason'', JStr m)]) t2
      (update_where rid [PENDING, SEALED] ?upd db) = (Inr ev, db')"
    using False by (auto simp: transition_def write_transaction_def
        split: if_split_asm sum.split_asm prod.split_asm bool.split_asm)
  have "db_records db' = db_records (update_where rid [PENDING, SEALED] ?upd db)"
    by (rule append_event_frame(1) [OF ev])
  then show ?thesis
    by (auto simp: update_where_def list_all2_map2 row_touched_def set_invalidated_def row_core_def intro!: list_all2_refl)
qed
lemma rows_touched_find:
  "list_all2 (row_touched D) xs ys \<Longrightarrow> find (\<lambda>r. r_record_id r = rid) xs = Some r \<Longrightarrow> r_state r = ''invalidated'' \<Longrightarrow>
   find (\<lambda>r. r_record_id r = rid) ys = Some r"
proof (induction xs ys rule: list_all2_induct)
  case (Cons x xs y ys)
  then show ?case using row_touched_id [OF Cons.hyps(1)] by (auto simp: row_touched_def split: if_splits)
qed simp

definition stands_invalidated :: "string \<Rightarrow> database \<Rightarrow> bool" where
  "stands_invalidated rid db \<longleftrightarrow> (case get_record rid db of Inl e \<Rightarrow> False | Inr r \<Rightarrow> ar_state r = INVALIDATED)"

lemma state_of_value_invalidated: "state_of_value v = Inr INVALIDATED \<Longrightarrow> v = ''invalidated''"
  by (auto simp: state_of_value_def split: if_splits)

lemma stands_invalidated_stays:
  assumes "stands_invalidated rid db" "list_all2 (row_touched D) (db_records db) (db_records db')"
  shows "stands_invalidated rid db'"
proof -
  obtain r a where r: "find (\<lambda>r. r_record_id r = rid) (db_records db) = Some r" "row_to_record r = Inr a" "ar_state a = INVALIDATED"
    using assms(1) by (auto simp: stands_invalidated_def get_record_def find_row_def split: option.splits sum.splits)
  have "r_state r = ''invalidated''"
    using row_to_record_id [OF r(2)] r(3) state_of_value_invalidated by simp
  from rows_touched_find [OF assms(2) r(1) this] r show ?thesis
    by (simp add: stands_invalidated_def get_record_def find_row_def)
qed

lemma invalidate_and_retract_touches:
  assumes "invalidate_and_retract reg env rid m sys = (res, sys')" "writers_in same_records reg"
  shows "list_all2 (row_touched {rid}) (db_records (sy_db sys)) (db_records (sy_db sys')) \<and>
    (case res of Inl e \<Rightarrow> True | Inr xs \<Rightarrow> stands_invalidated rid (sy_db sys'))"
proof -
  have refl: "list_all2 (row_touched {rid}) xs xs" for xs by (auto simp: row_touched_def intro!: list_all2_refl)
  have ret: "db_records (sy_db b) = db_records (sy_db a) \<and>
      (case x of Inl e \<Rightarrow> True | Inr xs \<Rightarrow> stands_invalidated rid (sy_db b))" if "retract reg env n rid a = (x, b)" for n a x b
  proof -
    have "db_records (sy_db b) = db_records (sy_db a)"
      using records.retract_R [OF that assms(2)] by (simp add: same_records_def)
    moreover have "stands_invalidated rid (sy_db a)" if "x = Inr xs" for xs
      using that \<open>retract reg env n rid a = (x, b)\<close> by (auto simp: retract_def stands_invalidated_def split: sum.splits if_splits)
    ultimately show ?thesis
      by (auto simp: stands_invalidated_def get_record_def find_row_def split: sum.split)
  qed
  show ?thesis
  proof (cases "get_record rid (sy_db sys)")
    case (Inl e)
    then show ?thesis using assms(1) refl by (auto simp: invalidate_and_retract_def)
  next
    case (Inr r)
    show ?thesis
    proof (cases "ar_state r = INVALIDATED")
      case True
      then show ?thesis using assms(1) Inr ret [of 0 sys] refl by (simp add: invalidate_and_retract_def)
    next
      case False
      obtain x db where i: "invalidate rid m (en_time env 0) (en_time env 1) (sy_db sys) = (x, db)"
        by (cases "invalidate rid m (en_time env 0) (en_time env 1) (sy_db sys)")
      then show ?thesis
        using assms(1) Inr False invalidate_touches [OF i] ret [of 2 "with_db sys db"]
        by (cases x) (auto simp: invalidate_and_retract_def)
    qed
  qed
qed

definition diverged_ids :: "replay_result list \<Rightarrow> string list" where
  "diverged_ids rs = map rp_record_id (filter (\<lambda>r. rp_outcome r = DIVERGED) rs)"

lemma diverged_ids_simps [simp]:
  "diverged_ids [] = []"
  "diverged_ids (r # rs) = (if rp_outcome r = DIVERGED then rp_record_id r # diverged_ids rs else diverged_ids rs)"
  by (simp_all add: diverged_ids_def)

lemma diverged_facts:
  assumes "writers_in same_records reg"
  shows "invalidate_diverged reg envs rs sys = (res, sys') \<Longrightarrow>
    list_all2 (row_touched (set (diverged_ids rs))) (db_records (sy_db sys)) (db_records (sy_db sys')) \<and>
    (case res of Inl e \<Rightarrow> True | Inr xs \<Rightarrow> list_all (\<lambda>rid. stands_invalidated rid (sy_db sys')) (diverged_ids rs))"
proof (induction rs arbitrary: envs sys res sys')
  case Nil
  then show ?case by (auto simp: row_touched_def intro!: list_all2_refl)
next
  case (Cons r rs)
  show ?case
  proof (cases "rp_outcome r = DIVERGED")
    case False
    then have "invalidate_diverged reg (\<lambda>n. envs (Suc n)) rs sys = (res, sys')" using Cons.prems by simp
    moreover have "diverged_ids (r # rs) = diverged_ids rs" using False by simp
    ultimately show ?thesis using Cons.IH by metis
  next
    case True
    let ?m = "reason_value REPLAY_DIVERGED @ em_dash @ ''replay '' @ rp_replay_id r @ '': '' @ rp_reason r"
    let ?D = "{rp_record_id r}" and ?E = "set (diverged_ids rs)"
    obtain x sys1 where i: "invalidate_and_retract reg (envs 0) (rp_record_id r) ?m sys = (x, sys1)"
      by (cases "invalidate_and_retract reg (envs 0) (rp_record_id r) ?m sys")
    note one = invalidate_and_retract_touches [OF i assms]
    obtain y sys2 where d: "invalidate_diverged reg (\<lambda>n. envs (Suc n)) rs sys1 = (y, sys2)"
      by (cases "invalidate_diverged reg (\<lambda>n. envs (Suc n)) rs sys1")
    note rest = Cons.IH [OF d]
    have more: "list_all2 (row_touched (?D \<union> ?E)) xs ys" if "list_all2 (row_touched ?D) xs ys" for xs ys
      using that by (rule list_all2_mono) (auto simp: row_touched_def)
    have both: "list_all2 (row_touched (?D \<union> ?E)) (db_records (sy_db sys)) (db_records (sy_db sys2))"
      by (rule list_all2_trans [OF row_touched_trans conjunct1 [OF one] conjunct1 [OF rest]])
    show ?thesis
    proof (cases x)
      case (Inl e)
      then show ?thesis using Cons.prems True i more [OF conjunct1 [OF one]] by (cases res) simp_all
    next
      case (Inr xs)
      have "stands_invalidated (rp_record_id r) (sy_db sys2)"
        using stands_invalidated_stays one rest Inr by auto
      then show ?thesis using Cons.prems True i Inr d both rest by (cases y; cases res) auto
    qed
  qed
qed

text \<open>
  Only a divergence invalidates, and it always does.  Acting on a list of replay results
  changes no record but those a DIVERGED result names, and of those only the state, the
  finishing time and the error text of pending or sealed ones, to invalidated - also when it is
  cut short by an error; when it completes, every record so named stands invalidated.  The
  target writers must leave the records alone.
\<close>

theorem only_divergence_invalidates:
  assumes "writers_in same_records reg"
  shows "case invalidate_diverged reg envs rs sys of (res, sys') \<Rightarrow>
    list_all2 (row_touched (set (diverged_ids rs))) (db_records (sy_db sys)) (db_records (sy_db sys')) \<and>
    (case res of Inl e \<Rightarrow> True | Inr xs \<Rightarrow> list_all (\<lambda>rid. stands_invalidated rid (sy_db sys')) (diverged_ids rs))"
  using diverged_facts [OF assms] by (simp split: prod.split)

definition demo_result :: "replay_outcome \<Rightarrow> replay_result" where
  "demo_result x = \<lparr>rp_replay_id = ''p'', rp_record_id = ''r'', rp_outcome = x, rp_reason = ''e'', rp_run_id = None,
     rp_artifact_hash = None, rp_differences = [], rp_policy = None, rp_backend = None, rp_platform = ''l'', rp_at = ''t''\<rparr>"

text \<open>A failed replay leaves a sealed record as it is.\<close>

theorem only_divergence_invalidates_witness:
  "writers_in same_records ([] :: unit registry) \<and>
   db_records (sy_db (snd (invalidate_diverged [] (\<lambda>n. demo_env) [demo_result REPLAY_FAILED]
      \<lparr>sy_ledger = \<lparr>lg_archive = (\<lambda>p. None), lg_db = demo_dispatch\<rparr>, sy_world = ()\<rparr>))) = [demo_row ''sealed'']"
proof -
  let ?s = "\<lparr>sy_ledger = \<lparr>lg_archive = (\<lambda>p. None), lg_db = demo_dispatch\<rparr>, sy_world = ()\<rparr>"
  have w: "writers_in same_records ([] :: unit registry)" by (simp add: writers_in_def)
  from only_divergence_invalidates [OF w, where envs = "\<lambda>n. demo_env" and rs = "[demo_result REPLAY_FAILED]" and sys = ?s] w show ?thesis
    by (auto simp: demo_result_def demo_dispatch_def row_touched_def list_all2_Cons1)
qed

definition demo_policy :: comparison_policy where
  "demo_policy = json_policy (\<lambda>f. []) \<lparr>po_rel = PNum 0, po_abs = PNum 0, po_ignore = [], po_keys = []\<rparr>"

definition demo_spec :: base_spec where
  "demo_spec = \<lparr>sp_name = ''p'', sp_version = ''1'', sp_requirements = no_requirements, sp_build = (\<lambda>i out c. Inl ValueError),
     sp_module_path = None, sp_policy = Some demo_policy, sp_backend = None\<rparr>"

theorem identical_output_never_diverges_witness:
  "\<exists>reason pol. judge demo_spec [(''a'', ''d''), (''b'', ''e'')] [(''b'', ''e''), (''a'', ''d'')] (\<lambda>p. None) =
     Inr (EQUIVALENT, reason, [], pol)"
proof -
  have same: "map_of [(''a'', ''d''), (''b'', ''e'')] = map_of [(''b'', ''e''), (''a'', ''d'')]" by (auto simp: fun_eq_iff)
  have nd: "\<not> deterministic demo_spec" by (simp add: demo_spec_def deterministic_def no_requirements_def)
  have po: "if deterministic demo_spec then True else sp_policy demo_spec =
      Some (json_policy (\<lambda>f. []) \<lparr>po_rel = PNum 0, po_abs = PNum 0, po_ignore = [], po_keys = []\<rparr>)"
    by (simp add: demo_spec_def demo_policy_def)
  show ?thesis using identical_output_never_diverges [OF same po, of "\<lambda>p. None"] nd by simp
qed

definition demo_host :: host where
  "demo_host = \<lparr>ho_backends = [], ho_fs = (\<lambda>p. None), ho_read = (\<lambda>p. Inl FileNotFoundError), ho_wat2wasm = (\<lambda>t. Inl ValueError),
     ho_link_dir = (\<lambda>p. False), ho_holds = (\<lambda>n. True), ho_str = (\<lambda>e. []), ho_platform = ''l''\<rparr>"

theorem replay_record_logs_witness:
  "described demo_host [] \<and>
   db_records (lg_db (snd (replay_record demo_host demo_env (path_of ''s'') (path_of ''w'') [] ''r'' \<lparr>lg_archive = (\<lambda>p. None), lg_db = demo_dispatch\<rparr>)))
     = [demo_row ''sealed'']"
proof -
  have d: "described demo_host []"
    by (simp add: described_def replay_spec_def get_spec_def split: option.split)
  from replay_record_logs [OF d, where env = demo_env and staging = "path_of ''s''" and work = "path_of ''w''" and
      rid = "''r''" and st = "\<lparr>lg_archive = (\<lambda>p. None), lg_db = demo_dispatch\<rparr>"] d
  show ?thesis by (auto simp: demo_dispatch_def split: prod.splits sum.splits)
qed
end
