(* ===== verification/Wasi.thy ===== *)
theory Wasi
  imports Seccomp
begin

text \<open>
  What a WebAssembly guest sees of the host (\<open>stele/containment/wasm.py\<close>): the imports the backend
  replaces, so that every run is the same - the clock, the entropy, file status and directory
  listings.  The engine, the guest's memory and the host's WASI implementation are parameters.
  The main results: entropy is one stream however it is read; a listing ends and is complete; and
  no sequence of calls shows the guest the host's inode numbers, listing order, timestamps, link
  counts, clock or randomness.
\<close>

section \<open>Constants\<close>

definition FIXED_EPOCH_NS :: int where "FIXED_EPOCH_NS = 946684800 * 1000000000"
definition CLOCK_STEP_NS :: int where "CLOCK_STEP_NS = 1000"
definition ESUCCESS :: int where "ESUCCESS = 0"
definition EFAULT :: int where "EFAULT = 21"
definition EINVAL :: int where "EINVAL = 28"
definition ENAMETOOLONG :: int where "ENAMETOOLONG = 37"
definition ENOTSUP :: int where "ENOTSUP = 58"
definition EOVERFLOW :: int where "EOVERFLOW = 61"
definition FILETYPE_REGULAR :: int where "FILETYPE_REGULAR = 4"
definition DIRENT_HEADER :: nat where "DIRENT_HEADER = 24"
definition SHIM_PATH_MAX :: int where "SHIM_PATH_MAX = 4096"
definition SHIM_DIRBUF_LEN :: nat where "SHIM_DIRBUF_LEN = 65536"

definition IndexError :: exn where "IndexError = OtherError ''IndexError''"
definition StructError :: exn where "StructError = OtherError ''struct.error''"

text \<open>\<open>s[:n]\<close>, \<open>s[n:]\<close> and \<open>s[n]\<close> for any integer.\<close>

definition slice_end :: "int \<Rightarrow> 'a list \<Rightarrow> nat" where
  "slice_end n s = nat (if n < 0 then int (length s) + n else n)"

definition slice_to :: "int \<Rightarrow> 'a list \<Rightarrow> 'a list" where
  "slice_to n s = take (slice_end n s) s"

definition slice_from :: "int \<Rightarrow> 'a list \<Rightarrow> 'a list" where
  "slice_from n s = drop (slice_end n s) s"

definition item_at :: "int \<Rightarrow> 'a list \<Rightarrow> 'a option" where
  "item_at n s =
     (let i = (if n < 0 then int (length s) + n else n)
      in if 0 \<le> i \<and> i < int (length s) then Some (s ! nat i) else None)"

section \<open>Entropy\<close>

text \<open>The 32 bytes of \<open>sha256(...).digest()\<close>, out of the hexadecimal digest.\<close>

fun unhex :: "string \<Rightarrow> string" where
  "unhex (a # b # s) = char_of (16 * the (hex_val a) + the (hex_val b)) # unhex s"
| "unhex _ = []"

record entropy =
  ey_seed :: string
  ey_counter :: nat
  ey_pending :: string

text \<open>A block; the counter takes eight bytes, as more than \<open>2 ^ 64\<close> blocks are never read.\<close>

definition entropy_block :: "string \<Rightarrow> nat \<Rightarrow> string" where
  "entropy_block seed n = unhex (sha256 (seed @ le_bytes 8 (int n)))"

lemma unhex_length: "length s = 2 * n \<Longrightarrow> length (unhex s) = n"
proof (induction n arbitrary: s)
  case (Suc n)
  then obtain a b t where "s = a # b # t" by (cases s; cases "tl s") auto
  then show ?case using Suc by simp
qed simp

lemma entropy_block_length [simp]: "length (entropy_block seed n) = 32"
  using is_digest_sha256 [of "seed @ le_bytes 8 (int n)"] unhex_length [of _ 32]
  by (simp add: entropy_block_def is_digest_def)

function read_blocks :: "string \<Rightarrow> int \<Rightarrow> nat \<Rightarrow> string \<Rightarrow> string \<times> nat" where
  "read_blocks seed n counter data =
     (if int (length data) < n then read_blocks seed n (Suc counter) (data @ entropy_block seed counter) else (data, counter))"
  by pat_completeness auto
termination
  by (relation "measure (\<lambda>(seed, n, counter, data). nat (n - int (length data)))") auto

declare read_blocks.simps [simp del]

text \<open>\<open>_Entropy.read\<close>; a negative number reads some of what is pending.\<close>

definition entropy_read :: "int \<Rightarrow> entropy \<Rightarrow> string \<times> entropy" where
  "entropy_read n e =
     (let (data, counter) = read_blocks (ey_seed e) n (ey_counter e) (ey_pending e)
      in (slice_to n data, e\<lparr>ey_counter := counter, ey_pending := slice_from n data\<rparr>))"

section \<open>The run and its surroundings\<close>

text \<open>A directory entry as the listing keeps it: name, type, inode number.\<close>

type_synonym entry = "string \<times> int \<times> int"

record wasi =
  ws_clock :: int
  ws_entropy :: entropy
  ws_inodes :: "(int \<times> int) list"
  ws_listings :: "(int \<times> entry list) list"

text \<open>
  The host's WASI behind the shim, as it is at one call: an error number, and the bytes it leaves
  in the shim's memory.  The guest's memory, if it exports one: writing and reading out of range
  raise \<open>IndexError\<close>.
\<close>

record wasi_host =
  wh_fd_stat :: "int \<Rightarrow> int \<times> string"
  wh_path_stat :: "int \<Rightarrow> int \<Rightarrow> string \<Rightarrow> int \<times> string"
  wh_readdir :: "int \<Rightarrow> int \<Rightarrow> int \<times> string"

record 'm guest =
  gu_memory :: bool
  gu_write :: "string \<Rightarrow> int \<Rightarrow> 'm \<Rightarrow> 'm result"
  gu_read :: "int \<Rightarrow> int \<Rightarrow> 'm \<Rightarrow> string result"

text \<open>\<open>_memory(caller).write(caller, data, offset)\<close>.\<close>

definition guest_write :: "'m guest \<Rightarrow> string result \<Rightarrow> int \<Rightarrow> 'm \<Rightarrow> int result \<times> 'm" where
  "guest_write g packed out m =
     (if \<not> gu_memory g then (Inl IndexError, m)
      else case packed of
        Inl e \<Rightarrow> (Inl e, m)
      | Inr data \<Rightarrow> (case gu_write g data out m of Inl e \<Rightarrow> (Inl e, m) | Inr m' \<Rightarrow> (Inr ESUCCESS, m')))"

definition pack :: "nat \<Rightarrow> int \<Rightarrow> string result" where
  "pack w n = (if fits w n then Inr (le_bytes w n) else Inl StructError)"

section \<open>Clock and randomness\<close>

definition clock_time_get :: "'m guest \<Rightarrow> int \<Rightarrow> int \<Rightarrow> wasi \<Rightarrow> 'm \<Rightarrow> int result \<times> wasi \<times> 'm" where
  "clock_time_get g clock_id out st m =
     (if clock_id \<notin> {0, 1, 2, 3} then (Inr EINVAL, st, m)
      else let st' = st\<lparr>ws_clock := ws_clock st + CLOCK_STEP_NS\<rparr>;
               v = ws_clock st' + (if clock_id = 0 then FIXED_EPOCH_NS else 0);
               (r, m') = guest_write g (pack 8 v) out m
           in (r, st', m'))"

definition clock_res_get :: "'m guest \<Rightarrow> int \<Rightarrow> int \<Rightarrow> wasi \<Rightarrow> 'm \<Rightarrow> int result \<times> wasi \<times> 'm" where
  "clock_res_get g clock_id out st m =
     (if clock_id \<notin> {0, 1, 2, 3} then (Inr EINVAL, st, m)
      else let (r, m') = guest_write g (pack 8 CLOCK_STEP_NS) out m in (r, st, m'))"

definition random_get :: "'m guest \<Rightarrow> int \<Rightarrow> int \<Rightarrow> wasi \<Rightarrow> 'm \<Rightarrow> int result \<times> wasi \<times> 'm" where
  "random_get g buf n st m =
     (if \<not> gu_memory g then (Inl IndexError, st, m)
      else let (data, e) = entropy_read n (ws_entropy st);
               (r, m') = guest_write g (Inr data) buf m
           in (r, st\<lparr>ws_entropy := e\<rparr>, m'))"

section \<open>File status\<close>

text \<open>\<open>_inode\<close>: numbers in order of first sight.\<close>

definition inode :: "int \<Rightarrow> wasi \<Rightarrow> int \<times> wasi" where
  "inode host_ino st =
     (case map_of (ws_inodes st) host_ino of
        Some n \<Rightarrow> (n, st)
      | None \<Rightarrow>
          let n = int (length (ws_inodes st)) + 1 in (n, st\<lparr>ws_inodes := ws_inodes st @ [(host_ino, n)]\<rparr>))"

definition raw_field :: "nat \<Rightarrow> nat \<Rightarrow> string \<Rightarrow> int" where
  "raw_field off w raw = le_value (take w (drop off raw))"

definition filestat_bytes :: "int \<Rightarrow> int \<Rightarrow> int \<Rightarrow> string" where
  "filestat_bytes ino filetype sz =
     le_bytes 8 1 @ le_bytes 8 ino @ le_bytes 1 filetype @ replicate 7 nul @ le_bytes 8 1 @ le_bytes 8 sz
     @ le_bytes 8 FIXED_EPOCH_NS @ le_bytes 8 FIXED_EPOCH_NS @ le_bytes 8 FIXED_EPOCH_NS"

definition normalised_filestat :: "string \<Rightarrow> wasi \<Rightarrow> string result \<times> wasi" where
  "normalised_filestat raw st =
     (if length raw < 40 then (Inl StructError, st)
      else let filetype = raw_field 16 1 raw;
               (n, st') = inode (raw_field 8 8 raw) st
           in (Inr (filestat_bytes n filetype (if filetype \<noteq> FILETYPE_REGULAR then 0 else raw_field 32 8 raw)), st'))"

text \<open>What both status calls do with the host's answer.\<close>

definition report_stat :: "'m guest \<Rightarrow> int \<times> string \<Rightarrow> int \<Rightarrow> wasi \<Rightarrow> 'm \<Rightarrow> int result \<times> wasi \<times> 'm" where
  "report_stat g answer buf st m =
     (case answer of (errno, raw) \<Rightarrow>
        if errno \<noteq> ESUCCESS then (Inr errno, st, m)
        else if \<not> gu_memory g then (Inl IndexError, st, m)
        else let (packed, st') = normalised_filestat raw st;
                 (r, m') = guest_write g packed buf m
             in (r, st', m'))"

definition fd_filestat_get :: "'m guest \<Rightarrow> wasi_host \<Rightarrow> int \<Rightarrow> int \<Rightarrow> wasi \<Rightarrow> 'm \<Rightarrow> int result \<times> wasi \<times> 'm" where
  "fd_filestat_get g h fd buf st m = report_stat g (wh_fd_stat h fd) buf st m"

definition path_filestat_get ::
  "'m guest \<Rightarrow> wasi_host \<Rightarrow> int \<Rightarrow> int \<Rightarrow> int \<Rightarrow> int \<Rightarrow> int \<Rightarrow> wasi \<Rightarrow> 'm \<Rightarrow> int result \<times> wasi \<times> 'm" where
  "path_filestat_get g h fd flags p len buf st m =
     (if len > SHIM_PATH_MAX then (Inr ENAMETOOLONG, st, m)
      else if \<not> gu_memory g then (Inl IndexError, st, m)
      else case gu_read g p (p + len) m of
        Inl e \<Rightarrow> (Inl e, st, m)
      | Inr name \<Rightarrow>
          if int (length name) \<noteq> len then (Inr EFAULT, st, m)
          else report_stat g (wh_path_stat h fd flags name) buf st m)"

section \<open>Directory listings\<close>

text \<open>The complete entries in what one call of the host leaves: what is kept of each, and its cookie.\<close>

function parse_dirents :: "string \<Rightarrow> (entry \<times> int) list" where
  "parse_dirents raw =
     (if length raw < DIRENT_HEADER then []
      else let namlen = nat (raw_field 16 4 raw); stop = DIRENT_HEADER + namlen in
        if length raw < stop then []
        else ((take namlen (drop DIRENT_HEADER raw), raw_field 20 1 raw, raw_field 8 8 raw), raw_field 0 8 raw)
          # parse_dirents (drop stop raw))"
  by pat_completeness auto
termination
  by (relation "measure length") (auto simp: DIRENT_HEADER_def)

declare parse_dirents.simps [simp del]

text \<open>\<open>_list_directory\<close>: an error number, or every entry, by name.  It may run for ever.\<close>

partial_function (option) list_directory :: "wasi_host \<Rightarrow> int \<Rightarrow> int \<Rightarrow> entry list \<Rightarrow> (int + entry list) option" where
  "list_directory h fd cookie entries =
     (if fst (wh_readdir h fd cookie) \<noteq> ESUCCESS then Some (Inl (fst (wh_readdir h fd cookie)))
      else let raw = snd (wh_readdir h fd cookie);
               ds = parse_dirents raw;
               entries' = entries @ map fst ds
           in if length raw < SHIM_DIRBUF_LEN then Some (Inr (sort_key fst entries'))
              else if ds = [] then Some (Inl EOVERFLOW)
              else list_directory h fd (snd (last ds)) entries')"

text \<open>The entries from \<open>index\<close> on, as long as there is room.\<close>

function fill_listing :: "entry list \<Rightarrow> int \<Rightarrow> int \<Rightarrow> string \<Rightarrow> wasi \<Rightarrow> string result \<times> wasi" where
  "fill_listing entries buf_len index out st =
     (if int (length entries) \<le> index \<or> buf_len \<le> int (length out) then (Inr out, st)
      else case item_at index entries of
        None \<Rightarrow> (Inl IndexError, st)
      | Some (name, filetype, host_ino) \<Rightarrow>
          let (n, st') = inode host_ino st in
          if fits 8 (index + 1) \<and> fits 8 n \<and> fits 4 (int (length name)) \<and> fits 1 filetype
          then fill_listing entries buf_len (index + 1)
                 (out @ le_bytes 8 (index + 1) @ le_bytes 8 n @ le_bytes 4 (int (length name)) @ le_bytes 1 filetype
                  @ replicate 3 nul @ name) st'
          else (Inl StructError, st'))"
  by pat_completeness auto
termination
  by (relation "measure (\<lambda>(entries, buf_len, index, out, st). nat (int (length entries) - index))") auto

declare fill_listing.simps [simp del]

definition fd_readdir ::
  "'m guest \<Rightarrow> wasi_host \<Rightarrow> int \<Rightarrow> int \<Rightarrow> int \<Rightarrow> int \<Rightarrow> int \<Rightarrow> wasi \<Rightarrow> 'm \<Rightarrow> (int result \<times> wasi \<times> 'm) option" where
  "fd_readdir g h fd buf buf_len cookie bufused st m =
     (case (if cookie = 0 then list_directory h fd 0 []
            else case map_of (ws_listings st) fd of None \<Rightarrow> list_directory h fd 0 [] | Some es \<Rightarrow> Some (Inr es)) of
        None \<Rightarrow> None
      | Some (Inl errno) \<Rightarrow> Some (Inr errno, st, m)
      | Some (Inr entries) \<Rightarrow>
          (let st1 = st\<lparr>ws_listings := AList.update fd entries (ws_listings st)\<rparr> in
           case fill_listing entries buf_len cookie [] st1 of
             (Inl e, st2) \<Rightarrow> Some (Inl e, st2, m)
           | (Inr filled, st2) \<Rightarrow>
               (let out = slice_to buf_len filled;
                    (r, m1) = (if out \<noteq> [] then guest_write g (Inr out) buf m else (Inr ESUCCESS, m))
                in case r of
                     Inl e \<Rightarrow> Some (Inl e, st2, m1)
                   | Inr _ \<Rightarrow>
                       (let (r2, m2) = guest_write g (Inr (le_bytes 4 (int (length out)))) bufused m1 in Some (r2, st2, m2)))))"

section \<open>The table of imports\<close>

datatype wasi_call =
    Clock_time int int
  | Clock_res int int
  | Random int int
  | Fd_filestat int int
  | Path_filestat int int int int int
  | Fd_readdir int int int int int
  | Refused string

text \<open>\<open>_guarded\<close>: a pointer out of range is an error number, any other exception the host's.\<close>

definition guarded :: "int result \<Rightarrow> int result" where
  "guarded r = (case r of Inl e \<Rightarrow> if e = IndexError then Inr EFAULT else Inl e | Inr n \<Rightarrow> Inr n)"

definition wasi_call :: "'m guest \<Rightarrow> wasi_host \<Rightarrow> wasi_call \<Rightarrow> wasi \<Rightarrow> 'm \<Rightarrow> (int result \<times> wasi \<times> 'm) option" where
  "wasi_call g h c st m =
     map_option (\<lambda>(r, st', m'). (guarded r, st', m'))
       (case c of
          Clock_time i out \<Rightarrow> Some (clock_time_get g i out st m)
        | Clock_res i out \<Rightarrow> Some (clock_res_get g i out st m)
        | Random buf n \<Rightarrow> Some (random_get g buf n st m)
        | Fd_filestat fd buf \<Rightarrow> Some (fd_filestat_get g h fd buf st m)
        | Path_filestat fd flags p len buf \<Rightarrow> Some (path_filestat_get g h fd flags p len buf st m)
        | Fd_readdir fd buf len cookie used \<Rightarrow> fd_readdir g h fd buf len cookie used st m
        | Refused name \<Rightarrow> Some (Inr ENOTSUP, st, m))"

section \<open>Entropy is one stream\<close>

fun entropy_reads :: "nat list \<Rightarrow> entropy \<Rightarrow> string list" where
  "entropy_reads [] e = []"
| "entropy_reads (n # ns) e = (let (data, e') = entropy_read (int n) e in data # entropy_reads ns e')"

definition blocks :: "string \<Rightarrow> nat \<Rightarrow> nat \<Rightarrow> string" where
  "blocks seed c k = concat (map (entropy_block seed) [c..<c + k])"

lemma blocks_0 [simp]: "blocks seed c 0 = []"
  by (simp add: blocks_def)

lemma blocks_Suc: "blocks seed c (Suc k) = entropy_block seed c @ blocks seed (Suc c) k"
  by (simp add: blocks_def upt_conv_Cons del: upt_Suc)

lemma blocks_add: "blocks seed c (j + k) = blocks seed c j @ blocks seed (c + j) k"
  by (induction j arbitrary: c) (simp_all add: blocks_Suc)

lemma blocks_length [simp]: "length (blocks seed c k) = 32 * k"
  by (induction k arbitrary: c) (simp_all add: blocks_Suc)

lemma read_blocks_ends:
  "\<exists>k. read_blocks seed (int n) c data = (data @ blocks seed c k, c + k) \<and> n \<le> length data + 32 * k \<and> k \<le> n - length data"
proof (induction "n - length data" arbitrary: c data rule: less_induct)
  case less
  show ?case
  proof (cases "length data < n")
    case True
    then have "n - length (data @ entropy_block seed c) < n - length data" by simp
    from less.hyps [OF this, of "Suc c"] obtain k where "read_blocks seed (int n) (Suc c) (data @ entropy_block seed c)
        = ((data @ entropy_block seed c) @ blocks seed (Suc c) k, Suc c + k)"
      "n \<le> length (data @ entropy_block seed c) + 32 * k" "k \<le> n - length (data @ entropy_block seed c)"
      by blast
    then show ?thesis using True by (intro exI [of _ "Suc k"]) (simp add: read_blocks.simps [of seed _ c] blocks_Suc)
  next
    case False
    then show ?thesis by (intro exI [of _ 0]) (simp add: read_blocks.simps)
  qed
qed

lemma take_split: "n \<le> length p \<Longrightarrow> take n p @ take m (drop n p @ q) = take (n + m) (p @ q)"
  by (subst take_add) simp

definition entropy_stream :: "entropy \<Rightarrow> nat \<Rightarrow> string" where
  "entropy_stream e n = take n (ey_pending e @ blocks (ey_seed e) (ey_counter e) n)"

lemma take_blocks: "n \<le> length s + 32 * j \<Longrightarrow> j \<le> k \<Longrightarrow> take n (s @ blocks seed c k) = take n (s @ blocks seed c j)"
  using blocks_add [of seed c j "k - j"] by simp

lemma entropy_read_stream:
  assumes "entropy_read (int n) e = (data, e')"
  shows "length data = n \<and> entropy_stream e (n + m) = data @ entropy_stream e' m"
proof -
  obtain k where k: "read_blocks (ey_seed e) (int n) (ey_counter e) (ey_pending e)
      = (ey_pending e @ blocks (ey_seed e) (ey_counter e) k, ey_counter e + k)"
    "n \<le> length (ey_pending e) + 32 * k" "k \<le> n - length (ey_pending e)"
    using read_blocks_ends by blast
  let ?p = "ey_pending e @ blocks (ey_seed e) (ey_counter e) k"
  have d: "data = take n ?p" and e': "ey_pending e' = drop n ?p" "ey_counter e' = ey_counter e + k" "ey_seed e' = ey_seed e"
    using assms k(1) by (auto simp: entropy_read_def slice_to_def slice_from_def slice_end_def Let_def)
  have l: "length data = n" using d k(2) by simp
  have "data @ entropy_stream e' m = take (n + m) (?p @ blocks (ey_seed e) (ey_counter e + k) m)"
    using k(2) take_split [of n ?p m "blocks (ey_seed e) (ey_counter e + k) m"] by (simp add: entropy_stream_def e' d)
  also have "\<dots> = take (n + m) (ey_pending e @ blocks (ey_seed e) (ey_counter e) (k + m))" by (simp add: blocks_add)
  also have "\<dots> = entropy_stream e (n + m)"
    unfolding entropy_stream_def using k(2,3) by (intro take_blocks [symmetric]) auto
  finally show ?thesis using l by simp
qed

text \<open>
  The guest's randomness is one fixed stream of the seed: however the reads are cut, the bytes
  they return are the stream's, in order, none twice and none skipped, each read as long as asked.
\<close>

theorem entropy_is_one_stream:
  "concat (entropy_reads ns e) = entropy_stream e (sum_list ns) \<and> map length (entropy_reads ns e) = ns"
proof (induction ns arbitrary: e)
  case Nil
  then show ?case by (simp add: entropy_stream_def)
next
  case (Cons n ns)
  obtain data e' where r: "entropy_read (int n) e = (data, e')" by (cases "entropy_read (int n) e")
  then show ?case using Cons entropy_read_stream [OF r, of "sum_list ns"] by simp
qed

section \<open>Listings end and are complete\<close>

text \<open>
  What WASI says of \<open>fd_readdir\<close>: an entry is a header of 24 bytes and the name; the buffer is
  filled with the entries after the one whose cookie is given, the last one cut off, and it is not
  full only when there are no more.
\<close>

type_synonym dirent = "int \<times> entry"

definition dirent_bytes :: "dirent \<Rightarrow> string" where
  "dirent_bytes = (\<lambda>(next, name, filetype, ino).
     le_bytes 8 next @ le_bytes 8 ino @ le_bytes 4 (int (length name)) @ le_bytes 1 filetype @ replicate 3 nul @ name)"

definition dirent_ok :: "dirent \<Rightarrow> bool" where
  "dirent_ok = (\<lambda>(next, name, filetype, ino).
     fits 8 next \<and> next \<noteq> 0 \<and> fits 8 ino \<and> fits 1 filetype \<and> DIRENT_HEADER + length name \<le> SHIM_DIRBUF_LEN)"

definition cookie_at :: "dirent list \<Rightarrow> nat \<Rightarrow> int" where
  "cookie_at ds i = (if i = 0 then 0 else fst (ds ! (i - 1)))"

definition serves :: "wasi_host \<Rightarrow> int \<Rightarrow> dirent list \<Rightarrow> bool" where
  "serves h fd ds \<longleftrightarrow>
     list_all dirent_ok ds \<and>
     (\<forall>i \<le> length ds. wh_readdir h fd (cookie_at ds i) = (0, take SHIM_DIRBUF_LEN (concat (map dirent_bytes (drop i ds)))))"

lemma le_bytes_length [simp]: "length (le_bytes w n) = w"
  by (induction w arbitrary: n) simp_all

lemma raw_field_skip: "length a \<le> off \<Longrightarrow> raw_field off w (a @ s) = raw_field (off - length a) w s"
  by (simp add: raw_field_def)

lemma raw_field_le: "fits w n \<Longrightarrow> raw_field 0 w (le_bytes w n @ s) = n"
  by (simp add: raw_field_def le_value_fits)

lemma parse_dirent:
  assumes "dirent_ok d"
  shows "parse_dirents (dirent_bytes d @ rest) = (snd d, fst d) # parse_dirents rest"
proof -
  obtain nx name ft ino where d: "d = (nx, name, ft, ino)" by (cases d) auto
  have f: "fits 8 nx" "fits 8 ino" "fits 1 ft" "fits 4 (int (length name))"
    using assms by (auto simp: d dirent_ok_def DIRENT_HEADER_def SHIM_DIRBUF_LEN_def fits_def)
  have b: "dirent_bytes d @ rest = le_bytes 8 nx @ le_bytes 8 ino @ le_bytes 4 (int (length name)) @ le_bytes 1 ft
      @ replicate 3 nul @ name @ rest" by (simp add: dirent_bytes_def d)
  have r: "raw_field 0 8 (dirent_bytes d @ rest) = nx" "raw_field 8 8 (dirent_bytes d @ rest) = ino"
    "raw_field 16 4 (dirent_bytes d @ rest) = int (length name)" "raw_field 20 1 (dirent_bytes d @ rest) = ft"
    unfolding b by (simp_all add: raw_field_le f raw_field_skip del: One_nat_def le_bytes.simps)
  have l: "length (dirent_bytes d) = DIRENT_HEADER + length name" by (simp add: dirent_bytes_def d DIRENT_HEADER_def)
  have n: "take (length name) (drop DIRENT_HEADER (dirent_bytes d @ rest)) = name" unfolding b by (simp add: DIRENT_HEADER_def)
  have e: "drop (DIRENT_HEADER + length name) (dirent_bytes d @ rest) = rest" using l by (metis append_eq_conv_conj)
  show ?thesis unfolding parse_dirents.simps [of "dirent_bytes d @ rest"] r n e Let_def nat_int using l by (simp add: d)
qed

lemma parse_partial:
  assumes "dirent_ok d" "b < length (dirent_bytes d)"
  shows "parse_dirents (take b (dirent_bytes d @ rest)) = []"
proof (cases "b < DIRENT_HEADER")
  case True
  then show ?thesis by (subst parse_dirents.simps) simp
next
  case False
  obtain nx name ft ino where d: "d = (nx, name, ft, ino)" by (cases d) auto
  have "fits 4 (int (length name))" using assms(1) by (auto simp: d dirent_ok_def DIRENT_HEADER_def SHIM_DIRBUF_LEN_def fits_def)
  then have "raw_field 16 4 (dirent_bytes d @ rest) = int (length name)"
    by (simp add: dirent_bytes_def d raw_field_le raw_field_skip del: One_nat_def le_bytes.simps)
  moreover have "raw_field 16 4 (take b (dirent_bytes d @ rest)) = raw_field 16 4 (dirent_bytes d @ rest)"
    using False by (simp add: raw_field_def drop_take DIRENT_HEADER_def min_def del: take_append drop_append)
  moreover have "length (dirent_bytes d) = DIRENT_HEADER + length name" by (simp add: dirent_bytes_def d DIRENT_HEADER_def)
  ultimately show ?thesis using assms(2) by (subst parse_dirents.simps) (simp add: Let_def)
qed

lemma parse_prefix:
  "list_all dirent_ok ds \<Longrightarrow>
   \<exists>j \<le> length ds. parse_dirents (take b (concat (map dirent_bytes ds))) = map (\<lambda>d. (snd d, fst d)) (take j ds)
     \<and> (length (concat (map dirent_bytes ds)) \<le> b \<longrightarrow> j = length ds)
     \<and> (ds \<noteq> [] \<longrightarrow> length (dirent_bytes (hd ds)) \<le> b \<longrightarrow> 0 < j)"
proof (induction ds arbitrary: b)
  case Nil
  then show ?case by (simp add: parse_dirents.simps DIRENT_HEADER_def)
next
  case (Cons d ds)
  have ok: "dirent_ok d" "list_all dirent_ok ds" using Cons.prems by simp_all
  show ?case
  proof (cases "length (dirent_bytes d) \<le> b")
    case True
    from Cons.IH [OF ok(2), of "b - length (dirent_bytes d)"] obtain j where j: "j \<le> length ds"
      "parse_dirents (take (b - length (dirent_bytes d)) (concat (map dirent_bytes ds))) = map (\<lambda>d. (snd d, fst d)) (take j ds)"
      "length (concat (map dirent_bytes ds)) \<le> b - length (dirent_bytes d) \<longrightarrow> j = length ds" by blast
    show ?thesis using True j parse_dirent [OF ok(1)] by (intro exI [of _ "Suc j"]) auto
  next
    case False
    then show ?thesis using parse_partial [OF ok(1), of b] by (intro exI [of _ 0]) auto
  qed
qed

lemma serves_page:
  assumes "serves h fd ds" "i \<le> length ds"
  shows "fst (wh_readdir h fd (cookie_at ds i)) = ESUCCESS"
    and "snd (wh_readdir h fd (cookie_at ds i)) = take SHIM_DIRBUF_LEN (concat (map dirent_bytes (drop i ds)))"
  using assms by (simp_all add: serves_def ESUCCESS_def)

lemma first_dirent_fits:
  assumes "list_all dirent_ok ds" "ds \<noteq> []"
  shows "length (dirent_bytes (hd ds)) \<le> SHIM_DIRBUF_LEN"
  using assms by (cases ds) (auto simp: dirent_ok_def dirent_bytes_def DIRENT_HEADER_def)

lemma listing_from:
  assumes "serves h fd ds" "i \<le> length ds"
  shows "list_directory h fd (cookie_at ds i) es = Some (Inr (sort_key fst (es @ map snd (drop i ds))))"
  using assms(2)
proof (induction "length ds - i" arbitrary: i es rule: less_induct)
  case less
  let ?raw = "concat (map dirent_bytes (drop i ds))"
  note page = serves_page [OF assms(1) less.prems]
  have ok: "list_all dirent_ok (drop i ds)" using assms(1) by (auto simp: serves_def list_all_iff dest: in_set_dropD)
  obtain j where j: "j \<le> length (drop i ds)"
    "parse_dirents (take SHIM_DIRBUF_LEN ?raw) = map (\<lambda>d. (snd d, fst d)) (take j (drop i ds))"
    "length ?raw \<le> SHIM_DIRBUF_LEN \<longrightarrow> j = length (drop i ds)" "drop i ds \<noteq> [] \<longrightarrow> 0 < j"
    using parse_prefix [OF ok, of SHIM_DIRBUF_LEN] first_dirent_fits [OF ok] by blast
  have m: "map fst (map (\<lambda>d. (snd d, fst d)) (take j (drop i ds))) = map snd (take j (drop i ds))" by simp
  show ?case
  proof (cases "length ?raw < SHIM_DIRBUF_LEN")
    case True
    then show ?thesis unfolding list_directory.simps [of h fd "cookie_at ds i"] page j(2) m Let_def using j(3) by simp
  next
    case False
    then have "drop i ds \<noteq> []" by (auto simp: SHIM_DIRBUF_LEN_def)
    then have j0: "0 < j" and i: "i + j \<le> length ds" using j(1,4) by auto
    have full: "\<not> length (take SHIM_DIRBUF_LEN ?raw) < SHIM_DIRBUF_LEN" using False by simp
    have ne: "take j (drop i ds) \<noteq> []" using j0 \<open>drop i ds \<noteq> []\<close> by simp
    have "snd (last (map (\<lambda>d. (snd d, fst d)) (take j (drop i ds)))) = fst (last (take j (drop i ds)))"
      using ne by (simp add: last_map)
    also have "\<dots> = cookie_at ds (i + j)" using j0 i j(1) ne by (simp add: last_conv_nth cookie_at_def min_absorb2)
    finally have c: "snd (last (map (\<lambda>d. (snd d, fst d)) (take j (drop i ds)))) = cookie_at ds (i + j)" .
    have r: "list_directory h fd (cookie_at ds (i + j)) (es @ map snd (take j (drop i ds)))
        = Some (Inr (sort_key fst ((es @ map snd (take j (drop i ds))) @ map snd (drop (i + j) ds))))"
      using j0 i by (intro less.hyps) auto
    have "drop (i + j) ds = drop j (drop i ds)" by (simp add: add.commute)
    then have s: "(es @ map snd (take j (drop i ds))) @ map snd (drop (i + j) ds) = es @ map snd (drop i ds)"
      by (simp only: append.assoc map_append [symmetric] append_take_drop_id)
    show ?thesis
      unfolding list_directory.simps [of h fd "cookie_at ds i"] page j(2) m Let_def c r s
      using full ne by simp
  qed
qed

text \<open>
  C38. Against a host that keeps WASI's contract for \<open>fd_readdir\<close>, listing a directory of any size
  ends, and gives each of its entries once, sorted by name: none is lost where a page is cut.
\<close>

theorem listing_complete:
  assumes "serves h fd ds"
  shows "list_directory h fd 0 [] = Some (Inr (sort_key fst (map snd ds)))"
  using listing_from [OF assms, of 0 "[]"] by (simp add: cookie_at_def)

section \<open>The guest cannot tell hosts apart\<close>

text \<open>A guest: its next call, and its memory then, out of what its calls so far gave.\<close>

type_synonym 'm player = "int result list \<Rightarrow> 'm \<Rightarrow> wasi_call \<times> 'm"

fun wasi_run ::
  "'m guest \<Rightarrow> 'm player \<Rightarrow> wasi_host list \<Rightarrow> int result list \<Rightarrow> wasi \<Rightarrow> 'm \<Rightarrow> (int result list \<times> wasi \<times> 'm) option" where
  "wasi_run g play [] rs st m = Some (rs, st, m)"
| "wasi_run g play (h # hs) rs st m =
     (let (c, m1) = play rs m in
      case wasi_call g h c st m1 of
        None \<Rightarrow> None
      | Some (r, st', m2) \<Rightarrow> wasi_run g play hs (rs @ [r]) st' m2)"

text \<open>
  Two hosts with the same files: the same types, the same sizes of regular files, the same names in
  each directory; but other inode numbers, and any order, devices, links and times.  One
  renaming \<open>f\<close> gives the number of each file on the second host out of its number on the first,
  on whatever device it is.
\<close>

definition rename :: "(int \<Rightarrow> int) \<Rightarrow> entry \<Rightarrow> entry" where
  "rename f = (\<lambda>(name, filetype, ino). (name, filetype, f ino))"

definition stats_alike :: "(int \<Rightarrow> int) \<Rightarrow> int \<times> string \<Rightarrow> int \<times> string \<Rightarrow> bool" where
  "stats_alike f a b \<longleftrightarrow>
     fst a = fst b \<and>
     (fst a = ESUCCESS \<longrightarrow>
        length (snd a) = 64 \<and> length (snd b) = 64 \<and>
        raw_field 8 8 (snd b) = f (raw_field 8 8 (snd a)) \<and>
        raw_field 16 1 (snd b) = raw_field 16 1 (snd a) \<and>
        (raw_field 16 1 (snd a) = FILETYPE_REGULAR \<longrightarrow> raw_field 32 8 (snd b) = raw_field 32 8 (snd a)))"

definition lists_alike :: "(int \<Rightarrow> int) \<Rightarrow> wasi_host \<Rightarrow> wasi_host \<Rightarrow> int \<Rightarrow> bool" where
  "lists_alike f h1 h2 fd \<longleftrightarrow>
     (fst (wh_readdir h1 fd 0) \<noteq> ESUCCESS \<and> fst (wh_readdir h1 fd 0) = fst (wh_readdir h2 fd 0)) \<or>
     (\<exists>ds1 ds2. serves h1 fd ds1 \<and> serves h2 fd ds2 \<and> distinct (map (fst \<circ> snd) ds1) \<and>
        mset (map snd ds2) = mset (map (rename f \<circ> snd) ds1))"

lemma lists_alikeI:
  assumes "serves h1 fd ds1" "serves h2 fd ds2" "distinct (map (fst \<circ> snd) ds1)"
    "mset (map snd ds2) = mset (map (rename f \<circ> snd) ds1)"
  shows "lists_alike f h1 h2 fd"
  using assms unfolding lists_alike_def by blast

definition hosts_alike :: "(int \<Rightarrow> int) \<Rightarrow> wasi_host \<Rightarrow> wasi_host \<Rightarrow> bool" where
  "hosts_alike f h1 h2 \<longleftrightarrow>
     (\<forall>fd. stats_alike f (wh_fd_stat h1 fd) (wh_fd_stat h2 fd)) \<and>
     (\<forall>fd flags name. stats_alike f (wh_path_stat h1 fd flags name) (wh_path_stat h2 fd flags name)) \<and>
     (\<forall>fd. lists_alike f h1 h2 fd)"

definition runs_alike :: "(int \<Rightarrow> int) \<Rightarrow> wasi \<Rightarrow> wasi \<Rightarrow> bool" where
  "runs_alike f s t \<longleftrightarrow>
     ws_clock t = ws_clock s \<and> ws_entropy t = ws_entropy s \<and>
     ws_inodes t = map (apfst f) (ws_inodes s) \<and> ws_listings t = map (apsnd (map (rename f))) (ws_listings s)"

lemma rename_fst [simp]: "fst (rename f e) = fst e"
  by (simp add: rename_def split: prod.split)

lemma map_of_apfst: "inj f \<Longrightarrow> map_of (map (apfst f) xs) (f k) = map_of xs k"
  by (induction xs) (auto simp: inj_eq)

lemma map_of_apsnd: "map_of (map (apsnd g) xs) k = map_option g (map_of xs k)"
  by (induction xs) auto

lemma update_apsnd: "AList.update k (g v) (map (apsnd g) xs) = map (apsnd g) (AList.update k v xs)"
  by (induction xs) auto

lemma insort_rename: "insort_key fst (rename f e) (map (rename f) es) = map (rename f) (insort_key fst e es)"
  by (induction es) auto

lemma sort_rename: "sort_key fst (map (rename f) es) = map (rename f) (sort_key fst es)"
  by (induction es) (simp_all add: insort_rename)

lemma listings_alike:
  assumes "lists_alike f h1 h2 fd"
  shows "(\<exists>e. list_directory h1 fd 0 [] = Some (Inl e) \<and> list_directory h2 fd 0 [] = Some (Inl e)) \<or>
     (\<exists>es. list_directory h1 fd 0 [] = Some (Inr es) \<and> list_directory h2 fd 0 [] = Some (Inr (map (rename f) es)))"
proof (cases "fst (wh_readdir h1 fd 0) \<noteq> ESUCCESS")
  case True
  then show ?thesis using assms serves_page(1) [of h1 fd _ 0] unfolding lists_alike_def
    by (auto simp: list_directory.simps [of _ fd 0] cookie_at_def)
next
  case False
  then obtain ds1 ds2 where d: "serves h1 fd ds1" "serves h2 fd ds2" "distinct (map (fst \<circ> snd) ds1)"
    "mset (map snd ds2) = mset (map (rename f \<circ> snd) ds1)" using assms unfolding lists_alike_def by auto
  have l: "list_directory h fd 0 [] = Some (Inr (sort_key fst (map snd ds)))" if "serves h fd ds" for h ds
    using listing_from [OF that, of 0 "[]"] by (simp add: cookie_at_def)
  have names: "map fst (map (rename f \<circ> snd) ds1) = map (fst \<circ> snd) ds1" by simp
  have "inj_on fst (set (map (rename f \<circ> snd) ds1))" using d(3) names by (metis distinct_map)
  then have inj: "inj_on fst (set (map snd ds2))" using d(4) by (metis mset_eq_setD)
  have "sort_key fst (map snd ds2) = sort_key fst (map (rename f) (map snd ds1))"
    using d(4) inj by (intro sort_key_inj_key_eq) simp_all
  then show ?thesis using l [OF d(1)] l [OF d(2)] by (simp add: sort_rename del: map_map)
qed

lemma inode_alike:
  assumes "inj f" "runs_alike f s t" "inode n s = (k, s')"
  shows "\<exists>t'. inode (f n) t = (k, t') \<and> runs_alike f s' t'"
  using assms by (auto simp: inode_def runs_alike_def map_of_apfst Let_def split: option.splits)

lemma fill_alike:
  assumes "inj f" "runs_alike f s t" "fill_listing es len i out s = (r, s')"
  shows "\<exists>t'. fill_listing (map (rename f) es) len i out t = (r, t') \<and> runs_alike f s' t'"
  using assms(2,3)
proof (induction es len i out s arbitrary: t r s' rule: fill_listing.induct)
  case (1 es len i out s)
  have at: "item_at i (map (rename f) es) = map_option (rename f) (item_at i es)" by (auto simp: item_at_def Let_def)
  show ?case
  proof (cases "int (length es) \<le> i \<or> len \<le> int (length out)")
    case True
    then show ?thesis using "1.prems" by (auto simp: fill_listing.simps [of _ len i])
  next
    case False
    show ?thesis
    proof (cases "item_at i es")
      case None
      then show ?thesis using "1.prems" False at by (auto simp: fill_listing.simps [of _ len i])
    next
      case (Some e)
      obtain name ft ino where e: "e = (name, ft, ino)" by (cases e) auto
      obtain k s1 where k: "inode ino s = (k, s1)" by (cases "inode ino s")
      from inode_alike [OF assms(1) "1.prems"(1) k] obtain t1 where t1: "inode (f ino) t = (k, t1)" "runs_alike f s1 t1" by blast
      have at': "item_at i (map (rename f) es) = Some (name, ft, f ino)" using at Some e by (simp add: rename_def)
      show ?thesis
      proof (cases "fits 8 (i + 1) \<and> fits 8 k \<and> fits 4 (int (length name)) \<and> fits 1 ft")
        case fit: True
        let ?out = "out @ le_bytes 8 (i + 1) @ le_bytes 8 k @ le_bytes 4 (int (length name)) @ le_bytes 1 ft @ replicate 3 nul @ name"
        have "fill_listing es len (i + 1) ?out s1 = (r, s')"
          using "1.prems"(2) False Some e k fit by (simp add: fill_listing.simps [of _ len i])
        from "1.IH" [OF False Some e [symmetric] refl refl k [symmetric] fit t1(2) this]
        show ?thesis using False at' t1(1) fit by (simp add: fill_listing.simps [of _ len i])
      next
        case unfit: False
        then show ?thesis using "1.prems"(2) False Some e k at' t1 by (auto simp: fill_listing.simps [of _ len i])
      qed
    qed
  qed
qed

text \<open>Two runs alike give the same result and memory, and are alike again.\<close>

definition same_to :: "(int \<Rightarrow> int) \<Rightarrow> int result \<times> wasi \<times> 'm \<Rightarrow> int result \<times> wasi \<times> 'm \<Rightarrow> bool" where
  "same_to f a b \<longleftrightarrow> fst a = fst b \<and> snd (snd a) = snd (snd b) \<and> runs_alike f (fst (snd a)) (fst (snd b))"

lemma same_to_iff [simp]: "same_to f (r, s, m) (r', t, m') \<longleftrightarrow> r = r' \<and> m = m' \<and> runs_alike f s t"
  by (auto simp: same_to_def)

lemma normalised_alike:
  assumes "inj f" "runs_alike f s t" "length a = 64" "length b = 64" "raw_field 8 8 b = f (raw_field 8 8 a)"
    "raw_field 16 1 b = raw_field 16 1 a" "raw_field 16 1 a = FILETYPE_REGULAR \<longrightarrow> raw_field 32 8 b = raw_field 32 8 a"
    "normalised_filestat a s = (r, s')"
  shows "\<exists>t'. normalised_filestat b t = (r, t') \<and> runs_alike f s' t'"
proof -
  obtain k s1 where k: "inode (raw_field 8 8 a) s = (k, s1)" by (cases "inode (raw_field 8 8 a) s")
  from inode_alike [OF assms(1,2) k] obtain t1 where "inode (raw_field 8 8 b) t = (k, t1)" "runs_alike f s1 t1"
    using assms(5) by auto
  then show ?thesis using assms(3,4,6,7,8) k
    by (cases "raw_field 16 1 a = FILETYPE_REGULAR") (auto simp: normalised_filestat_def Let_def simp del: One_nat_def)
qed

lemma report_alike:
  assumes "inj f" "runs_alike f s t" "stats_alike f a b"
  shows "same_to f (report_stat g a buf s m) (report_stat g b buf t m)"
proof (cases "fst a = ESUCCESS \<and> gu_memory g")
  case False
  then show ?thesis using assms by (auto simp: report_stat_def stats_alike_def split: prod.splits)
next
  case True
  then have b: "fst b = ESUCCESS" using assms(3) by (simp add: stats_alike_def)
  obtain r s' where r: "normalised_filestat (snd a) s = (r, s')" by (cases "normalised_filestat (snd a) s")
  obtain t' where t: "normalised_filestat (snd b) t = (r, t')" "runs_alike f s' t'"
    using normalised_alike [OF assms(1,2) _ _ _ _ _ r] assms(3) True unfolding stats_alike_def by blast
  show ?thesis using True b r t by (cases a, cases b) (simp add: report_stat_def split: prod.splits)
qed

lemma readdir_alike:
  assumes "inj f" "runs_alike f s t" "lists_alike f h1 h2 fd"
  shows "\<exists>a b. fd_readdir g h1 fd buf len cookie used s m = Some a \<and>
      fd_readdir g h2 fd buf len cookie used t m = Some b \<and> same_to f a b"
proof -
  let ?list = "\<lambda>h st. if cookie = 0 then list_directory h fd 0 []
      else case map_of (ws_listings st) fd of None \<Rightarrow> list_directory h fd 0 [] | Some es \<Rightarrow> Some (Inr es)"
  have "ws_listings t = map (apsnd (map (rename f))) (ws_listings s)" using assms(2) by (simp add: runs_alike_def)
  then have "(\<exists>e. ?list h1 s = Some (Inl e) \<and> ?list h2 t = Some (Inl e)) \<or>
      (\<exists>es. ?list h1 s = Some (Inr es) \<and> ?list h2 t = Some (Inr (map (rename f) es)))"
    using listings_alike [OF assms(3)] by (cases "map_of (ws_listings s) fd") (simp_all add: map_of_apsnd)
  then show ?thesis
  proof (elim disjE exE conjE)
    fix e assume "?list h1 s = Some (Inl e)" "?list h2 t = Some (Inl e)"
    then show ?thesis unfolding fd_readdir_def using assms(2) by simp
  next
    fix es assume l: "?list h1 s = Some (Inr es)" "?list h2 t = Some (Inr (map (rename f) es))"
    let ?s = "s\<lparr>ws_listings := AList.update fd es (ws_listings s)\<rparr>"
    let ?t = "t\<lparr>ws_listings := AList.update fd (map (rename f) es) (ws_listings t)\<rparr>"
    have st: "runs_alike f ?s ?t" using assms(2) by (simp add: runs_alike_def update_apsnd)
    obtain r s' where r: "fill_listing es len cookie [] ?s = (r, s')" by (cases "fill_listing es len cookie [] ?s")
    obtain t' where t: "fill_listing (map (rename f) es) len cookie [] ?t = (r, t')" "runs_alike f s' t'"
      using fill_alike [OF assms(1) st r] by blast
    show ?thesis
    proof (cases r)
      case (Inl e)
      then show ?thesis unfolding fd_readdir_def l using r t by simp
    next
      case (Inr filled)
      let ?w = "if slice_to len filled \<noteq> [] then guest_write g (Inr (slice_to len filled)) buf m else (Inr ESUCCESS, m)"
      obtain r1 m1 where w: "?w = (r1, m1)" by (cases ?w)
      then show ?thesis unfolding fd_readdir_def l using r t Inr
        by (cases r1) (auto simp: Let_def split: prod.splits)
    qed
  qed
qed

lemma call_alike:
  assumes "inj f" "runs_alike f s t" "hosts_alike f h1 h2"
  shows "\<exists>r s' t' m'. wasi_call g h1 c s m = Some (r, s', m') \<and> wasi_call g h2 c t m = Some (r, t', m') \<and> runs_alike f s' t'"
proof -
  have stats: "stats_alike f (wh_fd_stat h1 fd) (wh_fd_stat h2 fd)"
    "stats_alike f (wh_path_stat h1 fd flags name) (wh_path_stat h2 fd flags name)" and lists: "lists_alike f h1 h2 fd"
    for fd flags name using assms(3) by (auto simp: hosts_alike_def)
  have clocks: "ws_clock t = ws_clock s" "ws_entropy t = ws_entropy s" using assms(2) by (simp_all add: runs_alike_def)
  let ?done = "\<lambda>(r, st, m). (guarded r, st, m)"
  have returned: ?thesis if "same_to f a b" "wasi_call g h1 c s m = Some (?done a)" "wasi_call g h2 c t m = Some (?done b)" for a b
    using that by (cases a, cases b) auto
  show ?thesis
  proof (cases c)
    case (Clock_time i out)
    have "same_to f (clock_time_get g i out s m) (clock_time_get g i out t m)"
      using assms(2) clocks by (auto simp: clock_time_get_def Let_def runs_alike_def split: prod.splits)
    then show ?thesis by (rule returned) (simp_all add: wasi_call_def Clock_time)
  next
    case (Clock_res i out)
    have "same_to f (clock_res_get g i out s m) (clock_res_get g i out t m)"
      using assms(2) by (auto simp: clock_res_get_def Let_def split: prod.splits)
    then show ?thesis by (rule returned) (simp_all add: wasi_call_def Clock_res)
  next
    case (Random buf n)
    have "same_to f (random_get g buf n s m) (random_get g buf n t m)"
      using assms(2) clocks by (auto simp: random_get_def Let_def runs_alike_def split: prod.splits)
    then show ?thesis by (rule returned) (simp_all add: wasi_call_def Random)
  next
    case (Fd_filestat fd buf)
    have "same_to f (fd_filestat_get g h1 fd buf s m) (fd_filestat_get g h2 fd buf t m)"
      unfolding fd_filestat_get_def using assms(1,2) stats(1) by (intro report_alike)
    then show ?thesis by (rule returned) (simp_all add: wasi_call_def Fd_filestat)
  next
    case (Path_filestat fd flags p len buf)
    have "same_to f (path_filestat_get g h1 fd flags p len buf s m) (path_filestat_get g h2 fd flags p len buf t m)"
      using assms(2) report_alike [OF assms(1,2) stats(2)]
      by (auto simp: path_filestat_get_def split: sum.splits)
    then show ?thesis by (rule returned) (simp_all add: wasi_call_def Path_filestat)
  next
    case (Fd_readdir fd buf len cookie used)
    obtain a b where ab: "fd_readdir g h1 fd buf len cookie used s m = Some a"
      "fd_readdir g h2 fd buf len cookie used t m = Some b" "same_to f a b"
      using readdir_alike [OF assms(1,2) lists, of g fd buf len cookie used m] by (elim exE conjE)
    show ?thesis using ab(1,2) by (intro returned [OF ab(3)]) (simp_all add: wasi_call_def Fd_readdir)
  next
    case (Refused name)
    then show ?thesis using assms(2) by (simp add: wasi_call_def)
  qed
qed

text \<open>Over two hosts alike by an injective renaming a guest sees the same.\<close>

lemma wasi_runs_alike:
  assumes "inj f" "list_all (\<lambda>(h1, h2). hosts_alike f h1 h2) hosts" "runs_alike f s t"
  shows "\<exists>rs' s' t' m'. wasi_run g play (map fst hosts) rs s m = Some (rs', s', m') \<and>
    wasi_run g play (map snd hosts) rs t m = Some (rs', t', m') \<and> runs_alike f s' t'"
  using assms(2,3)
proof (induction hosts arbitrary: rs s t m)
  case Nil
  then show ?case by simp
next
  case (Cons h hosts)
  obtain h1 h2 where h: "h = (h1, h2)" by (cases h)
  obtain c m0 where c: "play rs m = (c, m0)" by (cases "play rs m")
  obtain r s' t' m' where "wasi_call g h1 c s m0 = Some (r, s', m')" "wasi_call g h2 c t m0 = Some (r, t', m')"
    "runs_alike f s' t'" using call_alike [OF assms(1), of s t h1 h2 g c m0] Cons.prems h by auto
  then show ?case using Cons.IH [of s' t' "rs @ [r]" m'] Cons.prems(1) by (simp add: h c)
qed

definition wasi_start :: "string \<Rightarrow> wasi" where
  "wasi_start seed = \<lparr>ws_clock = 0, ws_entropy = \<lparr>ey_seed = seed, ey_counter = 0, ey_pending = []\<rparr>, ws_inodes = [], ws_listings = []\<rparr>"

text \<open>
  C14. Determinism, as far as inode numbers allow it.  Let each call of a run meet some files,
  \<open>files\<close>, which carry their identity as inode number, and two hosts that have those files, the
  first numbering them by \<open>number1\<close> and the second by \<open>number2\<close>.  If each host numbers different
  files differently - throughout the run and on all devices together, which file systems
  promise only for the files of one device at one time - then whatever a guest does with the
  replaced imports it sees the same on both: every result and all of its memory are equal,
  however the hosts number, order, date or link the files; and every call returns.  Where two
  files share a number the guest can tell: \<open>shared_number_shows\<close>.
\<close>

theorem wasi_deterministic:
  assumes "inj number1" "inj number2"
    "list_all (\<lambda>(files, h1, h2). hosts_alike number1 files h1 \<and> hosts_alike number2 files h2) hosts"
  shows "case (wasi_run g play (map (fst \<circ> snd) hosts) [] (wasi_start seed) m,
         wasi_run g play (map (snd \<circ> snd) hosts) [] (wasi_start seed) m) of
      (Some (rs1, s1, m1), Some (rs2, s2, m2)) \<Rightarrow>
        rs1 = rs2 \<and> m1 = m2 \<and> ws_clock s1 = ws_clock s2 \<and> ws_entropy s1 = ws_entropy s2
    | _ \<Rightarrow> False"
proof -
  have start: "runs_alike f (wasi_start seed) (wasi_start seed)" for f by (simp add: runs_alike_def wasi_start_def)
  have alike: "list_all (\<lambda>(files, h). hosts_alike number1 files h) (map (\<lambda>(files, h1, h2). (files, h1)) hosts)"
    "list_all (\<lambda>(files, h). hosts_alike number2 files h) (map (\<lambda>(files, h1, h2). (files, h2)) hosts)"
    using assms(3) by (auto simp: list_all_iff)
  have maps: "map fst (map (\<lambda>(files, h1, h2). (files, h1)) hosts) = map fst hosts"
    "map fst (map (\<lambda>(files, h1, h2). (files, h2)) hosts) = map fst hosts"
    "map snd (map (\<lambda>(files, h1, h2). (files, h1)) hosts) = map (fst \<circ> snd) hosts"
    "map snd (map (\<lambda>(files, h1, h2). (files, h2)) hosts) = map (snd \<circ> snd) hosts"
    by (auto simp: case_prod_beta)
  obtain rs1 s1 s0 m1 where r1: "wasi_run g play (map fst hosts) [] (wasi_start seed) m = Some (rs1, s0, m1)"
    "wasi_run g play (map (fst \<circ> snd) hosts) [] (wasi_start seed) m = Some (rs1, s1, m1)" "runs_alike number1 s0 s1"
    using wasi_runs_alike [OF assms(1) alike(1) start, where g = g and play = play and rs = "[]" and m = m, unfolded maps] by blast
  obtain s2 where r2: "wasi_run g play (map (snd \<circ> snd) hosts) [] (wasi_start seed) m = Some (rs1, s2, m1)"
    "runs_alike number2 s0 s2"
    using wasi_runs_alike [OF assms(2) alike(2) start, where g = g and play = play and rs = "[]" and m = m, unfolded maps] r1(1)
    by fastforce
  show ?thesis using r1(3) r2(2) by (simp add: r1(2) r2(1) runs_alike_def)
qed

section \<open>The properties hold somewhere\<close>

text \<open>Two hosts with the files \<open>a\<close> and \<open>b\<close> in one directory, in two orders and with two numberings.\<close>

definition no_files :: wasi_host where
  "no_files = \<lparr>wh_fd_stat = \<lambda>_. (8, []), wh_path_stat = \<lambda>_ _ _. (44, []), wh_readdir = \<lambda>_ _. (0, [])\<rparr>"

definition two_files :: "dirent \<Rightarrow> dirent \<Rightarrow> wasi_host" where
  "two_files d e = no_files\<lparr>wh_readdir := \<lambda>_ n.
     (0, take SHIM_DIRBUF_LEN (concat (map dirent_bytes (if n = 0 then [d, e] else if n = fst d then [e] else []))))\<rparr>"

definition host_one :: wasi_host where "host_one = two_files (1, ''a'', 4, 10) (2, ''b'', 4, 11)"
definition host_two :: wasi_host where "host_two = two_files (7, ''b'', 4, 21) (9, ''a'', 4, 20)"

lemma two_files_serves:
  assumes "list_all dirent_ok [d, e]" "fst d \<noteq> fst e"
  shows "serves (two_files d e) fd [d, e]"
  using assms
  by (auto simp: serves_def two_files_def cookie_at_def dirent_ok_def le_Suc_eq)

lemma host_one_serves: "serves host_one fd [(1, ''a'', 4, 10), (2, ''b'', 4, 11)]"
  unfolding host_one_def
  by (rule two_files_serves) (simp_all add: dirent_ok_def fits_def DIRENT_HEADER_def SHIM_DIRBUF_LEN_def)

lemma host_two_serves: "serves host_two fd [(7, ''b'', 4, 21), (9, ''a'', 4, 20)]"
  unfolding host_two_def
  by (rule two_files_serves) (simp_all add: dirent_ok_def fits_def DIRENT_HEADER_def SHIM_DIRBUF_LEN_def)

lemma hosts_one_two: "hosts_alike ((+) 10) host_one host_two"
proof -
  have "lists_alike ((+) 10) host_one host_two fd" for fd
    by (rule lists_alikeI [OF host_one_serves host_two_serves]) (simp_all add: rename_def add_mset_commute)
  then show ?thesis
    by (simp add: hosts_alike_def stats_alike_def host_one_def host_two_def two_files_def no_files_def ESUCCESS_def)
qed

definition tape_guest :: "string guest" where
  "tape_guest = \<lparr>gu_memory = True, gu_write = \<lambda>d off m. Inr (m @ d), gu_read = \<lambda>i j m. Inr []\<rparr>"

text \<open>
  A cookie beyond \<open>2 ^ 63\<close> arrives negative.  The entry before the end is found by it, but its
  position does not pack, and \<^const>\<open>guarded\<close> lets that error through: the guest makes the host raise.
\<close>

lemma negative_cookie_raises:
  "case wasi_call tape_guest host_two (Fd_readdir 3 0 512 (-2) 0) (wasi_start seed) [] of
     Some (r, st, m) \<Rightarrow> r = Inl StructError
   | None \<Rightarrow> False"
proof -
  have "list_directory host_two 3 0 [] = Some (Inr [(''a'', 4, 20), (''b'', 4, 21)])"
    using listing_from [OF host_two_serves [of 3], of 0 "[]"] by (simp add: cookie_at_def)
  moreover obtain st2 where "fill_listing [(''a'', 4, 20), (''b'', 4, 21)] 512 (-2) []
      ((wasi_start seed)\<lparr>ws_listings := AList.update 3 [(''a'', 4, 20), (''b'', 4, 21)] (ws_listings (wasi_start seed))\<rparr>)
      = (Inl StructError, st2)"
    by (simp add: fill_listing.simps item_at_def fits_def inode_def wasi_start_def Let_def)
  moreover have "map_of (ws_listings (wasi_start seed)) 3 = None" by (simp add: wasi_start_def)
  ultimately show ?thesis
    by (simp add: wasi_call_def fd_readdir_def Let_def guarded_def StructError_def IndexError_def)
qed

theorem listing_complete_witness:
  "list_directory host_two 3 0 [] = Some (Inr [(''a'', 4, 20), (''b'', 4, 21)])"
  using listing_complete [OF host_two_serves [of 3]] by simp

lemma host_one_itself: "hosts_alike id host_one host_one"
proof -
  have "lists_alike id host_one host_one fd" for fd
    by (rule lists_alikeI [OF host_one_serves host_one_serves]) (simp_all add: rename_def)
  then show ?thesis
    by (simp add: hosts_alike_def stats_alike_def host_one_def two_files_def no_files_def ESUCCESS_def)
qed

theorem wasi_deterministic_witness:
  "case (wasi_run tape_guest (\<lambda>rs m. (Fd_readdir 3 0 512 0 0, m)) [host_one] [] (wasi_start ''s'') [],
         wasi_run tape_guest (\<lambda>rs m. (Fd_readdir 3 0 512 0 0, m)) [host_two] [] (wasi_start ''s'') []) of
     (Some (rs1, s1, m1), Some (rs2, t2, m2)) \<Rightarrow> rs1 = rs2 \<and> m1 = m2
   | _ \<Rightarrow> False"
proof -
  have "inj ((+) (10 :: int))" by simp
  from wasi_deterministic [OF inj_on_id this, of "[(host_one, host_one, host_two)]" tape_guest
      "\<lambda>rs m. (Fd_readdir 3 0 512 0 0, m)" "''s''" "[]"] hosts_one_two host_one_itself
  show ?thesis by (auto split: option.splits)
qed

text \<open>
  The hypothesis on the numbers is needed: \<^const>\<open>inode\<close> forgets the device.  The same two files on
  two devices, where both happen to have the number 30, are one file to the guest, which sees
  other bytes than where their numbers differ.
\<close>

definition host_shared :: wasi_host where "host_shared = two_files (1, ''a'', 4, 30) (2, ''b'', 4, 30)"

lemma host_shared_serves: "serves host_shared fd [(1, ''a'', 4, 30), (2, ''b'', 4, 30)]"
  unfolding host_shared_def
  by (rule two_files_serves) (simp_all add: dirent_ok_def fits_def DIRENT_HEADER_def SHIM_DIRBUF_LEN_def)

lemma hosts_one_shared: "hosts_alike (\<lambda>n. 30) host_one host_shared"
proof -
  have "lists_alike (\<lambda>n. 30) host_one host_shared fd" for fd
    by (rule lists_alikeI [OF host_one_serves host_shared_serves]) (simp_all add: rename_def)
  then show ?thesis
    by (simp add: hosts_alike_def stats_alike_def host_one_def host_shared_def two_files_def no_files_def ESUCCESS_def)
qed

definition two_entries :: "int \<Rightarrow> string" where
  "two_entries n =
     le_bytes 8 1 @ le_bytes 8 1 @ le_bytes 4 1 @ le_bytes 1 4 @ replicate 3 nul @ ''a''
     @ le_bytes 8 2 @ le_bytes 8 n @ le_bytes 4 1 @ le_bytes 1 4 @ replicate 3 nul @ ''b''"

lemma two_filled:
  assumes "ws_inodes st = []"
  shows "\<exists>st'. fill_listing [(''a'', 4, i), (''b'', 4, j)] 512 0 [] st = (Inr (two_entries (if i = j then 1 else 2)), st')"
  using assms
  by (cases "i = j")
    (simp_all add: fill_listing.simps item_at_def fits_def inode_def Let_def two_entries_def del: le_bytes.simps replicate.simps)

lemma two_listed:
  assumes "serves h 3 [(1, ''a'', 4, i), (2, ''b'', 4, j)]"
  shows "\<exists>st. wasi_run tape_guest (\<lambda>rs m. (Fd_readdir 3 0 512 0 0, m)) [h] [] (wasi_start ''s'') [] =
    Some ([Inr 0], st, two_entries (if i = j then 1 else 2) @ le_bytes 4 50)"
proof -
  have l: "list_directory h 3 0 [] = Some (Inr [(''a'', 4, i), (''b'', 4, j)])"
    using listing_from [OF assms, of 0 "[]"] by (simp add: cookie_at_def)
  let ?st = "(wasi_start ''s'')\<lparr>ws_listings := AList.update 3 [(''a'', 4, i), (''b'', 4, j)] (ws_listings (wasi_start ''s''))\<rparr>"
  obtain st' where f: "fill_listing [(''a'', 4, i), (''b'', 4, j)] 512 0 [] ?st = (Inr (two_entries (if i = j then 1 else 2)), st')"
    using two_filled [of ?st i j] by (auto simp: wasi_start_def)
  have len: "length (two_entries n) = 50" for n by (simp add: two_entries_def del: le_bytes.simps replicate.simps)
  then have "two_entries n \<noteq> []" for n by (metis list.size(3) zero_neq_numeral)
  moreover have "slice_to 512 (two_entries n) = two_entries n" for n by (simp add: slice_to_def slice_end_def len)
  ultimately show ?thesis
    using f
    by (simp add: wasi_call_def fd_readdir_def l guarded_def tape_guest_def guest_write_def len ESUCCESS_def wasi_start_def
        del: le_bytes.simps split: if_split_asm)
qed

theorem shared_number_shows:
  "hosts_alike (\<lambda>n. 30) host_one host_shared \<and>
   (case (wasi_run tape_guest (\<lambda>rs m. (Fd_readdir 3 0 512 0 0, m)) [host_one] [] (wasi_start ''s'') [],
         wasi_run tape_guest (\<lambda>rs m. (Fd_readdir 3 0 512 0 0, m)) [host_shared] [] (wasi_start ''s'') []) of
     (Some (rs1, s1, m1), Some (rs2, t2, m2)) \<Rightarrow> rs1 = rs2 \<and> m1 \<noteq> m2
   | _ \<Rightarrow> False)"
proof -
  have "le_bytes 8 1 \<noteq> le_bytes 8 2" by code_simp
  then have "two_entries 1 \<noteq> two_entries 2" by (simp add: two_entries_def del: le_bytes.simps)
  moreover obtain s1 where "wasi_run tape_guest (\<lambda>rs m. (Fd_readdir 3 0 512 0 0, m)) [host_one] [] (wasi_start ''s'') [] =
      Some ([Inr 0], s1, two_entries 2 @ le_bytes 4 50)"
    using two_listed [OF host_one_serves] by auto
  moreover obtain s2 where "wasi_run tape_guest (\<lambda>rs m. (Fd_readdir 3 0 512 0 0, m)) [host_shared] [] (wasi_start ''s'') [] =
      Some ([Inr 0], s2, two_entries 1 @ le_bytes 4 50)"
    using two_listed [OF host_shared_serves] by auto
  ultimately show ?thesis using hosts_one_shared by simp
qed

end
