(* ===== verification/Wasm.thy ===== *)
theory Wasm
  imports ReplayEngine Processes Wasi
begin

text \<open>
  The WebAssembly backend (\<open>WasmtimeBackend\<close> and \<open>_Run\<close> of \<open>stele/containment/wasm.py\<close>): what the
  engine is given for a run, and how what it did is reported.  Wasmtime is a parameter: from the
  setup of a run to how it ended.  The imports that make a run deterministic are in \<open>Wasi\<close>.
\<close>

section \<open>The backend\<close>

record wasm_backend =
  wb_memory :: int
  wb_fuel :: int
  wb_seed :: string
  wb_output_limit :: int

definition WASM_TRAP_EXIT_CODE :: int where "WASM_TRAP_EXIT_CODE = 134"
definition WASM_LOAD_EXIT_CODE :: int where "WASM_LOAD_EXIT_CODE = 127"
definition WASM_PAGE :: int where "WASM_PAGE = 65536"

definition DEFAULT_ENTROPY_SEED :: string where
  "DEFAULT_ENTROPY_SEED = ''stele-wasm-deterministic-entropy-v1''"

definition default_wasm :: wasm_backend where
  "default_wasm = \<lparr>wb_memory = 512 * 1024 * 1024, wb_fuel = 50000000000, wb_seed = DEFAULT_ENTROPY_SEED,
     wb_output_limit = 8 * 1024 * 1024\<rparr>"

definition make_wasm :: "wasm_backend \<Rightarrow> wasm_backend result" where
  "make_wasm b =
     (if wb_memory b < 1024 * 1024 then Inl ValueError
      else if wb_fuel b \<le> 0 then Inl ValueError
      else Inr b)"

definition wasm_capabilities :: "capability set" where
  "wasm_capabilities =
     {FILESYSTEM_ISOLATION, NETWORK_ISOLATION, RESOURCE_LIMITS, DETERMINISTIC, WASM_MODULE}"

definition wasm_limits :: "wasm_backend \<Rightarrow> sandbox_config \<Rightarrow> (string, pyval) dict" where
  "wasm_limits b cf =
     [(''timeout_seconds'', VInt (cf_timeout cf)), (''memory_bytes'', VInt (wb_memory b)), (''fuel'', VInt (wb_fuel b)),
      (''output_bytes'', VInt (wb_output_limit b))]"

section \<open>What the engine is given\<close>

type_synonym preopen = "path \<times> string \<times> bool"

text \<open>Engine switches and store limits besides memory, in the code's order.\<close>

definition ENGINE_SWITCHES :: "(string \<times> bool) list" where
  "ENGINE_SWITCHES =
     [(''consume_fuel'', True), (''epoch_interruption'', True), (''cranelift_nan_canonicalization'', True),
      (''wasm_threads'', False), (''wasm_relaxed_simd'', False), (''wasm_multi_memory'', False), (''wasm_memory64'', False)]"

definition store_limits :: "wasm_backend \<Rightarrow> (string \<times> int) list" where
  "store_limits b =
     [(''memory_size'', wb_memory b), (''table_elements'', 1000000), (''instances'', 2), (''tables'', 4), (''memories'', 2)]"

definition WASI_OVERRIDES :: "string list" where
  "WASI_OVERRIDES =
     [''clock_time_get'', ''clock_res_get'', ''random_get'', ''poll_oneoff'', ''fd_filestat_get'', ''path_filestat_get'',
      ''fd_readdir'', ''path_symlink'', ''path_link'']"

record wasm_setup =
  su_binary :: string
  su_switches :: "(string \<times> bool) list"
  su_limits :: "(string \<times> int) list"
  su_fuel :: int
  su_epoch :: int
  su_timeout :: int
  su_argv :: "string list"
  su_env :: "(string, string) dict"
  su_preopens :: "preopen list"
  su_overrides :: "string list"
  su_state :: wasi

text \<open>How running the guest, or starting it, ended.\<close>

datatype trap_code = INTERRUPT | OUT_OF_FUEL | OTHER_TRAP

datatype guest_stop = Guest_trapped trap_code string | Guest_exited int | Guest_failed string | Guest_raised exn

text \<open>
  What a run did: whether the module was compiled and the imports linked; how instantiation and
  \<open>_start\<close>, if there is one, stopped; the final size of an exported memory; the fuel left; the output.
\<close>

record engine_run =
  en_prepare :: "string option"
  en_instantiate :: "guest_stop option"
  en_memory :: "int option"
  en_start :: "guest_stop option option"
  en_fuel_left :: "int option"
  en_stdout :: "string list"
  en_stderr :: "string list"

record wasm_host =
  mh_host :: host
  mh_mkdir :: "path \<Rightarrow> unit result"
  mh_iterdir :: "path \<Rightarrow> string list result"
  mh_is_dir :: "path \<Rightarrow> bool"
  mh_engine :: "wasm_setup \<Rightarrow> engine_run"
  mh_version :: "string option"
  mh_wall :: pyfloat
  mh_cpu :: pyfloat

definition WasmtimeError :: exn where "WasmtimeError = OtherError ''WasmtimeError''"

definition path_parent :: "path \<Rightarrow> path" where
  "path_parent p = p\<lparr>path_parts := butlast (path_parts p)\<rparr>"

definition input_preopen :: "wasm_host \<Rightarrow> path option \<Rightarrow> preopen list result" where
  "input_preopen h p =
     (case p of
        None \<Rightarrow> Inr []
      | Some p \<Rightarrow>
          (case mh_iterdir h (path_parent p) of
             Inl e \<Rightarrow> Inl e
           | Inr names \<Rightarrow>
               if names \<noteq> [path_name p] then Inl ValueError else Inr [(path_parent p, SANDBOX_INPUT_DIR, False)]))"

fun bind_preopens :: "wasm_host \<Rightarrow> (string \<times> string) list \<Rightarrow> preopen list result" where
  "bind_preopens h [] = Inr []"
| "bind_preopens h ((src, dst) # bs) =
     (if \<not> mh_is_dir h (path_of src) then Inl ValueError
      else map_sum id (\<lambda>ps. (path_of src, dst, False) # ps) (bind_preopens h bs))"

definition preopens :: "wasm_host \<Rightarrow> sandbox_config \<Rightarrow> preopen list result" where
  "preopens h cf =
     (case mh_mkdir h (cf_artifact_dir cf) of
        Inl e \<Rightarrow> Inl e
      | Inr _ \<Rightarrow>
          (case input_preopen h (cf_input_path cf) of
             Inl e \<Rightarrow> Inl e
           | Inr inp \<Rightarrow>
               (case bind_preopens h (cf_ro_binds cf) of
                  Inl e \<Rightarrow> Inl e
                | Inr bs \<Rightarrow> Inr ((cf_artifact_dir cf, SANDBOX_OUTPUT, True) # inp @ bs))))"

definition wasm_environment :: "sandbox_config \<Rightarrow> (string, string) dict" where
  "wasm_environment cf =
     fold (\<lambda>(k, v). AList.update k v) (cf_env cf)
       ([(''STELE_OUTPUT_DIR'', SANDBOX_OUTPUT)]
        @ (case cf_input_path cf of None \<Rightarrow> [] | Some p \<Rightarrow> [(''STELE_INPUT_PATH'', input_dest p)]))"

text \<open>A fresh run: the clock at 0, no entropy read, no inode or listing seen.\<close>

definition fresh_wasi :: "wasm_backend \<Rightarrow> wasi" where
  "fresh_wasi b = \<lparr>ws_clock = 0, ws_entropy = \<lparr>ey_seed = wb_seed b, ey_counter = 0, ey_pending = []\<rparr>,
     ws_inodes = [], ws_listings = []\<rparr>"

definition wasm_setup :: "wasm_backend \<Rightarrow> sandbox_config \<Rightarrow> string \<Rightarrow> preopen list \<Rightarrow> wasm_setup" where
  "wasm_setup b cf binary pre =
     \<lparr>su_binary = binary, su_switches = ENGINE_SWITCHES, su_limits = store_limits b, su_fuel = wb_fuel b, su_epoch = 1,
      su_timeout = cf_timeout cf,
      su_argv = (case cf_command cf of [] \<Rightarrow> [] | c # args \<Rightarrow> path_name (path_of c) # args),
      su_env = wasm_environment cf, su_preopens = pre, su_overrides = WASI_OVERRIDES, su_state = fresh_wasi b\<rparr>"

section \<open>What is reported\<close>

definition stele_line :: "string \<Rightarrow> string" where
  "stele_line message = ''stele: '' @ message @ [CHR 0x0A]"

text \<open>\<open>_outcome\<close>, with the captured texts; the last argument is \<open>timed_out\<close>.\<close>

definition wasm_outcome ::
  "string \<times> string \<Rightarrow> int \<Rightarrow> string option \<Rightarrow> failure_reason option \<Rightarrow> bool \<Rightarrow> execution_outcome" where
  "wasm_outcome texts status message reason timed_out =
     \<lparr>xo_exit_code = status, xo_stdout = fst texts,
      xo_stderr = snd texts @ (case message of None \<Rightarrow> [] | Some m \<Rightarrow> stele_line m),
      xo_wall_time = PNum 0, xo_timed_out = timed_out, xo_image_digest = None, xo_module_sha256 = None, xo_hardening = [],
      xo_violation = None, xo_cpu_time = None, xo_peak_memory = None, xo_runtime = None, xo_limits = [], xo_counters = [],
      xo_failure =
        (case reason of
           Some r \<Rightarrow>
             Some \<lparr>rf_reason = r,
                   rf_detail = (case message of None \<Rightarrow> failure_value r | Some m \<Rightarrow> if m = [] then failure_value r else m),
                   rf_exit_code = Some status, rf_signal = None\<rparr>
         | None \<Rightarrow> if status \<noteq> 0 then Some (exit_status_failure status) else None)\<rparr>"

text \<open>\<open>_failed\<close>.\<close>

definition wasm_failed :: "wasm_host \<Rightarrow> int \<Rightarrow> string \<Rightarrow> execution_outcome" where
  "wasm_failed h status message = wasm_outcome ([], []) status (Some message) (Some ENGINE_ERROR) False\<lparr>xo_wall_time := mh_wall h\<rparr>"

text \<open>\<open>_trapped\<close>.\<close>

definition wasm_trapped :: "wasm_backend \<Rightarrow> sandbox_config \<Rightarrow> string \<times> string \<Rightarrow> trap_code \<Rightarrow> string \<Rightarrow> execution_outcome" where
  "wasm_trapped b cf texts c m =
     (case c of
        INTERRUPT \<Rightarrow>
          wasm_outcome texts (-1) (Some (''wall-clock timeout of '' @ show_int (cf_timeout cf) @ ''s exceeded'')) (Some TIMEOUT) True
      | OUT_OF_FUEL \<Rightarrow>
          wasm_outcome texts WASM_TRAP_EXIT_CODE
            (Some (''CPU limit exceeded: fuel budget of '' @ show_int (wb_fuel b) @ '' exhausted'')) (Some CPU_LIMIT) False
      | OTHER_TRAP \<Rightarrow> wasm_outcome texts WASM_TRAP_EXIT_CODE (Some (''wasm trap: '' @ m)) (Some WASM_TRAP) False)"

definition about_memory :: "string \<Rightarrow> bool" where
  "about_memory m \<longleftrightarrow> sublist ''memory'' m \<and> (sublist ''limit'' m \<or> sublist ''exceed'' m)"

text \<open>\<open>_instantiate_and_run\<close>: the outcome, and whether the guest's memory was noted.\<close>

definition instantiate_and_run ::
  "wasm_backend \<Rightarrow> sandbox_config \<Rightarrow> string \<times> string \<Rightarrow> engine_run \<Rightarrow> execution_outcome result \<times> bool" where
  "instantiate_and_run b cf texts r =
     (case en_prepare r of
        Some m \<Rightarrow> (Inr (wasm_outcome texts WASM_LOAD_EXIT_CODE (Some (''invalid wasm module: '' @ m)) (Some ENGINE_ERROR) False), False)
      | None \<Rightarrow>
     (case en_instantiate r of
        Some (Guest_trapped c m) \<Rightarrow> (Inr (wasm_trapped b cf texts c m), False)
      | Some (Guest_exited n) \<Rightarrow> (Inr (wasm_outcome texts n None None False), False)
      | Some (Guest_failed m) \<Rightarrow>
          (Inr (if about_memory m
                then wasm_outcome texts WASM_TRAP_EXIT_CODE
                       (Some (''memory limit of '' @ show_int (wb_memory b) @ '' bytes exceeded at instantiation: '' @ m))
                       (Some OUT_OF_MEMORY) False
                else wasm_outcome texts WASM_LOAD_EXIT_CODE (Some (''cannot link wasm module: '' @ m)) (Some ENGINE_ERROR) False),
           False)
      | Some (Guest_raised e) \<Rightarrow> (Inl e, False)
      | None \<Rightarrow>
     (case en_start r of
        None \<Rightarrow>
          (Inr (wasm_outcome texts WASM_LOAD_EXIT_CODE (Some ''wasm module exports no _start function'') (Some ENGINE_ERROR) False), True)
      | Some (Some (Guest_exited n)) \<Rightarrow> (Inr (wasm_outcome texts n None None False), True)
      | Some (Some (Guest_trapped c m)) \<Rightarrow> (Inr (wasm_trapped b cf texts c m), True)
      | Some (Some (Guest_failed m)) \<Rightarrow>
          (Inr (wasm_outcome texts WASM_TRAP_EXIT_CODE (Some (''wasm execution failed: '' @ m)) (Some WASM_TRAP) False), True)
      | Some (Some (Guest_raised e)) \<Rightarrow> (Inl e, True)
      | Some None \<Rightarrow> (Inr (wasm_outcome texts 0 None None False), True))))"

text \<open>A trap with the memory at the cap is the memory limit's.\<close>

definition memory_failure :: "wasm_backend \<Rightarrow> int option \<Rightarrow> run_failure option \<Rightarrow> run_failure option" where
  "memory_failure b peak failure =
     (case (failure, peak) of
        (Some f, Some p) \<Rightarrow>
          if rf_reason f = WASM_TRAP \<and> p + WASM_PAGE > wb_memory b
          then Some \<lparr>rf_reason = OUT_OF_MEMORY,
                     rf_detail = ''linear memory reached the '' @ show_int (wb_memory b) @ ''-byte limit; '' @ rf_detail f,
                     rf_exit_code = rf_exit_code f, rf_signal = None\<rparr>
          else failure
      | _ \<Rightarrow> failure)"

definition wasm_run ::
  "wasm_host \<Rightarrow> wasm_backend \<Rightarrow> sandbox_config \<Rightarrow> string \<Rightarrow> capture \<Rightarrow> engine_run \<Rightarrow> execution_outcome result" where
  "wasm_run h b cf binary c r =
     (let texts = (capture_text ''stdout'' (write_all (en_stdout r) c), capture_text ''stderr'' (write_all (en_stderr r) c)) in
      case instantiate_and_run b cf texts r of
        (Inl e, measured) \<Rightarrow> Inl e
      | (Inr x, measured) \<Rightarrow>
          let peak = (if measured then en_memory r else None) in
               Inr (x\<lparr>xo_wall_time := mh_wall h, xo_module_sha256 := Some (sha256 binary), xo_cpu_time := Some (mh_cpu h),
                      xo_peak_memory := peak,
                      xo_runtime := Some (case mh_version h of Some v \<Rightarrow> ''wasmtime '' @ v | None \<Rightarrow> ''wasmtime''),
                      xo_limits := wasm_limits b cf,
                      xo_counters := (case en_fuel_left r of None \<Rightarrow> [] | Some n \<Rightarrow> [(''fuel_consumed'', VInt (wb_fuel b - n))]),
                      xo_failure := memory_failure b peak (xo_failure x)\<rparr>))"

text \<open>\<open>execute\<close>: its result, and the setups the engine was started on.\<close>

definition wasm_execute :: "wasm_host \<Rightarrow> wasm_backend \<Rightarrow> sandbox_config \<Rightarrow> execution_outcome result \<times> wasm_setup list" where
  "wasm_execute h b cf =
     (case cf_command cf of
        [] \<Rightarrow> (Inl ValueError, [])
      | c # args \<Rightarrow>
          if cf_script_path cf \<noteq> None then (Inl ValueError, [])
          else case preopens h cf of
            Inl e \<Rightarrow> (Inl e, [])
          | Inr pre \<Rightarrow>
              (case load_wasm_module (mh_host h) (path_of c) of
                 Inl e \<Rightarrow>
                   if is_os_error e \<or> e = UnicodeError \<or> e = WasmtimeError
                   then (Inr (wasm_failed h WASM_LOAD_EXIT_CODE
                                (''cannot load wasm module '' @ as_posix (path_of c) @ '': '' @ ho_str (mh_host h) e)), [])
                   else (Inl e, [])
               | Inr binary \<Rightarrow>
                   let su = wasm_setup b cf binary pre in
                   (case make_capture (wb_output_limit b) of
                      Inl e \<Rightarrow> (Inl e, [])
                    | Inr k \<Rightarrow> (wasm_run h b cf binary k (mh_engine h su), [su]))))"

section \<open>What the guest is given\<close>

definition guest_confined :: "wasm_host \<Rightarrow> wasm_backend \<Rightarrow> sandbox_config \<Rightarrow> wasm_setup \<Rightarrow> bool" where
  "guest_confined h b cf su \<longleftrightarrow>
     cf_script_path cf = None \<and>
     (case cf_command cf of [] \<Rightarrow> False | c # args \<Rightarrow> load_wasm_module (mh_host h) (path_of c) = Inr (su_binary su)) \<and>
     filter (\<lambda>(p, g, writable). writable) (su_preopens su) = [(cf_artifact_dir cf, SANDBOX_OUTPUT, True)] \<and>
     list_all (\<lambda>(p, g, writable).
         writable
         \<or> (case cf_input_path cf of None \<Rightarrow> False
             | Some i \<Rightarrow> p = path_parent i \<and> g = SANDBOX_INPUT_DIR \<and> mh_iterdir h p = Inr [path_name i])
         \<or> (mh_is_dir h p \<and> (\<exists>src. (src, g) \<in> set (cf_ro_binds cf) \<and> p = path_of src))) (su_preopens su) \<and>
     fst ` set (su_env su) \<subseteq> {''STELE_OUTPUT_DIR'', ''STELE_INPUT_PATH''} \<union> fst ` set (cf_env cf) \<and>
     su_fuel su = wb_fuel b \<and> map_of (su_limits su) ''memory_size'' = Some (wb_memory b) \<and>
     su_state su = fresh_wasi b"

lemma bind_preopens_facts:
  "bind_preopens h bs = Inr ps \<Longrightarrow> (p, g, w) \<in> set ps \<Longrightarrow>
   \<not> w \<and> mh_is_dir h p \<and> (\<exists>src. (src, g) \<in> set bs \<and> p = path_of src)"
  by (induction bs arbitrary: ps rule: bind_preopens.induct) (auto split: if_splits simp: map_sum_Inr_iff, blast+)

lemma preopens_facts:
  assumes "preopens h cf = Inr pre"
  shows "filter (\<lambda>(p, g, writable). writable) pre = [(cf_artifact_dir cf, SANDBOX_OUTPUT, True)]"
    and "list_all (\<lambda>(p, g, writable).
         writable
         \<or> (case cf_input_path cf of None \<Rightarrow> False
             | Some i \<Rightarrow> p = path_parent i \<and> g = SANDBOX_INPUT_DIR \<and> mh_iterdir h p = Inr [path_name i])
         \<or> (mh_is_dir h p \<and> (\<exists>src. (src, g) \<in> set (cf_ro_binds cf) \<and> p = path_of src))) pre"
proof -
  obtain inp bs where p: "input_preopen h (cf_input_path cf) = Inr inp" "bind_preopens h (cf_ro_binds cf) = Inr bs"
    "pre = (cf_artifact_dir cf, SANDBOX_OUTPUT, True) # inp @ bs"
    using assms by (auto simp: preopens_def split: sum.splits)
  have i: "inp = [] \<or> (\<exists>x. cf_input_path cf = Some x \<and> mh_iterdir h (path_parent x) = Inr [path_name x] \<and>
      inp = [(path_parent x, SANDBOX_INPUT_DIR, False)])"
    using p(1) by (auto simp: input_preopen_def split: option.splits sum.splits if_splits)
  note b = bind_preopens_facts [OF p(2)]
  then have "filter (\<lambda>(p, g, writable). writable) bs = []" by (auto simp: filter_empty_conv)
  then show "filter (\<lambda>(p, g, writable). writable) pre = [(cf_artifact_dir cf, SANDBOX_OUTPUT, True)]"
    using i by (auto simp: p(3))
  show "list_all (\<lambda>(p, g, writable).
         writable
         \<or> (case cf_input_path cf of None \<Rightarrow> False
             | Some i \<Rightarrow> p = path_parent i \<and> g = SANDBOX_INPUT_DIR \<and> mh_iterdir h p = Inr [path_name i])
         \<or> (mh_is_dir h p \<and> (\<exists>src. (src, g) \<in> set (cf_ro_binds cf) \<and> p = path_of src))) pre"
    using i b unfolding p(3) list_all_iff by (auto split: option.splits)
qed

lemma update_keys: "fst ` set (AList.update k v d) = insert k (fst ` set d)"
  by (induction d) auto

lemma fold_update_keys: "fst ` set (fold (\<lambda>(k, v). AList.update k v) xs d) = fst ` set xs \<union> fst ` set d"
  by (induction xs arbitrary: d) (simp_all add: case_prod_beta update_keys)

lemma wasm_environment_keys:
  "fst ` set (wasm_environment cf) \<subseteq> {''STELE_OUTPUT_DIR'', ''STELE_INPUT_PATH''} \<union> fst ` set (cf_env cf)"
  unfolding wasm_environment_def fold_update_keys by (auto split: option.splits)

text \<open>Every execution, by whether the engine was started.\<close>

lemma wasm_execute_started:
  assumes "wasm_execute h b cf = (r, started)"
  shows "(started = [] \<and> (case r of Inl e \<Rightarrow> True | Inr x \<Rightarrow> \<exists>m. x = wasm_failed h WASM_LOAD_EXIT_CODE m)) \<or>
    (\<exists>c args pre binary k su. cf_command cf = c # args \<and> cf_script_path cf = None \<and> preopens h cf = Inr pre \<and>
       load_wasm_module (mh_host h) (path_of c) = Inr binary \<and> su = wasm_setup b cf binary pre \<and>
       make_capture (wb_output_limit b) = Inr k \<and> started = [su] \<and> r = wasm_run h b cf binary k (mh_engine h su))"
  using assms by (auto simp: wasm_execute_def Let_def split: list.splits if_splits sum.splits)

lemma wasm_run_module: "wasm_run h b cf binary k r = Inr x \<Longrightarrow> xo_module_sha256 x = Some (sha256 binary)"
  by (auto simp: wasm_run_def Let_def split: prod.splits sum.splits)

text \<open>
  C15. A WebAssembly parser gets the sandbox's world and no other: the engine is started at most
  once, on the module named by the command, with one writable directory, the run's output; what else
  it can open is read-only, either the directory that holds the staged input alone or a configured
  directory; its environment holds only Stele's two variables and the configured ones; memory and
  fuel are limited; its clock, entropy and file numbering are fresh.  The hash reported is that of
  the module that ran, and there is none when nothing ran.
\<close>

theorem wasm_run_confined:
  "case wasm_execute h b cf of
     (r, started) \<Rightarrow>
       length started \<le> 1 \<and> list_all (guest_confined h b cf) started \<and>
       (case r of
          Inl e \<Rightarrow> True
        | Inr x \<Rightarrow> xo_module_sha256 x = (case started of [] \<Rightarrow> None | su # _ \<Rightarrow> Some (sha256 (su_binary su))))"
proof -
  obtain r started where e: "wasm_execute h b cf = (r, started)" by (cases "wasm_execute h b cf")
  from wasm_execute_started [OF e] show ?thesis
  proof (elim disjE exE conjE)
    assume "started = []" "case r of Inl e \<Rightarrow> True | Inr x \<Rightarrow> \<exists>m. x = wasm_failed h WASM_LOAD_EXIT_CODE m"
    then show ?thesis unfolding e by (cases r) (auto simp: wasm_failed_def wasm_outcome_def)
  next
    fix c args pre binary k su
    assume s: "cf_command cf = c # args" "cf_script_path cf = None" "preopens h cf = Inr pre"
      "load_wasm_module (mh_host h) (path_of c) = Inr binary" "su = wasm_setup b cf binary pre" "started = [su]"
      "r = wasm_run h b cf binary k (mh_engine h su)"
    have "guest_confined h b cf su"
      unfolding guest_confined_def
      using s(1,2,4,5) preopens_facts [OF s(3)] wasm_environment_keys [of cf] by (simp add: wasm_setup_def store_limits_def)
    moreover have "xo_module_sha256 x = Some (sha256 (su_binary su))" if "r = Inr x" for x
      using wasm_run_module [of h b cf binary k _ x] that s(5,7) by (simp add: wasm_setup_def)
    ultimately show ?thesis unfolding e using s(6) by (cases r) simp_all
  qed
qed

section \<open>What is reported is what happened\<close>

text \<open>How the guest stopped, \<open>None\<close> for a \<open>_start\<close> that returned, once it was loaded.\<close>

definition guest_loaded :: "engine_run \<Rightarrow> bool" where
  "guest_loaded r \<longleftrightarrow> en_prepare r = None \<and> (en_instantiate r \<noteq> None \<or> en_start r \<noteq> None)"

definition guest_stop_of :: "engine_run \<Rightarrow> guest_stop option" where
  "guest_stop_of r = (case en_instantiate r of Some s \<Rightarrow> Some s | None \<Rightarrow> (case en_start r of Some s \<Rightarrow> s | None \<Rightarrow> None))"

definition trapped_by :: "trap_code \<Rightarrow> engine_run \<Rightarrow> bool" where
  "trapped_by c r \<longleftrightarrow> guest_loaded r \<and> (case guest_stop_of r of Some (Guest_trapped d m) \<Rightarrow> d = c | _ \<Rightarrow> False)"

definition failed_for :: "failure_reason \<Rightarrow> execution_outcome \<Rightarrow> bool" where
  "failed_for why x \<longleftrightarrow> (case xo_failure x of None \<Rightarrow> False | Some f \<Rightarrow> rf_reason f = why)"

definition report_exact :: "engine_run \<Rightarrow> execution_outcome \<Rightarrow> bool" where
  "report_exact r x \<longleftrightarrow>
     (xo_exit_code x = 0 \<longleftrightarrow> guest_loaded r \<and> guest_stop_of r \<in> {None, Some (Guest_exited 0)}) \<and>
     (case xo_failure x of None \<Rightarrow> xo_exit_code x = 0 | Some f \<Rightarrow> xo_exit_code x \<noteq> 0 \<and> rf_exit_code f = Some (xo_exit_code x)) \<and>
     (xo_timed_out x \<longleftrightarrow> trapped_by INTERRUPT r) \<and> (failed_for TIMEOUT x \<longleftrightarrow> trapped_by INTERRUPT r) \<and>
     (failed_for CPU_LIMIT x \<longleftrightarrow> trapped_by OUT_OF_FUEL r) \<and>
     (failed_for EXIT_STATUS x \<longleftrightarrow> guest_loaded r \<and> (case guest_stop_of r of Some (Guest_exited n) \<Rightarrow> n \<noteq> 0 | _ \<Rightarrow> False))"

lemmas outcome_fields = wasm_outcome_def wasm_trapped_def exit_status_failure_def WASM_TRAP_EXIT_CODE_def WASM_LOAD_EXIT_CODE_def

lemma trapped_report:
  assumes "guest_loaded r" "guest_stop_of r = Some (Guest_trapped c m)"
  shows "report_exact r (wasm_trapped b cf texts c m)"
  using assms by (cases c) (simp_all add: report_exact_def trapped_by_def failed_for_def outcome_fields)

lemma exited_report:
  assumes "guest_loaded r" "guest_stop_of r = Some (Guest_exited n)"
  shows "report_exact r (wasm_outcome texts n None None False)"
  using assms by (simp add: report_exact_def trapped_by_def failed_for_def outcome_fields)

lemma failed_report:
  assumes "\<not> guest_loaded r \<or> (case guest_stop_of r of Some (Guest_failed m) \<Rightarrow> True | _ \<Rightarrow> False)"
    "n \<noteq> 0" "why \<notin> {TIMEOUT, CPU_LIMIT, EXIT_STATUS}"
  shows "report_exact r (wasm_outcome texts n (Some m) (Some why) False)"
  using assms
  by (auto simp: report_exact_def trapped_by_def failed_for_def outcome_fields split: option.splits guest_stop.splits)

lemma instantiate_report:
  assumes "instantiate_and_run b cf texts r = (Inr x, measured)"
  shows "report_exact r x"
proof (cases "en_prepare r")
  case (Some m)
  then show ?thesis using assms
    by (auto simp: instantiate_and_run_def guest_loaded_def WASM_LOAD_EXIT_CODE_def intro!: failed_report)
next
  case ready: None
  show ?thesis
  proof (cases "en_instantiate r")
    case (Some s)
    then have l: "guest_loaded r" "guest_stop_of r = Some s" using ready by (simp_all add: guest_loaded_def guest_stop_of_def)
    show ?thesis using assms ready Some l
      by (cases s) (auto simp: instantiate_and_run_def WASM_LOAD_EXIT_CODE_def WASM_TRAP_EXIT_CODE_def
          split: if_splits intro!: trapped_report exited_report failed_report)
  next
    case running: None
    show ?thesis
    proof (cases "en_start r")
      case None
      then show ?thesis using assms ready running
        by (auto simp: instantiate_and_run_def guest_loaded_def WASM_LOAD_EXIT_CODE_def intro!: failed_report)
    next
      case (Some s)
      then have l: "guest_loaded r" "guest_stop_of r = s" using ready running by (simp_all add: guest_loaded_def guest_stop_of_def)
      show ?thesis
      proof (cases s)
        case None
        then show ?thesis using assms ready running Some l
          by (auto simp: instantiate_and_run_def report_exact_def trapped_by_def failed_for_def outcome_fields)
      next
        case stop: (Some t)
        show ?thesis using assms ready running Some stop l
          by (cases t) (auto simp: instantiate_and_run_def WASM_TRAP_EXIT_CODE_def intro!: trapped_report exited_report failed_report)
      qed
    qed
  qed
qed

lemma memory_failure_report:
  assumes "report_exact r x"
  shows "report_exact r (x\<lparr>xo_failure := memory_failure b peak (xo_failure x)\<rparr>)"
  using assms
  by (cases "xo_failure x"; cases peak) (auto simp: report_exact_def memory_failure_def failed_for_def split: if_splits)

lemma report_exact_other [simp]:
  "report_exact r (x\<lparr>xo_wall_time := w, xo_module_sha256 := d, xo_cpu_time := c, xo_peak_memory := p, xo_runtime := v,
     xo_limits := l, xo_counters := n, xo_failure := f\<rparr>) \<longleftrightarrow> report_exact r (x\<lparr>xo_failure := f\<rparr>)"
  by (cases f) (simp_all add: report_exact_def failed_for_def)

lemma wasm_run_report:
  "case wasm_run h b cf binary k r of Inl e \<Rightarrow> guest_stop_of r = Some (Guest_raised e) | Inr x \<Rightarrow> report_exact r x"
proof -
  let ?texts = "(capture_text ''stdout'' (write_all (en_stdout r) k), capture_text ''stderr'' (write_all (en_stderr r) k))"
  obtain res measured where i: "instantiate_and_run b cf ?texts r = (res, measured)"
    by (cases "instantiate_and_run b cf ?texts r")
  show ?thesis
  proof (cases res)
    case (Inl e)
    then have "guest_stop_of r = Some (Guest_raised e)"
      using i by (auto simp: instantiate_and_run_def guest_stop_of_def split: option.splits guest_stop.splits)
    then show ?thesis using i Inl by (simp add: wasm_run_def)
  next
    case (Inr x)
    then have "report_exact r x" using i instantiate_report by blast
    from memory_failure_report [OF this] show ?thesis using i Inr by (simp add: wasm_run_def Let_def)
  qed
qed

text \<open>
  What the backend reports of a run is what happened in the engine: exit status 0 exactly when the
  guest was loaded and returned, or exited with 0; a failure exactly for every other status, carrying
  it; a timeout exactly for the epoch's interrupt; the CPU limit exactly for exhausted fuel; an exit
  status exactly when the guest chose it.  A run with no engine is an engine error.  The only
  exception that escapes a started run is one raised in an import.
\<close>

theorem wasm_report_exact:
  "case wasm_execute h b cf of
     (Inr x, []) \<Rightarrow> failed_for ENGINE_ERROR x \<and> xo_exit_code x = 127
   | (Inr x, su # _) \<Rightarrow> report_exact (mh_engine h su) x
   | (Inl e, []) \<Rightarrow> True
   | (Inl e, su # _) \<Rightarrow> guest_stop_of (mh_engine h su) = Some (Guest_raised e)"
proof -
  obtain r started where e: "wasm_execute h b cf = (r, started)" by (cases "wasm_execute h b cf")
  from wasm_execute_started [OF e] show ?thesis
  proof (elim disjE exE conjE)
    assume "started = []" "case r of Inl e \<Rightarrow> True | Inr x \<Rightarrow> \<exists>m. x = wasm_failed h WASM_LOAD_EXIT_CODE m"
    then show ?thesis unfolding e
      by (cases r) (auto simp: wasm_failed_def wasm_outcome_def failed_for_def WASM_LOAD_EXIT_CODE_def)
  next
    fix c args pre binary k su
    assume "started = [su]" "r = wasm_run h b cf binary k (mh_engine h su)"
    then show ?thesis unfolding e using wasm_run_report [where h = h and b = b and cf = cf and binary = binary and k = k and r = "mh_engine h su"]
      by (cases "wasm_run h b cf binary k (mh_engine h su)") simp_all
  qed
qed

end
