(* ===== verification/Journal.thy ===== *)
theory Journal
  imports ReplayPolicy
begin

text \<open>
  The journal of a verification campaign (\<open>Observation\<close> and \<open>Journal\<close> of
  \<open>stele/verification/campaign.py\<close>): one line of JSON per observation after a header line, in a
  file that a process may stop writing at any byte.  The main result: whatever sessions were cut
  off where, the journal opens, holds every observation whose append returned, in order, and no
  document and lane twice.
\<close>

section \<open>Observations\<close>

definition SEALED_STATUS :: string where "SEALED_STATUS = ''sealed''"
definition FAILED_STATUS :: string where "FAILED_STATUS = ''failed''"
definition NOT_APPLICABLE :: string where "NOT_APPLICABLE = ''not_applicable''"
definition CONTAINMENT_ERROR :: string where "CONTAINMENT_ERROR = ''containment_error''"
definition ERROR_STATUS :: string where "ERROR_STATUS = ''error''"

definition STATUSES :: "string list" where
  "STATUSES = [SEALED_STATUS, FAILED_STATUS, NOT_APPLICABLE, CONTAINMENT_ERROR, ERROR_STATUS]"

definition CampaignError :: exn where "CampaignError = OtherError ''CampaignError''"

text \<open>The dataclass checks no field, so a line read back may hold any value in each.\<close>

record observed =
  vo_path :: json
  vo_lane :: json
  vo_status :: json
  vo_backend :: json
  vo_run_id :: json
  vo_record_id :: json
  vo_artifact_hash :: json
  vo_input_sha256 :: json
  vo_failure :: json
  vo_telemetry :: json
  vo_detail :: json
  vo_at :: json

definition observed_fields :: "string list" where
  "observed_fields =
     [''path'', ''lane'', ''status'', ''backend'', ''run_id'', ''record_id'', ''artifact_hash'', ''input_sha256'',
      ''failure'', ''telemetry'', ''detail'', ''at'']"

definition observed_to_json :: "observed \<Rightarrow> json" where
  "observed_to_json o' = JObj
     [(''path'', vo_path o'), (''lane'', vo_lane o'), (''status'', vo_status o'), (''backend'', vo_backend o'),
      (''run_id'', vo_run_id o'), (''record_id'', vo_record_id o'), (''artifact_hash'', vo_artifact_hash o'),
      (''input_sha256'', vo_input_sha256 o'), (''failure'', vo_failure o'), (''telemetry'', vo_telemetry o'),
      (''detail'', vo_detail o'), (''at'', vo_at o')]"

definition status_ok :: "json \<Rightarrow> bool" where
  "status_ok s \<longleftrightarrow> list_ex (\<lambda>t. s = JStr t) STATUSES"

definition observed_from_json :: "json \<Rightarrow> observed result" where
  "observed_from_json j =
     (case j of
        JObj obj \<Rightarrow>
          if set (map fst obj) \<noteq> set observed_fields \<or> \<not> status_ok (jget obj ''status'') then Inl CampaignError
          else Inr \<lparr>vo_path = jget obj ''path'', vo_lane = jget obj ''lane'', vo_status = jget obj ''status'',
                    vo_backend = jget obj ''backend'', vo_run_id = jget obj ''run_id'', vo_record_id = jget obj ''record_id'',
                    vo_artifact_hash = jget obj ''artifact_hash'', vo_input_sha256 = jget obj ''input_sha256'',
                    vo_failure = jget obj ''failure'', vo_telemetry = jget obj ''telemetry'', vo_detail = jget obj ''detail'',
                    vo_at = jget obj ''at''\<rparr>
      | _ \<Rightarrow> Inl CampaignError)"

section \<open>The journal\<close>

definition LF :: char where "LF = CHR 0x0A"

record journal =
  jo_header :: json
  jo_observed :: "observed list"

text \<open>\<open>_append_line\<close>, when the system call writes all it is given.\<close>

definition append_line :: "json \<Rightarrow> string \<Rightarrow> string result" where
  "append_line j file = map_sum id (\<lambda>c. file @ c @ [LF]) (canonical_json j)"

text \<open>\<open>data[:data.rfind(b"\n") + 1]\<close>: up to the last line feed.\<close>

definition whole_lines :: "string \<Rightarrow> string" where
  "whole_lines s = rev (dropWhile (\<lambda>c. c \<noteq> LF) (rev s))"

fun read_observed :: "string list \<Rightarrow> observed list result" where
  "read_observed [] = Inr []"
| "read_observed (line # ls) =
     (case loads_bytes line of
        None \<Rightarrow> Inl CampaignError
      | Some j \<Rightarrow>
          (case observed_from_json j of
             Inl e \<Rightarrow> Inl e
           | Inr o' \<Rightarrow> map_sum id (\<lambda>os. o' # os) (read_observed ls)))"

text \<open>
  \<open>__init__\<close>, with the file afterwards.  An exception leaves the file as it was by then: cut to
  whole lines, and with the header if that was missing.
\<close>

definition journal_open :: "json \<Rightarrow> string option \<Rightarrow> journal result \<times> string option" where
  "journal_open header file =
     (case file of
        Some (c # cs) \<Rightarrow>
          (let file1 = whole_lines (c # cs); lines = butlast (split_on LF file1) in
           case (case lines of [] \<Rightarrow> Some JNull | l # _ \<Rightarrow> loads_bytes l) of
             None \<Rightarrow> (Inl CampaignError, Some file1)
           | Some existing \<Rightarrow>
               if existing = JNull
               then (case append_line header file1 of
                       Inl e \<Rightarrow> (Inl e, Some file1)
                     | Inr file2 \<Rightarrow> (map_sum id (\<lambda>os. \<lparr>jo_header = header, jo_observed = os\<rparr>) (read_observed (tl lines)), Some file2))
               else if \<not> py_eq existing header then (Inl CampaignError, Some file1)
               else (map_sum id (\<lambda>os. \<lparr>jo_header = header, jo_observed = os\<rparr>) (read_observed (tl lines)), Some file1))
      | _ \<Rightarrow>
          (case append_line header [] of
             Inl e \<Rightarrow> (Inl e, file)
           | Inr file2 \<Rightarrow> (Inr \<lparr>jo_header = header, jo_observed = []\<rparr>, Some file2)))"

definition JOURNAL_SCHEMA :: string where "JOURNAL_SCHEMA = ''stele.verification-journal''"

text \<open>
  \<open>read\<close>: the first line is the header the file is then opened with.  A first line that is not
  an object has no \<open>get\<close>.
\<close>

definition first_line :: "string \<Rightarrow> string" where
  "first_line s = (let l = takeWhile (\<lambda>c. c \<noteq> LF) s in if LF \<in> set s then l @ [LF] else l)"

definition journal_read :: "string option \<Rightarrow> journal result \<times> string option" where
  "journal_read file =
     (case file of
        None \<Rightarrow> (Inl FileNotFoundError, None)
      | Some s \<Rightarrow>
          (case loads_bytes (first_line s) of
             None \<Rightarrow> (Inl ValueError, file)
           | Some (JObj h) \<Rightarrow>
               if \<not> py_eq (jget h ''schema'') (JStr JOURNAL_SCHEMA) \<or> \<not> py_eq (jget h ''schema_version'') (JInt 1)
               then (Inl CampaignError, file)
               else journal_open (JObj h) file
           | Some _ \<Rightarrow> (Inl AttributeError, file)))"

text \<open>\<open>append\<close> and \<open>done\<close>.\<close>

definition journal_append :: "observed \<Rightarrow> journal \<Rightarrow> string \<Rightarrow> (journal \<times> string) result" where
  "journal_append o' j file =
     map_sum id (\<lambda>file'. (j\<lparr>jo_observed := jo_observed j @ [o']\<rparr>, file')) (append_line (observed_to_json o') file)"

definition observed_key :: "observed \<Rightarrow> json \<times> json" where
  "observed_key o' = (vo_path o', vo_lane o')"

definition journal_done :: "journal \<Rightarrow> (json \<times> json) list" where
  "journal_done j = map observed_key (jo_observed j)"

section \<open>Lines\<close>

lemma split_lines_concat:
  "list_all (\<lambda>l. LF \<notin> set l) ls \<Longrightarrow> LF \<notin> set r \<Longrightarrow> split_on LF (concat (map (\<lambda>l. l @ [LF]) ls) @ r) = ls @ [r]"
  by (induction ls) (simp_all add: split_on_append split_on_single)

lemma whole_lines_concat:
  assumes "LF \<notin> set r"
  shows "whole_lines (concat (map (\<lambda>l. l @ [LF]) ls) @ r) = concat (map (\<lambda>l. l @ [LF]) ls)"
proof (cases ls rule: rev_cases)
  case Nil
  then have "dropWhile (\<lambda>c. c \<noteq> LF) (rev r) = []" using assms by (metis (mono_tags, lifting) dropWhile_eq_Nil_conv set_rev)
  then show ?thesis using Nil by (simp add: whole_lines_def)
next
  case (snoc ks l)
  have "dropWhile (\<lambda>c. c \<noteq> LF) (rev r @ LF # xs) = LF # xs" for xs
    using assms by (subst dropWhile_append2) auto
  then show ?thesis by (simp add: whole_lines_def snoc)
qed

text \<open>Canonical JSON holds no control character, so no line feed.\<close>

definition shown :: "char \<Rightarrow> bool" where
  "shown c \<longleftrightarrow> 32 \<le> (code c :: nat)"

lemma shown_dec: "is_dec c \<Longrightarrow> shown c"
  by (simp add: is_dec_def shown_def)

lemma shown_show_nat: "list_all shown (show_nat n)"
  by (auto simp: list_all_iff intro: shown_dec dest: show_nat_dec)

lemma shown_show_int: "list_all shown (show_int i)"
  by (simp add: show_int_def shown_show_nat) (simp add: shown_def)

lemma shown_shortest: "list_all shown (fst (shortest v ns))"
  by (induction ns) (auto simp: dec_round_def Let_def shown_show_nat, simp_all add: shown_def)

lemma shown_layout:
  assumes "list_all shown (fst dp)"
  shows "list_all shown (layout dp)"
proof -
  obtain ds p where dp: "dp = (ds, p)" by (cases dp)
  have ds: "list_all shown ds" using assms dp by simp
  have zeros: "list_all shown (replicate n (CHR ''0''))" for n by (simp add: list_all_iff shown_def)
  have marks: "shown (CHR ''.'')" "shown (CHR ''e'')" "shown (CHR ''-'')" "shown (CHR ''+'')" "shown (CHR ''0'')"
    by (simp_all add: shown_def)
  show ?thesis
    unfolding layout_def dp by (simp add: ds zeros marks list_all_take_drop [OF ds] shown_show_nat)
qed

lemma shown_float: "list_all shown (float_repr x)"
  by (cases x) (auto simp: shown_layout shown_shortest shown_def)

lemma shown_esc: "list_all shown (esc_char c)"
proof -
  obtain n :: nat where n: "code c = n" by blast
  have "shown (hex_char k)" if "k < 16" for k using that by (simp add: hex_char_def shown_def)
  then show ?thesis
    unfolding esc_char_def Let_def n by (auto simp: n shown_def quote_mark_def back_slash_def)
qed

lemma shown_print_str: "list_all shown (print_str s)"
  using shown_esc by (auto simp: print_str_def list_all_iff quote_mark_def shown_def)

lemma shown_jprint:
  "list_all shown (jprint j)" "list_all shown (jprints vs)" "list_all shown (jmembers kvs)"
  by (induction j and vs and kvs rule: jprint_jprints_jmembers.induct)
    (simp_all add: shown_show_int shown_float shown_print_str, simp_all add: shown_def)

lemma cjson_one_line: "LF \<notin> set (cjson j)"
  using shown_jprint(1) [of "jsort j"] by (auto simp: cjson_def list_all_iff shown_def LF_def)

section \<open>Reading back\<close>

lemma utf8_ok_pass: "utf8_ok s \<Longrightarrow> utf8_pass s"
  by (induction s rule: utf8_ok.induct) (auto simp: Let_def split: if_splits list.splits)

lemma loads_line:
  assumes "json_ok (JObj kvs)"
  shows "loads_bytes (cjson (JObj kvs)) = Some (jsort (JObj kvs))"
proof -
  let ?s = "cjson (JObj kvs)"
  obtain r where r: "?s = CHR ''{'' # r" by (simp add: cjson_def)
  have "byte_at ?s i \<noteq> 0" if "i < length ?s" for i
    using shown_jprint(1) [of "jsort (JObj kvs)"] that by (auto simp: cjson_def byte_at_def list_all_length shown_def)
  then have b: "byte_at ?s 0 \<noteq> 0" "byte_at ?s 1 \<noteq> 0 \<or> length ?s = 1" by (cases r; simp add: r)+
  have "detect_encoding ?s = Utf8"
    unfolding detect_encoding_def using b by (auto simp: r starts_with_def)
  then show ?thesis
    using utf8_ok_pass [OF utf8_cjson [OF assms]] cjson_roundtrip [OF assms] by (simp add: loads_bytes_def decode_bytes_def)
qed

lemma py_norm_sorted: "json_ok j \<Longrightarrow> py_norm (jsort j) = py_norm j"
proof (induction j rule: jsort.induct)
  case (2 kvs)
  have d: "distinct (map fst (map (\<lambda>(k, v). (k, jsort v)) kvs))" using 2 by (simp add: comp_def case_prod_beta)
  have "map (\<lambda>(k, v). (k, py_norm v)) (map (\<lambda>(k, v). (k, jsort v)) kvs) = map (\<lambda>(k, v). (k, py_norm v)) kvs"
    using 2 by (auto simp: list_all_iff)
  then show ?case using sort_map_values [OF d, of py_norm] by (simp del: map_map)
qed (auto simp: list_all_iff)

text \<open>An observation as it is read back: the members of its dictionaries in key order.\<close>

definition reread :: "observed \<Rightarrow> observed" where
  "reread o' = \<lparr>vo_path = jsort (vo_path o'), vo_lane = jsort (vo_lane o'), vo_status = jsort (vo_status o'),
     vo_backend = jsort (vo_backend o'), vo_run_id = jsort (vo_run_id o'), vo_record_id = jsort (vo_record_id o'),
     vo_artifact_hash = jsort (vo_artifact_hash o'), vo_input_sha256 = jsort (vo_input_sha256 o'),
     vo_failure = jsort (vo_failure o'), vo_telemetry = jsort (vo_telemetry o'), vo_detail = jsort (vo_detail o'),
     vo_at = jsort (vo_at o')\<rparr>"

definition observed_ok :: "observed \<Rightarrow> bool" where
  "observed_ok o' \<longleftrightarrow>
     json_ok (observed_to_json o') \<and> status_ok (vo_status o') \<and>
     (case (vo_path o', vo_lane o') of (JStr p, JStr l) \<Rightarrow> True | _ \<Rightarrow> False)"

lemma observed_roundtrip:
  assumes "observed_ok o'"
  shows "observed_from_json (jsort (observed_to_json o')) = Inr (reread o')"
proof -
  let ?kvs = "[(''path'', vo_path o'), (''lane'', vo_lane o'), (''status'', vo_status o'), (''backend'', vo_backend o'),
      (''run_id'', vo_run_id o'), (''record_id'', vo_record_id o'), (''artifact_hash'', vo_artifact_hash o'),
      (''input_sha256'', vo_input_sha256 o'), (''failure'', vo_failure o'), (''telemetry'', vo_telemetry o'),
      (''detail'', vo_detail o'), (''at'', vo_at o')]"
  have d: "distinct (map fst ?kvs)" by simp
  note get = jget_sorted [OF d]
  have keys: "set (map fst (sort_key fst (map (\<lambda>(k, v). (k, jsort v)) ?kvs))) = set observed_fields"
    by (auto simp: observed_fields_def image_image split_beta)
  have st: "status_ok (jsort (vo_status o'))" using assms by (auto simp: observed_ok_def status_ok_def list_ex_iff)
  have j: "jsort (observed_to_json o') = JObj (sort_key fst (map (\<lambda>(k, v). (k, jsort v)) ?kvs))"
    by (simp add: observed_to_json_def del: list.map sort_key_simps)
  show ?thesis
    unfolding j observed_from_json_def json.case get keys by (simp add: st reread_def)
qed

lemma reread_key [simp]: "observed_ok o' \<Longrightarrow> observed_key (reread o') = observed_key o'"
  by (auto simp: observed_ok_def observed_key_def reread_def split: json.splits)

definition observed_line :: "observed \<Rightarrow> string" where
  "observed_line o' = cjson (observed_to_json o')"

lemma read_lines:
  "list_all observed_ok os \<Longrightarrow> read_observed (map observed_line os) = Inr (map reread os)"
proof (induction os)
  case (Cons o' os)
  have "json_ok (observed_to_json o')" using Cons.prems by (simp add: observed_ok_def)
  then have "loads_bytes (observed_line o') = Some (jsort (observed_to_json o'))"
    using loads_line by (simp add: observed_line_def observed_to_json_def)
  then show ?case using Cons by (simp add: observed_roundtrip)
qed simp

section \<open>Sessions cut off anywhere\<close>

text \<open>The journal file with these observations.\<close>

definition journal_text :: "json \<Rightarrow> observed list \<Rightarrow> string" where
  "journal_text header os = concat (map (\<lambda>l. l @ [LF]) (cjson header # map observed_line os))"

definition appendable :: "observed list \<Rightarrow> observed \<Rightarrow> bool" where
  "appendable os o' \<longleftrightarrow> observed_ok o' \<and> observed_key o' \<notin> set (map observed_key os)"

definition bytes_of :: "string option \<Rightarrow> string" where
  "bytes_of file = (case file of None \<Rightarrow> [] | Some s \<Rightarrow> s)"

text \<open>
  What sessions can leave: the file; the observations the running session holds, if there is one;
  and those whose line is whole.  A session is cut off between its steps, while it opens the
  journal, or inside an append, after any number of bytes of what it was writing.
\<close>

inductive journal_reached :: "json \<Rightarrow> string option \<Rightarrow> observed list option \<Rightarrow> observed list \<Rightarrow> bool"
  for header :: json where
  no_file: "journal_reached header None None []"
| opened: "journal_reached header f m os \<Longrightarrow> journal_open header f = (Inr j, f') \<Longrightarrow>
    journal_reached header f' (Some (jo_observed j)) os"
| appended: "journal_reached header (Some s) (Some held) os \<Longrightarrow> appendable held o' \<Longrightarrow>
    append_line (observed_to_json o') s = Inr s' \<Longrightarrow>
    journal_reached header (Some s') (Some (held @ [o'])) (os @ [o'])"
| cut_off: "journal_reached header f m os \<Longrightarrow> journal_reached header f None os"
| cut_in_append: "journal_reached header (Some s) (Some held) os \<Longrightarrow> appendable held o' \<Longrightarrow>
    append_line (observed_to_json o') s = Inr s' \<Longrightarrow> length s \<le> n \<Longrightarrow> n < length s' \<Longrightarrow>
    journal_reached header (Some (take n s')) None os"
| cut_in_open: "journal_reached header f m os \<Longrightarrow> journal_open header f = (Inr j, Some s') \<Longrightarrow>
    length (whole_lines (bytes_of f)) \<le> n \<Longrightarrow> n \<le> length s' \<Longrightarrow>
    journal_reached header (Some (take n s')) None os"

text \<open>What holds of all of it.\<close>

definition journal_sound :: "json \<Rightarrow> string option \<Rightarrow> observed list option \<Rightarrow> observed list \<Rightarrow> bool" where
  "journal_sound header f m os \<longleftrightarrow>
     list_all observed_ok os \<and> distinct (map observed_key os) \<and>
     (case m of
        None \<Rightarrow> (os = [] \<and> LF \<notin> set (bytes_of f)) \<or> (\<exists>r. f = Some (journal_text header os @ r) \<and> LF \<notin> set r)
      | Some held \<Rightarrow> map observed_key held = map observed_key os \<and> f = Some (journal_text header os))"

lemma open_incomplete:
  assumes "json_ok (JObj h)" "LF \<notin> set (bytes_of f)"
  shows "journal_open (JObj h) f = (Inr \<lparr>jo_header = JObj h, jo_observed = []\<rparr>, Some (journal_text (JObj h) []))"
proof -
  have app: "append_line (JObj h) [] = Inr (journal_text (JObj h) [])"
    using canonical_json_ok [OF assms(1)] by (simp add: append_line_def journal_text_def)
  have w: "whole_lines s = []" if "LF \<notin> set s" for s using whole_lines_concat [OF that, of "[]"] by simp
  show ?thesis
    using assms(2) w app by (cases f; cases "the f") (auto simp: journal_open_def bytes_of_def Let_def)
qed

lemma journal_lines:
  assumes "LF \<notin> set r"
  shows "whole_lines (journal_text (JObj h) os @ r) = journal_text (JObj h) os"
    and "butlast (split_on LF (journal_text (JObj h) os)) = cjson (JObj h) # map observed_line os"
proof -
  let ?ls = "cjson (JObj h) # map observed_line os"
  have ls: "list_all (\<lambda>l. LF \<notin> set l) ?ls" by (auto simp: list_all_iff observed_line_def cjson_one_line)
  show "whole_lines (journal_text (JObj h) os @ r) = journal_text (JObj h) os"
    unfolding journal_text_def by (rule whole_lines_concat [OF assms])
  show "butlast (split_on LF (journal_text (JObj h) os)) = ?ls"
    using split_lines_concat [OF ls, of "[]"] unfolding journal_text_def by simp
qed

lemma open_complete:
  assumes "json_ok (JObj h)" "list_all observed_ok os" "LF \<notin> set r"
  shows "journal_open (JObj h) (Some (journal_text (JObj h) os @ r)) =
    (Inr \<lparr>jo_header = JObj h, jo_observed = map reread os\<rparr>, Some (journal_text (JObj h) os))"
proof -
  obtain c cs where s: "journal_text (JObj h) os @ r = c # cs" by (cases "journal_text (JObj h) os @ r") (auto simp: journal_text_def)
  have w: "whole_lines (c # cs) = journal_text (JObj h) os" using journal_lines(1) [OF assms(3), of h os] s by simp
  have eq: "py_eq (jsort (JObj h)) (JObj h)" unfolding py_eq_def by (rule py_norm_sorted [OF assms(1)])
  have nn: "jsort (JObj h) \<noteq> JNull" by simp
  have l: "butlast (split_on LF (journal_text (JObj h) os)) = cjson (JObj h) # map observed_line os"
    using journal_lines(2) [of "[]"] by simp
  show ?thesis
    unfolding s journal_open_def option.case list.case w Let_def l loads_line [OF assms(1)] list.sel read_lines [OF assms(2)]
      if_not_P [OF nn] by (simp only: eq not_True_eq_False if_False map_sum.simps)
qed

lemma append_text:
  assumes "observed_ok o'" "append_line (observed_to_json o') (journal_text (JObj h) os) = Inr s'"
  shows "s' = journal_text (JObj h) (os @ [o'])"
  using assms canonical_json_ok [of "observed_to_json o'"]
  by (auto simp: append_line_def observed_ok_def journal_text_def observed_line_def)

lemma journal_reached_sound:
  assumes "journal_reached (JObj h) f m os" "json_ok (JObj h)"
  shows "journal_sound (JObj h) f m os"
  using assms
proof (induction rule: journal_reached.induct)
  case no_file
  then show ?case by (simp add: journal_sound_def bytes_of_def)
next
  case (opened f m os j f')
  have ok: "list_all observed_ok os" using opened by (simp add: journal_sound_def)
  have "f' = Some (journal_text (JObj h) os) \<and> (jo_observed j = map reread os)"
  proof (cases "os = [] \<and> LF \<notin> set (bytes_of f)")
    case True
    then show ?thesis using open_incomplete [OF opened.prems, of f] opened.hyps(2) by auto
  next
    case False
    then obtain r where "f = Some (journal_text (JObj h) os @ r)" "LF \<notin> set r"
      using opened by (auto simp: journal_sound_def split: option.splits)
    then show ?thesis using open_complete [OF opened.prems ok] opened.hyps(2) by auto
  qed
  then show ?case using opened ok by (auto simp: journal_sound_def list_all_iff)
next
  case (appended s held os o' s')
  then have s: "s = journal_text (JObj h) os" and held: "map observed_key held = map observed_key os"
    and os: "list_all observed_ok os" "distinct (map observed_key os)" by (auto simp: journal_sound_def)
  have ok: "observed_ok o'" and new: "observed_key o' \<notin> set (map observed_key os)"
    using appended.hyps(2) unfolding appendable_def held by blast+
  have "s' = journal_text (JObj h) (os @ [o'])" using append_text [OF ok] appended.hyps(3) s by simp
  then show ?case using os held ok new by (simp add: journal_sound_def)
next
  case (cut_off f m os)
  then show ?case by (cases m) (auto simp: journal_sound_def intro: exI [of _ "[]"])
next
  case (cut_in_append s held os o' s' n)
  have s: "s = journal_text (JObj h) os" and ok: "observed_ok o'" using cut_in_append by (auto simp: journal_sound_def appendable_def)
  have "s' = s @ observed_line o' @ [LF]"
    using append_text [OF ok] cut_in_append.hyps(3) s by (simp add: journal_text_def)
  then have t: "take n s' = s @ take (n - length s) (observed_line o')" using cut_in_append.hyps(4,5) by simp
  have "LF \<notin> set (take (n - length s) (observed_line o'))"
    using cjson_one_line by (auto simp: observed_line_def dest: in_set_takeD)
  then show ?case using cut_in_append s t by (auto simp: journal_sound_def)
next
  case (cut_in_open f m os j s' n)
  show ?case
  proof (cases "os = [] \<and> LF \<notin> set (bytes_of f)")
    case True
    then have s': "s' = cjson (JObj h) @ [LF]" using open_incomplete [OF cut_in_open.prems, of f] cut_in_open.hyps(2)
      by (simp add: journal_text_def)
    show ?thesis
    proof (cases "n = length s'")
      case full: True
      then show ?thesis using True s' by (auto simp: journal_sound_def journal_text_def intro!: exI [of _ "[]"])
    next
      case False
      then have "take n s' = take n (cjson (JObj h))" using cut_in_open.hyps(4) s' by simp
      then show ?thesis using True cjson_one_line by (auto simp: journal_sound_def bytes_of_def dest: in_set_takeD)
    qed
  next
    case False
    have ok: "list_all observed_ok os" using cut_in_open by (simp add: journal_sound_def)
    from False obtain r where r: "f = Some (journal_text (JObj h) os @ r)" "LF \<notin> set r"
      using cut_in_open by (auto simp: journal_sound_def split: option.splits)
    have "s' = journal_text (JObj h) os" using open_complete [OF cut_in_open.prems ok r(2)] cut_in_open.hyps(2) r(1) by simp
    moreover have "whole_lines (bytes_of f) = journal_text (JObj h) os"
      using journal_lines(1) [OF r(2), of h os] r(1) by (simp add: bytes_of_def)
    ultimately have "take n s' = journal_text (JObj h) os @ []" using cut_in_open.hyps(3,4) by simp
    then show ?thesis using cut_in_open ok by (auto simp: journal_sound_def)
  qed
qed

lemma journal_reads_back:
  assumes "journal_reached (JObj h) f m os" "json_ok (JObj h)"
  shows "distinct (map observed_key os) \<and>
    (case journal_open (JObj h) f of
       (Inr j, Some s) \<Rightarrow> jo_observed j = map reread os \<and> s = journal_text (JObj h) os \<and> journal_done j = map observed_key os
     | _ \<Rightarrow> False)"
proof -
  have sound: "journal_sound (JObj h) f None os"
    using journal_reached_sound [OF journal_reached.cut_off [OF assms(1)] assms(2)] .
  then have ok: "list_all observed_ok os" by (simp add: journal_sound_def)
  then have keys: "map (observed_key \<circ> reread) os = map observed_key os" by (auto simp: list_all_iff)
  from sound consider "os = []" "LF \<notin> set (bytes_of f)" | r where "f = Some (journal_text (JObj h) os @ r)" "LF \<notin> set r"
    by (auto simp: journal_sound_def)
  then show ?thesis
    using sound open_incomplete [OF assms(2), of f] open_complete [OF assms(2) ok] keys
    by cases (auto simp: journal_sound_def journal_done_def)
qed

text \<open>
  C39. The journal survives being cut off anywhere.  Whatever sessions wrote it, each stopped between
  steps or after any byte of what it was writing, it opens, and gives exactly the observations whose
  line is whole, among them all whose append returned, in order and with no document and lane twice.
\<close>

theorem journal_survives_cuts:
  assumes "journal_reached (JObj h) f m os" "json_ok (JObj h)"
  shows "distinct (map observed_key os) \<and>
    (case journal_open (JObj h) f of
       (Inr j, Some s) \<Rightarrow> jo_observed j = map reread os \<and> s = journal_text (JObj h) os \<and> journal_done j = map observed_key os
     | _ \<Rightarrow> False)"
  using assms by (rule journal_reads_back)

text \<open>A journal whose second append was cut off.\<close>

definition demo_observed :: "string \<Rightarrow> observed" where
  "demo_observed p = \<lparr>vo_path = JStr p, vo_lane = JStr ''base'', vo_status = JStr SEALED_STATUS, vo_backend = JNull,
     vo_run_id = JNull, vo_record_id = JNull, vo_artifact_hash = JNull, vo_input_sha256 = JNull, vo_failure = JNull,
     vo_telemetry = JNull, vo_detail = JNull, vo_at = JStr ''2026''\<rparr>"

lemma demo_observed_ok: "utf8_ok p \<Longrightarrow> observed_ok (demo_observed p)"
  by (simp add: demo_observed_def observed_ok_def observed_to_json_def status_ok_def STATUSES_def SEALED_STATUS_def)

lemma demo_key: "observed_key (demo_observed p) = (JStr p, JStr ''base'')"
  by (simp add: demo_observed_def observed_key_def)

lemma append_ok:
  "observed_ok o' \<Longrightarrow> append_line (observed_to_json o') s = Inr (s @ observed_line o' @ [LF])"
  using canonical_json_ok [of "observed_to_json o'"] by (simp add: append_line_def observed_ok_def observed_line_def)

lemma demo_reached:
  "journal_reached (JObj []) (Some (journal_text (JObj []) [demo_observed ''a''] @ ''{'')) None [demo_observed ''a'']"
proof -
  let ?s = "journal_text (JObj []) []" and ?a = "demo_observed ''a''" and ?b = "demo_observed ''b''"
  let ?t = "?s @ observed_line ?a @ [LF]" and ?u = "(?s @ observed_line ?a @ [LF]) @ observed_line ?b @ [LF]"
  have ok: "observed_ok ?a" "observed_ok ?b" by (simp_all add: demo_observed_ok)
  have "journal_open (JObj []) None = (Inr \<lparr>jo_header = JObj [], jo_observed = []\<rparr>, Some ?s)"
    by (rule open_incomplete) (simp_all add: bytes_of_def)
  from journal_reached.opened [OF journal_reached.no_file this]
  have "journal_reached (JObj []) (Some ?s) (Some []) []" by simp
  from journal_reached.appended [OF this _ append_ok [OF ok(1)]] ok(1)
  have r: "journal_reached (JObj []) (Some ?t) (Some [?a]) [?a]" by (simp add: appendable_def)
  obtain l where l: "observed_line ?b = CHR ''{'' # l" by (simp add: observed_line_def observed_to_json_def cjson_def)
  have app: "appendable [?a] ?b" using ok(2) by (simp add: appendable_def demo_key)
  from journal_reached.cut_in_append [OF r app append_ok [OF ok(2)], of "Suc (length ?t)"]
  have "journal_reached (JObj []) (Some (take (Suc (length ?t)) ?u)) None [?a]" by (simp add: l)
  moreover have "take (Suc (length ?t)) ?u = ?t @ ''{''" unfolding l by simp
  moreover have "?t = journal_text (JObj []) [?a]" by (simp add: journal_text_def)
  ultimately show ?thesis by simp
qed

theorem journal_survives_cuts_witness:
  "case journal_open (JObj []) (Some (journal_text (JObj []) [demo_observed ''a''] @ ''{'')) of
     (Inr j, Some s) \<Rightarrow> jo_observed j = [demo_observed ''a''] \<and> s = journal_text (JObj []) [demo_observed ''a'']
   | _ \<Rightarrow> False"
  using journal_survives_cuts [OF demo_reached]
  by (auto simp: reread_def demo_observed_def split: prod.splits sum.splits option.splits)

text \<open>
  A system call that writes less than it is given raises nothing, and \<open>_append_line\<close> does not look at
  what it returns: the next line then joins the part that was written, and the journal no longer opens.
\<close>

lemma torn_line_unreadable: "loads_bytes (CHR ''{'' # cjson (JObj kvs)) = None"
proof -
  obtain r where r: "cjson (JObj kvs) = CHR ''{'' # r" by (simp add: cjson_def)
  have "json_loads (CHR ''{'' # CHR ''{'' # r) = None" by (simp add: json_loads_def skip_ws_def is_ws_def quote_mark_def)
  moreover have "byte_at (CHR ''{'' # CHR ''{'' # r) 0 \<noteq> 0" "byte_at (CHR ''{'' # CHR ''{'' # r) (Suc 0) \<noteq> 0"
    by (simp_all add: byte_at_def)
  ultimately show ?thesis
    unfolding r by (auto simp: loads_bytes_def decode_bytes_def detect_encoding_def starts_with_def split: option.splits)
qed

end
