(* ===== verification/Campaign.thy ===== *)
theory Campaign
  imports Journal Transaction ReplayEngine Oci
begin

text \<open>
  A verification campaign (\<open>Lane\<close> and \<open>Campaign\<close> of \<open>stele/verification/campaign.py\<close>): every
  document of a corpus through every lane, one observation each.  Running the parser and recording
  the run are the operations of \<open>ReplayEngine\<close> and \<open>Transaction\<close>.  The main results: what an
  observation says is what happened, and a campaign interrupted any number of times observes
  every document and lane exactly once.
\<close>

section \<open>Lanes and campaigns\<close>

record lane =
  ln_name :: string
  ln_backend :: backend
  ln_spec :: parser_spec

definition forced_spec :: "lane \<Rightarrow> parser_spec" where
  "forced_spec l = (ln_spec l)\<lparr>sp_backend := Some (\<lambda>_. Inr (ln_backend l))\<rparr>"

text \<open>
  The corpus as path and digest of each document, the configuration as given and as JSON, and what
  \<open>shutil.rmtree\<close> does with a leftover output directory.
\<close>

record campaign =
  cm_entries :: "(string \<times> string) list"
  cm_root :: path
  cm_lanes :: "lane list"
  cm_config :: pyval
  cm_config_json :: json
  cm_work :: path
  cm_rmtree :: "node \<Rightarrow> unit result"

definition config_digest :: "json \<Rightarrow> string result" where
  "config_digest config = map_sum id sha256 (canonical_json config)"

definition campaign_header ::
  "string \<times> string \<Rightarrow> string \<times> string \<Rightarrow> string \<Rightarrow> (string \<times> string) list \<Rightarrow> string \<Rightarrow> json" where
  "campaign_header corpus parser digest lanes baseline = JObj
     [(''schema'', JStr JOURNAL_SCHEMA), (''schema_version'', JInt 1), (''corpus_id'', JStr (fst corpus)),
      (''corpus_name'', JStr (snd corpus)),
      (''parser'', JObj [(''name'', JStr (fst parser)), (''version'', JStr (snd parser))]),
      (''parser_config_digest'', JStr digest),
      (''lanes'', JArr (map (\<lambda>(n, b). JObj [(''name'', JStr n), (''backend'', JStr b)]) lanes)),
      (''baseline'', JStr baseline)]"

text \<open>\<open>__init__\<close>: the lanes with the baseline first, the configuration as JSON, and the journal's header.\<close>

definition make_campaign ::
  "campaign \<Rightarrow> string \<times> string \<Rightarrow> string \<Rightarrow> (campaign \<times> json) result" where
  "make_campaign c corpus baseline =
     (let names = map ln_name (cm_lanes c) in
      if \<not> distinct names \<or> names = [] then Inl CampaignError
      else if baseline \<notin> set names then Inl CampaignError
      else if \<not> list_all (\<lambda>l. sp_name (ln_spec l) = sp_name (ln_spec (hd (cm_lanes c))) \<and>
                            sp_version (ln_spec l) = sp_version (ln_spec (hd (cm_lanes c)))) (cm_lanes c)
      then Inl CampaignError
      else let lanes = sort_key (\<lambda>l. ln_name l \<noteq> baseline) (cm_lanes c); spec = ln_spec (hd lanes) in
        case encode_value (cm_config c) of
          None \<Rightarrow> Inl TypeError
        | Some j \<Rightarrow>
            (case config_digest j of
               Inl e \<Rightarrow> Inl e
             | Inr digest \<Rightarrow>
                 Inr (c\<lparr>cm_lanes := lanes, cm_config_json := j\<rparr>,
                      campaign_header corpus (sp_name spec, sp_version spec) digest
                        (map (\<lambda>l. (ln_name l, bk_name (ln_backend l))) lanes) baseline)))"

section \<open>One observation\<close>

definition blank_observed :: "string \<Rightarrow> string \<Rightarrow> string \<Rightarrow> string \<Rightarrow> observed" where
  "blank_observed path lane status tm =
     \<lparr>vo_path = JStr path, vo_lane = JStr lane, vo_status = JStr status, vo_backend = JNull, vo_run_id = JNull,
      vo_record_id = JNull, vo_artifact_hash = JNull, vo_input_sha256 = JNull, vo_failure = JNull, vo_telemetry = JNull,
      vo_detail = JNull, vo_at = JStr tm\<rparr>"

definition opt_text :: "string option \<Rightarrow> json" where
  "opt_text x = (case x of None \<Rightarrow> JNull | Some s \<Rightarrow> JStr s)"

definition failure_json :: "run_failure \<Rightarrow> json" where
  "failure_json f = JObj
     [(''reason'', JStr (failure_value (rf_reason f))), (''detail'', JStr (rf_detail f)),
      (''exit_code'', (case rf_exit_code f of None \<Rightarrow> JNull | Some n \<Rightarrow> JInt n)),
      (''signal'', (case rf_signal f of None \<Rightarrow> JNull | Some n \<Rightarrow> JInt n))]"

text \<open>What every observation of a finished run carries; telemetry holds JSON values only.\<close>

definition common_observed :: "string \<Rightarrow> string \<Rightarrow> string \<Rightarrow> string \<Rightarrow> sandbox_result \<Rightarrow> observed" where
  "common_observed path lane status tm r =
     (blank_observed path lane status tm)
       \<lparr>vo_backend := opt_text (sr_backend r), vo_run_id := JStr (sr_run_id r), vo_input_sha256 := opt_text (sr_input_sha256 r),
        vo_telemetry :=
          (case sr_telemetry r of
             None \<Rightarrow> JNull
           | Some t \<Rightarrow> (case encode_value (VDict (telemetry_to_dict t)) of None \<Rightarrow> JNull | Some j \<Rightarrow> j))\<rparr>"

definition path_div :: "path \<Rightarrow> string \<Rightarrow> path" where
  "path_div p s = (let q = path_of s in if path_root q \<noteq> [] then q else path_join p (path_parts q))"

definition eight_digits :: "nat \<Rightarrow> string" where
  "eight_digits n = (let s = show_nat n in replicate (8 - length s) (CHR ''0'') @ s)"

definition with_store :: "'w system \<Rightarrow> archive option \<Rightarrow> 'w system" where
  "with_store sys s =
     (case s of None \<Rightarrow> sys | Some a \<Rightarrow> with_ledger sys ((sy_ledger sys)\<lparr>lg_archive := a\<rparr>))"

text \<open>The names, time and texts the host supplies: the run's id, the staging place, now, \<open>_one_line\<close>.\<close>

record observing =
  og_run_id :: string
  og_staging :: path
  og_now :: string
  og_one_line :: "exn \<Rightarrow> string"

text \<open>Recording a run that succeeded.\<close>

definition record_observed ::
  "observing \<Rightarrow> env \<Rightarrow> file_system \<Rightarrow> campaign \<Rightarrow> string \<Rightarrow> lane \<Rightarrow> path \<Rightarrow> sandbox_result \<Rightarrow> 'w system \<Rightarrow>
   observed result \<times> 'w system" where
  "record_observed g env fs c p l doc r sys =
     (case (case make_source (JStr (as_posix doc)) of
              Inl e \<Rightarrow> (Inl e, sys)
            | Inr src \<Rightarrow>
                record_run env fs fs r (spec_identity (sp_name (ln_spec l)) (sp_version (ln_spec l))) (cm_config c) (Some src)
                  None sys) of
        (Inl e, sys') \<Rightarrow>
          (if is_exception e
           then Inr ((common_observed p (ln_name l) ERROR_STATUS (og_now g) r)
                       \<lparr>vo_detail := JStr (''ledgering failed: '' @ og_one_line g e)\<rparr>)
           else Inl e, sys')
      | (Inr b, sys') \<Rightarrow>
          (Inr ((common_observed p (ln_name l) SEALED_STATUS (og_now g) r)
                  \<lparr>vo_record_id := JStr (ar_record_id b), vo_artifact_hash := JStr (ar_artifact_hash b)\<rparr>), sys'))"

text \<open>What is observed of a run that ended.\<close>

definition observe_run ::
  "observing \<Rightarrow> env \<Rightarrow> file_system \<Rightarrow> campaign \<Rightarrow> string \<Rightarrow> string \<Rightarrow> lane \<Rightarrow> path \<Rightarrow> sandbox_result \<Rightarrow> 'w system \<Rightarrow>
   observed result \<times> 'w system" where
  "observe_run g env fs c p sha l doc r sys =
     (if sr_input_sha256 r \<noteq> Some sha
      then (Inr ((common_observed p (ln_name l) ERROR_STATUS (og_now g) r)
              \<lparr>vo_detail := JStr (''the parser read '' @ (case sr_input_sha256 r of None \<Rightarrow> ''None'' | Some d \<Rightarrow> d)
                 @ '', not the corpus document '' @ sha @ '': the file changed after the manifest was taken'')\<rparr>), sys)
      else if \<not> succeeded r \<or> \<not> produced_artifacts r
      then (Inr ((common_observed p (ln_name l) FAILED_STATUS (og_now g) r)
              \<lparr>vo_failure := (case sr_failure r of None \<Rightarrow> JNull | Some f \<Rightarrow> failure_json f),
               vo_detail := (if produced_artifacts r then JNull else JStr ''the run produced no artifacts'')\<rparr>), sys)
      else record_observed g env fs c p l doc r sys)"

text \<open>What is observed when the run raised.\<close>

definition judge_raised :: "observing \<Rightarrow> host \<Rightarrow> string \<Rightarrow> lane \<Rightarrow> exn \<Rightarrow> observed result" where
  "judge_raised g h p l e =
     (let o' = (\<lambda>status detail. (blank_observed p (ln_name l) status (og_now g))
                 \<lparr>vo_backend := JStr (bk_name (ln_backend l)), vo_detail := JStr detail\<rparr>) in
      if e = ContainmentCleanupError then Inr (o' CONTAINMENT_ERROR (ho_str h e))
      else if is_unsupported e then Inr (o' ERROR_STATUS (''backend refused the run: '' @ ho_str h e))
      else if is_exception e then Inr (o' ERROR_STATUS (og_one_line g e))
      else Inl e)"

text \<open>\<open>observe\<close>.  Discarding the output afterwards is not modelled: nothing reads it again.\<close>

definition observe ::
  "observing \<Rightarrow> host \<Rightarrow> env \<Rightarrow> campaign \<Rightarrow> file_system \<Rightarrow> string \<Rightarrow> lane \<Rightarrow> 'w system \<Rightarrow> observed result \<times> 'w system" where
  "observe g h env c fs p l sys =
     (case map_of (cm_entries c) p of
        None \<Rightarrow> (Inl KeyError, sys)
      | Some sha \<Rightarrow>
          let number = length (takeWhile (\<lambda>(q, _). q \<noteq> p) (cm_entries c));
              doc = path_div (cm_root c) p;
              out = path_div (path_div (cm_work c) (ln_name l)) (eight_digits number) in
          case (case fs out of None \<Rightarrow> Inr () | Some n \<Rightarrow> cm_rmtree c n) of
            Inl e \<Rightarrow> (Inl e, sys)
          | Inr _ \<Rightarrow>
              let fs0 = fs(out := None); sp = forced_spec l in
              (case sp_build sp (Some doc) out (cm_config_json c) of
                 Inl e \<Rightarrow>
                   (if is_value_error e \<or> e = TypeError \<or> e = KeyError
                    then Inr ((blank_observed p (ln_name l) NOT_APPLICABLE (og_now g))\<lparr>vo_detail := JStr (ho_str h e)\<rparr>)
                    else Inl e, sys)
               | Inr cf \<Rightarrow>
                   (case run_parser h (og_run_id g) (og_staging g) fs0 sp out (cm_config_json c) (Some doc)
                           (Some (lg_archive (sy_ledger sys))) None of
                      (Inl e, pl) \<Rightarrow> (judge_raised g h p l e, with_store sys (pl_store pl))
                    | (Inr r, pl) \<Rightarrow>
                        observe_run g env (fs0(cf_artifact_dir cf := pl_output pl)) c p sha l doc r (with_store sys (pl_store pl)))))"

section \<open>The campaign\<close>

definition pending :: "(string \<times> string) list \<Rightarrow> lane list \<Rightarrow> journal \<Rightarrow> (string \<times> lane) list" where
  "pending entries lanes j =
     concat (map (\<lambda>(p, _). map (\<lambda>l. (p, l)) (filter (\<lambda>l. (JStr p, JStr (ln_name l)) \<notin> set (journal_done j)) lanes)) entries)"

text \<open>
  The loop of \<open>run\<close> over what is pending, with the state observing changes, the journal and its
  file.  The progress callback is left out.
\<close>

fun run_pending ::
  "(string \<Rightarrow> lane \<Rightarrow> 's \<Rightarrow> observed result \<times> 's) \<Rightarrow> int option \<Rightarrow> (string \<times> lane) list \<Rightarrow> observed list \<Rightarrow>
   's \<times> journal \<times> string \<Rightarrow> observed list result \<times> 's \<times> journal \<times> string" where
  "run_pending obs limit [] seen (st, j, s) = (Inr seen, st, j, s)"
| "run_pending obs limit ((p, l) # rest) seen (st, j, s) =
     (if (case limit of None \<Rightarrow> False | Some n \<Rightarrow> int (length seen) \<ge> n) then (Inr seen, st, j, s)
      else case obs p l st of
        (Inl e, st') \<Rightarrow> (Inl e, st', j, s)
      | (Inr o', st') \<Rightarrow>
          (case journal_append o' j s of
             Inl e \<Rightarrow> (Inl e, st', j, s)
           | Inr (j', s') \<Rightarrow> run_pending obs limit rest (seen @ [o']) (st', j', s')))"

definition campaign_run ::
  "(string \<Rightarrow> lane \<Rightarrow> 's \<Rightarrow> observed result \<times> 's) \<Rightarrow> campaign \<Rightarrow> int option \<Rightarrow> 's \<times> journal \<times> string \<Rightarrow>
   observed list result \<times> 's \<times> journal \<times> string" where
  "campaign_run obs c limit st =
     (if \<not> list_all (\<lambda>l. bk_available (ln_backend l)) (cm_lanes c) then (Inl CampaignError, st)
      else run_pending obs limit (pending (cm_entries c) (cm_lanes c) (fst (snd st))) [] st)"

section \<open>An observation says what happened\<close>

lemma transaction_record_id:
  assumes "ledger_transaction env fs fs' r parser config src rc blk sys = (Inr a, sys')"
  shows "ar_record_id a = en_uuid env 0"
  using assms
  by (auto simp: ledger_transaction_def create_pending_def Let_def split: sum.splits prod.splits if_splits option.splits
      intro: found_record_id)

lemma record_run_outcome:
  assumes "ledger_inv (sy_db sys)" "env_ok env" "input_ok (run_input_of r parser config src None)"
  shows "case record_run env fs fs' r parser config src None sys of
      (Inl e, sys') \<Rightarrow> db_records (sy_db sys') = db_records (sy_db sys) \<or>
        (\<exists>b. get_record (en_uuid env 0) (sy_db sys') = Inr b \<and> ar_state b = FAILED) \<or>
        failure_collides env (en_uuid env 0) e (sy_db sys')
    | (Inr b, sys') \<Rightarrow> get_record (en_uuid env 0) (sy_db sys') = Inr b \<and> ar_state b = SEALED \<and> vouched r parser None b \<and>
        bundle_kept (lg_archive (sy_ledger sys')) (ar_artifact_hash b) (ar_artifact_manifest b)"
proof -
  have blk: "quiet (\<lambda>w. (Inr (), w)) = (\<lambda>s. (Inr (), s))" by (simp add: fun_eq_iff quiet_def)
  obtain q sys' where q: "ledger_transaction env fs fs' r parser config src None (\<lambda>_ s. (Inr (), s)) sys = (q, sys')"
    by (cases "ledger_transaction env fs fs' r parser config src None (\<lambda>_ s. (Inr (), s)) sys")
  note out = transaction_outcome [OF assms, of fs fs' "\<lambda>_ w. (Inr (), w)", unfolded blk q, simplified]
  show ?thesis
  proof (cases q)
    case (Inl e)
    then show ?thesis using out q by (simp add: record_run_def)
  next
    case (Inr a)
    have "ar_record_id a = en_uuid env 0" using q Inr transaction_record_id by blast
    then show ?thesis using out q Inr by (auto simp: record_run_def)
  qed
qed

definition nothing_sealed :: "env \<Rightarrow> database \<Rightarrow> database \<Rightarrow> bool" where
  "nothing_sealed env db db' \<longleftrightarrow>
     db_records db' = db_records db \<or>
     (\<exists>b. get_record (en_uuid env 0) db' = Inr b \<and> ar_state b = FAILED) \<or>
     (\<exists>e. failure_collides env (en_uuid env 0) e db')"

text \<open>The record behind a sealed observation.\<close>

definition sealed_for :: "campaign \<Rightarrow> string \<Rightarrow> lane \<Rightarrow> observed \<Rightarrow> archive \<Rightarrow> artifact_record \<Rightarrow> bool" where
  "sealed_for c p l o' s b \<longleftrightarrow>
     ar_state b = SEALED \<and> vo_record_id o' = JStr (ar_record_id b) \<and> vo_artifact_hash o' = JStr (ar_artifact_hash b) \<and>
     vo_run_id o' = JStr (ar_run_id b) \<and> ar_source_hash b = map_of (cm_entries c) p \<and>
     ar_backend b = Some (bk_name (ln_backend l)) \<and>
     map_option (\<lambda>i. (pi_name i, pi_version i)) (ar_parser b) = Some (sp_name (ln_spec l), sp_version (ln_spec l)) \<and>
     bundle_kept s (ar_artifact_hash b) (ar_artifact_manifest b)"

definition says_what_happened ::
  "env \<Rightarrow> campaign \<Rightarrow> string \<Rightarrow> lane \<Rightarrow> 'w system \<Rightarrow> observed result \<times> 'w system \<Rightarrow> bool" where
  "says_what_happened env c p l sys res \<longleftrightarrow>
     (case res of
        (Inl e, sys') \<Rightarrow> nothing_sealed env (sy_db sys) (sy_db sys')
      | (Inr o', sys') \<Rightarrow>
          vo_path o' = JStr p \<and> vo_lane o' = JStr (ln_name l) \<and> status_ok (vo_status o') \<and>
          (if vo_status o' = JStr SEALED_STATUS
           then (\<exists>b. get_record (en_uuid env 0) (sy_db sys') = Inr b \<and>
                   sealed_for c p l o' (lg_archive (sy_ledger sys')) b)
           else nothing_sealed env (sy_db sys) (sy_db sys')))"

lemma statuses:
  "FAILED_STATUS \<noteq> SEALED_STATUS" "NOT_APPLICABLE \<noteq> SEALED_STATUS" "CONTAINMENT_ERROR \<noteq> SEALED_STATUS"
  "ERROR_STATUS \<noteq> SEALED_STATUS"
  by (simp_all add: SEALED_STATUS_def FAILED_STATUS_def NOT_APPLICABLE_def CONTAINMENT_ERROR_def ERROR_STATUS_def)

lemma status_okI:
  "status_ok (JStr SEALED_STATUS)" "status_ok (JStr FAILED_STATUS)" "status_ok (JStr NOT_APPLICABLE)"
  "status_ok (JStr CONTAINMENT_ERROR)" "status_ok (JStr ERROR_STATUS)"
  by (simp_all add: status_ok_def STATUSES_def)

lemma nothing_sealed_same [simp]: "nothing_sealed env db db"
  by (simp add: nothing_sealed_def)

lemma with_store_db [simp]: "sy_db (with_store sys s) = sy_db sys"
  by (simp add: with_store_def with_ledger_def split: option.split)

lemma record_observed_says:
  assumes "ledger_inv (sy_db sys)" "env_ok env" "\<forall>j. encode_value (cm_config c) = Some j \<longrightarrow> json_rep j"
    and "sr_input_sha256 r = map_of (cm_entries c) p" "sr_backend r = Some (bk_name (ln_backend l))"
  shows "says_what_happened env c p l sys (record_observed g env fs c p l doc r sys)"
proof (cases "make_source (JStr (as_posix doc))")
  case (Inl e)
  then show ?thesis
    by (auto simp: record_observed_def says_what_happened_def common_observed_def blank_observed_def status_okI statuses)
next
  case (Inr src)
  let ?pid = "spec_identity (sp_name (ln_spec l)) (sp_version (ln_spec l))"
  have inp: "input_ok (run_input_of r ?pid (cm_config c) (Some src) None)" using assms(3) by (simp add: input_ok_def run_input_of_def)
  obtain q sys' where q: "record_run env fs fs r ?pid (cm_config c) (Some src) None sys = (q, sys')"
    by (cases "record_run env fs fs r ?pid (cm_config c) (Some src) None sys")
  note out = record_run_outcome [OF assms(1,2) inp, of fs fs, unfolded q]
  show ?thesis
  proof (cases q)
    case e: (Inl e)
    then have "nothing_sealed env (sy_db sys) (sy_db sys')" using out by (auto simp: nothing_sealed_def)
    then show ?thesis using Inr q e
      by (auto simp: record_observed_def says_what_happened_def common_observed_def blank_observed_def status_okI statuses)
  next
    case b: (Inr b)
    then have "sealed_for c p l ((common_observed p (ln_name l) SEALED_STATUS (og_now g) r)
        \<lparr>vo_record_id := JStr (ar_record_id b), vo_artifact_hash := JStr (ar_artifact_hash b)\<rparr>) (lg_archive (sy_ledger sys')) b"
      using out assms(4,5) by (simp add: sealed_for_def vouched_def common_observed_def blank_observed_def spec_identity_def)
    then show ?thesis using Inr q b out
      by (auto simp: record_observed_def says_what_happened_def common_observed_def blank_observed_def status_okI)
  qed
qed

lemma judge_raised_says: "says_what_happened env c p l sys (judge_raised g h p l e, with_store sys s)"
  by (auto simp: judge_raised_def says_what_happened_def Let_def blank_observed_def status_okI statuses)

lemma run_parser_backend:
  assumes "run_parser h rid staging fs (forced_spec l) out cfg doc store i = (Inr r, pl)"
  shows "sr_backend r = Some (bk_name (ln_backend l))"
proof -
  obtain cf inp req where run: "run_in_sandbox rid staging (ho_link_dir h) [ln_backend l] cf req inp (fs (cf_artifact_dir cf))
      \<lparr>pl_output = fs (cf_artifact_dir cf), pl_store = store\<rparr> = (Inr r, pl)"
    using assms by (auto simp: run_parser_def forced_spec_def Let_def split: sum.splits)
  from run_InrD [OF run] obtain b p s x o' where b: "select_backend req [ln_backend l] = Inr b"
    and f: "finish_run rid (ho_link_dir h) cf (bk_name b) (fs (cf_artifact_dir cf) = None) p x \<lparr>pl_output = o', pl_store = s\<rparr> = (Inr r, pl)"
    by blast
  have "b = ln_backend l" using select_backend_Inr [OF b] by simp
  then show ?thesis using finish_run_InrD [OF f] by blast
qed

lemma observe_run_says:
  assumes "ledger_inv (sy_db sys)" "env_ok env" "\<forall>j. encode_value (cm_config c) = Some j \<longrightarrow> json_rep j"
    and "map_of (cm_entries c) p = Some sha" "sr_backend r = Some (bk_name (ln_backend l))"
  shows "says_what_happened env c p l sys (observe_run g env fs c p sha l doc r sys)"
proof (cases "sr_input_sha256 r = Some sha \<and> succeeded r \<and> produced_artifacts r")
  case True
  then show ?thesis using record_observed_says [OF assms(1-3), of r p l g fs doc] assms(4,5) by (simp add: observe_run_def)
next
  case False
  then show ?thesis
    by (auto simp: observe_run_def says_what_happened_def common_observed_def blank_observed_def status_okI statuses)
qed

lemma says_with_store:
  "says_what_happened env c p l (with_store sys s) res \<longleftrightarrow> says_what_happened env c p l sys res"
  by (simp add: says_what_happened_def split: sum.split prod.split)

text \<open>
  C9. An observation says what happened.  On a consistent ledger it is of the document and lane asked
  for, with one of the five statuses; it says "sealed" only when the ledger now holds a sealed record
  with the id, run and artifact hash it names, made from exactly the corpus document's bytes, by the
  lane's parser on the lane's backend, with its bundle in the archive; under every other status, and
  when an exception interrupts the campaign, no record was sealed.
\<close>

theorem observation_says_what_happened:
  assumes "ledger_inv (sy_db sys)" "env_ok env" "\<forall>j. encode_value (cm_config c) = Some j \<longrightarrow> json_rep j"
  shows "says_what_happened env c p l sys (observe g h env c fs p l sys)"
proof (cases "map_of (cm_entries c) p")
  case None
  then show ?thesis by (simp add: observe_def says_what_happened_def)
next
  case (Some sha)
  let ?doc = "path_div (cm_root c) p"
  let ?out = "path_div (path_div (cm_work c) (ln_name l)) (eight_digits (length (takeWhile (\<lambda>(q, _). q \<noteq> p) (cm_entries c))))"
  let ?run = "run_parser h (og_run_id g) (og_staging g) (fs(?out := None)) (forced_spec l) ?out (cm_config_json c) (Some ?doc)
      (Some (lg_archive (sy_ledger sys))) None"
  show ?thesis
  proof (cases "case fs ?out of None \<Rightarrow> Inr () | Some n \<Rightarrow> cm_rmtree c n")
    case (Inl e)
    then show ?thesis using Some by (simp add: observe_def says_what_happened_def Let_def)
  next
    case cleared: (Inr u)
    show ?thesis
    proof (cases "sp_build (forced_spec l) (Some ?doc) ?out (cm_config_json c)")
      case (Inl e)
      then show ?thesis using Some cleared
        by (auto simp: observe_def says_what_happened_def Let_def blank_observed_def status_okI statuses)
    next
      case built: (Inr cf)
      obtain q pl where q: "?run = (q, pl)" by (cases ?run)
      show ?thesis
      proof (cases q)
        case (Inl e)
        then show ?thesis using Some cleared built q judge_raised_says by (simp add: observe_def Let_def)
      next
        case (Inr r)
        have "sr_backend r = Some (bk_name (ln_backend l))" using run_parser_backend q Inr by blast
        from observe_run_says [of "with_store sys (pl_store pl)", simplified with_store_db says_with_store, OF assms Some this]
        show ?thesis using Some cleared built q Inr by (simp add: observe_def Let_def)
      qed
    qed
  qed
qed

section \<open>Every document and lane exactly once\<close>

lemma pending_keys:
  "map (\<lambda>(p, l). (JStr p, JStr (ln_name l))) (pending es lanes j) =
     filter (\<lambda>k. k \<notin> set (journal_done j)) (concat (map (\<lambda>(p, _). map (\<lambda>l. (JStr p, JStr (ln_name l))) lanes) es))"
proof (induction es)
  case (Cons e es)
  have "map (\<lambda>(p, l). (JStr p, JStr (ln_name l))) (map (\<lambda>l. (fst e, l)) (filter (\<lambda>l. (JStr (fst e), JStr (ln_name l)) \<notin> X) lanes))
      = filter (\<lambda>k. k \<notin> X) (map (\<lambda>l. (JStr (fst e), JStr (ln_name l))) lanes)" for X
    by (induction lanes) auto
  then show ?case using Cons by (cases e) (simp add: pending_def)
qed (simp add: pending_def)

text \<open>All documents and lanes.\<close>

definition all_keys :: "campaign \<Rightarrow> (json \<times> json) list" where
  "all_keys c = concat (map (\<lambda>(p, _). map (\<lambda>l. (JStr p, JStr (ln_name l))) (cm_lanes c)) (cm_entries c))"

lemma all_keys_distinct:
  assumes "distinct (map fst (cm_entries c))" "distinct (map ln_name (cm_lanes c))"
  shows "distinct (all_keys c)"
proof -
  have "distinct (concat (map (\<lambda>(p, _). map (\<lambda>l. (JStr p, JStr (ln_name l))) ls) es))"
    if "distinct (map fst es)" "distinct (map ln_name ls)" for es :: "(string \<times> string) list" and ls
    using that
  proof (induction es)
    case (Cons e es)
    have "distinct (map (\<lambda>l. (JStr (fst e), JStr (ln_name l))) ls)"
      using Cons.prems(2) by (auto simp: distinct_map inj_on_def)
    then show ?case using Cons by (cases e) (force simp: image_iff)
  qed simp
  then show ?thesis using assms by (simp add: all_keys_def)
qed

text \<open>Observing a document through a lane gives an observation of just that.\<close>

definition observes :: "(string \<Rightarrow> lane \<Rightarrow> 's \<Rightarrow> observed result \<times> 's) \<Rightarrow> string \<times> lane \<Rightarrow> bool" where
  "observes obs k \<longleftrightarrow>
     (\<forall>st. case obs (fst k) (snd k) st of
        (Inl e, _) \<Rightarrow> False
      | (Inr o', _) \<Rightarrow> observed_ok o' \<and> observed_key o' = (JStr (fst k), JStr (ln_name (snd k))))"

lemma run_pending_all:
  assumes "\<forall>k \<in> set todo. observes obs k" "journal_reached header (Some s) (Some (jo_observed j)) os"
    and "distinct (map (\<lambda>(p, l). (JStr p, JStr (ln_name l))) todo)"
    and "\<forall>(p, l) \<in> set todo. (JStr p, JStr (ln_name l)) \<notin> set (journal_done j)"
  shows "case run_pending obs None todo seen (st, j, s) of
      (Inl e, _) \<Rightarrow> False
    | (Inr seen', st', j', s') \<Rightarrow> \<exists>new. seen' = seen @ new \<and>
        map observed_key new = map (\<lambda>(p, l). (JStr p, JStr (ln_name l))) todo \<and>
        jo_observed j' = jo_observed j @ new \<and> journal_reached header (Some s') (Some (jo_observed j')) (os @ new)"
  using assms
proof (induction todo arbitrary: seen st j s os)
  case Nil
  then show ?case by simp
next
  case (Cons x todo)
  obtain p l where x: "x = (p, l)" by (cases x)
  obtain res0 st' where o0: "obs p l st = (res0, st')" by (cases "obs p l st")
  have "case obs p l st of
      (Inl e, _) \<Rightarrow> False
    | (Inr o', _) \<Rightarrow> observed_ok o' \<and> observed_key o' = (JStr p, JStr (ln_name l))"
    using Cons.prems(1) [unfolded observes_def, THEN bspec, THEN spec, of x st, unfolded x fst_conv snd_conv] by simp
  then obtain o' where o: "obs p l st = (Inr o', st')" "observed_ok o'" "observed_key o' = (JStr p, JStr (ln_name l))"
    using o0 by (cases res0) auto
  let ?s' = "s @ observed_line o' @ [LF]" and ?j' = "j\<lparr>jo_observed := jo_observed j @ [o']\<rparr>"
  have app: "append_line (observed_to_json o') s = Inr ?s'" by (rule append_ok [OF o(2)])
  have new: "appendable (jo_observed j) o'" using o Cons.prems(4) by (simp add: appendable_def x journal_done_def)
  have r: "journal_reached header (Some ?s') (Some (jo_observed ?j')) (os @ [o'])"
    using journal_reached.appended [OF Cons.prems(2) new app] by simp
  have "\<forall>(q, k) \<in> set todo. (JStr q, JStr (ln_name k)) \<notin> set (journal_done ?j')"
  proof (rule ballI, clarify)
    fix q k
    assume qk: "(q, k) \<in> set todo" "(JStr q, JStr (ln_name k)) \<in> set (journal_done ?j')"
    have "(JStr q, JStr (ln_name k)) \<in> (\<lambda>(p, l). (JStr p, JStr (ln_name l))) ` set todo"
      using qk(1) by (rule rev_image_eqI) simp
    then have "(JStr q, JStr (ln_name k)) \<noteq> (JStr p, JStr (ln_name l))" using Cons.prems(3) by (auto simp: x)
    moreover have "(JStr q, JStr (ln_name k)) \<notin> set (journal_done j)" using Cons.prems(4) qk(1) by auto
    ultimately show False using qk(2) o(3) by (simp add: journal_done_def)
  qed
  from Cons.IH [OF _ r _ this, of "seen @ [o']" st'] Cons.prems(1,3)
  have ih: "case run_pending obs None todo (seen @ [o']) (st', ?j', ?s') of
      (Inl e, _) \<Rightarrow> False
    | (Inr seen', st', j', s') \<Rightarrow> \<exists>new. seen' = (seen @ [o']) @ new \<and>
        map observed_key new = map (\<lambda>(p, l). (JStr p, JStr (ln_name l))) todo \<and>
        jo_observed j' = jo_observed ?j' @ new \<and> journal_reached header (Some s') (Some (jo_observed j')) ((os @ [o']) @ new)"
    by simp
  have step: "run_pending obs None (x # todo) seen (st, j, s) = run_pending obs None todo (seen @ [o']) (st', ?j', ?s')"
    using o(1) app by (simp add: x journal_append_def)
  obtain res st2 j2 s2 where run: "run_pending obs None todo (seen @ [o']) (st', ?j', ?s') = (res, st2, j2, s2)"
    by (cases "run_pending obs None todo (seen @ [o']) (st', ?j', ?s')") auto
  from ih [unfolded run] obtain seen' new where "res = Inr seen'" "seen' = (seen @ [o']) @ new"
    "map observed_key new = map (\<lambda>(p, l). (JStr p, JStr (ln_name l))) todo" "jo_observed j2 = jo_observed ?j' @ new"
    "journal_reached header (Some s2) (Some (jo_observed j2)) ((os @ [o']) @ new)"
    by (auto split: sum.splits)
  then show ?case unfolding step run using o(3) by (auto simp: x intro!: exI [of _ "o' # new"])
qed

text \<open>
  C10. A campaign observes every document through every lane exactly once, however often it was
  interrupted.  After any sessions, cut off anywhere, a run to the end observes just what is missing;
  then the journal, read back, holds one observation of each document and lane of the corpus, those
  of before unchanged and first, and nothing is pending.
\<close>

theorem campaign_completes:
  assumes "journal_reached (JObj hd') f m os" "json_ok (JObj hd')"
    and "\<forall>k \<in> fst ` set (cm_entries c) \<times> set (cm_lanes c). observes obs k"
    and "distinct (map fst (cm_entries c))" "distinct (map ln_name (cm_lanes c))"
    and "list_all (\<lambda>l. bk_available (ln_backend l)) (cm_lanes c)" "set (map observed_key os) \<subseteq> set (all_keys c)"
  shows "case journal_open (JObj hd') f of
      (Inr j, Some s) \<Rightarrow>
        (case campaign_run obs c None (st, j, s) of
           (Inl e, _) \<Rightarrow> False
         | (Inr new, st', j', s') \<Rightarrow>
             set (map observed_key new) = set (all_keys c) - set (map observed_key os) \<and>
             (case journal_open (JObj hd') (Some s') of
                (Inr k, _) \<Rightarrow> jo_observed k = map reread (os @ new) \<and> mset (journal_done k) = mset (all_keys c) \<and>
                  pending (cm_entries c) (cm_lanes c) k = []
              | _ \<Rightarrow> False))
    | _ \<Rightarrow> False"
proof -
  note facts = journal_reads_back [OF assms(1,2)]
  obtain j s where j: "journal_open (JObj hd') f = (Inr j, Some s)" "journal_done j = map observed_key os"
    using facts by (auto split: prod.splits sum.splits option.splits)
  have r: "journal_reached (JObj hd') (Some s) (Some (jo_observed j)) os" using journal_reached.opened [OF assms(1) j(1)] .
  let ?todo = "pending (cm_entries c) (cm_lanes c) j"
  have keys: "map (\<lambda>(p, l). (JStr p, JStr (ln_name l))) ?todo = filter (\<lambda>k. k \<notin> set (journal_done j)) (all_keys c)"
    by (simp add: pending_keys all_keys_def)
  have d: "distinct (all_keys c)" using all_keys_distinct assms(4,5) .
  have nd: "\<forall>(p, l) \<in> set ?todo. (JStr p, JStr (ln_name l)) \<notin> set (journal_done j)"
    by (auto simp: pending_def)
  have dk: "distinct (map (\<lambda>(p, l). (JStr p, JStr (ln_name l))) ?todo)" unfolding keys using d by simp
  obtain res st2 j2 s2 where run: "run_pending obs None ?todo [] (st, j, s) = (res, st2, j2, s2)"
    by (cases "run_pending obs None ?todo [] (st, j, s)") auto
  have obs: "\<forall>k \<in> set ?todo. observes obs k"
    using assms(3) by (force simp: pending_def)
  from run_pending_all [OF obs r dk nd, of "[]" st, unfolded run] obtain new where new: "res = Inr new"
    "map observed_key new = map (\<lambda>(p, l). (JStr p, JStr (ln_name l))) ?todo"
    "journal_reached (JObj hd') (Some s2) (Some (jo_observed j2)) (os @ new)"
    by (auto split: sum.splits)
  obtain k s3 where k: "journal_open (JObj hd') (Some s2) = (Inr k, Some s3)" "jo_observed k = map reread (os @ new)"
    "journal_done k = map observed_key (os @ new)" and dk2: "distinct (map observed_key (os @ new))"
    using journal_reads_back [OF new(3) assms(2)] by (auto split: prod.splits sum.splits option.splits)
  have set_new: "set (map observed_key new) = set (all_keys c) - set (map observed_key os)"
    unfolding new(2) keys j(2) by auto
  have "set (journal_done k) = set (all_keys c)" unfolding k(3) map_append set_append set_new using assms(7) by auto
  then have m: "mset (journal_done k) = mset (all_keys c)" using dk2 d unfolding k(3) by (metis set_eq_iff_mset_eq_distinct)
  have "map (\<lambda>(p, l). (JStr p, JStr (ln_name l))) (pending (cm_entries c) (cm_lanes c) k) = []"
    unfolding pending_keys all_keys_def [symmetric] using \<open>set (journal_done k) = set (all_keys c)\<close> by (simp add: filter_empty_conv)
  then have "pending (cm_entries c) (cm_lanes c) k = []" by simp
  then show ?thesis using j k set_new m run new(1) assms(6) by (simp add: campaign_run_def)
qed

text \<open>A document the parser does not take, and one not yet observed.\<close>

definition demo_lane :: lane where
  "demo_lane = \<lparr>ln_name = ''base'', ln_backend = demo_backend, ln_spec = base_spec.extend demo_spec \<lparr>sp_with_conditions = None\<rparr>\<rparr>"

definition demo_campaign :: campaign where
  "demo_campaign = \<lparr>cm_entries = [(''a'', sha256 ''x'')], cm_root = path_of ''d'', cm_lanes = [demo_lane], cm_config = VDict [],
     cm_config_json = JObj [], cm_work = path_of ''w'', cm_rmtree = (\<lambda>n. Inr ())\<rparr>"

theorem observation_says_what_happened_witness:
  "db_records (sy_db (snd (observe \<lparr>og_run_id = ''run'', og_staging = path_of ''t'', og_now = ''2026'', og_one_line = (\<lambda>e. ''x'')\<rparr>
      \<lparr>ho_backends = [], ho_fs = (\<lambda>p. None), ho_read = (\<lambda>p. Inl OSError), ho_wat2wasm = (\<lambda>s. Inl ValueError), ho_link_dir = (\<lambda>s. False),
       ho_holds = (\<lambda>s. True), ho_str = (\<lambda>e. ''x''), ho_platform = ''linux''\<rparr>
      demo_env demo_campaign (\<lambda>p. None) ''a'' demo_lane
      \<lparr>sy_ledger = \<lparr>lg_archive = demo_store, lg_db = empty_database 8\<rparr>, sy_world = ()\<rparr>))) = []"
  (is "db_records (sy_db (snd (observe ?g ?h _ _ ?fs _ _ ?s))) = []")
proof -
  have inv: "ledger_inv (sy_db ?s)"
    by (simp add: ledger_inv_def empty_database_def keys_ok_def replay_chain_def derived_empty_def
        tables_match_def events_for_def tuples_of_def)
  have env: "env_ok demo_env" by (simp add: env_ok_def demo_env_def utf8_ok_ascii)
  have cfg: "\<forall>j. encode_value (cm_config demo_campaign) = Some j \<longrightarrow> json_rep j" by (simp add: demo_campaign_def)
  have "\<exists>o'. observe ?g ?h demo_env demo_campaign ?fs ''a'' demo_lane ?s = (Inr o', ?s) \<and> vo_status o' = JStr NOT_APPLICABLE"
    by (simp add: observe_def demo_campaign_def demo_lane_def demo_spec_def forced_spec_def base_spec.defs blank_observed_def
        Let_def)
  then show ?thesis
    using observation_says_what_happened [OF inv env cfg, of "''a''" demo_lane ?g ?h ?fs] statuses
    by (auto simp: says_what_happened_def nothing_sealed_def get_record_def find_row_def empty_database_def)
qed

theorem campaign_completes_witness:
  "case journal_open (JObj []) None of
     (Inr j, Some s) \<Rightarrow>
       (case campaign_run (\<lambda>p l st. (Inr (demo_observed p), st)) demo_campaign None ((), j, s) of
          (Inl e, _) \<Rightarrow> False
        | (Inr new, st', j', s') \<Rightarrow> set (map observed_key new) = {(JStr ''a'', JStr ''base'')})
   | _ \<Rightarrow> False"
proof -
  let ?obs = "\<lambda>p (l :: lane) (st :: unit). (Inr (demo_observed p) :: observed result, st)"
  have obs: "\<forall>k \<in> fst ` set (cm_entries demo_campaign) \<times> set (cm_lanes demo_campaign). observes ?obs k"
    by (simp add: demo_campaign_def demo_lane_def observes_def demo_observed_ok demo_key)
  have side: "json_ok (JObj [])" "distinct (map fst (cm_entries demo_campaign))" "distinct (map ln_name (cm_lanes demo_campaign))"
    "list_all (\<lambda>l. bk_available (ln_backend l)) (cm_lanes demo_campaign)" "set (map observed_key []) \<subseteq> set (all_keys demo_campaign)"
    by (simp_all add: demo_campaign_def demo_lane_def demo_backend_def)
  have keys: "set (all_keys demo_campaign) = {(JStr ''a'', JStr ''base'')}"
    by (simp add: all_keys_def demo_campaign_def demo_lane_def)
  note fact = campaign_completes [OF journal_reached.no_file side(1) obs side(2-5), of "()", unfolded keys]
  obtain j s where o: "journal_open (JObj []) None = (Inr j, Some s)"
    using fact by (cases "journal_open (JObj []) None") (simp split: sum.splits option.splits)
  obtain res st' j' s' where run: "campaign_run ?obs demo_campaign None ((), j, s) = (res, st', j', s')"
    by (rule prod_cases4)
  show ?thesis using fact by (cases res) (simp_all add: o run)
qed

end
