(* ===== verification/Corpus.thy ===== *)
theory Corpus
  imports Collect PyText
begin

text \<open>
  The corpus under verification (\<open>stele/verification/corpus.py\<close>): every regular file under a
  directory with its digest and size, every path left out with the reason, the strict form of the
  manifest, and the check of a directory against it.  The main results: a corpus checks clean against
  the directory it was built from, and a clean check means that every document is there unchanged
  and that nothing the walk finds is unaccounted for.
\<close>

section \<open>The manifest\<close>

definition CorpusFormatError :: exn where "CorpusFormatError = OtherError ''CorpusFormatError''"

definition check_corpus_path :: "json \<Rightarrow> string result" where
  "check_corpus_path p =
     (case p of
        JStr s \<Rightarrow>
          if s = [] then Inl CorpusFormatError
          else if starts_with ''/'' s \<or> unsafe_parts (split_on (CHR ''/'') s) \<or> CHR 0x5C \<in> set s then Inl CorpusFormatError
          else Inr s
      | _ \<Rightarrow> Inl CorpusFormatError)"

record corpus_entry =
  ce_path :: string
  ce_sha256 :: string
  ce_size :: int

definition make_entry :: "json \<Rightarrow> json \<Rightarrow> json \<Rightarrow> corpus_entry result" where
  "make_entry p d n =
     (case check_corpus_path p of
        Inl e \<Rightarrow> Inl e
      | Inr s \<Rightarrow>
          (case d of
             JStr h \<Rightarrow>
               if \<not> is_digest h then Inl CorpusFormatError
               else (case n of
                       JInt i \<Rightarrow> if i < 0 then Inl CorpusFormatError else Inr \<lparr>ce_path = s, ce_sha256 = h, ce_size = i\<rparr>
                     | _ \<Rightarrow> Inl CorpusFormatError)
           | _ \<Rightarrow> Inl CorpusFormatError))"

definition entry_json :: "corpus_entry \<Rightarrow> json" where
  "entry_json e = JObj [(''path'', JStr (ce_path e)), (''sha256'', JStr (ce_sha256 e)), (''size'', JInt (ce_size e))]"

text \<open>What was left out: a path and why; the dataclass checks neither.\<close>

type_synonym excluded = "json \<times> json"

definition excluded_json :: "excluded \<Rightarrow> json" where
  "excluded_json x = JObj [(''path'', fst x), (''why'', snd x)]"

record corpus =
  cp_name :: string
  cp_entries :: "corpus_entry list"
  cp_excluded :: "excluded list"

text \<open>
  \<open>skipped != sorted(skipped)\<close> and \<open>set(skipped)\<close> for values read from JSON: texts and numbers
  compare among themselves, nothing else does, and lists and objects cannot be put in a set.
\<close>

definition number_of :: "json \<Rightarrow> rat option" where
  "number_of v =
     (case v of JInt i \<Rightarrow> Some (of_int i) | JBool b \<Rightarrow> Some (if b then 1 else 0) | JFloat (PNum r) \<Rightarrow> Some r
      | JFloat PNegZero \<Rightarrow> Some 0 | _ \<Rightarrow> None)"

definition text_of :: "json \<Rightarrow> string option" where
  "text_of v = (case v of JStr s \<Rightarrow> Some s | _ \<Rightarrow> None)"

definition in_order :: "json list \<Rightarrow> bool result" where
  "in_order vs =
     (if length vs \<le> 1 then Inr True
      else if list_all (\<lambda>v. text_of v \<noteq> None) vs then Inr (sorted (map (the \<circ> text_of) vs))
      else if list_all (\<lambda>v. number_of v \<noteq> None) vs then Inr (sorted (map (the \<circ> number_of) vs))
      else Inl TypeError)"

definition make_corpus :: "json \<Rightarrow> corpus_entry list \<Rightarrow> excluded list \<Rightarrow> corpus result" where
  "make_corpus name entries excl =
     (case name of
        JStr s \<Rightarrow>
          if s = [] then Inl CorpusFormatError
          else if \<not> sorted (map ce_path entries) \<or> \<not> distinct (map ce_path entries) then Inl CorpusFormatError
          else (case in_order (map fst excl) of
                  Inl e \<Rightarrow> Inl e
                | Inr False \<Rightarrow> Inl CorpusFormatError
                | Inr True \<Rightarrow>
                    if \<not> list_all (hashable \<circ> fst) excl then Inl TypeError
                    else if list_ex (\<lambda>x. \<exists>e \<in> set entries. fst x = JStr (ce_path e)) excl then Inl CorpusFormatError
                    else Inr \<lparr>cp_name = s, cp_entries = entries, cp_excluded = excl\<rparr>)
      | _ \<Rightarrow> Inl CorpusFormatError)"

definition corpus_json :: "corpus \<Rightarrow> json" where
  "corpus_json c = JObj
     [(''schema'', JStr ''stele.corpus''), (''schema_version'', JInt 1), (''name'', JStr (cp_name c)),
      (''entries'', JArr (map entry_json (cp_entries c))), (''excluded'', JArr (map excluded_json (cp_excluded c)))]"

definition corpus_to_canonical :: "corpus \<Rightarrow> string result" where
  "corpus_to_canonical c = canonical_json (corpus_json c)"

definition corpus_id :: "corpus \<Rightarrow> string result" where
  "corpus_id c = map_sum id sha256 (corpus_to_canonical c)"

text \<open>Reading: each \<open>**e\<close> needs an object with exactly the fields; an empty text or object iterates as no items.\<close>

definition items_of :: "json \<Rightarrow> json list result" where
  "items_of v =
     (case v of JArr vs \<Rightarrow> Inr vs | JStr s \<Rightarrow> if s = [] then Inr [] else Inl CorpusFormatError
      | JObj kvs \<Rightarrow> if kvs = [] then Inr [] else Inl CorpusFormatError | _ \<Rightarrow> Inl CorpusFormatError)"

fun read_entries :: "json list \<Rightarrow> corpus_entry list result" where
  "read_entries [] = Inr []"
| "read_entries (v # vs) =
     (case v of
        JObj kvs \<Rightarrow>
          if set (map fst kvs) \<noteq> {''path'', ''sha256'', ''size''} then Inl CorpusFormatError
          else (case make_entry (jget kvs ''path'') (jget kvs ''sha256'') (jget kvs ''size'') of
                  Inl e \<Rightarrow> Inl e
                | Inr x \<Rightarrow> map_sum id (\<lambda>xs. x # xs) (read_entries vs))
      | _ \<Rightarrow> Inl CorpusFormatError)"

fun read_excluded :: "json list \<Rightarrow> excluded list result" where
  "read_excluded [] = Inr []"
| "read_excluded (v # vs) =
     (case v of
        JObj kvs \<Rightarrow>
          if set (map fst kvs) \<noteq> {''path'', ''why''} then Inl CorpusFormatError
          else map_sum id (\<lambda>xs. (jget kvs ''path'', jget kvs ''why'') # xs) (read_excluded vs)
      | _ \<Rightarrow> Inl CorpusFormatError)"

definition type_to_format :: "'a result \<Rightarrow> 'a result" where
  "type_to_format r = (case r of Inl e \<Rightarrow> Inl (if e = TypeError then CorpusFormatError else e) | Inr x \<Rightarrow> Inr x)"

definition corpus_of_obj :: "(string \<times> json) list \<Rightarrow> corpus result" where
  "corpus_of_obj obj =
     (case items_of (jget obj ''entries'') of Inl e \<Rightarrow> Inl e | Inr es \<Rightarrow>
     (case read_entries es of Inl e \<Rightarrow> Inl e | Inr entries \<Rightarrow>
     (case items_of (jget obj ''excluded'') of Inl e \<Rightarrow> Inl e | Inr xs \<Rightarrow>
     (case read_excluded xs of Inl e \<Rightarrow> Inl e | Inr excl \<Rightarrow>
        type_to_format (make_corpus (jget obj ''name'') entries excl)))))"

definition corpus_from_canonical :: "string \<Rightarrow> corpus result" where
  "corpus_from_canonical data =
     (if \<not> utf8_ok data then Inl CorpusFormatError
      else case json_loads data of
        Some (JObj obj) \<Rightarrow>
          if set (map fst obj) \<noteq> {''schema'', ''schema_version'', ''name'', ''entries'', ''excluded''} then Inl CorpusFormatError
          else if \<not> py_eq (jget obj ''schema'') (JStr ''stele.corpus'') \<or> \<not> py_eq (jget obj ''schema_version'') (JInt 1)
          then Inl CorpusFormatError
          else (case corpus_of_obj obj of
                  Inl e \<Rightarrow> Inl e
                | Inr c \<Rightarrow>
                    (case corpus_to_canonical c of
                       Inl e \<Rightarrow> Inl e
                     | Inr t \<Rightarrow> if t \<noteq> data then Inl CorpusFormatError else Inr c))
      | _ \<Rightarrow> Inl CorpusFormatError)"

section \<open>Walking a directory\<close>

text \<open>
  The host: which links lead to directories; where listing a directory, \<open>lstat\<close> or opening fails,
  with the text of the error; and what is found behind a link on the way.
\<close>

record corpus_host =
  ch_link_dir :: "string \<Rightarrow> bool"
  ch_list_error :: "string list \<Rightarrow> bool"
  ch_stat_error :: "string list \<Rightarrow> string option"
  ch_open_error :: "string list \<Rightarrow> string option"
  ch_through :: "string list \<Rightarrow> node result"

definition walk_kind :: "corpus_host \<Rightarrow> string list \<Rightarrow> node \<Rightarrow> string" where
  "walk_kind h p n =
     (case ch_stat_error h p of
        Some e \<Rightarrow> ''unreadable: '' @ e
      | None \<Rightarrow> (case n of Reg _ \<Rightarrow> ''file'' | Link _ \<Rightarrow> ''symlink'' | _ \<Rightarrow> ''not a regular file''))"

text \<open>One directory: the links among its directories, then its other entries that are not directories.\<close>

definition walk_dir :: "corpus_host \<Rightarrow> string list \<times> (string \<times> node) list \<Rightarrow> (string list \<times> string) list" where
  "walk_dir h = (\<lambda>(pre, es).
     map (\<lambda>(name, n). (pre @ [name], ''symlink''))
       (sort_key fst (filter (\<lambda>(_, n). listed_as_dir (ch_link_dir h) n \<and> (case n of Folder _ \<Rightarrow> False | _ \<Rightarrow> True)) es))
     @ map (\<lambda>(name, n). (pre @ [name], walk_kind h (pre @ [name]) n))
         (sort_key fst (filter (\<lambda>(_, n). \<not> listed_as_dir (ch_link_dir h) n) es)))"

text \<open>
  \<open>_walk\<close>, with the directories in the order of the tree.  \<open>os.walk\<close> says nothing of a directory
  it cannot list: neither it nor what is under it is found.
\<close>

definition listable :: "corpus_host \<Rightarrow> string list \<Rightarrow> bool" where
  "listable h pre \<longleftrightarrow> list_all (\<lambda>k. \<not> ch_list_error h (take k pre)) [0..<Suc (length pre)]"

definition corpus_walk :: "corpus_host \<Rightarrow> node option \<Rightarrow> (string list \<times> string) list" where
  "corpus_walk h disk =
     (case disk of
        None \<Rightarrow> []
      | Some n \<Rightarrow> concat (map (walk_dir h) (filter (\<lambda>(pre, _). listable h pre) (visits n))))"

fun passes_link :: "node \<Rightarrow> string list \<Rightarrow> bool" where
  "passes_link (Link t) (x # xs) = True"
| "passes_link (Folder es) (x # y # xs) = (case map_of es x of None \<Rightarrow> False | Some n \<Rightarrow> passes_link n (y # xs))"
| "passes_link _ _ = False"

text \<open>\<open>os.lstat(root / path)\<close>, which follows the links on the way.\<close>

definition lstat_at :: "corpus_host \<Rightarrow> node option \<Rightarrow> string list \<Rightarrow> node result" where
  "lstat_at h disk parts =
     (if ch_stat_error h parts \<noteq> None then Inl OSError
      else case disk of
        None \<Rightarrow> Inl FileNotFoundError
      | Some n \<Rightarrow> if passes_link n parts then ch_through h parts else resolve n parts)"

section \<open>Building and checking\<close>

definition rel_path :: "string list \<Rightarrow> string" where
  "rel_path parts = joins ''/'' parts"

fun gather_corpus ::
  "corpus_host \<Rightarrow> node option \<Rightarrow> (string list \<times> string) list \<Rightarrow> (corpus_entry list \<times> excluded list) result" where
  "gather_corpus h disk [] = Inr ([], [])"
| "gather_corpus h disk ((p, kind) # rest) =
     (let skip = (\<lambda>why. map_sum id (\<lambda>(es, xs). (es, (JStr (rel_path p), JStr why) # xs)) (gather_corpus h disk rest)) in
      if kind \<noteq> ''file'' then skip kind
      else case ch_open_error h p of
        Some e \<Rightarrow> skip (''unreadable: '' @ e)
      | None \<Rightarrow>
          (case lstat_at h disk p of
             Inr (Reg b) \<Rightarrow>
               (case make_entry (JStr (rel_path p)) (JStr (sha256 b)) (JInt (int (length b))) of
                  Inl e \<Rightarrow> Inl e
                | Inr x \<Rightarrow> map_sum id (\<lambda>(es, xs). (x # es, xs)) (gather_corpus h disk rest))
           | _ \<Rightarrow> Inl OSError))"

definition corpus_build :: "corpus_host \<Rightarrow> string \<Rightarrow> node option \<Rightarrow> corpus result" where
  "corpus_build h name disk =
     (case disk of
        Some (Folder _) \<Rightarrow>
          (case gather_corpus h disk (corpus_walk h disk) of
             Inl e \<Rightarrow> Inl e
           | Inr (es, xs) \<Rightarrow>
               make_corpus (JStr name) (sort_key ce_path es) (sort_key (\<lambda>x. the (text_of (fst x))) xs))
      | _ \<Rightarrow> Inl NotADirectoryError)"

text \<open>What \<open>check\<close> finds of one document; only a missing file is caught from \<open>lstat\<close>.\<close>

definition check_entry :: "corpus_host \<Rightarrow> node option \<Rightarrow> corpus_entry \<Rightarrow> string list result" where
  "check_entry h disk e =
     (let p = split_on (CHR ''/'') (ce_path e) in
      case lstat_at h disk p of
        Inl x \<Rightarrow> if x = FileNotFoundError then Inr [ce_path e @ '': missing''] else Inl x
      | Inr (Reg b) \<Rightarrow>
          (case ch_open_error h p of
             Some t \<Rightarrow> Inr [ce_path e @ '': unreadable: '' @ t]
           | None \<Rightarrow>
               if sha256 b \<noteq> ce_sha256 e \<or> int (length b) \<noteq> ce_size e
               then Inr [ce_path e @ '': content changed since the manifest was taken''] else Inr [])
      | Inr _ \<Rightarrow> Inr [ce_path e @ '': no longer a regular file''])"

fun check_entries :: "corpus_host \<Rightarrow> node option \<Rightarrow> corpus_entry list \<Rightarrow> string list result" where
  "check_entries h disk [] = Inr []"
| "check_entries h disk (e # es) =
     (case check_entry h disk e of
        Inl x \<Rightarrow> Inl x
      | Inr ps \<Rightarrow> map_sum id (\<lambda>qs. ps @ qs) (check_entries h disk es))"

definition unlisted :: "corpus_host \<Rightarrow> node option \<Rightarrow> corpus \<Rightarrow> string list" where
  "unlisted h disk c =
     filter (\<lambda>p. p \<notin> ce_path ` set (cp_entries c) \<and> JStr p \<notin> fst ` set (cp_excluded c))
       (sort (remdups (map (rel_path \<circ> fst) (corpus_walk h disk))))"

definition corpus_check :: "corpus_host \<Rightarrow> node option \<Rightarrow> corpus \<Rightarrow> string list result" where
  "corpus_check h disk c =
     map_sum id (\<lambda>ps. map (\<lambda>p. p @ '': not in the corpus manifest'') (unlisted h disk c) @ ps)
       (check_entries h disk (cp_entries c))"

section \<open>What a check means\<close>

definition document_there :: "corpus_host \<Rightarrow> node option \<Rightarrow> corpus_entry \<Rightarrow> bool" where
  "document_there h disk e \<longleftrightarrow>
     (case lstat_at h disk (split_on (CHR ''/'') (ce_path e)) of
        Inr (Reg b) \<Rightarrow>
          ch_open_error h (split_on (CHR ''/'') (ce_path e)) = None \<and> sha256 b = ce_sha256 e \<and> int (length b) = ce_size e
      | _ \<Rightarrow> False)"

lemma check_entry_clean: "check_entry h disk e = Inr [] \<longleftrightarrow> document_there h disk e"
  by (auto simp: check_entry_def document_there_def Let_def split: sum.splits node.splits option.splits)

lemma check_entries_clean: "check_entries h disk es = Inr [] \<longleftrightarrow> list_all (document_there h disk) es"
proof (induction es)
  case (Cons e es)
  show ?case
  proof (cases "check_entry h disk e")
    case (Inl x)
    then show ?thesis using check_entry_clean [of h disk e] by simp
  next
    case (Inr ps)
    then show ?thesis using check_entry_clean [of h disk e] Cons
      by (cases "check_entries h disk es") (auto simp: map_sum_Inr_iff)
  qed
qed simp

text \<open>
  A clean check is exactly an unchanged corpus: every document is there as a regular file that
  opens, with the bytes' digest and size of the manifest; and every path the walk finds is a document
  or was left out when the manifest was taken.
\<close>

lemma corpus_check_clean:
  "corpus_check h disk c = Inr [] \<longleftrightarrow>
     list_all (document_there h disk) (cp_entries c) \<and>
     list_all (\<lambda>(p, _). rel_path p \<in> ce_path ` set (cp_entries c) \<or> JStr (rel_path p) \<in> fst ` set (cp_excluded c)) (corpus_walk h disk)"
proof -
  have "unlisted h disk c = [] \<longleftrightarrow>
      list_all (\<lambda>(p, _). rel_path p \<in> ce_path ` set (cp_entries c) \<or> JStr (rel_path p) \<in> fst ` set (cp_excluded c)) (corpus_walk h disk)"
    by (simp add: unlisted_def filter_empty_conv list_all_iff case_prod_beta)
  then show ?thesis
    using check_entries_clean [of h disk "cp_entries c"]
    by (cases "check_entries h disk (cp_entries c)") (auto simp: corpus_check_def)
qed

lemma gather_corpus_cases:
  "gather_corpus h disk ws = Inr (es, xs) \<Longrightarrow>
   (\<forall>e \<in> set es. \<exists>p b. (p, ''file'') \<in> set ws \<and> lstat_at h disk p = Inr (Reg b) \<and> ch_open_error h p = None \<and>
      e = \<lparr>ce_path = rel_path p, ce_sha256 = sha256 b, ce_size = int (length b)\<rparr>) \<and>
   (\<forall>(p, k) \<in> set ws. rel_path p \<in> ce_path ` set es \<or> JStr (rel_path p) \<in> fst ` set xs)"
proof (induction h disk ws arbitrary: es xs rule: gather_corpus.induct)
  case (1 h disk)
  then show ?case by simp
next
  case (2 h disk p kind rest)
  obtain r where r: "gather_corpus h disk rest = r" by blast
  have skip: ?case if "\<exists>why. map_sum id (\<lambda>(es, xs). (es, (JStr (rel_path p), JStr why) # xs)) r = Inr (es, xs)"
    using that "2.IH"(1) r by (cases r) (auto, blast+)
  show ?case
  proof (cases "kind = ''file'' \<and> ch_open_error h p = None")
    case False
    then have "\<exists>why. map_sum id (\<lambda>(es, xs). (es, (JStr (rel_path p), JStr why) # xs)) r = Inr (es, xs)"
      using "2.prems" r by (auto simp: Let_def split: if_splits option.splits)
    then show ?thesis by (rule skip)
  next
    case True
    then obtain b x where b: "lstat_at h disk p = Inr (Reg b)"
      and x: "make_entry (JStr (rel_path p)) (JStr (sha256 b)) (JInt (int (length b))) = Inr x"
      using "2.prems" by (auto simp: Let_def split: sum.splits node.splits)
    have xe: "x = \<lparr>ce_path = rel_path p, ce_sha256 = sha256 b, ce_size = int (length b)\<rparr>"
      using x by (auto simp: make_entry_def check_corpus_path_def split: if_splits)
    obtain es' where es': "r = Inr (es', xs)" "es = x # es'"
      using "2.prems" True b x r by (auto simp: Let_def map_sum_Inr_iff)
    show ?thesis using "2.IH"(1) [of es' xs] es' r b True xe by (auto, blast+)
  qed
qed

lemma make_corpus_Inr:
  "make_corpus name es xs = Inr c \<Longrightarrow> cp_entries c = es \<and> cp_excluded c = xs"
  by (auto simp: make_corpus_def split: json.splits if_splits sum.splits bool.splits)

lemma visits_names:
  "posix_tree n \<Longrightarrow> (pre, es) \<in> set (visits n) \<Longrightarrow>
   list_all valid_name pre \<and> list_all (\<lambda>(name, _). valid_name name) es"
proof (induction n arbitrary: pre es)
  case (Folder fs)
  show ?case
  proof (cases "pre = [] \<and> es = fs")
    case True
    then show ?thesis using Folder.prems(1) by (auto simp: posix_tree_Folder list_all_iff)
  next
    case False
    then obtain name m q where m: "(name, m) \<in> set fs" "(q, es) \<in> set (visits m)" "pre = name # q"
      using Folder.prems(2) by (auto simp: visits_Folder dirs_under_def)
    then have "valid_name name" "posix_tree m" using Folder.prems(1) by (auto simp: posix_tree_Folder list_all_iff)
    then show ?thesis using Folder.IH [OF m(1), of m q es] m by (simp add: snds.simps)
  qed
qed simp_all

lemma walk_names:
  assumes "posix_tree n" "(p, k) \<in> set (corpus_walk h (Some n))"
  shows "p \<noteq> [] \<and> list_all valid_name p"
proof -
  obtain pre es where v: "(pre, es) \<in> set (visits n)" "(p, k) \<in> set (walk_dir h (pre, es))"
    using assms(2) by (auto simp: corpus_walk_def)
  then show ?thesis using visits_names [OF assms(1) v(1)] by (auto simp: walk_dir_def list_all_iff)
qed

text \<open>
  C40. A corpus checks clean against the directory it was built from, whatever was left out: links,
  special files, files that could not be read.
\<close>

theorem built_corpus_checks:
  assumes "corpus_build h name (Some n) = Inr c" "posix_tree n"
  shows "corpus_check h (Some n) c = Inr []"
proof -
  obtain es xs where g: "gather_corpus h (Some n) (corpus_walk h (Some n)) = Inr (es, xs)"
    and c: "make_corpus (JStr name) (sort_key ce_path es) (sort_key (\<lambda>x. the (text_of (fst x))) xs) = Inr c"
    using assms(1) unfolding corpus_build_def
    by (cases n; cases "gather_corpus h (Some n) (corpus_walk h (Some n))") (simp_all split: prod.splits)
  note facts = gather_corpus_cases [OF g] and mk = make_corpus_Inr [OF c]
  have "document_there h (Some n) e" if e: "e \<in> set es" for e
  proof -
    obtain p b where p: "(p, ''file'') \<in> set (corpus_walk h (Some n))" "lstat_at h (Some n) p = Inr (Reg b)" "ch_open_error h p = None"
      "e = \<lparr>ce_path = rel_path p, ce_sha256 = sha256 b, ce_size = int (length b)\<rparr>"
      using bspec [OF conjunct1 [OF facts] e] by (elim exE conjE)
    have "p \<noteq> []" "\<forall>s \<in> set p. CHR ''/'' \<notin> set s"
      using walk_names [OF assms(2) p(1)] by (simp_all add: list_all_iff valid_name_def)
    then have "split_on (CHR ''/'') (rel_path p) = p"
      unfolding rel_path_def by (rule split_on_joins)
    then show ?thesis using p by (simp add: document_there_def)
  qed
  moreover have "rel_path p \<in> ce_path ` set es \<or> JStr (rel_path p) \<in> fst ` set xs" if "(p, k) \<in> set (corpus_walk h (Some n))" for p k
    using bspec [OF conjunct2 [OF facts] that] by simp
  ultimately have "list_all (document_there h (Some n)) (cp_entries c)"
    "list_all (\<lambda>(p, _). rel_path p \<in> ce_path ` set (cp_entries c) \<or> JStr (rel_path p) \<in> fst ` set (cp_excluded c)) (corpus_walk h (Some n))"
    using mk by (auto simp: list_all_iff)
  then show ?thesis by (simp only: corpus_check_clean)
qed

text \<open>
  What is in a directory that cannot be listed is neither a document nor left out: the manifest
  does not mention it.
\<close>

lemma unlistable_silent:
  "corpus_walk (\<lparr>ch_link_dir = \<lambda>t. False, ch_list_error = \<lambda>p. p = [''d''], ch_stat_error = \<lambda>p. None, ch_open_error = \<lambda>p. None,
      ch_through = \<lambda>p. Inl OSError\<rparr>) (Some (Folder [(''d'', Folder [(''x'', Reg b)])])) = []"
  by (simp add: corpus_walk_def listable_def walk_dir_def listed_as_dir_def visits_Folder dirs_under_def)

theorem built_corpus_checks_witness:
  "\<exists>c. cp_entries c = [\<lparr>ce_path = ''x'', ce_sha256 = sha256 ''a'', ce_size = 1\<rparr>] \<and>
     corpus_check \<lparr>ch_link_dir = \<lambda>t. False, ch_list_error = \<lambda>p. False, ch_stat_error = \<lambda>p. None, ch_open_error = \<lambda>p. None,
       ch_through = \<lambda>p. Inl OSError\<rparr> (Some (Folder [(''x'', Reg ''a'')])) c = Inr []"
  (is "\<exists>c. _ \<and> corpus_check ?h ?n c = _")
proof -
  obtain c where c: "corpus_build ?h ''n'' ?n = Inr c" "cp_entries c = [\<lparr>ce_path = ''x'', ce_sha256 = sha256 ''a'', ce_size = 1\<rparr>]"
    by (simp add: visits_Folder dirs_under_def corpus_build_def corpus_walk_def listable_def walk_dir_def listed_as_dir_def walk_kind_def lstat_at_def rel_path_def
        make_entry_def check_corpus_path_def unsafe_parts_def starts_with_def make_corpus_def in_order_def lookup_entry_def nul_def)
  moreover have "posix_tree (Folder [(''x'', Reg ''a'')])" by (simp add: posix_tree_Folder valid_name_def nul_def)
  ultimately show ?thesis using built_corpus_checks by blast
qed

end
