(* ===== verification/Spec2Isabelle.thy ===== *)
theory Spec2Isabelle
  imports OciSafety Identity Wasm Campaign Corpus
begin

text \<open>
  A verification development for Stele (\<open>src/stele\<close>), the ingestion ledger: untrusted parsers run
  in a sandbox, what they read and wrote goes to a content-addressed archive, and a ledger says
  which run produced what, for good.

  \<^bold>\<open>The program and the theories.\<close>  In the order in which the parts use each other:

  \<^item> \<open>Prelude\<close>, \<open>Sha256\<close>, \<open>PyFloat\<close>, \<open>Json\<close>, \<open>JsonLemmas\<close>: what the source uses of Python.  \<open>str\<close> and
    \<open>bytes\<close> are both HOL strings (a \<open>str\<close> as its UTF-8 bytes; lone surrogates are invalid bytes);
    dictionaries are association lists in insertion order; exceptions are the datatype
    \<open>exn\<close> and results \<open>exn + 'a\<close>; floats are exact IEEE values.  SHA-256 is defined in full, and
    never evaluated in a proof; a conclusion that needs it to be injective names the two texts of the
    program that would have to collide.
  \<^item> \<open>Records\<close> (\<open>archive/records.py\<close>), \<open>Hashing\<close> (\<open>ledger/hashing.py\<close>), \<open>Archive\<close>
    (\<open>archive/store.py\<close>), \<open>Ingest\<close> (\<open>archive/ingest.py\<close>): records and manifests, the no-follow walk
    of a file system, and the evidence store, a function from paths to files.
  \<^item> \<open>Models\<close>, \<open>Database\<close>, \<open>Chain\<close>, \<open>Ledger\<close>, \<open>VerifyLedger\<close> (\<open>ledger/models.py\<close>, \<open>events.py\<close>,
    \<open>store.py\<close>): the tables with their triggers and constraints, the hash chain over every change,
    the store's operations as state passing over \<open>ledger\<close> (archive and database), and the replay of
    the chain against the tables.
  \<^item> \<open>LedgerInv\<close>, \<open>LedgerSafety\<close>, \<open>LedgerWitness\<close>: the ledger as a transition system, its invariant,
    and that every operation takes its steps.
  \<^item> \<open>Adapter\<close>, \<open>Delivery\<close>, \<open>DeliverySafety\<close>, \<open>Dispatcher\<close> (\<open>contracts/adapter.py\<close>,
    \<open>ledger/delivery.py\<close>, \<open>contracts/dispatcher.py\<close>): validated chunks, the delivery log and what it
    proves of a target, dispatch and retraction.  Adapters and target writers are parameters.
  \<^item> \<open>Containment\<close>, \<open>Staging\<close>, \<open>Collect\<close>, \<open>Runner\<close> (\<open>containment/backend.py\<close>, \<open>telemetry.py\<close>,
    \<open>result.py\<close>, \<open>staging.py\<close>, \<open>artifacts.py\<close>, \<open>runner.py\<close>): choosing a backend, staging the input,
    collecting the output, and the run as a whole.  A backend's \<open>execute\<close> is a parameter.
  \<^item> \<open>Transaction\<close> (\<open>ledger/transaction.py\<close>): from a finished run to a sealed record.
  \<^item> \<open>Validation\<close>, \<open>ReplayPolicy\<close>, \<open>ReplayEngine\<close> (\<open>replay/\<close>): validating artifacts, comparing
    outputs, replaying runs and acting on the outcome.

  \<^item> \<open>Seccomp\<close>, \<open>Landlock\<close>, \<open>Bubblewrap\<close>, \<open>Oci\<close>, \<open>OciSafety\<close>, \<open>Wasi\<close>, \<open>Wasm\<close> (\<open>containment/seccomp.py\<close>,
    \<open>landlock.py\<close>, \<open>sandbox.py\<close>, \<open>oci.py\<close>, \<open>wasm.py\<close>): the backends.  The compiler of the system call
    policy, the launcher that restricts itself before it becomes the parser, the command lines,
    the imports a WebAssembly guest is given, and how every way to end is reported.
  \<^item> \<open>Processes\<close> (\<open>containment/capture.py\<close>, \<open>run_process\<close> of \<open>backend.py\<close>): the bounded capture of
    output, and the race between the timer, the waiting thread and the process as a step relation.
  \<^item> \<open>PyText\<close>, \<open>Contract\<close>, \<open>Markdown\<close>, \<open>ChatGPT\<close>, \<open>Normalize\<close>, \<open>Resolver\<close> (\<open>extraction/\<close>,
    \<open>adapters/chatgpt.py\<close>): extractions and their strict parser, the normalizers that make them from
    a bundle, and the resolver that checks them against the evidence without trusting those.
  \<^item> \<open>Refs\<close>, \<open>Identity\<close> (\<open>identity/\<close>): the one spelling of a reference, and what it names.
  \<^item> \<open>Corpus\<close>, \<open>Journal\<close>, \<open>Campaign\<close> (\<open>verification/corpus.py\<close>, \<open>campaign.py\<close>): the documents to
    verify, the append-only journal with its recovery after a cut, and the campaign.

  \<^bold>\<open>What the lemmas show.\<close>  Each component has its functional behaviour on every branch, its
  round trips where it prints and parses (\<open>Hashing\<close>, \<open>Records\<close>, \<open>Contract\<close>, \<open>Refs\<close>, \<open>Corpus\<close>,
  \<open>Journal\<close> exactly: what is accepted is the canonical form), and an invariant its operations keep.
  The ledger is a transition system whose steps the operations are shown to be; what holds in every
  reachable ledger is proved there once and carried to the dispatcher, the transaction, the replay
  engine and the campaign.  The life of a record is proved of the operations themselves, their
  checks and transactions interleaved in any order.  A conclusion about the ledger alone needs no
  law of the sandbox: a backend may answer anything.

  \<^bold>\<open>Interfaces.\<close>  \<open>content_store\<close> is what a content-addressed store promises, held by the archive;
  \<open>hash_chain\<close> is what a digest over the previous digest gives, held by the event log;
  \<open>option_reader\<close> is how a program reads its options, held by bubblewrap's reader, an engine's and
  the launcher's own; \<open>log_relation\<close> is what a relation between ledgers needs for a dispatch to keep
  to it, held by the steps of the ledger and by the equality of the records.

  \<^bold>\<open>Parameters and their laws.\<close>  Code outside \<open>src\<close> is an argument.  The kernel that runs a filter
  follows the laws of classic BPF (\<open>classic_bpf\<close>, over the sixteen words of \<open>struct seccomp_data\<close>);
  the kernel that restricts a task those of Landlock (\<open>landlock_kernel\<close>: what a ruleset grants,
  and that a task which gave up new privileges can enforce it); a container engine answers an inspection
  by whether it has the container, if it is reached at all (\<open>container_engine\<close>).  Each has an
  instance that shows that the laws can hold.  Wasmtime is a function from a run's setup to how the
  run ended, its host's WASI a record of functions; adapters, target writers, \<open>execute\<close> of a
  backend, a parser's build and policy, UUIDs, the clock, exception texts, search paths and file
  systems are arguments without laws, but for those a statement writes out.

  \<^bold>\<open>Bounds and termination.\<close>  Loops are structural or have a measure.  The scanner of \<open>Json\<close> has
  fuel, twice the length of its text and more than the nesting it can hold; that it is enough is
  part of the round trip.  The directory listing of \<open>Wasi\<close> depends on the answers of the host: it is
  a partial function, and that it ends is proved.  Filter words are 32 bits wide, hashes are
  computed on words, and a guest's pointers and cookies have their wrap-around written out.

  \<^bold>\<open>Not modelled.\<close>  Command lines and printing (\<open>__main__.py\<close>, \<open>extractors/\<close>); the legacy migration
  (\<open>ledger/migration.py\<close>), which copies rows of an older format; the builds of the bundled
  third-party parsers and their entry scripts (\<open>parsers/\<close> in both places); the lanes, the report and
  the sign-off of a campaign, which are wiring and statistics.  SQLite is the constraints, triggers
  and transactions that the source declares, and its files and locks are left out; so are pipes,
  temporary files, descriptors and permissions but for the walks that depend on them.

  \<^bold>\<open>Known limits.\<close>  Python refuses to read or write an integer of more than 4300 digits and a JSON
  text nested beyond its recursion limit; \<open>Refs\<close> has the former, the JSON scanner neither, so a text
  beyond those limits is outside what the exact parsers say.  The comparison of parsed JSON takes a
  NaN to equal itself.  A dictionary with keys that are not texts is refused where \<open>json.dumps\<close> would
  write some of them as text; the callers refuse it all the same, if with another exception.
\<close>

end
